(* ===== verification/Prelude.thy ===== *)
theory Prelude
  imports Main "HOL-Library.Word" "HOL-Library.Monad_Syntax"
begin

text \<open>
  Shared vocabulary of the development.

  \<^item> Type names for the C integer types the kernel uses (\<open>uint8_t\<close> \<dots> \<open>uint64_t\<close> become
    words of that width; \<open>int32_t\<close> results, which the kernel keeps in the errno range or
    below \<open>INT32_MAX\<close>, become \<^typ>\<open>int\<close>).
  \<^item> \<open>panic\<close>: an operation that may stop the machine through \<open>panic()\<close> returns an
    \<^typ>\<open>'a option\<close>, and \<^const>\<open>None\<close> is the panic. State is passed and returned explicitly.
  \<^item> Lemmas that turn the masks and shifts of the C code into \<open>div\<close> and \<open>mod\<close> on \<^typ>\<open>nat\<close>
    (collection \<open>word_nat\<close>), and lemmas on updated arrays.
  Arrays with a fixed size that are only read and written by index are functions from the
  index; the C code's bounds are proved as lemmas of the components.
\<close>

unbundle bit_operations_syntax

type_synonym u8 = "8 word"
type_synonym u16 = "16 word"
type_synonym u32 = "32 word"
type_synonym u64 = "64 word"

named_theorems word_nat \<open>masks, shifts and casts as arithmetic on natural numbers\<close>

subsection \<open>Error numbers (include/minios/abi/errno.h)\<close>

abbreviation (input) MINIOS_ENOENT :: int where "MINIOS_ENOENT \<equiv> 2"
abbreviation (input) MINIOS_EIO :: int where "MINIOS_EIO \<equiv> 5"
abbreviation (input) MINIOS_E2BIG :: int where "MINIOS_E2BIG \<equiv> 7"
abbreviation (input) MINIOS_ENOEXEC :: int where "MINIOS_ENOEXEC \<equiv> 8"
abbreviation (input) MINIOS_EBADF :: int where "MINIOS_EBADF \<equiv> 9"
abbreviation (input) MINIOS_ECHILD :: int where "MINIOS_ECHILD \<equiv> 10"
abbreviation (input) MINIOS_EAGAIN :: int where "MINIOS_EAGAIN \<equiv> 11"
abbreviation (input) MINIOS_ENOMEM :: int where "MINIOS_ENOMEM \<equiv> 12"
abbreviation (input) MINIOS_EFAULT :: int where "MINIOS_EFAULT \<equiv> 14"
abbreviation (input) MINIOS_EBUSY :: int where "MINIOS_EBUSY \<equiv> 16"
abbreviation (input) MINIOS_EEXIST :: int where "MINIOS_EEXIST \<equiv> 17"
abbreviation (input) MINIOS_ENOTDIR :: int where "MINIOS_ENOTDIR \<equiv> 20"
abbreviation (input) MINIOS_EISDIR :: int where "MINIOS_EISDIR \<equiv> 21"
abbreviation (input) MINIOS_EINVAL :: int where "MINIOS_EINVAL \<equiv> 22"
abbreviation (input) MINIOS_ENFILE :: int where "MINIOS_ENFILE \<equiv> 23"
abbreviation (input) MINIOS_EMFILE :: int where "MINIOS_EMFILE \<equiv> 24"
abbreviation (input) MINIOS_ENOSPC :: int where "MINIOS_ENOSPC \<equiv> 28"
abbreviation (input) MINIOS_ENOSYS :: int where "MINIOS_ENOSYS \<equiv> 38"
abbreviation (input) MINIOS_ENOTEMPTY :: int where "MINIOS_ENOTEMPTY \<equiv> 39"

subsection \<open>Words as natural numbers\<close>

lemma unat_and_mask: "unat ((x :: 'a :: len word) AND mask n) = unat x mod 2 ^ n"
proof -
  have "unat (take_bit n x) = take_bit n (unat x)"
    by (rule unsigned_take_bit_eq)
  then show ?thesis
    by (simp only: take_bit_eq_mask [symmetric] take_bit_nat_def)
qed

lemma unat_drop_bit: "unat (drop_bit n (x :: 'a :: len word)) = unat x div 2 ^ n"
proof -
  have "unat (drop_bit n x) = drop_bit n (unat x)"
    by (rule unat_drop_bit_eq)
  then show ?thesis
    by (simp only: drop_bit_nat_def)
qed

lemma and_not_mask: "(x :: 'a :: len word) AND NOT (mask n) = push_bit n (drop_bit n x)"
  by (rule bit_word_eqI) (auto simp: bit_simps)

lemma unat_and_not_mask: "unat ((x :: 'a :: len word) AND NOT (mask n)) = (unat x div 2 ^ n) * 2 ^ n"
proof -
  have "x = (x AND NOT (mask n)) + (x AND mask n)"
    by (metis and_not_mask bits_ident take_bit_eq_mask)
  moreover have "unat (x AND NOT (mask n)) \<le> unat x"
    by (metis word_and_le2 word_le_nat_alt)
  ultimately have "unat (x AND NOT (mask n)) = unat x - unat (x AND mask n)"
    by (metis add_diff_cancel_right' unat_sub word_and_le2)
  then show ?thesis
    by (simp add: unat_and_mask minus_mod_eq_div_mult)
qed

lemma unat_and_FFF [word_nat]: "unat ((x :: u32) AND 0xFFF) = unat x mod 4096"
  using unat_and_mask [of x 12] by (simp add: mask_eq_exp_minus_1)

lemma unat_and_3FF [word_nat]: "unat ((x :: u32) AND 0x3FF) = unat x mod 1024"
  using unat_and_mask [of x 10] by (simp add: mask_eq_exp_minus_1)

lemma unat_and_7 [word_nat]: "unat ((x :: u32) AND 7) = unat x mod 8"
  using unat_and_mask [of x 3] by (simp add: mask_eq_exp_minus_1)

lemma unat_and_FFFFF000 [word_nat]: "unat ((x :: u32) AND 0xFFFFF000) = unat x div 4096 * 4096"
proof -
  have "NOT (mask 12) = (0xFFFFF000 :: u32)" by (simp add: mask_eq_exp_minus_1)
  then show ?thesis using unat_and_not_mask [of x 12] by simp
qed

lemma unat_and_FFFFFFF8 [word_nat]: "unat ((x :: u32) AND 0xFFFFFFF8) = unat x div 8 * 8"
proof -
  have "NOT (mask 3) = (0xFFFFFFF8 :: u32)" by (simp add: mask_eq_exp_minus_1)
  then show ?thesis using unat_and_not_mask [of x 3] by simp
qed

lemma unat_shr_12 [word_nat]: "unat (drop_bit 12 (x :: u32)) = unat x div 4096"
  by (simp add: unat_drop_bit)

lemma unat_shr_22 [word_nat]: "unat (drop_bit 22 (x :: u32)) = unat x div 4194304"
  by (simp add: unat_drop_bit)

lemma unat_shr_3 [word_nat]: "unat (drop_bit 3 (x :: u32)) = unat x div 8"
  by (simp add: unat_drop_bit)

lemma unat_u8_bit [word_nat]: "unat (ucast (x :: u8) :: u32) = unat x"
proof -
  have "unat x < 256" using unsigned_less [of x, where 'a = nat] by simp
  then show ?thesis by (simp add: unsigned_ucast_eq take_bit_nat_def)
qed

lemma unat_of_nat32 [word_nat]: "n < 4294967296 \<Longrightarrow> unat (of_nat n :: u32) = n"
  by (simp add: unat_of_nat)

lemma unat_lt_2p32: "unat (x :: u32) < 4294967296"
  using unsigned_less [of x] by simp

lemma sint_u32: "sint (w :: u32) = (if unat w < 2147483648 then int (unat w) else int (unat w) - 4294967296)"
proof -
  define u where "u = int (unat w)"
  have l: "0 \<le> u" "u < 4294967296" using uint_lt2p [of w] by (simp_all add: u_def)
  have s: "sint w = signed_take_bit 31 u" by (simp add: sint_uint u_def)
  have "signed_take_bit 31 u = (if u < 2147483648 then u else u - 4294967296)"
  proof (cases "u < 2147483648")
    case True
    then have "- (2 ^ 31) \<le> u" "u < 2 ^ 31" using l by simp_all
    then show ?thesis using True by (simp add: signed_take_bit_int_eq_self)
  next
    case False
    have "u div 2147483648 = 1" using l False by linarith
    then have b: "bit u 31" by (simp add: bit_int_def)
    have "take_bit (Suc 31) u = u" by (rule take_bit_int_eq_self) (use l in simp_all)
    then show ?thesis using False b signed_take_bit_eq_take_bit_minus [of 31 u] by simp
  qed
  moreover have "u < 2147483648 \<longleftrightarrow> unat w < 2147483648" unfolding u_def by linarith
  ultimately show ?thesis using s by (simp add: u_def)
qed

lemma sint_nonneg: "0 \<le> sint (w :: u32) \<longleftrightarrow> unat w < 2147483648"
proof (cases "unat w < 2147483648")
  case False
  have "int (unat w) - 4294967296 < 0" using unat_lt_2p32 [of w] by linarith
  then have "sint w < 0" using False by (simp only: sint_u32 if_False)
  then show ?thesis using False by linarith
qed (simp add: sint_u32)

text \<open>Words under exclusive or.\<close>

lemma xor_cancel: "(c :: 'a :: len word) XOR x = c XOR y \<Longrightarrow> x = y"
  by (metis xor.left_neutral xor.assoc xor_self_eq)

subsection \<open>Counting loops\<close>

text \<open>
  \<open>for (i = first; i < limit; ++i) { body }\<close> without an early exit is \<open>for_range\<close>; a loop whose
  body only tests and returns at the first hit is \<open>for_find\<close>; a loop that rejects at the first
  bad index is \<open>for_all\<close>.
\<close>

definition for_range :: "nat \<Rightarrow> nat \<Rightarrow> (nat \<Rightarrow> 's \<Rightarrow> 's) \<Rightarrow> 's \<Rightarrow> 's" where
  "for_range first limit body s = fold body [first..<limit] s"

definition for_find :: "nat \<Rightarrow> nat \<Rightarrow> (nat \<Rightarrow> bool) \<Rightarrow> nat option" where
  "for_find first limit P = find P [first..<limit]"

definition for_all :: "nat \<Rightarrow> nat \<Rightarrow> (nat \<Rightarrow> bool) \<Rightarrow> bool" where
  "for_all first limit P = list_all P [first..<limit]"

lemma for_range_empty [simp]: "limit \<le> first \<Longrightarrow> for_range first limit body s = s"
  by (simp add: for_range_def)

lemma for_range_last:
  "first \<le> limit \<Longrightarrow> for_range first (Suc limit) body s = body limit (for_range first limit body s)"
  by (simp add: for_range_def)

lemma for_range_first:
  "first < limit \<Longrightarrow> for_range first limit body s = for_range (Suc first) limit body (body first s)"
  by (simp add: for_range_def upt_conv_Cons)

text \<open>The loop rule: an indexed invariant that the body carries from \<open>i\<close> to \<open>Suc i\<close>.\<close>

lemma for_range_rule:
  assumes "first \<le> limit" and "I first s"
    and "\<And>i s. first \<le> i \<Longrightarrow> i < limit \<Longrightarrow> I i s \<Longrightarrow> I (Suc i) (body i s)"
  shows "I limit (for_range first limit body s)"
  using assms
proof (induction limit rule: nat_induct_at_least)
  case base
  then show ?case by simp
next
  case (Suc n)
  then have "I n (for_range first n body s)" by simp
  then show ?case using Suc by (simp add: for_range_last)
qed

lemma for_range_inj:
  assumes "\<And>i x y. f i x = f i y \<Longrightarrow> x = y"
  shows "for_range a b f x = for_range a b f y \<Longrightarrow> x = y"
proof (induction "b - a" arbitrary: a x y)
  case 0
  then show ?case by simp
next
  case (Suc n)
  then have "for_range (Suc a) b f (f a x) = for_range (Suc a) b f (f a y)" by (simp add: for_range_first [of a b])
  moreover have "n = b - Suc a" using Suc.hyps(2) by simp
  ultimately have "f a x = f a y" using Suc.hyps(1) by blast
  then show ?case using assms by blast
qed

lemma for_range_split: "a \<le> b \<Longrightarrow> b \<le> c \<Longrightarrow> for_range a c f x = for_range b c f (for_range a b f x)"
  by (simp add: for_range_def) (metis fold_append comp_apply upt_add_eq_append le_Suc_ex)

lemma for_range_cong: "(\<And>i. a \<le> i \<Longrightarrow> i < b \<Longrightarrow> f i = g i) \<Longrightarrow> for_range a b f = for_range a b g"
  by (auto simp: for_range_def fun_eq_iff intro!: fold_cong)

lemma length_for_range:
  assumes "\<And>i b. length (f i b) = length b"
  shows "length (for_range a n f b) = length b"
proof (cases "a \<le> n")
  case True
  then show ?thesis by (rule for_range_rule [where I = "\<lambda>_ d. length d = length b"]) (simp_all add: assms)
qed simp

lemma list_update_nth: "xs[i := x] ! j = (if i = j \<and> j < length xs then x else xs ! j)"
  by (cases "i = j"; cases "j < length xs") (simp_all add: nth_list_update list_update_beyond not_less)

lemma for_range_update_nth:
  assumes "j < length b"
  shows "for_range 0 n (\<lambda>i d. d[off + i := g i]) b ! j = (if off \<le> j \<and> j < off + n then g (j - off) else b ! j)"
proof -
  have "length (for_range 0 n (\<lambda>i d. d[off + i := g i]) b) = length b \<and>
    for_range 0 n (\<lambda>i d. d[off + i := g i]) b ! j = (if off \<le> j \<and> j < off + n then g (j - off) else b ! j)"
    by (rule for_range_rule [where I = "\<lambda>n d. length d = length b \<and> d ! j = (if off \<le> j \<and> j < off + n then g (j - off) else b ! j)"])
      (use assms in \<open>auto simp: list_update_nth\<close>)
  then show ?thesis ..
qed

lemma for_find_None_iff: "for_find a b P = None \<longleftrightarrow> (\<forall>i. a \<le> i \<and> i < b \<longrightarrow> \<not> P i)"
  by (auto simp: for_find_def find_None_iff)

lemma for_find_Some_iff:
  "for_find a b P = Some i \<longleftrightarrow> a \<le> i \<and> i < b \<and> P i \<and> (\<forall>j. a \<le> j \<and> j < i \<longrightarrow> \<not> P j)"
proof
  assume "for_find a b P = Some i"
  then obtain k where k: "k < b - a" "P (a + k)" "i = a + k" "\<forall>j<k. \<not> P (a + j)"
    by (auto simp: for_find_def find_Some_iff)
  moreover have "\<not> P j" if "a \<le> j" "j < i" for j
    using k(4) that k(3) by (metis le_Suc_ex nat_add_left_cancel_less)
  ultimately show "a \<le> i \<and> i < b \<and> P i \<and> (\<forall>j. a \<le> j \<and> j < i \<longrightarrow> \<not> P j)" by auto
next
  assume r: "a \<le> i \<and> i < b \<and> P i \<and> (\<forall>j. a \<le> j \<and> j < i \<longrightarrow> \<not> P j)"
  then have "i - a < length [a..<b]" "P ([a..<b] ! (i - a))" "[a..<b] ! (i - a) = i"
    "\<forall>j<i - a. \<not> P ([a..<b] ! j)" by auto
  then show "for_find a b P = Some i"
    by (metis for_find_def find_Some_iff)
qed

lemma for_all_iff: "for_all a b P \<longleftrightarrow> (\<forall>i. a \<le> i \<and> i < b \<longrightarrow> P i)"
  by (auto simp: for_all_def list_all_iff)

text \<open>A counting loop whose body may panic.\<close>

definition for_opt :: "nat \<Rightarrow> nat \<Rightarrow> (nat \<Rightarrow> 's \<Rightarrow> 's option) \<Rightarrow> 's \<Rightarrow> 's option" where
  "for_opt first limit body s = fold (\<lambda>i r. Option.bind r (body i)) [first..<limit] (Some s)"

lemma for_opt_empty [simp]: "limit \<le> first \<Longrightarrow> for_opt first limit body s = Some s"
  by (simp add: for_opt_def)

lemma for_opt_last:
  "first \<le> limit \<Longrightarrow> for_opt first (Suc limit) body s = Option.bind (for_opt first limit body s) (body limit)"
  by (simp add: for_opt_def)

lemma for_opt_rule:
  assumes "first \<le> limit" and "I first s"
    and "\<And>i s. first \<le> i \<Longrightarrow> i < limit \<Longrightarrow> I i s \<Longrightarrow> \<exists>s'. body i s = Some s' \<and> I (Suc i) s'"
  shows "\<exists>s'. for_opt first limit body s = Some s' \<and> I limit s'"
  using assms
proof (induction limit rule: nat_induct_at_least)
  case base
  then show ?case by simp
next
  case (Suc n)
  then have "\<exists>s'. for_opt first n body s = Some s' \<and> I n s'" by simp
  then obtain s' where "for_opt first n body s = Some s'" "I n s'" by blast
  then show ?case using Suc.hyps Suc.prems(2) [of n s'] by (simp add: for_opt_last)
qed

end
