(* ===== verification/Frame_Allocator.thy ===== *)
theory Frame_Allocator
  imports Prelude
begin

text \<open>
  The contract of a page-frame allocator as its clients in \<open>kernel/mm\<close> rely on it: the heap's
  page extension, the page-table allocation of the VMM and the address spaces.

  \<open>alloc\<close> returns a physical address (0 when no frame is left), \<open>release\<close> takes one back and
  answers whether it accepted it. \<open>avail\<close> and \<open>held\<close> are the frame numbers that are free and
  that are handed out. The lemmas of the locale are what every client needs: a frame is never
  handed out twice, and giving back what was taken restores the allocator.
\<close>

locale frame_allocator =
  fixes alloc :: "'s \<Rightarrow> u32 \<times> 's"
    and release :: "u32 \<Rightarrow> 's \<Rightarrow> bool \<times> 's"
    and inv :: "'s \<Rightarrow> bool"
    and avail :: "'s \<Rightarrow> nat set"
    and held :: "'s \<Rightarrow> nat set"
  assumes avail_held_disjoint: "avail s \<inter> held s = {}"
    and alloc_taken: "inv s \<Longrightarrow> alloc s = (a, s') \<Longrightarrow> a \<noteq> 0 \<Longrightarrow>
      inv s' \<and> unat a mod 4096 = 0 \<and> unat a div 4096 \<in> avail s \<and>
      avail s' = avail s - {unat a div 4096} \<and> held s' = insert (unat a div 4096) (held s)"
    and alloc_failed: "inv s \<Longrightarrow> alloc s = (0, s') \<Longrightarrow> s' = s \<and> avail s = {}"
    and release_held: "inv s \<Longrightarrow> unat a mod 4096 = 0 \<Longrightarrow> unat a div 4096 \<in> held s \<Longrightarrow>
      \<exists>s'. release a s = (True, s') \<and> inv s' \<and> avail s' = insert (unat a div 4096) (avail s) \<and>
        held s' = held s - {unat a div 4096}"
    and release_refused: "inv s \<Longrightarrow> unat a mod 4096 \<noteq> 0 \<or> unat a div 4096 \<notin> held s \<Longrightarrow>
      release a s = (False, s)"
begin

lemma alloc_fresh:
  assumes "inv s" and "alloc s = (a, s')" and "a \<noteq> 0"
  shows "unat a div 4096 \<notin> held s"
  using alloc_taken [OF assms] avail_held_disjoint [of s] by blast

lemma two_allocs_differ:
  assumes "inv s" and "alloc s = (a, s')" and "a \<noteq> 0" and "alloc s' = (b, s'')" and "b \<noteq> 0"
  shows "unat a div 4096 \<noteq> unat b div 4096"
proof -
  from alloc_taken [OF assms(1-3)] have s': "inv s'" "avail s' = avail s - {unat a div 4096}" by auto
  from alloc_taken [OF s'(1) assms(4,5)] s'(2) show ?thesis by auto
qed

lemma alloc_release_restores:
  assumes "inv s" and "alloc s = (a, s')" and "a \<noteq> 0"
  shows "\<exists>s''. release a s' = (True, s'') \<and> inv s'' \<and> avail s'' = avail s \<and> held s'' = held s"
proof -
  note t = alloc_taken [OF assms]
  have "unat a div 4096 \<notin> held s" by (rule alloc_fresh [OF assms])
  then show ?thesis using t release_held [of s' a] by auto
qed

lemma release_twice_refused:
  assumes "inv s" and "release a s = (True, s')"
  shows "inv s' \<and> release a s' = (False, s')"
proof -
  have h: "unat a mod 4096 = 0" "unat a div 4096 \<in> held s"
    using release_refused [OF assms(1), of a] assms(2) by (metis Pair_inject)+
  from release_held [OF assms(1) h] assms(2) have "inv s'" "held s' = held s - {unat a div 4096}" by auto
  then show ?thesis using release_refused [of s' a] by auto
qed

end

end
