(* ===== verification/Pmm.thy ===== *)
theory Pmm
  imports Frame_Allocator
begin

text \<open>
  The physical memory manager, \<open>kernel/mm/pmm.c\<close>: two bitmaps over the \<open>2^20\<close> frames of the
  4 GiB physical space (frame in use, frame may ever be handed out) and three counters, set up
  from the E820 map of the boot loader.

  The bitmaps are the C byte arrays, as functions from the byte index. The first part is the
  code, operation by operation; then come the abstraction to sets of frame numbers
  (\<open>free_frames\<close>, \<open>allocated_frames\<close>), the invariant \<open>pmm_inv\<close>, and the interpretation of
  \<open>frame_allocator\<close>.
\<close>

subsection \<open>Boot information\<close>

record e820_entry =
  e820_base :: u64
  e820_length :: u64
  e820_type :: u32
  e820_attributes :: u32

record boot_info =
  magic :: u32
  version :: u32
  info_size :: u32
  checksum :: u32
  boot_drive :: u32
  kernel_entry :: u32
  kernel_physical_entry :: u32
  kernel_physical_start :: u32
  kernel_physical_end :: u32
  e820_count :: u32
  e820_address :: u32
  loader_start :: u32
  loader_end :: u32
  kernel_lba :: u32
  kernel_sectors :: u32
  reserved :: u32

abbreviation (input) BOOT_INFO_MAGIC :: u32 where "BOOT_INFO_MAGIC \<equiv> 0x534F494D"
abbreviation (input) BOOT_INFO_VERSION :: u32 where "BOOT_INFO_VERSION \<equiv> 1"
abbreviation (input) BOOT_INFO_MAX_E820_ENTRIES :: u32 where "BOOT_INFO_MAX_E820_ENTRIES \<equiv> 128"

subsection \<open>The state and its operations\<close>

record pmm =
  used_bitmap :: "nat \<Rightarrow> u8"
  allocatable_bitmap :: "nat \<Rightarrow> u8"
  total_pages :: u32
  free_pages :: u32
  reserved_pages :: u32

abbreviation (input) PMM_MAX_PAGES :: u32 where "PMM_MAX_PAGES \<equiv> 1048576"
abbreviation (input) PMM_BITMAP_SIZE :: nat where "PMM_BITMAP_SIZE \<equiv> 131072"
abbreviation (input) E820_USABLE :: u32 where "E820_USABLE \<equiv> 1"
abbreviation (input) LOW_MEMORY_RESERVED_END :: u64 where "LOW_MEMORY_RESERVED_END \<equiv> 0x00100000"
abbreviation (input) FOUR_GIB :: u64 where "FOUR_GIB \<equiv> 0x100000000"

definition bitmap_get :: "(nat \<Rightarrow> u8) \<Rightarrow> u32 \<Rightarrow> bool" where
  "bitmap_get bitmap page \<longleftrightarrow>
     bitmap (unat (drop_bit 3 page)) AND ucast (push_bit (unat (page AND 7)) (1 :: u32)) \<noteq> 0"

definition bitmap_set :: "(nat \<Rightarrow> u8) \<Rightarrow> u32 \<Rightarrow> bool \<Rightarrow> (nat \<Rightarrow> u8)" where
  "bitmap_set bitmap page v =
     (let mask = ucast (push_bit (unat (page AND 7)) (1 :: u32)); i = unat (drop_bit 3 page)
      in if v then bitmap(i := bitmap i OR mask) else bitmap(i := bitmap i AND NOT mask))"

definition range_to_pages :: "u64 \<Rightarrow> u64 \<Rightarrow> (u32 \<times> u32) option" where
  "range_to_pages base len =
     (if len = 0 \<or> base \<ge> FOUR_GIB then None
      else let stop = base + len;
               stop = (if stop < base \<or> stop > FOUR_GIB then FOUR_GIB else stop)
           in if base > FOUR_GIB - (4096 - 1) then None
              else let aligned_start = (base + (4096 - 1)) AND NOT (4096 - 1);
                       stop = stop AND NOT (4096 - 1)
                   in if aligned_start \<ge> stop then None
                      else Some (ucast (drop_bit 12 aligned_start), ucast (drop_bit 12 stop)))"

definition mark_allocatable :: "nat \<Rightarrow> pmm \<Rightarrow> pmm" where
  "mark_allocatable page p =
     p\<lparr>allocatable_bitmap := bitmap_set (allocatable_bitmap p) (of_nat page) True,
       used_bitmap := bitmap_set (used_bitmap p) (of_nat page) False\<rparr>"

definition mark_reserved :: "nat \<Rightarrow> pmm \<Rightarrow> pmm" where
  "mark_reserved page p =
     p\<lparr>allocatable_bitmap := bitmap_set (allocatable_bitmap p) (of_nat page) False,
       used_bitmap := bitmap_set (used_bitmap p) (of_nat page) True\<rparr>"

definition make_range_allocatable :: "u64 \<Rightarrow> u64 \<Rightarrow> pmm \<Rightarrow> pmm" where
  "make_range_allocatable base len p =
     (case range_to_pages base len of
        None \<Rightarrow> p
      | Some (first, limit) \<Rightarrow> for_range (unat first) (unat limit) mark_allocatable p)"

definition reserve_range :: "u64 \<Rightarrow> u64 \<Rightarrow> pmm \<Rightarrow> pmm" where
  "reserve_range base len p =
     (if len = 0 \<or> base \<ge> FOUR_GIB then p
      else let stop = base + len;
               stop = (if stop < base \<or> stop > FOUR_GIB then FOUR_GIB else stop);
               first = (ucast (drop_bit 12 base) :: u32);
               limit = (if stop = FOUR_GIB then PMM_MAX_PAGES
                        else ucast (drop_bit 12 (stop + (4096 - 1))))
           in for_range (unat first) (unat limit) mark_reserved p)"

definition init_usable_entry :: "e820_entry \<Rightarrow> u32 \<times> pmm \<Rightarrow> u32 \<times> pmm" where
  "init_usable_entry e = (\<lambda>(maximum_page, p).
     case range_to_pages (e820_base e) (e820_length e) of
       None \<Rightarrow> (maximum_page, p)
     | Some (first, limit) \<Rightarrow>
         (if limit > maximum_page then limit else maximum_page,
          if e820_type e = E820_USABLE
          then make_range_allocatable (e820_base e) (e820_length e) p else p))"

definition init_reserved_entry :: "e820_entry \<Rightarrow> pmm \<Rightarrow> pmm" where
  "init_reserved_entry e p =
     (if e820_type e \<noteq> E820_USABLE then reserve_range (e820_base e) (e820_length e) p else p)"

definition page_is_free :: "pmm \<Rightarrow> nat \<Rightarrow> bool" where
  "page_is_free p page \<longleftrightarrow>
     bitmap_get (allocatable_bitmap p) (of_nat page) \<and> \<not> bitmap_get (used_bitmap p) (of_nat page)"

definition count_free :: "pmm \<Rightarrow> u32 \<Rightarrow> u32" where
  "count_free p limit =
     for_range 0 (unat limit) (\<lambda>page n. if page_is_free p page then n + 1 else n) 0"

text \<open>
  \<open>entries\<close> is the array at \<open>e820_address\<close>; the code reads its first \<open>e820_count\<close> elements.
\<close>

definition pmm_init :: "boot_info \<Rightarrow> (nat \<Rightarrow> e820_entry) \<Rightarrow> pmm \<Rightarrow> pmm option" where
  "pmm_init bi entries p =
     (if magic bi \<noteq> BOOT_INFO_MAGIC \<or> version bi \<noteq> BOOT_INFO_VERSION \<or> info_size bi \<noteq> 64 \<or>
         e820_count bi = 0 \<or> e820_count bi > BOOT_INFO_MAX_E820_ENTRIES \<or>
         kernel_physical_start bi \<ge> kernel_physical_end bi
      then None
      else let n = unat (e820_count bi);
               p = p\<lparr>used_bitmap := (\<lambda>i. if i < PMM_BITMAP_SIZE then 0xFF else used_bitmap p i),
                     allocatable_bitmap :=
                       (\<lambda>i. if i < PMM_BITMAP_SIZE then 0 else allocatable_bitmap p i)\<rparr>;
               (maximum_page, p) = for_range 0 n (\<lambda>i. init_usable_entry (entries i)) (0, p);
               p = for_range 0 n (\<lambda>i. init_reserved_entry (entries i)) p;
               p = reserve_range 0 LOW_MEMORY_RESERVED_END p;
               p = reserve_range (ucast (kernel_physical_start bi))
                     (ucast (kernel_physical_end bi) - ucast (kernel_physical_start bi)) p;
               free = count_free p maximum_page;
               p = p\<lparr>total_pages := maximum_page, free_pages := free,
                     reserved_pages := maximum_page - free\<rparr>
           in if maximum_page = 0 \<or> free = 0 then None else Some p)"

definition pmm_alloc :: "pmm \<Rightarrow> u32 \<times> pmm" where
  "pmm_alloc p =
     (case for_find 0 (unat (total_pages p)) (page_is_free p) of
        None \<Rightarrow> (0, p)
      | Some page \<Rightarrow>
          (push_bit 12 (of_nat page),
           p\<lparr>used_bitmap := bitmap_set (used_bitmap p) (of_nat page) True,
             free_pages := free_pages p - 1\<rparr>))"

definition pmm_free :: "u32 \<Rightarrow> pmm \<Rightarrow> bool \<times> pmm" where
  "pmm_free physical_address p =
     (if physical_address AND (4096 - 1) \<noteq> 0 then (False, p)
      else let page = drop_bit 12 physical_address
           in if page \<ge> total_pages p \<or> \<not> bitmap_get (allocatable_bitmap p) page \<or>
                 \<not> bitmap_get (used_bitmap p) page
              then (False, p)
              else (True, p\<lparr>used_bitmap := bitmap_set (used_bitmap p) page False,
                            free_pages := free_pages p + 1\<rparr>))"

definition pmm_get_stats :: "pmm \<Rightarrow> u32 \<times> u32 \<times> u32" where
  "pmm_get_stats p = (total_pages p, free_pages p, reserved_pages p)"

definition pmm_self_test :: "pmm \<Rightarrow> bool \<times> pmm" where
  "pmm_self_test p =
     (let initial_free = free_pages p;
          (first, p) = pmm_alloc p;
          (second, p) = pmm_alloc p
      in if first = 0 \<or> second = 0 \<or> first = second \<or> first AND (4096 - 1) \<noteq> 0 \<or>
            second AND (4096 - 1) \<noteq> 0
         then (False, p)
         else let (ok, p) = pmm_free first p
              in if \<not> ok then (False, p)
                 else let (recycled, p) = pmm_alloc p
                      in if recycled \<noteq> first then (False, p)
                         else let (ok, p) = pmm_free recycled p
                              in if \<not> ok then (False, p)
                                 else let (ok, p) = pmm_free second p
                                      in if \<not> ok then (False, p)
                                         else (free_pages p = initial_free, p))"

subsection \<open>Bitmaps as sets of page numbers\<close>

lemma bit_mask_u8: "bit (ucast (push_bit (unat ((page::u32) AND 7)) (1 :: u32)) :: u8) n \<longleftrightarrow> n = unat page mod 8"
proof -
  have "unat page mod 8 < 8" by simp
  then show ?thesis
  by (auto simp: bit_ucast_iff unat_and_7 bit_exp_iff)
qed

lemma bitmap_get_iff: "bitmap_get b page \<longleftrightarrow> bit (b (unat page div 8)) (unat page mod 8)"
proof -
  have nz: "x \<noteq> 0 \<longleftrightarrow> (\<exists>n. bit x n)" for x :: u8
    using bit_imp_le_length [of x] by (auto simp: bit_eq_iff)
  have "bitmap_get b page \<longleftrightarrow> (\<exists>n. bit (b (unat page div 8) AND ucast (push_bit (unat (page AND 7)) (1 :: u32))) n)"
    unfolding bitmap_get_def unat_shr_3 by (rule nz)
  then show ?thesis by (simp only: bit_and_iff bit_mask_u8) blast
qed

lemma bitmap_get_set [simp]:
  "bitmap_get (bitmap_set b page v) q \<longleftrightarrow> (if q = page then v else bitmap_get b q)"
proof -
  have same: "unat q div 8 = unat page div 8 \<and> unat q mod 8 = unat page mod 8 \<longleftrightarrow> q = page"
    by (metis div_mult_mod_eq word_unat_eq_iff)
  have "unat q mod 8 < 8" by simp
  with same show ?thesis
    by (auto simp del: push_bit_of_1 simp: bitmap_get_iff bitmap_set_def Let_def unat_shr_3 bit_or_iff bit_and_iff bit_not_iff bit_mask_u8)
qed

lemma of_nat_page_eq: "n < 4294967296 \<Longrightarrow> (of_nat n = (q :: u32)) \<longleftrightarrow> n = unat q"
  by (auto simp: unat_of_nat32)

text \<open>What the marking loops of \<open>make_range_allocatable\<close> and \<open>reserve_range\<close> do to a range.\<close>

lemma bitmap_set_range:
  assumes "limit < 4294967296"
  shows "bitmap_get (for_range first limit (\<lambda>i b. bitmap_set b (of_nat i) v) b) q \<longleftrightarrow>
    (if first \<le> unat q \<and> unat q < limit then v else bitmap_get b q)"
proof (cases "first \<le> limit")
  case True
  then show ?thesis
  proof (rule for_range_rule [where I = "\<lambda>i b'. bitmap_get b' q \<longleftrightarrow>
      (if first \<le> unat q \<and> unat q < i then v else bitmap_get b q)"])
    fix i b' assume i: "first \<le> i" "i < limit"
      and b': "bitmap_get b' q \<longleftrightarrow> (if first \<le> unat q \<and> unat q < i then v else bitmap_get b q)"
    have "q = of_nat i \<longleftrightarrow> unat q = i"
      using of_nat_page_eq [of i q] i(2) assms by auto
    then show "bitmap_get (bitmap_set b' (of_nat i) v) q \<longleftrightarrow>
        (if first \<le> unat q \<and> unat q < Suc i then v else bitmap_get b q)"
      using i(1) b' by (simp add: less_Suc_eq)
  qed auto
qed auto

lemma mark_bitmaps:
  "allocatable_bitmap (for_range first limit mark_allocatable p) =
     for_range first limit (\<lambda>i b. bitmap_set b (of_nat i) True) (allocatable_bitmap p)"
  "used_bitmap (for_range first limit mark_allocatable p) =
     for_range first limit (\<lambda>i b. bitmap_set b (of_nat i) False) (used_bitmap p)"
  "allocatable_bitmap (for_range first limit mark_reserved p) =
     for_range first limit (\<lambda>i b. bitmap_set b (of_nat i) False) (allocatable_bitmap p)"
  "used_bitmap (for_range first limit mark_reserved p) =
     for_range first limit (\<lambda>i b. bitmap_set b (of_nat i) True) (used_bitmap p)"
proof -
  have "allocatable_bitmap (fold mark_allocatable xs p) = fold (\<lambda>i b. bitmap_set b (of_nat i) True) xs (allocatable_bitmap p)"
    "used_bitmap (fold mark_allocatable xs p) = fold (\<lambda>i b. bitmap_set b (of_nat i) False) xs (used_bitmap p)"
    "allocatable_bitmap (fold mark_reserved xs p) = fold (\<lambda>i b. bitmap_set b (of_nat i) False) xs (allocatable_bitmap p)"
    "used_bitmap (fold mark_reserved xs p) = fold (\<lambda>i b. bitmap_set b (of_nat i) True) xs (used_bitmap p)" for xs
    by (induction xs arbitrary: p) (simp_all add: mark_allocatable_def mark_reserved_def)
  then show "allocatable_bitmap (for_range first limit mark_allocatable p) =
      for_range first limit (\<lambda>i b. bitmap_set b (of_nat i) True) (allocatable_bitmap p)"
    "used_bitmap (for_range first limit mark_allocatable p) =
      for_range first limit (\<lambda>i b. bitmap_set b (of_nat i) False) (used_bitmap p)"
    "allocatable_bitmap (for_range first limit mark_reserved p) =
      for_range first limit (\<lambda>i b. bitmap_set b (of_nat i) False) (allocatable_bitmap p)"
    "used_bitmap (for_range first limit mark_reserved p) =
      for_range first limit (\<lambda>i b. bitmap_set b (of_nat i) True) (used_bitmap p)"
    by (simp_all add: for_range_def)
qed

subsection \<open>Address ranges as page ranges\<close>

lemma unat_and_not_FFF_u64: "unat ((x :: u64) AND - 4096) = unat x div 4096 * 4096"
  using unat_and_not_mask [of x 12] by (simp add: mask_eq_exp_minus_1)

lemma unat_ucast_shr_12_u64:
  "unat (x :: u64) < 17592186044416 \<Longrightarrow> unat (ucast (drop_bit 12 x) :: u32) = unat x div 4096"
  by (simp add: unsigned_ucast_eq take_bit_nat_def unat_drop_bit)

lemma clipped_stop:
  assumes "unat base < 4294967296"
  shows "unat (if base + len < base \<or> base + len > FOUR_GIB then FOUR_GIB else base + len) =
    min 4294967296 (unat base + unat len)"
proof (cases "unat base + unat len < 18446744073709551616")
  case True
  then have "unat (base + len) = unat base + unat len" by (simp add: unat_word_ariths)
  then show ?thesis by (auto simp: word_less_nat_alt min_def)
next
  case False
  have ov: "unat (base + len) = (unat base + unat len) mod 18446744073709551616"
    by (simp add: unat_word_ariths)
  have "unat len < 18446744073709551616" using unsigned_less [of len, where 'a = nat] by simp
  then have "unat (base + len) < unat base"
    using False ov assms by (simp add: le_mod_geq)
  then show ?thesis using False by (simp add: word_less_nat_alt)
qed

text \<open>
  Page \<open>n\<close> lies inside the byte range of length \<open>len\<close> at \<open>base\<close>; page \<open>n\<close> has a byte in common
  with it.
\<close>

definition page_inside :: "nat \<Rightarrow> u64 \<Rightarrow> u64 \<Rightarrow> bool" where
  "page_inside n base len \<longleftrightarrow> unat base \<le> n * 4096 \<and> (n + 1) * 4096 \<le> unat base + unat len"

definition page_meets :: "nat \<Rightarrow> u64 \<Rightarrow> u64 \<Rightarrow> bool" where
  "page_meets n base len \<longleftrightarrow> len \<noteq> 0 \<and> unat base < (n + 1) * 4096 \<and> n * 4096 < unat base + unat len"

lemma range_to_pages_eq:
  assumes "len \<noteq> 0" and base: "unat base \<le> 4294963201"
  shows "range_to_pages base len =
    (let first = (unat base + 4095) div 4096; limit = min 4294967296 (unat base + unat len) div 4096
     in if limit \<le> first then None else Some (of_nat first, of_nat limit))"
proof -
  define stop where "stop = (if base + len < base \<or> base + len > FOUR_GIB then FOUR_GIB else base + len)"
  have stop: "unat stop = min 4294967296 (unat base + unat len)"
    unfolding stop_def using base by (intro clipped_stop) simp
  have up: "unat ((base + 4095) AND - 4096) = (unat base + 4095) div 4096 * 4096"
    using base by (subst unat_and_not_FFF_u64) (simp add: unat_word_ariths)
  have first: "ucast (drop_bit 12 ((base + 4095) AND - 4096)) = (of_nat ((unat base + 4095) div 4096) :: u32)"
    unfolding word_unat_eq_iff using base up by (subst unat_ucast_shr_12_u64) (simp_all add: unat_of_nat32)
  have limit: "ucast (drop_bit 12 (stop AND - 4096)) = (of_nat (unat stop div 4096) :: u32)"
    unfolding word_unat_eq_iff using stop
    by (subst unat_ucast_shr_12_u64) (simp_all add: unat_of_nat32 unat_and_not_FFF_u64)
  have cond: "stop AND - 4096 \<le> (base + 4095) AND - 4096 \<longleftrightarrow> unat stop div 4096 \<le> (unat base + 4095) div 4096"
    unfolding word_le_nat_alt up by (simp add: unat_and_not_FFF_u64)
  have ok: "\<not> (len = 0 \<or> base \<ge> FOUR_GIB)" "\<not> base > FOUR_GIB - (4096 - 1)"
    using assms by (auto simp: word_le_nat_alt word_less_nat_alt)
  have "range_to_pages base len =
    (if stop AND - 4096 \<le> (base + 4095) AND - 4096 then None
     else Some (ucast (drop_bit 12 ((base + 4095) AND - 4096)), ucast (drop_bit 12 (stop AND - 4096))))"
    unfolding range_to_pages_def Let_def if_not_P [OF ok(1)] if_not_P [OF ok(2)] stop_def [symmetric]
    by simp
  then show ?thesis unfolding Let_def cond first limit stop by simp
qed

lemma range_to_pages_None:
  "len = 0 \<or> unat base > 4294963201 \<Longrightarrow> range_to_pages base len = None"
  by (auto simp: range_to_pages_def Let_def word_le_nat_alt word_less_nat_alt)

lemma range_to_pages_Some:
  assumes "range_to_pages base len = Some (first, limit)"
  shows "unat limit \<le> 1048576" and "unat first \<le> n \<and> n < unat limit \<longleftrightarrow> n < 1048576 \<and> page_inside n base len"
proof -
  have ok: "len \<noteq> 0" "unat base \<le> 4294963201"
    using assms range_to_pages_None [of len base] by (force simp: not_le)+
  have f: "unat first = (unat base + 4095) div 4096" and l: "unat limit = min 4294967296 (unat base + unat len) div 4096"
    using assms ok by (auto simp: range_to_pages_eq Let_def unat_of_nat32 split: if_splits)
  show "unat limit \<le> 1048576" using l by simp
  have "unat first \<le> n \<longleftrightarrow> unat base \<le> n * 4096" using f by simp linarith
  moreover have "n < unat limit \<longleftrightarrow> (n + 1) * 4096 \<le> min 4294967296 (unat base + unat len)"
    using l by simp linarith
  ultimately show "unat first \<le> n \<and> n < unat limit \<longleftrightarrow> n < 1048576 \<and> page_inside n base len"
    by (auto simp: page_inside_def)
qed

lemma range_to_pages_None_inside:
  assumes "range_to_pages base len = None" and "n < 1048576"
  shows "\<not> page_inside n base len"
proof (cases "len = 0 \<or> unat base > 4294963201")
  case True
  then show ?thesis using assms(2) by (auto simp: page_inside_def)
next
  case False
  then have "min 4294967296 (unat base + unat len) div 4096 \<le> (unat base + 4095) div 4096"
    using assms(1) by (auto simp: range_to_pages_eq Let_def split: if_splits)
  moreover have "n + 1 \<le> min 4294967296 (unat base + unat len) div 4096" "(unat base + 4095) div 4096 \<le> n"
    if "page_inside n base len"
    using that assms(2) by (auto simp: page_inside_def less_eq_div_iff_mult_less_eq)
  ultimately show ?thesis by linarith
qed

lemma reserve_range_eq:
  "\<exists>first limit. reserve_range base len p = for_range first limit mark_reserved p \<and> limit \<le> 1048576 \<and>
     (\<forall>n. first \<le> n \<and> n < limit \<longleftrightarrow> n < 1048576 \<and> page_meets n base len)"
proof (cases "len = 0 \<or> base \<ge> FOUR_GIB")
  case True
  then have "\<not> (n < 1048576 \<and> page_meets n base len)" for n
    by (auto simp: page_meets_def word_le_nat_alt)
  moreover have "reserve_range base len p = for_range 0 0 mark_reserved p"
    using True by (auto simp: reserve_range_def)
  ultimately show ?thesis by (intro exI [of _ 0]) auto
next
  case False
  then have base: "unat base < 4294967296" by (simp add: word_le_nat_alt)
  define stop where "stop = (if base + len < base \<or> base + len > FOUR_GIB then FOUR_GIB else base + len)"
  define first where "first = unat base div 4096"
  define limit where "limit = (unat stop + 4095) div 4096"
  have stop: "unat stop = min 4294967296 (unat base + unat len)"
    unfolding stop_def using base by (rule clipped_stop)
  have f: "unat (ucast (drop_bit 12 base) :: u32) = first"
    using base by (simp add: unat_ucast_shr_12_u64 first_def)
  have "unat (stop + 4095) = unat stop + 4095" using stop by (simp add: unat_word_ariths)
  then have l: "unat (if stop = FOUR_GIB then PMM_MAX_PAGES else ucast (drop_bit 12 (stop + (4096 - 1)))) = limit"
    using stop by (auto simp: limit_def unat_ucast_shr_12_u64)
  have "reserve_range base len p = for_range first limit mark_reserved p"
    using False unfolding reserve_range_def Let_def stop_def [symmetric] f l by simp
  moreover have "limit \<le> 1048576" using stop by (simp add: limit_def)
  moreover have "first \<le> n \<and> n < limit \<longleftrightarrow> n < 1048576 \<and> page_meets n base len" for n
  proof -
    have "first \<le> n \<longleftrightarrow> unat base < (n + 1) * 4096" by (simp add: first_def) linarith
    moreover have "n < limit \<longleftrightarrow> n * 4096 < unat stop" by (simp add: limit_def) linarith
    ultimately show ?thesis using stop False by (auto simp: page_meets_def)
  qed
  ultimately show ?thesis by blast
qed

lemma reserve_range_get:
  shows "bitmap_get (allocatable_bitmap (reserve_range base len p)) q \<longleftrightarrow>
      \<not> (unat q < 1048576 \<and> page_meets (unat q) base len) \<and> bitmap_get (allocatable_bitmap p) q"
    and "bitmap_get (used_bitmap (reserve_range base len p)) q \<longleftrightarrow>
      unat q < 1048576 \<and> page_meets (unat q) base len \<or> bitmap_get (used_bitmap p) q"
proof -
  obtain first limit where r: "reserve_range base len p = for_range first limit mark_reserved p"
    "limit \<le> 1048576" "\<And>n. first \<le> n \<and> n < limit \<longleftrightarrow> n < 1048576 \<and> page_meets n base len"
    using reserve_range_eq by blast
  have "limit < 4294967296" using r(2) by simp
  then show "bitmap_get (allocatable_bitmap (reserve_range base len p)) q \<longleftrightarrow>
      \<not> (unat q < 1048576 \<and> page_meets (unat q) base len) \<and> bitmap_get (allocatable_bitmap p) q"
    and "bitmap_get (used_bitmap (reserve_range base len p)) q \<longleftrightarrow>
      unat q < 1048576 \<and> page_meets (unat q) base len \<or> bitmap_get (used_bitmap p) q"
    by (auto simp add: r(1) mark_bitmaps bitmap_set_range r(3))
qed

lemma make_range_allocatable_get:
  assumes "unat q < 1048576"
  shows "bitmap_get (allocatable_bitmap (make_range_allocatable base len p)) q \<longleftrightarrow>
      page_inside (unat q) base len \<or> bitmap_get (allocatable_bitmap p) q"
    and "bitmap_get (used_bitmap (make_range_allocatable base len p)) q \<longleftrightarrow>
      \<not> page_inside (unat q) base len \<and> bitmap_get (used_bitmap p) q"
proof -
  have "(bitmap_get (allocatable_bitmap (make_range_allocatable base len p)) q \<longleftrightarrow>
      page_inside (unat q) base len \<or> bitmap_get (allocatable_bitmap p) q) \<and>
    (bitmap_get (used_bitmap (make_range_allocatable base len p)) q \<longleftrightarrow>
      \<not> page_inside (unat q) base len \<and> bitmap_get (used_bitmap p) q)"
  proof (cases "range_to_pages base len")
    case None
    then show ?thesis
      using range_to_pages_None_inside [OF None assms] by (simp add: make_range_allocatable_def)
  next
    case (Some r)
    then obtain first limit where r: "range_to_pages base len = Some (first, limit)" by (cases r) auto
    have "unat limit < 4294967296" by (rule unat_lt_2p32)
    then show ?thesis
      using range_to_pages_Some(2) [OF r, of "unat q"] assms
      by (auto simp: make_range_allocatable_def r mark_bitmaps bitmap_set_range)
  qed
  then show "bitmap_get (allocatable_bitmap (make_range_allocatable base len p)) q \<longleftrightarrow>
      page_inside (unat q) base len \<or> bitmap_get (allocatable_bitmap p) q"
    and "bitmap_get (used_bitmap (make_range_allocatable base len p)) q \<longleftrightarrow>
      \<not> page_inside (unat q) base len \<and> bitmap_get (used_bitmap p) q" by auto
qed
subsection \<open>What \<open>pmm_init\<close> sets up\<close>

text \<open>
  The frames that lie inside a usable entry of the E820 map, and the frames that a reserved
  entry touches.
\<close>

definition usable_page :: "(nat \<Rightarrow> e820_entry) \<Rightarrow> nat \<Rightarrow> nat \<Rightarrow> bool" where
  "usable_page entries c n \<longleftrightarrow>
     (\<exists>i<c. e820_type (entries i) = E820_USABLE \<and>
            page_inside n (e820_base (entries i)) (e820_length (entries i)))"

definition reserved_page :: "(nat \<Rightarrow> e820_entry) \<Rightarrow> nat \<Rightarrow> nat \<Rightarrow> bool" where
  "reserved_page entries c n \<longleftrightarrow>
     (\<exists>i<c. e820_type (entries i) \<noteq> E820_USABLE \<and>
            page_meets n (e820_base (entries i)) (e820_length (entries i)))"

lemma page_sets_Suc:
  "usable_page entries (Suc c) n \<longleftrightarrow> usable_page entries c n \<or>
     e820_type (entries c) = E820_USABLE \<and> page_inside n (e820_base (entries c)) (e820_length (entries c))"
  "reserved_page entries (Suc c) n \<longleftrightarrow> reserved_page entries c n \<or>
     e820_type (entries c) \<noteq> E820_USABLE \<and> page_meets n (e820_base (entries c)) (e820_length (entries c))"
  by (auto simp: usable_page_def reserved_page_def less_Suc_eq)

lemma page_sets_0 [simp]: "\<not> usable_page entries 0 n" "\<not> reserved_page entries 0 n"
  by (auto simp: usable_page_def reserved_page_def)

lemma init_usable_entry_cases:
  assumes "init_usable_entry e (m, s) = (m', s')" and "unat m \<le> 1048576" and "unat q < 1048576"
  shows "unat m \<le> unat m'" and "unat m' \<le> 1048576"
    and "page_inside (unat q) (e820_base e) (e820_length e) \<Longrightarrow> unat q < unat m'"
    and "bitmap_get (allocatable_bitmap s') q \<longleftrightarrow> bitmap_get (allocatable_bitmap s) q \<or>
      e820_type e = E820_USABLE \<and> page_inside (unat q) (e820_base e) (e820_length e)"
    and "bitmap_get (used_bitmap s') q \<longleftrightarrow> bitmap_get (used_bitmap s) q \<and>
      \<not> (e820_type e = E820_USABLE \<and> page_inside (unat q) (e820_base e) (e820_length e))"
proof -
  have m: "unat m \<le> unat m' \<and> unat m' \<le> 1048576 \<and>
    (page_inside (unat q) (e820_base e) (e820_length e) \<longrightarrow> unat q < unat m')"
  proof (cases "range_to_pages (e820_base e) (e820_length e)")
    case None
    then show ?thesis
      using assms range_to_pages_None_inside [OF None assms(3)] by (simp add: init_usable_entry_def)
  next
    case (Some r)
    then obtain first limit where r: "range_to_pages (e820_base e) (e820_length e) = Some (first, limit)"
      by (cases r) auto
    then show ?thesis
      using assms range_to_pages_Some(1) [OF r] range_to_pages_Some(2) [OF r, of "unat q"]
      by (auto simp: init_usable_entry_def word_less_nat_alt split: if_splits)
  qed
  then show "unat m \<le> unat m'" "unat m' \<le> 1048576"
    "page_inside (unat q) (e820_base e) (e820_length e) \<Longrightarrow> unat q < unat m'" by auto
  have "s' = (if e820_type e = E820_USABLE then make_range_allocatable (e820_base e) (e820_length e) s else s)"
    using assms(1)
    by (auto simp: init_usable_entry_def make_range_allocatable_def split: option.splits if_splits)
  then show "bitmap_get (allocatable_bitmap s') q \<longleftrightarrow> bitmap_get (allocatable_bitmap s) q \<or>
      e820_type e = E820_USABLE \<and> page_inside (unat q) (e820_base e) (e820_length e)"
    and "bitmap_get (used_bitmap s') q \<longleftrightarrow> bitmap_get (used_bitmap s) q \<and>
      \<not> (e820_type e = E820_USABLE \<and> page_inside (unat q) (e820_base e) (e820_length e))"
    using make_range_allocatable_get [OF assms(3)] by auto
qed

lemma init_usable_entries:
  assumes "for_range 0 c (\<lambda>i. init_usable_entry (entries i)) (0, p) = (m, s)" and "unat q < 1048576"
  shows "unat m \<le> 1048576 \<and> (usable_page entries c (unat q) \<longrightarrow> unat q < unat m) \<and>
    (bitmap_get (allocatable_bitmap s) q \<longleftrightarrow> bitmap_get (allocatable_bitmap p) q \<or> usable_page entries c (unat q)) \<and>
    (bitmap_get (used_bitmap s) q \<longleftrightarrow> bitmap_get (used_bitmap p) q \<and> \<not> usable_page entries c (unat q))"
  using assms(1)
proof (induction c arbitrary: m s)
  case 0
  then show ?case by auto
next
  case (Suc c)
  obtain m0 s0 where s0: "for_range 0 c (\<lambda>i. init_usable_entry (entries i)) (0, p) = (m0, s0)" by fastforce
  then have step: "init_usable_entry (entries c) (m0, s0) = (m, s)"
    using Suc.prems by (simp add: for_range_last)
  note IH = Suc.IH [OF s0]
  note c = init_usable_entry_cases [OF step _ assms(2)]
  show ?case using IH c by (auto simp: page_sets_Suc)
qed

lemma init_reserved_entries:
  assumes "unat q < 1048576"
  shows "bitmap_get (allocatable_bitmap (for_range 0 c (\<lambda>i. init_reserved_entry (entries i)) p)) q \<longleftrightarrow>
      bitmap_get (allocatable_bitmap p) q \<and> \<not> reserved_page entries c (unat q)"
    and "bitmap_get (used_bitmap (for_range 0 c (\<lambda>i. init_reserved_entry (entries i)) p)) q \<longleftrightarrow>
      bitmap_get (used_bitmap p) q \<or> reserved_page entries c (unat q)"
  using assms
  by (induction c) (auto simp: for_range_last page_sets_Suc init_reserved_entry_def reserve_range_get)

lemma bitmap_get_blank:
  assumes "unat q < 1048576"
  shows "\<not> bitmap_get (\<lambda>i. if i < PMM_BITMAP_SIZE then 0 else b i) q"
    and "bitmap_get (\<lambda>i. if i < PMM_BITMAP_SIZE then 0xFF else b i) q"
proof -
  have "unat q div 8 < PMM_BITMAP_SIZE" "unat q mod 8 < 8" using assms by auto
  moreover from this have "bit (0xFF :: u8) (unat q mod 8)"
    using bit_mask_iff [where 'a = u8, of 8 "unat q mod 8"] by (simp add: mask_eq_exp_minus_1)
  ultimately show "\<not> bitmap_get (\<lambda>i. if i < PMM_BITMAP_SIZE then 0 else b i) q"
    "bitmap_get (\<lambda>i. if i < PMM_BITMAP_SIZE then 0xFF else b i) q"
    by (simp_all add: bitmap_get_iff)
qed
subsection \<open>Invariant and abstraction\<close>

definition free_frames :: "pmm \<Rightarrow> nat set" where
  "free_frames p = {n. n < unat (total_pages p) \<and> page_is_free p n}"

definition allocated_frames :: "pmm \<Rightarrow> nat set" where
  "allocated_frames p = {n. n < unat (total_pages p) \<and>
     bitmap_get (allocatable_bitmap p) (of_nat n) \<and> bitmap_get (used_bitmap p) (of_nat n)}"

definition pmm_inv :: "pmm \<Rightarrow> bool" where
  "pmm_inv p \<longleftrightarrow> unat (total_pages p) \<le> 1048576 \<and> unat (free_pages p) = card (free_frames p) \<and>
     (\<forall>n<256. \<not> bitmap_get (allocatable_bitmap p) (of_nat n))"

lemma finite_free_frames [simp]: "finite (free_frames p)"
  by (simp add: free_frames_def)

lemma count_free_card:
  assumes "unat limit \<le> 1048576"
  shows "unat (count_free p limit) = card {n. n < unat limit \<and> page_is_free p n}"
proof -
  define body where "body = (\<lambda>page (n :: u32). if page_is_free p page then n + 1 else n)"
  have "unat (for_range 0 c body 0) = card {n. n < c \<and> page_is_free p n} \<and>
      card {n. n < c \<and> page_is_free p n} \<le> c" if "c \<le> 1048576" for c
    using that
  proof (induction c)
    case (Suc c)
    have split: "{n. n < Suc c \<and> page_is_free p n} =
        (if page_is_free p c then insert c {n. n < c \<and> page_is_free p n} else {n. n < c \<and> page_is_free p n})"
      by (auto simp: less_Suc_eq)
    from Suc have IH: "unat (for_range 0 c body 0) = card {n. n < c \<and> page_is_free p n}"
      "card {n. n < c \<and> page_is_free p n} \<le> c" by auto
    then have "unat (for_range 0 c body 0 + 1) = Suc (card {n. n < c \<and> page_is_free p n})"
      using Suc.prems by (simp add: unat_word_ariths)
    then show ?case using IH by (simp add: for_range_last split body_def)
  qed (simp add: for_range_def)
  from this [OF assms] show ?thesis by (simp add: count_free_def body_def)
qed

text \<open>
  The boot information \<open>pmm_init\<close> accepts, and the frames it is to manage: those inside a usable
  entry that meet no reserved entry, not the first megabyte and not the kernel image.
\<close>

definition valid_boot_info :: "boot_info \<Rightarrow> bool" where
  "valid_boot_info bi \<longleftrightarrow> magic bi = BOOT_INFO_MAGIC \<and> version bi = BOOT_INFO_VERSION \<and> info_size bi = 64 \<and>
     e820_count bi \<noteq> 0 \<and> e820_count bi \<le> BOOT_INFO_MAX_E820_ENTRIES \<and>
     kernel_physical_start bi < kernel_physical_end bi"

definition boot_frames :: "boot_info \<Rightarrow> (nat \<Rightarrow> e820_entry) \<Rightarrow> nat set" where
  "boot_frames bi entries = {n. n < 1048576 \<and> usable_page entries (unat (e820_count bi)) n \<and>
     \<not> reserved_page entries (unat (e820_count bi)) n \<and> 256 \<le> n \<and>
     \<not> page_meets n (ucast (kernel_physical_start bi))
         (ucast (kernel_physical_end bi) - ucast (kernel_physical_start bi))}"

lemma pmm_init_outcome:
  assumes "valid_boot_info bi"
  obtains p where
    "pmm_init bi entries p0 = (if total_pages p = 0 \<or> free_pages p = 0 then None else Some p)"
    and "unat (total_pages p) \<le> 1048576" and "free_pages p = count_free p (total_pages p)"
    and "reserved_pages p = total_pages p - free_pages p"
    and "\<And>q. unat q < 1048576 \<Longrightarrow> bitmap_get (allocatable_bitmap p) q \<longleftrightarrow> unat q \<in> boot_frames bi entries"
    and "\<And>q. unat q < 1048576 \<Longrightarrow> bitmap_get (used_bitmap p) q \<longleftrightarrow> unat q \<notin> boot_frames bi entries"
    and "\<And>n. n \<in> boot_frames bi entries \<Longrightarrow> n < unat (total_pages p)"
proof -
  let ?c = "unat (e820_count bi)"
  define p1 where "p1 = p0\<lparr>used_bitmap := (\<lambda>i. if i < PMM_BITMAP_SIZE then 0xFF else used_bitmap p0 i),
                     allocatable_bitmap := (\<lambda>i. if i < PMM_BITMAP_SIZE then 0 else allocatable_bitmap p0 i)\<rparr>"
  obtain m p2 where p2: "for_range 0 ?c (\<lambda>i. init_usable_entry (entries i)) (0, p1) = (m, p2)"
    by fastforce
  define p3 where "p3 = for_range 0 ?c (\<lambda>i. init_reserved_entry (entries i)) p2"
  define p4 where "p4 = reserve_range (ucast (kernel_physical_start bi))
    (ucast (kernel_physical_end bi) - ucast (kernel_physical_start bi)) (reserve_range 0 LOW_MEMORY_RESERVED_END p3)"
  define p where "p = p4\<lparr>total_pages := m, free_pages := count_free p4 m, reserved_pages := m - count_free p4 m\<rparr>"
  have init: "pmm_init bi entries p0 = (if total_pages p = 0 \<or> free_pages p = 0 then None else Some p)"
    using assms by (simp add: pmm_init_def valid_boot_info_def not_less [symmetric] Let_def p1_def [symmetric] p2
        p3_def [symmetric] p4_def [symmetric] p_def)
  have same: "count_free p n = count_free p4 n" for n
    by (simp add: count_free_def page_is_free_def p_def)
  have low: "page_meets n 0 LOW_MEMORY_RESERVED_END \<longleftrightarrow> n < 256" for n by (auto simp: page_meets_def)
  have bits: "(bitmap_get (allocatable_bitmap p) q \<longleftrightarrow> unat q \<in> boot_frames bi entries) \<and>
      (bitmap_get (used_bitmap p) q \<longleftrightarrow> unat q \<notin> boot_frames bi entries) \<and>
      (usable_page entries ?c (unat q) \<longrightarrow> unat q < unat m)" if q: "unat q < 1048576" for q
  proof -
    have "\<not> bitmap_get (allocatable_bitmap p1) q" "bitmap_get (used_bitmap p1) q"
      unfolding p1_def using bitmap_get_blank [OF q] by simp_all
    then show ?thesis
      using init_usable_entries [OF p2 q] q
      by (auto simp: p_def p4_def reserve_range_get low p3_def init_reserved_entries [OF q] boot_frames_def)
  qed
  show ?thesis
  proof (rule that [OF init])
    show "n < unat (total_pages p)" if "n \<in> boot_frames bi entries" for n
    proof -
      have "n < 1048576" "usable_page entries ?c n" using that by (auto simp: boot_frames_def)
      then show ?thesis using bits [of "of_nat n"] by (simp add: p_def unat_of_nat32)
    qed
  qed (use init_usable_entries [OF p2, of 0] same bits in \<open>auto simp: p_def\<close>)
qed

subsection \<open>Allocating and freeing\<close>

lemma bit_bitmap_set:
  "bit (bitmap_set b page v i) k \<longleftrightarrow>
     (if i = unat page div 8 \<and> k = unat page mod 8 then v else bit (b i) k)"
proof -
  have "unat page mod 8 < 8" by simp
  moreover have "\<not> bit (b i) k" if "\<not> k < 8" using that bit_imp_le_length [of "b i" k] by auto
  ultimately show ?thesis
    by (auto simp del: push_bit_of_1
        simp: bitmap_set_def Let_def unat_shr_3 bit_or_iff bit_and_iff bit_not_iff bit_mask_u8)
qed

lemma bitmap_ext: "b = b'" if "\<And>i k. bit (b i) k \<longleftrightarrow> bit (b' i) k" for b b' :: "nat \<Rightarrow> u8"
  using that by (intro ext bit_eqI) auto

lemma bitmap_set_undo: "bitmap_get b q = v \<Longrightarrow> bitmap_set (bitmap_set b q w) q v = b"
  by (rule bitmap_ext) (auto simp: bit_bitmap_set bitmap_get_iff)

lemma bitmap_set_commute:
  "q \<noteq> r \<Longrightarrow> bitmap_set (bitmap_set b q v) r w = bitmap_set (bitmap_set b r w) q v"
proof (rule bitmap_ext)
  fix i k assume "q \<noteq> r"
  moreover have "unat q div 8 = unat r div 8 \<and> unat q mod 8 = unat r mod 8 \<longleftrightarrow> q = r"
    by (metis div_mult_mod_eq word_unat_eq_iff)
  ultimately show "bit (bitmap_set (bitmap_set b q v) r w i) k = bit (bitmap_set (bitmap_set b r w) q v i) k"
    by (auto simp: bit_bitmap_set)
qed

lemma page_is_free_set [simp]:
  assumes "n < 4294967296" and "k < 4294967296"
  shows "page_is_free (p\<lparr>used_bitmap := bitmap_set (used_bitmap p) (of_nat k) v, free_pages := f\<rparr>) n \<longleftrightarrow>
    (if n = k then bitmap_get (allocatable_bitmap p) (of_nat n) \<and> \<not> v else page_is_free p n)"
  using assms of_nat_page_eq [of n "of_nat k"] by (auto simp: page_is_free_def unat_of_nat32)

lemma page_address:
  assumes "n < 1048576"
  shows "unat (push_bit 12 (of_nat n :: u32)) = n * 4096" and "drop_bit 12 (push_bit 12 (of_nat n :: u32)) = of_nat n"
proof -
  show *: "unat (push_bit 12 (of_nat n :: u32)) = n * 4096"
    using assms by (simp add: push_bit_eq_mult unat_word_ariths unat_of_nat32)
  show "drop_bit 12 (push_bit 12 (of_nat n :: u32)) = of_nat n"
    unfolding word_unat_eq_iff unat_shr_12 * using assms by (simp add: unat_of_nat32)
qed

lemma pmm_invD:
  assumes "pmm_inv p" and "n < unat (total_pages p)" and "page_is_free p n"
  shows "256 \<le> n" and "n < 1048576" and "0 < unat (free_pages p)"
proof -
  show "256 \<le> n" "n < 1048576"
    using assms by (auto simp: pmm_inv_def page_is_free_def not_less [symmetric])
  have "n \<in> free_frames p" using assms by (simp add: free_frames_def)
  then show "0 < unat (free_pages p)"
    using assms(1) by (auto simp: pmm_inv_def card_gt_0_iff)
qed

text \<open>The outcome of an allocation: the lowest free frame, or none.\<close>

lemma pmm_alloc_cases:
  assumes "pmm_inv p"
  obtains (none) "free_frames p = {}" "pmm_alloc p = (0, p)"
  | (taken) n p' where "n \<in> free_frames p" "\<And>m. m \<in> free_frames p \<Longrightarrow> n \<le> m" "n < 1048576" "256 \<le> n"
      "pmm_alloc p = (push_bit 12 (of_nat n), p')"
      "p' = p\<lparr>used_bitmap := bitmap_set (used_bitmap p) (of_nat n) True, free_pages := free_pages p - 1\<rparr>"
proof (cases "for_find 0 (unat (total_pages p)) (page_is_free p)")
  case None
  show ?thesis
  proof (rule none)
    show "free_frames p = {}" using None by (auto simp: free_frames_def for_find_None_iff)
  qed (simp add: pmm_alloc_def None)
next
  case (Some n)
  then have n: "n < unat (total_pages p)" "page_is_free p n" "\<And>m. m < n \<Longrightarrow> \<not> page_is_free p m"
    by (auto simp: for_find_Some_iff)
  show ?thesis
  proof (rule taken [of n])
    show "n \<in> free_frames p" using n by (simp add: free_frames_def)
    show "n \<le> m" if "m \<in> free_frames p" for m
      using that n(3) [of m] by (auto simp: free_frames_def not_less [symmetric])
  qed (use Some pmm_invD [OF assms n(1,2)] in \<open>auto simp: pmm_alloc_def\<close>)
qed

lemma frames_update:
  assumes "pmm_inv p" and "n < unat (total_pages p)" and "bitmap_get (allocatable_bitmap p) (of_nat n)"
  shows "free_frames (p\<lparr>used_bitmap := bitmap_set (used_bitmap p) (of_nat n) v, free_pages := f\<rparr>) =
      (if v then free_frames p - {n} else insert n (free_frames p))"
    and "allocated_frames (p\<lparr>used_bitmap := bitmap_set (used_bitmap p) (of_nat n) v, free_pages := f\<rparr>) =
      (if v then insert n (allocated_frames p) else allocated_frames p - {n})"
proof -
  have n: "m < 4294967296" "(of_nat m = (of_nat n :: u32)) = (m = n)" if "m < unat (total_pages p)" for m
    using that assms(1,2) of_nat_page_eq [of m "of_nat n"] by (auto simp: pmm_inv_def unat_of_nat32)
  show "free_frames (p\<lparr>used_bitmap := bitmap_set (used_bitmap p) (of_nat n) v, free_pages := f\<rparr>) =
      (if v then free_frames p - {n} else insert n (free_frames p))"
    using assms(2,3) n by (auto simp: free_frames_def split: if_splits)
  show "allocated_frames (p\<lparr>used_bitmap := bitmap_set (used_bitmap p) (of_nat n) v, free_pages := f\<rparr>) =
      (if v then insert n (allocated_frames p) else allocated_frames p - {n})"
    using assms(2,3) n by (auto simp: allocated_frames_def split: if_splits)
qed

lemma pmm_alloc_inv:
  assumes "pmm_inv p" and "n \<in> free_frames p"
    and "p' = p\<lparr>used_bitmap := bitmap_set (used_bitmap p) (of_nat n) True, free_pages := free_pages p - 1\<rparr>"
  shows "pmm_inv p'" and "free_frames p' = free_frames p - {n}" and "allocated_frames p' = insert n (allocated_frames p)"
proof -
  have n: "n < unat (total_pages p)" "page_is_free p n" "bitmap_get (allocatable_bitmap p) (of_nat n)"
    using assms(2) by (auto simp: free_frames_def page_is_free_def)
  show f: "free_frames p' = free_frames p - {n}" "allocated_frames p' = insert n (allocated_frames p)"
    unfolding assms(3) by (simp_all add: frames_update [OF assms(1) n(1,3)])
  have "unat (free_pages p - 1) = unat (free_pages p) - 1"
    using pmm_invD(3) [OF assms(1) n(1,2)] by (subst unat_sub) (auto simp: word_le_nat_alt)
  moreover have "card (free_frames p - {n}) = card (free_frames p) - 1"
    using assms(2) by (rule card_Diff_singleton)
  ultimately show "pmm_inv p'" using assms(1) f(1) by (simp add: pmm_inv_def assms(3))
qed

lemma pmm_free_eq:
  assumes "pmm_inv p"
  shows "pmm_free a p =
    (if unat a mod 4096 = 0 \<and> unat a div 4096 \<in> allocated_frames p
     then (True, p\<lparr>used_bitmap := bitmap_set (used_bitmap p) (drop_bit 12 a) False, free_pages := free_pages p + 1\<rparr>)
     else (False, p))"
proof -
  have "a AND (4096 - 1) \<noteq> 0 \<longleftrightarrow> unat a mod 4096 \<noteq> 0"
    using unat_and_FFF [of a] unat_eq_0 [of "a AND 4095"] by simp
  moreover have "of_nat (unat a div 4096) = drop_bit 12 a"
    by (simp add: word_unat_eq_iff unat_of_nat32 unat_shr_12 less_imp_diff_less unat_lt_2p32 le_less_trans [OF div_le_dividend])
  ultimately show ?thesis
    unfolding pmm_free_def Let_def by (auto simp: allocated_frames_def word_le_nat_alt unat_shr_12)
qed

lemma pmm_free_inv:
  assumes "pmm_inv p" and "unat a div 4096 \<in> allocated_frames p"
    and "p' = p\<lparr>used_bitmap := bitmap_set (used_bitmap p) (drop_bit 12 a) False, free_pages := free_pages p + 1\<rparr>"
  shows "pmm_inv p'" and "free_frames p' = insert (unat a div 4096) (free_frames p)"
    and "allocated_frames p' = allocated_frames p - {unat a div 4096}"
proof -
  let ?n = "unat a div 4096"
  have a: "drop_bit 12 a = of_nat ?n"
    by (simp add: word_unat_eq_iff unat_of_nat32 unat_shr_12 unat_lt_2p32 le_less_trans [OF div_le_dividend])
  have n: "?n < unat (total_pages p)" "bitmap_get (allocatable_bitmap p) (of_nat ?n)" "?n \<notin> free_frames p"
    using assms(2) by (auto simp: allocated_frames_def free_frames_def page_is_free_def)
  show f: "free_frames p' = insert ?n (free_frames p)" "allocated_frames p' = allocated_frames p - {?n}"
    unfolding assms(3) a by (simp_all add: frames_update [OF assms(1) n(1,2)])
  have "card (free_frames p) \<le> 1048576"
  proof -
    have "free_frames p \<subseteq> {..<unat (total_pages p)}" by (auto simp: free_frames_def)
    from card_mono [OF _ this] show ?thesis using assms(1) by (simp add: pmm_inv_def)
  qed
  then have "unat (free_pages p + 1) = unat (free_pages p) + 1"
    using assms(1) by (simp add: unat_word_ariths pmm_inv_def)
  then show "pmm_inv p'" using assms(1) f(1) n(3) by (simp add: pmm_inv_def assms(3))
qed
lemma push12_nonzero: "n < 1048576 \<Longrightarrow> 256 \<le> n \<Longrightarrow> push_bit 12 (of_nat n :: u32) \<noteq> 0"
  using page_address(1) [of n] by (metis less_le_not_le mult_is_0 unsigned_0 zero_less_numeral zero_neq_numeral le_zero_eq)

interpretation pmm_frames: frame_allocator pmm_alloc pmm_free pmm_inv free_frames allocated_frames
proof unfold_locales
  show "free_frames s \<inter> allocated_frames s = {}" for s
    by (auto simp: free_frames_def allocated_frames_def page_is_free_def)
next
  fix s a s' assume s: "pmm_inv s" "pmm_alloc s = (a, s')" "a \<noteq> 0"
  from s(1) show "pmm_inv s' \<and> unat a mod 4096 = 0 \<and> unat a div 4096 \<in> free_frames s \<and>
      free_frames s' = free_frames s - {unat a div 4096} \<and>
      allocated_frames s' = insert (unat a div 4096) (allocated_frames s)"
  proof (cases rule: pmm_alloc_cases)
    case (taken n p')
    then have "a = push_bit 12 (of_nat n)" "s' = p'" using s(2) by simp_all
    then show ?thesis
      using page_address(1) [OF taken(3)] pmm_alloc_inv [OF s(1) taken(1,6)] taken(1) by simp
  qed (use s in simp)
next
  fix s s' assume s: "pmm_inv s" "pmm_alloc s = (0, s')"
  from s(1) show "s' = s \<and> free_frames s = {}"
    by (cases rule: pmm_alloc_cases) (use s(2) push12_nonzero in auto)
next
  fix s and a :: u32 assume "pmm_inv s" "unat a mod 4096 = 0" "unat a div 4096 \<in> allocated_frames s"
  then show "\<exists>s'. pmm_free a s = (True, s') \<and> pmm_inv s' \<and> free_frames s' = insert (unat a div 4096) (free_frames s) \<and>
      allocated_frames s' = allocated_frames s - {unat a div 4096}"
    using pmm_free_inv [OF _ _ refl] by (simp add: pmm_free_eq)
next
  show "pmm_free a s = (False, s)" if "pmm_inv s" "unat a mod 4096 \<noteq> 0 \<or> unat a div 4096 \<notin> allocated_frames s" for a :: u32 and s
    using that by (auto simp: pmm_free_eq)
qed

lemma pmm_alloc_free_undo:
  assumes "pmm_inv p" and "pmm_alloc p = (a, p')" and "a \<noteq> 0"
  shows "pmm_free a p' = (True, p)"
  using assms(1)
proof (cases rule: pmm_alloc_cases)
  case (taken n q)
  then have a: "a = push_bit 12 (of_nat n)" "p' = q" using assms(2) by simp_all
  have "unat a mod 4096 = 0 \<and> unat a div 4096 \<in> allocated_frames p'"
    using pmm_frames.alloc_taken [OF assms] by auto
  moreover have "pmm_inv p'" using pmm_frames.alloc_taken [OF assms] by auto
  ultimately have "pmm_free a p' = (True, p'\<lparr>used_bitmap := bitmap_set (used_bitmap p') (of_nat n) False, free_pages := free_pages p' + 1\<rparr>)"
    by (simp add: pmm_free_eq a(1) page_address(2) [OF taken(3)])
  moreover have "\<not> bitmap_get (used_bitmap p) (of_nat n)"
    using taken(1) by (auto simp: free_frames_def page_is_free_def)
  ultimately show ?thesis by (simp add: a(2) taken(6) bitmap_set_undo)
qed (use assms in simp)
lemma pmm_alloc_two:
  assumes "pmm_inv p" and "2 \<le> card (free_frames p)"
  obtains n m p1 p2 where "n < 1048576" "m < 1048576" "256 \<le> n" "256 \<le> m" "n \<noteq> m" "n \<in> free_frames p" "m \<in> free_frames p"
    "\<And>k. k \<in> free_frames p \<Longrightarrow> n \<le> k"
    "pmm_alloc p = (push_bit 12 (of_nat n), p1)" "pmm_alloc p1 = (push_bit 12 (of_nat m), p2)"
    "p1 = p\<lparr>used_bitmap := bitmap_set (used_bitmap p) (of_nat n) True, free_pages := free_pages p - 1\<rparr>"
    "p2 = p1\<lparr>used_bitmap := bitmap_set (used_bitmap p1) (of_nat m) True, free_pages := free_pages p1 - 1\<rparr>"
    "pmm_inv p1" "pmm_inv p2" "free_frames p2 = free_frames p - {n} - {m}"
    "allocated_frames p2 = insert m (insert n (allocated_frames p))"
  using assms(1)
proof (cases rule: pmm_alloc_cases)
  case none
  then show ?thesis using assms(2) by simp
next
  case first: (taken n p1)
  note i1 = pmm_alloc_inv [OF assms(1) first(1,6)]
  from i1(1) show ?thesis
  proof (cases rule: pmm_alloc_cases)
    case none
    then have "free_frames p \<subseteq> {n}" using i1(2) by auto
    then have "card (free_frames p) \<le> 1" using card_mono [of "{n}" "free_frames p"] by simp
    then show ?thesis using assms(2) by simp
  next
    case second: (taken m p2)
    note i2 = pmm_alloc_inv [OF i1(1) second(1,6)]
    show ?thesis
      by (rule that [of n m p1 p2]) (use first second i1 i2 in auto)
  qed
qed

lemma pmm_self_test_passes:
  assumes "pmm_inv p" and "2 \<le> card (free_frames p)"
  shows "pmm_self_test p = (True, p)"
proof -
  obtain n m p1 p2 where nm: "n < 1048576" "m < 1048576" "256 \<le> n" "256 \<le> m" "n \<noteq> m" "n \<in> free_frames p" "m \<in> free_frames p"
    and least: "\<And>k. k \<in> free_frames p \<Longrightarrow> n \<le> k"
    and al: "pmm_alloc p = (push_bit 12 (of_nat n), p1)" "pmm_alloc p1 = (push_bit 12 (of_nat m), p2)"
    and p1: "p1 = p\<lparr>used_bitmap := bitmap_set (used_bitmap p) (of_nat n) True, free_pages := free_pages p - 1\<rparr>"
    and p2: "p2 = p1\<lparr>used_bitmap := bitmap_set (used_bitmap p1) (of_nat m) True, free_pages := free_pages p1 - 1\<rparr>"
    and inv: "pmm_inv p1" "pmm_inv p2"
    and fr: "free_frames p2 = free_frames p - {n} - {m}" "allocated_frames p2 = insert m (insert n (allocated_frames p))"
    by (rule pmm_alloc_two [OF assms]) (rule that)
  let ?a = "push_bit 12 (of_nat n) :: u32" and ?b = "push_bit 12 (of_nat m) :: u32"
  note addr = page_address [OF nm(1)] page_address [OF nm(2)]
  have u: "\<not> bitmap_get (used_bitmap p) (of_nat n)" "\<not> bitmap_get (used_bitmap p) (of_nat m)"
    using nm(6,7) by (auto simp: free_frames_def page_is_free_def)
  have ne: "(of_nat n :: u32) \<noteq> of_nat m" using nm(1,2,5) by (simp add: of_nat_page_eq unat_of_nat32)
  define p3 where "p3 = p\<lparr>used_bitmap := bitmap_set (used_bitmap p) (of_nat m) True, free_pages := free_pages p - 1\<rparr>"
  have free_a: "pmm_free ?a p2 = (True, p3)"
  proof -
    have "pmm_free ?a p2 = (True, p2\<lparr>used_bitmap := bitmap_set (used_bitmap p2) (of_nat n) False, free_pages := free_pages p2 + 1\<rparr>)"
      using fr(2) by (simp add: pmm_free_eq [OF inv(2)] addr)
    then show ?thesis using u ne by (simp add: p3_def p2 p1 bitmap_set_commute [OF ne] bitmap_set_undo)
  qed
  have "pmm_inv p3" and f3: "free_frames p3 = free_frames p - {m}"
    and a3: "allocated_frames p3 = insert m (allocated_frames p)"
    using pmm_alloc_inv [OF assms(1) nm(7) p3_def] by auto
  have again: "pmm_alloc p3 = (?a, p2)"
    using \<open>pmm_inv p3\<close>
  proof (cases rule: pmm_alloc_cases)
    case none
    then show ?thesis using f3 nm(5,6) by auto
  next
    case (taken k p4)
    have "k \<le> n" "n \<le> k" using taken(1,2) f3 nm(5,6) least by blast+
    then have "k = n" by simp
    moreover have "p3\<lparr>used_bitmap := bitmap_set (used_bitmap p3) (of_nat n) True, free_pages := free_pages p3 - 1\<rparr> = p2"
      by (simp add: p3_def p2 p1 bitmap_set_commute [OF ne])
    ultimately show ?thesis using taken(5,6) by simp
  qed
  have free_b: "pmm_free ?b p3 = (True, p)"
  proof -
    have "pmm_free ?b p3 = (True, p3\<lparr>used_bitmap := bitmap_set (used_bitmap p3) (of_nat m) False, free_pages := free_pages p3 + 1\<rparr>)"
      using a3 by (simp add: pmm_free_eq [OF \<open>pmm_inv p3\<close>] addr)
    then show ?thesis using u by (simp add: p3_def bitmap_set_undo)
  qed
  have "?a \<noteq> ?b" using addr(1,3) nm(5) by (metis mult_cancel2 zero_neq_numeral)
  moreover have "?a AND 4095 = 0" "?b AND 4095 = 0"
    using unat_and_FFF [of ?a] unat_and_FFF [of ?b] addr by (simp_all add: unat_eq_0)
  ultimately show ?thesis
    using push12_nonzero nm(1-4)
    by (simp add: pmm_self_test_def Let_def al free_a again free_b)
qed
subsection \<open>Properties\<close>

lemma pmm_init_state:
  assumes "valid_boot_info bi"
  obtains p where
    "pmm_init bi entries p0 = (if boot_frames bi entries = {} then None else Some p)"
    "pmm_inv p" "free_frames p = boot_frames bi entries" "allocated_frames p = {}"
    "reserved_pages p = total_pages p - free_pages p"
proof -
  obtain p where p: "pmm_init bi entries p0 = (if total_pages p = 0 \<or> free_pages p = 0 then None else Some p)"
    and tot: "unat (total_pages p) \<le> 1048576" and free: "free_pages p = count_free p (total_pages p)"
    and res: "reserved_pages p = total_pages p - free_pages p"
    and al: "\<And>q. unat q < 1048576 \<Longrightarrow> bitmap_get (allocatable_bitmap p) q \<longleftrightarrow> unat q \<in> boot_frames bi entries"
    and us: "\<And>q. unat q < 1048576 \<Longrightarrow> bitmap_get (used_bitmap p) q \<longleftrightarrow> unat q \<notin> boot_frames bi entries"
    and lim: "\<And>n. n \<in> boot_frames bi entries \<Longrightarrow> n < unat (total_pages p)"
    by (rule pmm_init_outcome [OF assms]) (rule that)
  have bits: "bitmap_get (allocatable_bitmap p) (of_nat n) \<longleftrightarrow> n \<in> boot_frames bi entries"
    "bitmap_get (used_bitmap p) (of_nat n) \<longleftrightarrow> n \<notin> boot_frames bi entries" if "n < 1048576" for n
    using al [of "of_nat n"] us [of "of_nat n"] that by (simp_all add: unat_of_nat32)
  have "n \<in> free_frames p \<longleftrightarrow> n \<in> boot_frames bi entries" for n
    using lim [of n] bits [of n] tot by (auto simp: free_frames_def page_is_free_def)
  then have f: "free_frames p = boot_frames bi entries" by blast
  have card: "unat (free_pages p) = card (free_frames p)"
    unfolding free using count_free_card [OF tot] by (simp add: free_frames_def)
  moreover have "\<not> bitmap_get (allocatable_bitmap p) (of_nat n)" if "n < 256" for n
    using bits(1) [of n] that by (simp add: boot_frames_def)
  ultimately have inv: "pmm_inv p" using tot by (simp add: pmm_inv_def)
  have "n \<notin> allocated_frames p" for n using bits [of n] tot by (auto simp: allocated_frames_def)
  then have "allocated_frames p = {}" by blast
  moreover have "free_pages p = 0 \<longleftrightarrow> boot_frames bi entries = {}"
    using card f finite_free_frames [of p] unat_eq_0 [of "free_pages p"] by simp
  moreover have "total_pages p = 0 \<Longrightarrow> boot_frames bi entries = {}" using lim by auto
  ultimately show ?thesis using p inv f res by (intro that [of p]) auto
qed

text \<open>
  C38. \<open>pmm_init\<close> panics exactly when the boot information is invalid or leaves no frame to manage.
  Otherwise the free frames are exactly those inside a usable E820 entry that meet no reserved
  entry, neither the first megabyte nor the kernel image; none is allocated, and the counters
  agree with the bitmaps.
\<close>

theorem pmm_init_correct:
  "case pmm_init bi entries p0 of
     None \<Rightarrow> \<not> (valid_boot_info bi \<and> boot_frames bi entries \<noteq> {})
   | Some p \<Rightarrow> valid_boot_info bi \<and> boot_frames bi entries \<noteq> {} \<and> pmm_inv p \<and>
       free_frames p = boot_frames bi entries \<and> allocated_frames p = {} \<and>
       reserved_pages p = total_pages p - free_pages p"
proof (cases "valid_boot_info bi")
  case True
  then show ?thesis by (rule pmm_init_state [where entries = entries and ?p0.0 = p0]) (use True in auto)
next
  case False
  then have "pmm_init bi entries p0 = None" by (auto simp: pmm_init_def valid_boot_info_def)
  then show ?thesis using False by simp
qed

text \<open>
  C39. \<open>pmm_alloc\<close> answers 0 and changes nothing exactly when no frame is free; otherwise it returns
  the page-aligned, non-zero address of the lowest free frame, which moves from the free to the
  allocated frames.
\<close>

theorem pmm_alloc_correct:
  assumes "pmm_inv p"
  shows "case pmm_alloc p of (a, p') \<Rightarrow>
    if free_frames p = {} then a = 0 \<and> p' = p
    else a \<noteq> 0 \<and> unat a = Min (free_frames p) * 4096 \<and> pmm_inv p' \<and>
         free_frames p' = free_frames p - {Min (free_frames p)} \<and>
         allocated_frames p' = insert (Min (free_frames p)) (allocated_frames p)"
  using assms
proof (cases rule: pmm_alloc_cases)
  case (taken n p')
  have "Min (free_frames p) = n" using taken(1,2) by (intro Min_eqI) auto
  then show ?thesis
    using taken push12_nonzero [OF taken(3,4)] page_address(1) [OF taken(3)]
      pmm_alloc_inv [OF assms taken(1,6)] by auto
qed simp

text \<open>
  C40. \<open>pmm_free\<close> accepts exactly the page-aligned address of an allocated frame, which becomes
  free again; every other address, a frame freed twice or one the allocator never owned, is
  refused without a change.
\<close>

theorem pmm_free_correct:
  assumes "pmm_inv p"
  shows "case pmm_free a p of (ok, p') \<Rightarrow>
    (ok \<longleftrightarrow> unat a mod 4096 = 0 \<and> unat a div 4096 \<in> allocated_frames p) \<and> pmm_inv p' \<and>
    (if ok then free_frames p' = insert (unat a div 4096) (free_frames p) \<and>
                allocated_frames p' = allocated_frames p - {unat a div 4096}
     else p' = p)"
  using assms pmm_free_inv [OF assms _ refl, of a] by (simp add: pmm_free_eq)

text \<open>
  Freeing the frame just allocated is accepted and gives back the very state before the
  allocation; freeing it once more is refused.
\<close>

theorem pmm_alloc_free_roundtrip:
  assumes "pmm_inv p" and "pmm_alloc p = (a, p')" and "a \<noteq> 0"
  shows "pmm_free a p' = (True, p) \<and> pmm_free a p = (False, p)"
  using pmm_alloc_free_undo [OF assms] pmm_frames.release_twice_refused [of p' a p]
    pmm_frames.alloc_taken [OF assms] by simp

text \<open>
  With two free frames the boot-time self-test succeeds and leaves the allocator unchanged.
\<close>

theorem pmm_self_test_correct:
  assumes "pmm_inv p" and "2 \<le> card (free_frames p)"
  shows "pmm_self_test p = (True, p)"
  using assms by (rule pmm_self_test_passes)

subsection \<open>An allocator with two free frames\<close>

definition sample_pmm :: pmm where
  "sample_pmm = \<lparr>used_bitmap = (\<lambda>_. 0), allocatable_bitmap = (\<lambda>i. if i = 32 then 3 else 0),
     total_pages = 258, free_pages = 2, reserved_pages = 256\<rparr>"

lemma sample_pmm_bits:
  "bitmap_get (allocatable_bitmap sample_pmm) q \<longleftrightarrow> unat q = 256 \<or> unat q = 257"
  "\<not> bitmap_get (used_bitmap sample_pmm) q"
proof -
  have page: "n div 8 = 32 \<and> (n mod 8 = 0 \<or> n mod 8 = 1) \<longleftrightarrow> n = 256 \<or> n = 257" for n :: nat
    by presburger
  have three: "bit (3 :: u8) k \<longleftrightarrow> k = 0 \<or> k = 1" for k
    using bit_mask_iff [where 'a = u8, of 2 k] by (auto simp: mask_eq_exp_minus_1)
  have "allocatable_bitmap sample_pmm = (\<lambda>i. if i = 32 then 3 else 0)" by (simp add: sample_pmm_def)
  then have "bitmap_get (allocatable_bitmap sample_pmm) q \<longleftrightarrow> unat q div 8 = 32 \<and> bit (3 :: u8) (unat q mod 8)"
    by (simp add: bitmap_get_iff)
  then show "bitmap_get (allocatable_bitmap sample_pmm) q \<longleftrightarrow> unat q = 256 \<or> unat q = 257"
    by (simp only: three page)
qed (simp add: bitmap_get_iff sample_pmm_def)

lemma sample_pmm_frames [simp]: "free_frames sample_pmm = {256, 257}" "allocated_frames sample_pmm = {}"
proof -
  have "total_pages sample_pmm = 258" by (simp add: sample_pmm_def)
  then show "free_frames sample_pmm = {256, 257}" "allocated_frames sample_pmm = {}"
    by (auto simp: free_frames_def allocated_frames_def page_is_free_def sample_pmm_bits unat_of_nat32)
qed

lemma sample_pmm_inv [simp]: "pmm_inv sample_pmm"
proof -
  have "unat (of_nat n :: u32) = n" if "n < 256" for n using that by (simp add: unat_of_nat32)
  then show ?thesis by (auto simp: pmm_inv_def sample_pmm_bits) (simp_all add: sample_pmm_def)
qed

lemma sample_pmm_alloc: "\<exists>p'. pmm_alloc sample_pmm = (0x00100000, p') \<and> pmm_inv p' \<and> allocated_frames p' = {256}"
  using sample_pmm_inv
proof (cases rule: pmm_alloc_cases)
  case (taken n p')
  have "n = 256" using taken(1) taken(2) [of 256] by auto
  then show ?thesis using taken pmm_alloc_inv [OF sample_pmm_inv taken(1,6)] by (intro exI [of _ p']) simp
qed simp

theorem pmm_alloc_correct_witness:
  "case pmm_alloc sample_pmm of (a, p') \<Rightarrow> unat a = 1048576 \<and> free_frames p' = {257}"
  using pmm_alloc_correct [of sample_pmm] by (auto simp: insert_Diff_if)

theorem pmm_free_correct_witness:
  "\<exists>p'. pmm_alloc sample_pmm = (0x00100000, p') \<and> fst (pmm_free 0x00100000 p') \<and> \<not> fst (pmm_free 0x00101000 p')"
proof -
  obtain p' where p': "pmm_alloc sample_pmm = (0x00100000, p')" "pmm_inv p'" "allocated_frames p' = {256}"
    using sample_pmm_alloc by blast
  show ?thesis
    using pmm_free_correct [OF p'(2), of "0x00100000"] pmm_free_correct [OF p'(2), of "0x00101000"] p'(1,3) by (auto split: prod.splits)
qed

theorem pmm_alloc_free_roundtrip_witness:
  "\<exists>a p'. pmm_alloc sample_pmm = (a, p') \<and> a \<noteq> 0 \<and> pmm_free a p' = (True, sample_pmm)"
proof -
  obtain a p' where r: "pmm_alloc sample_pmm = (a, p')" by fastforce
  moreover have "a \<noteq> 0" using pmm_frames.alloc_failed [of sample_pmm p'] r by auto
  ultimately show ?thesis using pmm_alloc_free_roundtrip [OF sample_pmm_inv r] by blast
qed

theorem pmm_self_test_correct_witness: "pmm_self_test sample_pmm = (True, sample_pmm)"
  by (rule pmm_self_test_correct) simp_all

end
