(* ===== verification/Machine.thy ===== *)
theory Machine
  imports Pmm
begin

text \<open>
  The machine the memory-management code runs on: physical memory, the page-directory base
  register, the write-protect and interrupt-enable bits, and the globals of the VMM.

  Physical memory is a function from the frame number and the index of the 32-bit word in the
  frame. \<open>walk\<close> is the two-level translation of the 80386 in 4 KiB pages; \<open>vread\<close> and \<open>vwrite\<close>
  are a supervisor access to the word at a virtual address, and \<^const>\<open>None\<close> is the page fault,
  on which \<open>exception_dispatch\<close> panics. There is no TLB: every access walks the tables, so
  \<open>invlpg\<close> and the reload of an unchanged CR3 have no counterpart.
\<close>

record machine =
  m_pmm :: pmm
  ram :: "nat \<Rightarrow> nat \<Rightarrow> u32"
  cr3 :: u32
  write_protect :: bool
  eflags :: u32
  vmm_initialized :: bool
  kernel_page_directory_physical :: u32
  address_space_window_busy :: bool
  address_space_window_irq_flags :: u32

abbreviation (input) EFLAGS_IF :: u32 where "EFLAGS_IF \<equiv> 0x00000200"

subsection \<open>Interrupt flag (kernel/arch/x86/irq.c)\<close>

definition irq_read_flags :: "machine \<Rightarrow> u32" where
  "irq_read_flags m = eflags m"

definition irq_save_disable :: "machine \<Rightarrow> u32 \<times> machine" where
  "irq_save_disable m = (irq_read_flags m, m\<lparr>eflags := eflags m AND NOT EFLAGS_IF\<rparr>)"

definition irq_restore :: "u32 \<Rightarrow> machine \<Rightarrow> machine" where
  "irq_restore flags m =
     (if flags AND EFLAGS_IF \<noteq> 0 then m\<lparr>eflags := eflags m OR EFLAGS_IF\<rparr>
      else m\<lparr>eflags := eflags m AND NOT EFLAGS_IF\<rparr>)"

subsection \<open>Translation and access\<close>

definition ram_write :: "nat \<Rightarrow> nat \<Rightarrow> u32 \<Rightarrow> machine \<Rightarrow> machine" where
  "ram_write f i x m = m\<lparr>ram := (ram m)(f := (ram m f)(i := x))\<rparr>"

definition walk :: "machine \<Rightarrow> u32 \<Rightarrow> (u32 \<times> u32) option" where
  "walk m v =
     (let pde = ram m (unat (drop_bit 12 (cr3 m))) (unat (drop_bit 22 v))
      in if pde AND 1 = 0 then None
         else let pte = ram m (unat (drop_bit 12 pde)) (unat (drop_bit 12 v AND 0x3FF))
              in if pte AND 1 = 0 then None else Some (pde, pte))"

definition vread :: "u32 \<Rightarrow> machine \<Rightarrow> u32 option" where
  "vread v m =
     (case walk m v of
        None \<Rightarrow> None
      | Some (pde, pte) \<Rightarrow> Some (ram m (unat (drop_bit 12 pte)) (unat (v AND 0xFFF) div 4)))"

definition vwrite :: "u32 \<Rightarrow> u32 \<Rightarrow> machine \<Rightarrow> machine option" where
  "vwrite v x m =
     (case walk m v of
        None \<Rightarrow> None
      | Some (pde, pte) \<Rightarrow>
          if write_protect m \<and> (pde AND 2 = 0 \<or> pte AND 2 = 0) then None
          else Some (ram_write (unat (drop_bit 12 pte)) (unat (v AND 0xFFF) div 4) x m))"

subsection \<open>Page-table entries\<close>

text \<open>
  The directory that CR3 selects, its entries, and the tables they point to, as functions of
  the frame numbers and indices.
\<close>

definition present :: "u32 \<Rightarrow> bool" where
  "present e \<longleftrightarrow> e AND 1 \<noteq> 0"

definition frame_of :: "u32 \<Rightarrow> nat" where
  "frame_of e = unat e div 4096"

definition pde :: "machine \<Rightarrow> nat \<Rightarrow> u32" where
  "pde m i = ram m (frame_of (cr3 m)) i"

definition pte :: "machine \<Rightarrow> nat \<Rightarrow> nat \<Rightarrow> u32" where
  "pte m i j = ram m (frame_of (pde m i)) j"

lemma frame_of_drop: "unat (drop_bit 12 e) = frame_of e"
  by (simp add: frame_of_def unat_shr_12)

lemma frame_of_lt: "frame_of e < 1048576"
  using unat_lt_2p32 [of e] by (simp add: frame_of_def less_mult_imp_div_less)

lemma walk_alt:
  "walk m v = (let i = unat v div 4194304; j = unat v div 4096 mod 1024 in
     if present (pde m i) \<and> present (pte m i j) then Some (pde m i, pte m i j) else None)"
  by (simp add: walk_def Let_def present_def pde_def pte_def frame_of_def unat_shr_22 unat_and_3FF unat_shr_12)

lemma ram_ram_write [simp]:
  "ram (ram_write f i x m) g j = (if g = f \<and> j = i then x else ram m g j)"
  by (simp add: ram_write_def)

lemma ram_write_fields [simp]:
  "m_pmm (ram_write f i x m) = m_pmm m" "cr3 (ram_write f i x m) = cr3 m"
  "write_protect (ram_write f i x m) = write_protect m" "eflags (ram_write f i x m) = eflags m"
  "vmm_initialized (ram_write f i x m) = vmm_initialized m"
  "kernel_page_directory_physical (ram_write f i x m) = kernel_page_directory_physical m"
  "address_space_window_busy (ram_write f i x m) = address_space_window_busy m"
  "address_space_window_irq_flags (ram_write f i x m) = address_space_window_irq_flags m"
  by (simp_all add: ram_write_def)

lemma irq_restore_save:
  "irq_save_disable m = (f, m') \<Longrightarrow> irq_restore f m' = m"
proof -
  assume "irq_save_disable m = (f, m')"
  then have f: "f = eflags m" "m' = m\<lparr>eflags := eflags m AND NOT EFLAGS_IF\<rparr>"
    by (auto simp: irq_save_disable_def irq_read_flags_def)
  have iff: "x AND EFLAGS_IF \<noteq> 0 \<longleftrightarrow> bit x 9" for x :: u32
    using and_exp_eq_0_iff_not_bit [of x 9] by simp
  have nine: "bit EFLAGS_IF n \<longleftrightarrow> n = 9" for n
    using bit_exp_iff [where 'a = u32, of 9 n] by auto
  have "(x AND NOT EFLAGS_IF) OR EFLAGS_IF = x" if "bit x 9" for x :: u32
    using that by (intro bit_word_eqI) (simp only: bit_or_iff bit_and_iff bit_not_iff nine, auto)
  moreover have "x AND NOT EFLAGS_IF = x" if "\<not> bit x 9" for x :: u32
    using that by (intro bit_word_eqI) (simp only: bit_or_iff bit_and_iff bit_not_iff nine, auto)
  ultimately show ?thesis by (simp add: f irq_restore_def iff)
qed

end
