(* ===== verification/Vmm.thy ===== *)
theory Vmm
  imports Machine
begin

text \<open>
  The virtual memory manager, \<open>kernel/mm/vmm.c\<close>. It edits the page tables of the active directory
  through the recursive mapping: entry 1023 of a directory points to the directory itself, so
  that its tables appear at \<open>0xFFC00000\<close> and the directory at \<open>0xFFFFF000\<close>.

  Operations return \<^const>\<open>None\<close> on \<open>panic()\<close> or on a page fault of the kernel. An output
  parameter is part of the result: \<open>vmm_unmap\<close> and \<open>vmm_query\<close> answer \<open>Some None\<close> for \<open>false\<close>.
  The addresses the linker provides are the record \<open>kernel_image\<close>.
\<close>

subsection \<open>Constants\<close>

abbreviation (input) PAGE_MASK :: u32 where "PAGE_MASK \<equiv> 0xFFFFF000"
abbreviation (input) KERNEL_BASE :: u32 where "KERNEL_BASE \<equiv> 0xC0000000"
abbreviation (input) KERNEL_PDE_INDEX :: nat where "KERNEL_PDE_INDEX \<equiv> 768"
abbreviation (input) RECURSIVE_PDE_INDEX :: nat where "RECURSIVE_PDE_INDEX \<equiv> 1023"
abbreviation (input) PAGE_ENTRY_COUNT :: nat where "PAGE_ENTRY_COUNT \<equiv> 1024"
abbreviation (input) VGA_PHYSICAL_ADDRESS :: u32 where "VGA_PHYSICAL_ADDRESS \<equiv> 0x000B8000"
abbreviation (input) SCRATCH_VIRTUAL_ADDRESS :: u32 where "SCRATCH_VIRTUAL_ADDRESS \<equiv> 0xC03FF000"
abbreviation (input) RECURSIVE_PAGE_TABLES :: u32 where "RECURSIVE_PAGE_TABLES \<equiv> 0xFFC00000"
abbreviation (input) RECURSIVE_PAGE_DIRECTORY :: u32 where "RECURSIVE_PAGE_DIRECTORY \<equiv> 0xFFFFF000"
abbreviation (input) PAGE_PRESENT :: u32 where "PAGE_PRESENT \<equiv> 1"
abbreviation (input) VMM_WRITABLE :: u32 where "VMM_WRITABLE \<equiv> 2"
abbreviation (input) VMM_USER :: u32 where "VMM_USER \<equiv> 4"
abbreviation (input) VMM_TEST_VIRTUAL_ADDRESS :: u32 where "VMM_TEST_VIRTUAL_ADDRESS \<equiv> 0xD0000000"
abbreviation (input) VMM_TEST_VALUE :: u32 where "VMM_TEST_VALUE \<equiv> 0x51A7C0DE"

record kernel_image =
  text_start :: u32
  text_end :: u32
  rodata_start :: u32
  rodata_end :: u32
  boot_page_directory :: u32
  boot_page_table :: u32

subsection \<open>Operations\<close>

definition page_is_read_only_kernel :: "kernel_image \<Rightarrow> u32 \<Rightarrow> bool" where
  "page_is_read_only_kernel ki virtual_address \<longleftrightarrow>
     virtual_address \<ge> text_start ki \<and> virtual_address < text_end ki \<or>
     virtual_address \<ge> rodata_start ki \<and> virtual_address < rodata_end ki"

text \<open>Element \<open>i\<close> of \<open>page_directory\<close> and of \<open>page_tables\<close>, through the recursive mapping.\<close>

definition page_directory_get :: "u32 \<Rightarrow> machine \<Rightarrow> u32 option" where
  "page_directory_get i = vread (RECURSIVE_PAGE_DIRECTORY + 4 * i)"

definition page_directory_set :: "u32 \<Rightarrow> u32 \<Rightarrow> machine \<Rightarrow> machine option" where
  "page_directory_set i = vwrite (RECURSIVE_PAGE_DIRECTORY + 4 * i)"

definition page_tables_get :: "u32 \<Rightarrow> machine \<Rightarrow> u32 option" where
  "page_tables_get i = vread (RECURSIVE_PAGE_TABLES + 4 * i)"

definition page_tables_set :: "u32 \<Rightarrow> u32 \<Rightarrow> machine \<Rightarrow> machine option" where
  "page_tables_set i = vwrite (RECURSIVE_PAGE_TABLES + 4 * i)"

definition zero_page_through_scratch :: "u32 \<Rightarrow> machine \<Rightarrow> machine option" where
  "zero_page_through_scratch physical_address m = do {
     let scratch_index = 768 * 1024 + (1024 - 1);
     entry \<leftarrow> page_tables_get scratch_index m;
     if entry AND PAGE_PRESENT \<noteq> 0 then None
     else do {
       m \<leftarrow> page_tables_set scratch_index (physical_address OR PAGE_PRESENT OR VMM_WRITABLE) m;
       m \<leftarrow> for_opt 0 PAGE_ENTRY_COUNT
              (\<lambda>index. vwrite (SCRATCH_VIRTUAL_ADDRESS + 4 * of_nat index) 0) m;
       page_tables_set scratch_index 0 m
     }
   }"

definition init_page_table_entry :: "kernel_image \<Rightarrow> boot_info \<Rightarrow> u32 \<Rightarrow> u32" where
  "init_page_table_entry ki bi physical =
     (if physical = VGA_PHYSICAL_ADDRESS \<or>
         physical \<ge> kernel_physical_start bi \<and> physical < kernel_physical_end bi
      then physical OR
             (if physical = VGA_PHYSICAL_ADDRESS \<or>
                 \<not> page_is_read_only_kernel ki (KERNEL_BASE + physical)
              then PAGE_PRESENT OR VMM_WRITABLE else PAGE_PRESENT)
      else 0)"

definition vmm_init :: "kernel_image \<Rightarrow> boot_info \<Rightarrow> machine \<Rightarrow> machine option" where
  "vmm_init ki bi m =
     (let directory_physical = cr3 m AND PAGE_MASK
      in if kernel_physical_start bi \<ge> kernel_physical_end bi then None
         else do {
           m \<leftarrow> for_opt 0 PAGE_ENTRY_COUNT
                  (\<lambda>index. vwrite (boot_page_table ki + 4 * of_nat index)
                     (init_page_table_entry ki bi (of_nat index * 4096))) m;
           m \<leftarrow> vwrite (boot_page_directory ki + 4 * of_nat KERNEL_PDE_INDEX)
                  ((boot_page_table ki - KERNEL_BASE) OR PAGE_PRESENT OR VMM_WRITABLE) m;
           m \<leftarrow> vwrite (boot_page_directory ki + 4 * of_nat RECURSIVE_PDE_INDEX)
                  (directory_physical OR PAGE_PRESENT OR VMM_WRITABLE) m;
           m \<leftarrow> vwrite (boot_page_directory ki) 0 m;
           Some (m\<lparr>write_protect := True, cr3 := directory_physical,
                   kernel_page_directory_physical := directory_physical, vmm_initialized := True\<rparr>)
         })"

definition vmm_kernel_page_directory :: "machine \<Rightarrow> u32" where
  "vmm_kernel_page_directory m = (if vmm_initialized m then kernel_page_directory_physical m else 0)"

definition vmm_current_page_directory :: "machine \<Rightarrow> u32" where
  "vmm_current_page_directory m = (if vmm_initialized m then cr3 m AND PAGE_MASK else 0)"

definition vmm_activate_page_directory :: "u32 \<Rightarrow> machine \<Rightarrow> bool \<times> machine" where
  "vmm_activate_page_directory physical_address m =
     (if \<not> vmm_initialized m \<or> physical_address = 0 \<or> physical_address AND (4096 - 1) \<noteq> 0
      then (False, m)
      else (True, m\<lparr>cr3 := physical_address\<rparr>))"

definition vmm_activate_kernel_address_space :: "machine \<Rightarrow> bool \<times> machine" where
  "vmm_activate_kernel_address_space m =
     vmm_activate_page_directory (kernel_page_directory_physical m) m"

definition vmm_map_rejects :: "u32 \<Rightarrow> u32 \<Rightarrow> u32 \<Rightarrow> machine \<Rightarrow> bool" where
  "vmm_map_rejects virtual_address physical_address flags m \<longleftrightarrow>
     \<not> vmm_initialized m \<or> virtual_address AND (4096 - 1) \<noteq> 0 \<or>
     physical_address AND (4096 - 1) \<noteq> 0 \<or> virtual_address = SCRATCH_VIRTUAL_ADDRESS \<or>
     virtual_address \<ge> RECURSIVE_PAGE_TABLES \<or>
     flags AND VMM_USER \<noteq> 0 \<and> virtual_address \<ge> KERNEL_BASE \<or>
     flags AND VMM_USER = 0 \<and> virtual_address < KERNEL_BASE"

definition vmm_ensure_table :: "u32 \<Rightarrow> u32 \<Rightarrow> machine \<Rightarrow> (bool \<times> machine) option" where
  "vmm_ensure_table directory_index flags m = do {
     entry \<leftarrow> page_directory_get directory_index m;
     if entry AND PAGE_PRESENT = 0 then
       (case pmm_alloc (m_pmm m) of (page_table_physical, p) \<Rightarrow>
          let m = m\<lparr>m_pmm := p\<rparr>
          in if page_table_physical = 0 then Some (False, m)
             else do {
               m \<leftarrow> zero_page_through_scratch page_table_physical m;
               m \<leftarrow> page_directory_set directory_index
                      (page_table_physical OR PAGE_PRESENT OR VMM_WRITABLE OR (flags AND VMM_USER)) m;
               Some (True, m)
             })
     else if flags AND VMM_USER \<noteq> 0 then do {
       m \<leftarrow> page_directory_set directory_index (entry OR VMM_USER) m;
       Some (True, m)
     }
     else Some (True, m)
   }"

definition vmm_map :: "u32 \<Rightarrow> u32 \<Rightarrow> u32 \<Rightarrow> machine \<Rightarrow> (bool \<times> machine) option" where
  "vmm_map virtual_address physical_address flags m =
     (if vmm_map_rejects virtual_address physical_address flags m then Some (False, m)
      else let directory_index = drop_bit 22 virtual_address;
               table_index = drop_bit 12 virtual_address AND 0x3FF
           in do {
             (ok, m) \<leftarrow> vmm_ensure_table directory_index flags m;
             if \<not> ok then Some (False, m)
             else do {
               let entry_index = directory_index * 1024 + table_index;
               entry \<leftarrow> page_tables_get entry_index m;
               if entry AND PAGE_PRESENT \<noteq> 0 then Some (False, m)
               else do {
                 m \<leftarrow> page_tables_set entry_index
                        (physical_address OR PAGE_PRESENT OR (flags AND (VMM_WRITABLE OR VMM_USER))) m;
                 Some (True, m)
               }
             }
           })"

text \<open>The test for an empty table, which stops at the first present entry.\<close>

fun table_is_empty :: "u32 \<Rightarrow> nat list \<Rightarrow> machine \<Rightarrow> bool option" where
  "table_is_empty directory_index [] m = Some True"
| "table_is_empty directory_index (index # rest) m = do {
     entry \<leftarrow> page_tables_get (directory_index * 1024 + of_nat index) m;
     if entry AND PAGE_PRESENT \<noteq> 0 then Some False else table_is_empty directory_index rest m
   }"

definition vmm_release_table :: "u32 \<Rightarrow> machine \<Rightarrow> machine option" where
  "vmm_release_table directory_index m = do {
     entry \<leftarrow> page_directory_get directory_index m;
     let table_physical = entry AND PAGE_MASK;
     m \<leftarrow> page_directory_set directory_index 0 m;
     case pmm_free table_physical (m_pmm m) of (ok, p) \<Rightarrow>
       if ok then Some (m\<lparr>m_pmm := p\<rparr>) else None
   }"

definition vmm_unmap :: "u32 \<Rightarrow> machine \<Rightarrow> (u32 option \<times> machine) option" where
  "vmm_unmap virtual_address m =
     (if \<not> vmm_initialized m \<or> virtual_address AND (4096 - 1) \<noteq> 0 \<or>
         virtual_address \<ge> RECURSIVE_PAGE_TABLES then Some (None, m)
      else let directory_index = drop_bit 22 virtual_address;
               table_index = drop_bit 12 virtual_address AND 0x3FF
           in do {
             dentry \<leftarrow> page_directory_get directory_index m;
             if dentry AND PAGE_PRESENT = 0 then Some (None, m)
             else do {
               let entry_index = directory_index * 1024 + table_index;
               entry \<leftarrow> page_tables_get entry_index m;
               if entry AND PAGE_PRESENT = 0 then Some (None, m)
               else do {
                 m \<leftarrow> page_tables_set entry_index 0 m;
                 let physical_address = entry AND PAGE_MASK;
                 if directory_index = of_nat KERNEL_PDE_INDEX then Some (Some physical_address, m)
                 else do {
                   is_empty \<leftarrow> table_is_empty directory_index [0..<PAGE_ENTRY_COUNT] m;
                   m \<leftarrow> (if is_empty then vmm_release_table directory_index m else Some m);
                   Some (Some physical_address, m)
                 }
               }
             }
           })"

definition vmm_query :: "u32 \<Rightarrow> machine \<Rightarrow> (u32 \<times> u32) option option" where
  "vmm_query virtual_address m =
     (let directory_index = drop_bit 22 virtual_address;
          table_index = drop_bit 12 virtual_address AND 0x3FF
      in if \<not> vmm_initialized m \<or> virtual_address \<ge> RECURSIVE_PAGE_TABLES then Some None
         else do {
           dentry \<leftarrow> page_directory_get directory_index m;
           if dentry AND PAGE_PRESENT = 0 then Some None
           else do {
             entry \<leftarrow> page_tables_get (directory_index * 1024 + table_index) m;
             if entry AND PAGE_PRESENT = 0 then Some None
             else let physical_address = (entry AND PAGE_MASK) OR (virtual_address AND NOT PAGE_MASK);
                      flags = entry AND (VMM_WRITABLE OR VMM_USER);
                      flags = (if dentry AND VMM_WRITABLE = 0 then flags AND NOT VMM_WRITABLE else flags);
                      flags = (if dentry AND VMM_USER = 0 then flags AND NOT VMM_USER else flags)
                  in Some (Some (physical_address, flags))
           }
         })"

definition vmm_self_test :: "machine \<Rightarrow> (bool \<times> machine) option" where
  "vmm_self_test m =
     (let before = free_pages (m_pmm m);
          (physical, p) = pmm_alloc (m_pmm m);
          m = m\<lparr>m_pmm := p\<rparr>
      in if physical = 0 then Some (False, m)
         else do {
           (ok, m) \<leftarrow> vmm_map VMM_TEST_VIRTUAL_ADDRESS physical VMM_WRITABLE m;
           if \<not> ok then Some (False, m)
           else do {
             queried \<leftarrow> vmm_query VMM_TEST_VIRTUAL_ADDRESS m;
             if map_option fst queried \<noteq> Some physical then Some (False, m)
             else do {
               (again, m) \<leftarrow> vmm_map VMM_TEST_VIRTUAL_ADDRESS physical VMM_WRITABLE m;
               if again then Some (False, m)
               else do {
                 m \<leftarrow> vwrite VMM_TEST_VIRTUAL_ADDRESS VMM_TEST_VALUE m;
                 x \<leftarrow> vread VMM_TEST_VIRTUAL_ADDRESS m;
                 if x \<noteq> VMM_TEST_VALUE then Some (False, m)
                 else do {
                   (unmapped, m) \<leftarrow> vmm_unmap VMM_TEST_VIRTUAL_ADDRESS m;
                   if unmapped \<noteq> Some physical then Some (False, m)
                   else do {
                     found \<leftarrow> vmm_query VMM_TEST_VIRTUAL_ADDRESS m;
                     if found \<noteq> None then Some (False, m)
                     else case pmm_free physical (m_pmm m) of (ok, p) \<Rightarrow>
                       let m = m\<lparr>m_pmm := p\<rparr>
                       in if \<not> ok then Some (False, m)
                          else Some (free_pages (m_pmm m) = before, m)
                   }
                 }
               }
             }
           }
         })"

subsection \<open>Entries and their flag bits\<close>

lemma present_iff: "present e \<longleftrightarrow> bit e 0"
  by (simp add: present_def and_one_eq odd_iff_mod_2_eq_one bit_0)

lemma test_bits:
  "(x :: u32) AND 1 = 0 \<longleftrightarrow> \<not> bit x 0" "x AND 2 = 0 \<longleftrightarrow> \<not> bit x 1" "x AND 4 = 0 \<longleftrightarrow> \<not> bit x 2"
  using and_exp_eq_0_iff_not_bit [of x 0] and_exp_eq_0_iff_not_bit [of x 1] and_exp_eq_0_iff_not_bit [of x 2]
  by simp_all

lemma bit_flags:
  "bit (1 :: u32) n \<longleftrightarrow> n = 0" "bit (2 :: u32) n \<longleftrightarrow> n = 1" "bit (4 :: u32) n \<longleftrightarrow> n = 2"
  "bit (3 :: u32) n \<longleftrightarrow> n = 0 \<or> n = 1" "bit (6 :: u32) n \<longleftrightarrow> n = 1 \<or> n = 2" 
proof -
  show 1: "bit (1 :: u32) n \<longleftrightarrow> n = 0" by (simp add: bit_1_iff)
  show 2: "bit (2 :: u32) n \<longleftrightarrow> n = 1" using bit_exp_iff [where 'a = u32, of 1 n] by auto
  show 4: "bit (4 :: u32) n \<longleftrightarrow> n = 2" using bit_exp_iff [where 'a = u32, of 2 n] by auto
  have "(3 :: u32) = 1 OR 2" "(6 :: u32) = 2 OR 4" by simp_all
  then show "bit (3 :: u32) n \<longleftrightarrow> n = 0 \<or> n = 1" "bit (6 :: u32) n \<longleftrightarrow> n = 1 \<or> n = 2"
    using 1 2 4 by (metis bit_or_iff)+
qed

lemma aligned_bits:
  assumes "unat (a :: u32) mod 4096 = 0" and "n < 12"
  shows "\<not> bit a n"
proof -
  have "take_bit 12 a = 0"
    using assms(1) by (simp add: word_unat_eq_iff unsigned_take_bit_eq take_bit_nat_def)
  then have "\<not> bit (take_bit 12 a) n" by simp
  then show ?thesis using assms(2) by (simp add: bit_take_bit_iff)
qed

lemma bit_PAGE_MASK: "bit PAGE_MASK n \<longleftrightarrow> 12 \<le> n \<and> n < 32"
proof -
  have "PAGE_MASK = NOT (mask 12)" by (simp add: mask_eq_exp_minus_1)
  moreover have "bit (NOT (mask 12) :: u32) n \<longleftrightarrow> 12 \<le> n \<and> n < 32"
    by (simp only: bit_not_iff bit_mask_iff possible_bit_word) auto
  ultimately show ?thesis by simp
qed

lemma frame_of_eqI: "(\<And>n. 12 \<le> n \<Longrightarrow> bit a n = bit b n) \<Longrightarrow> frame_of a = frame_of b"
  unfolding frame_of_drop [symmetric]
  by (rule arg_cong [where f = unat], rule bit_word_eqI) (simp add: bit_drop_bit_eq)

lemma frame_of_or_flags:
  assumes "\<And>n. 12 \<le> n \<Longrightarrow> \<not> bit f n"
  shows "frame_of (a OR f) = frame_of a"
  by (rule frame_of_eqI) (simp add: bit_or_iff assms)

lemma or_flags_mask:
  assumes "unat (a :: u32) mod 4096 = 0" and "\<And>n. 12 \<le> n \<Longrightarrow> \<not> bit f n"
  shows "(a OR f) AND PAGE_MASK = a"
proof (rule bit_word_eqI)
  fix n assume n: "n < LENGTH(32)"
  have "n < 12 \<Longrightarrow> \<not> bit a n" by (rule aligned_bits [OF assms(1)])
  then show "bit ((a OR f) AND PAGE_MASK) n = bit a n"
    using assms(2) [of n] n unfolding bit_and_iff bit_or_iff bit_PAGE_MASK by (cases "n < 12") auto
qed

lemma small_bits:
  assumes "unat (f :: u32) < 4096" and "12 \<le> n"
  shows "\<not> bit f n"
proof -
  have "drop_bit 12 f = 0" using assms(1) by (simp add: word_unat_eq_iff unat_shr_12)
  then have "\<not> bit (drop_bit 12 f) (n - 12)" by simp
  then show ?thesis using assms(2) by (simp add: bit_drop_bit_eq)
qed

lemma page_number:
  assumes "unat (a :: u32) mod 4096 = 0"
  shows "unat a = frame_of a * 4096"
  using assms div_mult_mod_eq [of "unat a" 4096] by (simp only: frame_of_def)

subsection \<open>The recursive mapping\<close>

text \<open>Entry 1023 of the active directory is writable and points to the directory.\<close>

definition recursive_ok :: "machine \<Rightarrow> bool" where
  "recursive_ok m \<longleftrightarrow> bit (pde m 1023) 0 \<and> bit (pde m 1023) 1 \<and> frame_of (pde m 1023) = frame_of (cr3 m)"

lemma recursive_directory_address:
  assumes "unat i < 1024"
  shows "unat (RECURSIVE_PAGE_DIRECTORY + 4 * i) = 4294963200 + 4 * unat i"
  using assms by (simp add: unat_word_ariths)

lemma recursive_tables_address:
  assumes "unat i < 1048576"
  shows "unat (RECURSIVE_PAGE_TABLES + 4 * i) = 4290772992 + 4 * unat i"
  using assms by (simp add: unat_word_ariths)

lemma recursive_walk:
  assumes "recursive_ok m" and "unat v = 4290772992 + 4 * (i * 1024 + j)" and "i < 1024" and "j < 1024"
    and "bit (pde m i) 0"
  shows "walk m v = Some (pde m 1023, pde m i)" and "unat (v AND 0xFFF) div 4 = j"
proof -
  have "unat v div 4194304 = 1023" "unat v div 4096 mod 1024 = i" "unat v mod 4096 div 4 = j"
  proof -
    have v: "unat v = 4 * j + (i + 1023 * 1024) * 4096" unfolding assms(2) by simp
    have p: "unat v div 4096 = i + 1023 * 1024" unfolding v div_mult_self1 [OF zero_neq_numeral [symmetric]] using assms(4) by simp
    show "unat v div 4096 mod 1024 = i" unfolding p mod_mult_self1 using assms(3) by simp
    show "unat v mod 4096 div 4 = j" unfolding v mod_mult_self1 using assms(4) by simp
    show "unat v div 4194304 = 1023" unfolding assms(2) using assms(3,4) by simp
  qed
  moreover have "pte m 1023 i = pde m i" using assms(1) by (simp add: pte_def pde_def recursive_ok_def)
  ultimately show "walk m v = Some (pde m 1023, pde m i)" "unat (v AND 0xFFF) div 4 = j"
    using assms(1,5) by (simp_all add: walk_alt Let_def present_iff unat_and_FFF recursive_ok_def)
qed

lemma page_tables_access:
  assumes "recursive_ok m" and "unat i < 1024" and "unat j < 1024" and "bit (pde m (unat i)) 0"
  shows "page_tables_get (i * 1024 + j) m = Some (pte m (unat i) (unat j))"
    and "bit (pde m (unat i)) 1 \<Longrightarrow>
      page_tables_set (i * 1024 + j) x m = Some (ram_write (frame_of (pde m (unat i))) (unat j) x m)"
proof -
  have ij: "unat (i * 1024 + j) = unat i * 1024 + unat j"
    using assms(2,3) by (simp add: unat_word_ariths)
  then have a: "unat (RECURSIVE_PAGE_TABLES + 4 * (i * 1024 + j)) = 4290772992 + 4 * (unat i * 1024 + unat j)"
    using recursive_tables_address [of "i * 1024 + j"] assms(2,3) by simp
  note w = recursive_walk [OF assms(1) a assms(2-4)]
  show "page_tables_get (i * 1024 + j) m = Some (pte m (unat i) (unat j))"
    unfolding page_tables_get_def vread_def w by (simp add: pte_def frame_of_drop)
  show "page_tables_set (i * 1024 + j) x m = Some (ram_write (frame_of (pde m (unat i))) (unat j) x m)"
    if "bit (pde m (unat i)) 1"
    using assms(1) that unfolding page_tables_set_def vwrite_def w
    by (simp add: frame_of_drop recursive_ok_def test_bits)
qed

lemma page_directory_access:
  assumes "recursive_ok m" and "unat i < 1024"
  shows "page_directory_get i m = Some (pde m (unat i))"
    and "page_directory_set i x m = Some (ram_write (frame_of (cr3 m)) (unat i) x m)"
proof -
  have a: "unat (RECURSIVE_PAGE_DIRECTORY + 4 * i) = 4290772992 + 4 * (1023 * 1024 + unat i)"
    using recursive_directory_address [OF assms(2)] by simp
  have r: "bit (pde m 1023) 0" "bit (pde m 1023) 1" "frame_of (pde m 1023) = frame_of (cr3 m)"
    using assms(1) by (auto simp: recursive_ok_def)
  have w: "walk m (RECURSIVE_PAGE_DIRECTORY + 4 * i) = Some (pde m 1023, pde m 1023)"
    "unat ((RECURSIVE_PAGE_DIRECTORY + 4 * i) AND 0xFFF) div 4 = unat i"
    using recursive_walk [OF assms(1) a _ assms(2) r(1)] by simp_all
  show "page_directory_get i m = Some (pde m (unat i))"
    unfolding page_directory_get_def vread_def w by (simp add: pde_def frame_of_drop r(3) [unfolded pde_def])
  show "page_directory_set i x m = Some (ram_write (frame_of (cr3 m)) (unat i) x m)"
    unfolding page_directory_set_def vwrite_def w by (simp add: frame_of_drop r test_bits del: One_nat_def)
qed

subsection \<open>Clearing a frame through the scratch page\<close>

definition clear_frame :: "nat \<Rightarrow> nat \<Rightarrow> (nat \<Rightarrow> nat \<Rightarrow> u32) \<Rightarrow> nat \<Rightarrow> nat \<Rightarrow> u32" where
  "clear_frame n f r = r(f := (\<lambda>i. if i < n then 0 else r f i))"

lemma scratch_address:
  assumes "n < 1024"
  shows "unat (SCRATCH_VIRTUAL_ADDRESS + 4 * of_nat n) = 3225415680 + 4 * n"
  using assms by (simp add: unat_word_ariths unat_of_nat32)

lemma scratch_write:
  assumes "n < 1024" and "bit (pde m 768) 0" and "bit (pde m 768) 1" and "bit (pte m 768 1023) 0"
    and "bit (pte m 768 1023) 1"
  shows "vwrite (SCRATCH_VIRTUAL_ADDRESS + 4 * of_nat n) x m = Some (ram_write (frame_of (pte m 768 1023)) n x m)"
proof -
  let ?v = "SCRATCH_VIRTUAL_ADDRESS + 4 * of_nat n"
  have v: "unat ?v = 3225415680 + 4 * n" by (rule scratch_address [OF assms(1)])
  have "unat ?v div 4194304 = 768" "unat ?v div 4096 mod 1024 = 1023"
  proof -
    show "unat ?v div 4194304 = 768" unfolding v using assms(1) by simp
    have "unat ?v div 4096 = 787455" unfolding v using div_mult_self1 [of 4096 "4 * n" 787455] assms(1) by simp
    then show "unat ?v div 4096 mod 1024 = 1023" by simp
  qed
  then have w: "walk m ?v = Some (pde m 768, pte m 768 1023)"
    using assms by (simp add: walk_alt Let_def present_iff)
  have "unat (?v AND 0xFFF) div 4 = n"
    unfolding unat_and_FFF v using mod_mult_self1 [of "4 * n" 787455 4096] assms(1) by (simp add: add.commute)
  then show ?thesis unfolding vwrite_def w using assms by (simp add: frame_of_drop test_bits del: One_nat_def)
qed

lemma scratch_loop:
  assumes "bit (pde m 768) 0" and "bit (pde m 768) 1" and "bit (pte m 768 1023) 0" and "bit (pte m 768 1023) 1"
    and "f = frame_of (pte m 768 1023)" and "f \<noteq> frame_of (cr3 m)" and "f \<noteq> frame_of (pde m 768)"
  shows "for_opt 0 1024 (\<lambda>index. vwrite (SCRATCH_VIRTUAL_ADDRESS + 4 * of_nat index) 0) m =
    Some (m\<lparr>ram := clear_frame 1024 f (ram m)\<rparr>)"
proof -
  have "\<exists>s'. for_opt 0 1024 (\<lambda>index. vwrite (SCRATCH_VIRTUAL_ADDRESS + 4 * of_nat index) 0) m = Some s' \<and>
    s' = m\<lparr>ram := clear_frame 1024 f (ram m)\<rparr>"
  proof (rule for_opt_rule)
    show "m = m\<lparr>ram := clear_frame 0 f (ram m)\<rparr>" by (simp add: clear_frame_def)
  next
    fix n s assume n: "n < (1024 :: nat)" and s: "s = m\<lparr>ram := clear_frame n f (ram m)\<rparr>"
    have "pde s 768 = pde m 768" "pte s 768 1023 = pte m 768 1023"
      using assms(6,7) by (simp_all add: s pde_def pte_def clear_frame_def)
    then have "vwrite (SCRATCH_VIRTUAL_ADDRESS + 4 * of_nat n) 0 s = Some (ram_write f n 0 s)"
      using scratch_write [OF n, of s] assms by simp
    moreover have "ram_write f n 0 s = m\<lparr>ram := clear_frame (Suc n) f (ram m)\<rparr>"
      by (simp add: s ram_write_def clear_frame_def fun_eq_iff less_Suc_eq)
    ultimately show "\<exists>s'. vwrite (SCRATCH_VIRTUAL_ADDRESS + 4 * of_nat n) 0 s = Some s' \<and>
        s' = m\<lparr>ram := clear_frame (Suc n) f (ram m)\<rparr>" by blast
  qed simp
  then show ?thesis by simp
qed

lemma zero_page_through_scratch_spec:
  assumes "recursive_ok m" and "bit (pde m 768) 0" and "bit (pde m 768) 1" and "pte m 768 1023 = 0"
    and "unat a mod 4096 = 0" and "frame_of a \<noteq> frame_of (cr3 m)" and "frame_of a \<noteq> frame_of (pde m 768)"
    and "frame_of (pde m 768) \<noteq> frame_of (cr3 m)"
  shows "zero_page_through_scratch a m = Some (m\<lparr>ram := clear_frame 1024 (frame_of a) (ram m)\<rparr>)"
proof -
  let ?kt = "frame_of (pde m 768)" and ?e = "a OR PAGE_PRESENT OR VMM_WRITABLE"
  define m1 where "m1 = ram_write ?kt 1023 ?e m"
  define m2 where "m2 = m1\<lparr>ram := clear_frame 1024 (frame_of a) (ram m1)\<rparr>"
  have get: "page_tables_get 787455 m = Some (pte m 768 1023)"
    and set: "page_tables_set 787455 x m = Some (ram_write ?kt 1023 x m)" for x
    using page_tables_access [OF assms(1), of 768 1023] assms(2,3) by simp_all
  have e: "bit ?e 0" "bit ?e 1" unfolding bit_or_iff bit_flags by auto
  have f: "frame_of ?e = frame_of a"
    using frame_of_or_flags [OF small_bits, of 3 a] by (simp add: or.assoc)
  have same1: "pde m1 i = pde m i" "cr3 m1 = cr3 m" for i
    using assms(8) by (auto simp: m1_def pde_def)
  have pte1: "pte m1 768 1023 = ?e" by (simp add: pte_def same1) (simp add: m1_def)
  have same2: "pde m2 i = pde m i" "cr3 m2 = cr3 m" for i
    using assms(6) same1 by (simp_all add: m2_def pde_def clear_frame_def)
  have "recursive_ok m2" using assms(1) by (simp add: recursive_ok_def same2)
  then have set2: "page_tables_set 787455 0 m2 = Some (ram_write ?kt 1023 0 m2)"
    using page_tables_access(2) [of m2 768 1023 0] assms(2,3) by (simp add: same2)
  have loop: "for_opt 0 1024 (\<lambda>index. vwrite (SCRATCH_VIRTUAL_ADDRESS + 4 * of_nat index) 0) m1 = Some m2"
    unfolding m2_def using assms(2,3,6,7) e f pte1 by (intro scratch_loop) (simp_all add: same1)
  have "ram_write ?kt 1023 0 m2 = m\<lparr>ram := clear_frame 1024 (frame_of a) (ram m)\<rparr>"
    using assms(4,7) by (auto simp: m2_def m1_def ram_write_def clear_frame_def fun_eq_iff pte_def)
  then show ?thesis
    unfolding zero_page_through_scratch_def using get set assms(4) loop set2 by (simp add: m1_def)
qed

subsection \<open>The invariant of the active address space\<close>

text \<open>
  A page table of the active directory: writable, open to user code exactly in the lower three
  gigabytes, in a frame of its own that the allocator does not hold free. Except for the table
  of the kernel image it was allocated, and except for the indices in \<open>K\<close> it is not empty.
\<close>

definition table_ok :: "nat set \<Rightarrow> machine \<Rightarrow> nat \<Rightarrow> bool" where
  "table_ok K m i \<longleftrightarrow>
     bit (pde m i) 1 \<and> (bit (pde m i) 2 \<longleftrightarrow> i < 768) \<and> frame_of (pde m i) \<noteq> frame_of (cr3 m) \<and>
     frame_of (pde m i) \<notin> free_frames (m_pmm m) \<and>
     (i \<noteq> 768 \<longrightarrow> frame_of (pde m i) \<in> allocated_frames (m_pmm m) \<and>
                (i \<notin> K \<longrightarrow> (\<exists>j<1024. bit (pte m i j) 0)))"

definition vmm_wf :: "nat set \<Rightarrow> machine \<Rightarrow> bool" where
  "vmm_wf K m \<longleftrightarrow>
     pmm_inv (m_pmm m) \<and> vmm_initialized m \<and> recursive_ok m \<and> bit (pde m 768) 0 \<and>
     pte m 768 1023 = 0 \<and> frame_of (cr3 m) \<notin> free_frames (m_pmm m) \<and>
     (\<forall>i<1023. bit (pde m i) 0 \<longrightarrow> table_ok K m i) \<and>
     (\<forall>i<1023. \<forall>j<1023. bit (pde m i) 0 \<longrightarrow> bit (pde m j) 0 \<longrightarrow>
        frame_of (pde m i) = frame_of (pde m j) \<longrightarrow> i = j)"

definition vmm_inv :: "machine \<Rightarrow> bool" where
  "vmm_inv m \<longleftrightarrow> vmm_wf {} m"

text \<open>What the active address space maps: the entry of page \<open>n\<close>, below the recursive window.\<close>

definition page_entry :: "machine \<Rightarrow> nat \<Rightarrow> u32 option" where
  "page_entry m n =
     (if bit (pde m (n div 1024)) 0 \<and> bit (pte m (n div 1024) (n mod 1024)) 0
      then Some (pte m (n div 1024) (n mod 1024)) else None)"

text \<open>The frames that hold the active directory and its tables.\<close>

definition table_frames :: "machine \<Rightarrow> nat set" where
  "table_frames m = insert (frame_of (cr3 m)) ((\<lambda>i. frame_of (pde m i)) ` {i. i < 1023 \<and> bit (pde m i) 0})"

text \<open>
  A step of the VMM: it changes the allocator and memory only, and of memory only the frames of the active
  directory and its tables and frames that were free.
\<close>

definition tables_only :: "machine \<Rightarrow> machine \<Rightarrow> bool" where
  "tables_only m m' \<longleftrightarrow> m' = m\<lparr>m_pmm := m_pmm m', ram := ram m'\<rparr> \<and>
     (\<forall>g. g \<notin> table_frames m \<longrightarrow> g \<notin> free_frames (m_pmm m) \<longrightarrow> ram m' g = ram m g)"

lemma tables_onlyI:
  assumes "m' = m\<lparr>m_pmm := p, ram := r\<rparr>" and "\<And>g. g \<notin> table_frames m \<Longrightarrow> g \<notin> free_frames (m_pmm m) \<Longrightarrow> r g = ram m g"
  shows "tables_only m m'"
  using assms by (simp add: tables_only_def)

lemma tables_only_write:
  assumes "f \<in> table_frames m \<union> free_frames (m_pmm m)"
  shows "tables_only m (ram_write f i x m)"
  using assms by (auto simp: tables_only_def ram_write_def)

lemma table_frames_pde: "i < 1023 \<Longrightarrow> bit (pde m i) 0 \<Longrightarrow> frame_of (pde m i) \<in> table_frames m"
  by (auto simp: table_frames_def)

lemma vmm_wfD:
  assumes "vmm_wf K m"
  shows "pmm_inv (m_pmm m)" "vmm_initialized m" "recursive_ok m" "bit (pde m 768) 0" "bit (pde m 768) 1"
    "pte m 768 1023 = 0" "frame_of (cr3 m) \<notin> free_frames (m_pmm m)"
    "frame_of (pde m 768) \<noteq> frame_of (cr3 m)" "frame_of (pde m 768) \<notin> free_frames (m_pmm m)"
  using assms by (auto simp: vmm_wf_def table_ok_def)

lemma vmm_wf_table:
  assumes "vmm_wf K m" and "i < 1023" and "bit (pde m i) 0"
  shows "table_ok K m i"
  using assms by (auto simp: vmm_wf_def)

lemma vmm_wf_inj:
  assumes "vmm_wf K m" and "i < 1023" and "j < 1023" and "bit (pde m i) 0" and "bit (pde m j) 0"
  shows "frame_of (pde m i) = frame_of (pde m j) \<longleftrightarrow> i = j"
  using assms by (auto simp: vmm_wf_def)

text \<open>Setting one entry of a table of the active directory.\<close>

lemma set_pte:
  assumes wf: "vmm_wf K m" and i: "i < 1023" "bit (pde m i) 0" and m': "m' = ram_write (frame_of (pde m i)) j x m"
  shows "pde m' k = pde m k" and "cr3 m' = cr3 m"
    and "k < 1023 \<Longrightarrow> bit (pde m k) 0 \<Longrightarrow> pte m' k l = (if k = i \<and> l = j then x else pte m k l)"
proof -
  have "frame_of (pde m i) \<noteq> frame_of (cr3 m)" using vmm_wf_table [OF wf i] by (simp add: table_ok_def)
  then show pde: "pde m' k = pde m k" and "cr3 m' = cr3 m" for k by (auto simp: m' pde_def)
  assume "k < 1023" "bit (pde m k) 0"
  then show "pte m' k l = (if k = i \<and> l = j then x else pte m k l)"
    unfolding pte_def pde using vmm_wf_inj [OF wf _ _ _ i(2), of k] i(1) by (simp add: m')
qed

lemma set_pte_wf:
  assumes wf: "vmm_wf K m" and i: "i < 1023" "bit (pde m i) 0" and m': "m' = ram_write (frame_of (pde m i)) j x m"
    and j: "j < 1024" "(i, j) \<noteq> (768, 1023)" and K': "bit x 0 \<and> K' = K - {i} \<or> K' = insert i K"
  shows "vmm_wf K' m'"
proof -
  note s = set_pte [OF wf i m']
  have pmm: "m_pmm m' = m_pmm m" "vmm_initialized m' = vmm_initialized m" by (simp_all add: m')
  have "table_ok K' m' k" if k: "k < 1023" "bit (pde m k) 0" for k
  proof -
    have "\<exists>l<1024. bit (pte m' k l) 0" if "k \<noteq> 768" "k \<notin> K'"
    proof (cases "k = i")
      case True
      then show ?thesis using s(3) [OF i, of j] j(1) K' that by auto
    next
      case False
      then have "\<exists>l<1024. bit (pte m k l) 0"
        using vmm_wf_table [OF wf k] K' that by (auto simp: table_ok_def)
      then show ?thesis using s(3) [OF k] False by auto
    qed
    then show ?thesis using vmm_wf_table [OF wf k] by (auto simp: table_ok_def s(1,2) pmm)
  qed
  moreover have "pte m' 768 1023 = 0" using s(3) [of 768 1023] vmm_wfD [OF wf] j(2) by auto
  ultimately show ?thesis
    using wf by (auto simp: vmm_wf_def s(1,2) pmm recursive_ok_def)
qed

lemma set_pte_entry:
  assumes "vmm_wf K m" and "i < 1023" "bit (pde m i) 0" and "m' = ram_write (frame_of (pde m i)) j x m"
    and "j < 1024" and "n < 1047552"
  shows "page_entry m' n = (if n = i * 1024 + j then if bit x 0 then Some x else None else page_entry m n)"
proof -
  have n: "n div 1024 < 1023" using assms(6) by auto
  have "n = i * 1024 + j \<longleftrightarrow> n div 1024 = i \<and> n mod 1024 = j" using assms(5) by auto
  then show ?thesis
    using set_pte(3) [OF assms(1-4) n] assms(3)
    by (auto simp: page_entry_def set_pte(1,2) [OF assms(1-4)])
qed

text \<open>Adding an empty table in a freshly allocated frame.\<close>

lemma new_table:
  assumes wf: "vmm_wf K m" and i: "i < 1023" "\<not> bit (pde m i) 0"
    and al: "pmm_alloc (m_pmm m) = (a, p')" "a \<noteq> 0"
    and e: "bit e 0" "bit e 1" "bit e 2 \<longleftrightarrow> i < 768" "frame_of e = frame_of a"
    and m': "m' = ram_write (frame_of (cr3 m)) i e (m\<lparr>m_pmm := p', ram := clear_frame 1024 (frame_of a) (ram m)\<rparr>)"
  shows "vmm_wf (insert i K) m'" and "pde m' k = (if k = i then e else pde m k)"
    and "l < 1024 \<Longrightarrow> pte m' i l = 0" and "n < 1047552 \<Longrightarrow> page_entry m' n = page_entry m n"
proof -
  let ?f = "frame_of a"
  note w = vmm_wfD [OF wf]
  have al': "pmm_inv p'" "?f \<in> free_frames (m_pmm m)" "free_frames p' = free_frames (m_pmm m) - {?f}"
    "allocated_frames p' = insert ?f (allocated_frames (m_pmm m))"
    using pmm_frames.alloc_taken [OF w(1) al] by (auto simp: frame_of_def)
  have dir: "frame_of (cr3 m) \<noteq> ?f" using w(7) al'(2) by auto
  have tab: "frame_of (pde m k) \<noteq> ?f" if "k < 1023" "bit (pde m k) 0" for k
    using vmm_wf_table [OF wf that] al'(2) by (auto simp: table_ok_def)
  show pde: "pde m' k = (if k = i then e else pde m k)" for k
    using dir by (simp add: m' pde_def clear_frame_def)
  have cr3: "cr3 m' = cr3 m" "m_pmm m' = p'" "vmm_initialized m' = vmm_initialized m" by (simp_all add: m')
  have pte: "pte m' k l = pte m k l" if "k < 1023" "bit (pde m k) 0" for k l
  proof -
    have "k \<noteq> i" using i(2) that(2) by auto
    moreover have "frame_of (pde m k) \<noteq> frame_of (cr3 m)"
      using vmm_wf_table [OF wf that] by (simp add: table_ok_def)
    ultimately show ?thesis using tab [OF that] by (simp add: pte_def pde) (simp add: m' clear_frame_def)
  qed
  show new: "pte m' i l = 0" if "l < 1024" for l
    using that dir by (simp add: pte_def pde e(4)) (simp add: m' clear_frame_def)
  have i768: "i \<noteq> 768" using w(4) i(2) by auto
  have "table_ok (insert i K) m' k" if "k < 1023" "bit (pde m' k) 0" for k
  proof (cases "k = i")
    case True
    then show ?thesis using e i768 al'(3,4) dir by (simp add: table_ok_def pde cr3)
  next
    case False
    then have k: "bit (pde m k) 0" using that(2) by (simp add: pde)
    show ?thesis
      using vmm_wf_table [OF wf that(1) k] pte [OF that(1) k] False al'(3,4)
      by (auto simp: table_ok_def pde cr3)
  qed
  moreover have "frame_of (pde m' k) = frame_of (pde m' l) \<longrightarrow> k = l"
    if "k < 1023" "l < 1023" "bit (pde m' k) 0" "bit (pde m' l) 0" for k l
    using that vmm_wf_inj [OF wf that(1,2)] tab [of k] tab [of l] e(4) by (auto simp: pde split: if_splits)
  moreover have "recursive_ok m'" using w(3) i(1) by (simp add: recursive_ok_def pde cr3)
  ultimately show "vmm_wf (insert i K) m'"
    using w al'(1,3) i768 pte [of 768 1023] by (auto simp: vmm_wf_def cr3 pde)
  show "page_entry m' n = page_entry m n" if "n < 1047552"
  proof (cases "n div 1024 = i")
    case True
    then show ?thesis using i(2) new [of "n mod 1024"] by (simp add: page_entry_def)
  next
    case False
    moreover have "n div 1024 < 1023" using that by auto
    ultimately show ?thesis using pte [of "n div 1024" "n mod 1024"] by (auto simp: page_entry_def pde)
  qed
qed

lemma set_pde_same: "ram_write (frame_of (cr3 m)) i (pde m i) m = m"
  by (simp add: ram_write_def pde_def)

lemma ensure_table_cases:
  assumes wf: "vmm_wf K m" and i: "unat d < 1023" and fl: "bit fl 2 \<longleftrightarrow> unat d < 768"
  obtains (old) "bit (pde m (unat d)) 0" "vmm_ensure_table d fl m = Some (True, m)"
  | (full) "\<not> bit (pde m (unat d)) 0" "free_frames (m_pmm m) = {}" "vmm_ensure_table d fl m = Some (False, m)"
  | (new) a p' e m' where "\<not> bit (pde m (unat d)) 0" "pmm_alloc (m_pmm m) = (a, p')" "a \<noteq> 0"
      "bit e 0" "bit e 1" "bit e 2 \<longleftrightarrow> unat d < 768" "frame_of e = frame_of a"
      "m' = ram_write (frame_of (cr3 m)) (unat d) e (m\<lparr>m_pmm := p', ram := clear_frame 1024 (frame_of a) (ram m)\<rparr>)"
      "vmm_ensure_table d fl m = Some (True, m')"
proof -
  note w = vmm_wfD [OF wf]
  have d: "unat d < 1024" using i by simp
  note acc = page_directory_access [OF w(3) d]
  show ?thesis
  proof (cases "bit (pde m (unat d)) 0")
    case True
    have "pde m (unat d) OR VMM_USER = pde m (unat d)" if "bit fl 2"
    proof (rule bit_word_eqI)
      have "bit (pde m (unat d)) 2" using vmm_wf_table [OF wf i True] that fl by (simp add: table_ok_def)
      then show "bit (pde m (unat d) OR VMM_USER) n = bit (pde m (unat d)) n" for n
        unfolding bit_or_iff bit_flags by auto
    qed
    then have "vmm_ensure_table d fl m = Some (True, m)"
      using True acc by (simp add: vmm_ensure_table_def test_bits set_pde_same)
    then show ?thesis using True old by blast
  next
    case False
    show ?thesis
    proof (cases "fst (pmm_alloc (m_pmm m)) = 0")
      case True
      then have "pmm_alloc (m_pmm m) = (0, m_pmm m)" "free_frames (m_pmm m) = {}"
        using pmm_frames.alloc_failed [OF w(1), of "snd (pmm_alloc (m_pmm m))"] by (metis prod.collapse)+
      moreover from this have "vmm_ensure_table d fl m = Some (False, m)"
        using False acc by (simp add: vmm_ensure_table_def test_bits)
      ultimately show ?thesis using False full by blast
    next
      case a0: False
      obtain a p' where a: "pmm_alloc (m_pmm m) = (a, p')" "a \<noteq> 0" using a0 by (metis prod.collapse)
      define m1 where "m1 = m\<lparr>m_pmm := p'\<rparr>"
      define e where "e = a OR PAGE_PRESENT OR VMM_WRITABLE OR (fl AND VMM_USER)"
      have al: "unat a mod 4096 = 0" "frame_of a \<in> free_frames (m_pmm m)"
        using pmm_frames.alloc_taken [OF w(1) a] by (auto simp: frame_of_def)
      have e_bits: "bit e 0" "bit e 1" "bit e 2 \<longleftrightarrow> unat d < 768"
        using aligned_bits [OF al(1)] fl unfolding e_def bit_or_iff bit_and_iff bit_flags by auto
      have "unat (fl AND VMM_USER) \<le> unat VMM_USER" using word_and_le1 [of fl VMM_USER] by (simp only: word_le_nat_alt)
      then have "\<not> bit (fl AND VMM_USER) n" if "12 \<le> n" for n using small_bits [OF _ that, of "fl AND VMM_USER"] by simp
      then have e_frame: "frame_of e = frame_of a"
        by (intro frame_of_eqI) (auto simp only: e_def bit_or_iff bit_flags)
      have same: "pde m1 k = pde m k" "pte m1 k l = pte m k l" "cr3 m1 = cr3 m" "ram m1 = ram m" for k l
        by (simp_all add: m1_def pde_def pte_def)
      have rec: "recursive_ok m1" using w(3) by (simp add: recursive_ok_def same)
      have zero: "zero_page_through_scratch a m1 = Some (m1\<lparr>ram := clear_frame 1024 (frame_of a) (ram m1)\<rparr>)"
        using w al by (intro zero_page_through_scratch_spec [OF rec]) (auto simp: same)
      define m2 where "m2 = m1\<lparr>ram := clear_frame 1024 (frame_of a) (ram m1)\<rparr>"
      have "frame_of (cr3 m) \<noteq> frame_of a" using w(7) al(2) by auto
      then have "pde m2 k = pde m k" "cr3 m2 = cr3 m" for k
        by (simp_all add: m2_def m1_def pde_def clear_frame_def)
      then have "page_directory_set d e m2 = Some (ram_write (frame_of (cr3 m)) (unat d) e m2)"
        using page_directory_access(2) [of m2 d e] w(3) d by (simp add: recursive_ok_def)
      then have "vmm_ensure_table d fl m = Some (True, ram_write (frame_of (cr3 m)) (unat d) e m2)"
        using False acc zero a
        by (simp add: vmm_ensure_table_def test_bits m1_def [symmetric] m2_def [symmetric] e_def [symmetric])
      then show ?thesis
        using new [OF False a e_bits e_frame refl] by (simp add: m2_def m1_def)
    qed
  qed
qed

lemma map_target:
  assumes "\<not> vmm_map_rejects v a fl m"
  shows "vmm_initialized m" "unat v mod 4096 = 0" "unat a mod 4096 = 0" "unat v < 4290772992"
    "unat (drop_bit 22 v) < 1023" "unat (drop_bit 12 v AND 0x3FF) < 1024"
    "unat (drop_bit 22 v) * 1024 + unat (drop_bit 12 v AND 0x3FF) = frame_of v"
    "frame_of v < 1047552" "bit fl 2 \<longleftrightarrow> unat (drop_bit 22 v) < 768"
    "(unat (drop_bit 22 v), unat (drop_bit 12 v AND 0x3FF)) \<noteq> (768, 1023)"
proof -
  have zero: "x AND (4096 - 1) = 0 \<longleftrightarrow> unat x mod 4096 = 0" for x :: u32
    using unat_and_FFF [of x] unat_eq_0 [of "x AND 4095"] by simp
  show init: "vmm_initialized m" and v: "unat v mod 4096 = 0" and "unat a mod 4096 = 0" "unat v < 4290772992"
    using assms zero by (auto simp: vmm_map_rejects_def word_le_nat_alt)
  have vd: "unat v = frame_of v * 4096" by (rule page_number [OF v])
  show lt: "frame_of v < 1047552" using \<open>unat v < 4290772992\<close> vd by simp
  have i: "unat (drop_bit 22 v) = frame_of v div 1024" "unat (drop_bit 12 v AND 0x3FF) = frame_of v mod 1024"
    by (simp_all add: frame_of_def unat_shr_22 unat_and_3FF unat_shr_12 div_mult2_eq [symmetric])
  show "unat (drop_bit 22 v) < 1023" "unat (drop_bit 12 v AND 0x3FF) < 1024"
    and n: "unat (drop_bit 22 v) * 1024 + unat (drop_bit 12 v AND 0x3FF) = frame_of v"
    using lt unfolding i by auto
  have "unat v < 3221225472 \<longleftrightarrow> frame_of v div 1024 < 768" using vd by auto
  moreover have "bit fl 2 \<longleftrightarrow> unat v < 3221225472"
    using assms by (auto simp: vmm_map_rejects_def test_bits word_le_nat_alt word_less_nat_alt)
  ultimately show "bit fl 2 \<longleftrightarrow> unat (drop_bit 22 v) < 768" by (simp add: i)
  have "unat v \<noteq> 3225415680" using assms by (auto simp: vmm_map_rejects_def word_unat_eq_iff)
  then have "frame_of v \<noteq> 787455" using vd by auto
  then show "(unat (drop_bit 22 v), unat (drop_bit 12 v AND 0x3FF)) \<noteq> (768, 1023)"
    using n by auto
qed

lemma vmm_map_new_entry:
  assumes wf: "vmm_wf K m" and ok: "\<not> vmm_map_rejects v a fl m"
    and pd: "bit (pde m (unat (drop_bit 22 v))) 0" and none: "page_entry m (frame_of v) = None"
    and K: "K \<subseteq> {unat (drop_bit 22 v)}"
  defines "x \<equiv> a OR PAGE_PRESENT OR (fl AND (VMM_WRITABLE OR VMM_USER))"
  shows "\<exists>m'. page_tables_get (drop_bit 22 v * 1024 + (drop_bit 12 v AND 0x3FF)) m =
        Some (pte m (unat (drop_bit 22 v)) (unat (drop_bit 12 v AND 0x3FF))) \<and>
      \<not> bit (pte m (unat (drop_bit 22 v)) (unat (drop_bit 12 v AND 0x3FF))) 0 \<and>
      page_tables_set (drop_bit 22 v * 1024 + (drop_bit 12 v AND 0x3FF)) x m = Some m' \<and>
      vmm_inv m' \<and> m_pmm m' = m_pmm m \<and> cr3 m' = cr3 m \<and> pde m' = pde m \<and>
      (\<forall>n<1047552. page_entry m' n = ((page_entry m)(frame_of v := Some x)) n) \<and>
      m' = ram_write (frame_of (pde m (unat (drop_bit 22 v)))) (unat (drop_bit 12 v AND 0x3FF)) x m"
proof -
  let ?d = "drop_bit 22 v" and ?t = "drop_bit 12 v AND 0x3FF"
  note t = map_target [OF ok]
  have d: "unat ?d < 1024" using t(5) by simp
  have w1: "bit (pde m (unat ?d)) 1" using vmm_wf_table [OF wf t(5) pd] by (simp add: table_ok_def)
  define m' where "m' = ram_write (frame_of (pde m (unat ?d))) (unat ?t) x m"
  have x: "bit x 0" unfolding x_def bit_or_iff bit_flags by simp
  have idx: "frame_of v div 1024 = unat ?d" "frame_of v mod 1024 = unat ?t"
    unfolding t(7) [symmetric] using t(6) by simp_all
  have "vmm_wf (K - {unat ?d}) m'"
    by (rule set_pte_wf [OF wf t(5) pd m'_def t(6) t(10)]) (simp add: x)
  then have "vmm_inv m'" using K by (simp add: vmm_inv_def Diff_eq_empty_iff [THEN iffD2])
  moreover have "page_entry m' n = ((page_entry m)(frame_of v := Some x)) n" if "n < 1047552" for n
    using set_pte_entry [OF wf t(5) pd m'_def t(6) that] x by (simp add: t(7))
  ultimately show ?thesis
    using page_tables_access [OF vmm_wfD(3) [OF wf] d t(6) pd] w1 none pd
      set_pte(1) [OF wf t(5) pd m'_def]
    by (intro exI [of _ m']) (auto simp: m'_def page_entry_def idx fun_eq_iff split: if_splits)
qed

lemma vmm_map_spec:
  assumes inv: "vmm_inv m" and ok: "\<not> vmm_map_rejects v a fl m"
  defines "x \<equiv> a OR PAGE_PRESENT OR (fl AND (VMM_WRITABLE OR VMM_USER))"
    and "d \<equiv> unat (drop_bit 22 v)"
  obtains (busy) "page_entry m (frame_of v) \<noteq> None" "vmm_map v a fl m = Some (False, m)"
  | (full) "page_entry m (frame_of v) = None" "\<not> bit (pde m d) 0" "free_frames (m_pmm m) = {}"
      "vmm_map v a fl m = Some (False, m)"
  | (mapped) m' where "page_entry m (frame_of v) = None" "vmm_map v a fl m = Some (True, m')" "vmm_inv m'"
      "cr3 m' = cr3 m" "\<And>n. n < 1047552 \<Longrightarrow> page_entry m' n = ((page_entry m)(frame_of v := Some x)) n"
      "if bit (pde m d) 0 then m_pmm m' = m_pmm m \<and> pde m' = pde m
       else m_pmm m' = snd (pmm_alloc (m_pmm m)) \<and> fst (pmm_alloc (m_pmm m)) \<noteq> 0 \<and>
            (\<exists>e. pde m' = (pde m)(d := e) \<and> bit e 0 \<and> frame_of e = frame_of (fst (pmm_alloc (m_pmm m))))"
      "tables_only m m'"
proof -
  note t = map_target [OF ok]
  have wf: "vmm_wf {} m" using inv by (simp add: vmm_inv_def)
  have d: "unat (drop_bit 22 v) < 1024" using t(5) by simp
  have idx: "frame_of v div 1024 = unat (drop_bit 22 v)" "frame_of v mod 1024 = unat (drop_bit 12 v AND 0x3FF)"
    unfolding t(7) [symmetric] using t(6) by simp_all
  from wf t(5,9) show ?thesis
  proof (cases rule: ensure_table_cases)
    case old
    show ?thesis
    proof (cases "page_entry m (frame_of v)")
      case None
      from vmm_map_new_entry [OF wf ok old(1) None] obtain m' where
        "vmm_map v a fl m = Some (True, m')" "vmm_inv m'" "m_pmm m' = m_pmm m" "cr3 m' = cr3 m" "pde m' = pde m"
        "\<forall>n<1047552. page_entry m' n = ((page_entry m)(frame_of v := Some x)) n"
        "m' = ram_write (frame_of (pde m (unat (drop_bit 22 v)))) (unat (drop_bit 12 v AND 0x3FF)) x m"
        using ok old(2) by (auto simp: vmm_map_def Let_def test_bits x_def)
      moreover from this(7) have "tables_only m m'"
        using table_frames_pde [OF t(5) old(1)] by (simp add: tables_only_write)
      ultimately show ?thesis using mapped [of m'] None old(1) by (simp add: d_def)
    next
      case (Some e)
      then have "vmm_map v a fl m = Some (False, m)"
        using ok old page_tables_access(1) [OF vmm_wfD(3) [OF wf] d t(6) old(1)]
        by (simp add: vmm_map_def Let_def test_bits page_entry_def idx split: if_splits)
      then show ?thesis using busy Some by simp
    qed
  next
    case full2: full
    then have "vmm_map v a fl m = Some (False, m)" using ok by (simp add: vmm_map_def Let_def)
    moreover have "page_entry m (frame_of v) = None" using full2 idx by (simp add: page_entry_def)
    ultimately show ?thesis using full full2 by (simp add: d_def)
  next
    case (new b p' e m1)
    note nt = new_table [OF wf t(5) new(1-8)]
    have none: "page_entry m (frame_of v) = None" using new(1) idx by (simp add: page_entry_def)
    have ok1: "\<not> vmm_map_rejects v a fl m1" using ok by (simp add: vmm_map_rejects_def new(8))
    have "bit (pde m1 (unat (drop_bit 22 v))) 0" "page_entry m1 (frame_of v) = None"
      using nt(2) new(4) nt(4) [OF t(8)] none by simp_all
    from vmm_map_new_entry [OF nt(1) ok1 this] obtain m' where m':
      "vmm_map v a fl m = Some (True, m')" "vmm_inv m'" "m_pmm m' = m_pmm m1" "cr3 m' = cr3 m1" "pde m' = pde m1"
      "\<forall>n<1047552. page_entry m' n = ((page_entry m1)(frame_of v := Some x)) n"
      "m' = ram_write (frame_of (pde m1 (unat (drop_bit 22 v)))) (unat (drop_bit 12 v AND 0x3FF)) x m1"
      using ok new(9) by (auto simp: vmm_map_def Let_def test_bits x_def)
    have "frame_of b \<in> free_frames (m_pmm m)"
      using pmm_frames.alloc_taken [OF vmm_wfD(1) [OF wf] new(2,3)] by (simp add: frame_of_def)
    then have only: "tables_only m m'"
      using m'(7) nt(2) new(7)
      by (intro tables_onlyI) (auto simp: new(8) ram_write_def clear_frame_def table_frames_def fun_eq_iff)
    have "pde m' = (pde m)(unat (drop_bit 22 v) := e)" using m'(5) nt(2) by auto
    then show ?thesis
      by (intro mapped [of m']) (use m'(1-6) only none nt(4) new(1-4,7) in \<open>auto simp: new(8) d_def\<close>)
  qed
qed

lemma table_is_empty_eq:
  assumes "recursive_ok m" and "unat d < 1024" and "bit (pde m (unat d)) 0" and "\<forall>j\<in>set js. j < 1024"
  shows "table_is_empty d js m = Some (\<forall>j\<in>set js. \<not> bit (pte m (unat d) j) 0)"
  using assms(4)
proof (induction js)
  case (Cons j js)
  then have j: "j < 1024" by simp
  then have "unat (of_nat j :: u32) = j" by (simp add: unat_of_nat32)
  then have "page_tables_get (d * 1024 + of_nat j) m = Some (pte m (unat d) j)"
    using page_tables_access(1) [OF assms(1,2), of "of_nat j"] assms(3) j by simp
  then show ?case using Cons by (simp add: test_bits)
qed simp

text \<open>Removing an empty table from the directory.\<close>

lemma drop_table:
  assumes wf: "vmm_wf {i} m" and i: "i < 1023" "bit (pde m i) 0" "i \<noteq> 768"
    and empty: "\<forall>j<1024. \<not> bit (pte m i j) 0"
    and p': "pmm_inv p'" "free_frames p' = insert (frame_of (pde m i)) (free_frames (m_pmm m))"
      "allocated_frames p' = allocated_frames (m_pmm m) - {frame_of (pde m i)}"
    and m': "m' = (ram_write (frame_of (cr3 m)) i 0 m)\<lparr>m_pmm := p'\<rparr>"
  shows "vmm_inv m'" and "n < 1047552 \<Longrightarrow> page_entry m' n = page_entry m n"
proof -
  note w = vmm_wfD [OF wf]
  have pde: "pde m' k = (if k = i then 0 else pde m k)" for k by (simp add: m' pde_def)
  have cr3: "cr3 m' = cr3 m" "m_pmm m' = p'" "vmm_initialized m' = vmm_initialized m" by (simp_all add: m')
  have pte: "pte m' k l = pte m k l" if "k < 1023" "bit (pde m k) 0" "k \<noteq> i" for k l
    using vmm_wf_table [OF wf that(1,2)] that(3)
    by (simp add: pte_def pde) (simp add: m' table_ok_def)
  have other: "frame_of (pde m k) \<noteq> frame_of (pde m i)" if "k < 1023" "bit (pde m k) 0" "k \<noteq> i" for k
    using vmm_wf_inj [OF wf that(1) i(1) that(2) i(2)] that(3) by simp
  have "table_ok {} m' k" if "k < 1023" "bit (pde m' k) 0" for k
  proof -
    have k: "k \<noteq> i" "bit (pde m k) 0" using that(2) by (auto simp: pde split: if_splits)
    show ?thesis
      using vmm_wf_table [OF wf that(1) k(2)] pte [OF that(1) k(2,1)] k(1) p'(2,3) other [OF that(1) k(2,1)]
      by (auto simp: table_ok_def pde cr3)
  qed
  moreover have "frame_of (cr3 m) \<noteq> frame_of (pde m i)"
    using vmm_wf_table [OF wf i(1,2)] by (auto simp: table_ok_def)
  moreover have "frame_of (pde m' k) = frame_of (pde m' l) \<longrightarrow> k = l"
    if "k < 1023" "l < 1023" "bit (pde m' k) 0" "bit (pde m' l) 0" for k l
    using that vmm_wf_inj [OF wf that(1,2)] by (auto simp: pde split: if_splits)
  moreover have "recursive_ok m'" using w(3) i(1) by (simp add: recursive_ok_def pde cr3)
  ultimately show "vmm_inv m'"
    using w p'(1,2) i(3) pte [of 768 1023] by (auto simp: vmm_inv_def vmm_wf_def cr3 pde)
  show "page_entry m' n = page_entry m n" if "n < 1047552"
  proof (cases "n div 1024 = i")
    case True
    then show ?thesis using empty by (simp add: page_entry_def pde)
  next
    case False
    moreover have "n div 1024 < 1023" using that by auto
    ultimately show ?thesis using pte [of "n div 1024" "n mod 1024"] by (auto simp: page_entry_def pde)
  qed
qed

lemma frame_of_mask: "frame_of (e AND PAGE_MASK) = frame_of e" "unat (e AND PAGE_MASK) mod 4096 = 0"
proof -
  have "unat (e AND PAGE_MASK) = frame_of e * 4096" by (simp add: frame_of_def unat_and_FFFFF000)
  then show "frame_of (e AND PAGE_MASK) = frame_of e" "unat (e AND PAGE_MASK) mod 4096 = 0"
    by (simp_all add: frame_of_def)
qed

lemma vmm_release_table_spec:
  assumes wf: "vmm_wf {unat d} m" and d: "unat d < 1023" "bit (pde m (unat d)) 0" "unat d \<noteq> 768"
    and empty: "\<forall>j<1024. \<not> bit (pte m (unat d) j) 0"
  shows "\<exists>m'. vmm_release_table d m = Some m' \<and> vmm_inv m' \<and> cr3 m' = cr3 m \<and>
    pmm_free (pde m (unat d) AND PAGE_MASK) (m_pmm m) = (True, m_pmm m') \<and> pde m' = (pde m)(unat d := 0) \<and>
    (\<forall>n<1047552. page_entry m' n = page_entry m n) \<and> m' = (ram_write (frame_of (cr3 m)) (unat d) 0 m)\<lparr>m_pmm := m_pmm m'\<rparr>"
proof -
  let ?a = "pde m (unat d) AND PAGE_MASK"
  note w = vmm_wfD [OF wf]
  have lt: "unat d < 1024" using d(1) by simp
  have "frame_of (pde m (unat d)) \<in> allocated_frames (m_pmm m)"
    using vmm_wf_table [OF wf d(1,2)] d(3) by (simp add: table_ok_def)
  then obtain p' where p': "pmm_free ?a (m_pmm m) = (True, p')" "pmm_inv p'"
    "free_frames p' = insert (frame_of (pde m (unat d))) (free_frames (m_pmm m))"
    "allocated_frames p' = allocated_frames (m_pmm m) - {frame_of (pde m (unat d))}"
    using pmm_frames.release_held [OF w(1), of ?a] frame_of_mask [of "pde m (unat d)"] by (auto simp: frame_of_def)
  define m' where "m' = (ram_write (frame_of (cr3 m)) (unat d) 0 m)\<lparr>m_pmm := p'\<rparr>"
  note dt = drop_table [OF wf d(1,2,3) empty p'(2-4) m'_def]
  have "vmm_release_table d m = Some m'"
    using page_directory_access [OF w(3) lt] p'(1) by (simp add: vmm_release_table_def m'_def)
  moreover have "pde m' = (pde m)(unat d := 0)" by (auto simp: m'_def pde_def)
  ultimately show ?thesis using dt p'(1) by (intro exI [of _ m']) (simp add: m'_def)
qed

lemma page_target:
  assumes "unat v < 4290772992"
  shows "unat (drop_bit 22 v) < 1023" "unat (drop_bit 12 v AND 0x3FF) < 1024" "frame_of v < 1047552"
    "frame_of v div 1024 = unat (drop_bit 22 v)" "frame_of v mod 1024 = unat (drop_bit 12 v AND 0x3FF)"
    "unat (drop_bit 22 v) * 1024 + unat (drop_bit 12 v AND 0x3FF) = frame_of v"
proof -
  show i: "frame_of v div 1024 = unat (drop_bit 22 v)" "frame_of v mod 1024 = unat (drop_bit 12 v AND 0x3FF)"
    by (simp_all add: frame_of_def unat_shr_22 unat_and_3FF unat_shr_12 div_mult2_eq [symmetric])
  show "unat (drop_bit 22 v) * 1024 + unat (drop_bit 12 v AND 0x3FF) = frame_of v"
    unfolding i [symmetric] by simp
  show "unat (drop_bit 22 v) < 1023" "unat (drop_bit 12 v AND 0x3FF) < 1024" "frame_of v < 1047552"
    using assms by (auto simp: frame_of_def unat_shr_22 unat_and_3FF)
qed

lemma vmm_query_eq:
  assumes "vmm_inv m"
  shows "vmm_query v m = Some (if unat v < 4290772992 then
    map_option (\<lambda>e. ((e AND PAGE_MASK) OR (v AND NOT PAGE_MASK),
      e AND (if v < KERNEL_BASE then VMM_WRITABLE OR VMM_USER else VMM_WRITABLE))) (page_entry m (frame_of v)) else None)"
proof (cases "unat v < 4290772992")
  case True
  note t = page_target [OF True]
  have wf: "vmm_wf {} m" using assms by (simp add: vmm_inv_def)
  note w = vmm_wfD [OF wf]
  let ?d = "unat (drop_bit 22 v)" and ?j = "unat (drop_bit 12 v AND 0x3FF)"
  have d: "?d < 1024" using t(1) by simp
  have rec: "\<not> v \<ge> RECURSIVE_PAGE_TABLES" using True by (simp add: word_le_nat_alt)
  show ?thesis
  proof (cases "bit (pde m ?d) 0")
    case False
    then show ?thesis
      using True rec w(2) page_directory_access(1) [OF w(3) d]
      by (simp add: vmm_query_def Let_def test_bits page_entry_def t)
  next
    case pd: True
    have tab: "bit (pde m ?d) 1" "bit (pde m ?d) 2 \<longleftrightarrow> ?d < 768"
      using vmm_wf_table [OF wf t(1) pd] by (auto simp: table_ok_def)
    have "?d < 768 \<longleftrightarrow> v < KERNEL_BASE" by (auto simp: unat_shr_22 word_less_nat_alt)
    then have user: "bit (pde m ?d) 2 \<longleftrightarrow> v < KERNEL_BASE" using tab(2) by simp
    have six: "(e AND 6) AND - 5 = e AND 2" for e :: u32
      by (simp only: and.assoc) simp
    show ?thesis
      using True rec w(2) pd tab(1) page_directory_access(1) [OF w(3) d] page_tables_access(1) [OF w(3) d t(2) pd]
      by (simp add: vmm_query_def Let_def test_bits page_entry_def t user six del: One_nat_def)
  qed
next
  case False
  then show ?thesis by (simp add: vmm_query_def Let_def word_le_nat_alt)
qed

text \<open>
  The table of \<open>v\<close> maps nothing but \<open>v\<close>, and it is not the kernel table of directory entry 768, which
  \<open>vmm_unmap\<close> never gives back.
\<close>

definition last_in_table :: "machine \<Rightarrow> u32 \<Rightarrow> bool" where
  "last_in_table m v \<longleftrightarrow> unat (drop_bit 22 v) \<noteq> 768 \<and>
     (\<forall>j<1024. j \<noteq> unat (drop_bit 12 v AND 0x3FF) \<longrightarrow> \<not> bit (pte m (unat (drop_bit 22 v)) j) 0)"

lemma vmm_unmap_spec:
  assumes inv: "vmm_inv m" and v: "unat v mod 4096 = 0" "unat v < 4290772992"
  obtains (none) "page_entry m (frame_of v) = None" "vmm_unmap v m = Some (None, m)"
  | (gone) e m' where "page_entry m (frame_of v) = Some e" "vmm_unmap v m = Some (Some (e AND PAGE_MASK), m')"
      "vmm_inv m'" "cr3 m' = cr3 m" "\<And>n. n < 1047552 \<Longrightarrow> page_entry m' n = ((page_entry m)(frame_of v := None)) n"
      "if last_in_table m v
       then pmm_free (pde m (unat (drop_bit 22 v)) AND PAGE_MASK) (m_pmm m) = (True, m_pmm m')
       else m_pmm m' = m_pmm m"
      "pde m' = (if last_in_table m v then (pde m)(unat (drop_bit 22 v) := 0) else pde m)"
      "tables_only m m'"
proof -
  let ?d = "unat (drop_bit 22 v)" and ?j = "unat (drop_bit 12 v AND 0x3FF)"
  note t = page_target [OF v(2)]
  have wf: "vmm_wf {} m" using inv by (simp add: vmm_inv_def)
  note w = vmm_wfD [OF wf]
  have d: "?d < 1024" using t(1) by simp
  have ok: "\<not> (\<not> vmm_initialized m \<or> v AND (4096 - 1) \<noteq> 0 \<or> v \<ge> RECURSIVE_PAGE_TABLES)"
    using v w(2) unat_and_FFF [of v] unat_eq_0 [of "v AND 4095"] by (simp add: word_le_nat_alt)
  show ?thesis
  proof (cases "page_entry m (frame_of v)")
    case None
    then have "vmm_unmap v m = Some (None, m)"
      using ok page_directory_access(1) [OF w(3) d] page_tables_access(1) [OF w(3) d t(2)]
      by (cases "bit (pde m ?d) 0") (simp_all add: vmm_unmap_def Let_def test_bits page_entry_def t split: if_splits)
    then show ?thesis using None none by simp
  next
    case (Some e)
    then have pd: "bit (pde m ?d) 0" and e: "e = pte m ?d ?j" "bit e 0"
      by (auto simp: page_entry_def t split: if_splits)
    have ne: "(?d, ?j) \<noteq> (768, 1023)" using w(6) e by auto
    define m1 where "m1 = ram_write (frame_of (pde m ?d)) ?j 0 m"
    note s = set_pte [OF wf t(1) pd m1_def]
    have wf1: "vmm_wf {?d} m1" by (rule set_pte_wf [OF wf t(1) pd m1_def t(2) ne]) simp
    have entry1: "page_entry m1 n = ((page_entry m)(frame_of v := None)) n" if "n < 1047552" for n
      using set_pte_entry [OF wf t(1) pd m1_def t(2) that] by (simp add: t(6))
    have pd1: "bit (pde m1 ?d) 0" using pd by (simp add: s)
    have pte1: "pte m1 ?d j = (if j = ?j then 0 else pte m ?d j)" for j using s(3) [OF t(1) pd] by simp
    have w1: "bit (pde m ?d) 1" using vmm_wf_table [OF wf t(1) pd] by (simp add: table_ok_def)
    define E where "E \<longleftrightarrow> (\<forall>j<1024. \<not> bit (pte m1 ?d j) 0)"
    have empty: "table_is_empty (drop_bit 22 v) [0..<1024] m1 = Some E" unfolding E_def
      using table_is_empty_eq [OF vmm_wfD(3) [OF wf1] d pd1, of "[0..<1024]"] by (simp add: atLeast0LessThan Ball_def)
    have last: "?d \<noteq> 768 \<and> E \<longleftrightarrow> last_in_table m v"
      by (auto simp: last_in_table_def pte1 E_def)
    have d768: "drop_bit 22 v = of_nat 768 \<longleftrightarrow> ?d = 768" by (simp add: word_unat_eq_iff)
    have step: "vmm_unmap v m =
      (if ?d = 768 then Some (Some (e AND PAGE_MASK), m1)
       else do { m2 \<leftarrow> (if E then vmm_release_table (drop_bit 22 v) m1 else Some m1);
                 Some (Some (e AND PAGE_MASK), m2) })"
      unfolding vmm_unmap_def if_not_P [OF ok] Let_def d768
      using page_directory_access(1) [OF w(3) d] page_tables_access [OF w(3) d t(2) pd] w1 pd e empty
      by (simp add: test_bits m1_def del: One_nat_def of_nat_numeral)
    show ?thesis
    proof (cases "last_in_table m v")
      case True
      then have E: "?d \<noteq> 768" "E" using last by auto
      with vmm_release_table_spec [OF wf1 t(1) pd1] obtain m' where m':
        "vmm_release_table (drop_bit 22 v) m1 = Some m'" "vmm_inv m'" "cr3 m' = cr3 m1"
        "pmm_free (pde m1 ?d AND PAGE_MASK) (m_pmm m1) = (True, m_pmm m')"
        "pde m' = (pde m1)(?d := 0)" "\<forall>n<1047552. page_entry m' n = page_entry m1 n"
        "m' = (ram_write (frame_of (cr3 m1)) ?d 0 m1)\<lparr>m_pmm := m_pmm m'\<rparr>" unfolding E_def by blast
      have "m' = m\<lparr>m_pmm := m_pmm m', ram := ram (ram_write (frame_of (cr3 m)) ?d 0 m1)\<rparr>"
        by (subst m'(7)) (simp add: m1_def ram_write_def)
      then have only: "tables_only m m'"
        using table_frames_pde [OF t(1) pd] by (intro tables_onlyI) (auto simp: m1_def table_frames_def fun_eq_iff)
      show ?thesis
        by (rule gone [of e m']) (use True Some step m'(1-6) only entry1 E s in \<open>simp_all add: m1_def fun_eq_iff\<close>)
    next
      case False
      have "vmm_unmap v m = Some (Some (e AND PAGE_MASK), m1)" using step False last by auto
      moreover have "vmm_inv m1"
      proof (cases "?d = 768")
        case True
        then show ?thesis using wf1 by (simp add: vmm_inv_def vmm_wf_def table_ok_def)
      next
        case d': False
        then have "\<exists>j<1024. bit (pte m1 ?d j) 0" using False last by (auto simp: E_def)
        then show ?thesis using wf1 by (auto simp: vmm_inv_def vmm_wf_def table_ok_def)
      qed
      moreover have "tables_only m m1"
        using table_frames_pde [OF t(1) pd] by (simp add: m1_def tables_only_write)
      ultimately show ?thesis
        using gone [of e m1] Some entry1 False s(1) by (simp add: m1_def fun_eq_iff)
    qed
  qed
qed

subsection \<open>Mapping, unmapping and writing data\<close>

lemma table_frames_not_free:
  assumes "vmm_inv m"
  shows "table_frames m \<inter> free_frames (m_pmm m) = {}"
  using assms by (auto simp: vmm_inv_def vmm_wf_def table_ok_def table_frames_def)

lemma data_write:
  assumes inv: "vmm_inv m" and f: "f \<notin> table_frames m"
  shows "vmm_inv (ram_write f i x m)" and "n < 1047552 \<Longrightarrow> page_entry (ram_write f i x m) n = page_entry m n"
    and "pde (ram_write f i x m) = pde m" and "table_frames (ram_write f i x m) = table_frames m"
proof -
  let ?m = "ram_write f i x m"
  have pde: "pde ?m k = pde m k" for k using f by (auto simp: pde_def table_frames_def)
  then show "pde ?m = pde m" "table_frames ?m = table_frames m" by (auto simp: table_frames_def)
  have pte: "pte ?m k l = pte m k l" if "k < 1023" "bit (pde m k) 0" for k l
    using f that by (auto simp: pte_def pde table_frames_def)
  have "table_ok {} ?m k \<longleftrightarrow> table_ok {} m k" if "k < 1023" "bit (pde m k) 0" for k
    using pte [OF that] by (simp add: table_ok_def pde)
  moreover have "pte ?m 768 1023 = pte m 768 1023"
    using inv by (intro pte) (simp_all add: vmm_inv_def vmm_wf_def)
  ultimately show "vmm_inv ?m" using inv by (simp add: vmm_inv_def vmm_wf_def pde recursive_ok_def)
  show "page_entry ?m n = page_entry m n" if "n < 1047552"
  proof -
    have "n div 1024 < 1023" using that by auto
    then show ?thesis using pte [of "n div 1024"] by (auto simp: page_entry_def pde)
  qed
qed

lemma map_entry_mask:
  assumes "unat a mod 4096 = 0"
  shows "(a OR PAGE_PRESENT OR (fl AND (VMM_WRITABLE OR VMM_USER))) AND PAGE_MASK = a"
    and "frame_of (a OR PAGE_PRESENT OR (fl AND (VMM_WRITABLE OR VMM_USER))) = frame_of a"
proof -
  have "\<not> bit (PAGE_PRESENT OR (fl AND (VMM_WRITABLE OR VMM_USER))) n" if "12 \<le> n" for n
    using that unfolding bit_or_iff bit_and_iff bit_flags by auto
  then show "(a OR PAGE_PRESENT OR (fl AND (VMM_WRITABLE OR VMM_USER))) AND PAGE_MASK = a"
    "frame_of (a OR PAGE_PRESENT OR (fl AND (VMM_WRITABLE OR VMM_USER))) = frame_of a"
    using or_flags_mask [OF assms] frame_of_or_flags by (simp_all add: or.assoc)
qed

lemma last_in_table_iff:
  assumes v: "unat v < 4290772992" and pd: "bit (pde m (unat (drop_bit 22 v))) 0"
  shows "last_in_table m v \<longleftrightarrow> unat (drop_bit 22 v) \<noteq> 768 \<and>
    (\<forall>n. n div 1024 = unat (drop_bit 22 v) \<and> n \<noteq> frame_of v \<longrightarrow> page_entry m n = None)"
proof -
  let ?d = "unat (drop_bit 22 v)" and ?j = "unat (drop_bit 12 v AND 0x3FF)"
  note t = page_target [OF v]
  have "(\<forall>j<1024. j \<noteq> ?j \<longrightarrow> \<not> bit (pte m ?d j) 0) \<longleftrightarrow>
    (\<forall>n. n div 1024 = ?d \<and> n \<noteq> frame_of v \<longrightarrow> page_entry m n = None)"
  proof (intro iffI allI impI)
    fix n assume a: "\<forall>j<1024. j \<noteq> ?j \<longrightarrow> \<not> bit (pte m ?d j) 0" and n: "n div 1024 = ?d \<and> n \<noteq> frame_of v"
    have "n mod 1024 \<noteq> ?j"
    proof
      assume "n mod 1024 = ?j"
      then have "n = ?d * 1024 + ?j" using n div_mult_mod_eq [of n 1024] by simp
      then show False using n t(6) by simp
    qed
    then show "page_entry m n = None" using a n by (simp add: page_entry_def)
  next
    fix j assume a: "\<forall>n. n div 1024 = ?d \<and> n \<noteq> frame_of v \<longrightarrow> page_entry m n = None" and j: "j < 1024" "j \<noteq> ?j"
    have "page_entry m (?d * 1024 + j) = None" using a j t(6) by auto
    then show "\<not> bit (pte m ?d j) 0" using pd j(1) by (simp add: page_entry_def split: if_splits)
  qed
  then show ?thesis by (simp add: last_in_table_def)
qed

text \<open>
  Two machines with the same active address space and frame allocator: they may differ in the
  contents of other frames and in entries that are not present.
\<close>

definition same_space :: "machine \<Rightarrow> machine \<Rightarrow> bool" where
  "same_space m m' \<longleftrightarrow> m_pmm m = m_pmm m' \<and> cr3 m = cr3 m' \<and>
     (\<forall>i<1023. (bit (pde m i) 0 \<longleftrightarrow> bit (pde m' i) 0) \<and> (bit (pde m i) 0 \<longrightarrow> pde m i = pde m' i)) \<and>
     (\<forall>n<1047552. page_entry m n = page_entry m' n)"

lemma same_space_refl [simp]: "same_space m m"
  by (simp add: same_space_def)

lemma same_spaceI:
  assumes "m_pmm m = m_pmm m'" "cr3 m = cr3 m'" "\<And>n. n < 1047552 \<Longrightarrow> page_entry m n = page_entry m' n"
    "\<And>i. i < 1023 \<Longrightarrow> (bit (pde m i) 0 \<longleftrightarrow> bit (pde m' i) 0) \<and> (bit (pde m i) 0 \<longrightarrow> pde m i = pde m' i)"
  shows "same_space m m'"
  unfolding same_space_def using assms by blast

lemma same_spaceD:
  assumes "same_space m m'"
  shows "m_pmm m = m_pmm m'" "cr3 m = cr3 m'" "n < 1047552 \<Longrightarrow> page_entry m n = page_entry m' n"
    "i < 1023 \<Longrightarrow> bit (pde m i) 0 \<longleftrightarrow> bit (pde m' i) 0" "i < 1023 \<Longrightarrow> bit (pde m i) 0 \<Longrightarrow> pde m i = pde m' i"
  using assms unfolding same_space_def by (blast, blast, metis, metis, metis)

lemma same_space_trans:
  assumes "same_space a b" and "same_space b c"
  shows "same_space a c"
proof (rule same_spaceI)
  note s = same_spaceD [OF assms(1)] same_spaceD [OF assms(2)]
  show "m_pmm a = m_pmm c" "cr3 a = cr3 c" using s by simp_all
  show "page_entry a n = page_entry c n" if "n < 1047552" for n
    using s(3,8) [OF that] by simp
  show "(bit (pde a i) 0 \<longleftrightarrow> bit (pde c i) 0) \<and> (bit (pde a i) 0 \<longrightarrow> pde a i = pde c i)" if "i < 1023" for i
    using s(4,5,9,10) [OF that] by simp
qed

lemma same_space_tables:
  assumes "same_space m m'"
  shows "table_frames m = table_frames m'"
proof -
  note s = same_spaceD [OF assms]
  have "(\<lambda>i. frame_of (pde m i)) ` {i. i < 1023 \<and> bit (pde m i) 0} =
      (\<lambda>i. frame_of (pde m' i)) ` {i. i < 1023 \<and> bit (pde m' i) 0}"
  proof (rule image_cong)
    show "{i. i < 1023 \<and> bit (pde m i) 0} = {i. i < 1023 \<and> bit (pde m' i) 0}" using s(4) by blast
    show "frame_of (pde m i) = frame_of (pde m' i)" if "i \<in> {i. i < 1023 \<and> bit (pde m' i) 0}" for i
      using s(4,5) [of i] that by simp
  qed
  then show ?thesis unfolding table_frames_def s(2) by (rule arg_cong)
qed

text \<open>
  After a mapping, however the data in other frames changed meanwhile, unmapping gives back the
  page and the state of the frame allocator before the mapping.
\<close>

lemma vmm_map_last:
  assumes inv: "vmm_inv m" and map: "vmm_map v a fl m = Some (True, m')" and same: "same_space m2 m'"
  shows "last_in_table m2 v \<longleftrightarrow> \<not> bit (pde m (unat (drop_bit 22 v))) 0"
proof -
  let ?d = "unat (drop_bit 22 v)"
  have ok: "\<not> vmm_map_rejects v a fl m" using map by (auto simp: vmm_map_def)
  note t = map_target [OF ok]
  have wf: "vmm_wf {} m" using inv by (simp add: vmm_inv_def)
  have page_d: "n < 1047552" if "n div 1024 = ?d" for n using that t(5) by auto
  from inv ok show ?thesis
  proof (cases rule: vmm_map_spec)
    case (mapped m1)
    have m1: "m1 = m'" using map mapped(2) by simp
    have pd': "bit (pde m2 ?d) 0" using mapped(6) same_spaceD(4) [OF same t(5)] by (auto simp: m1 split: if_splits)
    have entry: "page_entry m2 n = None \<longleftrightarrow> page_entry m n = None \<and> n \<noteq> frame_of v" if "n div 1024 = ?d" for n
      using same_spaceD(3) [OF same] mapped(5) page_d [OF that] by (auto simp: m1)
    show ?thesis
    proof (cases "bit (pde m ?d) 0")
      case True
      have "\<not> last_in_table m2 v"
      proof (cases "?d = 768")
        case False
        obtain j where j: "j < 1024" "bit (pte m ?d j) 0"
          using vmm_wf_table [OF wf t(5) True] False by (auto simp: table_ok_def)
        have "(?d * 1024 + j) div 1024 = ?d" "page_entry m (?d * 1024 + j) \<noteq> None"
          using j True by (simp_all add: page_entry_def)
        then obtain n where n: "n div 1024 = ?d" "page_entry m n \<noteq> None" by metis
        have "n \<noteq> frame_of v" using mapped(1) n(2) by auto
        with n entry [OF n(1)] have "\<not> (n div 1024 = ?d \<and> n \<noteq> frame_of v \<longrightarrow> page_entry m2 n = None)" by simp
        then show ?thesis unfolding last_in_table_iff [OF t(4) pd'] by metis
      qed (simp add: last_in_table_def)
      then show ?thesis using True by simp
    next
      case False
      then have "page_entry m n = None" if "n div 1024 = ?d" for n using that by (simp add: page_entry_def)
      moreover have "?d \<noteq> 768" using False vmm_wfD(4) [OF wf] by auto
      ultimately show ?thesis
        unfolding last_in_table_iff [OF t(4) pd'] using entry False by auto
    qed
  qed (use map in auto)
qed

lemma vmm_map_unmap_restores:
  assumes inv: "vmm_inv m" and map: "vmm_map v a fl m = Some (True, m')"
    and m2: "vmm_inv m2" "same_space m2 m'"
  shows "\<exists>m''. vmm_unmap v m2 = Some (Some a, m'') \<and> vmm_inv m'' \<and> same_space m'' m"
proof -
  let ?d = "unat (drop_bit 22 v)" and ?x = "a OR PAGE_PRESENT OR (fl AND (VMM_WRITABLE OR VMM_USER))"
  have ok: "\<not> vmm_map_rejects v a fl m" using map by (auto simp: vmm_map_def)
  note t = map_target [OF ok] and s = same_spaceD [OF m2(2)]
  have pmm0: "pmm_inv (m_pmm m)" using inv by (simp add: vmm_inv_def vmm_wf_def)
  note last = vmm_map_last [OF inv map m2(2)]
  from inv ok show ?thesis
  proof (cases rule: vmm_map_spec)
    case (mapped m1)
    have m1: "m1 = m'" using map mapped(2) by simp
    have entry': "page_entry m2 (frame_of v) = Some ?x" using mapped(5) t(8) m1 s(3) by simp
    have pd': "bit (pde m' ?d) 0" using mapped(6) by (auto simp: m1 split: if_splits)
    from m2(1) t(2,4) show ?thesis
    proof (cases rule: vmm_unmap_spec)
      case none
      then show ?thesis using entry' by simp
    next
      case (gone e m'')
      have "e = ?x" using gone(1) entry' by simp
      then have e: "e AND PAGE_MASK = a" by (simp only: map_entry_mask(1) [OF t(3)])
      have pmm: "m_pmm m'' = m_pmm m"
      proof (cases "bit (pde m ?d) 0")
        case True
        then show ?thesis using gone(6) last mapped(6) s(1) by (simp add: m1)
      next
        case False
        obtain b p where b: "pmm_alloc (m_pmm m) = (b, p)" "b \<noteq> 0" "frame_of (pde m2 ?d) = frame_of b" "m_pmm m2 = p"
          using mapped(6) False m1 s(1) s(4,5) [OF t(5)] pd' by (cases "pmm_alloc (m_pmm m)") auto
        have "unat b mod 4096 = 0" using pmm_frames.alloc_taken [OF pmm0 b(1,2)] by simp
        then have "pde m2 ?d AND PAGE_MASK = b"
          using page_number [of b] page_number [OF frame_of_mask(2), of "pde m2 ?d"] b(3)
          by (simp add: word_unat_eq_iff frame_of_mask(1))
        then show ?thesis using gone(6) last False pmm_alloc_free_undo [OF pmm0 b(1,2)] b(4) by simp
      qed
      have "page_entry m'' n = page_entry m n" if "n < 1047552" for n
        using gone(5) [OF that] mapped(5) [OF that] mapped(1) s(3) [OF that] by (auto simp: m1)
      moreover have "(bit (pde m'' i) 0 \<longleftrightarrow> bit (pde m i) 0) \<and> (bit (pde m'' i) 0 \<longrightarrow> pde m'' i = pde m i)"
        if "i < 1023" for i
        using gone(7) last mapped(6) s(4,5) [OF that] by (auto simp: m1 split: if_splits)
      moreover have "cr3 m'' = cr3 m" using gone(4) mapped(4) s(2) by (simp add: m1)
      ultimately have "same_space m'' m" using pmm by (intro same_spaceI)
      then show ?thesis using gone(2,3) e by blast
    qed
  qed (use map in auto)
qed

lemma mapped_access:
  assumes inv: "vmm_inv m" and v: "unat v < 4290772992" and e: "page_entry m (frame_of v) = Some e"
  shows "vread v m = Some (ram m (frame_of e) (unat v mod 4096 div 4))"
    and "bit e 1 \<Longrightarrow> vwrite v x m = Some (ram_write (frame_of e) (unat v mod 4096 div 4) x m)"
proof -
  let ?d = "unat (drop_bit 22 v)"
  note t = page_target [OF v]
  have pd: "bit (pde m ?d) 0" using e t(4) by (auto simp: page_entry_def split: if_splits)
  then have "bit (pde m ?d) 1"
    using inv vmm_wf_table [of "{}" m ?d] t(1) by (simp add: vmm_inv_def table_ok_def)
  moreover have "unat v div 4194304 = ?d" "unat v div 4096 mod 1024 = frame_of v mod 1024"
    by (simp_all add: frame_of_def unat_shr_22)
  then have "walk m v = Some (pde m ?d, e)"
    using e t(4) by (auto simp: walk_alt Let_def page_entry_def present_iff split: if_splits)
  ultimately show "vread v m = Some (ram m (frame_of e) (unat v mod 4096 div 4))"
    "bit e 1 \<Longrightarrow> vwrite v x m = Some (ram_write (frame_of e) (unat v mod 4096 div 4) x m)"
    by (simp_all add: vread_def vwrite_def frame_of_drop unat_and_FFF test_bits del: One_nat_def)
qed

text \<open>Changing the frame allocator under the active address space.\<close>

lemma with_pmm [simp]:
  "pde (m\<lparr>m_pmm := p\<rparr>) = pde m" "pte (m\<lparr>m_pmm := p\<rparr>) = pte m" "page_entry (m\<lparr>m_pmm := p\<rparr>) = page_entry m"
  "table_frames (m\<lparr>m_pmm := p\<rparr>) = table_frames m" "recursive_ok (m\<lparr>m_pmm := p\<rparr>) = recursive_ok m"
proof -
  show pde: "pde (m\<lparr>m_pmm := p\<rparr>) = pde m" by (rule ext) (simp add: pde_def)
  show pte: "pte (m\<lparr>m_pmm := p\<rparr>) = pte m" by (intro ext) (simp add: pte_def pde)
  show "page_entry (m\<lparr>m_pmm := p\<rparr>) = page_entry m" by (intro ext) (simp add: page_entry_def pde pte)
  show "table_frames (m\<lparr>m_pmm := p\<rparr>) = table_frames m" by (simp add: table_frames_def pde)
  show "recursive_ok (m\<lparr>m_pmm := p\<rparr>) = recursive_ok m" by (simp add: recursive_ok_def pde)
qed

lemma pmm_change:
  assumes inv: "vmm_inv m" and p: "pmm_inv p" "table_frames m \<inter> free_frames p = {}"
    "allocated_frames (m_pmm m) \<inter> table_frames m \<subseteq> allocated_frames p"
  shows "vmm_inv (m\<lparr>m_pmm := p\<rparr>)"
proof -
  have wf: "vmm_wf {} m" using inv by (simp add: vmm_inv_def)
  have tf: "frame_of (pde m i) \<in> table_frames m" if "i < 1023" "bit (pde m i) 0" for i
    using that by (auto simp: table_frames_def)
  have "table_ok {} (m\<lparr>m_pmm := p\<rparr>) i" if "i < 1023" "bit (pde m i) 0" for i
    using vmm_wf_table [OF wf that] tf [OF that] p(2,3) by (auto simp: table_ok_def)
  moreover have "frame_of (cr3 m) \<notin> free_frames p" using p(2) by (auto simp: table_frames_def)
  ultimately show ?thesis using wf p(1) by (simp add: vmm_inv_def vmm_wf_def)
qed

lemma pmm_alloc_change:
  assumes inv: "vmm_inv m" and a: "pmm_alloc (m_pmm m) = (a, p)" "a \<noteq> 0"
  shows "vmm_inv (m\<lparr>m_pmm := p\<rparr>)" and "frame_of a \<notin> table_frames m" and "unat a mod 4096 = 0"
    and "frame_of a \<in> free_frames (m_pmm m)" and "free_frames p = free_frames (m_pmm m) - {frame_of a}"
    and "allocated_frames p = insert (frame_of a) (allocated_frames (m_pmm m))"
proof -
  have "pmm_inv (m_pmm m)" using inv by (simp add: vmm_inv_def vmm_wf_def)
  note al = pmm_frames.alloc_taken [OF this a, folded frame_of_def]
  note nf = table_frames_not_free [OF inv]
  show "vmm_inv (m\<lparr>m_pmm := p\<rparr>)" using al nf by (intro pmm_change [OF inv]) auto
  show "frame_of a \<notin> table_frames m" using al nf by auto
  show "unat a mod 4096 = 0" "frame_of a \<in> free_frames (m_pmm m)" "free_frames p = free_frames (m_pmm m) - {frame_of a}"
    "allocated_frames p = insert (frame_of a) (allocated_frames (m_pmm m))" using al by auto
qed

lemma pmm_free_change:
  assumes inv: "vmm_inv m" and a: "unat a mod 4096 = 0" "frame_of a \<in> allocated_frames (m_pmm m)" "frame_of a \<notin> table_frames m"
  shows "\<exists>p. pmm_free a (m_pmm m) = (True, p) \<and> vmm_inv (m\<lparr>m_pmm := p\<rparr>) \<and>
    free_frames p = insert (frame_of a) (free_frames (m_pmm m)) \<and> allocated_frames p = allocated_frames (m_pmm m) - {frame_of a}"
proof -
  have "pmm_inv (m_pmm m)" using inv by (simp add: vmm_inv_def vmm_wf_def)
  from pmm_frames.release_held [OF this, of a, folded frame_of_def] a obtain p where
    p: "pmm_free a (m_pmm m) = (True, p)" "pmm_inv p" "free_frames p = insert (frame_of a) (free_frames (m_pmm m))"
    "allocated_frames p = allocated_frames (m_pmm m) - {frame_of a}" by blast
  moreover have "vmm_inv (m\<lparr>m_pmm := p\<rparr>)"
    using p(2-4) a(3) table_frames_not_free [OF inv] by (intro pmm_change [OF inv]) auto
  ultimately show ?thesis by blast
qed

text \<open>The tables after mapping a page.\<close>

lemma vmm_map_tables:
  assumes inv: "vmm_inv m" and map: "vmm_map v a fl m = Some (True, m')"
  shows "table_frames m' \<subseteq> table_frames m \<union> free_frames (m_pmm m)"
    and "free_frames (m_pmm m') \<subseteq> free_frames (m_pmm m)"
    and "allocated_frames (m_pmm m) \<subseteq> allocated_frames (m_pmm m')"
    and "page_entry m (frame_of v) = None" and "\<not> vmm_map_rejects v a fl m" and "vmm_inv m'" and "cr3 m' = cr3 m"
    and "n < 1047552 \<Longrightarrow> page_entry m' n =
      ((page_entry m)(frame_of v := Some (a OR PAGE_PRESENT OR (fl AND (VMM_WRITABLE OR VMM_USER))))) n"
proof -
  let ?d = "unat (drop_bit 22 v)"
  have pmm: "pmm_inv (m_pmm m)" using inv by (simp add: vmm_inv_def vmm_wf_def)
  show ok: "\<not> vmm_map_rejects v a fl m" using map by (auto simp: vmm_map_def)
  from inv ok have "table_frames m' \<subseteq> table_frames m \<union> free_frames (m_pmm m) \<and>
    free_frames (m_pmm m') \<subseteq> free_frames (m_pmm m) \<and> allocated_frames (m_pmm m) \<subseteq> allocated_frames (m_pmm m') \<and>
    page_entry m (frame_of v) = None \<and> vmm_inv m' \<and> cr3 m' = cr3 m \<and> (n < 1047552 \<longrightarrow> page_entry m' n =
      ((page_entry m)(frame_of v := Some (a OR PAGE_PRESENT OR (fl AND (VMM_WRITABLE OR VMM_USER))))) n)" for n
  proof (cases rule: vmm_map_spec)
    case (mapped m1)
    then have m1: "m1 = m'" using map by simp
    show ?thesis
    proof (cases "bit (pde m ?d) 0")
      case True
      then show ?thesis using mapped m1 by (auto simp: table_frames_def)
    next
      case False
      obtain b p where b: "pmm_alloc (m_pmm m) = (b, p)" by fastforce
      then have p: "b \<noteq> 0" "m_pmm m' = p" using mapped(6) False m1 by auto
      note al = pmm_frames.alloc_taken [OF pmm b p(1), folded frame_of_def]
      have "table_frames m' \<subseteq> insert (frame_of b) (table_frames m)"
        using mapped(4,6) False b m1 by (auto simp: table_frames_def)
      then show ?thesis using mapped al p(2) m1 by auto
    qed
  qed (use map in simp_all)
  then show "table_frames m' \<subseteq> table_frames m \<union> free_frames (m_pmm m)"
    "free_frames (m_pmm m') \<subseteq> free_frames (m_pmm m)" "allocated_frames (m_pmm m) \<subseteq> allocated_frames (m_pmm m')"
    "page_entry m (frame_of v) = None" "vmm_inv m'" "cr3 m' = cr3 m"
    "n < 1047552 \<Longrightarrow> page_entry m' n =
      ((page_entry m)(frame_of v := Some (a OR PAGE_PRESENT OR (fl AND (VMM_WRITABLE OR VMM_USER))))) n" by blast+
qed

lemma vmm_self_test_passes:
  assumes inv: "vmm_inv m" and none: "page_entry m (frame_of VMM_TEST_VIRTUAL_ADDRESS) = None"
    and two: "2 \<le> card (free_frames (m_pmm m))"
  shows "\<exists>m'. vmm_self_test m = Some (True, m') \<and> vmm_inv m' \<and> m_pmm m' = m_pmm m \<and>
    (\<forall>n<1047552. page_entry m' n = page_entry m n)"
proof -
  let ?v = "VMM_TEST_VIRTUAL_ADDRESS"
  have pmm: "pmm_inv (m_pmm m)" using inv by (simp add: vmm_inv_def vmm_wf_def)
  obtain a p where a: "pmm_alloc (m_pmm m) = (a, p)" by fastforce
  have a0: "a \<noteq> 0" using pmm_frames.alloc_failed [OF pmm] a two by fastforce
  note al = pmm_alloc_change [OF inv a a0]
  define f where "f = frame_of a"
  define m1 where "m1 = m\<lparr>m_pmm := p\<rparr>"
  have inv1: "vmm_inv m1" using al by (simp add: m1_def)
  have ok: "\<not> vmm_map_rejects ?v a VMM_WRITABLE m1"
    using inv1 al(3) unat_and_FFF [of a] unat_eq_0 [of "a AND 4095"]
    by (simp add: vmm_map_rejects_def vmm_inv_def vmm_wf_def)
  have t: "unat ?v mod 4096 = 0" "unat ?v < 4290772992" "frame_of ?v < 1047552" by (simp_all add: frame_of_def)
  have nonempty: "free_frames (m_pmm m1) \<noteq> {}"
    using two al(4,5) card_mono [of "{f}" "free_frames (m_pmm m)"] by (auto simp: m1_def f_def)
  obtain m2 where map: "vmm_map ?v a VMM_WRITABLE m1 = Some (True, m2)"
    using inv1 ok by (cases rule: vmm_map_spec) (use none nonempty in \<open>auto simp: m1_def\<close>)
  note mt = vmm_map_tables [OF inv1 map]
  let ?x = "a OR PAGE_PRESENT OR (VMM_WRITABLE AND (VMM_WRITABLE OR VMM_USER))"
  have x: "page_entry m2 (frame_of ?v) = Some ?x" "frame_of ?x = f" "bit ?x 1" "?x AND PAGE_MASK = a"
    using mt(8) [OF t(3)] map_entry_mask [OF al(3), of VMM_WRITABLE] unfolding f_def bit_or_iff bit_and_iff bit_flags by simp_all
  have f2: "f \<notin> table_frames m2" using mt(1) al(2,5) by (auto simp: f_def m1_def)
  have "\<not> vmm_map_rejects ?v a VMM_WRITABLE m2"
    using ok mt(6) by (simp add: vmm_map_rejects_def vmm_inv_def vmm_wf_def)
  then have again: "vmm_map ?v a VMM_WRITABLE m2 = Some (False, m2)"
    using mt(6) by (cases rule: vmm_map_spec [rotated]) (use x(1) in auto)
  have query: "vmm_query ?v m2 = Some (Some (a, ?x AND VMM_WRITABLE))"
    using vmm_query_eq [OF mt(6), of ?v] x(1,4) by simp
  define m3 where "m3 = ram_write f 0 VMM_TEST_VALUE m2"
  note dw = data_write [OF mt(6) f2, where i = 0 and x = "VMM_TEST_VALUE", folded m3_def]
  have wr: "vwrite ?v VMM_TEST_VALUE m2 = Some m3"
    using mapped_access(2) [OF mt(6) t(2) x(1,3), of VMM_TEST_VALUE] unfolding x(2) m3_def by simp
  have "page_entry m3 (frame_of ?v) = Some ?x" using dw(2) [OF t(3)] x(1) by simp
  from mapped_access(1) [OF dw(1) t(2) this] have read: "vread ?v m3 = Some VMM_TEST_VALUE"
    unfolding x(2) by (simp add: m3_def)
  have "same_space m3 m2" using dw by (intro same_spaceI) (simp_all add: m3_def)
  from vmm_map_unmap_restores [OF inv1 map dw(1) this] obtain m4 where
    m4: "vmm_unmap ?v m3 = Some (Some a, m4)" "vmm_inv m4" and s4: "same_space m4 m1" by blast
  have p4: "m_pmm m4 = p" and e4: "\<And>n. n < 1047552 \<Longrightarrow> page_entry m4 n = page_entry m n"
    using same_spaceD [OF s4] by (simp_all add: m1_def)
  have gone: "vmm_query ?v m4 = Some None"
    using vmm_query_eq [OF m4(2), of ?v] e4 [OF t(3)] none by simp
  have free: "pmm_free a p = (True, m_pmm m)" by (rule pmm_alloc_free_undo [OF pmm a a0])
  define m5 where "m5 = m4\<lparr>m_pmm := m_pmm m\<rparr>"
  have "vmm_self_test m = Some (True, m5)"
    unfolding vmm_self_test_def
    by (simp add: Let_def a a0 m1_def [symmetric] map query again wr read m4 p4 gone free m5_def)
  moreover have "vmm_inv m5"
    using table_frames_not_free [OF inv] same_space_tables [OF s4] p4 al(2,6) pmm
    unfolding m5_def by (intro pmm_change [OF m4(2)]) (auto simp: m1_def)
  ultimately show ?thesis using e4 by (intro exI [of _ m5]) (simp add: m5_def)
qed

subsection \<open>Initialisation\<close>

text \<open>
  The state \<open>kernel_entry\<close> hands over: the boot directory is active and maps the first 4 MiB twice,
  at 0 and at \<open>KERNEL_BASE\<close>, through the boot table. Directory and table are two writable pages
  of the kernel image, which ends below the page that the scratch mapping uses, and the frame
  allocator holds no frame of the image.
\<close>

definition boot_paging :: "kernel_image \<Rightarrow> boot_info \<Rightarrow> machine \<Rightarrow> bool" where
  "boot_paging ki bi m \<longleftrightarrow>
     (let d = frame_of (boot_page_directory ki - KERNEL_BASE); t = frame_of (boot_page_table ki - KERNEL_BASE)
      in boot_page_directory ki = KERNEL_BASE + of_nat (d * 4096) \<and> boot_page_table ki = KERNEL_BASE + of_nat (t * 4096) \<and>
         d < 1023 \<and> t < 1023 \<and> d \<noteq> t \<and> cr3 m = of_nat (d * 4096) \<and>
         (\<forall>f \<in> {d, t}. kernel_physical_start bi \<le> of_nat (f * 4096) \<and> of_nat (f * 4096) < kernel_physical_end bi \<and>
            \<not> page_is_read_only_kernel ki (KERNEL_BASE + of_nat (f * 4096))) \<and>
         unat (kernel_physical_end bi) \<le> 0x3FF000 \<and>
         (\<forall>i<1024. ram m d i = (if i = 0 \<or> i = 768 then of_nat (t * 4096) OR 3 else 0)) \<and>
         (\<forall>i<1024. ram m t i = of_nat (i * 4096) OR 3) \<and>
         pmm_inv (m_pmm m) \<and>
         (\<forall>f \<in> free_frames (m_pmm m). \<not> (unat (kernel_physical_start bi) \<le> f * 4096 \<and> f * 4096 < unat (kernel_physical_end bi))))"

lemma page_word:
  assumes "f < 1024"
  shows "unat (of_nat (f * 4096) :: u32) = f * 4096" "frame_of (of_nat (f * 4096) OR 3) = f"
    "frame_of (of_nat (f * 4096)) = f" "bit (of_nat (f * 4096) OR 3 :: u32) 0" "bit (of_nat (f * 4096) OR 3 :: u32) 1"
    "\<not> bit (of_nat (f * 4096) OR 3 :: u32) 2"
    "\<not> bit (of_nat (f * 4096) :: u32) 0"
proof -
  show u: "unat (of_nat (f * 4096) :: u32) = f * 4096" using assms by (subst unat_of_nat32) auto
  show f: "frame_of (of_nat (f * 4096)) = f" unfolding frame_of_def u by simp
  have "frame_of (of_nat (f * 4096) OR 3) = frame_of (of_nat (f * 4096))"
    by (rule frame_of_or_flags) (rule small_bits, simp_all)
  then show "frame_of (of_nat (f * 4096) OR 3) = f" using f by simp
  have al: "unat (of_nat (f * 4096) :: u32) mod 4096 = 0" unfolding u by simp
  show "bit (of_nat (f * 4096) OR 3 :: u32) 0" "bit (of_nat (f * 4096) OR 3 :: u32) 1"
    "\<not> bit (of_nat (f * 4096) OR 3 :: u32) 2" "\<not> bit (of_nat (f * 4096) :: u32) 0"
    using aligned_bits [OF al] unfolding bit_or_iff bit_flags by auto
qed

lemma kernel_page_write:
  assumes f: "f < 1024" and t: "t < 1024" and k: "k < 1024"
    and m: "ram m (frame_of (cr3 m)) 768 = of_nat (t * 4096) OR 3" "ram m t f = of_nat (f * 4096) OR 3"
  shows "vwrite (KERNEL_BASE + of_nat (f * 4096) + 4 * of_nat k) x m = Some (ram_write f k x m)"
proof -
  define v :: u32 where "v = KERNEL_BASE + of_nat (f * 4096) + 4 * of_nat k"
  have v: "unat v = 3221225472 + f * 4096 + 4 * k"
    using f k page_word(1) [OF f] by (simp add: v_def unat_word_ariths unat_of_nat32)
  have idx: "unat v div 4194304 = 768" "unat v div 4096 mod 1024 = f" "unat v mod 4096 div 4 = k"
  proof -
    show "unat v div 4194304 = 768" unfolding v using f k by simp
    have v': "unat v = 4 * k + (786432 + f) * 4096" unfolding v by simp
    have p: "unat v div 4096 = f + 768 * 1024" unfolding v' div_mult_self1 [OF zero_neq_numeral [symmetric]] using k by simp
    show "unat v div 4096 mod 1024 = f" unfolding p mod_mult_self1 using f by simp
    show "unat v mod 4096 div 4 = k" unfolding v' mod_mult_self1 using k by simp
  qed
  have "pde m 768 = of_nat (t * 4096) OR 3" "pte m 768 f = of_nat (f * 4096) OR 3"
    using m page_word(2) [OF t] by (simp_all add: pde_def pte_def)
  then have w: "walk m v = Some (of_nat (t * 4096) OR 3, of_nat (f * 4096) OR 3)"
    using page_word(4) [OF t] page_word(4) [OF f] by (simp add: walk_alt Let_def idx present_iff)
  show ?thesis
    unfolding v_def [symmetric] vwrite_def w using page_word(2,3,5) [OF f] page_word(5) [OF t] idx(3)
    by (simp add: frame_of_drop unat_and_FFF test_bits del: One_nat_def of_nat_mult)
qed

lemma init_table_loop:
  assumes d: "d < 1024" and t: "t < 1024" "d \<noteq> t" and cr3: "frame_of (cr3 m) = d"
    and dir: "ram m d 768 = of_nat (t * 4096) OR 3" and tab: "ram m t t = of_nat (t * 4096) OR 3"
    and new: "g t = of_nat (t * 4096) OR 3"
  shows "for_opt 0 1024 (\<lambda>i. vwrite (KERNEL_BASE + of_nat (t * 4096) + 4 * of_nat i) (g i)) m =
    Some (m\<lparr>ram := (ram m)(t := (\<lambda>i. if i < 1024 then g i else ram m t i))\<rparr>)"
proof -
  have "\<exists>s'. for_opt 0 1024 (\<lambda>i. vwrite (KERNEL_BASE + of_nat (t * 4096) + 4 * of_nat i) (g i)) m = Some s' \<and>
    s' = m\<lparr>ram := (ram m)(t := (\<lambda>i. if i < 1024 then g i else ram m t i))\<rparr>"
  proof (rule for_opt_rule)
    show "m = m\<lparr>ram := (ram m)(t := (\<lambda>i. if i < 0 then g i else ram m t i))\<rparr>" by simp
  next
    fix n s assume n: "n < (1024 :: nat)"
      and s: "s = m\<lparr>ram := (ram m)(t := (\<lambda>i. if i < n then g i else ram m t i))\<rparr>"
    have "vwrite (KERNEL_BASE + of_nat (t * 4096) + 4 * of_nat n) (g n) s = Some (ram_write t n (g n) s)"
      using d t dir tab new cr3 by (intro kernel_page_write [OF t(1) t(1) n]) (auto simp: s)
    moreover have "ram_write t n (g n) s = m\<lparr>ram := (ram m)(t := (\<lambda>i. if i < Suc n then g i else ram m t i))\<rparr>"
      by (simp add: s ram_write_def fun_eq_iff less_Suc_eq)
    ultimately show "\<exists>s'. vwrite (KERNEL_BASE + of_nat (t * 4096) + 4 * of_nat n) (g n) s = Some s' \<and>
        s' = m\<lparr>ram := (ram m)(t := (\<lambda>i. if i < Suc n then g i else ram m t i))\<rparr>" by blast
  qed simp
  then show ?thesis by blast
qed

lemma init_page_table_entry_bits:
  assumes "i < 1024"
  shows "init_page_table_entry ki bi (of_nat (i * 4096)) = 0 \<or>
    init_page_table_entry ki bi (of_nat (i * 4096)) = of_nat (i * 4096) OR 1 \<or>
    init_page_table_entry ki bi (of_nat (i * 4096)) = of_nat (i * 4096) OR 3"
  by (simp add: init_page_table_entry_def)

lemma vmm_init_state:
  assumes boot: "boot_paging ki bi m"
  defines "g \<equiv> \<lambda>i. init_page_table_entry ki bi (of_nat i * 4096)"
    and "d \<equiv> frame_of (boot_page_directory ki - KERNEL_BASE)" and "t \<equiv> frame_of (boot_page_table ki - KERNEL_BASE)"
  obtains m' where "vmm_init ki bi m = Some m'" "cr3 m' = of_nat (d * 4096)" "write_protect m'" "vmm_initialized m'"
    "m_pmm m' = m_pmm m" "kernel_page_directory_physical m' = of_nat (d * 4096)"
    "\<And>i. i < 1024 \<Longrightarrow> ram m' d i = (if i = 768 then of_nat (t * 4096) OR 3 else if i = 1023 then of_nat (d * 4096) OR 3 else 0)"
    "\<And>i. i < 1024 \<Longrightarrow> ram m' t i = g i"
proof -
  have D: "boot_page_directory ki = KERNEL_BASE + of_nat (d * 4096)" and T: "boot_page_table ki = KERNEL_BASE + of_nat (t * 4096)"
    and lt: "d < 1024" "t < 1024" "d \<noteq> t" and cr3: "cr3 m = of_nat (d * 4096)"
    and kern: "kernel_physical_start bi \<le> of_nat (t * 4096)" "of_nat (t * 4096) < kernel_physical_end bi"
      "\<not> page_is_read_only_kernel ki (KERNEL_BASE + of_nat (t * 4096))"
      "kernel_physical_start bi \<le> of_nat (d * 4096)" "of_nat (d * 4096) < kernel_physical_end bi"
      "\<not> page_is_read_only_kernel ki (KERNEL_BASE + of_nat (d * 4096))"
    and dir: "\<And>i. i < 1024 \<Longrightarrow> ram m d i = (if i = 0 \<or> i = 768 then of_nat (t * 4096) OR 3 else 0)"
    and tab: "\<And>i. i < 1024 \<Longrightarrow> ram m t i = of_nat (i * 4096) OR 3"
    using boot unfolding boot_paging_def Let_def d_def [symmetric] t_def [symmetric] by simp_all
  have fr: "frame_of (cr3 m) = d" using page_word(3) [OF lt(1)] by (simp add: cr3)
  have mask: "of_nat (d * 4096) AND PAGE_MASK = (of_nat (d * 4096) :: u32)"
    using or_flags_mask [of "of_nat (d * 4096)" 0] page_word(1) [OF lt(1)] by simp
  have gt: "g t = of_nat (t * 4096) OR 3" "g d = of_nat (d * 4096) OR 3"
    using kern by (simp_all add: g_def init_page_table_entry_def)
  define m1 where "m1 = m\<lparr>ram := (ram m)(t := (\<lambda>i. if i < 1024 then g i else ram m t i))\<rparr>"
  have loop: "for_opt 0 1024 (\<lambda>i. vwrite (KERNEL_BASE + of_nat (t * 4096) + 4 * of_nat i) (g i)) m = Some m1"
    unfolding m1_def using dir [of 768] tab [of t] gt lt fr by (intro init_table_loop) simp_all
  define m2 where "m2 = ram_write d 768 (of_nat (t * 4096) OR 3) m1"
  define m3 where "m3 = ram_write d 1023 (of_nat (d * 4096) OR 3) m2"
  define m4 where "m4 = ram_write d 0 0 m3"
  have w: "vwrite (KERNEL_BASE + of_nat (d * 4096) + 4 * of_nat k) x s = Some (ram_write d k x s)"
    if "k < 1024" "ram s d 768 = of_nat (t * 4096) OR 3" "ram s t d = of_nat (d * 4096) OR 3" "cr3 s = cr3 m" for k x s
    using that fr lt by (intro kernel_page_write [OF lt(1,2)]) simp_all
  have s1: "ram m1 d 768 = of_nat (t * 4096) OR 3" "ram m1 t d = of_nat (d * 4096) OR 3" "cr3 m1 = cr3 m"
    using dir [of 768] gt(2) lt by (simp_all add: m1_def)
  have w2: "vwrite (KERNEL_BASE + of_nat (d * 4096) + 4 * of_nat 768) (of_nat (t * 4096) OR 3) m1 = Some m2"
    using w [of 768 m1] s1 by (simp only: m2_def)
  have s2: "ram m2 d 768 = of_nat (t * 4096) OR 3" "ram m2 t d = of_nat (d * 4096) OR 3" "cr3 m2 = cr3 m"
    using s1 lt by (simp_all add: m2_def)
  have w3: "vwrite (KERNEL_BASE + of_nat (d * 4096) + 4 * of_nat 1023) (of_nat (d * 4096) OR 3) m2 = Some m3"
    using w [of 1023 m2] s2 by (simp only: m3_def)
  have s3: "ram m3 d 768 = of_nat (t * 4096) OR 3" "ram m3 t d = of_nat (d * 4096) OR 3" "cr3 m3 = cr3 m"
    using s2 lt by (simp_all add: m3_def)
  have w4: "vwrite (KERNEL_BASE + of_nat (d * 4096)) 0 m3 = Some m4"
    using w [of 0 m3 0] s3 by (simp add: m4_def)
  define m' where "m' = m4\<lparr>write_protect := True, cr3 := of_nat (d * 4096),
    kernel_page_directory_physical := of_nat (d * 4096), vmm_initialized := True\<rparr>"
  have ok: "\<not> kernel_physical_start bi \<ge> kernel_physical_end bi" using kern(1,2) by simp
  have three: "x OR PAGE_PRESENT OR VMM_WRITABLE = x OR 3" for x :: u32 by simp
  have diff: "KERNEL_BASE + x - KERNEL_BASE = x" for x :: u32 by simp
  have init: "vmm_init ki bi m = Some m'"
    unfolding vmm_init_def Let_def if_not_P [OF ok] cr3 mask T D three diff
    using loop [unfolded g_def] w2 w3 w4 by (simp only: bind.bind_lunit m'_def)
  have rd: "ram m' d i = (if i = 768 then of_nat (t * 4096) OR 3 else if i = 1023 then of_nat (d * 4096) OR 3 else 0)"
    if "i < 1024" for i
    using dir [OF that] lt(3) by (simp add: m'_def m4_def m3_def m2_def m1_def)
  have rt: "ram m' t i = g i" if "i < 1024" for i
    using that lt(3) by (simp add: m'_def m4_def m3_def m2_def m1_def)
  show ?thesis
    by (rule that [OF init _ _ _ _ _ rd rt]) (simp_all add: m'_def m4_def m3_def m2_def m1_def)
qed

text \<open>Page \<open>n\<close> is the high-half alias of a page of the kernel image or of the VGA text buffer.\<close>

definition kernel_page :: "boot_info \<Rightarrow> nat \<Rightarrow> bool" where
  "kernel_page bi n \<longleftrightarrow> 786432 \<le> n \<and> n < 787456 \<and>
     (n - 786432 = 0xB8 \<or> unat (kernel_physical_start bi) \<le> (n - 786432) * 4096 \<and>
                         (n - 786432) * 4096 < unat (kernel_physical_end bi))"

lemma init_page_table_entry_eq:
  assumes "i < 1024"
  shows "init_page_table_entry ki bi (of_nat i * 4096) =
    (if kernel_page bi (786432 + i)
     then of_nat (i * 4096) OR (if i \<noteq> 0xB8 \<and> page_is_read_only_kernel ki (KERNEL_BASE + of_nat (i * 4096)) then 1 else 3)
     else 0)"
proof -
  have u: "unat (of_nat (i * 4096) :: u32) = i * 4096" by (rule page_word(1) [OF assms])
  have "(of_nat i * 4096 = (VGA_PHYSICAL_ADDRESS :: u32)) \<longleftrightarrow> i = 0xB8"
    using u by (simp add: word_unat_eq_iff)
  moreover have "of_nat i * 4096 \<ge> kernel_physical_start bi \<longleftrightarrow> unat (kernel_physical_start bi) \<le> i * 4096"
    "of_nat i * 4096 < kernel_physical_end bi \<longleftrightarrow> i * 4096 < unat (kernel_physical_end bi)"
    using u by (simp_all add: word_le_nat_alt word_less_nat_alt)
  ultimately show ?thesis using assms by (simp add: init_page_table_entry_def kernel_page_def)
qed

lemma vmm_init_inv:
  assumes boot: "boot_paging ki bi m"
  shows "\<exists>m'. vmm_init ki bi m = Some m' \<and> vmm_inv m' \<and> write_protect m' \<and> m_pmm m' = m_pmm m \<and>
    kernel_page_directory_physical m' = cr3 m' \<and>
    (\<forall>n<1047552. page_entry m' n =
       (if kernel_page bi n then Some (init_page_table_entry ki bi (of_nat (n - 786432) * 4096)) else None))"
proof -
  define d where "d = frame_of (boot_page_directory ki - KERNEL_BASE)"
  define t where "t = frame_of (boot_page_table ki - KERNEL_BASE)"
  have lt: "d < 1024" "t < 1024" "d \<noteq> t" and pmm: "pmm_inv (m_pmm m)" "d \<notin> free_frames (m_pmm m)" "t \<notin> free_frames (m_pmm m)"
    and last: "unat (kernel_physical_end bi) \<le> 4190208"
    using boot page_word(1) [of d] page_word(1) [of t]
    unfolding boot_paging_def Let_def d_def [symmetric] t_def [symmetric] by (auto simp: word_le_nat_alt word_less_nat_alt)
  obtain m' where m': "vmm_init ki bi m = Some m'" "cr3 m' = of_nat (d * 4096)" "write_protect m'" "vmm_initialized m'"
    "m_pmm m' = m_pmm m" "kernel_page_directory_physical m' = of_nat (d * 4096)"
    "\<And>i. i < 1024 \<Longrightarrow> ram m' d i = (if i = 768 then of_nat (t * 4096) OR 3 else if i = 1023 then of_nat (d * 4096) OR 3 else 0)"
    "\<And>i. i < 1024 \<Longrightarrow> ram m' t i = init_page_table_entry ki bi (of_nat i * 4096)"
    by (rule vmm_init_state [OF boot, folded d_def t_def]) (rule that)
  have fr: "frame_of (cr3 m') = d" using page_word(3) [OF lt(1)] by (simp add: m'(2))
  have pde: "pde m' i = (if i = 768 then of_nat (t * 4096) OR 3 else if i = 1023 then of_nat (d * 4096) OR 3 else 0)"
    if "i < 1024" for i using m'(7) [OF that] by (simp add: pde_def fr)
  have pde768: "pde m' 768 = of_nat (t * 4096) OR 3" and pde1023: "pde m' 1023 = of_nat (d * 4096) OR 3"
    using pde [of 768] pde [of 1023] by simp_all
  have only: "i = 768" if "i < 1023" "bit (pde m' i) 0" for i using pde [of i] that by (simp split: if_splits)
  have pte: "pte m' 768 j = init_page_table_entry ki bi (of_nat j * 4096)" if "j < 1024" for j
    using m'(8) [OF that] page_word(2) [OF lt(2)] by (simp only: pte_def pde768)
  have "pte m' 768 1023 = 0"
    using pte [of 1023] init_page_table_entry_eq [of 1023 ki bi] last by (simp add: kernel_page_def)
  moreover have "table_ok {} m' 768"
    using page_word [OF lt(2)] lt(3) pmm(3) by (simp only: table_ok_def pde768 fr m'(5)) simp
  moreover have "recursive_ok m'" using page_word [OF lt(1)] by (simp only: recursive_ok_def pde1023 fr)
  ultimately have "vmm_inv m'"
    using pmm m'(4,5) fr page_word(4) [OF lt(2)] only unfolding vmm_inv_def vmm_wf_def pde768 by auto
  moreover have "page_entry m' n =
       (if kernel_page bi n then Some (init_page_table_entry ki bi (of_nat (n - 786432) * 4096)) else None)"
    if "n < 1047552" for n
  proof (cases "786432 \<le> n \<and> n < 787456")
    case True
    then obtain i where i: "n = 786432 + i" "i < 1024" by (intro that [of "n - 786432"]) auto
    have ne: "bit (of_nat (i * 4096) OR b :: u32) 0" if "b = 1 \<or> b = 3" for b
      using that unfolding bit_or_iff by (auto simp: bit_flags)
    have "n div 1024 = 768" "n mod 1024 = i" using i mod_mult_self1 [of i 768 1024] by (simp_all add: add.commute)
    then show ?thesis
      using pte [OF i(2)] init_page_table_entry_eq [OF i(2), of ki bi] ne page_word(4) [OF lt(2)]
      by (simp add: page_entry_def pde768 i(1) split: if_splits)
  next
    case False
    then have "n div 1024 \<noteq> 768" "n div 1024 < 1023" using that by auto
    then show ?thesis using only [of "n div 1024"] False by (auto simp: page_entry_def kernel_page_def)
  qed
  ultimately show ?thesis using m' by auto
qed

subsection \<open>Properties\<close>

text \<open>
  C7. From the paging state of the boot code \<open>vmm_init\<close> never faults: it establishes the invariant
  of the virtual memory manager, turns write protection on, and leaves mapped exactly the kernel
  image and the VGA buffer in the high half, text and read-only data without write permission.
\<close>

theorem vmm_init_correct:
  assumes "boot_paging ki bi m"
  shows "\<exists>m'. vmm_init ki bi m = Some m' \<and> vmm_inv m' \<and> write_protect m' \<and> m_pmm m' = m_pmm m \<and>
    (\<forall>n<1047552. page_entry m' n =
       (if kernel_page bi n
        then Some (of_nat ((n - 786432) * 4096) OR
          (if n \<noteq> 786616 \<and> page_is_read_only_kernel ki (KERNEL_BASE + of_nat ((n - 786432) * 4096)) then 1 else 3))
        else None))"
proof -
  have "init_page_table_entry ki bi (of_nat (n - 786432) * 4096) = of_nat ((n - 786432) * 4096) OR
      (if n \<noteq> 786616 \<and> page_is_read_only_kernel ki (KERNEL_BASE + of_nat ((n - 786432) * 4096)) then 1 else 3)"
    if "kernel_page bi n" for n
  proof -
    have n: "786432 \<le> n" "n < 787456" using that by (auto simp: kernel_page_def)
    then show ?thesis
      using init_page_table_entry_eq [of "n - 786432" ki bi] that by auto
  qed
  note eq = this
  obtain m' where m': "vmm_init ki bi m = Some m'" "vmm_inv m'" "write_protect m'" "m_pmm m' = m_pmm m"
    "\<And>n. n < 1047552 \<Longrightarrow> page_entry m' n =
       (if kernel_page bi n then Some (init_page_table_entry ki bi (of_nat (n - 786432) * 4096)) else None)"
    using vmm_init_inv [OF assms] by blast
  show ?thesis
  proof (intro exI [of _ m'] conjI allI impI)
    fix n :: nat assume n: "n < 1047552"
    show "page_entry m' n = (if kernel_page bi n
        then Some (of_nat ((n - 786432) * 4096) OR
          (if n \<noteq> 786616 \<and> page_is_read_only_kernel ki (KERNEL_BASE + of_nat ((n - 786432) * 4096)) then 1 else 3))
        else None)"
    proof (cases "kernel_page bi n")
      case True
      show ?thesis unfolding m'(5) [OF n] if_P [OF True] eq [OF True] ..
    qed (simp only: m'(5) [OF n] if_False)
  qed (use m' in simp_all)
qed

text \<open>
  C8. \<open>vmm_map\<close> never faults. It succeeds exactly for an acceptable page that is not mapped yet,
  if its table exists or a frame for one is free; then the page, and nothing else, is mapped to
  the given frame with the given rights. When it fails the machine is unchanged.
\<close>

theorem vmm_map_correct:
  assumes "vmm_inv m"
  shows "\<exists>ok m'. vmm_map v a fl m = Some (ok, m') \<and> vmm_inv m' \<and>
    (ok \<longleftrightarrow> \<not> vmm_map_rejects v a fl m \<and> page_entry m (frame_of v) = None \<and>
          \<not> (\<not> bit (pde m (unat (drop_bit 22 v))) 0 \<and> free_frames (m_pmm m) = {})) \<and>
    (if ok then \<forall>n<1047552. page_entry m' n =
       ((page_entry m)(frame_of v \<mapsto> (a OR PAGE_PRESENT OR (fl AND (VMM_WRITABLE OR VMM_USER))))) n
     else m' = m)"
proof (cases "vmm_map_rejects v a fl m")
  case True
  then show ?thesis using assms by (intro exI [of _ False] exI [of _ m]) (simp add: vmm_map_def)
next
  case False
  from assms False show ?thesis
  proof (cases rule: vmm_map_spec)
    case (mapped m')
    have pmm: "pmm_inv (m_pmm m)" using assms by (simp add: vmm_inv_def vmm_wf_def)
    have "free_frames (m_pmm m) \<noteq> {}" if "\<not> bit (pde m (unat (drop_bit 22 v))) 0"
      using mapped(6) that pmm_frames.alloc_taken [OF pmm, of "fst (pmm_alloc (m_pmm m))"]
      by (auto simp: prod_eq_iff)
    then show ?thesis using mapped False by (intro exI [of _ True] exI [of _ m']) auto
  next
    case busy
    then show ?thesis using assms by (intro exI [of _ False] exI [of _ m]) auto
  next
    case full
    then show ?thesis using assms by (intro exI [of _ False] exI [of _ m]) auto
  qed
qed

text \<open>
  C9. \<open>vmm_unmap\<close> never faults and never panics: for a mapped page it returns the frame's address
  and removes this mapping alone; the page table is returned to the allocator exactly when it
  became empty and is not the kernel table of directory entry 768, which is never returned. For any other address it answers false and changes nothing.
\<close>

theorem vmm_unmap_correct:
  assumes "vmm_inv m"
  shows "case (if unat v mod 4096 = 0 \<and> unat v < 4290772992 then page_entry m (frame_of v) else None) of
      None \<Rightarrow> vmm_unmap v m = Some (None, m)
    | Some e \<Rightarrow> \<exists>m'. vmm_unmap v m = Some (Some (e AND PAGE_MASK), m') \<and> vmm_inv m' \<and>
        (\<forall>n<1047552. page_entry m' n = ((page_entry m)(frame_of v := None)) n) \<and>
        (if last_in_table m v
         then pmm_free (pde m (unat (drop_bit 22 v)) AND PAGE_MASK) (m_pmm m) = (True, m_pmm m')
         else m_pmm m' = m_pmm m)"
proof (cases "unat v mod 4096 = 0 \<and> unat v < 4290772992")
  case True
  then have "unat v mod 4096 = 0" "unat v < 4290772992" by auto
  with assms show ?thesis
  proof (cases rule: vmm_unmap_spec)
    case (gone e m')
    show ?thesis unfolding if_P [OF True] gone(1) option.case by (rule exI [of _ m']) (use gone in simp)
  qed (use True in simp)
next
  case False
  then have "v AND (4096 - 1) \<noteq> 0 \<or> v \<ge> RECURSIVE_PAGE_TABLES"
    using unat_and_FFF [of v] unat_eq_0 [of "v AND 4095"] by (auto simp: word_le_nat_alt)
  then have "vmm_unmap v m = Some (None, m)" by (auto simp: vmm_unmap_def)
  then show ?thesis using False by auto
qed

text \<open>
  C10. \<open>vmm_query\<close> reports exactly the mapping: the physical address with the offset kept, and the
  effective rights, in which the user bit appears only below the kernel base.
\<close>

theorem vmm_query_correct:
  assumes "vmm_inv m"
  shows "vmm_query v m = Some (if unat v < 4290772992 then
    map_option (\<lambda>e. ((e AND PAGE_MASK) OR (v AND NOT PAGE_MASK),
      e AND (if v < KERNEL_BASE then VMM_WRITABLE OR VMM_USER else VMM_WRITABLE))) (page_entry m (frame_of v)) else None)"
  by (rule vmm_query_eq [OF assms])

text \<open>
  Unmapping a page that was just mapped returns its frame, and restores both the mappings and
  the whole state of the frame allocator, with the table that the mapping may have needed.
\<close>

theorem vmm_map_unmap_roundtrip:
  assumes "vmm_inv m" and "vmm_map v a fl m = Some (True, m')"
  shows "\<exists>m''. vmm_unmap v m' = Some (Some a, m'') \<and> vmm_inv m'' \<and> m_pmm m'' = m_pmm m \<and>
    (\<forall>n<1047552. page_entry m'' n = page_entry m n)"
proof -
  obtain m'' where "vmm_unmap v m' = Some (Some a, m'')" "vmm_inv m''" and s: "same_space m'' m"
    using vmm_map_unmap_restores [OF assms vmm_map_tables(6) [OF assms] same_space_refl] by blast
  then show ?thesis using same_spaceD(1,3) [OF s] by (intro exI [of _ m'']) simp
qed

text \<open>
  With the test page unmapped and two free frames the self-test succeeds; it leaves the
  allocator and the mappings as they were.
\<close>

theorem vmm_self_test_correct:
  assumes "vmm_inv m" and "page_entry m (frame_of VMM_TEST_VIRTUAL_ADDRESS) = None"
    and "2 \<le> card (free_frames (m_pmm m))"
  shows "\<exists>m'. vmm_self_test m = Some (True, m') \<and> vmm_inv m' \<and> m_pmm m' = m_pmm m \<and>
    (\<forall>n<1047552. page_entry m' n = page_entry m n)"
  using assms by (rule vmm_self_test_passes)

subsection \<open>A machine with an empty kernel table\<close>

definition sample_machine :: machine where
  "sample_machine = \<lparr>m_pmm = sample_pmm,
     ram = (\<lambda>f i. if f = 1 \<and> i = 768 then 0x2003 else if f = 1 \<and> i = 1023 then 0x1003 else 0),
     cr3 = 0x1000, write_protect = True, eflags = 0, vmm_initialized = True,
     kernel_page_directory_physical = 0x1000, address_space_window_busy = False,
     address_space_window_irq_flags = 0\<rparr>"

lemma sample_pde: "pde sample_machine i = (if i = 768 then 0x2003 else if i = 1023 then 0x1003 else 0)"
  by (simp add: sample_machine_def pde_def frame_of_def)

lemma sample_bits:
  "bit (0x2003 :: u32) 0" "bit (0x2003 :: u32) 1" "\<not> bit (0x2003 :: u32) 2" "bit (0x1003 :: u32) 0" "bit (0x1003 :: u32) 1"
  using page_word(4-6) [of 2] page_word(4-6) [of 1] by simp_all

lemma sample_pte: "pte sample_machine 768 j = 0"
  by (simp add: pte_def sample_pde frame_of_def) (simp add: sample_machine_def)

lemma sample_machine_pmm [simp]: "m_pmm sample_machine = sample_pmm" "vmm_initialized sample_machine"
  by (simp_all add: sample_machine_def)
lemma sample_machine_inv [simp]: "vmm_inv sample_machine"
proof -
  have "recursive_ok sample_machine"
    using sample_bits by (simp add: recursive_ok_def sample_pde) (simp add: frame_of_def sample_machine_def)
  moreover have "table_ok {} sample_machine 768"
    using sample_bits by (simp add: table_ok_def sample_pde) (simp add: frame_of_def sample_machine_def)
  moreover have "i = 768" if "i < 1023" "bit (pde sample_machine i) 0" for i
    using that by (simp add: sample_pde split: if_splits)
  moreover have "frame_of (cr3 sample_machine) \<notin> free_frames sample_pmm"
    by (simp add: frame_of_def sample_machine_def)
  moreover have "bit (pde sample_machine 768) 0" using sample_bits(1) by (simp only: sample_pde simp_thms if_True)
  ultimately show ?thesis
    unfolding vmm_inv_def vmm_wf_def sample_pte sample_machine_pmm(1) by (auto simp del: sample_pmm_frames)
qed

lemma sample_page_entry [simp]: "n < 1047552 \<Longrightarrow> page_entry sample_machine n = None"
  by (auto simp: page_entry_def sample_pde sample_pte)


theorem vmm_map_correct_witness:
  "\<exists>m'. vmm_map 0xD0000000 0x00300000 VMM_WRITABLE sample_machine = Some (True, m') \<and> vmm_inv m' \<and>
     page_entry m' 0xD0000 = Some 0x00300003"
proof -
  have "\<not> vmm_map_rejects 0xD0000000 0x00300000 VMM_WRITABLE sample_machine" by (simp add: vmm_map_rejects_def)
  moreover have "frame_of 0xD0000000 = 0xD0000" by (simp add: frame_of_def)
  ultimately show ?thesis
    using vmm_map_correct [OF sample_machine_inv, of "0xD0000000" "0x00300000" VMM_WRITABLE] by auto
qed

lemma sample_mapped:
  "\<exists>m'. vmm_map 0xD0000000 0x00300000 VMM_WRITABLE sample_machine = Some (True, m') \<and> vmm_inv m' \<and> page_entry m' 0xD0000 = Some 0x00300003"
proof -
  have ok: "\<not> vmm_map_rejects 0xD0000000 0x00300000 VMM_WRITABLE sample_machine" by (simp add: vmm_map_rejects_def)
  have "frame_of 0xD0000000 = 0xD0000" by (simp add: frame_of_def)
  with sample_machine_inv ok show ?thesis by (cases rule: vmm_map_spec) auto
qed

theorem vmm_unmap_correct_witness:
  "\<exists>m' m''. vmm_map 0xD0000000 0x00300000 VMM_WRITABLE sample_machine = Some (True, m') \<and>
     vmm_unmap 0xD0000000 m' = Some (Some 0x00300000, m'') \<and> page_entry m'' 0xD0000 = None"
proof -
  obtain m' where m': "vmm_map 0xD0000000 0x00300000 VMM_WRITABLE sample_machine = Some (True, m')" "vmm_inv m'"
    "page_entry m' 0xD0000 = Some 0x00300003" using sample_mapped by blast
  have "frame_of 0xD0000000 = 0xD0000" by (simp add: frame_of_def)
  then show ?thesis using vmm_unmap_correct [OF m'(2), of "0xD0000000"] m'(1,3) by auto
qed

theorem vmm_query_correct_witness:
  "\<exists>m'. vmm_map 0xD0000000 0x00300000 VMM_WRITABLE sample_machine = Some (True, m') \<and>
     vmm_query 0xD0000123 m' = Some (Some (0x00300123, VMM_WRITABLE))"
proof -
  obtain m' where m': "vmm_map 0xD0000000 0x00300000 VMM_WRITABLE sample_machine = Some (True, m')" "vmm_inv m'"
    "page_entry m' 0xD0000 = Some 0x00300003" using sample_mapped by blast
  have "frame_of 0xD0000123 = 0xD0000" by (simp add: frame_of_def)
  then show ?thesis using vmm_query_correct [OF m'(2), of "0xD0000123"] m'(1,3) by simp
qed

theorem vmm_map_unmap_roundtrip_witness:
  "\<exists>m' m''. vmm_map 0xD0000000 0x00300000 VMM_WRITABLE sample_machine = Some (True, m') \<and>
     vmm_unmap 0xD0000000 m' = Some (Some 0x00300000, m'') \<and> m_pmm m'' = sample_pmm"
proof -
  have ok: "\<not> vmm_map_rejects 0xD0000000 0x00300000 VMM_WRITABLE sample_machine" by (simp add: vmm_map_rejects_def)
  obtain m' where m': "vmm_map 0xD0000000 0x00300000 VMM_WRITABLE sample_machine = Some (True, m')"
    using sample_machine_inv ok by (cases rule: vmm_map_spec) (auto simp: frame_of_def)
  show ?thesis using vmm_map_unmap_roundtrip [OF sample_machine_inv m'] m' by auto
qed

theorem vmm_self_test_correct_witness:
  "\<exists>m'. vmm_self_test sample_machine = Some (True, m') \<and> m_pmm m' = sample_pmm"
  using vmm_self_test_correct [OF sample_machine_inv] by (auto simp: frame_of_def)

definition sample_image :: kernel_image where
  "sample_image = \<lparr>text_start = 0xC0102000, text_end = 0xC0103000, rodata_start = 0xC0103000,
     rodata_end = 0xC0104000, boot_page_directory = 0xC0104000, boot_page_table = 0xC0105000\<rparr>"

definition sample_boot_info :: boot_info where
  "sample_boot_info = \<lparr>magic = BOOT_INFO_MAGIC, version = 1, info_size = 64, checksum = 0, boot_drive = 0x80,
     kernel_entry = 0xC0102000, kernel_physical_entry = 0x00102000, kernel_physical_start = 0x00102000,
     kernel_physical_end = 0x00106000, e820_count = 1, e820_address = 0x9000, loader_start = 0, loader_end = 0,
     kernel_lba = 0, kernel_sectors = 0, reserved = 0\<rparr>"

definition sample_boot_machine :: machine where
  "sample_boot_machine = \<lparr>m_pmm = sample_pmm,
     ram = (\<lambda>f i. if f = 0x104 then (if i = 0 \<or> i = 768 then 0x105003 else 0)
                  else if f = 0x105 then of_nat (i * 4096) OR 3 else 0),
     cr3 = 0x104000, write_protect = False, eflags = 0, vmm_initialized = False,
     kernel_page_directory_physical = 0, address_space_window_busy = False,
     address_space_window_irq_flags = 0\<rparr>"

theorem vmm_init_correct_witness:
  "\<exists>m'. vmm_init sample_image sample_boot_info sample_boot_machine = Some m' \<and> vmm_inv m' \<and>
     page_entry m' 0xC0102 = Some 0x00102001 \<and> page_entry m' 0xC0104 = Some 0x00104003"
proof -
  have boot: "boot_paging sample_image sample_boot_info sample_boot_machine"
    by (simp add: boot_paging_def Let_def frame_of_def sample_image_def sample_boot_info_def sample_boot_machine_def
        page_is_read_only_kernel_def)
  have "kernel_page sample_boot_info 0xC0102" "kernel_page sample_boot_info 0xC0104"
    by (simp_all add: kernel_page_def sample_boot_info_def)
  then show ?thesis
    using vmm_init_correct [OF boot]
    by (auto simp: page_is_read_only_kernel_def sample_image_def)
qed

end
