(* ===== verification/Heap.thy ===== *)
theory Heap
  imports Vmm
begin

text \<open>
  The kernel heap, \<open>kernel/mm/heap.c\<close>: a first-fit allocator over a doubly linked list of block
  headers in the virtual range from \<open>0xD1000000\<close>, grown page by page.

  The headers are an explicit store from addresses to \<open>struct heap_block\<close>; a pointer is its
  address and \<open>NULL\<close> is 0. The bytes of the payloads are not modelled. \<^const>\<open>None\<close> is \<open>panic()\<close>.
  The loops follow \<open>next\<close> and validate each block first, which is why they end.
\<close>

abbreviation (input) HEAP_ALIGNMENT :: u32 where "HEAP_ALIGNMENT \<equiv> 8"
abbreviation (input) HEAP_MAGIC :: u32 where "HEAP_MAGIC \<equiv> 0x48454150"
abbreviation (input) HEAP_STATE_FREE :: u32 where "HEAP_STATE_FREE \<equiv> 0x46524545"
abbreviation (input) HEAP_STATE_ALLOCATED :: u32 where "HEAP_STATE_ALLOCATED \<equiv> 0x55534544"
abbreviation (input) HEAP_VIRTUAL_START :: u32 where "HEAP_VIRTUAL_START \<equiv> 0xD1000000"
abbreviation (input) HEAP_MAX_SIZE :: u32 where "HEAP_MAX_SIZE \<equiv> 0x01000000"
abbreviation (input) HEAP_STRESS_BLOCKS :: nat where "HEAP_STRESS_BLOCKS \<equiv> 64"
abbreviation (input) HEADER_SIZE :: u32 where "HEADER_SIZE \<equiv> 24"
abbreviation (input) UINT32_MAX :: u32 where "UINT32_MAX \<equiv> 0xFFFFFFFF"

record heap_block =
  blk_magic :: u32
  blk_size :: u32
  blk_prev :: u32
  blk_next :: u32
  blk_state :: u32
  blk_reserved :: u32

record heap =
  blocks :: "u32 \<Rightarrow> heap_block"
  heap_head :: u32
  heap_end :: u32
  heap_mapped_pages :: u32
  heap_initialized :: bool
  mach :: machine

record heap_stats =
  stat_mapped_pages :: u32
  stat_allocated_blocks :: u32
  stat_free_blocks :: u32
  stat_allocated_bytes :: u32
  stat_free_bytes :: u32

subsection \<open>Headers\<close>

definition payload_address :: "u32 \<Rightarrow> u32" where
  "payload_address block = block + HEADER_SIZE"

definition update_block :: "u32 \<Rightarrow> (heap_block \<Rightarrow> heap_block) \<Rightarrow> heap \<Rightarrow> heap" where
  "update_block b f h = h\<lparr>blocks := (blocks h)(b := f (blocks h b))\<rparr>"

definition initialize_block :: "u32 \<Rightarrow> u32 \<Rightarrow> u32 \<Rightarrow> u32 \<Rightarrow> heap \<Rightarrow> heap" where
  "initialize_block b sz prev next =
     update_block b (\<lambda>_. \<lparr>blk_magic = HEAP_MAGIC, blk_size = sz, blk_prev = prev, blk_next = next,
                         blk_state = HEAP_STATE_FREE, blk_reserved = 0\<rparr>)"

definition validate_block :: "heap \<Rightarrow> u32 \<Rightarrow> bool" where
  "validate_block h b =
     (let blk = blocks h b; payload = payload_address b
      in \<not> (b < HEAP_VIRTUAL_START \<or> b > heap_end h - HEADER_SIZE \<or> blk_magic blk \<noteq> HEAP_MAGIC \<or>
            blk_state blk \<noteq> HEAP_STATE_FREE \<and> blk_state blk \<noteq> HEAP_STATE_ALLOCATED) \<and>
         \<not> (blk_size blk > heap_end h - payload \<or> blk_size blk AND (HEAP_ALIGNMENT - 1) \<noteq> 0) \<and>
         (if blk_next blk \<noteq> 0
          then \<not> (payload + blk_size blk > heap_end h - HEADER_SIZE \<or> blk_next blk \<noteq> payload + blk_size blk) \<and>
               blk_prev (blocks h (blk_next blk)) = b
          else payload + blk_size blk = heap_end h) \<and>
         (if blk_prev blk \<noteq> 0
          then \<not> (blk_prev blk < HEAP_VIRTUAL_START \<or> blk_prev blk > b - HEADER_SIZE \<or>
                  blk_magic (blocks h (blk_prev blk)) \<noteq> HEAP_MAGIC \<or>
                  blk_next (blocks h (blk_prev blk)) \<noteq> b \<or>
                  payload_address (blk_prev blk) + blk_size (blocks h (blk_prev blk)) \<noteq> b)
          else b = heap_head h))"

definition align_request :: "u32 \<Rightarrow> u32 option" where
  "align_request sz =
     (if sz = 0 \<or> sz > UINT32_MAX - (HEAP_ALIGNMENT - 1) then None
      else let v = (sz + (HEAP_ALIGNMENT - 1)) AND NOT (HEAP_ALIGNMENT - 1)
           in if v > HEAP_MAX_SIZE - HEADER_SIZE then None else Some v)"

text \<open>A validated block's successor lies above it, or below the heap, where validation fails.\<close>

definition walk_measure :: "u32 \<Rightarrow> nat" where
  "walk_measure b = (if b < HEAP_VIRTUAL_START then 0 else 4294967296 - unat b)"

lemma validate_block_next:
  assumes "validate_block h b"
  shows "walk_measure (blk_next (blocks h b)) < walk_measure b"
proof (cases "blk_next (blocks h b) = 0")
  case True
  then show ?thesis
    using assms unat_lt_2p32 [of b] by (auto simp: validate_block_def Let_def walk_measure_def not_less)
next
  case False
  let ?n = "blk_next (blocks h b)" and ?s = "blk_size (blocks h b)" and ?e = "heap_end h"
  have b: "\<not> b < HEAP_VIRTUAL_START" "b \<le> ?e - HEADER_SIZE" "?s \<le> ?e - (b + HEADER_SIZE)"
    "?n = b + HEADER_SIZE + ?s"
    using assms False by (auto simp: validate_block_def Let_def payload_address_def not_less split: if_splits)
  have le: "unat ?s \<le> unat (?e - (b + HEADER_SIZE))" "unat b \<le> unat (?e - HEADER_SIZE)"
    using b(2,3) by (simp_all add: word_le_nat_alt)
  have s: "unat (b + HEADER_SIZE) = (unat b + 24) mod 4294967296"
    "unat ?n = (unat (b + HEADER_SIZE) + unat ?s) mod 4294967296"
    unfolding b(4) by (simp_all add: unat_word_ariths)
  have lt: "unat b < 4294967296" "unat ?e < 4294967296" "unat ?s < 4294967296" "3506438144 \<le> unat b"
    using unat_lt_2p32 b(1) by (auto simp: word_less_nat_alt)
  have sub: "unat (x - y) = (if unat y \<le> unat x then unat x - unat y else 4294967296 + unat x - unat y)" for x y :: u32
    using unat_lt_2p32 [of x] unat_lt_2p32 [of y] by (auto simp: unat_sub_if_size word_size)
  have "unat ?n < 3506438144 \<or> unat b < unat ?n"
  proof (cases "24 \<le> unat ?e")
    case True
    then have "unat b + 24 \<le> unat ?e" using le(2) by (simp add: sub)
    then have "unat (b + HEADER_SIZE) = unat b + 24" using s(1) lt(2) by simp
    moreover from this have "unat b + 24 + unat ?s \<le> unat ?e"
      using le(1) \<open>unat b + 24 \<le> unat ?e\<close> by (simp add: sub)
    ultimately show ?thesis using s(2) lt(2) by simp
  next
    case False
    then have e: "unat ?e < 24" "unat b + 24 \<le> 4294967296 + unat ?e" using le(2) by (auto simp: sub)
    show ?thesis
    proof (cases "unat b + 24 < 4294967296")
      case True
      then have p: "unat (b + HEADER_SIZE) = unat b + 24" using s(1) by simp
      then have "unat b + 24 + unat ?s \<le> 4294967296 + unat ?e" using le(1) e(1) lt(4) True by (simp add: sub)
      then show ?thesis using s(2) p e(1) by (cases "unat b + 24 + unat ?s < 4294967296") (auto simp: le_mod_geq)
    next
      case False
      then have p: "unat (b + HEADER_SIZE) = unat b + 24 - 4294967296" using s(1) e by (simp add: le_mod_geq)
      then have "unat (b + HEADER_SIZE) \<le> unat ?e" using e(2) False by linarith
      then have "unat (b + HEADER_SIZE) + unat ?s \<le> unat ?e" using le(1) unfolding sub by simp
      then show ?thesis using s(2) e(1) by simp
    qed
  qed
  then show ?thesis using b(1) lt unat_lt_2p32 [of ?n] by (auto simp: walk_measure_def word_less_nat_alt)
qed

subsection \<open>Walking, splitting and merging\<close>

function heap_tail_from :: "heap \<Rightarrow> u32 \<Rightarrow> u32 option" where
  "heap_tail_from h b =
     (if blk_next (blocks h b) \<noteq> 0
      then if validate_block h b then heap_tail_from h (blk_next (blocks h b)) else None
      else if validate_block h b then Some b else None)"
  by pat_completeness auto
termination by (relation "measure (\<lambda>(h, b). walk_measure b)") (auto simp: validate_block_next)

definition heap_tail :: "heap \<Rightarrow> u32 option" where
  "heap_tail h = heap_tail_from h (heap_head h)"

function find_first_fit_from :: "heap \<Rightarrow> u32 \<Rightarrow> u32 \<Rightarrow> u32 option" where
  "find_first_fit_from h sz b =
     (if b = 0 then Some 0
      else if \<not> validate_block h b then None
      else if blk_state (blocks h b) = HEAP_STATE_FREE \<and> blk_size (blocks h b) \<ge> sz then Some b
      else find_first_fit_from h sz (blk_next (blocks h b)))"
  by pat_completeness auto
termination by (relation "measure (\<lambda>(h, sz, b). walk_measure b)") (auto simp: validate_block_next)

definition find_first_fit :: "heap \<Rightarrow> u32 \<Rightarrow> u32 option" where
  "find_first_fit h sz = find_first_fit_from h sz (heap_head h)"

definition split_block :: "u32 \<Rightarrow> u32 \<Rightarrow> heap \<Rightarrow> heap" where
  "split_block b sz h =
     (let remaining = blk_size (blocks h b) - sz
      in if remaining < HEADER_SIZE + HEAP_ALIGNMENT then h
         else let new_block = payload_address b + sz;
                  next = blk_next (blocks h b);
                  h = initialize_block new_block (remaining - HEADER_SIZE) b next h;
                  h = (if next \<noteq> 0 then update_block next (\<lambda>k. k\<lparr>blk_prev := new_block\<rparr>) h else h)
              in update_block b (\<lambda>k. k\<lparr>blk_next := new_block, blk_size := sz\<rparr>) h)"

definition merge_with_next :: "u32 \<Rightarrow> heap \<Rightarrow> heap option" where
  "merge_with_next b h =
     (let next = blk_next (blocks h b)
      in if \<not> validate_block h b then None
         else if next = 0 then Some h
         else if \<not> validate_block h next then None
         else if blk_state (blocks h next) \<noteq> HEAP_STATE_FREE then Some h
         else let nb = blocks h next;
                  h = update_block b (\<lambda>k. k\<lparr>blk_size := blk_size k + (HEADER_SIZE + blk_size nb),
                                          blk_next := blk_next nb\<rparr>) h;
                  h = (if blk_next nb \<noteq> 0 then update_block (blk_next nb) (\<lambda>k. k\<lparr>blk_prev := b\<rparr>) h else h)
              in Some (update_block next (\<lambda>k. k\<lparr>blk_magic := 0, blk_size := 0, blk_prev := 0, blk_next := 0,
                                               blk_state := 0\<rparr>) h))"

definition coalesce :: "u32 \<Rightarrow> heap \<Rightarrow> heap option" where
  "coalesce b h = do {
     h \<leftarrow> merge_with_next b h;
     let prev = blk_prev (blocks h b);
     if prev \<noteq> 0 \<and> \<not> validate_block h prev then None
     else if prev \<noteq> 0 \<and> blk_state (blocks h prev) = HEAP_STATE_FREE then merge_with_next prev h
     else Some h
   }"

subsection \<open>Growing\<close>

text \<open>
  The first loop of \<open>map_extension\<close>, with the number of pages still to map as an argument, and
  the rollback loop, counted down.
\<close>

fun map_extension_loop :: "u32 \<Rightarrow> nat \<Rightarrow> nat \<Rightarrow> machine \<Rightarrow> (nat \<times> machine) option" where
  "map_extension_loop start mapped 0 m = Some (mapped, m)"
| "map_extension_loop start mapped (Suc remaining) m =
     (case pmm_alloc (m_pmm m) of (physical, p) \<Rightarrow>
        let virtual_address = start + of_nat mapped * 4096; m1 = m\<lparr>m_pmm := p\<rparr>
        in if physical = 0 then Some (mapped, m1)
           else do {
             (ok, m2) \<leftarrow> vmm_map virtual_address physical VMM_WRITABLE m1;
             if \<not> ok then
               (case pmm_free physical (m_pmm m2) of (released, p) \<Rightarrow>
                  if released then Some (mapped, m2\<lparr>m_pmm := p\<rparr>) else None)
             else map_extension_loop start (Suc mapped) remaining m2
           })"

fun unmap_extension_loop :: "u32 \<Rightarrow> nat \<Rightarrow> machine \<Rightarrow> machine option" where
  "unmap_extension_loop start 0 m = Some m"
| "unmap_extension_loop start (Suc mapped) m = do {
     let virtual_address = start + of_nat mapped * 4096;
     (unmapped, m) \<leftarrow> vmm_unmap virtual_address m;
     case unmapped of
       None \<Rightarrow> None
     | Some physical \<Rightarrow>
         (case pmm_free physical (m_pmm m) of (released, p) \<Rightarrow>
            if released then unmap_extension_loop start mapped (m\<lparr>m_pmm := p\<rparr>) else None)
   }"

definition map_extension :: "u32 \<Rightarrow> u32 \<Rightarrow> machine \<Rightarrow> (bool \<times> machine) option" where
  "map_extension start page_count m = do {
     (mapped, m) \<leftarrow> map_extension_loop start 0 (unat page_count) m;
     if mapped = unat page_count then Some (True, m)
     else do {
       m \<leftarrow> unmap_extension_loop start mapped m;
       Some (False, m)
     }
   }"

definition grow_heap :: "u32 \<Rightarrow> heap \<Rightarrow> (bool \<times> heap) option" where
  "grow_heap sz h = do {
     tail \<leftarrow> heap_tail h;
     let available_size = heap_mapped_pages h * 4096;
     let old_end = heap_end h;
     let tail_free = (blk_state (blocks h tail) = HEAP_STATE_FREE);
     if tail_free \<and> blk_size (blocks h tail) \<ge> sz then Some (True, h)
     else if \<not> tail_free \<and> sz > UINT32_MAX - HEADER_SIZE then Some (False, h)
     else let required = (if tail_free then sz - blk_size (blocks h tail) else sz + HEADER_SIZE);
              page_count = (required + 4096 - 1) div 4096
          in if page_count > (HEAP_MAX_SIZE - available_size) div 4096 then Some (False, h)
             else do {
               (ok, m) \<leftarrow> map_extension old_end page_count (mach h);
               let h = h\<lparr>mach := m\<rparr>;
               if \<not> ok then Some (False, h)
               else let mapped_bytes = page_count * 4096;
                        h = h\<lparr>heap_end := heap_end h + mapped_bytes,
                              heap_mapped_pages := heap_mapped_pages h + page_count\<rparr>
                    in if blk_state (blocks h tail) = HEAP_STATE_FREE
                       then Some (True, update_block tail (\<lambda>k. k\<lparr>blk_size := blk_size k + mapped_bytes\<rparr>) h)
                       else Some (True, update_block tail (\<lambda>k. k\<lparr>blk_next := old_end\<rparr>)
                              (initialize_block old_end (mapped_bytes - HEADER_SIZE) tail 0 h))
             }
   }"

subsection \<open>The interface\<close>

definition heap_init :: "heap \<Rightarrow> heap option" where
  "heap_init h =
     (if heap_initialized h then None
      else case pmm_alloc (m_pmm (mach h)) of (physical, p) \<Rightarrow>
        let m = (mach h)\<lparr>m_pmm := p\<rparr>
        in if physical = 0 then None
           else do {
             (ok, m) \<leftarrow> vmm_map HEAP_VIRTUAL_START physical VMM_WRITABLE m;
             if \<not> ok then None
             else let h = h\<lparr>mach := m, heap_end := HEAP_VIRTUAL_START + 4096, heap_mapped_pages := 1,
                            heap_head := HEAP_VIRTUAL_START\<rparr>;
                      h = initialize_block (heap_head h) (4096 - HEADER_SIZE) 0 0 h
                  in Some (h\<lparr>heap_initialized := True\<rparr>)
           })"

definition heap_irq_save :: "heap \<Rightarrow> u32 \<times> heap" where
  "heap_irq_save h = (case irq_save_disable (mach h) of (flags, m) \<Rightarrow> (flags, h\<lparr>mach := m\<rparr>))"

definition heap_irq_restore :: "u32 \<Rightarrow> heap \<Rightarrow> heap" where
  "heap_irq_restore flags h = h\<lparr>mach := irq_restore flags (mach h)\<rparr>"

text \<open>The part of \<open>kmalloc\<close> from the search to the block it takes; 0 for \<open>goto done\<close>.\<close>

definition kmalloc_block :: "u32 \<Rightarrow> heap \<Rightarrow> (u32 \<times> heap) option" where
  "kmalloc_block aligned h = do {
     b \<leftarrow> find_first_fit h aligned;
     if b \<noteq> 0 then Some (b, h)
     else do {
       (ok, h) \<leftarrow> grow_heap aligned h;
       if \<not> ok then Some (0, h)
       else do {
         b \<leftarrow> find_first_fit h aligned;
         if b = 0 then None else Some (b, h)
       }
     }
   }"

definition kmalloc :: "u32 \<Rightarrow> heap \<Rightarrow> (u32 \<times> heap) option" where
  "kmalloc sz h =
     (case heap_irq_save h of (flags, h) \<Rightarrow>
        if \<not> heap_initialized h then Some (0, heap_irq_restore flags h)
        else case align_request sz of
          None \<Rightarrow> Some (0, heap_irq_restore flags h)
        | Some aligned \<Rightarrow> do {
            (b, h) \<leftarrow> kmalloc_block aligned h;
            if b = 0 then Some (0, heap_irq_restore flags h)
            else let h = split_block b aligned h;
                     h = update_block b (\<lambda>k. k\<lparr>blk_state := HEAP_STATE_ALLOCATED\<rparr>) h
                 in Some (payload_address b, heap_irq_restore flags h)
          })"

function kfree_from :: "u32 \<Rightarrow> u32 \<Rightarrow> heap \<Rightarrow> (bool \<times> heap) option" where
  "kfree_from address b h =
     (if b = 0 then Some (False, h)
      else if \<not> validate_block h b then None
      else if payload_address b = address then
        if blk_state (blocks h b) \<noteq> HEAP_STATE_ALLOCATED then Some (False, h)
        else do {
          h \<leftarrow> coalesce b (update_block b (\<lambda>k. k\<lparr>blk_state := HEAP_STATE_FREE\<rparr>) h);
          Some (True, h)
        }
      else kfree_from address (blk_next (blocks h b)) h)"
  by pat_completeness auto
termination by (relation "measure (\<lambda>(a, b, h). walk_measure b)") (auto simp: validate_block_next)

definition kfree :: "u32 \<Rightarrow> heap \<Rightarrow> (bool \<times> heap) option" where
  "kfree pointer h =
     (case heap_irq_save h of (flags, h) \<Rightarrow>
        if pointer = 0 then Some (True, heap_irq_restore flags h)
        else if \<not> heap_initialized h then Some (False, heap_irq_restore flags h)
        else if pointer < HEAP_VIRTUAL_START + HEADER_SIZE \<or> pointer \<ge> heap_end h \<or>
                pointer AND (HEAP_ALIGNMENT - 1) \<noteq> 0
        then Some (False, heap_irq_restore flags h)
        else do {
          (r, h) \<leftarrow> kfree_from pointer (heap_head h) h;
          Some (r, heap_irq_restore flags h)
        })"

definition count_block :: "heap_block \<Rightarrow> heap_stats \<Rightarrow> heap_stats" where
  "count_block k s =
     (if blk_state k = HEAP_STATE_FREE
      then s\<lparr>stat_free_blocks := stat_free_blocks s + 1, stat_free_bytes := stat_free_bytes s + blk_size k\<rparr>
      else s\<lparr>stat_allocated_blocks := stat_allocated_blocks s + 1,
             stat_allocated_bytes := stat_allocated_bytes s + blk_size k\<rparr>)"

function heap_stats_from :: "heap \<Rightarrow> u32 \<Rightarrow> heap_stats \<Rightarrow> heap_stats option" where
  "heap_stats_from h b s =
     (if b = 0 then Some s
      else if \<not> validate_block h b then None
      else heap_stats_from h (blk_next (blocks h b)) (count_block (blocks h b) s))"
  by pat_completeness auto
termination by (relation "measure (\<lambda>(h, b, s). walk_measure b)") (auto simp: validate_block_next)

definition heap_get_stats :: "heap \<Rightarrow> heap_stats option" where
  "heap_get_stats h =
     (let stats = \<lparr>stat_mapped_pages = 0, stat_allocated_blocks = 0, stat_free_blocks = 0,
                   stat_allocated_bytes = 0, stat_free_bytes = 0\<rparr>
      in if \<not> heap_initialized h then Some stats
         else heap_stats_from h (heap_head h) (stats\<lparr>stat_mapped_pages := heap_mapped_pages h\<rparr>))"

declare heap_tail_from.simps [simp del] find_first_fit_from.simps [simp del] kfree_from.simps [simp del]
  heap_stats_from.simps [simp del]

end
