(* ===== verification/Heap_Layout.thy ===== *)
theory Heap_Layout
  imports Heap
begin

text \<open>
  The block list of the kernel heap as a list of payload sizes: what the walks of \<open>kernel/mm/heap.c\<close>
  find and what its surgery on the headers (splitting, merging, changing a state) does to that list.
\<close>

subsection \<open>The layout of the heap\<close>

text \<open>
  A layout is the list of the blocks from the start of the heap, each with the size of its payload
  and whether it is allocated. \<open>chain B p a bs nxt\<close> says that the headers of the blocks \<open>bs\<close> lie in
  the store \<open>B\<close> one after the other from address \<open>a\<close>, linked in both directions; \<open>p\<close> is the
  predecessor of the first and \<open>nxt\<close> the successor of the last.
\<close>

type_synonym layout = "(nat \<times> bool) list"

fun extent :: "layout \<Rightarrow> nat" where
  "extent [] = 0"
| "extent ((sz, al) # bs) = 24 + sz + extent bs"

fun chain :: "(u32 \<Rightarrow> heap_block) \<Rightarrow> u32 \<Rightarrow> nat \<Rightarrow> layout \<Rightarrow> u32 \<Rightarrow> bool" where
  "chain B p a [] nxt = True"
| "chain B p a ((sz, al) # bs) nxt =
     (blk_magic (B (of_nat a)) = HEAP_MAGIC \<and> blk_size (B (of_nat a)) = of_nat sz \<and> blk_prev (B (of_nat a)) = p \<and>
      blk_next (B (of_nat a)) = (if bs = [] then nxt else of_nat (a + 24 + sz)) \<and>
      blk_state (B (of_nat a)) = (if al then HEAP_STATE_ALLOCATED else HEAP_STATE_FREE) \<and>
      chain B (of_nat a) (a + 24 + sz) bs nxt)"

fun coalesced :: "layout \<Rightarrow> bool" where
  "coalesced ((s1, a1) # (s2, a2) # bs) = ((a1 \<or> a2) \<and> coalesced ((s2, a2) # bs))"
| "coalesced bs = True"

definition sizes_ok :: "layout \<Rightarrow> bool" where
  "sizes_ok bs \<longleftrightarrow> (\<forall>(sz, al) \<in> set bs. 8 \<le> sz \<and> sz mod 8 = 0)"

abbreviation heap_base :: nat where "heap_base \<equiv> 3506438144"

definition last_addr :: "u32 \<Rightarrow> nat \<Rightarrow> layout \<Rightarrow> u32" where
  "last_addr p a bs = (if bs = [] then p else of_nat (a + extent (butlast bs)))"

lemma extent_append [simp]: "extent (xs @ ys) = extent xs + extent ys"
  by (induction xs rule: extent.induct) simp_all

lemma chain_append:
  "chain B p a (xs @ ys) nxt \<longleftrightarrow>
     chain B p a xs (if ys = [] then nxt else of_nat (a + extent xs)) \<and>
     chain B (last_addr p a xs) (a + extent xs) ys nxt"
proof (induction xs arbitrary: p a)
  case Nil
  then show ?case by (simp add: last_addr_def)
next
  case (Cons x xs)
  obtain sz al where x: "x = (sz, al)" by (cases x)
  have "last_addr (of_nat a) (a + 24 + sz) xs = last_addr p a (x # xs)"
    by (cases xs) (simp_all add: last_addr_def x add.assoc [symmetric])
  then show ?case using Cons [of "of_nat a" "a + 24 + sz"] by (auto simp: x add.assoc [symmetric])
qed

lemma of_nat_addr_eq: "x < 4294967296 \<Longrightarrow> y < 4294967296 \<Longrightarrow> (of_nat x = (of_nat y :: u32)) \<longleftrightarrow> x = y"
  by (metis unat_of_nat32)

text \<open>A header outside the extent of a chain does not matter to it.\<close>

lemma chain_upd_out:
  assumes "w < 4294967296" and "a + extent bs \<le> 4294967296" and "w < a \<or> a + extent bs \<le> w"
  shows "chain (B(of_nat w := k)) p a bs nxt \<longleftrightarrow> chain B p a bs nxt"
  using assms
proof (induction bs arbitrary: p a)
  case (Cons x bs)
  obtain sz al where x: "x = (sz, al)" by (cases x)
  have "of_nat a \<noteq> (of_nat w :: u32)" using Cons.prems by (subst of_nat_addr_eq) (auto simp: x)
  then show ?case using Cons.IH [of "a + 24 + sz" "of_nat a"] Cons.prems by (auto simp: x)
qed simp

lemma chain_set_prev:
  assumes "chain B p a (x # bs) nxt" and "a + extent (x # bs) \<le> 4294967296"
  shows "chain (B(of_nat a := (B (of_nat a))\<lparr>blk_prev := q\<rparr>)) q a (x # bs) nxt"
proof -
  obtain sz al where x: "x = (sz, al)" by (cases x)
  show ?thesis using assms chain_upd_out [of a "a + 24 + sz" bs] by (simp add: x)
qed

lemma chain_set_next:
  assumes "chain B p a (xs @ [(sz, al)]) nxt" and "a + extent (xs @ [(sz, al)]) \<le> 4294967296" and "w = of_nat (a + extent xs)"
  shows "chain (B(w := (B w)\<lparr>blk_next := n\<rparr>)) p a (xs @ [(sz, al)]) n"
  using assms chain_upd_out [of "a + extent xs" a xs] by (simp add: chain_append)

text \<open>The heap \<open>h\<close> has the layout \<open>bs\<close>.\<close>

definition heap_layout :: "heap \<Rightarrow> layout \<Rightarrow> bool" where
  "heap_layout h bs \<longleftrightarrow> heap_initialized h \<and> heap_head h = of_nat heap_base \<and> bs \<noteq> [] \<and>
     chain (blocks h) 0 heap_base bs 0 \<and> sizes_ok bs \<and> extent bs \<le> 16777216 \<and>
     heap_end h = of_nat (heap_base + extent bs)"

lemma sizes_ok_simps [simp]:
  "sizes_ok []" "sizes_ok ((sz, al) # bs) \<longleftrightarrow> 8 \<le> sz \<and> sz mod 8 = 0 \<and> sizes_ok bs"
  "sizes_ok (xs @ ys) \<longleftrightarrow> sizes_ok xs \<and> sizes_ok ys"
  by (auto simp: sizes_ok_def)

lemma unat_addr: "x \<le> 16777216 \<Longrightarrow> unat (of_nat (heap_base + x) :: u32) = heap_base + x"
  by (subst unat_of_nat32) auto

lemma unat_small: "x \<le> 16777216 \<Longrightarrow> unat (of_nat x :: u32) = x"
  by (subst unat_of_nat32) auto

text \<open>What the store holds at a block in the middle of the layout.\<close>

lemma layout_block:
  assumes "heap_layout h (ps @ (sz, al) # qs)"
  defines "a \<equiv> heap_base + extent ps"
  shows "blk_magic (blocks h (of_nat a)) = HEAP_MAGIC" and "blk_size (blocks h (of_nat a)) = of_nat sz"
    and "blk_next (blocks h (of_nat a)) = (if qs = [] then 0 else of_nat (a + 24 + sz))"
    and "blk_state (blocks h (of_nat a)) = (if al then HEAP_STATE_ALLOCATED else HEAP_STATE_FREE)"
    and "blk_prev (blocks h (of_nat a)) = last_addr 0 heap_base ps"
    and "a + 24 + sz + extent qs = heap_base + extent (ps @ (sz, al) # qs)"
    and "extent ps \<le> 16777216" and "sz \<le> 16777216" and "extent ps + 24 + sz + extent qs \<le> 16777216"
    and "unat (of_nat a :: u32) = a" and "of_nat a \<noteq> (0 :: u32)" and "8 \<le> sz" and "sz mod 8 = 0"
proof -
  have c: "chain (blocks h) (last_addr 0 heap_base ps) a ((sz, al) # qs) 0" and e: "extent (ps @ (sz, al) # qs) \<le> 16777216"
    and s: "8 \<le> sz" "sz mod 8 = 0"
    using assms(1) by (auto simp: heap_layout_def chain_append a_def)
  then show "blk_magic (blocks h (of_nat a)) = HEAP_MAGIC" "blk_size (blocks h (of_nat a)) = of_nat sz"
    "blk_next (blocks h (of_nat a)) = (if qs = [] then 0 else of_nat (a + 24 + sz))"
    "blk_state (blocks h (of_nat a)) = (if al then HEAP_STATE_ALLOCATED else HEAP_STATE_FREE)"
    "blk_prev (blocks h (of_nat a)) = last_addr 0 heap_base ps" by simp_all
  show "a + 24 + sz + extent qs = heap_base + extent (ps @ (sz, al) # qs)" by (simp add: a_def)
  show "extent ps \<le> 16777216" "sz \<le> 16777216" "extent ps + 24 + sz + extent qs \<le> 16777216" using e by auto
  then show u: "unat (of_nat a :: u32) = a" unfolding a_def by (intro unat_addr) simp
  show "of_nat a \<noteq> (0 :: u32)" using u by (auto simp: a_def word_unat_eq_iff)
  show "8 \<le> sz" "sz mod 8 = 0" by (fact s)+
qed

lemma extent_pos: "qs \<noteq> [] \<Longrightarrow> 24 \<le> extent qs"
  by (cases qs rule: extent.cases) auto

lemma validate_layout:
  assumes lay: "heap_layout h (ps @ (sz, al) # qs)"
  shows "validate_block h (of_nat (heap_base + extent ps))"
proof -
  define a where "a = heap_base + extent ps"
  define e where "e = heap_base + extent (ps @ (sz, al) # qs)"
  note b = layout_block [OF lay, folded a_def e_def]
  have he: "heap_end h = of_nat e" using lay by (simp add: heap_layout_def e_def)
  have ue: "unat (of_nat e :: u32) = e" unfolding e_def using b(9) by (intro unat_addr) simp
  have le: "a + 24 + sz \<le> e" using b(6) by simp
  have ae: "e \<le> heap_base + 16777216" using b(6,9) by (simp add: a_def)
  have up: "unat (of_nat a + HEADER_SIZE :: u32) = a + 24" "unat (of_nat sz :: u32) = sz"
    "unat (of_nat a + HEADER_SIZE + of_nat sz :: u32) = a + 24 + sz"
    using b(8,10) le ae by (simp_all add: unat_word_ariths unat_small)
  have sub: "unat (of_nat e - HEADER_SIZE :: u32) = e - 24" "unat (of_nat e - (of_nat a + HEADER_SIZE) :: u32) = e - (a + 24)"
    using ue up le by (simp_all add: unat_sub_if_size word_size)
  have p1: "\<not> (of_nat a < HEAP_VIRTUAL_START \<or> of_nat a > heap_end h - HEADER_SIZE)"
    using b(10) sub le by (simp add: he word_less_nat_alt a_def)
  have "(of_nat sz :: u32) AND 7 = 0" using unat_and_7 [of "of_nat sz"] up(2) b(13) by (simp add: unat_eq_0)
  then have p2: "\<not> (of_nat sz > heap_end h - (of_nat a + HEADER_SIZE) \<or> (of_nat sz :: u32) AND 7 \<noteq> 0)"
    using sub up le by (simp add: he word_less_nat_alt)
  have p3: "if qs = [] then of_nat a + HEADER_SIZE + of_nat sz = heap_end h
    else \<not> of_nat a + HEADER_SIZE + of_nat sz > heap_end h - HEADER_SIZE \<and>
         (of_nat (a + 24 + sz) :: u32) = of_nat a + HEADER_SIZE + of_nat sz \<and> (of_nat (a + 24 + sz) :: u32) \<noteq> 0 \<and>
         blk_prev (blocks h (of_nat (a + 24 + sz))) = of_nat a"
  proof (cases qs)
    case Nil
    then show ?thesis using up(3) ue b(6) by (simp add: he word_unat_eq_iff)
  next
    case (Cons y qs')
    have "(of_nat (a + 24 + sz) :: u32) \<noteq> 0" using up(3) by (auto simp: word_unat_eq_iff a_def add_ac)
    moreover have "blk_prev (blocks h (of_nat (a + 24 + sz))) = of_nat a"
      using layout_block(5) [of h "ps @ [(sz, al)]" "fst y" "snd y" qs'] lay Cons
      by (simp add: a_def last_addr_def add.assoc)
    moreover have "a + 24 + sz \<le> e - 24" using b(6) extent_pos [of qs] Cons by simp
    ultimately show ?thesis using Cons sub(1) up(3) by (simp add: he word_less_nat_alt add_ac)
  qed
  have p4: "if ps = [] then of_nat a = heap_head h else
    (let q = last_addr 0 heap_base ps in q \<noteq> 0 \<and>
      \<not> (q < HEAP_VIRTUAL_START \<or> q > of_nat a - HEADER_SIZE \<or> blk_magic (blocks h q) \<noteq> HEAP_MAGIC \<or>
         blk_next (blocks h q) \<noteq> of_nat a \<or> q + HEADER_SIZE + blk_size (blocks h q) \<noteq> of_nat a))"
  proof (cases ps rule: rev_cases)
    case Nil
    then show ?thesis using lay by (simp add: a_def heap_layout_def)
  next
    case (snoc ps' y)
    obtain s0 l0 where y: "y = (s0, l0)" by (cases y)
    have lay': "heap_layout h (ps' @ (s0, l0) # (sz, al) # qs)" using lay snoc y by simp
    define c where "c = heap_base + extent ps'"
    note q = layout_block [OF lay', folded c_def]
    have q0: "last_addr 0 heap_base ps = of_nat c" using snoc by (simp add: last_addr_def c_def)
    have ca: "a = c + 24 + s0" by (simp add: a_def c_def snoc y)
    have ua: "unat (of_nat a - HEADER_SIZE :: u32) = a - 24"
      using b(10) ca by (subst unat_sub) (auto simp: word_le_nat_alt)
    have "\<not> of_nat c < HEAP_VIRTUAL_START" using q(10) by (simp add: word_less_nat_alt c_def)
    moreover have "\<not> of_nat c > (of_nat a - HEADER_SIZE :: u32)" using q(10) ua ca by (simp add: word_less_nat_alt)
    moreover have "blk_next (blocks h (of_nat c)) = of_nat a" using q(3) by (simp add: ca)
    moreover have "of_nat c + HEADER_SIZE + blk_size (blocks h (of_nat c)) = of_nat a" using q(2) by (simp add: ca)
    ultimately show ?thesis using q(1,11) snoc unfolding q0 Let_def by simp
  qed
  have z: "last_addr 0 heap_base ps = 0 \<longleftrightarrow> ps = []" using p4 by (auto simp: Let_def last_addr_def)
  show ?thesis
    unfolding a_def [symmetric] validate_block_def Let_def payload_address_def b(1-5)
    using p1 p2 p3 p4 z by (cases "ps = []"; cases "qs = []") (simp_all add: Let_def)
qed

subsection \<open>The walks over a layout\<close>

text \<open>The first free block of at least \<open>n\<close> bytes, with the blocks before and after it.\<close>

fun fit_split :: "nat \<Rightarrow> layout \<Rightarrow> (layout \<times> nat \<times> layout) option" where
  "fit_split n [] = None"
| "fit_split n ((sz, al) # bs) =
     (if \<not> al \<and> n \<le> sz then Some ([], sz, bs)
      else map_option (\<lambda>(ps, s, qs). ((sz, al) # ps, s, qs)) (fit_split n bs))"

lemma fit_split_Some:
  "fit_split n bs = Some (ps, s, qs) \<Longrightarrow> bs = ps @ (s, False) # qs \<and> n \<le> s"
  by (induction bs arbitrary: ps) (auto split: if_splits)

lemma fit_split_None: "fit_split n bs = None \<longleftrightarrow> (\<forall>(s, al) \<in> set bs. al \<or> s < n)"
  by (induction bs rule: fit_split.induct) (auto split: if_splits)

text \<open>The block at offset \<open>x\<close>, counted from \<open>a\<close>, with the blocks before and after it.\<close>

fun block_split :: "nat \<Rightarrow> nat \<Rightarrow> layout \<Rightarrow> (layout \<times> (nat \<times> bool) \<times> layout) option" where
  "block_split x a [] = None"
| "block_split x a ((sz, al) # bs) =
     (if x = a then Some ([], (sz, al), bs)
      else map_option (\<lambda>(ps, s, qs). ((sz, al) # ps, s, qs)) (block_split x (a + 24 + sz) bs))"

lemma block_split_Some:
  "block_split x a bs = Some (ps, b, qs) \<Longrightarrow> bs = ps @ b # qs \<and> x = a + extent ps"
proof (induction bs arbitrary: a ps)
  case (Cons y bs)
  obtain sz al where y: "y = (sz, al)" by (cases y)
  show ?case
  proof (cases "x = a")
    case False
    then obtain ps' where "block_split x (a + 24 + sz) bs = Some (ps', b, qs)" "ps = y # ps'"
      using Cons.prems by (auto simp: y)
    then show ?thesis using Cons.IH [of "a + 24 + sz" ps'] by (simp add: y)
  qed (use Cons.prems in \<open>auto simp: y\<close>)
qed simp

lemma block_split_append:
  "block_split (a + extent ps) a (ps @ b # qs) = Some (ps, b, qs)"
proof (induction ps arbitrary: a)
  case Nil
  then show ?case by (cases b) simp
next
  case (Cons x ps)
  obtain sz al where x: "x = (sz, al)" by (cases x)
  show ?case using Cons.IH [of "a + 24 + sz"] by (simp add: x add.assoc)
qed

lemma find_first_fit_layout:
  assumes "heap_layout h (ps @ qs)" and "n \<le> 16777216"
  shows "find_first_fit_from h (of_nat n) (if qs = [] then 0 else of_nat (heap_base + extent ps)) =
    Some (case fit_split n qs of None \<Rightarrow> 0 | Some (xs, s, ys) \<Rightarrow> of_nat (heap_base + extent (ps @ xs)))"
  using assms(1)
proof (induction qs arbitrary: ps)
  case Nil
  then show ?case by (simp add: find_first_fit_from.simps)
next
  case (Cons q qs)
  obtain sz al where q: "q = (sz, al)" by (cases q)
  let ?a = "of_nat (heap_base + extent ps) :: u32"
  have lay: "heap_layout h (ps @ (sz, al) # qs)" using Cons.prems q by simp
  note b = layout_block [OF lay]
  have v: "validate_block h ?a" by (rule validate_layout [OF lay])
  have nx: "blk_next (blocks h ?a) = (if qs = [] then 0 else of_nat (heap_base + extent (ps @ [q])))"
    using b(3) by (simp add: q add.assoc)
  have fit: "(blk_state (blocks h ?a) = HEAP_STATE_FREE \<and> blk_size (blocks h ?a) \<ge> of_nat n) \<longleftrightarrow> \<not> al \<and> n \<le> sz"
    using b(2,4,8) assms(2) by (simp add: word_le_nat_alt unat_small)
  have step: "find_first_fit_from h (of_nat n) ?a =
    (if \<not> al \<and> n \<le> sz then Some ?a else find_first_fit_from h (of_nat n) (blk_next (blocks h ?a)))"
    using b(11) v fit by (subst find_first_fit_from.simps) (simp only: if_False if_True simp_thms)
  show ?case
  proof (cases "\<not> al \<and> n \<le> sz")
    case True
    then show ?thesis using step by (simp add: q)
  next
    case False
    have "fit_split n (q # qs) = map_option (\<lambda>(xs, s, ys). (q # xs, s, ys)) (fit_split n qs)"
      using False by (simp only: q fit_split.simps if_False)
    moreover have "find_first_fit_from h (of_nat n) ?a =
      Some (case fit_split n qs of None \<Rightarrow> 0 | Some (xs, s, ys) \<Rightarrow> of_nat (heap_base + extent ((ps @ [q]) @ xs)))"
      using step Cons.IH [of "ps @ [q]"] Cons.prems False nx by simp
    ultimately show ?thesis by (simp split: option.split)
  qed
qed

lemma heap_tail_layout:
  assumes "heap_layout h (ps @ qs @ [q])"
  shows "heap_tail_from h (of_nat (heap_base + extent ps)) = Some (of_nat (heap_base + extent (ps @ qs)))"
  using assms
proof (induction qs arbitrary: ps)
  case Nil
  then show ?case
    using layout_block(3) [of h ps "fst q" "snd q" "[]"] validate_layout [of h ps "fst q" "snd q" "[]"]
    by (subst heap_tail_from.simps) simp
next
  case (Cons x qs)
  obtain sz al where x: "x = (sz, al)" by (cases x)
  let ?a = "of_nat (heap_base + extent ps) :: u32"
  have lay: "heap_layout h (ps @ (sz, al) # qs @ [q])" using Cons.prems x by simp
  obtain y ys where y: "qs @ [q] = y # ys" by (cases "qs @ [q]") auto
  have nz: "of_nat (heap_base + extent (ps @ [x])) \<noteq> (0 :: u32)"
    using layout_block(11) [of h "ps @ [x]" "fst y" "snd y" ys] lay y x by simp
  have nx: "blk_next (blocks h ?a) = of_nat (heap_base + extent (ps @ [x]))"
    using layout_block(3) [OF lay] by (simp add: x add.assoc)
  show ?case
    using Cons.IH [of "ps @ [x]"] Cons.prems validate_layout [OF lay] nz
    by (subst heap_tail_from.simps) (simp only: nx if_True simp_thms, simp)
qed

subsection \<open>Changing blocks of a layout\<close>

lemma heap_layout_with_blocks:
  assumes "heap_layout h bs" and "chain B' 0 heap_base bs' 0" and "sizes_ok bs'" and "extent bs' = extent bs" and "bs' \<noteq> []"
  shows "heap_layout (h\<lparr>blocks := B'\<rparr>) bs'"
  using assms by (simp add: heap_layout_def)

lemma layout_parts:
  assumes "heap_layout h (ps @ (sz, al) # qs)"
  shows "chain (blocks h) 0 heap_base ps (of_nat (heap_base + extent ps))"
    and "chain (blocks h) (of_nat (heap_base + extent ps)) (heap_base + extent ps + 24 + sz) qs 0"
    and "heap_base + extent (ps @ (sz, al) # qs) \<le> 3523215360"
    and "sizes_ok ps" "sizes_ok qs"
  using assms by (auto simp: heap_layout_def chain_append last_addr_def)

lemma update_block_blocks: "update_block b f h = h\<lparr>blocks := (blocks h)(b := f (blocks h b))\<rparr>"
  by (rule update_block_def)

lemma set_state_layout:
  assumes "heap_layout h (ps @ (sz, al) # qs)"
  shows "heap_layout (update_block (of_nat (heap_base + extent ps))
      (\<lambda>k. k\<lparr>blk_state := (if al' then HEAP_STATE_ALLOCATED else HEAP_STATE_FREE)\<rparr>) h) (ps @ (sz, al') # qs)"
proof -
  let ?a = "heap_base + extent ps" and ?B = "blocks h"
  note p = layout_parts [OF assms] and b = layout_block [OF assms]
  have lt: "?a < 4294967296" "?a + 24 + sz + extent qs \<le> 4294967296" using p(3) by simp_all
  have "chain (?B(of_nat ?a := k)) 0 heap_base ps (of_nat ?a)" for k
    using p(1) lt by (subst chain_upd_out) simp_all
  moreover have "chain (?B(of_nat ?a := k)) (of_nat ?a) (?a + 24 + sz) qs 0" for k
    using p(2) lt by (subst chain_upd_out) simp_all
  ultimately show ?thesis
    unfolding update_block_blocks
    using b p by (intro heap_layout_with_blocks [OF assms]) (simp_all add: chain_append)
qed

text \<open>The rest of the list after a block, when the address of its predecessor changes.\<close>

lemma chain_relink:
  assumes "chain B p c qs 0" and "c + extent qs \<le> 4294967296" and "nx = (if qs = [] then 0 else of_nat c)"
    and "nx \<noteq> 0 \<or> qs = []"
  shows "chain (if nx \<noteq> 0 then B(nx := (B nx)\<lparr>blk_prev := q\<rparr>) else B) q c qs 0"
  using assms chain_set_prev [of B p c "hd qs" "tl qs" 0 q] by (cases qs) auto

lemma split_layout:
  assumes lay: "heap_layout h (ps @ (s, al) # qs)" and n: "8 \<le> n" "n mod 8 = 0" "n + 32 \<le> s"
  shows "\<exists>B'. split_block (of_nat (heap_base + extent ps)) (of_nat n) h = h\<lparr>blocks := B'\<rparr> \<and>
    heap_layout (h\<lparr>blocks := B'\<rparr>) (ps @ (n, al) # (s - n - 24, False) # qs)"
proof -
  define a where "a = heap_base + extent ps"
  define c where "c = a + 24 + n"
  define e where "e = a + 24 + s"
  define nx :: u32 where "nx = (if qs = [] then 0 else of_nat e)"
  define new where "new = \<lparr>blk_magic = HEAP_MAGIC, blk_size = of_nat (s - n - 24), blk_prev = of_nat a,
    blk_next = nx, blk_state = HEAP_STATE_FREE, blk_reserved = 0\<rparr>"
  define B1 where "B1 = (blocks h)(of_nat c := new)"
  define B2 where "B2 = (if nx \<noteq> 0 then B1(nx := (B1 nx)\<lparr>blk_prev := of_nat c\<rparr>) else B1)"
  define B3 where "B3 = B2(of_nat a := (B2 (of_nat a))\<lparr>blk_next := of_nat c, blk_size := of_nat n\<rparr>)"
  note p = layout_parts [OF lay, folded a_def] and b = layout_block [OF lay, folded a_def]
  have e_le: "e + extent qs \<le> 3523215360" and ae: "a < c" "c < e" "c + 24 + (s - n - 24) = e" "heap_base \<le> a"
    using p(3) n(3) by (simp_all add: e_def a_def c_def)
  have nx: "nx = blk_next (blocks h (of_nat a))" using b(3) by (simp add: nx_def e_def)
  have nxe: "nx \<noteq> 0 \<or> qs = []" using e_le ae by (auto simp: nx_def word_unat_eq_iff unat_of_nat32)
  have ne: "of_nat a \<noteq> (of_nat c :: u32)" "of_nat e \<noteq> (of_nat c :: u32)" "of_nat e \<noteq> (of_nat a :: u32)"
    using e_le ae by (simp_all add: of_nat_addr_eq)
  have Ba: "B2 (of_nat a) = blocks h (of_nat a)" "B2 (of_nat c) = new"
    using ne by (auto simp: B2_def B1_def nx_def)
  have rem: "blk_size (blocks h (of_nat a)) - of_nat n = of_nat (s - n)"
    using b(2) n(3) by (simp add: of_nat_diff)
  have rem24: "of_nat (s - n) - HEADER_SIZE = (of_nat (s - n - 24) :: u32)"
    using n(3) by (simp add: of_nat_diff)
  have big: "\<not> (of_nat (s - n) :: u32) < HEADER_SIZE + HEAP_ALIGNMENT"
  proof -
    have "unat (of_nat (s - n) :: u32) = s - n" using b(8) by (intro unat_small) simp
    then show ?thesis unfolding word_less_nat_alt using n(3) by simp
  qed
  have addr: "of_nat a + HEADER_SIZE + of_nat n = (of_nat c :: u32)" by (simp add: c_def)
  have h1: "initialize_block (of_nat c) (of_nat (s - n - 24)) (of_nat a) nx h = h\<lparr>blocks := B1\<rparr>"
    by (simp add: initialize_block_def update_block_blocks B1_def new_def)
  have h2: "(if nx \<noteq> 0 then update_block nx (\<lambda>k. k\<lparr>blk_prev := of_nat c\<rparr>) (h\<lparr>blocks := B1\<rparr>) else h\<lparr>blocks := B1\<rparr>) = h\<lparr>blocks := B2\<rparr>"
    by (simp add: update_block_blocks B2_def)
  have h3: "update_block (of_nat a) (\<lambda>k. k\<lparr>blk_next := of_nat c, blk_size := of_nat n\<rparr>) (h\<lparr>blocks := B2\<rparr>) = h\<lparr>blocks := B3\<rparr>"
    by (simp add: update_block_blocks B3_def)
  have "split_block (of_nat a) (of_nat n) h = h\<lparr>blocks := B3\<rparr>"
    unfolding split_block_def Let_def rem rem24 if_not_P [OF big] nx [symmetric] payload_address_def addr h1 h2 h3 ..
  moreover have "heap_layout (h\<lparr>blocks := B3\<rparr>) (ps @ (n, al) # (s - n - 24, False) # qs)"
  proof (rule heap_layout_with_blocks [OF lay])
    have q1: "chain B1 (of_nat a) e qs 0"
      unfolding B1_def using p(2) e_le ae by (subst chain_upd_out) (simp_all add: e_def)
    have q2: "chain B2 (of_nat c) e qs 0"
      unfolding B2_def using e_le by (intro chain_relink [OF q1 _ nx_def nxe]) simp
    have q3: "chain B3 (of_nat c) e qs 0"
      unfolding B3_def using q2 e_le ae by (subst chain_upd_out) simp_all
    have "chain B1 0 heap_base ps (of_nat a)"
      unfolding B1_def using p(1) e_le ae by (subst chain_upd_out) (simp_all add: a_def)
    then have "chain B2 0 heap_base ps (of_nat a)"
      unfolding B2_def nx_def using e_le ae by (auto simp: chain_upd_out a_def)
    then have "chain B3 0 heap_base ps (of_nat a)"
      unfolding B3_def using e_le ae by (subst chain_upd_out) (simp_all add: a_def)
    moreover have "B3 (of_nat a) = (blocks h (of_nat a))\<lparr>blk_next := of_nat c, blk_size := of_nat n\<rparr>" "B3 (of_nat c) = new"
      using ne Ba by (simp_all add: B3_def)
    ultimately show "chain B3 0 heap_base (ps @ (n, al) # (s - n - 24, False) # qs) 0"
      using q3 b ae(3) by (simp add: chain_append a_def [symmetric] c_def [symmetric] new_def nx_def)
    have "(s - n - 24) mod 8 = 0"
      using n b(13) by presburger
    then show "sizes_ok (ps @ (n, al) # (s - n - 24, False) # qs)" using p n by simp
    show "extent (ps @ (n, al) # (s - n - 24, False) # qs) = extent (ps @ (s, al) # qs)" using n(3) by simp
  qed simp
  ultimately show ?thesis unfolding a_def by blast
qed

lemma split_none:
  assumes lay: "heap_layout h (ps @ (s, al) # qs)" and n: "n \<le> s" "s < n + 32"
  shows "split_block (of_nat (heap_base + extent ps)) (of_nat n) h = h"
proof -
  note b = layout_block [OF lay]
  have "blk_size (blocks h (of_nat (heap_base + extent ps))) - of_nat n = of_nat (s - n)"
    using b(2) n(1) by (simp add: of_nat_diff)
  moreover have "unat (of_nat (s - n) :: u32) = s - n" using b(8) by (intro unat_small) simp
  ultimately show ?thesis using n by (simp add: split_block_def Let_def word_less_nat_alt del: of_nat_diff)
qed

lemma merge_layout:
  assumes lay: "heap_layout h (ps @ (s1, a1) # (s2, False) # qs)"
  shows "\<exists>B'. merge_with_next (of_nat (heap_base + extent ps)) h = Some (h\<lparr>blocks := B'\<rparr>) \<and>
    heap_layout (h\<lparr>blocks := B'\<rparr>) (ps @ (s1 + 24 + s2, a1) # qs)"
proof -
  define a where "a = heap_base + extent ps"
  define c where "c = a + 24 + s1"
  define e where "e = c + 24 + s2"
  define nx :: u32 where "nx = (if qs = [] then 0 else of_nat e)"
  have lay2: "heap_layout h ((ps @ [(s1, a1)]) @ (s2, False) # qs)" using lay by simp
  have cc: "heap_base + extent (ps @ [(s1, a1)]) = c" by (simp add: c_def a_def)
  define B1 where "B1 = (blocks h)(of_nat a := (blocks h (of_nat a))\<lparr>
    blk_size := blk_size (blocks h (of_nat a)) + (HEADER_SIZE + blk_size (blocks h (of_nat c))), blk_next := nx\<rparr>)"
  define B2 where "B2 = (if nx \<noteq> 0 then B1(nx := (B1 nx)\<lparr>blk_prev := of_nat a\<rparr>) else B1)"
  define B3 where "B3 = B2(of_nat c := (B2 (of_nat c))\<lparr>blk_magic := 0, blk_size := 0, blk_prev := 0, blk_next := 0, blk_state := 0\<rparr>)"
  note p = layout_parts [OF lay, folded a_def] and b = layout_block [OF lay, folded a_def]
  note p2 = layout_parts [OF lay2, unfolded cc] and b2 = layout_block [OF lay2, unfolded cc]
  have e_le: "e + extent qs \<le> 3523215360" and ae: "a < c" "c < e" "heap_base \<le> a"
    using p(3) by (simp_all add: e_def a_def c_def)
  have nx: "blk_next (blocks h (of_nat c)) = nx" "blk_next (blocks h (of_nat a)) = of_nat c"
    using b2(3) b(3) by (simp_all add: nx_def e_def c_def)
  have nxe: "nx \<noteq> 0 \<or> qs = []" using e_le ae by (auto simp: nx_def word_unat_eq_iff unat_of_nat32)
  have ne: "of_nat a \<noteq> (of_nat c :: u32)" "of_nat e \<noteq> (of_nat c :: u32)" "of_nat e \<noteq> (of_nat a :: u32)"
    using e_le ae by (simp_all add: of_nat_addr_eq)
  have v: "validate_block h (of_nat a)" "validate_block h (of_nat c)"
    using validate_layout [OF lay] validate_layout [OF lay2] by (simp_all add: a_def cc [symmetric])
  have h1: "update_block (of_nat a) (\<lambda>k. k\<lparr>blk_size := blk_size k + (HEADER_SIZE + blk_size (blocks h (of_nat c))),
      blk_next := nx\<rparr>) h = h\<lparr>blocks := B1\<rparr>"
    by (simp add: update_block_blocks B1_def)
  have h2: "(if nx \<noteq> 0 then update_block nx (\<lambda>k. k\<lparr>blk_prev := of_nat a\<rparr>) (h\<lparr>blocks := B1\<rparr>) else h\<lparr>blocks := B1\<rparr>) = h\<lparr>blocks := B2\<rparr>"
    by (simp add: update_block_blocks B2_def)
  have h3: "update_block (of_nat c) (\<lambda>k. k\<lparr>blk_magic := 0, blk_size := 0, blk_prev := 0, blk_next := 0, blk_state := 0\<rparr>)
      (h\<lparr>blocks := B2\<rparr>) = h\<lparr>blocks := B3\<rparr>"
    by (simp add: update_block_blocks B3_def)
  have "merge_with_next (of_nat a) h = Some (h\<lparr>blocks := B3\<rparr>)"
    using v b2(4,11) unfolding merge_with_next_def Let_def nx h1 h2 h3 by simp
  moreover have "heap_layout (h\<lparr>blocks := B3\<rparr>) (ps @ (s1 + 24 + s2, a1) # qs)"
  proof (rule heap_layout_with_blocks [OF lay])
    have "chain B1 (of_nat c) e qs 0"
      unfolding B1_def using p2(2) e_le ae by (subst chain_upd_out) (simp_all add: e_def)
    then have "chain B2 (of_nat a) e qs 0"
      unfolding B2_def using e_le by (intro chain_relink [OF _ _ nx_def nxe]) simp_all
    then have q3: "chain B3 (of_nat a) e qs 0"
      unfolding B3_def using e_le ae by (subst chain_upd_out) simp_all
    have "chain B1 0 heap_base ps (of_nat a)"
      unfolding B1_def using p(1) e_le ae by (subst chain_upd_out) (simp_all add: a_def)
    then have "chain B2 0 heap_base ps (of_nat a)"
      unfolding B2_def nx_def using e_le ae by (auto simp: chain_upd_out a_def)
    then have "chain B3 0 heap_base ps (of_nat a)"
      unfolding B3_def using e_le ae by (subst chain_upd_out) (simp_all add: a_def)
    moreover have "B3 (of_nat a) = (blocks h (of_nat a))\<lparr>blk_size := of_nat (s1 + 24 + s2), blk_next := nx\<rparr>"
      using ne b(2) b2(2) by (auto simp: B3_def B2_def B1_def nx_def)
    ultimately show "chain B3 0 heap_base (ps @ (s1 + 24 + s2, a1) # qs) 0"
      using q3 b by (simp add: chain_append a_def [symmetric] nx_def e_def c_def add.assoc)
    have "(s1 + 24 + s2) mod 8 = 0" using b(13) b2(13) by presburger
    then show "sizes_ok (ps @ (s1 + 24 + s2, a1) # qs)" using p p2 b(12) by simp
  qed simp_all
  ultimately show ?thesis unfolding a_def by blast
qed

lemma merge_none:
  assumes lay: "heap_layout h (ps @ (s1, a1) # qs)" and "qs = [] \<or> snd (hd qs)"
  shows "merge_with_next (of_nat (heap_base + extent ps)) h = Some h"
proof (cases qs)
  case Nil
  then show ?thesis
    using layout_block(3) [OF lay] validate_layout [OF lay] by (simp add: merge_with_next_def Let_def)
next
  case (Cons y qs')
  then obtain s2 where y: "y = (s2, True)" using assms(2) by (cases y) auto
  let ?c = "heap_base + extent ps + 24 + s1"
  have lay2: "heap_layout h ((ps @ [(s1, a1)]) @ (s2, True) # qs')" using lay Cons y by simp
  have cc: "heap_base + extent (ps @ [(s1, a1)]) = ?c" by simp
  show ?thesis
    using layout_block(3) [OF lay] validate_layout [OF lay] validate_layout [OF lay2]
      layout_block(4,11) [OF lay2] Cons
    unfolding cc by (simp add: merge_with_next_def Let_def)
qed

subsection \<open>Freeing on layouts\<close>

text \<open>
  What \<open>kfree\<close> does to a layout: the freed block takes in the block after it and is taken in by
  the block before it, where these are free.
\<close>

definition merge_right :: "nat \<Rightarrow> layout \<Rightarrow> nat \<times> layout" where
  "merge_right sz qs = (if qs \<noteq> [] \<and> \<not> snd (hd qs) then (sz + 24 + fst (hd qs), tl qs) else (sz, qs))"

definition freed_layout :: "layout \<Rightarrow> nat \<Rightarrow> layout \<Rightarrow> layout" where
  "freed_layout ps sz qs =
     (case merge_right sz qs of (s, rs) \<Rightarrow>
        if ps \<noteq> [] \<and> \<not> snd (last ps) then butlast ps @ (fst (last ps) + 24 + s, False) # rs
        else ps @ (s, False) # rs)"

lemma merge_right_layout:
  assumes "heap_layout h (ps @ (sz, False) # qs)"
  shows "\<exists>B'. merge_with_next (of_nat (heap_base + extent ps)) h = Some (h\<lparr>blocks := B'\<rparr>) \<and>
    heap_layout (h\<lparr>blocks := B'\<rparr>) (ps @ (fst (merge_right sz qs), False) # snd (merge_right sz qs))"
proof (cases "qs \<noteq> [] \<and> \<not> snd (hd qs)")
  case True
  then obtain s2 rs where qs: "qs = (s2, False) # rs" by (cases qs) auto
  show ?thesis using merge_layout [of h ps sz False s2 rs] assms by (simp add: merge_right_def qs)
next
  case False
  then show ?thesis
    using merge_none [OF assms] assms by (intro exI [of _ "blocks h"]) (auto simp: merge_right_def)
qed

lemma coalesce_layout:
  assumes "heap_layout h (ps @ (sz, False) # qs)"
  shows "\<exists>B'. coalesce (of_nat (heap_base + extent ps)) h = Some (h\<lparr>blocks := B'\<rparr>) \<and>
    heap_layout (h\<lparr>blocks := B'\<rparr>) (freed_layout ps sz qs)"
proof -
  let ?a = "of_nat (heap_base + extent ps) :: u32"
  obtain s rs where mr: "merge_right sz qs = (s, rs)" by fastforce
  obtain B1 where B1: "merge_with_next ?a h = Some (h\<lparr>blocks := B1\<rparr>)"
    "heap_layout (h\<lparr>blocks := B1\<rparr>) (ps @ (s, False) # rs)"
    using merge_right_layout [OF assms] by (auto simp: mr)
  have prev: "blk_prev (B1 ?a) = last_addr 0 heap_base ps" using layout_block(5) [OF B1(2)] by simp
  show ?thesis
  proof (cases ps rule: rev_cases)
    case Nil
    then have "coalesce ?a h = Some (h\<lparr>blocks := B1\<rparr>)"
      using B1(1) prev by (simp add: coalesce_def Let_def last_addr_def)
    then show ?thesis using B1(2) Nil by (auto simp: freed_layout_def mr)
  next
    case (snoc ps' y)
    obtain s0 l0 where y: "y = (s0, l0)" by (cases y)
    let ?c = "of_nat (heap_base + extent ps') :: u32"
    have lay: "heap_layout (h\<lparr>blocks := B1\<rparr>) (ps' @ (s0, l0) # (s, False) # rs)" using B1(2) snoc y by simp
    have c: "last_addr 0 heap_base ps = ?c" "?c \<noteq> 0" "validate_block (h\<lparr>blocks := B1\<rparr>) ?c"
      "blk_state (B1 ?c) = (if l0 then HEAP_STATE_ALLOCATED else HEAP_STATE_FREE)"
      using layout_block(4,11) [OF lay] validate_layout [OF lay] by (simp_all add: last_addr_def snoc)
    show ?thesis
    proof (cases l0)
      case True
      then have "coalesce ?a h = Some (h\<lparr>blocks := B1\<rparr>)"
        using B1(1) prev c by (simp add: coalesce_def Let_def)
      then show ?thesis using B1(2) snoc y True by (auto simp: freed_layout_def mr)
    next
      case False
      obtain B2 where B2: "merge_with_next ?c (h\<lparr>blocks := B1\<rparr>) = Some (h\<lparr>blocks := B2\<rparr>)"
        "heap_layout (h\<lparr>blocks := B2\<rparr>) (ps' @ (s0 + 24 + s, l0) # rs)"
        using merge_layout [OF lay] by auto
      then have "coalesce ?a h = Some (h\<lparr>blocks := B2\<rparr>)"
        using B1(1) prev c False by (simp add: coalesce_def Let_def)
      then show ?thesis using B2(2) snoc y False by (auto simp: freed_layout_def mr)
    qed
  qed
qed

lemma coalesced_append:
  "coalesced (xs @ ys) \<longleftrightarrow> coalesced xs \<and> coalesced ys \<and>
     (xs = [] \<or> ys = [] \<or> snd (last xs) \<or> snd (hd ys))"
  by (induction xs rule: coalesced.induct; cases ys) auto

lemma coalesced_freed_layout:
  assumes "coalesced (ps @ (sz, True) # qs)"
  shows "coalesced (freed_layout ps sz qs)"
proof -
  obtain s rs where mr: "merge_right sz qs = (s, rs)" by fastforce
  have qs: "coalesced qs" using assms by (cases qs) (auto simp: coalesced_append)
  have rs: "coalesced rs" "rs = [] \<or> snd (hd rs)"
    using qs mr by (cases qs; cases "tl qs"; auto simp: merge_right_def split: if_splits)+
  have ps: "coalesced ps" "coalesced (butlast ps)" "butlast ps = [] \<or> snd (last (butlast ps)) \<or> snd (last ps)"
    using assms by (cases ps rule: rev_cases; auto simp: coalesced_append)+
  have tl: "coalesced ((t, False) # rs)" for t using rs by (cases rs) auto
  show ?thesis
    using ps tl by (auto simp: freed_layout_def mr coalesced_append)
qed

lemma freed_layout_extent:
  "extent (freed_layout ps sz qs) = extent (ps @ (sz, True) # qs)"
proof -
  have "24 + fst (merge_right sz qs) + extent (snd (merge_right sz qs)) = 24 + sz + extent qs"
    by (cases qs) (auto simp: merge_right_def)
  moreover have "extent ps = extent (butlast ps) + 24 + fst (last ps)" if "ps \<noteq> []"
  proof -
    have "extent ps = extent (butlast ps @ [last ps])" using that by simp
    then show ?thesis unfolding extent_append by (cases "last ps") simp
  qed
  ultimately show ?thesis by (auto simp: freed_layout_def split: prod.split)
qed

text \<open>The walk of \<open>kfree\<close> to the block with the given payload address.\<close>

lemma kfree_from_layout:
  assumes "heap_layout h (ps @ qs)" and x: "x < 4294967296" "24 \<le> x"
  shows "kfree_from (of_nat x) (if qs = [] then 0 else of_nat (heap_base + extent ps)) h =
    (case block_split (x - 24) (heap_base + extent ps) qs of
       None \<Rightarrow> Some (False, h)
     | Some (xs, (s, al), ys) \<Rightarrow>
         if al then do { h' \<leftarrow> coalesce (of_nat (heap_base + extent (ps @ xs)))
                          (update_block (of_nat (heap_base + extent (ps @ xs))) (\<lambda>k. k\<lparr>blk_state := HEAP_STATE_FREE\<rparr>) h);
                        Some (True, h') }
         else Some (False, h))"
  using assms(1)
proof (induction qs arbitrary: ps)
  case Nil
  then show ?case by (simp add: kfree_from.simps)
next
  case (Cons q qs)
  obtain sz al where q: "q = (sz, al)" by (cases q)
  let ?a = "heap_base + extent ps"
  have lay: "heap_layout h (ps @ (sz, al) # qs)" using Cons.prems q by simp
  note b = layout_block [OF lay]
  have v: "validate_block h (of_nat ?a)" by (rule validate_layout [OF lay])
  have nx: "blk_next (blocks h (of_nat ?a)) = (if qs = [] then 0 else of_nat (heap_base + extent (ps @ [q])))"
    using b(3) by (simp add: q add.assoc)
  have pay: "payload_address (of_nat ?a) = of_nat x \<longleftrightarrow> x - 24 = ?a"
  proof -
    have "payload_address (of_nat ?a) = of_nat (?a + 24)" by (simp add: payload_address_def)
    also have "\<dots> = of_nat x \<longleftrightarrow> ?a + 24 = x"
      using x(1) b(7) by (intro of_nat_addr_eq) simp_all
    finally show ?thesis using x(2) by auto
  qed
  show ?case
  proof (cases "x - 24 = ?a")
    case True
    then have p: "payload_address (of_nat ?a) = of_nat x" using pay by simp
    have st: "blk_state (blocks h (of_nat ?a)) \<noteq> HEAP_STATE_ALLOCATED \<longleftrightarrow> \<not> al" using b(4) by simp
    have "kfree_from (of_nat x) (of_nat ?a) h =
      (if \<not> al then Some (False, h)
       else do { h' \<leftarrow> coalesce (of_nat ?a) (update_block (of_nat ?a) (\<lambda>k. k\<lparr>blk_state := HEAP_STATE_FREE\<rparr>) h); Some (True, h') })"
      using b(11) v by (subst kfree_from.simps) (simp only: p st if_False if_True simp_thms)
    then show ?thesis using True by (simp add: q)
  next
    case False
    have p: "payload_address (of_nat ?a) \<noteq> of_nat x" using pay False by simp
    have step: "kfree_from (of_nat x) (of_nat ?a) h = kfree_from (of_nat x) (blk_next (blocks h (of_nat ?a))) h"
      using b(11) v p by (subst kfree_from.simps) (simp only: if_False simp_thms)
    have bs: "block_split (x - 24) ?a (q # qs) =
      map_option (\<lambda>(xs, s, ys). (q # xs, s, ys)) (block_split (x - 24) (heap_base + extent (ps @ [q])) qs)"
      using False by (simp add: q add.assoc)
    have IH: "kfree_from (of_nat x) (of_nat ?a) h =
      (case block_split (x - 24) (heap_base + extent (ps @ [q])) qs of
         None \<Rightarrow> Some (False, h)
       | Some (xs, (s, al), ys) \<Rightarrow>
           if al then do { h' \<leftarrow> coalesce (of_nat (heap_base + extent ((ps @ [q]) @ xs)))
                            (update_block (of_nat (heap_base + extent ((ps @ [q]) @ xs))) (\<lambda>k. k\<lparr>blk_state := HEAP_STATE_FREE\<rparr>) h);
                          Some (True, h') }
           else Some (False, h))"
      unfolding step nx using Cons.IH [of "ps @ [q]"] Cons.prems by simp
    show ?thesis using IH bs by (simp split: option.split)
  qed
qed

end
