(* ===== verification/Byte_Allocator.thy ===== *)
theory Byte_Allocator
  imports Prelude
begin

text \<open>
  The contract of the kernel heap as its clients rely on it (process metadata, kernel stacks, open
  file tables): \<open>malloc\<close> and \<open>mfree\<close> never panic on a consistent heap, \<open>live\<close> is the set of the
  blocks handed out, each with the address and the size of its payload, and live payloads never
  overlap. The lemmas of the locale are the guarantees a client uses.
\<close>

locale byte_allocator =
  fixes malloc :: "u32 \<Rightarrow> 's \<Rightarrow> (u32 \<times> 's) option"
    and mfree :: "u32 \<Rightarrow> 's \<Rightarrow> (bool \<times> 's) option"
    and inv :: "'s \<Rightarrow> bool"
    and live :: "'s \<Rightarrow> (nat \<times> nat) set"
  assumes live_disjoint: "inv s \<Longrightarrow> (x, n) \<in> live s \<Longrightarrow> (y, k) \<in> live s \<Longrightarrow> x = y \<and> n = k \<or> x + n \<le> y \<or> y + k \<le> x"
    and live_pos: "inv s \<Longrightarrow> (x, n) \<in> live s \<Longrightarrow> 0 < x \<and> 0 < n"
    and malloc_ok: "inv s \<Longrightarrow> \<exists>p s'. malloc sz s = Some (p, s') \<and> inv s' \<and>
      (if p = 0 then live s' = live s
       else \<exists>n \<ge> unat sz. (unat p, n) \<notin> live s \<and> live s' = insert (unat p, n) (live s))"
    and free_live: "inv s \<Longrightarrow> (unat p, n) \<in> live s \<Longrightarrow>
      \<exists>s'. mfree p s = Some (True, s') \<and> inv s' \<and> live s' = live s - {(unat p, n)}"
    and free_null: "mfree 0 s = Some (True, s)"
    and free_refused: "inv s \<Longrightarrow> p \<noteq> 0 \<Longrightarrow> (\<And>n. (unat p, n) \<notin> live s) \<Longrightarrow> mfree p s = Some (False, s)"
begin

lemma malloc_fresh:
  assumes "inv s" and "malloc sz s = Some (p, s')" and "p \<noteq> 0" and "(q, k) \<in> live s"
  shows "unat p + unat sz \<le> q \<or> q + k \<le> unat p"
proof -
  obtain n where n: "unat sz \<le> n" "(unat p, n) \<notin> live s" "live s' = insert (unat p, n) (live s)" "inv s'"
    using malloc_ok [OF assms(1), of sz] assms(2,3) by auto
  then show ?thesis using live_disjoint [of s' "unat p" n q k] assms(4) by auto
qed

lemma malloc_mfree:
  assumes "inv s" and "malloc sz s = Some (p, s')"
  shows "\<exists>s''. mfree p s' = Some (True, s'') \<and> inv s'' \<and> live s'' = live s"
proof (cases "p = 0")
  case True
  then show ?thesis using malloc_ok [OF assms(1), of sz] assms(2) free_null [of s'] by auto
next
  case False
  then obtain n where n: "(unat p, n) \<notin> live s" "live s' = insert (unat p, n) (live s)" "inv s'"
    using malloc_ok [OF assms(1), of sz] assms(2) by auto
  then show ?thesis using free_live [of s' p n] by auto
qed

lemma double_free:
  assumes "inv s" and "p \<noteq> 0" and "(unat p, n) \<in> live s" and "mfree p s = Some (r, s')"
  shows "mfree p s' = Some (False, s')"
proof -
  have s': "inv s'" "live s' = live s - {(unat p, n)}" using free_live [OF assms(1,3)] assms(4) by auto
  have "(unat p, k) \<notin> live s'" for k
    using live_disjoint [OF assms(1,3), of "unat p" k] live_pos [OF assms(1,3)] live_pos [OF assms(1), of "unat p" k] s'(2) by auto
  then show ?thesis by (rule free_refused [OF s'(1) assms(2)])
qed

end

end
