(* ===== verification/Heap_Correct.thy ===== *)
theory Heap_Correct
  imports Heap_Layout Byte_Allocator
begin

text \<open>
  Correctness of the kernel heap: growth by mapped pages and its rollback, allocation, release,
  initialisation and statistics over the layout, the heap as a \<open>byte_allocator\<close>, and its properties.
\<close>

subsection \<open>Mapping and unmapping change memory and the allocator only\<close>

definition control :: "machine \<Rightarrow> u32 \<times> bool \<times> u32 \<times> bool \<times> u32 \<times> bool \<times> u32" where
  "control m = (cr3 m, write_protect m, eflags m, vmm_initialized m, kernel_page_directory_physical m,
     address_space_window_busy m, address_space_window_irq_flags m)"

lemma control_simps [simp]:
  "control (ram_write f i x m) = control m" "control (m\<lparr>m_pmm := p\<rparr>) = control m"
  by (simp_all add: control_def)

lemma vwrite_control: "vwrite v x m = Some m' \<Longrightarrow> control m' = control m"
  by (auto simp: vwrite_def split: option.splits if_splits)

lemma for_opt_vwrite_control:
  "for_opt a b (\<lambda>i. vwrite (g i) (f i)) m = Some m' \<Longrightarrow> control m' = control m"
proof (cases "a \<le> b")
  case True
  assume "for_opt a b (\<lambda>i. vwrite (g i) (f i)) m = Some m'"
  with True show ?thesis
  proof (induction b arbitrary: m' rule: nat_induct_at_least)
    case (Suc b)
    then show ?case by (auto simp: for_opt_last bind_eq_Some_conv dest!: vwrite_control)
  qed simp
qed simp

lemma vmm_control:
  "zero_page_through_scratch a m = Some m' \<Longrightarrow> control m' = control m"
  "vmm_ensure_table d fl m = Some (ok, m') \<Longrightarrow> control m' = control m"
  "vmm_release_table d m = Some m' \<Longrightarrow> control m' = control m"
proof -
  show zero: "control m' = control m" if "zero_page_through_scratch a m = Some m'" for a m m'
    using that
    by (auto simp: zero_page_through_scratch_def page_tables_set_def bind_eq_Some_conv Let_def split: if_splits
        dest!: vwrite_control for_opt_vwrite_control)
  show "control m' = control m" if "vmm_ensure_table d fl m = Some (ok, m')"
    using that
    by (auto simp: vmm_ensure_table_def page_directory_set_def bind_eq_Some_conv Let_def split: if_splits prod.splits
        dest!: vwrite_control zero)
  show "control m' = control m" if r: "vmm_release_table d m = Some m'"
  proof -
    obtain e m1 where m1: "vwrite (RECURSIVE_PAGE_DIRECTORY + 4 * d) 0 m = Some m1"
      and f: "(case pmm_free (e AND PAGE_MASK) (m_pmm m1) of (ok, p) \<Rightarrow> if ok then Some (m1\<lparr>m_pmm := p\<rparr>) else None) = Some m'"
      using r by (simp only: vmm_release_table_def page_directory_set_def bind_eq_Some_conv Let_def) blast
    have "control m' = control m1"
      using f by (cases "pmm_free (e AND PAGE_MASK) (m_pmm m1)") (auto split: if_splits)
    then show ?thesis using vwrite_control [OF m1] by simp
  qed
qed

lemma vmm_map_control: "vmm_map v a fl m = Some (ok, m') \<Longrightarrow> control m' = control m"
  by (auto simp: vmm_map_def page_tables_set_def bind_eq_Some_conv Let_def split: if_splits
      dest!: vwrite_control vmm_control(2))

lemma vmm_unmap_control: "vmm_unmap v m = Some (r, m') \<Longrightarrow> control m' = control m"
  by (auto simp: vmm_unmap_def page_tables_set_def bind_eq_Some_conv Let_def split: if_splits
      dest!: vwrite_control vmm_control(3))

lemma vmm_map_outcome:
  assumes "vmm_inv m"
  shows "vmm_map v a fl m = Some (False, m) \<or> (\<exists>m'. vmm_map v a fl m = Some (True, m'))"
proof (cases "vmm_map_rejects v a fl m")
  case True
  then show ?thesis by (simp add: vmm_map_def)
next
  case False
  from assms False show ?thesis by (cases rule: vmm_map_spec) auto
qed

lemma pmm_with_same: "m\<lparr>m_pmm := m_pmm m\<rparr> = m"
  by simp

subsection \<open>Extending the heap's mapping\<close>

lemma map_extension_loop_ok:
  assumes "vmm_inv m"
  shows "\<exists>k m'. map_extension_loop start mapped remaining m = Some (k, m') \<and> vmm_inv m' \<and> mapped \<le> k \<and> k \<le> mapped + remaining \<and>
    control m' = control m \<and>
    (\<forall>m2. vmm_inv m2 \<longrightarrow> same_space m2 m' \<longrightarrow>
      (\<exists>m3. unmap_extension_loop start k m2 = unmap_extension_loop start mapped m3 \<and> vmm_inv m3 \<and> same_space m3 m \<and>
            control m3 = control m2)) \<and>
    (\<forall>n e. n < 1047552 \<longrightarrow> page_entry m n = Some e \<longrightarrow> page_entry m' n = Some e) \<and>
    (\<forall>i. mapped \<le> i \<and> i < k \<longrightarrow> (\<exists>e. page_entry m' (frame_of (start + of_nat i * 4096)) = Some e \<and> bit e 1))"
  using assms
proof (induction remaining arbitrary: mapped m)
  case 0
  then show ?case by auto
next
  case (Suc remaining)
  let ?v = "start + of_nat mapped * 4096"
  have pmm: "pmm_inv (m_pmm m)" using Suc.prems by (simp add: vmm_inv_def vmm_wf_def)
  obtain a p where a: "pmm_alloc (m_pmm m) = (a, p)" by fastforce
  define m1 where "m1 = m\<lparr>m_pmm := p\<rparr>"
  have stop: ?case if "map_extension_loop start mapped (Suc remaining) m = Some (mapped, m)"
    using that Suc.prems by (intro exI [of _ mapped] exI [of _ m]) auto
  show ?case
  proof (cases "a = 0")
    case True
    then have "p = m_pmm m" using pmm_frames.alloc_failed [OF pmm] a by blast
    then show ?thesis using True a by (intro stop) simp
  next
    case False
    note al = pmm_alloc_change [OF Suc.prems a False]
    have inv1: "vmm_inv m1" using al by (simp add: m1_def)
    have undo: "pmm_free a p = (True, m_pmm m)" by (rule pmm_alloc_free_undo [OF pmm a False])
    from vmm_map_outcome [OF inv1, of ?v a VMM_WRITABLE] show ?thesis
    proof
      assume "vmm_map ?v a VMM_WRITABLE m1 = Some (False, m1)"
      then show ?thesis using False a undo by (intro stop) (simp add: m1_def [symmetric], simp add: m1_def)
    next
      assume "\<exists>m'. vmm_map ?v a VMM_WRITABLE m1 = Some (True, m')"
      then obtain m2 where map: "vmm_map ?v a VMM_WRITABLE m1 = Some (True, m2)" by blast
      note mt = vmm_map_tables [OF inv1 map]
      have step: "map_extension_loop start mapped (Suc remaining) m = map_extension_loop start (Suc mapped) remaining m2"
        using False a map by (simp add: m1_def [symmetric])
      obtain k m' where IH: "map_extension_loop start (Suc mapped) remaining m2 = Some (k, m')" "vmm_inv m'"
          "Suc mapped \<le> k" "k \<le> Suc mapped + remaining" "control m' = control m2"
        and rb: "\<And>mx. vmm_inv mx \<Longrightarrow> same_space mx m' \<Longrightarrow>
          \<exists>m3. unmap_extension_loop start k mx = unmap_extension_loop start (Suc mapped) m3 \<and> vmm_inv m3 \<and> same_space m3 m2 \<and>
            control m3 = control mx"
        and keep: "\<And>n e. n < 1047552 \<Longrightarrow> page_entry m2 n = Some e \<Longrightarrow> page_entry m' n = Some e"
        and new: "\<And>i. Suc mapped \<le> i \<Longrightarrow> i < k \<Longrightarrow> \<exists>e. page_entry m' (frame_of (start + of_nat i * 4096)) = Some e \<and> bit e 1"
        using Suc.IH [OF mt(6), of "Suc mapped"] by blast
      let ?x = "a OR PAGE_PRESENT OR (VMM_WRITABLE AND (VMM_WRITABLE OR VMM_USER))"
      have t: "frame_of ?v < 1047552" using map_target(8) [OF mt(5)] .
      have x: "page_entry m2 (frame_of ?v) = Some ?x" "bit ?x 1"
        using mt(8) [OF t] unfolding bit_or_iff bit_and_iff bit_flags by simp_all
      have keep': "page_entry m' n = Some e" if "n < 1047552" "page_entry m n = Some e" for n e
      proof -
        have "n \<noteq> frame_of ?v" using mt(4) that(2) by (auto simp: m1_def)
        then have "page_entry m2 n = Some e" using mt(8) [OF that(1)] that(2) by (simp add: m1_def)
        then show ?thesis by (rule keep [OF that(1)])
      qed
      have new': "\<exists>e. page_entry m' (frame_of (start + of_nat i * 4096)) = Some e \<and> bit e 1" if "mapped \<le> i" "i < k" for i
      proof (cases "i = mapped")
        case True
        then show ?thesis using keep [OF t x(1)] x(2) by blast
      qed (use that new in simp)
      have rb': "\<exists>m3. unmap_extension_loop start k mx = unmap_extension_loop start mapped m3 \<and> vmm_inv m3 \<and> same_space m3 m \<and>
          control m3 = control mx"
        if mx: "vmm_inv mx" "same_space mx m'" for mx
      proof -
        obtain m3 where m3: "unmap_extension_loop start k mx = unmap_extension_loop start (Suc mapped) m3" "vmm_inv m3"
          "same_space m3 m2" "control m3 = control mx" using rb [OF mx] by blast
        obtain m4 where m4: "vmm_unmap ?v m3 = Some (Some a, m4)" "vmm_inv m4" "same_space m4 m1"
          using vmm_map_unmap_restores [OF inv1 map m3(2,3)] by blast
        define m5 where "m5 = m4\<lparr>m_pmm := m_pmm m\<rparr>"
        have p4: "m_pmm m4 = p" using same_spaceD(1) [OF m4(3)] by (simp add: m1_def)
        have tf: "table_frames m4 = table_frames m" using same_space_tables [OF m4(3)] by (simp add: m1_def)
        have "vmm_inv m5"
          unfolding m5_def using table_frames_not_free [OF Suc.prems] pmm al(2,6)
          by (intro pmm_change [OF m4(2)]) (auto simp: tf p4)
        moreover have "same_space m5 m"
          using same_spaceD [OF m4(3)] by (intro same_spaceI) (simp_all add: m5_def m1_def)
        moreover have "unmap_extension_loop start k mx = unmap_extension_loop start mapped m5"
          using m3(1) m4(1) undo by (simp add: p4 m5_def)
        moreover have "control m5 = control mx" using vmm_unmap_control [OF m4(1)] m3(4) by (simp add: m5_def)
        ultimately show ?thesis by blast
      qed
      have "control m' = control m" using IH(5) vmm_map_control [OF map] by (simp add: m1_def)
      then show ?thesis
        unfolding step using IH(1-4) rb' keep' new' by (intro exI [of _ k] exI [of _ m']) auto
    qed
  qed
qed

lemma map_extension_spec:
  assumes "vmm_inv m"
  obtains ok m' where "map_extension start pc m = Some (ok, m')" "vmm_inv m'" "control m' = control m"
    "if ok then (\<forall>n e. n < 1047552 \<longrightarrow> page_entry m n = Some e \<longrightarrow> page_entry m' n = Some e) \<and>
        (\<forall>i<unat pc. \<exists>e. page_entry m' (frame_of (start + of_nat i * 4096)) = Some e \<and> bit e 1)
     else same_space m' m"
proof -
  obtain k m' where k: "map_extension_loop start 0 (unat pc) m = Some (k, m')" "vmm_inv m'" "control m' = control m"
    and rb: "\<And>m2. vmm_inv m2 \<Longrightarrow> same_space m2 m' \<Longrightarrow>
      \<exists>m3. unmap_extension_loop start k m2 = unmap_extension_loop start 0 m3 \<and> vmm_inv m3 \<and> same_space m3 m \<and> control m3 = control m2"
    and keep: "\<forall>n e. n < 1047552 \<longrightarrow> page_entry m n = Some e \<longrightarrow> page_entry m' n = Some e"
    and new: "\<forall>i. 0 \<le> i \<and> i < k \<longrightarrow> (\<exists>e. page_entry m' (frame_of (start + of_nat i * 4096)) = Some e \<and> bit e 1)"
    using map_extension_loop_ok [OF assms, of start 0 "unat pc"] by blast
  show ?thesis
  proof (cases "k = unat pc")
    case True
    then show ?thesis
      using k keep new by (intro that [of True m']) (simp_all add: map_extension_def)
  next
    case False
    obtain m3 where "unmap_extension_loop start k m' = Some m3" "vmm_inv m3" "same_space m3 m" "control m3 = control m'"
      using rb [OF k(2) same_space_refl] by auto
    then show ?thesis using k False by (intro that [of False m3]) (simp_all add: map_extension_def)
  qed
qed

subsection \<open>The heap invariant\<close>

text \<open>
  The heap \<open>h\<close> is consistent and its layout is \<open>bs\<close>: no two free blocks are adjacent, the blocks
  fill the mapped pages exactly, and these pages are mapped writable in a consistent address space.
\<close>

definition heap_rep :: "heap \<Rightarrow> layout \<Rightarrow> bool" where
  "heap_rep h bs \<longleftrightarrow> heap_layout h bs \<and> coalesced bs \<and> extent bs = unat (heap_mapped_pages h) * 4096 \<and>
     vmm_inv (mach h) \<and>
     (\<forall>i < extent bs div 4096. \<exists>e. page_entry (mach h) (856064 + i) = Some e \<and> bit e 1)"

definition grow_layout :: "layout \<Rightarrow> nat \<Rightarrow> layout" where
  "grow_layout bs g =
     (if \<not> snd (last bs) then butlast bs @ [(fst (last bs) + g, False)] else bs @ [(g - 24, False)])"

lemma grow_layout_props:
  assumes "bs \<noteq> []" "sizes_ok bs" "coalesced bs" "g mod 8 = 0" "32 \<le> g"
  shows "sizes_ok (grow_layout bs g)" "coalesced (grow_layout bs g)" "extent (grow_layout bs g) = extent bs + g"
    "grow_layout bs g \<noteq> []"
proof -
  obtain ps s al where bs: "bs = ps @ [(s, al)]" using assms(1) by (cases bs rule: rev_cases) auto
  have "(s + g) mod 8 = 0" if "s mod 8 = 0" using that assms(4) by presburger
  moreover have "(g - 24) mod 8 = 0" using assms(4,5) by presburger
  ultimately show "sizes_ok (grow_layout bs g)" using assms by (auto simp: grow_layout_def bs)
  show "coalesced (grow_layout bs g)" using assms by (auto simp: grow_layout_def bs coalesced_append)
  show "extent (grow_layout bs g) = extent bs + g" using assms(5) by (simp add: grow_layout_def bs)
  show "grow_layout bs g \<noteq> []" by (simp add: grow_layout_def)
qed

lemma grow_blocks_layout:
  assumes lay: "heap_layout h (ps @ [(s, al)])" and g: "g mod 8 = 0" "32 \<le> g" "extent (ps @ [(s, al)]) + g \<le> 16777216"
    and h1: "h1 = h\<lparr>mach := m, heap_end := heap_end h + of_nat g, heap_mapped_pages := pg\<rparr>"
  defines "t \<equiv> of_nat (heap_base + extent ps)"
  shows "\<not> al \<Longrightarrow> heap_layout (update_block t (\<lambda>k. k\<lparr>blk_size := blk_size k + of_nat g\<rparr>) h1) (ps @ [(s + g, False)])"
    and "al \<Longrightarrow> heap_layout (update_block t (\<lambda>k. k\<lparr>blk_next := heap_end h\<rparr>)
           (initialize_block (heap_end h) (of_nat g - HEADER_SIZE) t 0 h1)) (ps @ [(s, True), (g - 24, False)])"
proof -
  define a where "a = heap_base + extent ps"
  note p = layout_parts [OF lay, folded a_def] and b = layout_block [OF lay, folded a_def]
  have e: "heap_end h = of_nat (a + 24 + s)" using lay by (simp add: heap_layout_def a_def add_ac)
  have lt: "a < 4294967296" "a + 24 + s + g \<le> 4294967296" "heap_base \<le> a" using g(3) by (simp_all add: a_def)
  have ta: "t = of_nat a" by (simp add: t_def a_def)
  have init: "heap_initialized h" "heap_head h = of_nat heap_base" using lay by (auto simp: heap_layout_def)
  have sok: "(s + g) mod 8 = 0" "(g - 24) mod 8 = 0" using b(13) g by presburger+
  show "heap_layout (update_block t (\<lambda>k. k\<lparr>blk_size := blk_size k + of_nat g\<rparr>) h1) (ps @ [(s + g, False)])" if "\<not> al"
  proof -
    have "chain ((blocks h)(t := k)) 0 heap_base ps (of_nat a)" for k
      using p(1) lt unfolding ta by (subst chain_upd_out) (simp_all add: a_def)
    then have "chain ((blocks h)(t := (blocks h t)\<lparr>blk_size := blk_size (blocks h t) + of_nat g\<rparr>)) 0 heap_base (ps @ [(s + g, False)]) 0"
      using b that by (simp add: chain_append a_def [symmetric] ta)
    then show ?thesis
      using init p g sok b(12) e by (simp add: heap_layout_def update_block_blocks h1 a_def add_ac)
  qed
  show "heap_layout (update_block t (\<lambda>k. k\<lparr>blk_next := heap_end h\<rparr>)
      (initialize_block (heap_end h) (of_nat g - HEADER_SIZE) t 0 h1)) (ps @ [(s, True), (g - 24, False)])" if al
  proof -
    let ?E = "of_nat (a + 24 + s) :: u32"
    define new where "new = \<lparr>blk_magic = HEAP_MAGIC, blk_size = of_nat (g - 24), blk_prev = of_nat a, blk_next = 0,
      blk_state = HEAP_STATE_FREE, blk_reserved = 0\<rparr>"
    define B1 where "B1 = (blocks h)(?E := new)"
    define B2 where "B2 = B1(of_nat a := (B1 (of_nat a))\<lparr>blk_next := ?E\<rparr>)"
    have lt': "a + 24 + s < 4294967296" using lt g(2) by simp
    have neq: "?E \<noteq> of_nat a" using lt lt' by (simp add: of_nat_addr_eq del: of_nat_add)
    have "chain (blocks h) 0 heap_base (ps @ [(s, al)]) 0" using lay by (simp add: heap_layout_def)
    then have "chain B1 0 heap_base (ps @ [(s, al)]) 0"
      unfolding B1_def using lt' by (subst chain_upd_out) (simp_all add: a_def)
    then have "chain B2 0 heap_base (ps @ [(s, al)]) ?E"
      unfolding B2_def using lt lt' by (intro chain_set_next) (simp_all add: a_def)
    moreover have "B2 ?E = new" using neq by (simp add: B2_def B1_def)
    ultimately have "chain B2 0 heap_base ((ps @ [(s, al)]) @ [(g - 24, False)]) 0"
      unfolding chain_append [of B2 0 heap_base "ps @ [(s, al)]"]
      by (simp add: last_addr_def a_def new_def add_ac)
    then have c: "chain B2 0 heap_base (ps @ [(s, True), (g - 24, False)]) 0" using that by simp
    have gs: "of_nat g - HEADER_SIZE = (of_nat (g - 24) :: u32)" using g(2) by (simp add: of_nat_diff)
    have upd: "update_block t (\<lambda>k. k\<lparr>blk_next := heap_end h\<rparr>) (initialize_block (heap_end h) (of_nat g - HEADER_SIZE) t 0 h1) =
      h1\<lparr>blocks := B2\<rparr>"
      unfolding gs e ta by (simp add: update_block_blocks initialize_block_def B2_def B1_def new_def h1 del: of_nat_add)
    show ?thesis
      unfolding upd using c init p g sok b(12,13) e by (simp add: heap_layout_def h1 a_def add_ac)
  qed
qed

lemma heap_pages_word: "x \<le> 16777216 \<Longrightarrow> x mod 4096 = 0 \<Longrightarrow> i < 4096 \<Longrightarrow>
  frame_of (of_nat (heap_base + x) + of_nat i * 4096) = 856064 + x div 4096 + i"
proof -
  assume x: "x \<le> 16777216" "x mod 4096 = 0" and i: "i < 4096"
  have "of_nat (heap_base + x) + of_nat i * 4096 = (of_nat (heap_base + x + i * 4096) :: u32)" by simp
  moreover have "unat (of_nat (heap_base + x + i * 4096) :: u32) = heap_base + x + i * 4096"
    using x i by (intro unat_of_nat32) simp
  ultimately show ?thesis using x i unfolding frame_of_def by simp
qed

text \<open>The page count \<open>grow_heap\<close> computes, as a number.\<close>

definition growth_pages :: "nat \<Rightarrow> layout \<Rightarrow> nat" where
  "growth_pages n bs = ((if snd (last bs) then n + 24 else n - fst (last bs)) + 4095) div 4096"

lemma grow_heap_pages:
  assumes rep: "heap_rep h (ps @ [(s, al)])" and n: "8 \<le> n" "n \<le> 16777192" and small: "al \<or> s < n"
  defines "t \<equiv> of_nat (heap_base + extent ps) :: u32" and "pc \<equiv> growth_pages n (ps @ [(s, al)])"
  defines "h1 \<equiv> \<lambda>m. h\<lparr>mach := m, heap_end := heap_end h + of_nat (pc * 4096), heap_mapped_pages := heap_mapped_pages h + of_nat pc\<rparr>"
  shows "grow_heap (of_nat n) h =
    (if extent (ps @ [(s, al)]) + pc * 4096 > 16777216 then Some (False, h)
     else do { (ok, m) \<leftarrow> map_extension (heap_end h) (of_nat pc) (mach h);
               if \<not> ok then Some (False, h\<lparr>mach := m\<rparr>)
               else if al then Some (True, update_block t (\<lambda>k. k\<lparr>blk_next := heap_end h\<rparr>)
                      (initialize_block (heap_end h) (of_nat (pc * 4096) - HEADER_SIZE) t 0 (h1 m)))
               else Some (True, update_block t (\<lambda>k. k\<lparr>blk_size := blk_size k + of_nat (pc * 4096)\<rparr>) (h1 m)) })"
proof -
  have lay: "heap_layout h (ps @ [(s, al)])" and ext: "extent (ps @ [(s, al)]) = unat (heap_mapped_pages h) * 4096"
    using rep by (simp_all only: heap_rep_def)
  have b: "blk_size (blocks h t) = of_nat s" "blk_state (blocks h t) = (if al then HEAP_STATE_ALLOCATED else HEAP_STATE_FREE)"
    "s \<le> 16777216" "extent (ps @ [(s, al)]) \<le> 16777216"
    using layout_block [OF lay] lay by (simp_all add: t_def heap_layout_def)
  have tail: "heap_tail h = Some t"
    using heap_tail_layout [of h "[]" ps "(s, al)"] lay by (simp add: heap_tail_def t_def heap_layout_def)
  define r where "r = (if al then n + 24 else n - s)"
  have r: "0 < r" "r \<le> 16777216" using small n by (auto simp: r_def)
  have pc1: "pc = (r + 4095) div 4096" by (simp add: pc_def growth_pages_def r_def)
  with r have pc: "pc = (r + 4095) div 4096" "pc \<le> 4097" by simp_all
  have rw: "(if \<not> al then of_nat n - of_nat s else of_nat n + HEADER_SIZE) = (of_nat r :: u32)"
    using small by (cases al) (simp_all add: r_def of_nat_diff)
  have ur: "unat (of_nat r + 4096 - 1 :: u32) = r + 4095"
  proof -
    have "of_nat r + 4096 - 1 = (of_nat (r + 4095) :: u32)" by simp
    then show ?thesis using r by (simp only:) (rule unat_of_nat32, simp)
  qed
  have pw: "(of_nat r + 4096 - 1) div 4096 = (of_nat pc :: u32)"
  proof (rule word_unat_eq_iff [THEN iffD2])
    have "unat ((of_nat r + 4096 - 1) div 4096 :: u32) = (r + 4095) div 4096" unfolding unat_div ur by simp
    then show "unat ((of_nat r + 4096 - 1) div 4096 :: u32) = unat (of_nat pc :: u32)"
      using pc unat_small [of pc] by simp
  qed
  have av: "unat (heap_mapped_pages h * 4096) = extent (ps @ [(s, al)])"
    using b(4) unat_mult_lem [of "heap_mapped_pages h" 4096] unfolding ext by simp
  have lim: "unat ((HEAP_MAX_SIZE - heap_mapped_pages h * 4096) div 4096) = (16777216 - extent (ps @ [(s, al)])) div 4096"
    using b(4) av by (simp add: unat_div unat_sub word_le_nat_alt)
  have guard: "(of_nat pc :: u32) > (HEAP_MAX_SIZE - heap_mapped_pages h * 4096) div 4096 \<longleftrightarrow> extent (ps @ [(s, al)]) + pc * 4096 > 16777216"
    unfolding word_less_nat_alt lim using pc(2) b(4) unat_small [of pc] ext by auto
  have sz: "(of_nat s \<ge> (of_nat n :: u32)) \<longleftrightarrow> n \<le> s" "\<not> (of_nat n :: u32) > UINT32_MAX - HEADER_SIZE"
    using n b(3) by (simp_all add: word_le_nat_alt word_less_nat_alt unat_small)
  have st: "blk_state (blocks h t) = HEAP_STATE_FREE \<longleftrightarrow> \<not> al" by (simp add: b(2))
  show ?thesis
    unfolding grow_heap_def tail Option.bind.simps Let_def st b(1) sz(1) rw pw guard
    using small sz(2)
    by (cases al; cases "map_extension (heap_end h) (of_nat pc) (mach h)") (simp_all add: h1_def st split: prod.split)
qed

lemma grown_rep:
  assumes rep: "heap_rep h bs" and lay: "heap_layout h' (grow_layout bs (pc * 4096))" and pc: "1 \<le> pc" "extent bs + pc * 4096 \<le> 16777216"
    and m: "mach h' = m" "vmm_inv m" "heap_mapped_pages h' = heap_mapped_pages h + of_nat pc"
    and keep: "\<And>n e. n < 1047552 \<Longrightarrow> page_entry (mach h) n = Some e \<Longrightarrow> page_entry m n = Some e"
    and new: "\<And>i. i < unat (of_nat pc :: u32) \<Longrightarrow> \<exists>e. page_entry m (frame_of (heap_end h + of_nat i * 4096)) = Some e \<and> bit e 1"
  shows "heap_rep h' (grow_layout bs (pc * 4096))"
proof -
  define x where "x = extent bs"
  have r: "heap_layout h bs" "coalesced bs" "x = unat (heap_mapped_pages h) * 4096"
    "\<And>i. i < x div 4096 \<Longrightarrow> \<exists>e. page_entry (mach h) (856064 + i) = Some e \<and> bit e 1"
    using rep by (simp_all add: heap_rep_def x_def)
  have bs: "bs \<noteq> []" "sizes_ok bs" "heap_end h = of_nat (heap_base + x)" using r(1) by (simp_all add: heap_layout_def x_def)
  have xs: "x mod 4096 = 0" "x + pc * 4096 \<le> 16777216" using r(3) pc(2) by (simp_all add: x_def)
  have g: "(pc * 4096) mod 8 = 0" "32 \<le> pc * 4096"
    using pc(1) mod_mult_right_eq [of pc 4096 "8::nat"] by simp_all
  note gl = grow_layout_props [OF bs(1,2) r(2) g]
  have up: "unat (of_nat pc :: u32) = pc" using xs by (intro unat_small) simp
  have "unat (heap_mapped_pages h + of_nat pc) = unat (heap_mapped_pages h) + pc"
  proof -
    have "unat (heap_mapped_pages h) + unat (of_nat pc :: u32) < 2 ^ LENGTH(32)" unfolding up using xs r(3) by simp
    then show ?thesis using unat_add_lem [of "heap_mapped_pages h" "of_nat pc"] up by simp
  qed
  moreover have "\<exists>e. page_entry m (856064 + i) = Some e \<and> bit e 1" if i: "i < (x + pc * 4096) div 4096" for i
  proof (cases "i < x div 4096")
    case True
    then obtain e where "page_entry (mach h) (856064 + i) = Some e" "bit e 1" using r(4) by blast
    moreover have "856064 + i < 1047552" using True xs by simp
    ultimately show ?thesis using keep by blast
  next
    case False
    then have j: "i - x div 4096 < pc" using i by simp
    have "frame_of (heap_end h + of_nat (i - x div 4096) * 4096) = 856064 + i"
      unfolding bs(3) using xs j False by (subst heap_pages_word) simp_all
    then show ?thesis using new [of "i - x div 4096"] j up by simp
  qed
  ultimately show ?thesis using lay m gl(2,3) r(3) unfolding heap_rep_def x_def by simp
qed

lemma growth_pages_fit:
  assumes "bs \<noteq> []" and "snd (last bs) \<or> fst (last bs) < n" and "0 < n"
  shows "1 \<le> growth_pages n bs" "fit_split n (grow_layout bs (growth_pages n bs * 4096)) \<noteq> None"
proof -
  define r where "r = (if snd (last bs) then n + 24 else n - fst (last bs))"
  have r: "0 < r" using assms by (auto simp: r_def)
  then show p: "1 \<le> growth_pages n bs" unfolding growth_pages_def r_def [symmetric] by simp
  have "r \<le> growth_pages n bs * 4096" unfolding growth_pages_def r_def [symmetric] by simp
  then have "\<exists>s. (s, False) \<in> set (grow_layout bs (growth_pages n bs * 4096)) \<and> n \<le> s"
    by (auto simp: grow_layout_def r_def split: if_splits)
  then obtain s where "(s, False) \<in> set (grow_layout bs (growth_pages n bs * 4096))" "n \<le> s" by blast
  then show "fit_split n (grow_layout bs (growth_pages n bs * 4096)) \<noteq> None"
    unfolding fit_split_None Ball_def by (intro notI) (drule spec [of _ "(s, False)"], simp)
qed

lemma grow_heap_spec:
  assumes rep: "heap_rep h bs" and n: "8 \<le> n" "n \<le> 16777192" "n mod 8 = 0" and nofit: "fit_split n bs = None"
  obtains (failed) m where "grow_heap (of_nat n) h = Some (False, h\<lparr>mach := m\<rparr>)" "vmm_inv m" "same_space m (mach h)"
      "control m = control (mach h)"
  | (grown) h' g where "grow_heap (of_nat n) h = Some (True, h')" "heap_rep h' (grow_layout bs g)"
      "fit_split n (grow_layout bs g) \<noteq> None" "0 < g" "control (mach h') = control (mach h)"
proof -
  have lay: "heap_layout h bs" and co: "coalesced bs" and ext: "extent bs = unat (heap_mapped_pages h) * 4096"
    and inv: "vmm_inv (mach h)"
    and pages: "\<forall>i < extent bs div 4096. \<exists>e. page_entry (mach h) (856064 + i) = Some e \<and> bit e 1"
    using rep by (simp_all add: heap_rep_def)
  obtain ps s al where bs: "bs = ps @ [(s, al)]" using lay by (cases bs rule: rev_cases) (auto simp: heap_layout_def)
  have small: "al \<or> s < n" using nofit by (auto simp: fit_split_None bs)
  define t where "t = (of_nat (heap_base + extent ps) :: u32)"
  define pc where "pc = growth_pages n bs"
  define h1 where "h1 = (\<lambda>m. h\<lparr>mach := m, heap_end := heap_end h + of_nat (pc * 4096), heap_mapped_pages := heap_mapped_pages h + of_nat pc\<rparr>)"
  note eq = grow_heap_pages [OF rep [unfolded bs] n(1,2) small, folded bs, folded t_def pc_def, folded h1_def]
  obtain ok m where m: "map_extension (heap_end h) (of_nat pc) (mach h) = Some (ok, m)" "vmm_inv m" "control m = control (mach h)"
    and out: "if ok then (\<forall>n e. n < 1047552 \<longrightarrow> page_entry (mach h) n = Some e \<longrightarrow> page_entry m n = Some e) \<and>
        (\<forall>i<unat (of_nat pc :: u32). \<exists>e. page_entry m (frame_of (heap_end h + of_nat i * 4096)) = Some e \<and> bit e 1)
     else same_space m (mach h)"
    by (rule map_extension_spec [OF inv])
  show ?thesis
  proof (cases "extent bs + pc * 4096 > 16777216 \<or> \<not> ok")
    case True
    show ?thesis
    proof (cases "extent bs + pc * 4096 > 16777216")
      case big: True
      then show ?thesis using eq inv by (intro failed [of "mach h"]) (simp_all add: same_space_refl)
    next
      case False
      with True m out eq show ?thesis by (intro failed [of m]) simp_all
    qed
  next
    case False
    then have fits: "extent bs + pc * 4096 \<le> 16777216" and ok by simp_all
    define h' where "h' = (if al then update_block t (\<lambda>k. k\<lparr>blk_next := heap_end h\<rparr>)
        (initialize_block (heap_end h) (of_nat (pc * 4096) - HEADER_SIZE) t 0 (h1 m))
      else update_block t (\<lambda>k. k\<lparr>blk_size := blk_size k + of_nat (pc * 4096)\<rparr>) (h1 m))"
    have gr: "grow_heap (of_nat n) h = Some (True, h')" using eq fits m(1) \<open>ok\<close> by (simp add: h'_def h1_def)
    have pc: "1 \<le> pc" "fit_split n (grow_layout bs (pc * 4096)) \<noteq> None"
      using growth_pages_fit [of bs n] small n(1) by (simp_all add: pc_def bs)
    have g: "(pc * 4096) mod 8 = 0" "32 \<le> pc * 4096"
      using pc(1) mod_mult_right_eq [of pc 4096 "8::nat"] by simp_all
    have "heap_layout h' (grow_layout bs (pc * 4096))"
      using grow_blocks_layout [OF lay [unfolded bs] g fits [unfolded bs] h1_def [THEN fun_cong], of m, folded t_def]
      by (auto simp: h'_def grow_layout_def bs)
    moreover have "mach h' = m" "heap_mapped_pages h' = heap_mapped_pages h + of_nat pc"
      by (simp_all add: h'_def h1_def update_block_def initialize_block_def)
    ultimately have "heap_rep h' (grow_layout bs (pc * 4096))"
      using pc(1) fits m(2) out \<open>ok\<close> by (intro grown_rep [OF rep, where m = m]) simp_all
    then show ?thesis using gr pc m(3) \<open>mach h' = m\<close> by (intro grown [of h' "pc * 4096"]) simp_all
  qed
qed

subsection \<open>Interrupt flag\<close>

lemma eflags_pde [simp]: "pde (m\<lparr>eflags := f\<rparr>) i = pde m i" "pte (m\<lparr>eflags := f\<rparr>) i j = pte m i j"
  by (simp_all add: pde_def pte_def)

lemma eflags_page_entry [simp]: "page_entry (m\<lparr>eflags := f\<rparr>) n = page_entry m n"
  by (simp add: page_entry_def)

lemma eflags_vmm_inv [simp]: "vmm_inv (m\<lparr>eflags := f\<rparr>) \<longleftrightarrow> vmm_inv m"
  unfolding vmm_inv_def vmm_wf_def recursive_ok_def table_ok_def by simp

lemma eflags_same_space [simp]: "same_space (m\<lparr>eflags := f\<rparr>) m' \<longleftrightarrow> same_space m m'" "same_space m (m'\<lparr>eflags := f\<rparr>) \<longleftrightarrow> same_space m m'"
  unfolding same_space_def by simp_all

lemma heap_layout_mach [simp]: "heap_layout (h\<lparr>mach := m\<rparr>) bs \<longleftrightarrow> heap_layout h bs"
  by (simp add: heap_layout_def)

lemma heap_rep_eflags [simp]: "heap_rep (h\<lparr>mach := (mach h)\<lparr>eflags := f\<rparr>\<rparr>) bs \<longleftrightarrow> heap_rep h bs"
  by (simp add: heap_rep_def)

lemma heap_rep_same_space:
  assumes "heap_rep h bs" and "vmm_inv m" and "same_space m (mach h)"
  shows "heap_rep (h\<lparr>mach := m\<rparr>) bs"
proof -
  have "extent bs \<le> 16777216" using assms(1) by (simp add: heap_rep_def heap_layout_def)
  then have "page_entry m (856064 + i) = page_entry (mach h) (856064 + i)" if "i < extent bs div 4096" for i
    using that by (intro same_spaceD(3) [OF assms(3)]) simp
  then show ?thesis using assms(1,2) by (simp add: heap_rep_def)
qed

text \<open>An operation between \<open>heap_irq_save\<close> and \<open>heap_irq_restore\<close> that keeps the flags leaves them as they were.\<close>

lemma heap_irq_bracket:
  assumes "control (mach h2) = control ((mach h)\<lparr>eflags := eflags (mach h) AND NOT EFLAGS_IF\<rparr>)"
  shows "heap_irq_restore (eflags (mach h)) h2 = h2\<lparr>mach := (mach h2)\<lparr>eflags := eflags (mach h)\<rparr>\<rparr>"
    "control ((mach h2)\<lparr>eflags := eflags (mach h)\<rparr>) = control (mach h)"
proof -
  have "eflags (irq_restore (eflags (mach h)) ((mach h)\<lparr>eflags := eflags (mach h) AND NOT EFLAGS_IF\<rparr>)) = eflags (mach h)"
    by (subst irq_restore_save [of "mach h"]) (simp_all add: irq_save_disable_def irq_read_flags_def)
  moreover have "eflags (mach h2) = eflags (mach h) AND NOT EFLAGS_IF" using assms by (simp add: control_def)
  ultimately show "heap_irq_restore (eflags (mach h)) h2 = h2\<lparr>mach := (mach h2)\<lparr>eflags := eflags (mach h)\<rparr>\<rparr>"
    by (auto simp: heap_irq_restore_def irq_restore_def split: if_splits)
  show "control ((mach h2)\<lparr>eflags := eflags (mach h)\<rparr>) = control (mach h)" using assms by (simp add: control_def)
qed

lemma heap_irq_save_eq:
  "heap_irq_save h = (eflags (mach h), h\<lparr>mach := (mach h)\<lparr>eflags := eflags (mach h) AND NOT EFLAGS_IF\<rparr>\<rparr>)"
  by (simp add: heap_irq_save_def irq_save_disable_def irq_read_flags_def)

lemma heap_irq_restore_saved:
  "heap_irq_restore (eflags (mach h)) (h\<lparr>mach := (mach h)\<lparr>eflags := eflags (mach h) AND NOT EFLAGS_IF\<rparr>\<rparr>) = h"
  by (subst heap_irq_bracket) simp_all

subsection \<open>Allocation\<close>

text \<open>The payload size a request is rounded to; none for a request \<open>kmalloc\<close> refuses.\<close>

definition request_size :: "u32 \<Rightarrow> nat option" where
  "request_size sz =
     (let n = (unat sz + 7) div 8 * 8 in if sz = 0 \<or> 16777192 < n then None else Some n)"

lemma align_request_eq: "align_request sz = map_option of_nat (request_size sz)"
proof (cases "unat sz + 7 < 4294967296")
  case True
  have u: "unat (sz + 7) = unat sz + 7" using True unat_add_lem [of sz 7] by simp
  have v: "unat ((sz + 7) AND NOT 7) = (unat sz + 7) div 8 * 8" using unat_and_not_mask [of "sz + 7" 3] u by (simp add: mask_eq_exp_minus_1)
  then have w: "(sz + 7) AND NOT 7 = of_nat ((unat sz + 7) div 8 * 8)" by (metis of_nat_unat ucast_id)
  have "\<not> sz > 0xFFFFFFF8" using True by (simp add: word_less_nat_alt)
  moreover have "(sz + 7) AND NOT 7 > 16777192 \<longleftrightarrow> 16777192 < (unat sz + 7) div 8 * 8"
    using v by (simp add: word_less_nat_alt)
  ultimately show ?thesis using w by (simp add: align_request_def request_size_def Let_def)
next
  case False
  then have "sz > 0xFFFFFFF8" by (simp add: word_less_nat_alt)
  moreover have "16777192 < (unat sz + 7) div 8 * 8" using False by simp
  ultimately show ?thesis by (simp add: align_request_def request_size_def Let_def)
qed

lemma request_size_Some:
  assumes "request_size sz = Some n"
  shows "8 \<le> n" "n \<le> 16777192" "n mod 8 = 0" "unat sz \<le> n"
proof -
  have n: "n = (unat sz + 7) div 8 * 8" "sz \<noteq> 0" "n \<le> 16777192" using assms by (auto simp: request_size_def Let_def split: if_splits)
  then show "n \<le> 16777192" "n mod 8 = 0" "unat sz \<le> n" by simp_all
  have "0 < unat sz" using n(2) by (simp add: unat_gt_0)
  then show "8 \<le> n" using n(1) by simp
qed

definition alloc_split :: "nat \<Rightarrow> nat \<Rightarrow> layout" where
  "alloc_split n s = (if s < n + 32 then [(s, True)] else [(n, True), (s - n - 24, False)])"

lemma extent_alloc_split: "n \<le> s \<Longrightarrow> extent (alloc_split n s) = 24 + s"
  by (simp add: alloc_split_def)

lemma coalesced_alloc_split:
  assumes "coalesced (ps @ (s, False) # qs)"
  shows "coalesced (ps @ alloc_split n s @ qs)"
  using assms by (cases qs) (auto simp: coalesced_append alloc_split_def)

lemma take_layout:
  assumes lay: "heap_layout h (ps @ (s, False) # qs)" and n: "8 \<le> n" "n mod 8 = 0" "n \<le> s"
  defines "a \<equiv> of_nat (heap_base + extent ps)"
  shows "\<exists>B'. update_block a (\<lambda>k. k\<lparr>blk_state := HEAP_STATE_ALLOCATED\<rparr>) (split_block a (of_nat n) h) = h\<lparr>blocks := B'\<rparr> \<and>
    heap_layout (h\<lparr>blocks := B'\<rparr>) (ps @ alloc_split n s @ qs)"
proof (cases "s < n + 32")
  case True
  have "split_block a (of_nat n) h = h" unfolding a_def by (rule split_none [OF lay n(3) True])
  then show ?thesis
    using set_state_layout [OF lay, of True] True unfolding a_def by (auto simp: alloc_split_def update_block_blocks)
next
  case False
  obtain B1 where B1: "split_block a (of_nat n) h = h\<lparr>blocks := B1\<rparr>"
    "heap_layout (h\<lparr>blocks := B1\<rparr>) (ps @ (n, False) # (s - n - 24, False) # qs)"
    using split_layout [OF lay n(1,2)] False unfolding a_def by auto
  then show ?thesis
    using set_state_layout [OF B1(2), of True] False unfolding a_def by (auto simp: alloc_split_def update_block_blocks)
qed

lemma layout_nonzero:
  assumes "heap_layout h (ps @ (s, al) # qs)"
  shows "of_nat (heap_base + extent ps) \<noteq> (0 :: u32)" "of_nat (heap_base + extent ps + 24) \<noteq> (0 :: u32)"
    "unat (of_nat (heap_base + extent ps + 24) :: u32) = heap_base + extent ps + 24"
proof -
  have le: "24 + extent ps \<le> 16777216" using assms by (simp add: heap_layout_def)
  show "of_nat (heap_base + extent ps) \<noteq> (0 :: u32)"
    using unat_addr [of "extent ps"] le by (intro notI) simp
  show u: "unat (of_nat (heap_base + extent ps + 24) :: u32) = heap_base + extent ps + 24"
    using unat_addr [of "extent ps + 24"] le by (simp add: add_ac)
  show "of_nat (heap_base + extent ps + 24) \<noteq> (0 :: u32)" using u by (intro notI) simp
qed

lemma kmalloc_block_spec:
  assumes rep: "heap_rep h bs" and n: "8 \<le> n" "n \<le> 16777192" "n mod 8 = 0"
  obtains (none) m where "kmalloc_block (of_nat n) h = Some (0, h\<lparr>mach := m\<rparr>)" "fit_split n bs = None" "vmm_inv m"
      "same_space m (mach h)" "control m = control (mach h)"
  | (found) h' bs' ps s qs where "kmalloc_block (of_nat n) h = Some (of_nat (heap_base + extent ps), h')" "heap_rep h' bs'"
      "fit_split n bs' = Some (ps, s, qs)" "control (mach h') = control (mach h)"
      "bs' = bs \<and> mach h' = mach h \<or> fit_split n bs = None \<and> (\<exists>g>0. bs' = grow_layout bs g)"
proof -
  have n': "n \<le> 16777216" using n(2) by simp
  have fff: "find_first_fit k (of_nat n) = Some (case fit_split n xs of None \<Rightarrow> 0 | Some (ps, s, qs) \<Rightarrow> of_nat (heap_base + extent ps))"
    if "heap_rep k xs" for k xs
  proof -
    have "heap_layout k xs" using that by (simp add: heap_rep_def)
    then show ?thesis using find_first_fit_layout [of k "[]" xs, OF _ n'] by (simp add: find_first_fit_def heap_layout_def split: option.splits)
  qed
  have nz: "of_nat (heap_base + extent ps) \<noteq> (0 :: u32)" if "heap_rep k xs" "fit_split n xs = Some (ps, s, qs)" for k xs ps s qs
    using that fit_split_Some [OF that(2)] by (intro layout_nonzero(1) [of k ps s False qs]) (simp add: heap_rep_def)
  show ?thesis
  proof (cases "fit_split n bs")
    case None
    show ?thesis
    proof (cases rule: grow_heap_spec [OF rep n None])
      case (1 m)
      then show ?thesis using fff [OF rep] None by (intro none [of m]) (simp_all add: kmalloc_block_def)
    next
      case (2 h' g)
      obtain ps s qs where f: "fit_split n (grow_layout bs g) = Some (ps, s, qs)" using 2(3) by auto
      show ?thesis
        using fff [OF rep] fff [OF 2(2)] nz [OF 2(2) f] None 2 f
        by (intro found [of ps h' "grow_layout bs g" s qs]) (auto simp: kmalloc_block_def)
    qed
  next
    case (Some x)
    obtain ps s qs where f: "fit_split n bs = Some (ps, s, qs)" using Some by (cases x) auto
    show ?thesis
      using fff [OF rep] nz [OF rep f] f rep by (intro found [of ps h bs s qs]) (auto simp: kmalloc_block_def)
  qed
qed

lemma heap_rep_take:
  assumes rep: "heap_rep h (ps @ (s, False) # qs)" and n: "8 \<le> n" "n mod 8 = 0" "n \<le> s"
  defines "a \<equiv> of_nat (heap_base + extent ps)"
  obtains h' where "update_block a (\<lambda>k. k\<lparr>blk_state := HEAP_STATE_ALLOCATED\<rparr>) (split_block a (of_nat n) h) = h'"
    "heap_rep h' (ps @ alloc_split n s @ qs)" "mach h' = mach h"
proof -
  obtain B' where B': "update_block a (\<lambda>k. k\<lparr>blk_state := HEAP_STATE_ALLOCATED\<rparr>) (split_block a (of_nat n) h) = h\<lparr>blocks := B'\<rparr>"
    "heap_layout (h\<lparr>blocks := B'\<rparr>) (ps @ alloc_split n s @ qs)"
    using take_layout [OF _ n, of h ps qs] rep unfolding heap_rep_def a_def by blast
  have "extent (ps @ alloc_split n s @ qs) = extent (ps @ (s, False) # qs)" using n(3) by (simp add: extent_alloc_split)
  moreover have "coalesced (ps @ alloc_split n s @ qs)"
    using rep by (intro coalesced_alloc_split) (simp add: heap_rep_def)
  ultimately have "heap_rep (h\<lparr>blocks := B'\<rparr>) (ps @ alloc_split n s @ qs)"
    using rep B'(2) unfolding heap_rep_def by simp
  then show ?thesis using B'(1) that by simp
qed

text \<open>
  What \<open>kmalloc\<close> does to a consistent heap: it fails and changes nothing, or it takes the first
  free block that is large enough, of the heap as it is or, when there is none, grown at its end.
\<close>

lemma kmalloc_spec:
  assumes rep: "heap_rep h bs"
  obtains (failed) h' where "kmalloc sz h = Some (0, h')" "\<And>n. request_size sz = Some n \<Longrightarrow> fit_split n bs = None"
      "heap_rep h' bs" "h' = h\<lparr>mach := mach h'\<rparr>" "same_space (mach h') (mach h)" "control (mach h') = control (mach h)"
  | (taken) h' n bs' ps s qs where "kmalloc sz h = Some (of_nat (heap_base + extent ps + 24), h')" "request_size sz = Some n"
      "fit_split n bs' = Some (ps, s, qs)" "heap_rep h' (ps @ alloc_split n s @ qs)" "control (mach h') = control (mach h)"
      "bs' = bs \<and> mach h' = mach h \<or> fit_split n bs = None \<and> (\<exists>g>0. bs' = grow_layout bs g)"
proof (cases "request_size sz")
  case None
  have "kmalloc sz h = Some (0, h)"
    using heap_irq_restore_saved [of h] by (simp add: kmalloc_def heap_irq_save_eq align_request_eq None)
  then show ?thesis using rep None by (intro failed [of h]) simp_all
next
  case (Some n)
  define hs where "hs = h\<lparr>mach := (mach h)\<lparr>eflags := eflags (mach h) AND NOT EFLAGS_IF\<rparr>\<rparr>"
  have save: "heap_irq_save h = (eflags (mach h), hs)" by (simp only: heap_irq_save_eq hs_def)
  have rs: "heap_rep hs bs" using rep by (simp add: hs_def)
  have init: "heap_initialized hs" using rep by (simp add: hs_def heap_rep_def heap_layout_def)
  note n = request_size_Some [OF Some]
  show ?thesis
  proof (cases rule: kmalloc_block_spec [OF rs n(1,2,3)])
    case (1 m)
    have "control m = control ((mach h)\<lparr>eflags := eflags (mach h) AND NOT EFLAGS_IF\<rparr>)" using 1(5) by (simp add: hs_def)
    then have b: "heap_irq_restore (eflags (mach h)) (hs\<lparr>mach := m\<rparr>) = h\<lparr>mach := m\<lparr>eflags := eflags (mach h)\<rparr>\<rparr>"
      "control (m\<lparr>eflags := eflags (mach h)\<rparr>) = control (mach h)"
      using heap_irq_bracket [of "hs\<lparr>mach := m\<rparr>" h] by (simp_all add: hs_def)
    have "same_space m (mach h)" using 1(4) by (simp add: hs_def)
    then have "heap_rep (h\<lparr>mach := m\<lparr>eflags := eflags (mach h)\<rparr>\<rparr>) bs"
      using rep 1(3) by (intro heap_rep_same_space) simp_all
    moreover have "kmalloc sz h = Some (0, h\<lparr>mach := m\<lparr>eflags := eflags (mach h)\<rparr>\<rparr>)"
      using 1(1) b(1) init by (simp add: kmalloc_def save align_request_eq Some)
    ultimately show ?thesis
      using \<open>same_space m (mach h)\<close> b(2) 1(2) Some
      by (intro failed [of "h\<lparr>mach := m\<lparr>eflags := eflags (mach h)\<rparr>\<rparr>"]) simp_all
  next
    case (2 h1 bs' ps s qs)
    define a where "a = (of_nat (heap_base + extent ps) :: u32)"
    have bs': "bs' = ps @ (s, False) # qs" "n \<le> s" using fit_split_Some [OF 2(3)] by simp_all
    then have lay: "heap_layout h1 (ps @ (s, False) # qs)" using 2(2) by (simp add: heap_rep_def)
    have nz: "a \<noteq> 0" unfolding a_def by (rule layout_nonzero [OF lay])
    obtain h2 where h2: "update_block a (\<lambda>k. k\<lparr>blk_state := HEAP_STATE_ALLOCATED\<rparr>) (split_block a (of_nat n) h1) = h2"
      "heap_rep h2 (ps @ alloc_split n s @ qs)" "mach h2 = mach h1"
      using heap_rep_take [OF 2(2) [unfolded bs'(1)] n(1,3) bs'(2)] unfolding a_def by blast
    have c: "control (mach h2) = control ((mach h)\<lparr>eflags := eflags (mach h) AND NOT EFLAGS_IF\<rparr>)"
      using 2(4) h2(3) by (simp add: hs_def)
    note b = heap_irq_bracket [OF c]
    have "kmalloc sz h = Some (payload_address a, h2\<lparr>mach := (mach h2)\<lparr>eflags := eflags (mach h)\<rparr>\<rparr>)"
      using 2(1) [folded a_def] b(1) init h2(1) nz by (simp add: kmalloc_def save align_request_eq Some Let_def)
    moreover have "payload_address a = of_nat (heap_base + extent ps + 24)" by (simp add: payload_address_def a_def)
    moreover have "heap_rep (h2\<lparr>mach := (mach h2)\<lparr>eflags := eflags (mach h)\<rparr>\<rparr>) (ps @ alloc_split n s @ qs)" using h2(2) by simp
    ultimately show ?thesis
      using h2(3) Some 2(3,5) b(2)
      by (intro taken [of ps "h2\<lparr>mach := (mach h2)\<lparr>eflags := eflags (mach h)\<rparr>\<rparr>" n bs' s qs]) (auto simp: hs_def)
  qed
qed

subsection \<open>Release\<close>

lemma extent_mod_8: "sizes_ok bs \<Longrightarrow> extent bs mod 8 = 0"
proof (induction bs rule: extent.induct)
  case (2 sz al bs)
  then have "sz mod 8 = 0" "extent bs mod 8 = 0" by simp_all
  then show ?case by simp presburger
qed simp

lemma payload_inside:
  assumes lay: "heap_layout h (ps @ (s, al) # qs)" and up: "unat p = heap_base + extent ps + 24"
  shows "\<not> (p < HEAP_VIRTUAL_START + HEADER_SIZE \<or> p \<ge> heap_end h \<or> p AND (HEAP_ALIGNMENT - 1) \<noteq> 0)"
proof -
  have b: "8 \<le> s" "extent ps mod 8 = 0" "heap_end h = of_nat (heap_base + extent (ps @ (s, al) # qs))"
    "extent (ps @ (s, al) # qs) \<le> 16777216"
    using lay extent_mod_8 [of ps] by (auto simp: heap_layout_def)
  have ue: "unat (heap_end h) = heap_base + extent (ps @ (s, al) # qs)" unfolding b(3) by (rule unat_addr [OF b(4)])
  have "unat p mod 8 = 0" unfolding up using b(2) by presburger
  then have "p AND 7 = 0" by (simp add: unat_eq_0 [symmetric] unat_and_7)
  moreover have "\<not> p \<ge> heap_end h" using b(1) by (simp add: word_le_nat_alt ue up)
  moreover have "\<not> p < HEAP_VIRTUAL_START + HEADER_SIZE" by (simp add: word_less_nat_alt up)
  ultimately show ?thesis by simp
qed

lemma kfree_from_cases:
  assumes lay: "heap_layout h bs" and ge: "24 \<le> unat p"
  obtains (absent) "kfree_from p (heap_head h) h = Some (False, h)" "\<And>ps s qs. bs = ps @ (s, True) # qs \<Longrightarrow> unat p \<noteq> heap_base + extent ps + 24"
  | (present) B' ps s qs where "kfree_from p (heap_head h) h = Some (True, h\<lparr>blocks := B'\<rparr>)" "bs = ps @ (s, True) # qs"
      "unat p = heap_base + extent ps + 24" "heap_layout (h\<lparr>blocks := B'\<rparr>) (freed_layout ps s qs)"
proof -
  note walk = kfree_from_layout [of h "[]" bs "unat p"]
  have h: "heap_head h = of_nat heap_base" "bs \<noteq> []" using lay by (simp_all add: heap_layout_def)
  have split: "block_split (unat p - 24) heap_base bs = Some (ps, (s, al), qs) \<longleftrightarrow> bs = ps @ (s, al) # qs \<and> unat p = heap_base + extent ps + 24" for ps s al qs
    using block_split_Some [of "unat p - 24" heap_base bs ps "(s, al)" qs] block_split_append [of heap_base ps "(s, al)" qs] ge by auto
  show ?thesis
  proof (cases "\<exists>ps s qs. block_split (unat p - 24) heap_base bs = Some (ps, (s, True), qs)")
    case True
    then obtain ps s qs where b: "block_split (unat p - 24) heap_base bs = Some (ps, (s, True), qs)" by blast
    then have bs: "bs = ps @ (s, True) # qs" "unat p = heap_base + extent ps + 24" using split by simp_all
    obtain B' where B': "coalesce (of_nat (heap_base + extent ps)) (update_block (of_nat (heap_base + extent ps)) (\<lambda>k. k\<lparr>blk_state := HEAP_STATE_FREE\<rparr>) h) =
        Some (h\<lparr>blocks := B'\<rparr>)" "heap_layout (h\<lparr>blocks := B'\<rparr>) (freed_layout ps s qs)"
      using coalesce_layout [OF set_state_layout [OF lay [unfolded bs(1)], of False, simplified]]
      by (auto simp: update_block_blocks)
    have "kfree_from p (heap_head h) h = Some (True, h\<lparr>blocks := B'\<rparr>)"
      using walk lay h ge b B'(1) unat_lt_2p32 [of p] by simp
    then show ?thesis using bs B'(2) by (rule present)
  next
    case False
    have "kfree_from p (heap_head h) h = Some (False, h)"
      using walk lay h ge unat_lt_2p32 [of p] False by (auto split: option.splits)
    then show ?thesis using False split by (intro absent) auto
  qed
qed

lemma kfree_spec:
  assumes rep: "heap_rep h bs" and p: "p \<noteq> 0"
  obtains (refused) "kfree p h = Some (False, h)" "\<And>ps s qs. bs = ps @ (s, True) # qs \<Longrightarrow> unat p \<noteq> heap_base + extent ps + 24"
  | (released) h' ps s qs where "kfree p h = Some (True, h')" "bs = ps @ (s, True) # qs" "unat p = heap_base + extent ps + 24"
      "heap_rep h' (freed_layout ps s qs)" "mach h' = mach h"
proof -
  define hs where "hs = h\<lparr>mach := (mach h)\<lparr>eflags := eflags (mach h) AND NOT EFLAGS_IF\<rparr>\<rparr>"
  have save: "heap_irq_save h = (eflags (mach h), hs)" by (simp only: heap_irq_save_eq hs_def)
  have restored: "heap_irq_restore (eflags (mach h)) hs = h" unfolding hs_def by (rule heap_irq_restore_saved)
  have lay: "heap_layout hs bs" and init: "heap_initialized hs" using rep by (simp_all add: heap_rep_def hs_def heap_layout_def)
  show ?thesis
  proof (cases "p < HEAP_VIRTUAL_START + HEADER_SIZE \<or> p \<ge> heap_end hs \<or> p AND (HEAP_ALIGNMENT - 1) \<noteq> 0")
    case True
    have "kfree p h = Some (False, h)" using p init True restored by (simp add: kfree_def save)
    then show ?thesis using refused payload_inside [of hs _ _ True] lay True by blast
  next
    case False
    have ge: "24 \<le> unat p" using False by (auto simp: word_less_nat_alt)
    have free: "kfree p h = Some (r, heap_irq_restore (eflags (mach h)) h')" if "kfree_from p (heap_head hs) hs = Some (r, h')" for r h'
      using p init False that by (simp add: kfree_def save)
    show ?thesis
    proof (cases rule: kfree_from_cases [OF lay ge])
      case 1
      then show ?thesis using free [OF 1(1)] restored by (intro refused) simp_all
    next
      case (2 B' ps s qs)
      have "kfree p h = Some (True, h\<lparr>blocks := B'\<rparr>)"
        using free [OF 2(1)] heap_irq_bracket(1) [of "hs\<lparr>blocks := B'\<rparr>" h] by (simp add: hs_def)
      moreover have "heap_rep (h\<lparr>blocks := B'\<rparr>) (freed_layout ps s qs)"
        using rep 2(4) coalesced_freed_layout [of ps s qs] freed_layout_extent [of ps s qs]
        by (simp add: heap_rep_def hs_def 2(2) heap_layout_def)
      ultimately show ?thesis using 2(2,3) by (intro released [of "h\<lparr>blocks := B'\<rparr>" ps s qs]) simp_all
    qed
  qed
qed

subsection \<open>Live blocks\<close>

text \<open>The payloads handed out: address and size of every allocated block of a layout that starts at \<open>a\<close>.\<close>

fun live_blocks :: "nat \<Rightarrow> layout \<Rightarrow> (nat \<times> nat) set" where
  "live_blocks a [] = {}"
| "live_blocks a ((sz, al) # bs) = (if al then {(a + 24, sz)} else {}) \<union> live_blocks (a + 24 + sz) bs"

definition heap_live :: "heap \<Rightarrow> (nat \<times> nat) set" where
  "heap_live h = \<Union> (live_blocks heap_base ` {bs. heap_layout h bs})"

definition heap_inv :: "heap \<Rightarrow> bool" where
  "heap_inv h \<longleftrightarrow> (\<exists>bs. heap_rep h bs)"

lemma chain_unique:
  assumes "chain B p a bs 0" "chain B p' a bs' 0" "sizes_ok bs" "sizes_ok bs'" "bs \<noteq> []" "bs' \<noteq> []"
    "a + extent bs < 4294967296" "a + extent bs' < 4294967296"
  shows "bs = bs'"
  using assms
proof (induction bs arbitrary: p p' a bs')
  case (Cons x bs)
  obtain s al where x: "x = (s, al)" by (cases x)
  obtain s' al' rs where b: "bs' = (s', al') # rs" using Cons.prems(6) by (cases bs') auto
  have "of_nat s = (of_nat s' :: u32)" "s < 4294967296" "s' < 4294967296" using Cons.prems by (simp_all add: x b)
  then have s: "s = s'" using of_nat_addr_eq by blast
  have al: "al = al'" using Cons.prems by (simp add: x b split: if_splits)
  have nz: "of_nat (a + 24 + s) \<noteq> (0 :: u32)"
  proof -
    have "a + 24 + s < 4294967296" using Cons.prems(7) by (simp add: x)
    then have "unat (of_nat (a + 24 + s) :: u32) = a + 24 + s" by (rule unat_of_nat32)
    then show ?thesis by (intro notI) simp
  qed
  have e: "bs = [] \<longleftrightarrow> rs = []" using Cons.prems(1,2) nz by (auto simp: x b s simp del: of_nat_add split: if_splits)
  show ?case
  proof (cases "bs = []")
    case False
    have c: "chain B (of_nat a) (a + 24 + s) bs 0" "chain B (of_nat a) (a + 24 + s) rs 0" "sizes_ok bs" "sizes_ok rs"
      "a + 24 + s + extent bs < 4294967296" "a + 24 + s + extent rs < 4294967296"
      using Cons.prems(1,2,3,4,7,8) unfolding x b s by (simp_all add: add_ac)
    have "bs = rs" using c(1-4) False False [unfolded e] c(5,6) by (rule Cons.IH)
    then show ?thesis by (simp add: x b s al)
  qed (use e in \<open>simp add: x b s al\<close>)
qed simp

lemma heap_layoutD:
  assumes "heap_layout h bs"
  shows "chain (blocks h) 0 heap_base bs 0" "sizes_ok bs" "bs \<noteq> []" "extent bs \<le> 16777216"
    "heap_base + extent bs < 4294967296"
  using assms by (simp_all add: heap_layout_def)

lemma heap_layout_unique:
  assumes "heap_layout h bs" and "heap_layout h bs'"
  shows "bs = bs'"
  using heap_layoutD(1) [OF assms(1)] heap_layoutD(1) [OF assms(2)] heap_layoutD(2) [OF assms(1)] heap_layoutD(2) [OF assms(2)]
    heap_layoutD(3) [OF assms(1)] heap_layoutD(3) [OF assms(2)] heap_layoutD(5) [OF assms(1)] heap_layoutD(5) [OF assms(2)]
  by (rule chain_unique)

lemma heap_live_eq: "heap_layout h bs \<Longrightarrow> heap_live h = live_blocks heap_base bs"
proof -
  assume lay: "heap_layout h bs"
  then have "{bs. heap_layout h bs} = {bs}" using heap_layout_unique [OF lay] by blast
  then show ?thesis by (simp add: heap_live_def)
qed

lemma live_append: "live_blocks a (xs @ ys) = live_blocks a xs \<union> live_blocks (a + extent xs) ys"
  by (induction xs arbitrary: a rule: extent.induct) (simp_all add: add_ac Un_assoc)

lemma live_bounds: "(x, n) \<in> live_blocks a bs \<Longrightarrow> a + 24 \<le> x \<and> x + n \<le> a + extent bs"
  by (induction a bs rule: live_blocks.induct) (auto split: if_splits)

lemma live_split:
  assumes "(x, n) \<in> live_blocks a bs"
  obtains ps qs where "bs = ps @ (n, True) # qs" "x = a + extent ps + 24"
  using assms
proof (induction a bs arbitrary: thesis rule: live_blocks.induct)
  case (2 a sz al bs)
  from 2(3) consider "al" "x = a + 24" "n = sz" | "(x, n) \<in> live_blocks (a + 24 + sz) bs" by (auto split: if_splits)
  then show ?case
  proof cases
    case 1
    then show ?thesis by (intro 2(2) [of "[]"]) simp_all
  next
    case b: 2
    obtain ps qs where "bs = ps @ (n, True) # qs" "x = a + 24 + sz + extent ps + 24" by (rule 2(1) [OF _ b])
    then show ?thesis by (intro 2(2) [of "(sz, al) # ps"]) simp_all
  qed
qed simp

lemma live_blocks_disjoint:
  "(x, n) \<in> live_blocks a bs \<Longrightarrow> (y, k) \<in> live_blocks a bs \<Longrightarrow> x = y \<and> n = k \<or> x + n \<le> y \<or> y + k \<le> x"
proof (induction a bs rule: live_blocks.induct)
  case (2 a sz al bs)
  show ?case
    using 2 live_bounds [of x n "a + 24 + sz" bs] live_bounds [of y k "a + 24 + sz" bs]
    by (auto split: if_splits)
qed simp

lemma live_take: "n \<le> s \<Longrightarrow>
  live_blocks a (ps @ alloc_split n s @ qs) = insert (a + extent ps + 24, fst (hd (alloc_split n s))) (live_blocks a (ps @ (s, False) # qs))"
  by (auto simp: live_append extent_alloc_split alloc_split_def add_ac)

lemma live_grow: "bs \<noteq> [] \<Longrightarrow> live_blocks a (grow_layout bs g) = live_blocks a bs"
  by (cases bs rule: rev_cases) (auto simp: grow_layout_def live_append)

lemma live_freed_layout: "live_blocks a (freed_layout ps s qs) = live_blocks a (ps @ (s, False) # qs)"
proof -
  obtain t rs where mr: "merge_right s qs = (t, rs)" by fastforce
  have right: "live_blocks b ((t, False) # rs) = live_blocks b ((s, False) # qs)" for b
    using mr by (cases qs) (auto simp: merge_right_def add_ac split: if_splits)
  show ?thesis
  proof (cases "ps \<noteq> [] \<and> \<not> snd (last ps)")
    case True
    then obtain us u where ps: "ps = us @ [(u, False)]" by (cases ps rule: rev_cases) auto
    show ?thesis using right [of "a + extent us + 24 + u"] by (simp add: freed_layout_def mr ps live_append add_ac)
  next
    case False
    then show ?thesis using right by (auto simp: freed_layout_def mr live_append)
  qed
qed

lemma live_unlink: "live_blocks a (ps @ (s, True) # qs) - {(a + extent ps + 24, s)} = live_blocks a (ps @ (s, False) # qs)" if "0 < s"
proof -
  have "(a + extent ps + 24, s) \<notin> live_blocks a ps" using live_bounds [of "a + extent ps + 24" s a ps] that by auto
  moreover have "(a + extent ps + 24, s) \<notin> live_blocks (a + extent ps + 24 + s) qs"
    using live_bounds [of "a + extent ps + 24" s "a + extent ps + 24 + s" qs] by auto
  ultimately show ?thesis by (auto simp: live_append add_ac)
qed

lemma heap_rep_live: "heap_rep h bs \<Longrightarrow> heap_live h = live_blocks heap_base bs"
  by (rule heap_live_eq) (simp add: heap_rep_def)

lemma heap_rep_bounds:
  assumes "heap_rep h bs"
  shows "bs \<noteq> []" "sizes_ok bs" "extent bs \<le> 16777216"
  using assms by (simp_all add: heap_rep_def heap_layout_def)

lemma heap_end_unat: "heap_rep h bs \<Longrightarrow> unat (heap_end h) = heap_base + extent bs"
  using unat_addr [OF heap_rep_bounds(3)] unfolding heap_rep_def heap_layout_def by metis

lemma alloc_split_size: "n \<le> s \<Longrightarrow> n \<le> fst (hd (alloc_split n s))"
  by (simp add: alloc_split_def)

lemma taken_bounds:
  assumes "heap_rep h' (ps @ alloc_split n s @ qs)" and "n \<le> s"
  shows "heap_base + extent ps + 24 + fst (hd (alloc_split n s)) \<le> heap_base + extent (ps @ alloc_split n s @ qs)"
    "unat (of_nat (heap_base + extent ps + 24) :: u32) = heap_base + extent ps + 24"
    "of_nat (heap_base + extent ps + 24) \<noteq> (0 :: u32)" "(heap_base + extent ps + 24) mod 8 = 0"
proof -
  show "heap_base + extent ps + 24 + fst (hd (alloc_split n s)) \<le> heap_base + extent (ps @ alloc_split n s @ qs)"
    by (simp add: alloc_split_def)
  have le: "extent ps + 24 \<le> 16777216" and ok: "sizes_ok ps"
    using heap_rep_bounds [OF assms(1)] assms(2) by (simp_all add: extent_alloc_split)
  show u: "unat (of_nat (heap_base + extent ps + 24) :: u32) = heap_base + extent ps + 24"
    using unat_addr [OF le] by (simp add: add_ac)
  show "of_nat (heap_base + extent ps + 24) \<noteq> (0 :: u32)" using u by (intro notI) simp
  show "(heap_base + extent ps + 24) mod 8 = 0" using extent_mod_8 [OF ok] by presburger
qed

lemma kmalloc_live:
  assumes inv: "heap_inv h"
  obtains (failed) h' where "kmalloc sz h = Some (0, h')" "heap_inv h'" "heap_live h' = heap_live h"
      "h' = h\<lparr>mach := mach h'\<rparr>" "same_space (mach h') (mach h)" "control (mach h') = control (mach h)"
  | (taken) p n h' where "kmalloc sz h = Some (p, h')" "heap_inv h'" "p \<noteq> 0" "unat p mod 8 = 0" "unat sz \<le> n"
      "heap_live h' = insert (unat p, n) (heap_live h)" "(unat p, n) \<notin> heap_live h"
      "heap_base \<le> unat p" "unat p + n \<le> unat (heap_end h')" "control (mach h') = control (mach h)"
proof -
  obtain bs where rep: "heap_rep h bs" using inv by (auto simp: heap_inv_def)
  show ?thesis
  proof (cases rule: kmalloc_spec [OF rep, of sz])
    case (1 h')
    then show ?thesis by (intro failed [of h']) (auto simp: heap_inv_def heap_rep_live [OF rep] heap_rep_live)
  next
    case (2 h' n bs' ps s qs)
    have bs': "bs' = ps @ (s, False) # qs" "n \<le> s" using fit_split_Some [OF 2(3)] by simp_all
    have live: "live_blocks heap_base bs' = live_blocks heap_base bs"
      using 2(6) live_grow [OF heap_rep_bounds(1) [OF rep]] by auto
    note b = taken_bounds [OF 2(4) bs'(2)]
    let ?k = "fst (hd (alloc_split n s))"
    have "heap_live h' = insert (heap_base + extent ps + 24, ?k) (heap_live h)"
      unfolding heap_rep_live [OF 2(4)] heap_rep_live [OF rep] live_take [OF bs'(2)] by (simp only: live [unfolded bs'(1)])
    moreover have "(heap_base + extent ps + 24, ?k) \<notin> heap_live h"
    proof
      assume "(heap_base + extent ps + 24, ?k) \<in> heap_live h"
      then have "(heap_base + extent ps + 24, ?k) \<in> live_blocks heap_base ps \<union> live_blocks (heap_base + extent ps + 24 + s) qs"
        unfolding heap_rep_live [OF rep] live [symmetric] bs'(1) by (simp add: live_append add_ac)
      moreover have "8 \<le> ?k" using alloc_split_size [OF bs'(2)] request_size_Some(1) [OF 2(2)] by simp
      ultimately show False
        using live_bounds [of "heap_base + extent ps + 24" ?k heap_base ps]
          live_bounds [of "heap_base + extent ps + 24" ?k "heap_base + extent ps + 24 + s" qs] by auto
    qed
    moreover have "unat sz \<le> ?k" using alloc_split_size [OF bs'(2)] request_size_Some(4) [OF 2(2)] by simp
    moreover have "heap_base + extent ps + 24 + ?k \<le> unat (heap_end h')"
      using b(1) heap_end_unat [OF 2(4)] by linarith
    ultimately show ?thesis using 2(1,4,5) b(2-4)
      by (intro taken [of "of_nat (heap_base + extent ps + 24)" h' ?k]) (auto simp: heap_inv_def simp del: of_nat_add)
  qed
qed

lemma kfree_live:
  assumes inv: "heap_inv h" and live: "(unat p, n) \<in> heap_live h"
  obtains h' where "kfree p h = Some (True, h')" "heap_inv h'" "heap_live h' = heap_live h - {(unat p, n)}" "mach h' = mach h"
proof -
  obtain bs where rep: "heap_rep h bs" using inv by (auto simp: heap_inv_def)
  obtain ps0 qs0 where bs0: "bs = ps0 @ (n, True) # qs0" "unat p = heap_base + extent ps0 + 24"
    using live live_split unfolding heap_rep_live [OF rep] by blast
  have nz: "p \<noteq> 0" using bs0(2) by auto
  show ?thesis
  proof (cases rule: kfree_spec [OF rep nz])
    case 1
    then show ?thesis using bs0 by blast
  next
    case (2 h' ps s qs)
    have "Some (ps, (s, True), qs) = Some (ps0, (n, True), qs0)"
      using block_split_append [of heap_base ps "(s, True)" qs] block_split_append [of heap_base ps0 "(n, True)" qs0] 2(2,3) bs0 by simp
    then have eq: "ps = ps0" "s = n" "qs = qs0" by simp_all
    have "0 < n" using heap_rep_bounds(2) [OF rep] by (simp add: bs0(1))
    then have "heap_live h' = heap_live h - {(unat p, n)}"
      unfolding heap_rep_live [OF 2(4)] heap_rep_live [OF rep] live_freed_layout 2(2,3) eq by (rule live_unlink [symmetric])
    then show ?thesis using 2(1,4,5) by (intro that [of h']) (auto simp: heap_inv_def)
  qed
qed

lemma kfree_refused:
  assumes inv: "heap_inv h" and nz: "p \<noteq> 0" and dead: "\<And>n. (unat p, n) \<notin> heap_live h"
  shows "kfree p h = Some (False, h)"
proof -
  obtain bs where rep: "heap_rep h bs" using inv by (auto simp: heap_inv_def)
  show ?thesis
  proof (cases rule: kfree_spec [OF rep nz])
    case (2 h' ps s qs)
    then have "(unat p, s) \<in> heap_live h" unfolding heap_rep_live [OF rep] by (simp add: live_append)
    then show ?thesis using dead by blast
  qed
qed

lemma kfree_null: "kfree 0 h = Some (True, h)"
  using heap_irq_restore_saved [of h] by (simp add: kfree_def heap_irq_save_eq)

lemma heap_live_pos: "heap_inv h \<Longrightarrow> (x, n) \<in> heap_live h \<Longrightarrow> 0 < x \<and> 0 < n"
proof -
  assume inv: "heap_inv h" and live: "(x, n) \<in> heap_live h"
  obtain bs where rep: "heap_rep h bs" using inv by (auto simp: heap_inv_def)
  obtain ps qs where "bs = ps @ (n, True) # qs" "x = heap_base + extent ps + 24"
    using live live_split unfolding heap_rep_live [OF rep] by blast
  then show ?thesis using heap_rep_bounds(2) [OF rep] by simp
qed

interpretation kernel_heap: byte_allocator kmalloc kfree heap_inv heap_live
proof
  fix s :: heap and x n y k and sz p :: u32
  show "x = y \<and> n = k \<or> x + n \<le> y \<or> y + k \<le> x" if "heap_inv s" "(x, n) \<in> heap_live s" "(y, k) \<in> heap_live s"
  proof -
    obtain bs where rep: "heap_rep s bs" using \<open>heap_inv s\<close> by (auto simp: heap_inv_def)
    show ?thesis using that(2,3) unfolding heap_rep_live [OF rep] by (rule live_blocks_disjoint)
  qed
  show "0 < x \<and> 0 < n" if "heap_inv s" "(x, n) \<in> heap_live s" using that by (rule heap_live_pos)
  show "\<exists>p s'. kmalloc sz s = Some (p, s') \<and> heap_inv s' \<and>
      (if p = 0 then heap_live s' = heap_live s
       else \<exists>n\<ge>unat sz. (unat p, n) \<notin> heap_live s \<and> heap_live s' = insert (unat p, n) (heap_live s))" if "heap_inv s"
    by (cases rule: kmalloc_live [OF that, of sz]) auto
  show "\<exists>s'. kfree p s = Some (True, s') \<and> heap_inv s' \<and> heap_live s' = heap_live s - {(unat p, n)}"
    if "heap_inv s" "(unat p, n) \<in> heap_live s"
    by (rule kfree_live [OF that]) blast
  show "kfree 0 s = Some (True, s)" by (rule kfree_null)
  show "kfree p s = Some (False, s)" if "heap_inv s" "p \<noteq> 0" "\<And>n. (unat p, n) \<notin> heap_live s"
    using that by (rule kfree_refused)
qed

subsection \<open>Statistics\<close>

definition sizes_of :: "bool \<Rightarrow> layout \<Rightarrow> nat list" where
  "sizes_of al bs = map fst (filter (\<lambda>b. snd b = al) bs)"

lemma sizes_of_simps [simp]:
  "sizes_of al [] = []" "sizes_of al ((s, b) # bs) = (if b = al then s # sizes_of al bs else sizes_of al bs)"
  by (simp_all add: sizes_of_def)

lemma sizes_of_extent: "extent bs = sum_list (sizes_of True bs) + sum_list (sizes_of False bs) +
    24 * (length (sizes_of True bs) + length (sizes_of False bs))"
  by (induction bs rule: extent.induct) auto

definition count_layout :: "layout \<Rightarrow> heap_stats \<Rightarrow> heap_stats" where
  "count_layout bs st = st\<lparr>
     stat_free_blocks := stat_free_blocks st + of_nat (length (sizes_of False bs)),
     stat_free_bytes := stat_free_bytes st + of_nat (sum_list (sizes_of False bs)),
     stat_allocated_blocks := stat_allocated_blocks st + of_nat (length (sizes_of True bs)),
     stat_allocated_bytes := stat_allocated_bytes st + of_nat (sum_list (sizes_of True bs))\<rparr>"

lemma heap_stats_from_layout:
  assumes "heap_layout h (ps @ qs)"
  shows "heap_stats_from h (if qs = [] then 0 else of_nat (heap_base + extent ps)) st = Some (count_layout qs st)"
  using assms
proof (induction qs arbitrary: ps st)
  case Nil
  then show ?case by (subst heap_stats_from.simps) (simp add: count_layout_def)
next
  case (Cons q qs)
  obtain s al where q: "q = (s, al)" by (cases q)
  let ?a = "of_nat (heap_base + extent ps) :: u32"
  note b = layout_block [OF Cons.prems [unfolded q]]
  have neq: "HEAP_STATE_ALLOCATED \<noteq> HEAP_STATE_FREE" by simp
  have count: "blk_size k = of_nat s \<Longrightarrow> blk_state k = (if al then HEAP_STATE_ALLOCATED else HEAP_STATE_FREE) \<Longrightarrow>
      count_layout qs (count_block k st) = count_layout (q # qs) st" for k
    using neq by (cases al) (simp_all only: count_block_def count_layout_def q, simp_all add: add_ac)
  have step: "count_layout qs (count_block (blocks h ?a) st) = count_layout (q # qs) st"
    by (rule count [OF b(2) b(4)])
  have nxt: "blk_next (blocks h ?a) = (if qs = [] then 0 else of_nat (heap_base + extent (ps @ [q])))"
    using b(3) by (simp add: q add_ac)
  have "heap_stats_from h ?a st = heap_stats_from h (blk_next (blocks h ?a)) (count_block (blocks h ?a) st)"
    using validate_layout [OF Cons.prems [unfolded q]] layout_nonzero(1) [OF Cons.prems [unfolded q]]
    by (subst heap_stats_from.simps) (simp del: of_nat_add)
  also have "\<dots> = Some (count_layout (q # qs) st)"
    unfolding nxt using Cons.IH [of "ps @ [q]"] Cons.prems step by (simp del: of_nat_add)
  finally show ?case by simp
qed

lemma heap_get_stats_layout:
  assumes "heap_rep h bs"
  obtains st where "heap_get_stats h = Some st" "stat_mapped_pages st = heap_mapped_pages h"
    "unat (stat_allocated_blocks st) = length (sizes_of True bs)" "unat (stat_free_blocks st) = length (sizes_of False bs)"
    "unat (stat_allocated_bytes st) = sum_list (sizes_of True bs)" "unat (stat_free_bytes st) = sum_list (sizes_of False bs)"
proof -
  have lay: "heap_layout h ([] @ bs)" and "heap_initialized h" "heap_head h = of_nat heap_base" "bs \<noteq> []" "extent bs \<le> 16777216"
    using assms by (simp_all add: heap_rep_def heap_layout_def)
  define st where "st = count_layout bs \<lparr>stat_mapped_pages = heap_mapped_pages h, stat_allocated_blocks = 0,
      stat_free_blocks = 0, stat_allocated_bytes = 0, stat_free_bytes = 0\<rparr>"
  have "heap_get_stats h = Some st"
    using heap_stats_from_layout [OF lay] \<open>heap_initialized h\<close> \<open>heap_head h = _\<close> \<open>bs \<noteq> []\<close> by (simp add: heap_get_stats_def st_def)
  moreover have "sum_list (sizes_of True bs) \<le> 16777216" "length (sizes_of True bs) \<le> 16777216"
    "sum_list (sizes_of False bs) \<le> 16777216" "length (sizes_of False bs) \<le> 16777216"
    using \<open>extent bs \<le> 16777216\<close> sizes_of_extent [of bs] by simp_all
  ultimately show ?thesis by (intro that [of st]) (simp_all add: st_def count_layout_def unat_small)
qed

lemma heap_live_sizes: "finite (live_blocks a bs) \<and>
  (sizes_ok bs \<longrightarrow> card (live_blocks a bs) = length (sizes_of True bs) \<and> sum snd (live_blocks a bs) = sum_list (sizes_of True bs))"
proof (induction a bs rule: live_blocks.induct)
  case (2 a sz al bs)
  have "(a + 24, sz) \<notin> live_blocks (a + 24 + sz) bs" using live_bounds [of "a + 24" sz "a + 24 + sz" bs] by auto
  then show ?case using 2 by auto
qed simp

subsection \<open>Initialisation\<close>

lemma heap_init_spec:
  assumes fresh: "\<not> heap_initialized h" and inv: "vmm_inv (mach h)" and none: "page_entry (mach h) (frame_of HEAP_VIRTUAL_START) = None"
    and two: "2 \<le> card (free_frames (m_pmm (mach h)))"
  shows "\<exists>h'. heap_init h = Some h' \<and> heap_rep h' [(4072, False)] \<and> control (mach h') = control (mach h)"
proof -
  let ?v = "HEAP_VIRTUAL_START" and ?m = "mach h"
  have pmm: "pmm_inv (m_pmm ?m)" using inv by (simp add: vmm_inv_def vmm_wf_def)
  obtain a p where a: "pmm_alloc (m_pmm ?m) = (a, p)" by fastforce
  have a0: "a \<noteq> 0" using pmm_frames.alloc_failed [OF pmm] a two by fastforce
  note al = pmm_alloc_change [OF inv a a0]
  define m1 where "m1 = ?m\<lparr>m_pmm := p\<rparr>"
  have inv1: "vmm_inv m1" using al by (simp add: m1_def)
  have ok: "\<not> vmm_map_rejects ?v a VMM_WRITABLE m1"
    using inv1 al(3) unat_and_FFF [of a] unat_eq_0 [of "a AND 4095"]
    by (simp add: vmm_map_rejects_def vmm_inv_def vmm_wf_def)
  have nonempty: "free_frames (m_pmm m1) \<noteq> {}"
    using two al(4,5) card_mono [of "{frame_of a}" "free_frames (m_pmm ?m)"] by (auto simp: m1_def)
  obtain m2 where map: "vmm_map ?v a VMM_WRITABLE m1 = Some (True, m2)"
    using inv1 ok by (cases rule: vmm_map_spec) (use none nonempty in \<open>auto simp: m1_def\<close>)
  note mt = vmm_map_tables [OF inv1 map]
  let ?x = "a OR PAGE_PRESENT OR (VMM_WRITABLE AND (VMM_WRITABLE OR VMM_USER))"
  have t: "frame_of ?v = 856064" by (simp add: frame_of_def)
  have x: "page_entry m2 856064 = Some ?x" "bit ?x 1"
    using mt(8) [of 856064] unfolding t bit_or_iff bit_and_iff bit_flags by simp_all
  define h2 where "h2 = h\<lparr>mach := m2, heap_end := ?v + 4096, heap_mapped_pages := 1, heap_head := ?v\<rparr>"
  define h' where "h' = (initialize_block ?v (4096 - HEADER_SIZE) 0 0 h2)\<lparr>heap_initialized := True\<rparr>"
  have "heap_init h = Some h'"
    using fresh a a0 map by (simp add: heap_init_def Let_def m1_def h'_def h2_def)
  moreover have "heap_layout h' [(4072, False)]"
    by (simp add: heap_layout_def h'_def h2_def initialize_block_def update_block_def)
  then have "heap_rep h' [(4072, False)]"
    using mt(6) x by (auto simp: heap_rep_def h'_def h2_def initialize_block_def update_block_def)
  moreover have "control (mach h') = control ?m"
    using vmm_map_control [OF map] by (simp add: h'_def h2_def initialize_block_def update_block_def m1_def)
  ultimately show ?thesis by blast
qed

subsection \<open>Properties\<close>

text \<open>
  C13: kmalloc never panics on a consistent heap. It returns NULL, and then every header, the
  page mappings and the frame allocator are as they were; or it returns an 8-aligned payload of
  at least the requested size inside the heap that overlaps no live payload, and exactly that payload
  joins the live ones. The heap stays consistent and the interrupt flag is restored.
\<close>

theorem kmalloc_correct:
  assumes "heap_inv h"
  shows "\<exists>p h'. kmalloc sz h = Some (p, h') \<and> heap_inv h' \<and> control (mach h') = control (mach h) \<and>
    (if p = 0 then h' = h\<lparr>mach := mach h'\<rparr> \<and> same_space (mach h') (mach h)
     else unat p mod 8 = 0 \<and> heap_base \<le> unat p \<and>
       (\<exists>n. unat sz \<le> n \<and> unat p + n \<le> unat (heap_end h') \<and> heap_live h' = insert (unat p, n) (heap_live h) \<and>
            (\<forall>(q, k) \<in> heap_live h. unat p + n \<le> q \<or> q + k \<le> unat p)))"
proof (cases rule: kmalloc_live [OF assms, of sz])
  case (1 h')
  then show ?thesis by (intro exI [of _ 0] exI [of _ h']) simp
next
  case (2 p n h')
  have "unat p + n \<le> q \<or> q + j \<le> unat p" if "(q, j) \<in> heap_live h" for q j
    using kernel_heap.live_disjoint [OF 2(2), of "unat p" n q j] that 2(6,7) by auto
  then show ?thesis using 2 by (intro exI [of _ p] exI [of _ h']) auto
qed

text \<open>
  C14: a request that some free block of the heap can hold succeeds: \<^const>\<open>kmalloc\<close> takes the first
  such block, and when what is left over can hold a header and 8 bytes it becomes a free block of
  its own. Nothing else of the layout changes, and no page is mapped.
\<close>

theorem kmalloc_first_fit:
  assumes "heap_rep h bs" and "request_size sz = Some n" and "fit_split n bs = Some (ps, s, qs)"
  shows "\<exists>h'. kmalloc sz h = Some (of_nat (heap_base + extent ps + 24), h') \<and>
    heap_rep h' (ps @ alloc_split n s @ qs) \<and> mach h' = mach h"
  by (cases rule: kmalloc_spec [OF assms(1), of sz]) (use assms in auto)

text \<open>
  C15: kfree never panics on a consistent heap. It accepts NULL and exactly the addresses of live
  payloads; the payload it is given stops being live and every other one stays. Any other address is
  refused and nothing changes.
\<close>

theorem kfree_correct:
  assumes "heap_inv h"
  shows "\<exists>r h'. kfree p h = Some (r, h') \<and> heap_inv h' \<and> mach h' = mach h \<and>
    (r \<longleftrightarrow> p = 0 \<or> (\<exists>n. (unat p, n) \<in> heap_live h)) \<and> (\<not> r \<longrightarrow> h' = h) \<and>
    heap_live h' = {b \<in> heap_live h. fst b \<noteq> unat p}"
proof (cases "\<exists>n. (unat p, n) \<in> heap_live h")
  case True
  then obtain n where n: "(unat p, n) \<in> heap_live h" by blast
  obtain h' where h': "kfree p h = Some (True, h')" "heap_inv h'" "heap_live h' = heap_live h - {(unat p, n)}" "mach h' = mach h"
    by (rule kfree_live [OF assms n])
  have "k = n" if "(unat p, k) \<in> heap_live h" for k
    using kernel_heap.live_disjoint [OF assms n that] kernel_heap.live_pos [OF assms n] kernel_heap.live_pos [OF assms that] by auto
  then have "fst b \<noteq> unat p \<longleftrightarrow> b \<noteq> (unat p, n)" if "b \<in> heap_live h" for b
    using that by (cases b) auto
  then have "heap_live h' = {b \<in> heap_live h. fst b \<noteq> unat p}" unfolding h'(3) by blast
  then show ?thesis using h'(1,2,4) n by blast
next
  case False
  have "fst b \<noteq> unat p" if "b \<in> heap_live h" for b
    using False that by (cases b) auto
  then have live: "heap_live h = {b \<in> heap_live h. fst b \<noteq> unat p}" by blast
  show ?thesis
  proof (cases "p = 0")
    case True
    then show ?thesis using kfree_null [of h] assms live by blast
  next
    case nz: False
    then have "kfree p h = Some (False, h)" using kfree_refused [OF assms nz] False by blast
    then show ?thesis using assms live nz False by blast
  qed
qed

text \<open>
  C16: freeing what kmalloc returned is accepted and leaves the live payloads as they were before
  the allocation; a second release of the same address is refused.
\<close>

theorem kmalloc_kfree_roundtrip:
  assumes "heap_inv h" and "kmalloc sz h = Some (p, h1)" and "p \<noteq> 0"
  shows "\<exists>h2. kfree p h1 = Some (True, h2) \<and> heap_inv h2 \<and> heap_live h2 = heap_live h \<and> kfree p h2 = Some (False, h2)"
proof -
  obtain n where n: "heap_inv h1" "(unat p, n) \<in> heap_live h1"
    using kernel_heap.malloc_ok [OF assms(1), of sz] assms(2,3) by auto
  obtain h2 where h2: "kfree p h1 = Some (True, h2)" "heap_inv h2" "heap_live h2 = heap_live h"
    using kernel_heap.malloc_mfree [OF assms(1,2)] by blast
  then show ?thesis using kernel_heap.double_free [OF n(1) assms(3) n(2) h2(1)] by blast
qed

text \<open>
  C17: with two free frames and the first heap page unmapped, \<^const>\<open>heap_init\<close> does not panic and leaves a
  consistent heap of one free block that fills the first page.
\<close>

theorem heap_init_correct:
  assumes "\<not> heap_initialized h" and "vmm_inv (mach h)" and "page_entry (mach h) (frame_of HEAP_VIRTUAL_START) = None"
    and "2 \<le> card (free_frames (m_pmm (mach h)))"
  shows "\<exists>h'. heap_init h = Some h' \<and> heap_rep h' [(4072, False)] \<and> heap_live h' = {}"
  using heap_init_spec [OF assms] heap_rep_live by fastforce

text \<open>
  The statistics report the mapped pages, the number and the total size of the live
  payloads, and with the free blocks and one header each they add up to the whole heap.
\<close>

theorem heap_get_stats_correct:
  assumes "heap_inv h"
  shows "\<exists>st. heap_get_stats h = Some st \<and> stat_mapped_pages st = heap_mapped_pages h \<and>
    unat (stat_allocated_blocks st) = card (heap_live h) \<and> unat (stat_allocated_bytes st) = sum snd (heap_live h) \<and>
    unat (stat_allocated_bytes st) + unat (stat_free_bytes st) +
      24 * (unat (stat_allocated_blocks st) + unat (stat_free_blocks st)) = unat (heap_mapped_pages h) * 4096"
proof -
  obtain bs where rep: "heap_rep h bs" using assms by (auto simp: heap_inv_def)
  have "extent bs = unat (heap_mapped_pages h) * 4096" using rep by (simp add: heap_rep_def)
  moreover have "card (heap_live h) = length (sizes_of True bs)" "sum snd (heap_live h) = sum_list (sizes_of True bs)"
    unfolding heap_rep_live [OF rep] using heap_live_sizes [of heap_base bs] heap_rep_bounds(2) [OF rep] by simp_all
  moreover obtain st where "heap_get_stats h = Some st" "stat_mapped_pages st = heap_mapped_pages h"
    "unat (stat_allocated_blocks st) = length (sizes_of True bs)" "unat (stat_free_blocks st) = length (sizes_of False bs)"
    "unat (stat_allocated_bytes st) = sum_list (sizes_of True bs)" "unat (stat_free_bytes st) = sum_list (sizes_of False bs)"
    by (rule heap_get_stats_layout [OF rep])
  ultimately show ?thesis using sizes_of_extent [of bs] by (intro exI [of _ st]) simp
qed

subsection \<open>A heap on the sample machine\<close>

definition sample_heap :: heap where
  "sample_heap = \<lparr>blocks = (\<lambda>_. \<lparr>blk_magic = 0, blk_size = 0, blk_prev = 0, blk_next = 0, blk_state = 0, blk_reserved = 0\<rparr>),
     heap_head = 0, heap_end = 0, heap_mapped_pages = 0, heap_initialized = False, mach = sample_machine\<rparr>"

theorem heap_init_correct_witness: "\<exists>h'. heap_init sample_heap = Some h' \<and> heap_rep h' [(4072, False)] \<and> heap_live h' = {}"
  using heap_init_correct [of sample_heap] by (simp add: sample_heap_def frame_of_def)

lemma sample_heap_ready: "\<exists>h'. heap_init sample_heap = Some h' \<and> heap_rep h' [(4072, False)]"
  using heap_init_spec [of sample_heap] by (auto simp: sample_heap_def frame_of_def)

theorem kmalloc_correct_witness:
  "\<exists>h' p h''. heap_init sample_heap = Some h' \<and> kmalloc 24 h' = Some (p, h'') \<and> heap_inv h''"
  using sample_heap_ready kmalloc_correct [of _ 24] unfolding heap_inv_def by metis

theorem kmalloc_first_fit_witness:
  "\<exists>h' h''. heap_init sample_heap = Some h' \<and> kmalloc 20 h' = Some (0xD1000018, h'') \<and> heap_rep h'' [(24, True), (4024, False)]"
proof -
  obtain h' where h': "heap_init sample_heap = Some h'" "heap_rep h' [(4072, False)]" using sample_heap_ready by blast
  then show ?thesis using kmalloc_first_fit [OF h'(2), of 20 24 "[]" 4072 "[]"]
    by (auto simp: request_size_def alloc_split_def)
qed

theorem kfree_correct_witness:
  "\<exists>h'. heap_init sample_heap = Some h' \<and> kfree 0xD1000018 h' = Some (False, h')"
proof -
  obtain h' where h': "heap_init sample_heap = Some h'" "heap_rep h' [(4072, False)]" using sample_heap_ready by blast
  then show ?thesis using kfree_correct [of h' "0xD1000018"] heap_rep_live [OF h'(2)] unfolding heap_inv_def by fastforce
qed

theorem kmalloc_kfree_roundtrip_witness:
  "\<exists>h' p h1 h2. heap_init sample_heap = Some h' \<and> kmalloc 20 h' = Some (p, h1) \<and> p \<noteq> 0 \<and> kfree p h1 = Some (True, h2) \<and>
     heap_live h2 = {} \<and> kfree p h2 = Some (False, h2)"
proof -
  obtain h' where h': "heap_init sample_heap = Some h'" "heap_rep h' [(4072, False)]" using sample_heap_ready by blast
  obtain h1 where h1: "kmalloc 20 h' = Some (0xD1000018, h1)"
    by (cases rule: kmalloc_spec [OF h'(2), of 20]) (auto simp: request_size_def)
  show ?thesis
    using kmalloc_kfree_roundtrip [OF _ h1] h' heap_rep_live [OF h'(2)] h1 unfolding heap_inv_def by fastforce
qed

theorem heap_get_stats_correct_witness:
  "\<exists>h' st. heap_init sample_heap = Some h' \<and> heap_get_stats h' = Some st \<and> unat (stat_allocated_blocks st) = 0"
proof -
  obtain h' where h': "heap_init sample_heap = Some h'" "heap_rep h' [(4072, False)]" using sample_heap_ready by blast
  then show ?thesis using heap_get_stats_correct [of h'] heap_rep_live [OF h'(2)] unfolding heap_inv_def by fastforce
qed

end
