(* ===== verification/Address_Space.thy ===== *)
theory Address_Space
  imports Vmm
begin

text \<open>
  User address spaces (\<open>kernel/mm/address_space.c\<close>). An address space is the physical address of its page
  directory. The operations reach directory and page tables through two pages of a window in the kernel
  half, whose page-directory entry belongs to the active directory alone, and hold the window's lock with
  interrupts off. A failed check of a window invariant is a panic, the value \<^const>\<open>None\<close>.
\<close>

abbreviation (input) ADDRESS_SPACE_DIRECTORY_WINDOW :: u32 where "ADDRESS_SPACE_DIRECTORY_WINDOW \<equiv> 0xD0800000"
abbreviation (input) ADDRESS_SPACE_TABLE_WINDOW :: u32 where "ADDRESS_SPACE_TABLE_WINDOW \<equiv> 0xD0801000"
abbreviation (input) ADDRESS_SPACE_WINDOW_PDE :: nat where "ADDRESS_SPACE_WINDOW_PDE \<equiv> 834"
abbreviation (input) ADDRESS_SPACE_TEST_VIRTUAL :: u32 where "ADDRESS_SPACE_TEST_VIRTUAL \<equiv> 0x00400000"
abbreviation (input) ADDRESS_SPACE_TEST_VALUE :: u32 where "ADDRESS_SPACE_TEST_VALUE \<equiv> 0xA55A13C7"

definition valid_space :: "u32 \<Rightarrow> bool" where
  "valid_space space \<longleftrightarrow> space \<noteq> 0 \<and> space AND (4096 - 1) = 0"

definition acquire_window :: "machine \<Rightarrow> bool \<times> machine" where
  "acquire_window m =
     (case irq_save_disable m of (flags, m) \<Rightarrow>
        if address_space_window_busy m then (False, irq_restore flags m)
        else (True, m\<lparr>address_space_window_busy := True, address_space_window_irq_flags := flags\<rparr>))"

definition release_window :: "machine \<Rightarrow> machine" where
  "release_window m =
     (let flags = address_space_window_irq_flags m in irq_restore flags (m\<lparr>address_space_window_busy := False\<rparr>))"

definition map_window :: "u32 \<Rightarrow> u32 \<Rightarrow> machine \<Rightarrow> (bool \<times> machine) option" where
  "map_window virtual_address physical_address m = vmm_map virtual_address physical_address VMM_WRITABLE m"

definition unmap_window :: "u32 \<Rightarrow> u32 \<Rightarrow> machine \<Rightarrow> machine option" where
  "unmap_window virtual_address expected_physical m = do {
     (physical, m) \<leftarrow> vmm_unmap virtual_address m;
     if physical \<noteq> Some expected_physical then None else Some m
   }"

definition zero_page :: "u32 \<Rightarrow> machine \<Rightarrow> machine option" where
  "zero_page page m = for_opt 0 PAGE_ENTRY_COUNT (\<lambda>index. vwrite (page + 4 * of_nat index) 0) m"

definition refresh_active_translation :: "u32 \<Rightarrow> machine \<Rightarrow> machine option" where
  "refresh_active_translation space m =
     (if vmm_current_page_directory m = space
      then case vmm_activate_page_directory space m of (ok, m) \<Rightarrow> if ok then Some m else None
      else Some m)"

text \<open>\<open>pmm_free\<close> where a failure is a panic, and the entries of the two windows.\<close>

definition free_or_panic :: "u32 \<Rightarrow> machine \<Rightarrow> machine option" where
  "free_or_panic physical m = (case pmm_free physical (m_pmm m) of (ok, p) \<Rightarrow> if ok then Some (m\<lparr>m_pmm := p\<rparr>) else None)"

definition directory_get :: "u32 \<Rightarrow> machine \<Rightarrow> u32 option" where
  "directory_get index m = vread (ADDRESS_SPACE_DIRECTORY_WINDOW + 4 * index) m"

definition directory_set :: "u32 \<Rightarrow> u32 \<Rightarrow> machine \<Rightarrow> machine option" where
  "directory_set index x m = vwrite (ADDRESS_SPACE_DIRECTORY_WINDOW + 4 * index) x m"

definition table_get :: "u32 \<Rightarrow> machine \<Rightarrow> u32 option" where
  "table_get index m = vread (ADDRESS_SPACE_TABLE_WINDOW + 4 * index) m"

definition table_set :: "u32 \<Rightarrow> u32 \<Rightarrow> machine \<Rightarrow> machine option" where
  "table_set index x m = vwrite (ADDRESS_SPACE_TABLE_WINDOW + 4 * index) x m"

text \<open>The copy of the kernel half of the directory, without the window's own entry.\<close>

definition copy_kernel_entries :: "machine \<Rightarrow> machine option" where
  "copy_kernel_entries m = for_opt KERNEL_PDE_INDEX RECURSIVE_PDE_INDEX (\<lambda>index m.
     if index \<noteq> ADDRESS_SPACE_WINDOW_PDE
     then do { x \<leftarrow> table_get (of_nat index) m; directory_set (of_nat index) x m }
     else Some m) m"

text \<open>The two ways out of an operation: with the directory window mapped, and with both.\<close>

definition close_directory :: "u32 \<Rightarrow> machine \<Rightarrow> machine option" where
  "close_directory space m = do { m \<leftarrow> unmap_window ADDRESS_SPACE_DIRECTORY_WINDOW space m; Some (release_window m) }"

definition close_windows :: "u32 \<Rightarrow> u32 \<Rightarrow> machine \<Rightarrow> machine option" where
  "close_windows space table_physical m = do {
     m \<leftarrow> unmap_window ADDRESS_SPACE_TABLE_WINDOW table_physical m;
     close_directory space m
   }"

subsection \<open>Creating\<close>

definition vmm_address_space_create :: "u32 \<Rightarrow> machine \<Rightarrow> (bool \<times> u32 \<times> machine) option" where
  "vmm_address_space_create space m =
     (let kernel_physical = vmm_kernel_page_directory m
      in if space \<noteq> 0 \<or> kernel_physical = 0 then Some (False, space, m)
         else case acquire_window m of (ok, m) \<Rightarrow>
           if \<not> ok then Some (False, space, m)
           else case pmm_alloc (m_pmm m) of (physical, p) \<Rightarrow>
             let m = m\<lparr>m_pmm := p\<rparr>
             in if physical = 0 then Some (False, space, release_window m)
                else do {
                  (ok, m) \<leftarrow> map_window ADDRESS_SPACE_DIRECTORY_WINDOW physical m;
                  if \<not> ok then do {
                    m \<leftarrow> free_or_panic physical m;
                    Some (False, space, release_window m)
                  }
                  else do {
                    (ok, m) \<leftarrow> map_window ADDRESS_SPACE_TABLE_WINDOW kernel_physical m;
                    if \<not> ok then do {
                      m \<leftarrow> unmap_window ADDRESS_SPACE_DIRECTORY_WINDOW physical m;
                      m \<leftarrow> free_or_panic physical m;
                      Some (False, space, release_window m)
                    }
                    else do {
                      m \<leftarrow> zero_page ADDRESS_SPACE_DIRECTORY_WINDOW m;
                      m \<leftarrow> copy_kernel_entries m;
                      m \<leftarrow> directory_set (of_nat RECURSIVE_PDE_INDEX) (physical OR PAGE_PRESENT OR VMM_WRITABLE) m;
                      m \<leftarrow> unmap_window ADDRESS_SPACE_TABLE_WINDOW kernel_physical m;
                      m \<leftarrow> unmap_window ADDRESS_SPACE_DIRECTORY_WINDOW physical m;
                      Some (True, physical, release_window m)
                    }
                  }
                })"

subsection \<open>Mapping\<close>

text \<open>The table for a directory entry: the one it points to, or a new frame; 0 when there is none.\<close>

definition table_for :: "u32 \<Rightarrow> machine \<Rightarrow> u32 \<times> bool \<times> machine" where
  "table_for directory_entry m =
     (if directory_entry AND PAGE_PRESENT = 0
      then case pmm_alloc (m_pmm m) of (physical, p) \<Rightarrow> (physical, True, m\<lparr>m_pmm := p\<rparr>)
      else (directory_entry AND PAGE_MASK, False, m))"

definition vmm_address_space_map :: "u32 \<Rightarrow> u32 \<Rightarrow> u32 \<Rightarrow> u32 \<Rightarrow> machine \<Rightarrow> (bool \<times> machine) option" where
  "vmm_address_space_map space virtual_address physical_address flags m =
     (if \<not> valid_space space \<or> virtual_address \<ge> KERNEL_BASE \<or> virtual_address AND (4096 - 1) \<noteq> 0 \<or>
         physical_address AND (4096 - 1) \<noteq> 0 \<or> physical_address = 0
      then Some (False, m)
      else case acquire_window m of (ok, m) \<Rightarrow>
        if \<not> ok then Some (False, m)
        else do {
          (ok, m) \<leftarrow> map_window ADDRESS_SPACE_DIRECTORY_WINDOW space m;
          if \<not> ok then Some (False, release_window m)
          else do {
            let directory_index = drop_bit 22 virtual_address;
            let table_index = drop_bit 12 virtual_address AND 0x3FF;
            entry \<leftarrow> directory_get directory_index m;
            case table_for entry m of (table_physical, new_table, m) \<Rightarrow>
              if new_table \<and> table_physical = 0 then do { m \<leftarrow> close_directory space m; Some (False, m) }
              else do {
                (ok, m) \<leftarrow> map_window ADDRESS_SPACE_TABLE_WINDOW table_physical m;
                if \<not> ok then do {
                  m \<leftarrow> (if new_table then free_or_panic table_physical m else Some m);
                  m \<leftarrow> close_directory space m;
                  Some (False, m)
                }
                else do {
                  m \<leftarrow> (if new_table then do {
                          m \<leftarrow> zero_page ADDRESS_SPACE_TABLE_WINDOW m;
                          directory_set directory_index (table_physical OR PAGE_PRESENT OR VMM_WRITABLE OR VMM_USER) m
                        } else Some m);
                  present_entry \<leftarrow> table_get table_index m;
                  if present_entry AND PAGE_PRESENT \<noteq> 0 then do {
                    m \<leftarrow> (if new_table then directory_set directory_index 0 m else Some m);
                    m \<leftarrow> unmap_window ADDRESS_SPACE_TABLE_WINDOW table_physical m;
                    m \<leftarrow> unmap_window ADDRESS_SPACE_DIRECTORY_WINDOW space m;
                    m \<leftarrow> (if new_table then free_or_panic table_physical m else Some m);
                    Some (False, release_window m)
                  }
                  else do {
                    m \<leftarrow> table_set table_index (physical_address OR PAGE_PRESENT OR VMM_USER OR (flags AND VMM_WRITABLE)) m;
                    m \<leftarrow> unmap_window ADDRESS_SPACE_TABLE_WINDOW table_physical m;
                    m \<leftarrow> unmap_window ADDRESS_SPACE_DIRECTORY_WINDOW space m;
                    m \<leftarrow> refresh_active_translation space m;
                    Some (True, release_window m)
                  }
                }
              }
          }
        })"

subsection \<open>Changing, removing and reading one entry\<close>

definition vmm_address_space_protect :: "u32 \<Rightarrow> u32 \<Rightarrow> u32 \<Rightarrow> machine \<Rightarrow> (bool \<times> machine) option" where
  "vmm_address_space_protect space virtual_address flags m =
     (if \<not> valid_space space \<or> virtual_address \<ge> KERNEL_BASE \<or> virtual_address AND (4096 - 1) \<noteq> 0 \<or> flags AND NOT VMM_WRITABLE \<noteq> 0
      then Some (False, m)
      else case acquire_window m of (ok, m) \<Rightarrow>
        if \<not> ok then Some (False, m)
        else do {
          (ok, m) \<leftarrow> map_window ADDRESS_SPACE_DIRECTORY_WINDOW space m;
          if \<not> ok then Some (False, release_window m)
          else do {
            let directory_index = drop_bit 22 virtual_address;
            let table_index = drop_bit 12 virtual_address AND 0x3FF;
            dentry \<leftarrow> directory_get directory_index m;
            if dentry AND PAGE_PRESENT = 0 then do { m \<leftarrow> close_directory space m; Some (False, m) }
            else do {
              let table_physical = dentry AND PAGE_MASK;
              (ok, m) \<leftarrow> map_window ADDRESS_SPACE_TABLE_WINDOW table_physical m;
              if \<not> ok then do { m \<leftarrow> close_directory space m; Some (False, m) }
              else do {
                entry \<leftarrow> table_get table_index m;
                if entry AND PAGE_PRESENT = 0 then do { m \<leftarrow> close_windows space table_physical m; Some (False, m) }
                else do {
                  m \<leftarrow> table_set table_index ((entry AND PAGE_MASK) OR PAGE_PRESENT OR VMM_USER OR (flags AND VMM_WRITABLE)) m;
                  m \<leftarrow> unmap_window ADDRESS_SPACE_TABLE_WINDOW table_physical m;
                  m \<leftarrow> unmap_window ADDRESS_SPACE_DIRECTORY_WINDOW space m;
                  m \<leftarrow> refresh_active_translation space m;
                  Some (True, release_window m)
                }
              }
            }
          }
        })"

fun window_table_empty :: "nat list \<Rightarrow> machine \<Rightarrow> bool option" where
  "window_table_empty [] m = Some True"
| "window_table_empty (index # rest) m = do {
     entry \<leftarrow> table_get (of_nat index) m;
     if entry AND PAGE_PRESENT \<noteq> 0 then Some False else window_table_empty rest m
   }"

definition vmm_address_space_unmap :: "u32 \<Rightarrow> u32 \<Rightarrow> machine \<Rightarrow> (u32 option \<times> machine) option" where
  "vmm_address_space_unmap space virtual_address m =
     (if \<not> valid_space space \<or> virtual_address \<ge> KERNEL_BASE \<or> virtual_address AND (4096 - 1) \<noteq> 0
      then Some (None, m)
      else case acquire_window m of (ok, m) \<Rightarrow>
        if \<not> ok then Some (None, m)
        else do {
          (ok, m) \<leftarrow> map_window ADDRESS_SPACE_DIRECTORY_WINDOW space m;
          if \<not> ok then Some (None, release_window m)
          else do {
            let directory_index = drop_bit 22 virtual_address;
            let table_index = drop_bit 12 virtual_address AND 0x3FF;
            dentry \<leftarrow> directory_get directory_index m;
            if dentry AND PAGE_PRESENT = 0 then do { m \<leftarrow> close_directory space m; Some (None, m) }
            else do {
              let table_physical = dentry AND PAGE_MASK;
              (ok, m) \<leftarrow> map_window ADDRESS_SPACE_TABLE_WINDOW table_physical m;
              if \<not> ok then do { m \<leftarrow> close_directory space m; Some (None, m) }
              else do {
                entry \<leftarrow> table_get table_index m;
                if entry AND PAGE_PRESENT = 0 then do { m \<leftarrow> close_windows space table_physical m; Some (None, m) }
                else do {
                  m \<leftarrow> table_set table_index 0 m;
                  is_empty \<leftarrow> window_table_empty [0..<PAGE_ENTRY_COUNT] m;
                  m \<leftarrow> unmap_window ADDRESS_SPACE_TABLE_WINDOW table_physical m;
                  m \<leftarrow> (if is_empty then do { m \<leftarrow> directory_set directory_index 0 m; free_or_panic table_physical m } else Some m);
                  m \<leftarrow> unmap_window ADDRESS_SPACE_DIRECTORY_WINDOW space m;
                  m \<leftarrow> refresh_active_translation space m;
                  Some (Some (entry AND PAGE_MASK), release_window m)
                }
              }
            }
          }
        })"

definition vmm_address_space_query :: "u32 \<Rightarrow> u32 \<Rightarrow> machine \<Rightarrow> ((u32 \<times> u32) option \<times> machine) option" where
  "vmm_address_space_query space virtual_address m =
     (if \<not> valid_space space \<or> virtual_address \<ge> KERNEL_BASE then Some (None, m)
      else case acquire_window m of (ok, m) \<Rightarrow>
        if \<not> ok then Some (None, m)
        else do {
          (ok, m) \<leftarrow> map_window ADDRESS_SPACE_DIRECTORY_WINDOW space m;
          if \<not> ok then Some (None, release_window m)
          else do {
            let directory_index = drop_bit 22 virtual_address;
            let table_index = drop_bit 12 virtual_address AND 0x3FF;
            dentry \<leftarrow> directory_get directory_index m;
            if dentry AND PAGE_PRESENT = 0 then do { m \<leftarrow> close_directory space m; Some (None, m) }
            else do {
              let table_physical = dentry AND PAGE_MASK;
              (ok, m) \<leftarrow> map_window ADDRESS_SPACE_TABLE_WINDOW table_physical m;
              if \<not> ok then do { m \<leftarrow> close_directory space m; Some (None, m) }
              else do {
                entry \<leftarrow> table_get table_index m;
                let physical_address = (entry AND PAGE_MASK) OR (virtual_address AND (4096 - 1));
                let flags = entry AND (VMM_WRITABLE OR VMM_USER);
                dentry \<leftarrow> directory_get directory_index m;
                let flags = (if dentry AND VMM_WRITABLE = 0 then flags AND NOT VMM_WRITABLE else flags);
                let flags = (if dentry AND VMM_USER = 0 then flags AND NOT VMM_USER else flags);
                m \<leftarrow> close_windows space table_physical m;
                Some (if entry AND PAGE_PRESENT \<noteq> 0 then Some (physical_address, flags) else None, m)
              }
            }
          }
        })"

subsection \<open>Activating and destroying\<close>

definition vmm_address_space_activate :: "u32 \<Rightarrow> machine \<Rightarrow> (bool \<times> machine) option" where
  "vmm_address_space_activate space m =
     (let kernel_physical = vmm_kernel_page_directory m
      in if \<not> valid_space space \<or> kernel_physical = 0 then Some (False, m)
         else case acquire_window m of (ok, m) \<Rightarrow>
           if \<not> ok then Some (False, m)
           else do {
             (ok, m) \<leftarrow> map_window ADDRESS_SPACE_DIRECTORY_WINDOW space m;
             if \<not> ok then Some (False, release_window m)
             else do {
               (ok, m) \<leftarrow> map_window ADDRESS_SPACE_TABLE_WINDOW kernel_physical m;
               if \<not> ok then do { m \<leftarrow> close_directory space m; Some (False, m) }
               else do {
                 m \<leftarrow> copy_kernel_entries m;
                 m \<leftarrow> unmap_window ADDRESS_SPACE_TABLE_WINDOW kernel_physical m;
                 m \<leftarrow> unmap_window ADDRESS_SPACE_DIRECTORY_WINDOW space m;
                 case vmm_activate_page_directory space m of (ok, m) \<Rightarrow> Some (ok, release_window m)
               }
             }
           })"

text \<open>The inner loop of \<open>vmm_address_space_destroy\<close>, over the entries of one table, and its outer loop.\<close>

definition free_table_pages :: "machine \<Rightarrow> machine option" where
  "free_table_pages m = for_opt 0 PAGE_ENTRY_COUNT (\<lambda>table_index m. do {
     entry \<leftarrow> table_get (of_nat table_index) m;
     if entry AND PAGE_PRESENT \<noteq> 0
     then do { m \<leftarrow> table_set (of_nat table_index) 0 m; free_or_panic (entry AND PAGE_MASK) m }
     else Some m
   }) m"

definition free_tables :: "machine \<Rightarrow> machine option" where
  "free_tables m = for_opt 0 KERNEL_PDE_INDEX (\<lambda>directory_index m. do {
     dentry \<leftarrow> directory_get (of_nat directory_index) m;
     if dentry AND PAGE_PRESENT = 0 then Some m
     else do {
       let table_physical = dentry AND PAGE_MASK;
       (ok, m) \<leftarrow> map_window ADDRESS_SPACE_TABLE_WINDOW table_physical m;
       if \<not> ok then None
       else do {
         m \<leftarrow> free_table_pages m;
         m \<leftarrow> unmap_window ADDRESS_SPACE_TABLE_WINDOW table_physical m;
         m \<leftarrow> directory_set (of_nat directory_index) 0 m;
         free_or_panic table_physical m
       }
     }
   }) m"

definition vmm_address_space_destroy :: "u32 \<Rightarrow> machine \<Rightarrow> (bool \<times> u32 \<times> machine) option" where
  "vmm_address_space_destroy space m =
     (if \<not> valid_space space then Some (False, space, m)
      else case acquire_window m of (ok, m) \<Rightarrow>
        if \<not> ok then Some (False, space, m)
        else if vmm_current_page_directory m = space then Some (False, space, release_window m)
        else do {
          (ok, m) \<leftarrow> map_window ADDRESS_SPACE_DIRECTORY_WINDOW space m;
          if \<not> ok then Some (False, space, release_window m)
          else do {
            m \<leftarrow> free_tables m;
            m \<leftarrow> unmap_window ADDRESS_SPACE_DIRECTORY_WINDOW space m;
            m \<leftarrow> free_or_panic space m;
            Some (True, 0, release_window m)
          }
        })"

subsection \<open>Self test\<close>

text \<open>One conjunct of the test's condition: the test ends with \<^const>\<open>False\<close> where it does not hold.\<close>

definition expect :: "bool \<Rightarrow> machine \<Rightarrow> (machine \<Rightarrow> (bool \<times> machine) option) \<Rightarrow> (bool \<times> machine) option" where
  "expect ok m k = (if ok then k m else Some (False, m))"

text \<open>The conditions up to the activation, and those after the return to the kernel's directory.\<close>

definition self_test_inactive :: "u32 \<Rightarrow> u32 \<Rightarrow> u32 \<Rightarrow> machine \<Rightarrow> (bool \<times> machine) option" where
  "self_test_inactive space first second m = do {
     (ok, m) \<leftarrow> vmm_address_space_map space ADDRESS_SPACE_TEST_VIRTUAL first VMM_WRITABLE m;
     expect ok m (\<lambda>m. do {
     (ok, m) \<leftarrow> vmm_address_space_map space (ADDRESS_SPACE_TEST_VIRTUAL + 4096) second 0 m;
     expect ok m (\<lambda>m. do {
     (again, m) \<leftarrow> vmm_address_space_map space ADDRESS_SPACE_TEST_VIRTUAL first VMM_WRITABLE m;
     expect (\<not> again) m (\<lambda>m. do {
     (queried, m) \<leftarrow> vmm_address_space_query space (ADDRESS_SPACE_TEST_VIRTUAL + 17) m;
     expect (queried = Some (first + 17, VMM_USER OR VMM_WRITABLE)) m (\<lambda>m. do {
     (ok, m) \<leftarrow> vmm_address_space_protect space ADDRESS_SPACE_TEST_VIRTUAL 0 m;
     expect ok m (\<lambda>m. do {
     (queried, m) \<leftarrow> vmm_address_space_query space ADDRESS_SPACE_TEST_VIRTUAL m;
     expect (map_option snd queried = Some VMM_USER) m (\<lambda>m. do {
     (ok, m) \<leftarrow> vmm_address_space_protect space ADDRESS_SPACE_TEST_VIRTUAL VMM_WRITABLE m;
     expect ok m (\<lambda>m. do {
     (ok, m) \<leftarrow> vmm_address_space_protect space KERNEL_BASE VMM_WRITABLE m;
     expect (\<not> ok) m (\<lambda>m. do {
     (ok, m) \<leftarrow> vmm_address_space_map space KERNEL_BASE first VMM_WRITABLE m;
     expect (\<not> ok) m (vmm_address_space_activate space) }) }) }) }) }) }) }) }) }"

definition self_test_active :: "u32 \<Rightarrow> u32 \<Rightarrow> machine \<Rightarrow> (bool \<times> u32 \<times> machine) option" where
  "self_test_active space first m = do {
     let same = (vmm_current_page_directory m = space);
     queried \<leftarrow> (if same then vmm_query (ADDRESS_SPACE_TEST_VIRTUAL + 17) m else Some None);
     let active_checks = (same \<and> queried = Some (first + 17, VMM_USER OR VMM_WRITABLE));
     m \<leftarrow> vwrite ADDRESS_SPACE_TEST_VIRTUAL ADDRESS_SPACE_TEST_VALUE m;
     if \<not> active_checks then Some (False, space, m)
     else do {
       x \<leftarrow> vread ADDRESS_SPACE_TEST_VIRTUAL m;
       if x \<noteq> ADDRESS_SPACE_TEST_VALUE then Some (False, space, m)
       else do {
         (destroyed, space, m) \<leftarrow> vmm_address_space_destroy space m;
         Some (\<not> destroyed, space, m)
       }
     }
   }"

definition vmm_address_space_self_test :: "machine \<Rightarrow> (bool \<times> machine) option" where
  "vmm_address_space_self_test m =
     (let before = free_pages (m_pmm m);
          kernel_physical = vmm_kernel_page_directory m
      in if kernel_physical = 0 \<or> vmm_current_page_directory m \<noteq> kernel_physical then Some (False, m)
         else do {
           (ok, space, m) \<leftarrow> vmm_address_space_create 0 m;
           expect ok m (\<lambda>m.
             let (first, p) = pmm_alloc (m_pmm m);
                 (second, p) = pmm_alloc p;
                 m = m\<lparr>m_pmm := p\<rparr>
             in expect (first \<noteq> 0 \<and> second \<noteq> 0) m (\<lambda>m. do {
               (ok, m) \<leftarrow> self_test_inactive space first second m;
               expect ok m (\<lambda>m. do {
                 (active_checks, space, m) \<leftarrow> self_test_active space first m;
                 case vmm_activate_kernel_address_space m of (ok, m) \<Rightarrow>
                 expect (ok \<and> vmm_current_page_directory m = kernel_physical \<and> active_checks) m (\<lambda>m. do {
                   (unmapped, m) \<leftarrow> vmm_address_space_unmap space ADDRESS_SPACE_TEST_VIRTUAL m;
                   expect (unmapped = Some first) m (\<lambda>m.
                     case pmm_free first (m_pmm m) of (ok, p) \<Rightarrow>
                     expect ok (m\<lparr>m_pmm := p\<rparr>) (\<lambda>m. do {
                       (ok, space, m) \<leftarrow> vmm_address_space_destroy space m;
                       expect ok m (\<lambda>m. Some (free_pages (m_pmm m) = before, m))
                     }))
                 })
               })
             }))
         })"

end
