(* ===== verification/Space_Correct.thy ===== *)
theory Space_Correct
  imports Address_Space
begin

text \<open>
  What the operations on a user address space do while another directory is active: they edit the tables
  of that space through the window and leave the active address space and all other memory as they were.
\<close>

subsection \<open>The part of the machine the VMM depends on\<close>

lemma pde_cong: "ram m' = ram m \<Longrightarrow> cr3 m' = cr3 m \<Longrightarrow> pde m' = pde m"
  by (rule ext) (simp add: pde_def)

lemma vmm_cong:
  assumes "m_pmm m' = m_pmm m" "ram m' = ram m" "cr3 m' = cr3 m" "vmm_initialized m' = vmm_initialized m"
  shows "vmm_inv m' \<longleftrightarrow> vmm_inv m" and "page_entry m' = page_entry m" and "table_frames m' = table_frames m"
proof -
  have pde: "pde m' = pde m" by (rule pde_cong [OF assms(2,3)])
  have pte: "pte m' = pte m" by (intro ext) (simp add: pte_def pde assms)
  show "vmm_inv m' \<longleftrightarrow> vmm_inv m" unfolding vmm_inv_def vmm_wf_def table_ok_def recursive_ok_def pde pte assms ..
  show "page_entry m' = page_entry m" by (rule ext) (simp add: page_entry_def pde pte)
  show "table_frames m' = table_frames m" by (simp add: table_frames_def pde assms)
qed

text \<open>Two machines whose active directories map the same pages through the same tables.\<close>

definition same_maps :: "machine \<Rightarrow> machine \<Rightarrow> bool" where
  "same_maps m m' \<longleftrightarrow> same_space (m\<lparr>m_pmm := m_pmm m'\<rparr>) m'"

text \<open>The same, where the first has taken the frames \<open>X\<close> from the allocator in addition.\<close>

definition took :: "nat set \<Rightarrow> machine \<Rightarrow> machine \<Rightarrow> bool" where
  "took X m m' \<longleftrightarrow> same_maps m m' \<and> free_frames (m_pmm m) = free_frames (m_pmm m') - X \<and>
     allocated_frames (m_pmm m) = allocated_frames (m_pmm m') \<union> X"

lemma tookD:
  assumes "took X m m'"
  shows "same_maps m m'" "free_frames (m_pmm m) = free_frames (m_pmm m') - X"
    "allocated_frames (m_pmm m) = allocated_frames (m_pmm m') \<union> X"
  using assms by (simp_all add: took_def)

lemma same_maps_refl [simp]: "same_maps m m"
  by (simp add: same_maps_def)

lemma same_mapsD:
  assumes "same_maps m m'"
  shows "cr3 m = cr3 m'" "n < 1047552 \<Longrightarrow> page_entry m n = page_entry m' n"
    "i < 1023 \<Longrightarrow> bit (pde m i) 0 \<longleftrightarrow> bit (pde m' i) 0" "i < 1023 \<Longrightarrow> bit (pde m i) 0 \<Longrightarrow> pde m i = pde m' i"
    "table_frames m = table_frames m'"
  using same_spaceD [OF assms [unfolded same_maps_def]] same_space_tables [OF assms [unfolded same_maps_def]] by simp_all

lemma same_mapsI:
  assumes "cr3 m = cr3 m'" "\<And>n. n < 1047552 \<Longrightarrow> page_entry m n = page_entry m' n"
    "\<And>i. i < 1023 \<Longrightarrow> (bit (pde m i) 0 \<longleftrightarrow> bit (pde m' i) 0) \<and> (bit (pde m i) 0 \<longrightarrow> pde m i = pde m' i)"
  shows "same_maps m m'"
  unfolding same_maps_def
proof (rule same_spaceI)
  show "cr3 (m\<lparr>m_pmm := m_pmm m'\<rparr>) = cr3 m'" using assms(1) by simp
  show "page_entry (m\<lparr>m_pmm := m_pmm m'\<rparr>) n = page_entry m' n" if "n < 1047552" for n
    unfolding with_pmm by (rule assms(2) [OF that])
  show "(bit (pde (m\<lparr>m_pmm := m_pmm m'\<rparr>) i) 0 \<longleftrightarrow> bit (pde m' i) 0) \<and>
      (bit (pde (m\<lparr>m_pmm := m_pmm m'\<rparr>) i) 0 \<longrightarrow> pde (m\<lparr>m_pmm := m_pmm m'\<rparr>) i = pde m' i)" if "i < 1023" for i
    unfolding with_pmm by (rule assms(3) [OF that])
qed simp

lemma same_maps_trans: "same_maps a b \<Longrightarrow> same_maps b c \<Longrightarrow> same_maps a c"
proof (rule same_mapsI)
  assume ab: "same_maps a b" and bc: "same_maps b c"
  show "cr3 a = cr3 c" using same_mapsD(1) [OF ab] same_mapsD(1) [OF bc] by simp
  show "page_entry a n = page_entry c n" if "n < 1047552" for n
    using same_mapsD(2) [OF ab that] same_mapsD(2) [OF bc that] by simp
  show "(bit (pde a i) 0 \<longleftrightarrow> bit (pde c i) 0) \<and> (bit (pde a i) 0 \<longrightarrow> pde a i = pde c i)" if "i < 1023" for i
    using same_mapsD(3,4) [OF ab that] same_mapsD(3,4) [OF bc that] by simp
qed

lemma took_refl [simp]: "took {} m m"
  by (simp add: took_def)

subsection \<open>Frames apart from the active tables\<close>

definition apart :: "machine \<Rightarrow> nat set \<Rightarrow> bool" where
  "apart m G \<longleftrightarrow> G \<inter> table_frames m = {} \<and> G \<subseteq> allocated_frames (m_pmm m)"

lemma allocated_not_free: "g \<in> allocated_frames p \<Longrightarrow> g \<notin> free_frames p"
  using pmm_frames.avail_held_disjoint [of p] by blast

lemma tables_only_apart:
  assumes "tables_only m m'" and "apart m G" and "g \<in> G"
  shows "ram m' g = ram m g"
  using assms allocated_not_free [of g "m_pmm m"] by (auto simp: tables_only_def apart_def)

lemma apart_mono: "apart m G \<Longrightarrow> H \<subseteq> G \<Longrightarrow> apart m H"
  by (auto simp: apart_def)


subsection \<open>Opening and closing a window\<close>

lemma unmap_after_map:
  assumes inv: "vmm_inv m" and map: "vmm_map v a fl m = Some (True, m')"
    and m2: "vmm_inv m2" "took X m2 m'" "X \<subseteq> free_frames (m_pmm m')"
  shows "\<exists>m''. vmm_unmap v m2 = Some (Some a, m'') \<and> vmm_inv m'' \<and> took X m'' m \<and> tables_only m2 m''"
proof -
  let ?d = "unat (drop_bit 22 v)" and ?x = "a OR PAGE_PRESENT OR (fl AND (VMM_WRITABLE OR VMM_USER))"
  have ok: "\<not> vmm_map_rejects v a fl m" using map by (auto simp: vmm_map_def)
  note t = map_target [OF ok] and k = tookD [OF m2(2)]
  note s = same_mapsD [OF k(1)]
  have pmm0: "pmm_inv (m_pmm m)" and pmm2: "pmm_inv (m_pmm m2)" using inv m2(1) by (simp_all add: vmm_inv_def vmm_wf_def)
  have last: "last_in_table m2 v \<longleftrightarrow> \<not> bit (pde m ?d) 0"
    using vmm_map_last [OF inv map k(1) [unfolded same_maps_def]] by (simp add: last_in_table_def)
  from inv ok show ?thesis
  proof (cases rule: vmm_map_spec)
    case (mapped m1)
    have m1: "m1 = m'" using map mapped(2) by simp
    have entry': "page_entry m2 (frame_of v) = Some ?x" using mapped(5) t(8) m1 s(2) by simp
    have pd': "bit (pde m' ?d) 0" using mapped(6) by (auto simp: m1 split: if_splits)
    from m2(1) t(2,4) show ?thesis
    proof (cases rule: vmm_unmap_spec)
      case none
      then show ?thesis using entry' by simp
    next
      case (gone e m'')
      have "e = ?x" using gone(1) entry' by simp
      then have e: "e AND PAGE_MASK = a" by (simp only: map_entry_mask(1) [OF t(3)])
      have pmm: "free_frames (m_pmm m'') = free_frames (m_pmm m) - X \<and>
        allocated_frames (m_pmm m'') = allocated_frames (m_pmm m) \<union> X"
      proof (cases "bit (pde m ?d) 0")
        case True
        then show ?thesis using gone(6) last mapped(6) k(2,3) by (simp add: m1)
      next
        case False
        obtain b p where b: "pmm_alloc (m_pmm m) = (b, p)" "b \<noteq> 0" "frame_of (pde m2 ?d) = frame_of b" "m_pmm m' = p"
          using mapped(6) False m1 s(3,4) [OF t(5)] pd' by (cases "pmm_alloc (m_pmm m)") auto
        note al = pmm_frames.alloc_taken [OF pmm0 b(1,2), folded frame_of_def]
        let ?a = "pde m2 ?d AND PAGE_MASK"
        have a: "frame_of ?a = frame_of b" "unat ?a mod 4096 = 0" using b(3) frame_of_mask by simp_all
        have "frame_of b \<in> allocated_frames (m_pmm m2)" using k(3) al b(4) by simp
        then have "free_frames (m_pmm m'') = insert (frame_of b) (free_frames (m_pmm m2)) \<and>
          allocated_frames (m_pmm m'') = allocated_frames (m_pmm m2) - {frame_of b}"
          using pmm_frames.release_held [OF pmm2, of ?a, folded frame_of_def] a gone(6) last False by auto
        then show ?thesis
          using k(2,3) al b(4) m2(3) allocated_not_free [of "frame_of b" "m_pmm m"] by auto
      qed
      have "page_entry m'' n = page_entry m n" if "n < 1047552" for n
        using gone(5) [OF that] mapped(5) [OF that] mapped(1) s(2) [OF that] by (auto simp: m1)
      moreover have "(bit (pde m'' i) 0 \<longleftrightarrow> bit (pde m i) 0) \<and> (bit (pde m'' i) 0 \<longrightarrow> pde m'' i = pde m i)"
        if "i < 1023" for i
        using gone(7) last mapped(6) s(3,4) [OF that] by (auto simp: m1 split: if_splits)
      moreover have "cr3 m'' = cr3 m" using gone(4) mapped(4) s(1) by (simp add: m1)
      ultimately have "same_maps m'' m" by (intro same_mapsI)
      then show ?thesis using gone(2,3,8) e pmm by (auto simp: took_def)
    qed
  qed (use map in auto)
qed

text \<open>The two pages of the window.\<close>

definition window :: "u32 \<Rightarrow> bool" where
  "window v \<longleftrightarrow> v = ADDRESS_SPACE_DIRECTORY_WINDOW \<or> v = ADDRESS_SPACE_TABLE_WINDOW"

lemma window_facts:
  assumes "window v"
  shows "unat v mod 4096 = 0" "frame_of v < 1047552" "unat (drop_bit 22 v) = 834" "v \<ge> KERNEL_BASE" "v < RECURSIVE_PAGE_TABLES"
    "v \<noteq> SCRATCH_VIRTUAL_ADDRESS" "v AND (4096 - 1) = 0" "frame_of v div 1024 = 834" "unat v < 3500000000"
  using assms by (auto simp: window_def frame_of_def unat_shr_22)

lemma open_window:
  assumes inv: "vmm_inv m" and v: "window v" "page_entry m (frame_of v) = None" and a: "unat a mod 4096 = 0"
  obtains (full) "map_window v a m = Some (False, m)" "\<not> bit (pde m 834) 0" "free_frames (m_pmm m) = {}"
  | (opened) m' x where "map_window v a m = Some (True, m')" "vmm_inv m'" "page_entry m' (frame_of v) = Some x"
      "frame_of x = frame_of a" "bit x 1" "tables_only m m'" "\<And>G. apart m G \<Longrightarrow> apart m' G"
      "\<And>n. n < 1047552 \<Longrightarrow> n \<noteq> frame_of v \<Longrightarrow> page_entry m' n = page_entry m n" "cr3 m' = cr3 m" "bit (pde m' 834) 0"
      "bit (pde m 834) 0 \<Longrightarrow> m_pmm m' = m_pmm m"
      "\<not> bit (pde m 834) 0 \<Longrightarrow> \<exists>b\<in>free_frames (m_pmm m). free_frames (m_pmm m') = free_frames (m_pmm m) - {b}"
proof -
  note w = window_facts [OF v(1)]
  let ?x = "a OR PAGE_PRESENT OR (VMM_WRITABLE AND (VMM_WRITABLE OR VMM_USER))"
  have pmm: "pmm_inv (m_pmm m)" "vmm_initialized m" using inv by (simp_all add: vmm_inv_def vmm_wf_def)
  have "a AND (4096 - 1) = 0" using a unat_and_FFF [of a] unat_eq_0 [of "a AND 4095"] by simp
  then have ok: "\<not> vmm_map_rejects v a VMM_WRITABLE m"
    using w pmm(2) by (auto simp: vmm_map_rejects_def not_less [symmetric])
  from inv ok show ?thesis
  proof (cases rule: vmm_map_spec)
    case busy
    then show ?thesis using v(2) by simp
  next
    case full2: full
    then show ?thesis using full by (simp add: map_window_def w(3))
  next
    case (mapped m')
    note tabs = vmm_map_tables [OF inv mapped(2)]
    have "frame_of ?x = frame_of a" "bit ?x 1"
      using map_entry_mask [OF a] frame_of_or_flags [OF small_bits, of 3 a]
      unfolding bit_or_iff bit_flags by (simp_all add: or.assoc)
    moreover have "apart m' G" if "apart m G" for G
      using that tabs(1,3) allocated_not_free [of _ "m_pmm m"] by (fastforce simp: apart_def)
    moreover have "bit (pde m' 834) 0" using mapped(6) w(3) by (auto split: if_splits)
    moreover have "\<exists>b\<in>free_frames (m_pmm m). free_frames (m_pmm m') = free_frames (m_pmm m) - {b}" if "\<not> bit (pde m 834) 0"
    proof -
      obtain b p where b: "pmm_alloc (m_pmm m) = (b, p)" by fastforce
      then have "b \<noteq> 0" "m_pmm m' = p" using mapped(6) that by (simp_all add: w(3))
      then show ?thesis using pmm_frames.alloc_taken [OF pmm(1) b, folded frame_of_def] by auto
    qed
    ultimately show ?thesis
      using opened [of m' ?x] mapped w(2,3) by (simp add: map_window_def)
  qed
qed

lemma close_window:
  assumes inv: "vmm_inv m" and map: "map_window v a m = Some (True, m')"
    and m2: "vmm_inv m2" "took X m2 m'" "X \<subseteq> free_frames (m_pmm m')"
  obtains m'' where "unmap_window v a m2 = Some m''" "vmm_inv m''" "took X m'' m" "tables_only m2 m''"
  using unmap_after_map [OF inv map [unfolded map_window_def] m2] by (auto simp: unmap_window_def)

subsection \<open>Accesses through a window\<close>

definition seen :: "machine \<Rightarrow> u32 \<Rightarrow> nat \<Rightarrow> bool" where
  "seen m v f \<longleftrightarrow> (\<exists>x. page_entry m (frame_of v) = Some x \<and> frame_of x = f \<and> bit x 1)"

definition set_frame :: "nat \<Rightarrow> (nat \<Rightarrow> u32) \<Rightarrow> machine \<Rightarrow> machine" where
  "set_frame f h m = m\<lparr>ram := (ram m)(f := h)\<rparr>"

lemma ram_write_set_frame: "ram_write f i x m = set_frame f ((ram m f)(i := x)) m"
  by (simp add: ram_write_def set_frame_def)

lemma set_frame_simps [simp]:
  "ram (set_frame f h m) = (ram m)(f := h)" "m_pmm (set_frame f h m) = m_pmm m" "cr3 (set_frame f h m) = cr3 m"
  "set_frame f h (set_frame f h' m) = set_frame f h m" "eflags (set_frame f h m) = eflags m"
  by (simp_all add: set_frame_def)

lemma set_frame_tables:
  assumes "f \<notin> table_frames m"
  shows "pde (set_frame f h m) = pde m" and "table_frames (set_frame f h m) = table_frames m"
    and "k < 1023 \<Longrightarrow> bit (pde m k) 0 \<Longrightarrow> pte (set_frame f h m) k l = pte m k l"
proof -
  show pde: "pde (set_frame f h m) = pde m" using assms by (auto simp: pde_def table_frames_def fun_eq_iff)
  then show "table_frames (set_frame f h m) = table_frames m" by (simp add: table_frames_def)
  show "pte (set_frame f h m) k l = pte m k l" if "k < 1023" "bit (pde m k) 0"
    using table_frames_pde [OF that] assms by (auto simp: pte_def pde)
qed

lemma set_frame_maps:
  assumes inv: "vmm_inv m" and f: "f \<notin> table_frames m"
  shows "vmm_inv (set_frame f h m)" and "same_maps (set_frame f h m) m"
    and "n < 1047552 \<Longrightarrow> page_entry (set_frame f h m) n = page_entry m n"
proof -
  let ?m = "set_frame f h m"
  note s = set_frame_tables [OF f]
  have "table_ok {} ?m k \<longleftrightarrow> table_ok {} m k" if "k < 1023" "bit (pde m k) 0" for k
    using s(3) [OF that] by (simp add: table_ok_def s(1))
  moreover have "pte ?m 768 1023 = pte m 768 1023"
    using inv by (intro s(3)) (simp_all add: vmm_inv_def vmm_wf_def)
  moreover have "vmm_initialized ?m = vmm_initialized m" by (simp add: set_frame_def)
  ultimately show "vmm_inv ?m" using inv by (simp add: vmm_inv_def vmm_wf_def s(1) recursive_ok_def)
  show entry: "page_entry ?m n = page_entry m n" if "n < 1047552" for n
  proof -
    have "n div 1024 < 1023" using that by auto
    then show ?thesis using s(3) [of "n div 1024"] by (auto simp: page_entry_def s(1))
  qed
  show "same_maps ?m m" by (rule same_mapsI) (simp_all only: entry s(1) set_frame_simps HOL.simp_thms)
qed

lemma set_frame_window:
  assumes inv: "vmm_inv m" and f: "f \<notin> table_frames m"
  shows "window v \<Longrightarrow> seen (set_frame f h m) v g \<longleftrightarrow> seen m v g" and "apart (set_frame f h m) G \<longleftrightarrow> apart m G"
    and "took X m m0 \<Longrightarrow> took X (set_frame f h m) m0"
proof -
  note s = set_frame_maps [OF inv f] set_frame_tables [OF f]
  show "window v \<Longrightarrow> seen (set_frame f h m) v g \<longleftrightarrow> seen m v g" using s(3) [OF window_facts(2)] by (simp add: seen_def)
  show "apart (set_frame f h m) G \<longleftrightarrow> apart m G" by (simp add: apart_def s)
  show "took X m m0 \<Longrightarrow> took X (set_frame f h m) m0" using same_maps_trans [OF s(2)] by (simp add: took_def)
qed

lemma window_access:
  assumes inv: "vmm_inv m" and v: "window v" and f: "seen m v f" and i: "unat i < 1024"
  shows "vread (v + 4 * i) m = Some (ram m f (unat i))"
    and "vwrite (v + 4 * i) x m = Some (ram_write f (unat i) x m)"
proof -
  note w = window_facts [OF v]
  have i4: "unat (4 * i) = 4 * unat i" using i by (simp add: unat_word_ariths)
  then have u: "unat (v + 4 * i) = unat v + 4 * unat i" using w(9) i by (simp add: unat_word_ariths)
  obtain q where q: "unat v = q * 4096" using w(1) by (metis mod_0_imp_dvd dvd_div_mult_self)
  have "frame_of (v + 4 * i) = frame_of v" "unat (v + 4 * i) mod 4096 div 4 = unat i"
    using i by (simp_all add: frame_of_def u q)
  moreover have "unat (v + 4 * i) < 4290772992" using u w(9) i by simp
  ultimately show "vread (v + 4 * i) m = Some (ram m f (unat i))"
    "vwrite (v + 4 * i) x m = Some (ram_write f (unat i) x m)"
    using mapped_access [OF inv, of "v + 4 * i"] f by (auto simp: seen_def)
qed

lemma unat_of_nat_small: "k < 1024 \<Longrightarrow> unat (of_nat k :: u32) = k"
  by (simp add: unat_of_nat32)

lemma zero_window:
  assumes inv: "vmm_inv m" and v: "window v" and f: "seen m v f" "f \<notin> table_frames m"
  shows "zero_page v m = Some (set_frame f (\<lambda>i. if i < 1024 then 0 else ram m f i) m)"
proof -
  let ?I = "\<lambda>n s. s = set_frame f (\<lambda>i. if i < n then 0 else ram m f i) m"
  have "\<exists>s'. for_opt 0 1024 (\<lambda>index. vwrite (v + 4 * of_nat index) 0) m = Some s' \<and> ?I 1024 s'"
  proof (rule for_opt_rule [where I = ?I])
    show "m = set_frame f (\<lambda>i. if i < 0 then 0 else ram m f i) m" by (simp add: set_frame_def)
  next
    fix n s assume n: "n < (1024 :: nat)" and s: "?I n s"
    have "vwrite (v + 4 * of_nat n) 0 s = Some (ram_write f n 0 s)"
      using window_access(2) [OF set_frame_maps(1) [OF inv f(2)] v, of _ f "of_nat n"] f v n
      by (simp add: s set_frame_window [OF inv f(2)] unat_of_nat_small)
    moreover have "?I (Suc n) (ram_write f n 0 s)"
      by (auto simp: s ram_write_set_frame fun_eq_iff less_Suc_eq intro: arg_cong [where f = "\<lambda>h. set_frame f h m"])
    ultimately show "\<exists>s'. vwrite (v + 4 * of_nat n) 0 s = Some s' \<and> ?I (Suc n) s'" by blast
  qed simp
  then show ?thesis by (simp add: zero_page_def)
qed

subsection \<open>Holding the windows\<close>

text \<open>The machine while the lock is held, and after an operation that ran on it.\<close>

definition holding :: "machine \<Rightarrow> machine" where
  "holding m = m\<lparr>eflags := eflags m AND NOT EFLAGS_IF, address_space_window_busy := True,
                 address_space_window_irq_flags := eflags m\<rparr>"

definition changed :: "machine \<Rightarrow> machine \<Rightarrow> bool" where
  "changed m m' \<longleftrightarrow> m' = m\<lparr>m_pmm := m_pmm m', ram := ram m'\<rparr>"

definition completed :: "machine \<Rightarrow> machine \<Rightarrow> machine" where
  "completed m m' = m\<lparr>m_pmm := m_pmm m', ram := ram m', address_space_window_irq_flags := eflags m\<rparr>"

lemma acquire_window_free:
  assumes "\<not> address_space_window_busy m"
  shows "acquire_window m = (True, holding m)"
  using assms by (simp add: acquire_window_def irq_save_disable_def irq_read_flags_def holding_def)

lemma release_window_holding:
  assumes busy: "\<not> address_space_window_busy m" and c: "changed (holding m) m'"
  shows "release_window m' = completed m m'"
proof -
  have "irq_save_disable m = (eflags m, m\<lparr>eflags := eflags m AND NOT EFLAGS_IF\<rparr>)"
    by (simp add: irq_save_disable_def irq_read_flags_def)
  from irq_restore_save [OF this]
  have r: "(if eflags m AND EFLAGS_IF \<noteq> 0 then (eflags m AND NOT EFLAGS_IF) OR EFLAGS_IF
       else (eflags m AND NOT EFLAGS_IF) AND NOT EFLAGS_IF) = eflags m"
    unfolding irq_restore_def by (auto dest: arg_cong [where f = eflags] split: if_splits)
  have m': "m' = (holding m)\<lparr>m_pmm := m_pmm m', ram := ram m'\<rparr>" using c by (simp add: changed_def)
  have "release_window ((holding m)\<lparr>m_pmm := p, ram := q\<rparr>) =
      m\<lparr>m_pmm := p, ram := q, address_space_window_irq_flags := eflags m\<rparr>" for p q
    using busy r by (simp add: release_window_def Let_def irq_restore_def holding_def split: if_splits)
  from this [where p = "m_pmm m'" and q = "ram m'"] m' show ?thesis by (simp add: completed_def)
qed

lemma changed_refl [simp]: "changed m m"
  by (simp add: changed_def)

lemma changed_trans: "changed a b \<Longrightarrow> changed b c \<Longrightarrow> changed a c"
  unfolding changed_def by (metis machine.surjective machine.update_convs(1,2))

lemma changed_pmm [simp]: "changed m (m\<lparr>m_pmm := p\<rparr>)"
  by (simp add: changed_def)

lemma changed_set_frame [simp]: "changed m (set_frame f h m)"
  by (simp add: changed_def set_frame_def)

lemma tables_only_changed: "tables_only m m' \<Longrightarrow> changed m m'"
  by (simp add: tables_only_def changed_def)

lemma holding_simps [simp]:
  "vmm_inv (holding m) = vmm_inv m" "page_entry (holding m) = page_entry m" "table_frames (holding m) = table_frames m"
  "pde (holding m) = pde m" "m_pmm (holding m) = m_pmm m" "ram (holding m) = ram m" "cr3 (holding m) = cr3 m"
  "apart (holding m) G = apart m G"
proof -
  have h: "m_pmm (holding m) = m_pmm m" "ram (holding m) = ram m" "cr3 (holding m) = cr3 m"
    "vmm_initialized (holding m) = vmm_initialized m" by (simp_all add: holding_def)
  show "vmm_inv (holding m) = vmm_inv m" "page_entry (holding m) = page_entry m" "table_frames (holding m) = table_frames m"
    "pde (holding m) = pde m" "apart (holding m) G = apart m G"
    using vmm_cong [OF h] pde_cong [OF h(2,3)] by (simp_all add: apart_def h(1))
qed (simp_all add: holding_def)

lemma took_trans: "took {} a b \<Longrightarrow> took X b c \<Longrightarrow> took X a c"
  using same_maps_trans by (auto simp: took_def)

lemma apart_took: "took X m m' \<Longrightarrow> apart m' G \<Longrightarrow> apart m G"
  using same_mapsD(5) by (fastforce simp: took_def apart_def)

text \<open>Closing both windows after edits of frames apart from the active tables.\<close>

lemma close_both:
  assumes inv: "vmm_inv m" and d: "map_window ADDRESS_SPACE_DIRECTORY_WINDOW s m = Some (True, m1)"
    and m2: "vmm_inv m2" "took X m2 m1" "X \<subseteq> free_frames (m_pmm m1)" "apart m2 G"
    and t: "map_window ADDRESS_SPACE_TABLE_WINDOW a m2 = Some (True, m3)"
    and m4: "vmm_inv m4" "took {} m4 m3" "apart m4 G"
  obtains m5 m6 where "unmap_window ADDRESS_SPACE_TABLE_WINDOW a m4 = Some m5"
    "unmap_window ADDRESS_SPACE_DIRECTORY_WINDOW s m5 = Some m6" "vmm_inv m6" "took X m6 m" "changed m4 m6"
    "\<And>g. g \<in> G \<Longrightarrow> ram m6 g = ram m4 g"
proof -
  obtain m5 where m5: "unmap_window ADDRESS_SPACE_TABLE_WINDOW a m4 = Some m5" "vmm_inv m5" "took {} m5 m2" "tables_only m4 m5"
    by (rule close_window [OF m2(1) t m4(1,2)]) auto
  obtain m6 where m6: "unmap_window ADDRESS_SPACE_DIRECTORY_WINDOW s m5 = Some m6" "vmm_inv m6" "took X m6 m" "tables_only m5 m6"
    by (rule close_window [OF inv d m5(2) took_trans [OF m5(3) m2(2)] m2(3)]) auto
  have "ram m6 g = ram m4 g" if "g \<in> G" for g
    using tables_only_apart [OF m6(4) apart_took [OF m5(3) m2(4)] that] tables_only_apart [OF m5(4) m4(3) that] by simp
  then show ?thesis
    using that [OF m5(1) m6(1-3)] changed_trans [OF tables_only_changed [OF m5(4)] tables_only_changed [OF m6(4)]] by blast
qed

subsection \<open>What a user address space maps\<close>

definition dir_entry :: "machine \<Rightarrow> u32 \<Rightarrow> nat \<Rightarrow> u32" where
  "dir_entry m s i = ram m (frame_of s) i"

definition user_entry :: "machine \<Rightarrow> u32 \<Rightarrow> nat \<Rightarrow> u32 option" where
  "user_entry m s n =
     (let t = dir_entry m s (n div 1024); e = ram m (frame_of t) (n mod 1024)
      in if bit t 0 \<and> bit e 0 then Some e else None)"

definition space_tables :: "machine \<Rightarrow> u32 \<Rightarrow> nat set" where
  "space_tables m s = (\<lambda>i. frame_of (dir_entry m s i)) ` {i. i < 768 \<and> bit (dir_entry m s i) 0}"

definition space_frames :: "machine \<Rightarrow> u32 \<Rightarrow> nat set" where
  "space_frames m s = insert (frame_of s) (space_tables m s)"

text \<open>
  An inactive address space: its directory and tables are allocated frames apart from the active tables,
  each table serves one entry, and its tables are open to user code and writable.
\<close>

definition user_space :: "machine \<Rightarrow> u32 \<Rightarrow> bool" where
  "user_space m s \<longleftrightarrow> valid_space s \<and> apart m (space_frames m s) \<and> frame_of s \<notin> space_tables m s \<and>
     (\<forall>i<768. bit (dir_entry m s i) 0 \<longrightarrow> bit (dir_entry m s i) 1 \<and> bit (dir_entry m s i) 2) \<and>
     inj_on (\<lambda>i. frame_of (dir_entry m s i)) {i. i < 768 \<and> bit (dir_entry m s i) 0}"

text \<open>Both windows closed and the lock free: the state between operations.\<close>

definition windows_closed :: "machine \<Rightarrow> bool" where
  "windows_closed m \<longleftrightarrow> vmm_inv m \<and> \<not> address_space_window_busy m \<and>
     page_entry m 854016 = None \<and> page_entry m 854017 = None"

lemma frame_of_windows:
  "frame_of ADDRESS_SPACE_DIRECTORY_WINDOW = 854016" "frame_of ADDRESS_SPACE_TABLE_WINDOW = 854017"
  "window ADDRESS_SPACE_DIRECTORY_WINDOW" "window ADDRESS_SPACE_TABLE_WINDOW"
  by (simp_all add: frame_of_def window_def)

lemma valid_space_aligned: "valid_space s \<Longrightarrow> unat s mod 4096 = 0"
  using unat_and_FFF [of s] unat_eq_0 [of "s AND 4095"] by (simp add: valid_space_def)

lemma user_spaceD:
  assumes "user_space m s"
  shows "valid_space s" "unat s mod 4096 = 0" "apart m (space_frames m s)" "frame_of s \<notin> space_tables m s" "cr3 m \<noteq> s"
    "i < 768 \<Longrightarrow> bit (dir_entry m s i) 0 \<Longrightarrow> bit (dir_entry m s i) 1 \<and> bit (dir_entry m s i) 2"
    "i < 768 \<Longrightarrow> bit (dir_entry m s i) 0 \<Longrightarrow> frame_of (dir_entry m s i) \<in> space_tables m s"
  using assms valid_space_aligned [of s]
  by (auto simp: user_space_def space_tables_def apart_def space_frames_def table_frames_def)

lemma user_page:
  assumes "v < KERNEL_BASE"
  shows "unat (drop_bit 22 v) < 768" "unat (drop_bit 12 v AND 0x3FF) < 1024" "frame_of v < 786432"
    "frame_of v div 1024 = unat (drop_bit 22 v)" "frame_of v mod 1024 = unat (drop_bit 12 v AND 0x3FF)"
proof -
  have v: "unat v < 3221225472" using assms by (simp add: word_less_nat_alt)
  then have "unat v < 4290772992" by simp
  note t = page_target [OF this]
  show "frame_of v div 1024 = unat (drop_bit 22 v)" "frame_of v mod 1024 = unat (drop_bit 12 v AND 0x3FF)"
    "unat (drop_bit 12 v AND 0x3FF) < 1024" by (rule t)+
  show f: "frame_of v < 786432" using v by (simp add: frame_of_def less_mult_imp_div_less)
  show "unat (drop_bit 22 v) < 768" unfolding t(4) [symmetric] using f by auto
qed

text \<open>The space after an operation that left its directory and tables as they are.\<close>

lemma user_space_same:
  assumes u: "user_space m s" and r: "\<And>g. g \<in> space_frames m s \<Longrightarrow> ram m' g = ram m g"
    and a: "apart m' (space_frames m s)"
  shows "user_space m' s" and "space_frames m' s = space_frames m s" and "n < 786432 \<Longrightarrow> user_entry m' s n = user_entry m s n"
proof -
  have d: "dir_entry m' s = dir_entry m s" using r by (auto simp: dir_entry_def space_frames_def)
  then show f: "space_frames m' s = space_frames m s" by (simp add: space_frames_def space_tables_def)
  show "user_space m' s" using u a by (simp add: user_space_def f d space_tables_def)
  show "user_entry m' s n = user_entry m s n" if n: "n < 786432"
  proof (cases "bit (dir_entry m s (n div 1024)) 0")
    case True
    have "n div 1024 < 768" using n by auto
    then show ?thesis
      using r [of "frame_of (dir_entry m s (n div 1024))"] user_spaceD(7) [OF u _ True] by (simp add: user_entry_def d space_frames_def)
  qed (simp add: user_entry_def d)
qed

text \<open>The space after an entry of one of its tables was set.\<close>

lemma user_space_set:
  assumes u: "user_space m s" and i: "i < 768" "bit (dir_entry m s i) 0" "j < 1024"
    and t: "ram m' (frame_of (dir_entry m s i)) = (ram m (frame_of (dir_entry m s i)))(j := x)"
    and r: "\<And>g. g \<in> space_frames m s \<Longrightarrow> g \<noteq> frame_of (dir_entry m s i) \<Longrightarrow> ram m' g = ram m g"
    and a: "apart m' (space_frames m s)"
  shows "user_space m' s" and "space_frames m' s = space_frames m s"
    and "n < 786432 \<Longrightarrow> user_entry m' s n = (if n = i * 1024 + j then if bit x 0 then Some x else None else user_entry m s n)"
proof -
  let ?t = "frame_of (dir_entry m s i)"
  have "?t \<noteq> frame_of s" using user_spaceD(4,7) [OF u] i by metis
  then have d: "dir_entry m' s = dir_entry m s" using r by (auto simp: dir_entry_def space_frames_def)
  then show f: "space_frames m' s = space_frames m s" by (simp add: space_frames_def space_tables_def)
  show "user_space m' s" using u a by (simp add: user_space_def f d space_tables_def)
  assume n: "n < 786432"
  have k: "n div 1024 < 768" using n by auto
  have eq: "n = i * 1024 + j \<longleftrightarrow> n div 1024 = i \<and> n mod 1024 = j" using i(3) by auto
  show "user_entry m' s n = (if n = i * 1024 + j then if bit x 0 then Some x else None else user_entry m s n)"
  proof (cases "bit (dir_entry m s (n div 1024)) 0 \<and> n div 1024 \<noteq> i")
    case True
    then have "frame_of (dir_entry m s (n div 1024)) \<noteq> ?t"
      using u k i(1,2) by (auto simp: user_space_def dest: inj_onD)
    moreover have "frame_of (dir_entry m s (n div 1024)) \<in> space_frames m s"
      using user_spaceD(7) [OF u k] True by (simp add: space_frames_def)
    ultimately show ?thesis using r True by (simp add: user_entry_def d eq)
  next
    case False
    show ?thesis
    proof (cases "n div 1024 = i")
      case True
      then show ?thesis using i(2) by (simp add: user_entry_def d eq t)
    next
      case ne: False
      then show ?thesis using False by (simp add: user_entry_def d eq)
    qed
  qed
qed

text \<open>The space after a new table with one entry was added.\<close>

lemma user_space_new:
  assumes u: "user_space m s" and i: "i < 768" "\<not> bit (dir_entry m s i) 0" "j < 1024"
    and t: "t \<notin> space_frames m s" and e: "bit e 0" "bit e 1" "bit e 2" "frame_of e = t" and x: "bit x 0"
    and d: "ram m' (frame_of s) = (ram m (frame_of s))(i := e)" and z: "\<And>k. k < 1024 \<Longrightarrow> ram m' t k = (if k = j then x else 0)"
    and r: "\<And>g. g \<in> space_tables m s \<Longrightarrow> ram m' g = ram m g" and a: "apart m' (insert t (space_frames m s))"
  shows "user_space m' s" and "space_frames m' s = insert t (space_frames m s)"
    and "n < 786432 \<Longrightarrow> user_entry m' s n = (if n = i * 1024 + j then Some x else user_entry m s n)"
proof -
  have d': "dir_entry m' s k = (if k = i then e else dir_entry m s k)" for k by (simp add: dir_entry_def d)
  have idx: "{k. k < 768 \<and> bit (dir_entry m' s k) 0} = insert i {k. k < 768 \<and> bit (dir_entry m s k) 0}"
    using i(1) e(1) by (auto simp: d')
  have img: "(\<lambda>k. frame_of (dir_entry m' s k)) ` {k. k < 768 \<and> bit (dir_entry m s k) 0} = space_tables m s"
    unfolding space_tables_def using i(2) by (intro image_cong) (auto simp: d')
  have tabs: "space_tables m' s = insert t (space_tables m s)"
    unfolding space_tables_def [of m'] idx image_insert img by (simp add: d' e(4))
  then show f: "space_frames m' s = insert t (space_frames m s)" by (auto simp: space_frames_def)
  have "inj_on (\<lambda>k. frame_of (dir_entry m' s k)) {k. k < 768 \<and> bit (dir_entry m s k) 0} \<longleftrightarrow>
      inj_on (\<lambda>k. frame_of (dir_entry m s k)) {k. k < 768 \<and> bit (dir_entry m s k) 0}"
    using i(2) by (intro inj_on_cong) (auto simp: d')
  then have inj: "inj_on (\<lambda>k. frame_of (dir_entry m' s k)) {k. k < 768 \<and> bit (dir_entry m' s k) 0}"
    unfolding idx inj_on_insert using u t i(2) img e(4) by (auto simp: user_space_def d' space_frames_def)
  have bits: "bit (dir_entry m' s k) 1 \<and> bit (dir_entry m' s k) 2" if "k < 768" "bit (dir_entry m' s k) 0" for k
    using that user_spaceD(6) [OF u that(1)] e by (cases "k = i") (simp_all add: d' del: One_nat_def)
  show "user_space m' s"
    unfolding user_space_def f tabs using inj bits a t user_spaceD(1,4) [OF u] by (auto simp: space_frames_def)
  assume n: "n < 786432"
  have k: "n div 1024 < 768" using n by auto
  have eq: "n = i * 1024 + j \<longleftrightarrow> n div 1024 = i \<and> n mod 1024 = j" using i(3) by auto
  show "user_entry m' s n = (if n = i * 1024 + j then Some x else user_entry m s n)"
  proof (cases "n div 1024 = i")
    case True
    then show ?thesis using z [of "n mod 1024"] x e i(2) by (simp add: user_entry_def d' eq)
  next
    case False
    then show ?thesis
      using r [OF user_spaceD(7) [OF u k]] by (cases "bit (dir_entry m s (n div 1024)) 0") (simp_all add: user_entry_def d' eq)
  qed
qed

subsection \<open>Both windows on a space\<close>

text \<open>The state with the directory window open on the space.\<close>

lemma open_directory:
  assumes w: "windows_closed m" and u: "user_space m s"
  obtains (full) "map_window ADDRESS_SPACE_DIRECTORY_WINDOW s (holding m) = Some (False, holding m)"
      "\<not> bit (pde m 834) 0" "free_frames (m_pmm m) = {}"
  | (opened) m1 where "map_window ADDRESS_SPACE_DIRECTORY_WINDOW s (holding m) = Some (True, m1)" "vmm_inv m1"
      "seen m1 ADDRESS_SPACE_DIRECTORY_WINDOW (frame_of s)" "page_entry m1 854017 = None" "cr3 m1 = cr3 m"
      "changed (holding m) m1" "\<And>G. apart m G \<Longrightarrow> apart m1 G" "\<And>G g. apart m G \<Longrightarrow> g \<in> G \<Longrightarrow> ram m1 g = ram m g"
      "bit (pde m1 834) 0" "bit (pde m 834) 0 \<Longrightarrow> m_pmm m1 = m_pmm m"
      "\<not> bit (pde m 834) 0 \<Longrightarrow> \<exists>b\<in>free_frames (m_pmm m). free_frames (m_pmm m1) = free_frames (m_pmm m) - {b}"
proof -
  have c: "vmm_inv (holding m)" "page_entry (holding m) (frame_of ADDRESS_SPACE_DIRECTORY_WINDOW) = None"
    using w by (simp_all add: windows_closed_def frame_of_windows)
  from c(1) frame_of_windows(3) c(2) user_spaceD(2) [OF u] show ?thesis
  proof (cases rule: open_window)
    case full1: full
    then show ?thesis using full by simp
  next
    case (opened m1 x)
    have "page_entry m1 854017 = None"
      using opened(8) [of 854017] w by (simp add: frame_of_windows windows_closed_def)
    moreover have "ram m1 g = ram m g" if "apart m G" "g \<in> G" for G g
      using tables_only_apart [OF opened(6), of G g] that by simp
    moreover have "seen m1 ADDRESS_SPACE_DIRECTORY_WINDOW (frame_of s)" using opened(3-5) by (auto simp: seen_def)
    ultimately show ?thesis
      using that(2) [of m1] opened tables_only_changed [OF opened(6)] by simp
  qed
qed

text \<open>The table window is then opened in the page table that serves the directory window.\<close>

lemma open_table:
  assumes inv: "vmm_inv m" and p: "bit (pde m 834) 0" "page_entry m 854017 = None" "unat a mod 4096 = 0"
    and s: "seen m ADDRESS_SPACE_DIRECTORY_WINDOW f"
  obtains m1 where "map_window ADDRESS_SPACE_TABLE_WINDOW a m = Some (True, m1)" "vmm_inv m1"
      "seen m1 ADDRESS_SPACE_DIRECTORY_WINDOW f" "seen m1 ADDRESS_SPACE_TABLE_WINDOW (frame_of a)"
      "changed m m1" "\<And>G. apart m G \<Longrightarrow> apart m1 G" "\<And>G g. apart m G \<Longrightarrow> g \<in> G \<Longrightarrow> ram m1 g = ram m g"
      "m_pmm m1 = m_pmm m"
proof -
  have c: "page_entry m (frame_of ADDRESS_SPACE_TABLE_WINDOW) = None" using p by (simp add: frame_of_windows)
  from inv frame_of_windows(4) c p(3) show ?thesis
  proof (cases rule: open_window)
    case full
    then show ?thesis using p by simp
  next
    case (opened m1 x)
    have "seen m1 ADDRESS_SPACE_TABLE_WINDOW (frame_of a)" using opened(3-5) by (auto simp: seen_def)
    moreover have "seen m1 ADDRESS_SPACE_DIRECTORY_WINDOW f"
      using opened(8) [of 854016] s by (simp add: seen_def frame_of_windows)
    moreover have "ram m1 g = ram m g" if "apart m G" "g \<in> G" for G g
      using tables_only_apart [OF opened(6) that] .
    ultimately show ?thesis
      using that [of m1] opened p(1) tables_only_changed [OF opened(6)] by simp
  qed
qed

subsection \<open>The end of an operation\<close>

text \<open>The kernel as it was: the same active address space, the same interrupt flag, the lock free again.\<close>

definition kept :: "machine \<Rightarrow> machine \<Rightarrow> bool" where
  "kept m m' \<longleftrightarrow> windows_closed m' \<and> cr3 m' = cr3 m \<and> eflags m' = eflags m \<and>
     (\<forall>n<1047552. page_entry m' n = page_entry m n) \<and> (\<forall>i<1023. bit (pde m' i) 0 \<longleftrightarrow> bit (pde m i) 0)"

text \<open>Its address space \<open>s\<close> and the allocator as they were, too.\<close>

definition untouched :: "u32 \<Rightarrow> machine \<Rightarrow> machine \<Rightarrow> bool" where
  "untouched s m m' \<longleftrightarrow> kept m m' \<and> user_space m' s \<and> (\<forall>n<786432. user_entry m' s n = user_entry m s n) \<and>
     free_frames (m_pmm m') = free_frames (m_pmm m)"

lemma completed_simps [simp]:
  "ram (completed m m') = ram m'" "m_pmm (completed m m') = m_pmm m'" "cr3 (completed m m') = cr3 m"
  "user_entry (completed m m') s = user_entry m' s" "dir_entry (completed m m') s = dir_entry m' s"
  by (simp_all add: completed_def user_entry_def dir_entry_def fun_eq_iff)

lemma completed_kept:
  assumes w: "windows_closed m" and c: "changed (holding m) m'" and inv: "vmm_inv m'" and k: "took X m' (holding m)"
  shows "kept m (completed m m')" and "apart (completed m m') G \<longleftrightarrow> apart m' G"
proof -
  have "cr3 m' = cr3 (holding m)" "vmm_initialized m' = vmm_initialized (holding m)"
    using c unfolding changed_def by (metis machine.select_convs machine.surjective machine.update_convs(1,2))+
  then have f: "cr3 (completed m m') = cr3 m'" "vmm_initialized (completed m m') = vmm_initialized m'"
    by (simp_all add: completed_def holding_def)
  note v = vmm_cong [of "completed m m'" m', simplified, OF f(1) [simplified] f(2)]
  have p: "page_entry m' n = page_entry m n" if "n < 1047552" for n
    using same_mapsD(2) [OF tookD(1) [OF k] that] by simp
  have d: "bit (pde m' i) 0 \<longleftrightarrow> bit (pde m i) 0" if "i < 1023" for i
    using same_mapsD(3) [OF tookD(1) [OF k] that] by simp
  have "pde (completed m m') = pde m'" using f(1) by (intro pde_cong) simp_all
  then show "kept m (completed m m')"
    using w inv p d by (simp add: kept_def windows_closed_def v) (simp add: completed_def)
  show "apart (completed m m') G \<longleftrightarrow> apart m' G" by (simp add: apart_def v)
qed

lemma completed_untouched:
  assumes w: "windows_closed m" and u: "user_space m s" and c: "changed (holding m) m'" and inv: "vmm_inv m'"
    and k: "took {} m' (holding m)" and r: "\<And>g. g \<in> space_frames m s \<Longrightarrow> ram m' g = ram m g"
  shows "untouched s m (completed m m')"
proof -
  note ck = completed_kept [OF w c inv k]
  have "apart m' (space_frames m s)" using apart_took [OF k] user_spaceD(3) [OF u] by simp
  then have "apart (completed m m') (space_frames m s)" by (simp add: ck(2))
  from user_space_same [OF u _ this] r
  have "user_space (completed m m') s" "\<And>n. n < 786432 \<Longrightarrow> user_entry (completed m m') s n = user_entry m s n" by simp_all
  then show ?thesis using ck(1) tookD(2) [OF k] by (simp add: untouched_def)
qed

lemma windows_closedD:
  assumes "windows_closed m"
  shows "vmm_inv m" "\<not> address_space_window_busy m" "vmm_inv (holding m)"
  using assms by (simp_all add: windows_closed_def)

text \<open>An operation that ends with the directory window only.\<close>

lemma close_directory_untouched:
  assumes w: "windows_closed m" and u: "user_space m s"
    and d: "map_window ADDRESS_SPACE_DIRECTORY_WINDOW s (holding m) = Some (True, m1)" "vmm_inv m1"
      "changed (holding m) m1" "apart m1 (space_frames m s)" "\<And>g. g \<in> space_frames m s \<Longrightarrow> ram m1 g = ram m g"
  shows "\<exists>m'. close_directory s m1 = Some m' \<and> untouched s m m'"
proof -
  note h = windows_closedD [OF w]
  obtain m6 where m6: "unmap_window ADDRESS_SPACE_DIRECTORY_WINDOW s m1 = Some m6" "vmm_inv m6"
    "took {} m6 (holding m)" "tables_only m1 m6"
    by (rule close_window [OF h(3) d(1,2) took_refl]) auto
  have c: "changed (holding m) m6" using changed_trans [OF d(3) tables_only_changed [OF m6(4)]] .
  have "ram m6 g = ram m g" if "g \<in> space_frames m s" for g
    using tables_only_apart [OF m6(4) d(4) that] d(5) [OF that] by simp
  from completed_untouched [OF w u c m6(2,3) this] show ?thesis
    using m6(1) release_window_holding [OF h(2) c] by (auto simp: close_directory_def)
qed

text \<open>An operation that ends with both windows and edited nothing.\<close>

lemma close_windows_untouched:
  assumes w: "windows_closed m" and u: "user_space m s"
    and d: "map_window ADDRESS_SPACE_DIRECTORY_WINDOW s (holding m) = Some (True, m1)" "vmm_inv m1"
      "changed (holding m) m1" "apart m1 (space_frames m s)" "\<And>g. g \<in> space_frames m s \<Longrightarrow> ram m1 g = ram m g"
    and t: "map_window ADDRESS_SPACE_TABLE_WINDOW a m1 = Some (True, m2)" "vmm_inv m2" "changed m1 m2"
      "apart m2 (space_frames m s)" "\<And>g. g \<in> space_frames m s \<Longrightarrow> ram m2 g = ram m1 g"
  shows "\<exists>m5 m6. unmap_window ADDRESS_SPACE_TABLE_WINDOW a m2 = Some m5 \<and>
    unmap_window ADDRESS_SPACE_DIRECTORY_WINDOW s m5 = Some m6 \<and> untouched s m (release_window m6)"
proof -
  note h = windows_closedD [OF w]
  obtain m5 m6 where m6: "unmap_window ADDRESS_SPACE_TABLE_WINDOW a m2 = Some m5"
    "unmap_window ADDRESS_SPACE_DIRECTORY_WINDOW s m5 = Some m6" "vmm_inv m6" "took {} m6 (holding m)" "changed m2 m6"
    "\<And>g. g \<in> space_frames m s \<Longrightarrow> ram m6 g = ram m2 g"
    by (rule close_both [OF h(3) d(1,2) took_refl _ d(4) t(1,2) took_refl t(4)]) auto
  have c: "changed (holding m) m6" by (rule changed_trans [OF changed_trans [OF d(3) t(3)] m6(5)])
  have "untouched s m (completed m m6)"
    using m6(6) t(5) d(5) by (intro completed_untouched [OF w u c m6(3,4)]) simp
  then show ?thesis using m6(1,2) release_window_holding [OF h(2) c] by auto
qed

lemma dir_flags:
  assumes "bit t 1" "bit t 2"
  shows "t AND VMM_WRITABLE \<noteq> 0" "t AND VMM_USER \<noteq> 0"
  using assms by (simp_all add: test_bits)

text \<open>The directory window on a space, and both windows on a table of it.\<close>

lemma open_space:
  assumes w: "windows_closed m" and u: "user_space m s"
  obtains (full) "map_window ADDRESS_SPACE_DIRECTORY_WINDOW s (holding m) = Some (False, holding m)"
      "\<not> bit (pde m 834) 0" "free_frames (m_pmm m) = {}"
  | (opened) m1 where "map_window ADDRESS_SPACE_DIRECTORY_WINDOW s (holding m) = Some (True, m1)" "vmm_inv m1"
      "changed (holding m) m1" "apart m1 (space_frames m s)" "\<And>g. g \<in> space_frames m s \<Longrightarrow> ram m1 g = ram m g"
      "\<And>i. unat i < 1024 \<Longrightarrow> directory_get i m1 = Some (dir_entry m s (unat i))"
      "seen m1 ADDRESS_SPACE_DIRECTORY_WINDOW (frame_of s)" "page_entry m1 854017 = None" "bit (pde m1 834) 0"
      "bit (pde m 834) 0 \<Longrightarrow> m_pmm m1 = m_pmm m"
      "\<not> bit (pde m 834) 0 \<Longrightarrow> \<exists>b\<in>free_frames (m_pmm m). free_frames (m_pmm m1) = free_frames (m_pmm m) - {b}"
  using w u
proof (cases rule: open_directory)
  case (opened m1)
  note us = user_spaceD [OF u]
  note r = opened(8) [OF us(3)]
  have "directory_get i m1 = Some (dir_entry m s (unat i))" if "unat i < 1024" for i
    using window_access(1) [OF opened(2) frame_of_windows(3) opened(3) that] r [of "frame_of s"]
    by (simp add: directory_get_def dir_entry_def space_frames_def)
  with that(2) [OF opened(1,2,6) opened(7) [OF us(3)] r] opened(3,4,9-11) show ?thesis by simp
qed (use that(1) in simp)

lemma open_space_table:
  assumes u: "user_space m s" and i: "i < 768" "bit (dir_entry m s i) 0"
    and m1: "vmm_inv m1" "apart m1 (space_frames m s)" "\<And>g. g \<in> space_frames m s \<Longrightarrow> ram m1 g = ram m g"
      "seen m1 ADDRESS_SPACE_DIRECTORY_WINDOW (frame_of s)" "page_entry m1 854017 = None" "bit (pde m1 834) 0"
  obtains m2 where "map_window ADDRESS_SPACE_TABLE_WINDOW (dir_entry m s i AND PAGE_MASK) m1 = Some (True, m2)" "vmm_inv m2"
      "changed m1 m2" "apart m2 (space_frames m s)" "\<And>g. g \<in> space_frames m s \<Longrightarrow> ram m2 g = ram m1 g"
      "\<And>k. unat k < 1024 \<Longrightarrow> directory_get k m2 = Some (dir_entry m s (unat k))"
      "\<And>k. unat k < 1024 \<Longrightarrow> table_get k m2 = Some (ram m (frame_of (dir_entry m s i)) (unat k))"
      "\<And>k x. unat k < 1024 \<Longrightarrow> table_set k x m2 = Some (ram_write (frame_of (dir_entry m s i)) (unat k) x m2)"
proof -
  let ?e = "dir_entry m s i"
  have G: "frame_of s \<in> space_frames m s" "frame_of ?e \<in> space_frames m s"
    using user_spaceD(7) [OF u i] by (simp_all add: space_frames_def)
  obtain m2 where m2: "map_window ADDRESS_SPACE_TABLE_WINDOW (?e AND PAGE_MASK) m1 = Some (True, m2)" "vmm_inv m2"
    "seen m2 ADDRESS_SPACE_DIRECTORY_WINDOW (frame_of s)" "seen m2 ADDRESS_SPACE_TABLE_WINDOW (frame_of ?e)"
    "changed m1 m2" "\<And>G. apart m1 G \<Longrightarrow> apart m2 G" "\<And>G g. apart m1 G \<Longrightarrow> g \<in> G \<Longrightarrow> ram m2 g = ram m1 g"
    by (rule open_table [OF m1(1,6,5) frame_of_mask(2) m1(4)]) (use frame_of_mask(1) in auto)
  note r = m2(7) [OF m1(2)]
  have "table_get k m2 = Some (ram m (frame_of ?e) (unat k))"
    "table_set k x m2 = Some (ram_write (frame_of ?e) (unat k) x m2)" if "unat k < 1024" for k x
    using window_access [OF m2(2) frame_of_windows(4) m2(4) that] r [OF G(2)] m1(3) [OF G(2)]
    by (simp_all add: table_get_def table_set_def)
  moreover have "directory_get k m2 = Some (dir_entry m s (unat k))" if "unat k < 1024" for k
    using window_access(1) [OF m2(2) frame_of_windows(3) m2(3) that] r [OF G(1)] m1(3) [OF G(1)]
    by (simp add: directory_get_def dir_entry_def)
  ultimately show ?thesis using that [OF m2(1,2,5) m2(6) [OF m1(2)] r] by blast
qed

lemma query_spec:
  assumes w: "windows_closed m" and u: "user_space m s" and v: "v < KERNEL_BASE"
    and room: "bit (pde m 834) 0 \<or> free_frames (m_pmm m) \<noteq> {}"
  shows "\<exists>m'. vmm_address_space_query s v m =
      Some (map_option (\<lambda>e. ((e AND PAGE_MASK) OR (v AND (4096 - 1)), e AND (VMM_WRITABLE OR VMM_USER)))
              (user_entry m s (frame_of v)), m') \<and> untouched s m m'"
proof -
  let ?d = "drop_bit 22 v" and ?t = "drop_bit 12 v AND 0x3FF"
  let ?e = "dir_entry m s (unat ?d)"
  let ?x = "ram m (frame_of ?e) (unat ?t)"
  note h = windows_closedD [OF w] and us = user_spaceD [OF u] and p = user_page [OF v]
  have guard: "\<not> (\<not> valid_space s \<or> v \<ge> KERNEL_BASE)" and d': "unat ?d < 1024" using us(1) v p(1) by simp_all
  from w u show ?thesis
  proof (cases rule: open_space)
    case (opened m1)
    show ?thesis
    proof (cases "bit ?e 0")
      case False
      from close_directory_untouched [OF w u opened(1-5)] obtain m' where
        "close_directory s m1 = Some m'" "untouched s m m'" by blast
      moreover have "user_entry m s (frame_of v) = None" using False by (simp add: user_entry_def p(4))
      ultimately show ?thesis
        using guard acquire_window_free [OF h(2)] opened(1) opened(6) [OF d'] False
        by (simp add: vmm_address_space_query_def Let_def test_bits)
    next
      case True
      obtain m2 where m2: "map_window ADDRESS_SPACE_TABLE_WINDOW (?e AND PAGE_MASK) m1 = Some (True, m2)" "vmm_inv m2"
        "changed m1 m2" "apart m2 (space_frames m s)" "\<And>g. g \<in> space_frames m s \<Longrightarrow> ram m2 g = ram m1 g"
        "directory_get ?d m2 = Some ?e" "table_get ?t m2 = Some ?x"
        by (rule open_space_table [OF u p(1) True opened(2,4,5,7-9)]) (use d' p(2) in auto)
      from close_windows_untouched [OF w u opened(1-5) m2(1-5)] obtain m6 where
        close: "close_windows s (?e AND PAGE_MASK) m2 = Some (release_window m6)" "untouched s m (release_window m6)"
        by (auto simp: close_windows_def close_directory_def)
      have entry: "user_entry m s (frame_of v) = (if bit ?x 0 then Some ?x else None)"
        using True by (simp add: user_entry_def p(4,5))
      show ?thesis
        unfolding vmm_address_space_query_def if_not_P [OF guard]
        using acquire_window_free [OF h(2)] opened(1) opened(6) [OF d'] True m2(1,6,7) close us(6) [OF p(1) True]
        by (simp add: Let_def test_bits entry)
    qed
  qed (use room in simp)
qed

subsection \<open>Mapping a page\<close>

text \<open>
  The space after entry \<open>x\<close> was put at page \<open>n\<close>: exactly that page changed, and the allocator lost exactly
  the frames that became tables of the space.
\<close>

definition entered :: "u32 \<Rightarrow> nat \<Rightarrow> u32 \<Rightarrow> machine \<Rightarrow> machine \<Rightarrow> bool" where
  "entered s n x m m' \<longleftrightarrow> kept m m' \<and> user_space m' s \<and>
     (\<forall>k<786432. user_entry m' s k = ((user_entry m s)(n \<mapsto> x)) k) \<and>
     free_frames (m_pmm m') = free_frames (m_pmm m) - space_tables m' s \<and>
     card (free_frames (m_pmm m')) + (if bit (dir_entry m s (n div 1024)) 0 then 0 else 1) = card (free_frames (m_pmm m))"

definition map_ok :: "u32 \<Rightarrow> u32 \<Rightarrow> bool" where
  "map_ok v a \<longleftrightarrow> v < KERNEL_BASE \<and> v AND (4096 - 1) = 0 \<and> a AND (4096 - 1) = 0 \<and> a \<noteq> 0"

lemma refresh_inactive:
  assumes "user_space m s" and "cr3 m' = cr3 m"
  shows "refresh_active_translation s m' = Some m'"
proof -
  have "frame_of s \<notin> table_frames m" using user_spaceD(3) [OF assms(1)] by (auto simp: apart_def space_frames_def)
  then have "cr3 m AND PAGE_MASK \<noteq> s" using frame_of_mask(1) [of "cr3 m"] by (auto simp: table_frames_def)
  moreover have "s \<noteq> 0" using user_spaceD(1) [OF assms(1)] by (simp add: valid_space_def)
  ultimately show ?thesis using assms(2) by (simp add: refresh_active_translation_def vmm_current_page_directory_def)
qed

lemma changed_holding_cr3: "changed (holding m) m' \<Longrightarrow> cr3 m' = cr3 m"
  unfolding changed_def by (drule arg_cong [where f = cr3]) simp

lemma space_tables_not_free:
  assumes "user_space m s"
  shows "space_tables m s \<inter> free_frames (m_pmm m) = {}"
  using user_spaceD(3) [OF assms] allocated_not_free by (fastforce simp: apart_def space_frames_def)

text \<open>Into a table that is already there.\<close>

lemma map_old_table:
  fixes fl :: u32
  assumes w: "windows_closed m" and u: "user_space m s" and ok: "map_ok v a" and p0: "bit (dir_entry m s (unat (drop_bit 22 v))) 0"
    and room: "bit (pde m 834) 0 \<or> free_frames (m_pmm m) \<noteq> {}"
  defines "x \<equiv> a OR PAGE_PRESENT OR VMM_USER OR (fl AND VMM_WRITABLE)"
  shows "\<exists>m'. vmm_address_space_map s v a fl m = Some (user_entry m s (frame_of v) = None, m') \<and>
    (if user_entry m s (frame_of v) = None then entered s (frame_of v) x m m' else untouched s m m')"
proof -
  let ?d = "drop_bit 22 v" and ?t = "drop_bit 12 v AND 0x3FF" and ?G = "space_frames m s"
  let ?e = "dir_entry m s (unat ?d)"
  let ?y = "ram m (frame_of ?e) (unat ?t)"
  have v: "v < KERNEL_BASE" using ok by (simp add: map_ok_def)
  note h = windows_closedD [OF w] and us = user_spaceD [OF u] and p = user_page [OF v]
  have guard: "\<not> (\<not> valid_space s \<or> v \<ge> KERNEL_BASE \<or> v AND (4096 - 1) \<noteq> 0 \<or> a AND (4096 - 1) \<noteq> 0 \<or> a = 0)"
    and d': "unat ?d < 1024" using us(1) ok p(1) by (auto simp: map_ok_def)
  have entry: "user_entry m s (frame_of v) = (if bit ?y 0 then Some ?y else None)"
    using p0 by (simp add: user_entry_def p(4,5))
  have n: "unat ?d * 1024 + unat ?t = frame_of v" using p(4,5) div_mult_mod_eq [of "frame_of v" 1024] by simp
  from w u show ?thesis
  proof (cases rule: open_space)
    case (opened m1)
    obtain m2 where m2: "map_window ADDRESS_SPACE_TABLE_WINDOW (?e AND PAGE_MASK) m1 = Some (True, m2)" "vmm_inv m2"
      "changed m1 m2" "apart m2 ?G" "\<And>g. g \<in> ?G \<Longrightarrow> ram m2 g = ram m1 g" "table_get ?t m2 = Some ?y"
      "\<And>x. table_set ?t x m2 = Some (ram_write (frame_of ?e) (unat ?t) x m2)"
      by (rule open_space_table [OF u p(1) p0 opened(2,4,5,7-9)]) (use p(2) in auto)
    have tf: "table_for ?e m1 = (?e AND PAGE_MASK, False, m1)" using p0 by (simp add: table_for_def test_bits)
    note start = acquire_window_free [OF h(2)] opened(1) opened(6) [OF d'] tf m2(1,6)
    show ?thesis
    proof (cases "bit ?y 0")
      case True
      from close_windows_untouched [OF w u opened(1-5) m2(1-5)] obtain m5 m6 where
        "unmap_window ADDRESS_SPACE_TABLE_WINDOW (?e AND PAGE_MASK) m2 = Some m5"
        "unmap_window ADDRESS_SPACE_DIRECTORY_WINDOW s m5 = Some m6" "untouched s m (release_window m6)" by blast
      then show ?thesis
        unfolding vmm_address_space_map_def if_not_P [OF guard] using start True
        by (simp add: Let_def test_bits entry)
    next
      case False
      let ?f = "frame_of ?e"
      let ?m3 = "set_frame ?f ((ram m2 ?f)(unat ?t := x)) m2"
      have fG: "?f \<in> ?G" using us(7) [OF p(1) p0] by (simp add: space_frames_def)
      have nt: "?f \<notin> table_frames m2" using m2(4) fG by (auto simp: apart_def)
      note s3 = set_frame_maps(1) [OF m2(2) nt] set_frame_window(2,3) [OF m2(2) nt]
      obtain m5 m6 where m6: "unmap_window ADDRESS_SPACE_TABLE_WINDOW (?e AND PAGE_MASK) ?m3 = Some m5"
        "unmap_window ADDRESS_SPACE_DIRECTORY_WINDOW s m5 = Some m6" "vmm_inv m6" "took {} m6 (holding m)" "changed ?m3 m6"
        "\<And>g. g \<in> ?G \<Longrightarrow> ram m6 g = ram ?m3 g"
        by (rule close_both [OF h(3) opened(1,2) took_refl _ opened(4) m2(1) s3(1) s3(3) [OF took_refl]])
          (use s3(2) m2(4) in auto)
      have c: "changed (holding m) m6"
        using changed_trans [OF changed_trans [OF opened(3) m2(3)] changed_trans [OF changed_set_frame m6(5)]] .
      note ck = completed_kept [OF w c m6(3,4)]
      have ap: "apart (completed m m6) ?G" using apart_took [OF m6(4)] us(3) by (simp add: ck(2))
      have x: "bit x 0" unfolding x_def bit_or_iff bit_flags by simp
      have ram2: "ram m2 g = ram m g" if "g \<in> ?G" for g using m2(5) opened(5) that by simp
      note upd = user_space_set [OF u p(1) p0 p(2) _ _ ap, of x]
      have upd1: "ram (completed m m6) ?f = (ram m ?f)(unat ?t := x)" using m6(6) [OF fG] ram2 [OF fG] by simp
      have upd2: "ram (completed m m6) g = ram m g" if "g \<in> ?G" "g \<noteq> ?f" for g using m6(6) ram2 that by simp
      note upd' = upd [OF upd1 upd2]
      have "free_frames (m_pmm m) - space_tables (completed m m6) s = free_frames (m_pmm m)"
        using space_tables_not_free [OF upd'(1)] tookD(2) [OF m6(4)] by auto
      then have "entered s (frame_of v) x m (completed m m6)"
        unfolding entered_def using ck(1) upd' x tookD(2) [OF m6(4)] n p0 by (simp add: p(4))
      then show ?thesis
        unfolding vmm_address_space_map_def if_not_P [OF guard]
        using start False m2(7) m6(1,2) refresh_inactive [OF u changed_holding_cr3 [OF c]] release_window_holding [OF h(2) c]
        by (simp add: Let_def test_bits entry ram_write_set_frame x_def [symmetric])
    qed
  qed (use room in simp)
qed

text \<open>Into a new table.\<close>

lemma took_alloc:
  assumes inv: "vmm_inv m" and a: "pmm_alloc (m_pmm m) = (a, p)" "a \<noteq> 0"
  shows "took {frame_of a} (m\<lparr>m_pmm := p\<rparr>) m" and "apart m G \<Longrightarrow> apart (m\<lparr>m_pmm := p\<rparr>) (insert (frame_of a) G)"
    and "apart m G \<Longrightarrow> frame_of a \<notin> G"
proof -
  note al = pmm_alloc_change [OF inv a]
  show "took {frame_of a} (m\<lparr>m_pmm := p\<rparr>) m"
    using al by (auto simp: took_def intro!: same_mapsI)
  show "apart m G \<Longrightarrow> apart (m\<lparr>m_pmm := p\<rparr>) (insert (frame_of a) G)" using al by (auto simp: apart_def)
  show "apart m G \<Longrightarrow> frame_of a \<notin> G" using al(4) allocated_not_free by (auto simp: apart_def)
qed

text \<open>The edits of the two frames: the new table is cleared, entered in the directory, and gets its one entry.\<close>

lemma fill_new_table:
  assumes inv: "vmm_inv m" and s: "seen m ADDRESS_SPACE_DIRECTORY_WINDOW f" "seen m ADDRESS_SPACE_TABLE_WINDOW g"
    and a: "f \<notin> table_frames m" "g \<notin> table_frames m" "f \<noteq> g" and i: "unat i < 1024" "unat j < 1024"
  obtains m1 m2 m3 where "zero_page ADDRESS_SPACE_TABLE_WINDOW m = Some m1" "directory_set i e m1 = Some m2" "table_get j m2 = Some 0"
    "table_set j x m2 = Some m3" "vmm_inv m3" "took {} m3 m" "changed m m3" "\<And>G. apart m G \<Longrightarrow> apart m3 G"
    "ram m3 f = (ram m f)(unat i := e)" "\<And>k. k < 1024 \<Longrightarrow> ram m3 g k = (if k = unat j then x else 0)"
    "\<And>h. h \<noteq> f \<Longrightarrow> h \<noteq> g \<Longrightarrow> ram m3 h = ram m h"
proof -
  define m1 where "m1 = set_frame g (\<lambda>i. if i < 1024 then 0 else ram m g i) m"
  define m2 where "m2 = set_frame f ((ram m1 f)(unat i := e)) m1"
  define m3 where "m3 = set_frame g ((ram m2 g)(unat j := x)) m2"
  note s1 = set_frame_maps(1) [OF inv a(2)] set_frame_window [OF inv a(2)] set_frame_tables(2) [OF a(2)]
  have 1: "vmm_inv m1" "seen m1 ADDRESS_SPACE_DIRECTORY_WINDOW f" "seen m1 ADDRESS_SPACE_TABLE_WINDOW g" "f \<notin> table_frames m1"
    "g \<notin> table_frames m1" "took {} m1 m"
    unfolding m1_def using s1 s a frame_of_windows(3,4) by simp_all
  note s2 = set_frame_maps(1) [OF 1(1,4)] set_frame_window [OF 1(1,4)] set_frame_tables(2) [OF 1(4)]
  have 2: "vmm_inv m2" "seen m2 ADDRESS_SPACE_TABLE_WINDOW g" "g \<notin> table_frames m2" "took {} m2 m"
    unfolding m2_def using s2 1 frame_of_windows(3,4) by simp_all
  note s3 = set_frame_maps(1) [OF 2(1,3)] set_frame_window [OF 2(1,3)]
  have 3: "vmm_inv m3" "took {} m3 m" unfolding m3_def using s3 2 by simp_all
  have apart: "apart m G \<Longrightarrow> apart m3 G" for G by (rule apart_took [OF 3(2)])
  have "zero_page ADDRESS_SPACE_TABLE_WINDOW m = Some m1"
    unfolding m1_def by (rule zero_window [OF inv frame_of_windows(4) s(2) a(2)])
  moreover have "directory_set i e m1 = Some m2"
    using window_access(2) [OF 1(1) frame_of_windows(3) 1(2) i(1)] by (simp add: directory_set_def m2_def ram_write_set_frame)
  moreover have "table_get j m2 = Some 0"
    using window_access(1) [OF 2(1) frame_of_windows(4) 2(2) i(2)] a(3) i(2) by (simp add: table_get_def m2_def m1_def)
  moreover have "table_set j x m2 = Some m3"
    using window_access(2) [OF 2(1) frame_of_windows(4) 2(2) i(2)] by (simp add: table_set_def m3_def ram_write_set_frame)
  moreover have "changed m m3"
    unfolding m3_def m2_def m1_def by (intro changed_trans [OF changed_trans [OF changed_set_frame changed_set_frame] changed_set_frame])
  ultimately show ?thesis
    using that [of m1 m2 m3] 3 apart a(3) by (simp add: m3_def m2_def m1_def)
qed

lemma new_table_entered:
  assumes w: "windows_closed m" and u: "user_space m s" and i: "i < 768" "\<not> bit (dir_entry m s i) 0" "j < 1024"
    and c: "changed (holding m) m'" and inv: "vmm_inv m'" and k: "took {t} m' (holding m)" and t: "t \<in> free_frames (m_pmm m)"
    and e: "bit e 0" "bit e 1" "bit e 2" "frame_of e = t" and x: "bit x 0"
    and d: "ram m' (frame_of s) = (ram m (frame_of s))(i := e)" and z: "\<And>k. k < 1024 \<Longrightarrow> ram m' t k = (if k = j then x else 0)"
    and r: "\<And>g. g \<in> space_tables m s \<Longrightarrow> ram m' g = ram m g"
  shows "entered s (i * 1024 + j) x m (completed m m')"
proof -
  let ?m = "completed m m'"
  note ck = completed_kept [OF w c inv k] and us = user_spaceD [OF u]
  have new: "t \<notin> space_frames m s" using us(3) t allocated_not_free by (auto simp: apart_def)
  have "t \<notin> table_frames m" using table_frames_not_free [OF windows_closedD(1) [OF w]] t by auto
  then have ap: "apart ?m (insert t (space_frames m s))"
    using us(3) same_mapsD(5) [OF tookD(1) [OF k]] tookD(3) [OF k] by (auto simp: ck(2)) (auto simp: apart_def)
  have d': "ram ?m (frame_of s) = (ram m (frame_of s))(i := e)" and z': "\<And>k. k < 1024 \<Longrightarrow> ram ?m t k = (if k = j then x else 0)"
    and r': "\<And>g. g \<in> space_tables m s \<Longrightarrow> ram ?m g = ram m g" using d z r by simp_all
  note n = user_space_new [OF u i new e x d' z' r' ap]
  have "space_tables ?m s = insert t (space_tables m s)"
  proof -
    have "frame_of s \<notin> space_tables ?m s" using user_spaceD(4) [OF n(1)] .
    moreover have "t \<noteq> frame_of s" using new by (auto simp: space_frames_def)
    moreover have "insert (frame_of s) (space_tables ?m s) = insert (frame_of s) (insert t (space_tables m s))"
      using n(2) by (auto simp: space_frames_def)
    ultimately show ?thesis using us(4) insert_ident [of "frame_of s"] by simp
  qed
  then have "free_frames (m_pmm m) - space_tables ?m s = free_frames (m_pmm ?m)"
    using space_tables_not_free [OF u] tookD(2) [OF k] by auto
  moreover have "Suc (card (free_frames (m_pmm ?m))) = card (free_frames (m_pmm m))"
    using tookD(2) [OF k] t card_Suc_Diff1 [of "free_frames (m_pmm m)" t] by simp
  ultimately show ?thesis unfolding entered_def using ck(1) n(1,3) i by simp
qed

lemma map_new_table:
  fixes fl :: u32
  assumes w: "windows_closed m" and u: "user_space m s" and ok: "map_ok v a" and p0: "\<not> bit (dir_entry m s (unat (drop_bit 22 v))) 0"
    and m1: "map_window ADDRESS_SPACE_DIRECTORY_WINDOW s (holding m) = Some (True, m1)" "vmm_inv m1" "changed (holding m) m1"
      "apart m1 (space_frames m s)" "\<And>g. g \<in> space_frames m s \<Longrightarrow> ram m1 g = ram m g"
      "\<And>i. unat i < 1024 \<Longrightarrow> directory_get i m1 = Some (dir_entry m s (unat i))"
      "seen m1 ADDRESS_SPACE_DIRECTORY_WINDOW (frame_of s)" "page_entry m1 854017 = None" "bit (pde m1 834) 0"
    and al: "pmm_alloc (m_pmm m1) = (t, p)" "t \<noteq> 0"
  defines "x \<equiv> a OR PAGE_PRESENT OR VMM_USER OR (fl AND VMM_WRITABLE)"
  shows "\<exists>m'. vmm_address_space_map s v a fl m = Some (True, m') \<and> entered s (frame_of v) x m m'"
proof -
  let ?d = "drop_bit 22 v" and ?t = "drop_bit 12 v AND 0x3FF" and ?G = "insert (frame_of t) (space_frames m s)"
  let ?e = "t OR PAGE_PRESENT OR VMM_WRITABLE OR VMM_USER" and ?m2 = "m1\<lparr>m_pmm := p\<rparr>"
  have v: "v < KERNEL_BASE" using ok by (simp add: map_ok_def)
  note h = windows_closedD [OF w] and us = user_spaceD [OF u] and q = user_page [OF v]
  have guard: "\<not> (\<not> valid_space s \<or> v \<ge> KERNEL_BASE \<or> v AND (4096 - 1) \<noteq> 0 \<or> a AND (4096 - 1) \<noteq> 0 \<or> a = 0)"
    and d': "unat ?d < 1024" using us(1) ok q(1) by (auto simp: map_ok_def)
  have n: "unat ?d * 1024 + unat ?t = frame_of v" using q(4,5) div_mult_mod_eq [of "frame_of v" 1024] by simp
  note ac = pmm_alloc_change [OF m1(2) al] and tk = took_alloc [OF m1(2) al]
  note ap2 = tk(2) [OF m1(4)] and new = tk(3) [OF m1(4)]
  have s2: "bit (pde ?m2 834) 0" "page_entry ?m2 854017 = None" "seen ?m2 ADDRESS_SPACE_DIRECTORY_WINDOW (frame_of s)"
    using m1(7-9) by (simp_all add: seen_def)
  obtain m3 where m3: "map_window ADDRESS_SPACE_TABLE_WINDOW t ?m2 = Some (True, m3)" "vmm_inv m3"
    "seen m3 ADDRESS_SPACE_DIRECTORY_WINDOW (frame_of s)" "seen m3 ADDRESS_SPACE_TABLE_WINDOW (frame_of t)" "changed ?m2 m3"
    "apart m3 ?G" "\<And>g. g \<in> ?G \<Longrightarrow> ram m3 g = ram ?m2 g"
    by (rule open_table [OF ac(1) s2(1,2) ac(3) s2(3)]) (use ap2 in auto)
  have fr: "frame_of s \<in> ?G" "frame_of s \<notin> table_frames m3" "frame_of t \<notin> table_frames m3" "frame_of s \<noteq> frame_of t"
    using m3(6) new by (auto simp: apart_def space_frames_def)
  obtain m4 m5 m6 where f: "zero_page ADDRESS_SPACE_TABLE_WINDOW m3 = Some m4" "directory_set ?d ?e m4 = Some m5" "table_get ?t m5 = Some 0"
    "table_set ?t x m5 = Some m6" "vmm_inv m6" "took {} m6 m3" "changed m3 m6" "apart m6 ?G"
    "ram m6 (frame_of s) = (ram m3 (frame_of s))(unat ?d := ?e)" "\<And>k. k < 1024 \<Longrightarrow> ram m6 (frame_of t) k = (if k = unat ?t then x else 0)"
    "\<And>h. h \<noteq> frame_of s \<Longrightarrow> h \<noteq> frame_of t \<Longrightarrow> ram m6 h = ram m3 h"
    by (rule fill_new_table [OF m3(2-4) fr(2-4) d' q(2), of ?e x]) (use m3(6) in blast)
  obtain m7 m8 where m8: "unmap_window ADDRESS_SPACE_TABLE_WINDOW t m6 = Some m7"
    "unmap_window ADDRESS_SPACE_DIRECTORY_WINDOW s m7 = Some m8" "vmm_inv m8" "took {frame_of t} m8 (holding m)" "changed m6 m8"
    "\<And>g. g \<in> ?G \<Longrightarrow> ram m8 g = ram m6 g"
    by (rule close_both [OF h(3) m1(1) ac(1) tk(1) _ ap2 m3(1) f(5,6,8)]) (use ac(4) in auto)
  have c: "changed (holding m) m8"
    using changed_trans [OF changed_trans [OF m1(3) changed_pmm] changed_trans [OF m3(5) changed_trans [OF f(7) m8(5)]]] .
  note ck = completed_kept [OF w c m8(3,4)]
  have tl: "table_for (dir_entry m s (unat ?d)) m1 = (t, True, ?m2)" using p0 al(1) by (simp add: table_for_def test_bits)
  have "vmm_address_space_map s v a fl m = Some (True, completed m m8)"
    unfolding vmm_address_space_map_def if_not_P [OF guard]
    using acquire_window_free [OF h(2)] m1(1) m1(6) [OF d'] tl al(2) m3(1) f(1-4) m8(1,2)
      refresh_inactive [OF u changed_holding_cr3 [OF c]] release_window_holding [OF h(2) c]
    by (simp add: Let_def x_def [symmetric])
  moreover have "entered s (unat ?d * 1024 + unat ?t) x m (completed m m8)"
  proof (rule new_table_entered [OF w u q(1) p0 q(2) c m8(3,4), of ?e])
    show "frame_of t \<in> free_frames (m_pmm m)"
      using vmm_map_tables(2) [OF h(3) m1(1) [unfolded map_window_def]] ac(4) by auto
    show "bit ?e 0" "bit ?e 1" "bit ?e 2" "bit x 0" unfolding x_def bit_or_iff bit_flags by simp_all
    show "frame_of ?e = frame_of t" using frame_of_or_flags [OF small_bits, of 7 t] by (simp add: or.assoc)
    show "ram m8 (frame_of s) = (ram m (frame_of s))(unat ?d := ?e)"
      using m8(6) [OF fr(1)] f(9) m3(7) [OF fr(1)] m1(5) [of "frame_of s"] by (simp add: space_frames_def)
    show "ram m8 (frame_of t) k = (if k = unat ?t then x else 0)" if "k < 1024" for k
      using m8(6) [of "frame_of t"] f(10) [OF that] by simp
    show "ram m8 g = ram m g" if "g \<in> space_tables m s" for g
    proof -
      have g: "g \<in> space_frames m s" using that by (simp add: space_frames_def)
      have "g \<noteq> frame_of s" "g \<noteq> frame_of t" using that us(4) new g by auto
      then show ?thesis using m8(6) f(11) m3(7) m1(5) g by simp
    qed
  qed
  ultimately show ?thesis using n by auto
qed

subsection \<open>The operations on an inactive space\<close>

text \<open>The frames an operation needs: one where no page table serves the window yet, and one for a new table of the space.\<close>

definition frames_needed :: "machine \<Rightarrow> u32 \<Rightarrow> u32 \<Rightarrow> nat" where
  "frames_needed m s v = (if bit (pde m 834) 0 then 0 else 1) + (if bit (dir_entry m s (unat (drop_bit 22 v))) 0 then 0 else 1)"

lemma map_refused:
  assumes w: "windows_closed m" and u: "user_space m s" and no: "\<not> map_ok v a"
  shows "vmm_address_space_map s v a fl m = Some (False, m)"
  using no by (auto simp: vmm_address_space_map_def map_ok_def)

lemma untouched_refl: "windows_closed m \<Longrightarrow> user_space m s \<Longrightarrow> untouched s m m"
  by (simp add: untouched_def kept_def)

lemma untouched_holding:
  assumes "windows_closed m" and "user_space m s"
  shows "untouched s m (release_window (holding m))"
  using completed_untouched [OF assms changed_refl] windows_closedD [OF assms(1)]
    release_window_holding [OF windows_closedD(2) [OF assms(1)] changed_refl] by simp

lemma map_without_table:
  assumes w: "windows_closed m" and u: "user_space m s" and ok: "map_ok v a" and p0: "\<not> bit (dir_entry m s (unat (drop_bit 22 v))) 0"
    and m1: "map_window ADDRESS_SPACE_DIRECTORY_WINDOW s (holding m) = Some (True, m1)" "vmm_inv m1" "changed (holding m) m1"
      "apart m1 (space_frames m s)" "\<And>g. g \<in> space_frames m s \<Longrightarrow> ram m1 g = ram m g"
      "\<And>i. unat i < 1024 \<Longrightarrow> directory_get i m1 = Some (dir_entry m s (unat i))"
    and al: "pmm_alloc (m_pmm m1) = (0, m_pmm m1)"
  shows "\<exists>m'. vmm_address_space_map s v a fl m = Some (False, m') \<and> untouched s m m'"
proof -
  have v: "v < KERNEL_BASE" using ok by (simp add: map_ok_def)
  note h = windows_closedD [OF w] and us = user_spaceD [OF u] and q = user_page [OF v]
  have guard: "\<not> (\<not> valid_space s \<or> v \<ge> KERNEL_BASE \<or> v AND (4096 - 1) \<noteq> 0 \<or> a AND (4096 - 1) \<noteq> 0 \<or> a = 0)"
    and d': "unat (drop_bit 22 v) < 1024" using us(1) ok q(1) by (auto simp: map_ok_def)
  from close_directory_untouched [OF w u m1(1-5)] obtain m' where
    m': "close_directory s m1 = Some m'" "untouched s m m'" by blast
  have "m1\<lparr>m_pmm := m_pmm m1\<rparr> = m1" by simp
  then have "table_for (dir_entry m s (unat (drop_bit 22 v))) m1 = (0, True, m1)"
    using p0 al by (simp add: table_for_def test_bits)
  then show ?thesis
    unfolding vmm_address_space_map_def if_not_P [OF guard]
    using acquire_window_free [OF h(2)] m1(1) m1(6) [OF d'] m' by (simp add: Let_def)
qed

lemma opened_card:
  assumes "bit (pde m 834) 0 \<Longrightarrow> m_pmm m1 = m_pmm m"
    and "\<not> bit (pde m 834) 0 \<Longrightarrow> \<exists>b\<in>free_frames (m_pmm m). free_frames (m_pmm m1) = free_frames (m_pmm m) - {b}"
  shows "card (free_frames (m_pmm m1)) + (if bit (pde m 834) 0 then 0 else 1) = card (free_frames (m_pmm m))"
proof (cases "bit (pde m 834) 0")
  case False
  then obtain b where "b \<in> free_frames (m_pmm m)" "free_frames (m_pmm m1) = free_frames (m_pmm m) - {b}"
    using assms(2) by blast
  then show ?thesis using False card_Suc_Diff1 [of "free_frames (m_pmm m)" b] by simp
qed (use assms(1) in simp)

lemma map_spec:
  fixes fl a :: u32
  assumes w: "windows_closed m" and u: "user_space m s"
  defines "x \<equiv> a OR PAGE_PRESENT OR VMM_USER OR (fl AND VMM_WRITABLE)"
  shows "\<exists>ok m'. vmm_address_space_map s v a fl m = Some (ok, m') \<and>
    (ok \<longleftrightarrow> map_ok v a \<and> user_entry m s (frame_of v) = None \<and> frames_needed m s v \<le> card (free_frames (m_pmm m))) \<and>
    (if ok then entered s (frame_of v) x m m' else untouched s m m')"
proof (cases "map_ok v a")
  case False
  then show ?thesis using map_refused [OF w u False] untouched_refl [OF w u] by auto
next
  case ok: True
  let ?d = "unat (drop_bit 22 v)"
  have v: "v < KERNEL_BASE" using ok by (simp add: map_ok_def)
  have guard: "\<not> (\<not> valid_space s \<or> v \<ge> KERNEL_BASE \<or> v AND (4096 - 1) \<noteq> 0 \<or> a AND (4096 - 1) \<noteq> 0 \<or> a = 0)"
    using user_spaceD(1) [OF u] ok by (auto simp: map_ok_def)
  from w u show ?thesis
  proof (cases rule: open_space)
    case full
    then have "vmm_address_space_map s v a fl m = Some (False, release_window (holding m))"
      unfolding vmm_address_space_map_def if_not_P [OF guard] using acquire_window_free [OF windows_closedD(2) [OF w]] by simp
    then show ?thesis using untouched_holding [OF w u] full(2,3) by (auto simp: frames_needed_def)
  next
    case (opened m1)
    have room: "bit (pde m 834) 0 \<or> free_frames (m_pmm m) \<noteq> {}" using opened(11) by blast
    show ?thesis
    proof (cases "bit (dir_entry m s ?d) 0")
      case True
      have "frames_needed m s v \<le> card (free_frames (m_pmm m))"
        using True room by (auto simp: frames_needed_def Suc_le_eq card_gt_0_iff)
      then show ?thesis using map_old_table [OF w u ok True room, of fl] ok by (auto simp: x_def)
    next
      case False
      have none: "user_entry m s (frame_of v) = None" using False by (simp add: user_entry_def user_page(4) [OF v])
      have pmm: "pmm_inv (m_pmm m1)" using opened(2) by (simp add: vmm_inv_def vmm_wf_def)
      note card = opened_card [OF opened(10,11)]
      obtain t p where t: "pmm_alloc (m_pmm m1) = (t, p)" by fastforce
      show ?thesis
      proof (cases "t = 0")
        case True
        then have z: "p = m_pmm m1" "free_frames (m_pmm m1) = {}" using pmm_frames.alloc_failed [OF pmm] t by auto
        then have "\<not> frames_needed m s v \<le> card (free_frames (m_pmm m))" using card False by (simp add: frames_needed_def)
        then show ?thesis using map_without_table [OF w u ok False opened(1-6)] t True z by auto
      next
        case t0: False
        have "free_frames (m_pmm m1) \<noteq> {}" using pmm_frames.alloc_taken [OF pmm t t0] by auto
        then have "0 < card (free_frames (m_pmm m1))" by (simp add: card_gt_0_iff)
        then have "frames_needed m s v \<le> card (free_frames (m_pmm m))" using card False by (simp add: frames_needed_def)
        then show ?thesis using map_new_table [OF w u ok False opened(1-9) t t0, of fl] ok none by (auto simp: x_def)
      qed
    qed
  qed
qed

subsection \<open>Properties\<close>

text \<open>
  C11: \<open>vmm_address_space_map\<close> on an inactive address space implements a partial map update. It never
  panics. It succeeds exactly when the arguments are valid, the page is free and the frames it needs are
  there; then exactly this page of the space changes and only frames that became tables of the space are
  gone. Otherwise the space and the allocator are unchanged. The active address space, the interrupt flag
  and the lock are in every case as before.
\<close>
theorem vmm_address_space_map_correct:
  assumes "windows_closed m" and "user_space m s"
  shows "\<exists>ok m'. vmm_address_space_map s v a fl m = Some (ok, m') \<and>
    (ok \<longleftrightarrow> map_ok v a \<and> user_entry m s (frame_of v) = None \<and> frames_needed m s v \<le> card (free_frames (m_pmm m))) \<and>
    (if ok then entered s (frame_of v) (a OR PAGE_PRESENT OR VMM_USER OR (fl AND VMM_WRITABLE)) m m' else untouched s m m')"
  by (rule map_spec [OF assms])

text \<open>
  After a successful mapping, a query of any address in the page finds the frame at the same offset, open to
  user code and writable exactly when this was asked for, and changes nothing: the frame the window needs is
  there again after every mapping.
\<close>
theorem vmm_address_space_map_query:
  assumes w: "windows_closed m" and u: "user_space m s" and map: "vmm_address_space_map s v a fl m = Some (True, m')"
    and q: "q < KERNEL_BASE" "frame_of q = frame_of v"
  shows "\<exists>m''. vmm_address_space_query s q m' = Some (Some (a OR (q AND (4096 - 1)), VMM_USER OR (fl AND VMM_WRITABLE)), m'') \<and>
    untouched s m' m''"
proof -
  let ?x = "a OR PAGE_PRESENT OR VMM_USER OR (fl AND VMM_WRITABLE)"
  from map_spec [OF w u, of v a fl] map have e: "entered s (frame_of v) ?x m m'" and ok: "map_ok v a"
    and need: "frames_needed m s v \<le> card (free_frames (m_pmm m))" by auto
  have "bit (pde m' 834) 0 \<longleftrightarrow> bit (pde m 834) 0" using e by (simp add: entered_def kept_def)
  moreover have "frame_of v div 1024 = unat (drop_bit 22 v)" using ok by (intro user_page) (simp add: map_ok_def)
  then have "(if bit (pde m 834) 0 then 0 else 1) \<le> card (free_frames (m_pmm m'))"
    using e need unfolding entered_def frames_needed_def by (simp split: if_splits)
  ultimately have room: "bit (pde m' 834) 0 \<or> free_frames (m_pmm m') \<noteq> {}" by (auto split: if_splits)
  have x: "user_entry m' s (frame_of q) = Some ?x" "windows_closed m'" "user_space m' s"
    using e user_page(3) [OF q(1)] q(2) by (simp_all add: entered_def kept_def)
  have "unat a mod 4096 = 0" using ok unat_and_FFF [of a] unat_eq_0 [of "a AND 4095"] by (simp add: map_ok_def)
  note al = aligned_bits [OF this]
  have 1: "?x AND PAGE_MASK = a"
  proof (rule bit_word_eqI)
    fix n assume "n < LENGTH(32)"
    then show "bit (?x AND PAGE_MASK) n \<longleftrightarrow> bit a n"
      using al [of n] by (cases "n < 12") (auto simp only: bit_and_iff bit_or_iff bit_flags bit_PAGE_MASK len_num1 len_bit0 len_bit1)
  qed
  have 2: "?x AND (VMM_WRITABLE OR VMM_USER) = VMM_USER OR (fl AND VMM_WRITABLE)"
    by (rule bit_word_eqI) (use al in \<open>auto simp only: bit_and_iff bit_or_iff bit_flags\<close>)
  show ?thesis using query_spec [OF x(2,3) q(1) room] x(1) 1 2 by simp
qed

subsection \<open>A concrete machine\<close>

text \<open>One empty address space in frame 256, and three free frames.\<close>

definition space_pmm :: pmm where
  "space_pmm = \<lparr>used_bitmap = (\<lambda>i. if i = 32 then 1 else 0), allocatable_bitmap = (\<lambda>i. if i = 32 then 15 else 0),
     total_pages = 260, free_pages = 3, reserved_pages = 256\<rparr>"

definition space_machine :: machine where
  "space_machine = sample_machine\<lparr>m_pmm := space_pmm\<rparr>"

lemma space_pmm_bits:
  "bitmap_get (allocatable_bitmap space_pmm) q \<longleftrightarrow> unat q \<in> {256, 257, 258, 259}"
  "bitmap_get (used_bitmap space_pmm) q \<longleftrightarrow> unat q = 256"
proof -
  have page: "n div 8 = 32 \<and> n mod 8 < 4 \<longleftrightarrow> n \<in> {256, 257, 258, 259}" "n div 8 = 32 \<and> n mod 8 = 0 \<longleftrightarrow> n = 256" for n :: nat
    unfolding insert_iff empty_iff by presburger+
  have "bit (15 :: u8) k \<longleftrightarrow> k < 4" if "k < 8" for k
    using bit_mask_iff [where 'a = u8, of 4 k] that by (auto simp: mask_eq_exp_minus_1)
  moreover have "bit (1 :: u8) k \<longleftrightarrow> k = 0" for k by (simp add: bit_1_iff)
  ultimately have "bitmap_get (allocatable_bitmap space_pmm) q \<longleftrightarrow> unat q div 8 = 32 \<and> unat q mod 8 < 4"
    "bitmap_get (used_bitmap space_pmm) q \<longleftrightarrow> unat q div 8 = 32 \<and> unat q mod 8 = 0"
    by (simp_all add: bitmap_get_iff space_pmm_def)
  then show "bitmap_get (allocatable_bitmap space_pmm) q \<longleftrightarrow> unat q \<in> {256, 257, 258, 259}"
    "bitmap_get (used_bitmap space_pmm) q \<longleftrightarrow> unat q = 256" by (simp_all only: page)
qed

lemma space_pmm_frames: "free_frames space_pmm = {257, 258, 259}" "allocated_frames space_pmm = {256}"
proof -
  have "total_pages space_pmm = 260" by (simp add: space_pmm_def)
  then show "free_frames space_pmm = {257, 258, 259}" "allocated_frames space_pmm = {256}"
    by (auto simp: free_frames_def allocated_frames_def page_is_free_def space_pmm_bits unat_of_nat32)
qed

lemma space_pmm_inv: "pmm_inv space_pmm"
proof -
  have "unat (of_nat n :: u32) = n" if "n < 256" for n using that by (simp add: unat_of_nat32)
  then show ?thesis by (auto simp: pmm_inv_def space_pmm_bits space_pmm_frames) (simp_all add: space_pmm_def)
qed

lemma sample_tables: "table_frames sample_machine = {1, 2}"
proof -
  have "{i. i < 1023 \<and> bit (pde sample_machine i) 0} = {768}"
    using sample_bits(1) by (auto simp: sample_pde split: if_splits)
  then show ?thesis by (simp add: table_frames_def sample_pde frame_of_def) (auto simp: sample_machine_def)
qed

lemma space_machine_closed: "windows_closed space_machine"
proof -
  have "vmm_inv space_machine"
    unfolding space_machine_def using sample_tables space_pmm_inv
    by (intro pmm_change [OF sample_machine_inv]) (simp_all add: space_pmm_frames)
  then show ?thesis by (simp add: windows_closed_def) (simp add: space_machine_def, simp add: sample_machine_def)
qed

lemma space_machine_empty: "dir_entry space_machine 0x00100000 i = 0" "pde space_machine 834 = 0" "m_pmm space_machine = space_pmm"
  by (simp_all add: space_machine_def sample_pde) (simp add: dir_entry_def frame_of_def sample_machine_def)

lemma space_machine_space: "user_space space_machine 0x00100000"
proof -
  have "space_tables space_machine 0x00100000 = {}" by (simp add: space_tables_def space_machine_empty)
  then show ?thesis
    using sample_tables
    by (simp add: user_space_def valid_space_def apart_def space_frames_def space_machine_empty space_pmm_frames frame_of_def)
      (simp add: space_machine_def)
qed

theorem vmm_address_space_map_correct_witness:
  "\<exists>m'. vmm_address_space_map 0x00100000 0x00400000 0x00300000 VMM_WRITABLE space_machine = Some (True, m') \<and>
     user_entry m' 0x00100000 0x400 = Some 0x00300007"
proof -
  have "map_ok 0x00400000 0x00300000" "frame_of 0x00400000 = 0x400" by (simp_all add: map_ok_def frame_of_def)
  moreover have "user_entry space_machine 0x00100000 n = None" for n by (simp add: user_entry_def space_machine_empty)
  moreover have "frames_needed space_machine 0x00100000 0x00400000 \<le> card (free_frames (m_pmm space_machine))"
    by (simp add: frames_needed_def space_machine_empty space_pmm_frames)
  ultimately show ?thesis
    using vmm_address_space_map_correct [OF space_machine_closed space_machine_space, of "0x00400000" "0x00300000" VMM_WRITABLE]
    by (auto simp: entered_def)
qed

theorem vmm_address_space_map_query_witness:
  "\<exists>m' m''. vmm_address_space_map 0x00100000 0x00400000 0x00300000 0 space_machine = Some (True, m') \<and>
     vmm_address_space_query 0x00100000 0x00400011 m' = Some (Some (0x00300011, VMM_USER), m'')"
proof -
  have "map_ok 0x00400000 0x00300000" by (simp add: map_ok_def)
  moreover have "user_entry space_machine 0x00100000 n = None" for n by (simp add: user_entry_def space_machine_empty)
  moreover have "frames_needed space_machine 0x00100000 0x00400000 \<le> card (free_frames (m_pmm space_machine))"
    by (simp add: frames_needed_def space_machine_empty space_pmm_frames)
  ultimately obtain m' where m': "vmm_address_space_map 0x00100000 0x00400000 0x00300000 0 space_machine = Some (True, m')"
    using map_spec [OF space_machine_closed space_machine_space, of "0x00400000" "0x00300000" 0] by auto
  have "frame_of 0x00400011 = frame_of 0x00400000" by (simp add: frame_of_def)
  then show ?thesis
    using vmm_address_space_map_query [OF space_machine_closed space_machine_space m', of "0x00400011"] m' by auto
qed

end
