(* ===== verification/Byte_Access.thy ===== *)
theory Byte_Access
  imports Vmm
begin

text \<open>
  Bytes of the 32-bit words of memory, in little-endian order: the accesses of the code that copies byte by
  byte, and the fields of packed structures in an array of bytes.
\<close>

subsection \<open>Bytes of a word\<close>

definition word_byte :: "nat \<Rightarrow> u32 \<Rightarrow> u8" where
  "word_byte k w = ucast (drop_bit (8 * k) w)"

definition set_word_byte :: "nat \<Rightarrow> u8 \<Rightarrow> u32 \<Rightarrow> u32" where
  "set_word_byte k b w = (w AND NOT (push_bit (8 * k) 0xFF)) OR push_bit (8 * k) (ucast b)"

lemma bit_word_byte: "bit (word_byte k w) n \<longleftrightarrow> n < 8 \<and> bit w (8 * k + n)"
  by (simp add: word_byte_def bit_simps)

lemma bit_byte_mask: "bit (0xFF :: u32) n \<longleftrightarrow> n < 8"
proof -
  have "(0xFF :: u32) = mask 8" by (simp add: mask_eq_exp_minus_1)
  then show ?thesis by (simp only: bit_mask_iff possible_bit_word) auto
qed

lemma bit_set_word_byte:
  "bit (set_word_byte k b w) n \<longleftrightarrow>
     n < 32 \<and> (if 8 * k \<le> n \<and> n < 8 * k + 8 then bit b (n - 8 * k) else bit w n)"
  using bit_imp_le_length [of w n] bit_imp_le_length [of b "n - 8 * k"]
  unfolding set_word_byte_def bit_or_iff bit_and_iff bit_not_iff bit_push_bit_iff bit_byte_mask bit_ucast_iff by auto

lemma word_byte_set [simp]:
  assumes "k < 4" and "j < 4"
  shows "word_byte j (set_word_byte k b w) = (if j = k then b else word_byte j w)"
proof (rule bit_word_eqI)
  fix n assume "n < LENGTH(8)"
  then have n: "n < 8" by simp
  have "8 * k \<le> 8 * j + n \<and> 8 * j + n < 8 * k + 8 \<longleftrightarrow> j = k" using n by auto
  then show "bit (word_byte j (set_word_byte k b w)) n \<longleftrightarrow> bit (if j = k then b else word_byte j w) n"
    using assms n by (auto simp: bit_word_byte bit_set_word_byte)
qed

subsection \<open>Byte accesses at a virtual address\<close>

definition vread8 :: "u32 \<Rightarrow> machine \<Rightarrow> u8 option" where
  "vread8 v m = map_option (word_byte (unat (v AND 3))) (vread v m)"

definition vwrite8 :: "u32 \<Rightarrow> u8 \<Rightarrow> machine \<Rightarrow> machine option" where
  "vwrite8 v x m = do { w \<leftarrow> vread v m; vwrite v (set_word_byte (unat (v AND 3)) x w) m }"

subsection \<open>Fields of a packed structure\<close>

definition field16 :: "u8 list \<Rightarrow> nat \<Rightarrow> u16" where
  "field16 bytes off = ucast (bytes ! off) OR push_bit 8 (ucast (bytes ! (off + 1)))"

definition field32 :: "u8 list \<Rightarrow> nat \<Rightarrow> u32" where
  "field32 bytes off = ucast (bytes ! off) OR push_bit 8 (ucast (bytes ! (off + 1))) OR
     push_bit 16 (ucast (bytes ! (off + 2))) OR push_bit 24 (ucast (bytes ! (off + 3)))"

definition set_field16 :: "nat \<Rightarrow> u16 \<Rightarrow> u8 list \<Rightarrow> u8 list" where
  "set_field16 off x bytes = bytes[off := ucast x, off + 1 := ucast (drop_bit 8 x)]"

definition set_field32 :: "nat \<Rightarrow> u32 \<Rightarrow> u8 list \<Rightarrow> u8 list" where
  "set_field32 off x bytes = bytes[off := ucast x, off + 1 := ucast (drop_bit 8 x), off + 2 := ucast (drop_bit 16 x),
     off + 3 := ucast (drop_bit 24 x)]"

lemma length_set_field [simp]:
  "length (set_field16 off y bytes) = length bytes" "length (set_field32 off x bytes) = length bytes"
  by (simp_all add: set_field16_def set_field32_def)

lemma bytes_of_u16: "ucast (ucast x :: u8) OR push_bit 8 (ucast (ucast (drop_bit 8 x) :: u8)) = (x :: u16)"
  (is "?l = x")
proof (rule bit_word_eqI)
  fix n assume "n < LENGTH(16)"
  then have "n < 16" by simp
  then show "bit ?l n \<longleftrightarrow> bit x n"
    by (cases "n < 8") (auto simp: bit_simps)
qed

lemma bytes_of_u32:
  "ucast (ucast x :: u8) OR push_bit 8 (ucast (ucast (drop_bit 8 x) :: u8)) OR
     push_bit 16 (ucast (ucast (drop_bit 16 x) :: u8)) OR push_bit 24 (ucast (ucast (drop_bit 24 x) :: u8)) = (x :: u32)"
  (is "?l = x")
proof (rule bit_word_eqI)
  fix n assume "n < LENGTH(32)"
  then have n: "n < 32" by simp
  consider "n < 8" | "8 \<le> n" "n < 16" | "16 \<le> n" "n < 24" | "24 \<le> n" by linarith
  then show "bit ?l n \<longleftrightarrow> bit x n" by cases (use n in \<open>auto simp: bit_simps\<close>)
qed

lemma field_set_same [simp]:
  "off + 2 \<le> length bytes \<Longrightarrow> field16 (set_field16 off y bytes) off = y"
  "off + 4 \<le> length bytes \<Longrightarrow> field32 (set_field32 off x bytes) off = x"
  using bytes_of_u16 [of y] bytes_of_u32 [of x] by (simp_all add: field16_def set_field16_def field32_def set_field32_def)

lemma nth_set_field:
  "j < off \<or> off + 2 \<le> j \<Longrightarrow> set_field16 off y bytes ! j = bytes ! j"
  "j < off \<or> off + 4 \<le> j \<Longrightarrow> set_field32 off x bytes ! j = bytes ! j"
  by (auto simp: set_field16_def set_field32_def)

lemma field_set_other [simp]:
  "j + 2 \<le> off \<or> off + 2 \<le> j \<Longrightarrow> field16 (set_field16 off y bytes) j = field16 bytes j"
  "j + 4 \<le> off \<or> off + 2 \<le> j \<Longrightarrow> field32 (set_field16 off y bytes) j = field32 bytes j"
  "j + 2 \<le> off \<or> off + 4 \<le> j \<Longrightarrow> field16 (set_field32 off x bytes) j = field16 bytes j"
  "j + 4 \<le> off \<or> off + 4 \<le> j \<Longrightarrow> field32 (set_field32 off x bytes) j = field32 bytes j"
  by (auto simp: field16_def field32_def nth_set_field)

end
