(* ===== verification/Elf.thy ===== *)
theory Elf
  imports Address_Space Byte_Access
begin

text \<open>
  The ELF32 loader (\<open>kernel/proc/elf.c\<close>). An image is the list of its bytes. A structure that overlays the
  image is decoded from it; reading outside the image is \<^const>\<open>None\<close>, like a panic. \<open>size_t\<close> has 32 bits.
\<close>

abbreviation (input) ELF_IDENT_SIZE :: nat where "ELF_IDENT_SIZE \<equiv> 16"
abbreviation (input) ELF_CLASS_32 :: u8 where "ELF_CLASS_32 \<equiv> 1"
abbreviation (input) ELF_DATA_LITTLE_ENDIAN :: u8 where "ELF_DATA_LITTLE_ENDIAN \<equiv> 1"
abbreviation (input) ELF_VERSION_CURRENT :: "'a :: len word" where "ELF_VERSION_CURRENT \<equiv> 1"
abbreviation (input) ELF_TYPE_EXECUTABLE :: u16 where "ELF_TYPE_EXECUTABLE \<equiv> 2"
abbreviation (input) ELF_MACHINE_I386 :: u16 where "ELF_MACHINE_I386 \<equiv> 3"
abbreviation (input) ELF_PROGRAM_LOAD :: u32 where "ELF_PROGRAM_LOAD \<equiv> 1"
abbreviation (input) ELF_PROGRAM_EXECUTABLE :: u32 where "ELF_PROGRAM_EXECUTABLE \<equiv> 1"
abbreviation (input) ELF_PROGRAM_WRITABLE :: u32 where "ELF_PROGRAM_WRITABLE \<equiv> 2"
abbreviation (input) ELF_PROGRAM_READABLE :: u32 where "ELF_PROGRAM_READABLE \<equiv> 4"
abbreviation (input) ELF_PROGRAM_FLAGS :: u32 where "ELF_PROGRAM_FLAGS \<equiv> 7"
abbreviation (input) ELF_PROGRAM_LIMIT :: u16 where "ELF_PROGRAM_LIMIT \<equiv> 32"
abbreviation (input) ELF_LOAD_WINDOW :: u32 where "ELF_LOAD_WINDOW \<equiv> 0xD0C00000"
abbreviation (input) ELF_SELF_TEST_BYTES :: nat where "ELF_SELF_TEST_BYTES \<equiv> 84"

record elf_header =
  eh_ident :: "u8 list"
  eh_type :: u16
  eh_machine :: u16
  eh_version :: u32
  eh_entry :: u32
  eh_program_offset :: u32
  eh_section_offset :: u32
  eh_flags :: u32
  eh_header_size :: u16
  eh_program_entry_size :: u16
  eh_program_count :: u16
  eh_section_entry_size :: u16
  eh_section_count :: u16
  eh_section_name_index :: u16

record elf_program_header =
  ph_type :: u32
  ph_file_offset :: u32
  ph_virtual_address :: u32
  ph_physical_address :: u32
  ph_file_size :: u32
  ph_memory_size :: u32
  ph_flags :: u32
  ph_alignment :: u32

definition decode_elf_header :: "u8 list \<Rightarrow> elf_header" where
  "decode_elf_header b = \<lparr>eh_ident = take ELF_IDENT_SIZE b, eh_type = field16 b 16, eh_machine = field16 b 18,
     eh_version = field32 b 20, eh_entry = field32 b 24, eh_program_offset = field32 b 28, eh_section_offset = field32 b 32,
     eh_flags = field32 b 36, eh_header_size = field16 b 40, eh_program_entry_size = field16 b 42,
     eh_program_count = field16 b 44, eh_section_entry_size = field16 b 46, eh_section_count = field16 b 48,
     eh_section_name_index = field16 b 50\<rparr>"

definition decode_elf_program_header :: "u8 list \<Rightarrow> nat \<Rightarrow> elf_program_header" where
  "decode_elf_program_header b off = \<lparr>ph_type = field32 b off, ph_file_offset = field32 b (off + 4),
     ph_virtual_address = field32 b (off + 8), ph_physical_address = field32 b (off + 12), ph_file_size = field32 b (off + 16),
     ph_memory_size = field32 b (off + 20), ph_flags = field32 b (off + 24), ph_alignment = field32 b (off + 28)\<rparr>"

definition elf_header_at :: "u8 list \<Rightarrow> elf_header option" where
  "elf_header_at img = (if 52 \<le> length img then Some (decode_elf_header img) else None)"

subsection \<open>Validation\<close>

definition range_within :: "u32 \<Rightarrow> u32 \<Rightarrow> u32 \<Rightarrow> bool" where
  "range_within limit offset len \<longleftrightarrow> offset \<le> limit \<and> len \<le> limit - offset"

definition program_header_at :: "u8 list \<Rightarrow> elf_header \<Rightarrow> nat \<Rightarrow> elf_program_header option" where
  "program_header_at img header index =
     (let offset = eh_program_offset header + of_nat index * 32
      in if unat offset + 32 \<le> length img then Some (decode_elf_program_header img (unat offset)) else None)"

definition program_range_valid :: "elf_program_header \<Rightarrow> u32 \<Rightarrow> bool" where
  "program_range_valid program image_size =
     (if ph_type program \<noteq> ELF_PROGRAM_LOAD then True
      else if ph_memory_size program = 0 then ph_file_size program = 0
      else if ph_file_size program > ph_memory_size program \<or>
              \<not> range_within image_size (ph_file_offset program) (ph_file_size program) \<or>
              ph_virtual_address program < 4096 \<or> ph_virtual_address program \<ge> KERNEL_BASE \<or>
              ph_memory_size program > KERNEL_BASE - ph_virtual_address program \<or>
              ph_flags program AND NOT ELF_PROGRAM_FLAGS \<noteq> 0
      then False
      else let memory_end = ph_virtual_address program + ph_memory_size program
           in if memory_end > KERNEL_BASE \<or> ph_flags program AND (ELF_PROGRAM_READABLE OR ELF_PROGRAM_EXECUTABLE) = 0 then False
              else if ph_alignment program > 1 \<and>
                      (ph_alignment program AND (ph_alignment program - 1) \<noteq> 0 \<or>
                       (ph_virtual_address program - ph_file_offset program) AND (ph_alignment program - 1) \<noteq> 0)
              then False
              else True)"

definition load_ranges_overlap :: "elf_program_header \<Rightarrow> elf_program_header \<Rightarrow> bool" where
  "load_ranges_overlap left right =
     (if ph_type left \<noteq> ELF_PROGRAM_LOAD \<or> ph_type right \<noteq> ELF_PROGRAM_LOAD then False
      else let left_end = ph_virtual_address left + ph_memory_size left;
               right_end = ph_virtual_address right + ph_memory_size right
           in ph_virtual_address left < right_end \<and> ph_virtual_address right < left_end)"

fun overlaps_previous :: "u8 list \<Rightarrow> elf_header \<Rightarrow> elf_program_header \<Rightarrow> nat list \<Rightarrow> bool option" where
  "overlaps_previous img header program [] = Some False"
| "overlaps_previous img header program (previous # rest) = do {
     other \<leftarrow> program_header_at img header previous;
     if load_ranges_overlap program other then Some True else overlaps_previous img header program rest
   }"

definition entry_in_program :: "elf_header \<Rightarrow> elf_program_header \<Rightarrow> bool" where
  "entry_in_program header program \<longleftrightarrow> ph_flags program AND ELF_PROGRAM_EXECUTABLE \<noteq> 0 \<and>
     eh_entry header \<ge> ph_virtual_address program \<and> eh_entry header - ph_virtual_address program < ph_memory_size program"

fun validate_programs :: "u8 list \<Rightarrow> u32 \<Rightarrow> elf_header \<Rightarrow> nat list \<Rightarrow> bool \<Rightarrow> bool \<Rightarrow> bool option" where
  "validate_programs img image_size header [] has_load entry_is_executable = Some (has_load \<and> entry_is_executable)"
| "validate_programs img image_size header (index # rest) has_load entry_is_executable = do {
     program \<leftarrow> program_header_at img header index;
     if \<not> program_range_valid program image_size then Some False
     else if ph_type program \<noteq> ELF_PROGRAM_LOAD \<or> ph_memory_size program = 0
     then validate_programs img image_size header rest has_load entry_is_executable
     else do {
       overlap \<leftarrow> overlaps_previous img header program [0..<index];
       if overlap then Some False
       else validate_programs img image_size header rest True (entry_is_executable \<or> entry_in_program header program)
     }
   }"

definition header_valid :: "elf_header \<Rightarrow> u32 \<Rightarrow> bool" where
  "header_valid header image_size \<longleftrightarrow>
     eh_ident header ! 0 = 0x7F \<and> eh_ident header ! 1 = 0x45 \<and> eh_ident header ! 2 = 0x4C \<and> eh_ident header ! 3 = 0x46 \<and>
     eh_ident header ! 4 = ELF_CLASS_32 \<and> eh_ident header ! 5 = ELF_DATA_LITTLE_ENDIAN \<and>
     eh_ident header ! 6 = ELF_VERSION_CURRENT \<and> eh_type header = ELF_TYPE_EXECUTABLE \<and>
     eh_machine header = ELF_MACHINE_I386 \<and> eh_version header = ELF_VERSION_CURRENT \<and> eh_header_size header = 52 \<and>
     eh_program_entry_size header = 32 \<and> eh_program_count header \<noteq> 0 \<and> eh_program_count header \<le> ELF_PROGRAM_LIMIT \<and>
     range_within image_size (eh_program_offset header) (ucast (eh_program_count header) * 32)"

definition validate_image :: "u8 list \<Rightarrow> u32 \<Rightarrow> u32 option option" where
  "validate_image img image_size =
     (if image_size < 52 then Some None
      else do {
        header \<leftarrow> elf_header_at img;
        if \<not> header_valid header image_size then Some None
        else do {
          ok \<leftarrow> validate_programs img image_size header [0..<unat (eh_program_count header)] False False;
          Some (if ok then Some (eh_entry header) else None)
        }
      })"

subsection \<open>Loading\<close>

definition zero_physical_page :: "u32 \<Rightarrow> machine \<Rightarrow> (bool \<times> machine) option" where
  "zero_physical_page physical_address m = do {
     (ok, m) \<leftarrow> vmm_map ELF_LOAD_WINDOW physical_address VMM_WRITABLE m;
     if \<not> ok then Some (False, m)
     else do {
       m \<leftarrow> for_opt 0 4096 (\<lambda>index. vwrite8 (ELF_LOAD_WINDOW + of_nat index) 0) m;
       (unmapped, m) \<leftarrow> vmm_unmap ELF_LOAD_WINDOW m;
       if unmapped \<noteq> Some physical_address then None else Some (True, m)
     }
   }"

definition ensure_user_page :: "u32 \<Rightarrow> u32 \<Rightarrow> bool \<Rightarrow> machine \<Rightarrow> (int \<times> u32 \<times> machine) option" where
  "ensure_user_page space virtual_address writable m = do {
     (found, m) \<leftarrow> vmm_address_space_query space virtual_address m;
     case found of
       Some (physical, flags) \<Rightarrow>
         if writable \<and> flags AND VMM_WRITABLE = 0
         then do {
           (ok, m) \<leftarrow> vmm_address_space_protect space virtual_address VMM_WRITABLE m;
           if \<not> ok then Some (- MINIOS_EIO, 0, m) else Some (0, physical AND PAGE_MASK, m)
         }
         else Some (0, physical AND PAGE_MASK, m)
     | None \<Rightarrow>
         case pmm_alloc (m_pmm m) of (physical, p) \<Rightarrow>
           let m = m\<lparr>m_pmm := p\<rparr>
           in if physical = 0 then Some (- MINIOS_ENOMEM, 0, m)
              else do {
                (ok, m) \<leftarrow> zero_physical_page physical m;
                (ok, m) \<leftarrow> (if \<not> ok then Some (False, m)
                            else vmm_address_space_map space virtual_address physical (if writable then VMM_WRITABLE else 0) m);
                if \<not> ok then do { m \<leftarrow> free_or_panic physical m; Some (- MINIOS_ENOMEM, 0, m) }
                else Some (0, physical, m)
              }
   }"

definition image_byte :: "u8 list \<Rightarrow> u32 \<Rightarrow> u8 option" where
  "image_byte img i = (if unat i < length img then Some (img ! unat i) else None)"

definition copy_to_physical :: "u32 \<Rightarrow> u32 \<Rightarrow> u8 list \<Rightarrow> u32 \<Rightarrow> u32 \<Rightarrow> machine \<Rightarrow> (bool \<times> machine) option" where
  "copy_to_physical physical_address page_offset img source len m =
     (if page_offset > 4096 \<or> len > 4096 - page_offset then Some (False, m)
      else do {
        (ok, m) \<leftarrow> vmm_map ELF_LOAD_WINDOW physical_address VMM_WRITABLE m;
        if \<not> ok then Some (False, m)
        else do {
          m \<leftarrow> for_opt 0 (unat len) (\<lambda>index m. do {
                 b \<leftarrow> image_byte img (source + of_nat index);
                 vwrite8 (ELF_LOAD_WINDOW + page_offset + of_nat index) b m
               }) m;
          (unmapped, m) \<leftarrow> vmm_unmap ELF_LOAD_WINDOW m;
          if unmapped \<noteq> Some physical_address then None else Some (True, m)
        }
      })"

text \<open>The first loop of \<open>load_program\<close>; not returning is \<^const>\<open>None\<close>.\<close>

partial_function (option) ensure_pages :: "u32 \<Rightarrow> bool \<Rightarrow> u32 \<Rightarrow> u32 \<Rightarrow> machine \<Rightarrow> (int \<times> machine) option" where
  "ensure_pages space writable page last_page m =
     Option.bind (ensure_user_page space page writable m) (\<lambda>r.
       let result = fst r; m = snd (snd r)
       in if result < 0 then Some (result, m)
          else if page = last_page then Some (0, m)
          else ensure_pages space writable (page + 4096) last_page m)"

text \<open>Its second loop.\<close>

definition load_chunk :: "u32 \<Rightarrow> u32 \<Rightarrow> u32" where
  "load_chunk virtual_cursor remaining =
     (let page_offset = virtual_cursor AND (4096 - 1); chunk = 4096 - page_offset
      in if chunk > remaining then remaining else chunk)"

lemma load_chunk_pos: "remaining \<noteq> 0 \<Longrightarrow> load_chunk virtual_cursor remaining \<noteq> 0"
  and load_chunk_le: "load_chunk virtual_cursor remaining \<le> remaining"
proof -
  have "unat (virtual_cursor AND 0xFFF) < 4096" by (simp add: unat_and_FFF)
  then have "4096 - (virtual_cursor AND 0xFFF) \<noteq> 0" by auto
  then show "remaining \<noteq> 0 \<Longrightarrow> load_chunk virtual_cursor remaining \<noteq> 0" by (simp add: load_chunk_def Let_def)
  show "load_chunk virtual_cursor remaining \<le> remaining" by (auto simp: load_chunk_def Let_def)
qed

lemma load_chunk_decreases:
  assumes "remaining \<noteq> 0"
  shows "unat (remaining - load_chunk virtual_cursor remaining) < unat remaining"
proof -
  have "0 < unat (load_chunk virtual_cursor remaining)" "unat (load_chunk virtual_cursor remaining) \<le> unat remaining"
    using load_chunk_pos [OF assms, of virtual_cursor] load_chunk_le [of virtual_cursor remaining]
    by (simp_all add: word_le_nat_alt unat_gt_0)
  then show ?thesis by (simp add: unat_sub_if')
qed

function copy_segment :: "u32 \<Rightarrow> u8 list \<Rightarrow> u32 \<Rightarrow> u32 \<Rightarrow> u32 \<Rightarrow> machine \<Rightarrow> (int \<times> machine) option" where
  "copy_segment space img virtual_cursor file_cursor remaining m =
     (if remaining = 0 then Some (0, m)
      else do {
        let page_base = virtual_cursor AND PAGE_MASK;
        let page_offset = virtual_cursor AND (4096 - 1);
        let chunk = load_chunk virtual_cursor remaining;
        (found, m) \<leftarrow> vmm_address_space_query space page_base m;
        case found of
          None \<Rightarrow> Some (- MINIOS_EIO, m)
        | Some (physical, flags) \<Rightarrow> do {
            (ok, m) \<leftarrow> copy_to_physical (physical AND PAGE_MASK) page_offset img file_cursor chunk m;
            if \<not> ok then Some (- MINIOS_EIO, m)
            else copy_segment space img (virtual_cursor + chunk) (file_cursor + chunk) (remaining - chunk) m
          }
      })"
  by pat_completeness auto
termination
  by (relation "measure (\<lambda>(_, _, _, _, remaining, _). unat remaining)") (auto intro: load_chunk_decreases)

declare copy_segment.simps [simp del]

definition load_program :: "u32 \<Rightarrow> u8 list \<Rightarrow> elf_program_header \<Rightarrow> machine \<Rightarrow> (int \<times> machine) option" where
  "load_program space img program m = do {
     let first_page = ph_virtual_address program AND PAGE_MASK;
     let last_page = (ph_virtual_address program + ph_memory_size program - 1) AND PAGE_MASK;
     let writable = (ph_flags program AND ELF_PROGRAM_WRITABLE \<noteq> 0);
     (result, m) \<leftarrow> ensure_pages space writable first_page last_page m;
     if result < 0 then Some (result, m)
     else copy_segment space img (ph_virtual_address program) (ph_file_offset program) (ph_file_size program) m
   }"

fun load_programs :: "u32 \<Rightarrow> u8 list \<Rightarrow> elf_header \<Rightarrow> nat list \<Rightarrow> machine \<Rightarrow> (int \<times> machine) option" where
  "load_programs space img header [] m = Some (0, m)"
| "load_programs space img header (index # rest) m = do {
     program \<leftarrow> program_header_at img header index;
     if ph_type program \<noteq> ELF_PROGRAM_LOAD \<or> ph_memory_size program = 0 then load_programs space img header rest m
     else do {
       (result, m) \<leftarrow> load_program space img program m;
       if result < 0 then Some (result, m) else load_programs space img header rest m
     }
   }"

text \<open>The entry point is written only on success.\<close>

definition elf_load_image :: "u32 \<Rightarrow> u8 list \<Rightarrow> u32 \<Rightarrow> machine \<Rightarrow> (int \<times> u32 option \<times> machine) option" where
  "elf_load_image space img image_size m =
     (if space = 0 then Some (- MINIOS_ENOEXEC, None, m)
      else do {
        validated \<leftarrow> validate_image img image_size;
        case validated of
          None \<Rightarrow> Some (- MINIOS_ENOEXEC, None, m)
        | Some validated_entry \<Rightarrow> do {
            header \<leftarrow> elf_header_at img;
            (result, m) \<leftarrow> load_programs space img header [0..<unat (eh_program_count header)] m;
            if result < 0 then Some (result, None, m) else Some (0, Some validated_entry, m)
          }
      })"

subsection \<open>Self test\<close>

text \<open>The test's own image: the header of the given one with a single program header behind it.\<close>

definition self_test_image :: "u8 list \<Rightarrow> u8 list" where
  "self_test_image img =
     (let malformed = take ELF_SELF_TEST_BYTES img;
          malformed = set_field32 28 52 malformed;
          malformed = set_field16 44 1 malformed;
          malformed = set_field32 24 0x00400000 malformed;
          malformed = set_field32 52 ELF_PROGRAM_LOAD malformed;
          malformed = set_field32 56 0 malformed;
          malformed = set_field32 60 0x00400000 malformed;
          malformed = set_field32 68 0 malformed;
          malformed = set_field32 72 4096 malformed;
          malformed = set_field32 76 (ELF_PROGRAM_READABLE OR ELF_PROGRAM_EXECUTABLE) malformed
      in set_field32 80 4096 malformed)"

definition elf_loader_validation_self_test :: "u8 list \<Rightarrow> u32 \<Rightarrow> bool option" where
  "elf_loader_validation_self_test img image_size = do {
     valid \<leftarrow> validate_image img image_size;
     if valid = None \<or> image_size < of_nat ELF_SELF_TEST_BYTES then Some False
     else if length img < ELF_SELF_TEST_BYTES then None
     else do {
       let malformed = self_test_image img;
       accepted \<leftarrow> validate_image malformed (of_nat ELF_SELF_TEST_BYTES);
       if accepted = None then Some False
       else do {
         let malformed = set_field16 16 3 malformed;
         accepted \<leftarrow> validate_image malformed (of_nat ELF_SELF_TEST_BYTES);
         if accepted \<noteq> None then Some False
         else do {
           let malformed = set_field32 68 1 (set_field32 72 0 (set_field16 16 ELF_TYPE_EXECUTABLE malformed));
           accepted \<leftarrow> validate_image malformed (of_nat ELF_SELF_TEST_BYTES);
           if accepted \<noteq> None then Some False
           else do {
             let malformed = set_field32 24 KERNEL_BASE (set_field32 60 KERNEL_BASE
                               (set_field32 72 4096 (set_field32 68 0 malformed)));
             accepted \<leftarrow> validate_image malformed (of_nat ELF_SELF_TEST_BYTES);
             Some (accepted = None)
           }
         }
       }
     }
   }"

end
