(* ===== verification/Elf_Correct.thy ===== *)
theory Elf_Correct
  imports Elf
begin

text \<open>
  What validation guarantees: it reads only bytes of the image, and an accepted image has segments inside the
  file and inside user memory that do not meet, with the entry point in an executable one.
\<close>

lemma range_within_iff: "range_within limit off len \<longleftrightarrow> unat off + unat len \<le> unat limit"
proof (cases "off \<le> limit")
  case True
  then have "unat (limit - off) = unat limit - unat off" "unat off \<le> unat limit"
    by (simp_all add: unat_sub word_le_nat_alt)
  then show ?thesis using True by (auto simp: range_within_def word_le_nat_alt)
qed (auto simp: range_within_def word_le_nat_alt)

definition program_at :: "u8 list \<Rightarrow> elf_header \<Rightarrow> nat \<Rightarrow> elf_program_header" where
  "program_at img header i = decode_elf_program_header img (unat (eh_program_offset header) + 32 * i)"

definition loadable :: "elf_program_header \<Rightarrow> bool" where
  "loadable p \<longleftrightarrow> ph_type p = ELF_PROGRAM_LOAD \<and> ph_memory_size p \<noteq> 0"

definition memory_range :: "elf_program_header \<Rightarrow> nat set" where
  "memory_range p = {unat (ph_virtual_address p) ..< unat (ph_virtual_address p) + unat (ph_memory_size p)}"

definition segment_ok :: "elf_program_header \<Rightarrow> nat \<Rightarrow> bool" where
  "segment_ok p sz \<longleftrightarrow> unat (ph_file_size p) \<le> unat (ph_memory_size p) \<and>
     unat (ph_file_offset p) + unat (ph_file_size p) \<le> sz \<and> memory_range p \<subseteq> {4096 ..< 0xC0000000}"

lemma header_count:
  assumes "header_valid h sz"
  shows "unat (eh_program_count h) \<le> 32" "unat (eh_program_offset h) + 32 * unat (eh_program_count h) \<le> unat sz"
proof -
  show c: "unat (eh_program_count h) \<le> 32" using assms by (simp add: header_valid_def word_le_nat_alt)
  have "unat (ucast (eh_program_count h) :: u32) = unat (eh_program_count h)"
    using c by (simp add: unsigned_ucast_eq take_bit_nat_eq_self)
  then have "unat (ucast (eh_program_count h) * 32 :: u32) = 32 * unat (eh_program_count h)"
    using c by (simp add: unat_word_ariths)
  then show "unat (eh_program_offset h) + 32 * unat (eh_program_count h) \<le> unat sz"
    using assms by (simp add: header_valid_def range_within_iff)
qed

lemma program_header_at_inside:
  assumes h: "header_valid h sz" and len: "length img = unat sz" and i: "i < unat (eh_program_count h)"
  shows "program_header_at img h i = Some (program_at img h i)"
proof -
  note c = header_count [OF h]
  have "unat (of_nat i * 32 :: u32) = 32 * i" using c(1) i by (simp add: unat_word_ariths unat_of_nat32)
  then have "unat (eh_program_offset h + of_nat i * 32) = unat (eh_program_offset h) + 32 * i"
    using c(2) i unat_lt_2p32 [of sz] by (simp add: unat_word_ariths)
  then show ?thesis using c(2) i len by (simp add: program_header_at_def program_at_def)
qed

lemma program_range_valid_segment:
  assumes "program_range_valid p sz" and "loadable p"
  shows "segment_ok p (unat sz)"
proof -
  have v: "ph_file_size p \<le> ph_memory_size p" "range_within sz (ph_file_offset p) (ph_file_size p)"
    "4096 \<le> ph_virtual_address p" "ph_virtual_address p < KERNEL_BASE" "ph_memory_size p \<le> KERNEL_BASE - ph_virtual_address p"
    using assms by (auto simp: program_range_valid_def loadable_def not_less not_le split: if_splits)
  have "unat (KERNEL_BASE - ph_virtual_address p) = 0xC0000000 - unat (ph_virtual_address p)"
    using v(4) by (subst unat_sub) (simp_all add: word_less_nat_alt word_le_nat_alt)
  then show ?thesis
    using v by (auto simp: segment_ok_def memory_range_def range_within_iff word_le_nat_alt word_less_nat_alt)
qed

text \<open>On such segments the overlap test of the code is the intersection of the ranges.\<close>

lemma load_ranges_overlap_iff:
  assumes "loadable p" "segment_ok p s" and "loadable q" "segment_ok q s"
  shows "load_ranges_overlap p q \<longleftrightarrow> memory_range p \<inter> memory_range q \<noteq> {}"
proof -
  have e: "unat (ph_virtual_address r + ph_memory_size r) = unat (ph_virtual_address r) + unat (ph_memory_size r)"
    "0 < unat (ph_memory_size r)" if "loadable r" "segment_ok r s" for r
  proof -
    show p: "0 < unat (ph_memory_size r)" using that(1) by (simp add: loadable_def unat_gt_0)
    have "unat (ph_virtual_address r) + unat (ph_memory_size r) - 1 \<in> memory_range r" using p by (simp add: memory_range_def)
    then have "unat (ph_virtual_address r) + unat (ph_memory_size r) - 1 < 0xC0000000" using that(2) by (auto simp: segment_ok_def)
    then show "unat (ph_virtual_address r + ph_memory_size r) = unat (ph_virtual_address r) + unat (ph_memory_size r)"
      by (simp add: unat_word_ariths)
  qed
  have "(\<exists>x. x \<in> {a ..< a + b :: nat} \<and> x \<in> {c ..< c + d}) \<longleftrightarrow> a < c + d \<and> c < a + b" if "0 < b" "0 < d" for a b c d
    using that by (auto intro: exI [of _ "max a c"])
  then show ?thesis
    using e [OF assms(1,2)] e [OF assms(3,4)] assms(1,3)
    by (auto simp: load_ranges_overlap_def loadable_def memory_range_def word_less_nat_alt disjoint_iff)
qed

lemma overlaps_previous_eq:
  assumes h: "header_valid h sz" and len: "length img = unat sz" and "\<forall>j\<in>set js. j < unat (eh_program_count h)"
  shows "overlaps_previous img h p js = Some (\<exists>j\<in>set js. load_ranges_overlap p (program_at img h j))"
  using assms(3) by (induction js) (auto simp: program_header_at_inside [OF h len])

text \<open>The loop over the program headers, as one condition on all of them.\<close>

definition programs_ok :: "u8 list \<Rightarrow> u32 \<Rightarrow> elf_header \<Rightarrow> nat \<Rightarrow> nat \<Rightarrow> bool" where
  "programs_ok img sz h a b \<longleftrightarrow> (\<forall>i\<in>{a..<b}. program_range_valid (program_at img h i) sz \<and>
     (loadable (program_at img h i) \<longrightarrow> (\<forall>j<i. \<not> load_ranges_overlap (program_at img h i) (program_at img h j))))"

lemma validate_programs_eq:
  assumes h: "header_valid h sz" and len: "length img = unat sz" and b: "b = unat (eh_program_count h)" "a \<le> b"
  shows "validate_programs img sz h [a..<b] l e =
    Some (programs_ok img sz h a b \<and> (l \<or> (\<exists>i\<in>{a..<b}. loadable (program_at img h i))) \<and>
      (e \<or> (\<exists>i\<in>{a..<b}. loadable (program_at img h i) \<and> entry_in_program h (program_at img h i))))"
  using b(2)
proof (induction "b - a" arbitrary: a l e)
  case 0
  then show ?case by (simp add: programs_ok_def)
next
  case (Suc n)
  then have a: "a < b" by simp
  let ?p = "program_at img h a"
  have list: "[a..<b] = a # [Suc a..<b]" and set: "{a..<b} = insert a {Suc a..<b}" using a by (auto simp: upt_conv_Cons)
  have ok: "programs_ok img sz h a b \<longleftrightarrow> program_range_valid ?p sz \<and>
      (loadable ?p \<longrightarrow> (\<forall>j<a. \<not> load_ranges_overlap ?p (program_at img h j))) \<and> programs_ok img sz h (Suc a) b"
    by (simp add: programs_ok_def set)
  have at: "program_header_at img h a = Some ?p" using program_header_at_inside [OF h len] a b(1) by simp
  have prev: "overlaps_previous img h ?p [0..<a] = Some (\<exists>j<a. load_ranges_overlap ?p (program_at img h j))"
    using overlaps_previous_eq [OF h len, of "[0..<a]"] a b(1) by (auto simp: Bex_def)
  have "n = b - Suc a" "Suc a \<le> b" using Suc.hyps(2) a by simp_all
  note IH = Suc.hyps(1) [OF this]
  show ?case
    unfolding list ok using at prev by (simp add: IH) (auto simp: set loadable_def)
qed

lemma validate_image_eq:
  assumes len: "length img = unat sz"
  shows "validate_image img sz = Some (let h = decode_elf_header img; n = unat (eh_program_count h) in
    if 52 \<le> length img \<and> header_valid h sz \<and> programs_ok img sz h 0 n \<and>
       (\<exists>i<n. loadable (program_at img h i) \<and> entry_in_program h (program_at img h i)) then Some (eh_entry h) else None)"
proof -
  have "\<not> sz < 52 \<longleftrightarrow> 52 \<le> length img" using len by (simp add: word_less_nat_alt not_less)
  moreover have "validate_programs img sz (decode_elf_header img) [0..<unat (eh_program_count (decode_elf_header img))] False False =
      Some (programs_ok img sz (decode_elf_header img) 0 (unat (eh_program_count (decode_elf_header img))) \<and>
        (\<exists>i<unat (eh_program_count (decode_elf_header img)). loadable (program_at img (decode_elf_header img) i) \<and>
           entry_in_program (decode_elf_header img) (program_at img (decode_elf_header img) i)))"
    if "header_valid (decode_elf_header img) sz"
    using validate_programs_eq [OF that len refl le0, of False False] by auto
  ultimately show ?thesis by (auto simp: validate_image_def elf_header_at_def Let_def)
qed

lemma entry_in_programD:
  assumes "entry_in_program h p" and "segment_ok p s"
  shows "unat (eh_entry h) \<in> memory_range p" "bit (ph_flags p) 0"
proof -
  show "bit (ph_flags p) 0" using assms(1) by (simp add: entry_in_program_def test_bits)
  have "unat (eh_entry h - ph_virtual_address p) = unat (eh_entry h) - unat (ph_virtual_address p)"
    using assms(1) by (simp add: entry_in_program_def unat_sub)
  then show "unat (eh_entry h) \<in> memory_range p"
    using assms(1) by (auto simp: entry_in_program_def memory_range_def word_le_nat_alt word_less_nat_alt)
qed

text \<open>
  C12: Whatever its bytes, \<open>validate_image\<close> reads nothing outside the image and returns. Where it accepts, every segment
  to load lies inside the file and in user memory above the first page, two segments never share an address,
  and the entry point is in a segment marked executable.
\<close>
theorem validate_image_sound:
  assumes len: "length img = unat sz"
  shows "\<exists>r. validate_image img sz = Some r \<and> (\<forall>entry. r = Some entry \<longrightarrow>
      (let h = decode_elf_header img; P = {i. i < unat (eh_program_count h) \<and> loadable (program_at img h i)} in
      (\<forall>i\<in>P. program_header_at img h i = Some (program_at img h i) \<and> segment_ok (program_at img h i) (length img)) \<and>
      (\<forall>i\<in>P. \<forall>j\<in>P. i \<noteq> j \<longrightarrow> memory_range (program_at img h i) \<inter> memory_range (program_at img h j) = {}) \<and>
      (\<exists>i\<in>P. unat entry \<in> memory_range (program_at img h i) \<and> bit (ph_flags (program_at img h i)) 0)))"
proof -
  let ?h = "decode_elf_header img"
  let ?P = "{i. i < unat (eh_program_count ?h) \<and> loadable (program_at img ?h i)}"
  have "(\<forall>i\<in>?P. program_header_at img ?h i = Some (program_at img ?h i) \<and> segment_ok (program_at img ?h i) (length img)) \<and>
      (\<forall>i\<in>?P. \<forall>j\<in>?P. i \<noteq> j \<longrightarrow> memory_range (program_at img ?h i) \<inter> memory_range (program_at img ?h j) = {}) \<and>
      (\<exists>i\<in>?P. unat entry \<in> memory_range (program_at img ?h i) \<and> bit (ph_flags (program_at img ?h i)) 0)"
    if acc: "validate_image img sz = Some (Some entry)" for entry
  proof -
    have v: "header_valid ?h sz" "programs_ok img sz ?h 0 (unat (eh_program_count ?h))" "entry = eh_entry ?h"
      "\<exists>i\<in>?P. entry_in_program ?h (program_at img ?h i)"
      using acc unfolding validate_image_eq [OF len] by (auto simp: Let_def split: if_splits)
    have seg: "segment_ok (program_at img ?h i) (length img)" if "i \<in> ?P" for i
      using v(2) that program_range_valid_segment [of "program_at img ?h i" sz] by (auto simp: programs_ok_def len)
    have less: "memory_range (program_at img ?h i) \<inter> memory_range (program_at img ?h j) = {}"
      if "i \<in> ?P" "j \<in> ?P" "j < i" for i j
      using v(2) that load_ranges_overlap_iff [OF _ seg [OF that(1)] _ seg [OF that(2)]] by (auto simp: programs_ok_def)
    have "memory_range (program_at img ?h i) \<inter> memory_range (program_at img ?h j) = {}"
      if "i \<in> ?P" "j \<in> ?P" "i \<noteq> j" for i j
      using less [OF that(1,2)] less [OF that(2,1)] that(3) by (cases "j < i") (auto simp: Int_commute)
    moreover have "program_header_at img ?h i = Some (program_at img ?h i)" if "i \<in> ?P" for i
      using program_header_at_inside [OF v(1) len] that by simp
    moreover have "\<exists>i\<in>?P. unat entry \<in> memory_range (program_at img ?h i) \<and> bit (ph_flags (program_at img ?h i)) 0"
      using v(3,4) entry_in_programD seg by blast
    ultimately show ?thesis using seg by blast
  qed
  then show ?thesis using validate_image_eq [OF len] by (simp only: Let_def) auto
qed

subsection \<open>The self test\<close>

lemma field_take:
  "off + 2 \<le> n \<Longrightarrow> field16 (take n b) off = field16 b off" "off + 4 \<le> n \<Longrightarrow> field32 (take n b) off = field32 b off"
  by (simp_all add: field16_def field32_def)

text \<open>An image of one program header directly behind the header.\<close>

lemma validate_single:
  assumes "length b = 84" and "field32 b 28 = 52" and "field16 b 44 = 1"
  shows "validate_image b 84 = Some (let h = decode_elf_header b; p = decode_elf_program_header b 52 in
    if header_valid h 84 \<and> program_range_valid p 84 \<and> loadable p \<and> entry_in_program h p then Some (eh_entry h) else None)"
proof -
  have len: "length b = unat (84 :: u32)" using assms(1) by simp
  have "unat (eh_program_count (decode_elf_header b)) = 1" "program_at b (decode_elf_header b) 0 = decode_elf_program_header b 52"
    using assms(2,3) by (simp_all add: decode_elf_header_def program_at_def)
  then show ?thesis unfolding validate_image_eq [OF len] using assms(1) by (auto simp: Let_def programs_ok_def)
qed

definition same_ident :: "u8 list \<Rightarrow> u8 list \<Rightarrow> bool" where
  "same_ident b c \<longleftrightarrow> (\<forall>k<16. b ! k = c ! k) \<and> field16 b 18 = field16 c 18 \<and> field32 b 20 = field32 c 20 \<and>
     field16 b 40 = field16 c 40 \<and> field16 b 42 = field16 c 42"

lemma header_valid_single:
  assumes "header_valid (decode_elf_header img) sz" and "same_ident b img" and "field32 b 28 = 52" and "field16 b 44 = 1"
  shows "header_valid (decode_elf_header b) 84 \<longleftrightarrow> field16 b 16 = 2"
proof -
  have "range_within 84 52 32" by (simp add: range_within_iff)
  then show ?thesis
    using assms by (auto simp: header_valid_def decode_elf_header_def same_ident_def)
qed

lemma self_test_image_facts:
  assumes "84 \<le> length img"
  defines "b \<equiv> self_test_image img"
  shows "length b = 84" "same_ident b img" "field32 b 28 = 52" "field16 b 44 = 1" "field16 b 16 = field16 img 16"
    "field32 b 24 = 0x00400000" "decode_elf_program_header b 52 = \<lparr>ph_type = 1, ph_file_offset = 0, ph_virtual_address = 0x00400000,
       ph_physical_address = field32 img 64, ph_file_size = 0, ph_memory_size = 4096, ph_flags = 5, ph_alignment = 4096\<rparr>"
  using assms(1) unfolding b_def self_test_image_def Let_def
  by (simp_all add: min_absorb2 field_take same_ident_def nth_set_field decode_elf_program_header_def)

lemma same_ident_set [simp]:
  "same_ident (set_field16 16 y b) c = same_ident b c" "same_ident (set_field32 24 x b) c = same_ident b c"
  "52 \<le> off \<Longrightarrow> same_ident (set_field32 off x b) c = same_ident b c"
  by (simp_all add: same_ident_def nth_set_field)

lemma self_test_variants:
  assumes "header_valid (decode_elf_header img) sz" and "length b = 84" "same_ident b img" "field32 b 28 = 52" "field16 b 44 = 1"
  shows "field16 b 16 \<noteq> 2 \<Longrightarrow> validate_image b 84 = Some None"
    and "\<not> program_range_valid (decode_elf_program_header b 52) 84 \<Longrightarrow> validate_image b 84 = Some None"
    and "field16 b 16 = 2 \<Longrightarrow> program_range_valid (decode_elf_program_header b 52) 84 \<Longrightarrow> loadable (decode_elf_program_header b 52) \<Longrightarrow>
      entry_in_program (decode_elf_header b) (decode_elf_program_header b 52) \<Longrightarrow> validate_image b 84 \<noteq> Some None"
  using header_valid_single [OF assms(1,3-5)] validate_single [OF assms(2,4,5)] by (simp_all add: Let_def)

text \<open>
  The self test succeeds for every image that validation accepts and that has room for the two headers, and only for these.
\<close>
theorem elf_loader_validation_self_test_correct:
  assumes len: "length img = unat sz"
  shows "elf_loader_validation_self_test img sz = Some (validate_image img sz \<noteq> Some None \<and> 84 \<le> length img)"
proof (cases "validate_image img sz \<noteq> Some None \<and> 84 \<le> length img")
  case False
  have "sz < of_nat 84 \<longleftrightarrow> length img < 84" using len by (simp add: word_less_nat_alt)
  moreover obtain r where "validate_image img sz = Some r" using validate_image_eq [OF len] by blast
  ultimately show ?thesis using False by (auto simp: elf_loader_validation_self_test_def not_le)
next
  case True
  define b0 where "b0 = self_test_image img"
  define b1 where "b1 = set_field16 16 3 b0"
  define b2 where "b2 = set_field32 68 1 (set_field32 72 0 (set_field16 16 2 b1))"
  define b3 where "b3 = set_field32 24 KERNEL_BASE (set_field32 60 KERNEL_BASE (set_field32 72 4096 (set_field32 68 0 b2)))"
  note f = self_test_image_facts [OF conjunct2 [OF True], folded b0_def]
  have h: "header_valid (decode_elf_header img) sz" using True by (auto simp: validate_image_eq [OF len] Let_def split: if_splits)
  note var = self_test_variants [OF h]
  have "validate_image b0 84 \<noteq> Some None"
  proof (rule var(3) [OF f(1-4)])
    show "field16 b0 16 = 2" using h f(5) by (simp add: header_valid_def decode_elf_header_def)
    show "program_range_valid (decode_elf_program_header b0 52) 84" "loadable (decode_elf_program_header b0 52)"
      "entry_in_program (decode_elf_header b0) (decode_elf_program_header b0 52)"
      unfolding f(7) by (simp_all add: program_range_valid_def range_within_def loadable_def entry_in_program_def decode_elf_header_def f(6))
  qed
  moreover have "validate_image b1 84 = Some None"
    by (rule var(1)) (use f in \<open>simp_all add: b1_def\<close>)
  moreover have "validate_image b2 84 = Some None"
  proof (rule var(2))
    have "ph_type (decode_elf_program_header b0 52) = 1" by (simp add: f(7))
    then have "field32 b0 52 = 1" by (simp add: decode_elf_program_header_def)
    then show "\<not> program_range_valid (decode_elf_program_header b2 52) 84"
      using f(1) by (simp add: b2_def b1_def program_range_valid_def decode_elf_program_header_def)
  qed (use f in \<open>simp_all add: b2_def b1_def\<close>)
  moreover have "validate_image b3 84 = Some None"
  proof (rule var(2))
    have "ph_type (decode_elf_program_header b0 52) = 1" by (simp add: f(7))
    then have "field32 b0 52 = 1" by (simp add: decode_elf_program_header_def)
    then show "\<not> program_range_valid (decode_elf_program_header b3 52) 84"
      using f(1) by (simp add: b3_def b2_def b1_def program_range_valid_def decode_elf_program_header_def)
  qed (use f in \<open>simp_all add: b3_def b2_def b1_def\<close>)
  moreover have "\<not> sz < 84" using len True by (simp add: word_less_nat_alt)
  ultimately show ?thesis
    using True validate_image_eq [OF len] validate_single [OF f(1,3,4)]
    by (auto simp: elf_loader_validation_self_test_def Let_def b0_def [symmetric] b1_def [symmetric] b2_def [symmetric] b3_def [symmetric])
qed

subsection \<open>A concrete image\<close>

definition sample_elf :: "u8 list" where
  "sample_elf = [0x7F, 0x45, 0x4C, 0x46, 1, 1, 1, 0, 0, 0, 0, 0, 0, 0, 0, 0,
     2, 0, 3, 0, 1, 0, 0, 0, 0, 0x10, 0x40, 0, 52, 0, 0, 0, 0, 0, 0, 0, 0, 0, 0, 0, 52, 0, 32, 0, 1, 0, 0, 0, 0, 0, 0, 0,
     1, 0, 0, 0, 0, 0, 0, 0, 0, 0x10, 0x40, 0, 0, 0, 0, 0, 84, 0, 0, 0, 0, 0x20, 0, 0, 5, 0, 0, 0, 1, 0, 0, 0]"

lemma sample_elf_length [simp]: "length sample_elf = unat (84 :: u32)"
  by (simp add: sample_elf_def)

lemma sample_elf_valid: "validate_image sample_elf 84 = Some (Some 0x00401000)"
  by code_simp

theorem validate_image_sound_witness:
  "unat (0x00401000 :: u32) \<in> memory_range (program_at sample_elf (decode_elf_header sample_elf) 0)"
proof -
  have "unat (eh_program_count (decode_elf_header sample_elf)) = 1" by code_simp
  then show ?thesis
    using validate_image_sound [OF sample_elf_length] sample_elf_valid by (auto simp: Let_def)
qed

theorem elf_loader_validation_self_test_correct_witness: "elf_loader_validation_self_test sample_elf 84 = Some True"
  using elf_loader_validation_self_test_correct [OF sample_elf_length] sample_elf_valid by simp

end
