(* ===== verification/Minifs_Codec.thy ===== *)
theory Minifs_Codec
  imports Prelude
begin

text \<open>
  The on-disk records of MiniFS (\<open>kernel/fs/minifs.c\<close>, \<open>include/minios/abi/minifs.h\<close>): little-endian
  fields in byte buffers, the superblock with its CRC-32, inodes and directory entries. A buffer
  is a list of bytes; \<open>&block[off]\<close> is a pair of the buffer and the offset.
\<close>

subsection \<open>The format\<close>

abbreviation (input) MINIFS_MAGIC :: u32 where "MINIFS_MAGIC \<equiv> 0x3153464D"
abbreviation (input) MINIFS_VERSION :: u32 where "MINIFS_VERSION \<equiv> 1"
abbreviation (input) MINIFS_BLOCK_SIZE :: u32 where "MINIFS_BLOCK_SIZE \<equiv> 4096"
abbreviation (input) MINIFS_INODE_SIZE :: u32 where "MINIFS_INODE_SIZE \<equiv> 64"
abbreviation (input) MINIFS_DIRECTORY_ENTRY_SIZE :: u32 where "MINIFS_DIRECTORY_ENTRY_SIZE \<equiv> 64"
abbreviation (input) MINIFS_DIRECT_COUNT :: u32 where "MINIFS_DIRECT_COUNT \<equiv> 10"
abbreviation (input) MINIFS_INDIRECT_COUNT :: u32 where "MINIFS_INDIRECT_COUNT \<equiv> 1024"
abbreviation (input) MINIFS_NAME_MAX :: nat where "MINIFS_NAME_MAX \<equiv> 58"
abbreviation (input) MINIFS_MODE_REGULAR :: u16 where "MINIFS_MODE_REGULAR \<equiv> 1"
abbreviation (input) MINIFS_MODE_DIRECTORY :: u16 where "MINIFS_MODE_DIRECTORY \<equiv> 2"
abbreviation (input) MINIFS_ENTRY_UNUSED :: u8 where "MINIFS_ENTRY_UNUSED \<equiv> 0"
abbreviation (input) MINIFS_ENTRY_REGULAR :: u8 where "MINIFS_ENTRY_REGULAR \<equiv> 1"
abbreviation (input) MINIFS_ENTRY_DIRECTORY :: u8 where "MINIFS_ENTRY_DIRECTORY \<equiv> 2"
abbreviation (input) MINIFS_DIRECTORY_NAME_BYTES :: nat where "MINIFS_DIRECTORY_NAME_BYTES \<equiv> 59"

abbreviation (input) MINIFS_CRC32_POLYNOMIAL :: u32 where "MINIFS_CRC32_POLYNOMIAL \<equiv> 0xEDB88320"
abbreviation (input) MINIFS_BITMAP_BITS_PER_BLOCK :: u32 where "MINIFS_BITMAP_BITS_PER_BLOCK \<equiv> 32768"
abbreviation (input) MINIFS_INODES_PER_BLOCK :: u32 where "MINIFS_INODES_PER_BLOCK \<equiv> 64"
abbreviation (input) MINIFS_ENTRIES_PER_BLOCK :: u32 where "MINIFS_ENTRIES_PER_BLOCK \<equiv> 64"
abbreviation (input) MINIFS_MAX_FILE_SIZE :: u32 where "MINIFS_MAX_FILE_SIZE \<equiv> 4235264"
abbreviation (input) MINIFS_PATH_MAX :: nat where "MINIFS_PATH_MAX \<equiv> 256"

record minifs_superblock =
  total_blocks :: u32
  total_inodes :: u32
  block_bitmap_start :: u32
  block_bitmap_blocks :: u32
  inode_bitmap_start :: u32
  inode_bitmap_blocks :: u32
  inode_table_start :: u32
  inode_table_blocks :: u32
  data_start :: u32
  root_inode :: u32

record minifs_inode =
  i_mode :: u16
  i_link_count :: u16
  i_size :: u32
  i_direct :: "u32 list"
  i_indirect :: u32
  i_created_tick :: u32
  i_modified_tick :: u32

record minifs_directory_record =
  rec_inode :: u32
  rec_offset :: u32
  rec_type :: u8
  rec_name :: "u8 list"

record minifs_stat =
  st_inode :: u32
  st_mode :: u16
  st_link_count :: u16
  st_size :: u32

record minifs_dirent =
  de_inode :: u32
  de_mode :: u16
  de_name_length :: u16
  de_name :: "u8 list"

subsection \<open>Bytes\<close>

definition read_le16 :: "u8 list \<Rightarrow> nat \<Rightarrow> u16" where
  "read_le16 source off = ucast (source ! off) OR push_bit 8 (ucast (source ! (off + 1)))"

definition read_le32 :: "u8 list \<Rightarrow> nat \<Rightarrow> u32" where
  "read_le32 source off =
     ucast (source ! off) OR push_bit 8 (ucast (source ! (off + 1))) OR
     push_bit 16 (ucast (source ! (off + 2))) OR push_bit 24 (ucast (source ! (off + 3)))"

definition write_le16 :: "nat \<Rightarrow> u16 \<Rightarrow> u8 list \<Rightarrow> u8 list" where
  "write_le16 off v destination = destination[off := ucast v, off + 1 := ucast (drop_bit 8 v)]"

definition write_le32 :: "nat \<Rightarrow> u32 \<Rightarrow> u8 list \<Rightarrow> u8 list" where
  "write_le32 off v destination =
     destination[off := ucast v, off + 1 := ucast (drop_bit 8 v), off + 2 := ucast (drop_bit 16 v),
                 off + 3 := ucast (drop_bit 24 v)]"

definition clear_bytes :: "nat \<Rightarrow> nat \<Rightarrow> u8 list \<Rightarrow> u8 list" where
  "clear_bytes off n destination = for_range 0 n (\<lambda>i d. d[off + i := 0]) destination"

definition copy_bytes :: "nat \<Rightarrow> u8 list \<Rightarrow> nat \<Rightarrow> nat \<Rightarrow> u8 list \<Rightarrow> u8 list" where
  "copy_bytes off source from n destination = for_range 0 n (\<lambda>i d. d[off + i := source ! (from + i)]) destination"

definition divide_round_up :: "u32 \<Rightarrow> u32 \<Rightarrow> u32" where
  "divide_round_up value divisor = (if value = 0 then 0 else (value - 1) div divisor + 1)"

subsection \<open>The superblock\<close>

definition crc_bit :: "u32 \<Rightarrow> u32" where
  "crc_bit crc = drop_bit 1 crc XOR (MINIFS_CRC32_POLYNOMIAL AND (0 - (crc AND 1)))"

definition crc_byte :: "u8 \<Rightarrow> u32 \<Rightarrow> u32" where
  "crc_byte value crc = for_range 0 8 (\<lambda>_. crc_bit) (crc XOR ucast value)"

definition superblock_crc32 :: "u8 list \<Rightarrow> u32" where
  "superblock_crc32 block =
     NOT (for_range 0 4096 (\<lambda>index. crc_byte (if 52 \<le> index \<and> index < 56 then 0 else block ! index)) 0xFFFFFFFF)"

definition superblock_reserved_zero :: "u8 list \<Rightarrow> bool" where
  "superblock_reserved_zero block = for_all 56 4096 (\<lambda>index. block ! index = 0)"

definition decode_superblock :: "u32 \<Rightarrow> u8 list \<Rightarrow> minifs_superblock option" where
  "decode_superblock volume_block_count block =
     (if read_le32 block 0 \<noteq> MINIFS_MAGIC \<or> read_le32 block 4 \<noteq> MINIFS_VERSION \<or> read_le32 block 8 \<noteq> MINIFS_BLOCK_SIZE \<or>
         read_le32 block 52 \<noteq> superblock_crc32 block \<or> \<not> superblock_reserved_zero block
      then None
      else let blocks = read_le32 block 12; inodes = read_le32 block 16
           in if blocks \<noteq> volume_block_count \<or> inodes = 0 \<or> inodes > 0xFFFFFFFF div MINIFS_INODE_SIZE then None
              else let bb = divide_round_up blocks MINIFS_BITMAP_BITS_PER_BLOCK;
                       ib = divide_round_up inodes MINIFS_BITMAP_BITS_PER_BLOCK;
                       inode_bytes = inodes * MINIFS_INODE_SIZE;
                       itb = divide_round_up inode_bytes MINIFS_BLOCK_SIZE;
                       ibs = 1 + bb
                   in if ibs < bb then None
                      else let its = ibs + ib
                           in if its < ibs then None
                              else let ds = its + itb
                                   in if ds < its \<or> ds \<ge> blocks \<or> read_le32 block 20 \<noteq> 1 \<or> read_le32 block 24 \<noteq> bb \<or>
                                         read_le32 block 28 \<noteq> ibs \<or> read_le32 block 32 \<noteq> ib \<or> read_le32 block 36 \<noteq> its \<or>
                                         read_le32 block 40 \<noteq> itb \<or> read_le32 block 44 \<noteq> ds \<or> read_le32 block 48 \<ge> inodes
                                      then None
                                      else Some \<lparr>total_blocks = blocks, total_inodes = inodes, block_bitmap_start = 1,
                                             block_bitmap_blocks = bb, inode_bitmap_start = ibs, inode_bitmap_blocks = ib,
                                             inode_table_start = its, inode_table_blocks = itb, data_start = ds,
                                             root_inode = read_le32 block 48\<rparr>)"

subsection \<open>Inodes\<close>

definition decode_inode :: "u8 list \<Rightarrow> nat \<Rightarrow> minifs_inode option" where
  "decode_inode source off =
     (let inode = \<lparr>i_mode = read_le16 source off, i_link_count = read_le16 source (off + 2), i_size = read_le32 source (off + 4),
                   i_direct = map (\<lambda>index. read_le32 source (off + 8 + index * 4)) [0..<10],
                   i_indirect = read_le32 source (off + 48), i_created_tick = read_le32 source (off + 52),
                   i_modified_tick = read_le32 source (off + 56)\<rparr>;
          reserved = read_le32 source (off + 60)
      in if (i_mode inode \<noteq> MINIFS_MODE_REGULAR \<and> i_mode inode \<noteq> MINIFS_MODE_DIRECTORY) \<or>
            i_link_count inode = 0 \<or> i_size inode > MINIFS_MAX_FILE_SIZE \<or> reserved \<noteq> 0 \<or>
            (i_mode inode = MINIFS_MODE_DIRECTORY \<and> (i_size inode = 0 \<or> i_size inode mod MINIFS_DIRECTORY_ENTRY_SIZE \<noteq> 0))
         then None else Some inode)"

definition encode_inode :: "minifs_inode \<Rightarrow> nat \<Rightarrow> u8 list \<Rightarrow> u8 list" where
  "encode_inode inode off result =
     (let r = clear_bytes off 64 result;
          r = write_le16 off (i_mode inode) r;
          r = write_le16 (off + 2) (i_link_count inode) r;
          r = write_le32 (off + 4) (i_size inode) r;
          r = for_range 0 10 (\<lambda>index. write_le32 (off + 8 + index * 4) (i_direct inode ! index)) r;
          r = write_le32 (off + 48) (i_indirect inode) r;
          r = write_le32 (off + 52) (i_created_tick inode) r
      in write_le32 (off + 56) (i_modified_tick inode) r)"

definition clear_inode :: minifs_inode where
  "clear_inode = \<lparr>i_mode = MINIFS_MODE_REGULAR, i_link_count = 1, i_size = 0, i_direct = replicate 10 0, i_indirect = 0,
     i_created_tick = 0, i_modified_tick = 0\<rparr>"

definition inode_pointer_shape_valid :: "minifs_inode \<Rightarrow> bool" where
  "inode_pointer_shape_valid inode =
     (let required_blocks = divide_round_up (i_size inode) MINIFS_BLOCK_SIZE;
          direct_required = (if required_blocks > MINIFS_DIRECT_COUNT then MINIFS_DIRECT_COUNT else required_blocks)
      in for_all 0 10 (\<lambda>index. \<not> (of_nat index < direct_required \<and> i_direct inode ! index = 0 \<or>
                               of_nat index \<ge> direct_required \<and> i_direct inode ! index \<noteq> 0)) \<and>
         (required_blocks > MINIFS_DIRECT_COUNT \<and> i_indirect inode \<noteq> 0 \<or>
          required_blocks \<le> MINIFS_DIRECT_COUNT \<and> i_indirect inode = 0))"

subsection \<open>Directory entries\<close>

text \<open>The loop of \<open>directory_name_valid\<close> from position \<open>index\<close>, with the number of bytes that remain.\<close>

fun name_valid_from :: "u8 list \<Rightarrow> nat \<Rightarrow> nat \<Rightarrow> nat \<Rightarrow> bool \<Rightarrow> bool" where
  "name_valid_from name off index 0 terminated = terminated"
| "name_valid_from name off index (Suc n) terminated =
     (let value = name ! (off + index)
      in if \<not> terminated
         then if value = 0 then (if index = 0 then False else name_valid_from name off (Suc index) n True)
              else if value > 0x7F \<or> value = 0x2F then False
              else name_valid_from name off (Suc index) n False
         else if value \<noteq> 0 then False
         else name_valid_from name off (Suc index) n True)"

definition directory_name_valid :: "u8 list \<Rightarrow> nat \<Rightarrow> bool" where
  "directory_name_valid name off = name_valid_from name off 0 MINIFS_DIRECTORY_NAME_BYTES False"

definition directory_name_equal :: "u8 list \<Rightarrow> nat \<Rightarrow> u8 list \<Rightarrow> bool" where
  "directory_name_equal entry_name off component =
     (if length component > MINIFS_NAME_MAX \<or> entry_name ! (off + length component) \<noteq> 0 then False
      else for_all 0 (length component) (\<lambda>index. entry_name ! (off + index) = component ! index))"

definition directory_entry_unused :: "u8 list \<Rightarrow> nat \<Rightarrow> bool" where
  "directory_entry_unused entry off = for_all 0 64 (\<lambda>index. entry ! (off + index) = 0)"

definition encode_directory_entry :: "nat \<Rightarrow> u32 \<Rightarrow> u8 \<Rightarrow> u8 list \<Rightarrow> u8 list \<Rightarrow> u8 list" where
  "encode_directory_entry off child_number entry_type name entry =
     (let e = clear_bytes off 64 entry;
          e = write_le32 off child_number e;
          e = e[off + 4 := entry_type]
      in for_range 0 (length name) (\<lambda>index e. e[off + 5 + index := name ! index]) e)"

end
