(* ===== verification/Ata.thy ===== *)
theory Ata
  imports Machine
begin

text \<open>
  The ATA PIO driver (\<open>kernel/drivers/ata.c\<close>) and the disk it talks to.

  The disk is the hardware behind the ports \<open>0x1F0\<close> to \<open>0x1F7\<close>, in the PIO protocol of the ATA
  standard with 28-bit addresses: a command moves the device into a data phase, a status read
  reports BUSY for some polls and then DRQ, an error, or neither, and the data port transfers one
  16-bit word at a time. How long the device stays busy and whether it reports an error is
  \<open>behaviour\<close>, a function of the number of the phase, so that every timing and every fault is
  covered. A device that is not there reads status 0.

  The protocol is only kept with a device that is ready. While it is busy it ignores what is written to its
  registers, commands included. The data port transfers only while DRQ is reported: before, and after an error, a word read is
  arbitrary (\<open>noise\<close>) and a word written is lost. A sector whose write ends in an error holds arbitrary words. A
  sector that was written is at first only in the cache of the device (\<open>volatile\<close>), until a flush
  command ends without an error.

  The records are extended by the block layer and the file system, so the driver's operations
  take and return any extension of \<open>ata\<close>. An operation that fills a buffer returns the bytes
  it stored there, which on an error is the part read so far.
\<close>

subsection \<open>The disk\<close>

datatype ata_phase =
    Idle
  | Identify nat
  | DataIn nat nat nat
  | DataOut nat nat "u16 list"

record ata_hw =
  attached :: bool
  identify_data :: "nat \<Rightarrow> u16"
  sectors :: "nat \<Rightarrow> u16 list"
  volatile :: "nat set"
  reg_drive :: u8
  reg_count :: u8
  reg_lba_low :: u8
  reg_lba_mid :: u8
  reg_lba_high :: u8
  phase :: ata_phase
  polls :: nat
  fault :: bool
  events :: nat
  behaviour :: "nat \<Rightarrow> nat \<times> bool"
  noise :: "nat \<Rightarrow> nat \<Rightarrow> u16"

text \<open>A new phase: the device is busy for some polls and then possibly in error.\<close>

definition enter :: "ata_phase \<Rightarrow> ata_hw \<Rightarrow> ata_hw" where
  "enter ph d = d\<lparr>phase := ph, polls := fst (behaviour d (events d)), fault := snd (behaviour d (events d)),
     events := Suc (events d)\<rparr>"

definition selected_lba :: "ata_hw \<Rightarrow> nat" where
  "selected_lba d = unat (reg_lba_low d) + 256 * unat (reg_lba_mid d) + 65536 * unat (reg_lba_high d) +
     16777216 * (unat (reg_drive d) mod 16)"

definition ata_command :: "u8 \<Rightarrow> ata_hw \<Rightarrow> ata_hw" where
  "ata_command c d =
     (if c = 0x20 then enter (DataIn (selected_lba d) (unat (reg_count d)) 0) d
      else if c = 0x30 then enter (DataOut (selected_lba d) (unat (reg_count d)) []) d
      else if c = 0xEC then enter (Identify 0) d
      else if c = 0xE7 then let d = enter Idle d in if fault d then d else d\<lparr>volatile := {}\<rparr>
      else enter Idle d)"

definition ata_status :: "ata_hw \<Rightarrow> u8" where
  "ata_status d =
     (if \<not> attached d then 0
      else if polls d > 0 then 0x80
      else if fault d then 0x41
      else if phase d = Idle then 0x40
      else 0x48)"

definition io_in8 :: "u16 \<Rightarrow> ata_hw \<Rightarrow> u8 \<times> ata_hw" where
  "io_in8 port d =
     (if port = 0x1F7 then (ata_status d, d\<lparr>polls := polls d - 1\<rparr>)
      else if port = 0x3F6 then (ata_status d, d)
      else (0xFF, d))"

definition io_out8 :: "u16 \<Rightarrow> u8 \<Rightarrow> ata_hw \<Rightarrow> ata_hw" where
  "io_out8 port v d =
     (if polls d > 0 then d
      else if port = 0x1F2 then d\<lparr>reg_count := v\<rparr>
      else if port = 0x1F3 then d\<lparr>reg_lba_low := v\<rparr>
      else if port = 0x1F4 then d\<lparr>reg_lba_mid := v\<rparr>
      else if port = 0x1F5 then d\<lparr>reg_lba_high := v\<rparr>
      else if port = 0x1F6 then d\<lparr>reg_drive := v\<rparr>
      else if port = 0x1F7 then ata_command v d
      else d)"

definition transfers :: "ata_hw \<Rightarrow> bool" where
  "transfers d \<longleftrightarrow> attached d \<and> polls d = 0 \<and> \<not> fault d"

definition io_in16 :: "u16 \<Rightarrow> ata_hw \<Rightarrow> u16 \<times> ata_hw" where
  "io_in16 port d =
     (if port \<noteq> 0x1F0 \<or> \<not> transfers d then (noise d (events d) (polls d), d)
      else case phase d of
        Identify i \<Rightarrow> (identify_data d i, d\<lparr>phase := (if i = 255 then Idle else Identify (Suc i))\<rparr>)
      | DataIn lba n i \<Rightarrow>
          (sectors d lba ! i,
           if i < 255 then d\<lparr>phase := DataIn lba n (Suc i)\<rparr>
           else if n \<le> 1 then d\<lparr>phase := Idle\<rparr>
           else enter (DataIn (Suc lba) (n - 1) 0) d)
      | _ \<Rightarrow> (noise d (events d) (polls d), d))"

text \<open>The device stores a sector once all its words have arrived; \<open>behaviour\<close> decides then whether that fails.\<close>

definition store_sector :: "nat \<Rightarrow> u16 list \<Rightarrow> ata_hw \<Rightarrow> ata_hw" where
  "store_sector lba ws d =
     d\<lparr>sectors := (sectors d)(lba := if snd (behaviour d (events d)) then map (noise d (events d)) [0..<256] else ws),
       volatile := insert lba (volatile d)\<rparr>"

definition io_out16 :: "u16 \<Rightarrow> u16 \<Rightarrow> ata_hw \<Rightarrow> ata_hw" where
  "io_out16 port v d =
     (if port \<noteq> 0x1F0 \<or> \<not> transfers d then d
      else case phase d of
        DataOut lba n ws \<Rightarrow>
          if length ws < 255 then d\<lparr>phase := DataOut lba n (ws @ [v])\<rparr>
          else if n \<le> 1 then enter Idle (store_sector lba (ws @ [v]) d)
          else enter (DataOut (Suc lba) (n - 1) []) (store_sector lba (ws @ [v]) d)
      | _ \<Rightarrow> d)"

subsection \<open>The driver\<close>

abbreviation (input) ATA_DATA_PORT :: u16 where "ATA_DATA_PORT \<equiv> 0x01F0"
abbreviation (input) ATA_SECTOR_COUNT_PORT :: u16 where "ATA_SECTOR_COUNT_PORT \<equiv> 0x01F2"
abbreviation (input) ATA_LBA_LOW_PORT :: u16 where "ATA_LBA_LOW_PORT \<equiv> 0x01F3"
abbreviation (input) ATA_LBA_MID_PORT :: u16 where "ATA_LBA_MID_PORT \<equiv> 0x01F4"
abbreviation (input) ATA_LBA_HIGH_PORT :: u16 where "ATA_LBA_HIGH_PORT \<equiv> 0x01F5"
abbreviation (input) ATA_DRIVE_PORT :: u16 where "ATA_DRIVE_PORT \<equiv> 0x01F6"
abbreviation (input) ATA_STATUS_COMMAND_PORT :: u16 where "ATA_STATUS_COMMAND_PORT \<equiv> 0x01F7"
abbreviation (input) ATA_ALT_STATUS_PORT :: u16 where "ATA_ALT_STATUS_PORT \<equiv> 0x03F6"
abbreviation (input) ATA_COMMAND_READ_SECTORS :: u8 where "ATA_COMMAND_READ_SECTORS \<equiv> 0x20"
abbreviation (input) ATA_COMMAND_WRITE_SECTORS :: u8 where "ATA_COMMAND_WRITE_SECTORS \<equiv> 0x30"
abbreviation (input) ATA_COMMAND_CACHE_FLUSH :: u8 where "ATA_COMMAND_CACHE_FLUSH \<equiv> 0xE7"
abbreviation (input) ATA_COMMAND_IDENTIFY :: u8 where "ATA_COMMAND_IDENTIFY \<equiv> 0xEC"
abbreviation (input) ATA_STATUS_ERROR :: u8 where "ATA_STATUS_ERROR \<equiv> 0x01"
abbreviation (input) ATA_STATUS_DRQ :: u8 where "ATA_STATUS_DRQ \<equiv> 0x08"
abbreviation (input) ATA_STATUS_DEVICE_FAULT :: u8 where "ATA_STATUS_DEVICE_FAULT \<equiv> 0x20"
abbreviation (input) ATA_STATUS_BUSY :: u8 where "ATA_STATUS_BUSY \<equiv> 0x80"
abbreviation (input) ATA_DRIVE_MASTER :: u32 where "ATA_DRIVE_MASTER \<equiv> 0xE0"
abbreviation (input) ATA_IDENTIFY_MASTER :: u8 where "ATA_IDENTIFY_MASTER \<equiv> 0xA0"
abbreviation (input) ATA_POLL_LIMIT :: nat where "ATA_POLL_LIMIT \<equiv> 0x00100000"
abbreviation (input) ATA_WORDS_PER_SECTOR :: nat where "ATA_WORDS_PER_SECTOR \<equiv> 256"
abbreviation (input) ATA_MAX_COMMAND_SECTORS :: u32 where "ATA_MAX_COMMAND_SECTORS \<equiv> 255"
abbreviation (input) ATA_LBA28_MAX :: u32 where "ATA_LBA28_MAX \<equiv> 0x0FFFFFFF"
abbreviation (input) ATA_CAPABILITY_LBA :: u16 where "ATA_CAPABILITY_LBA \<equiv> 0x0200"

record ata =
  cpu :: machine
  hw :: ata_hw
  device_sector_count :: u32
  device_ready :: bool
  ata_operation_busy :: bool

definition port_out8 :: "u16 \<Rightarrow> u8 \<Rightarrow> 'a ata_scheme \<Rightarrow> 'a ata_scheme" where
  "port_out8 port v s = s\<lparr>hw := io_out8 port v (hw s)\<rparr>"

definition ata_delay_400ns :: "'a ata_scheme \<Rightarrow> 'a ata_scheme" where
  "ata_delay_400ns s =
     (let s = s\<lparr>hw := snd (io_in8 ATA_ALT_STATUS_PORT (hw s))\<rparr>;
          s = s\<lparr>hw := snd (io_in8 ATA_ALT_STATUS_PORT (hw s))\<rparr>;
          s = s\<lparr>hw := snd (io_in8 ATA_ALT_STATUS_PORT (hw s))\<rparr>
      in s\<lparr>hw := snd (io_in8 ATA_ALT_STATUS_PORT (hw s))\<rparr>)"

text \<open>The polling loop, by the number of polls that remain.\<close>

fun ata_poll :: "nat \<Rightarrow> bool \<Rightarrow> 'a ata_scheme \<Rightarrow> bool \<times> 'a ata_scheme" where
  "ata_poll 0 require_drq s = (False, s)"
| "ata_poll (Suc remaining) require_drq s =
     (case io_in8 ATA_STATUS_COMMAND_PORT (hw s) of (status, d) \<Rightarrow>
        let s = s\<lparr>hw := d\<rparr>
        in if status = 0 then (False, s)
           else if status AND ATA_STATUS_BUSY = 0 \<and> status AND (ATA_STATUS_ERROR OR ATA_STATUS_DEVICE_FAULT) \<noteq> 0
           then (False, s)
           else if status AND ATA_STATUS_BUSY = 0 \<and> (\<not> require_drq \<or> status AND ATA_STATUS_DRQ \<noteq> 0)
           then (True, s)
           else ata_poll remaining require_drq s)"

definition ata_wait :: "bool \<Rightarrow> 'a ata_scheme \<Rightarrow> bool \<times> 'a ata_scheme" where
  "ata_wait require_drq s = ata_poll ATA_POLL_LIMIT require_drq s"

definition ata_acquire :: "'a ata_scheme \<Rightarrow> u32 option \<times> 'a ata_scheme" where
  "ata_acquire s =
     (case irq_save_disable (cpu s) of (flags, m) \<Rightarrow>
        if ata_operation_busy s then (None, s\<lparr>cpu := irq_restore flags m\<rparr>)
        else (Some flags, s\<lparr>cpu := m, ata_operation_busy := True\<rparr>))"

definition ata_release :: "u32 \<Rightarrow> 'a ata_scheme \<Rightarrow> 'a ata_scheme" where
  "ata_release flags s = s\<lparr>ata_operation_busy := False, cpu := irq_restore flags (cpu s)\<rparr>"

definition ata_request_valid :: "u32 \<Rightarrow> u32 \<Rightarrow> 'a ata_scheme \<Rightarrow> bool" where
  "ata_request_valid lba count s \<longleftrightarrow>
     device_ready s \<and> count > 0 \<and> count \<le> ATA_MAX_COMMAND_SECTORS \<and> lba \<le> ATA_LBA28_MAX \<and>
     count \<le> device_sector_count s \<and> lba \<le> device_sector_count s - count \<and> count - 1 \<le> ATA_LBA28_MAX - lba"

definition ata_issue_lba28 :: "u32 \<Rightarrow> u32 \<Rightarrow> u8 \<Rightarrow> 'a ata_scheme \<Rightarrow> 'a ata_scheme" where
  "ata_issue_lba28 lba count command s =
     (let s = port_out8 ATA_DRIVE_PORT (ucast (ATA_DRIVE_MASTER OR (drop_bit 24 lba AND 0x0F))) s;
          s = ata_delay_400ns s;
          s = port_out8 ATA_SECTOR_COUNT_PORT (ucast count) s;
          s = port_out8 ATA_LBA_LOW_PORT (ucast lba) s;
          s = port_out8 ATA_LBA_MID_PORT (ucast (drop_bit 8 lba)) s;
          s = port_out8 ATA_LBA_HIGH_PORT (ucast (drop_bit 16 lba)) s;
          s = port_out8 ATA_STATUS_COMMAND_PORT command s
      in ata_delay_400ns s)"

fun ata_identify_words :: "nat \<Rightarrow> 'a ata_scheme \<Rightarrow> u16 list \<times> 'a ata_scheme" where
  "ata_identify_words 0 s = ([], s)"
| "ata_identify_words (Suc n) s =
     (case io_in16 ATA_DATA_PORT (hw s) of (v, d) \<Rightarrow>
        case ata_identify_words n (s\<lparr>hw := d\<rparr>) of (vs, s) \<Rightarrow> (v # vs, s))"

definition ata_init :: "'a ata_scheme \<Rightarrow> int \<times> 'a ata_scheme" where
  "ata_init s =
     (let s = s\<lparr>device_ready := False, device_sector_count := 0, ata_operation_busy := False\<rparr>
      in case ata_acquire s of
           (None, s) \<Rightarrow> (- MINIOS_EIO, s)
         | (Some flags, s) \<Rightarrow>
             let s = port_out8 ATA_DRIVE_PORT ATA_IDENTIFY_MASTER s;
                 s = ata_delay_400ns s;
                 s = port_out8 ATA_SECTOR_COUNT_PORT 0 s;
                 s = port_out8 ATA_LBA_LOW_PORT 0 s;
                 s = port_out8 ATA_LBA_MID_PORT 0 s;
                 s = port_out8 ATA_LBA_HIGH_PORT 0 s;
                 s = port_out8 ATA_STATUS_COMMAND_PORT ATA_COMMAND_IDENTIFY s;
                 s = ata_delay_400ns s
             in case ata_wait True s of
                  (False, s) \<Rightarrow> (- MINIOS_EIO, ata_release flags s)
                | (True, s) \<Rightarrow>
                    case ata_identify_words ATA_WORDS_PER_SECTOR s of (identify, s) \<Rightarrow>
                      let s = s\<lparr>device_sector_count := ucast (identify ! 60) OR push_bit 16 (ucast (identify ! 61))\<rparr>
                      in if identify ! 49 AND ATA_CAPABILITY_LBA = 0 \<or> device_sector_count s = 0
                         then (- MINIOS_EIO, ata_release flags s)
                         else let s = (if device_sector_count s > ATA_LBA28_MAX + 1
                                       then s\<lparr>device_sector_count := ATA_LBA28_MAX + 1\<rparr> else s);
                                  s = s\<lparr>device_ready := True\<rparr>
                              in (0, ata_release flags s))"

definition ata_sector_count :: "'a ata_scheme \<Rightarrow> u32" where
  "ata_sector_count s = (if device_ready s then device_sector_count s else 0)"

text \<open>The word loop of one sector and the sector loop of a read command.\<close>

fun ata_read_words :: "nat \<Rightarrow> 'a ata_scheme \<Rightarrow> u8 list \<times> 'a ata_scheme" where
  "ata_read_words 0 s = ([], s)"
| "ata_read_words (Suc n) s =
     (case io_in16 ATA_DATA_PORT (hw s) of (v, d) \<Rightarrow>
        case ata_read_words n (s\<lparr>hw := d\<rparr>) of (bs, s) \<Rightarrow> (ucast v # ucast (drop_bit 8 v) # bs, s))"

fun ata_read_loop :: "nat \<Rightarrow> 'a ata_scheme \<Rightarrow> bool \<times> u8 list \<times> 'a ata_scheme" where
  "ata_read_loop 0 s = (True, [], s)"
| "ata_read_loop (Suc n) s =
     (case ata_wait True s of
        (False, s) \<Rightarrow> (False, [], s)
      | (True, s) \<Rightarrow>
          case ata_read_words ATA_WORDS_PER_SECTOR s of (bs, s) \<Rightarrow>
            case ata_read_loop n s of (ok, rest, s) \<Rightarrow> (ok, bs @ rest, s))"

definition ata_read_sectors :: "u32 \<Rightarrow> u32 \<Rightarrow> 'a ata_scheme \<Rightarrow> int \<times> u8 list \<times> 'a ata_scheme" where
  "ata_read_sectors lba count s =
     (if \<not> ata_request_valid lba count s then (- MINIOS_EINVAL, [], s)
      else case ata_acquire s of
        (None, s) \<Rightarrow> (- MINIOS_EAGAIN, [], s)
      | (Some flags, s) \<Rightarrow>
          case ata_wait False s of
            (False, s) \<Rightarrow> (- MINIOS_EIO, [], ata_release flags s)
          | (True, s) \<Rightarrow>
              case ata_read_loop (unat count) (ata_issue_lba28 lba count ATA_COMMAND_READ_SECTORS s) of
                (ok, bs, s) \<Rightarrow> (if ok then 0 else - MINIOS_EIO, bs, ata_release flags s))"

fun ata_write_words :: "nat \<Rightarrow> u8 list \<Rightarrow> 'a ata_scheme \<Rightarrow> 'a ata_scheme" where
  "ata_write_words 0 bs s = s"
| "ata_write_words (Suc n) bs s =
     ata_write_words n (drop 2 bs)
       (s\<lparr>hw := io_out16 ATA_DATA_PORT (ucast (bs ! 0) OR push_bit 8 (ucast (bs ! 1))) (hw s)\<rparr>)"

fun ata_write_loop :: "nat \<Rightarrow> u8 list \<Rightarrow> 'a ata_scheme \<Rightarrow> bool \<times> 'a ata_scheme" where
  "ata_write_loop 0 bs s = (True, s)"
| "ata_write_loop (Suc n) bs s =
     (case ata_wait True s of
        (False, s) \<Rightarrow> (False, s)
      | (True, s) \<Rightarrow> ata_write_loop n (drop 512 bs) (ata_write_words ATA_WORDS_PER_SECTOR bs s))"

definition ata_write_sectors :: "u32 \<Rightarrow> u32 \<Rightarrow> u8 list \<Rightarrow> 'a ata_scheme \<Rightarrow> int \<times> 'a ata_scheme" where
  "ata_write_sectors lba count bs s =
     (if \<not> ata_request_valid lba count s then (- MINIOS_EINVAL, s)
      else case ata_acquire s of
        (None, s) \<Rightarrow> (- MINIOS_EAGAIN, s)
      | (Some flags, s) \<Rightarrow>
          case ata_wait False s of
            (False, s) \<Rightarrow> (- MINIOS_EIO, ata_release flags s)
          | (True, s) \<Rightarrow>
              case ata_write_loop (unat count) bs (ata_issue_lba28 lba count ATA_COMMAND_WRITE_SECTORS s) of
                (False, s) \<Rightarrow> (- MINIOS_EIO, ata_release flags s)
              | (True, s) \<Rightarrow>
                  case ata_wait False s of
                    (False, s) \<Rightarrow> (- MINIOS_EIO, ata_release flags s)
                  | (True, s) \<Rightarrow>
                      case ata_wait False (ata_delay_400ns (port_out8 ATA_STATUS_COMMAND_PORT ATA_COMMAND_CACHE_FLUSH s)) of
                        (ok, s) \<Rightarrow> (if ok then 0 else - MINIOS_EIO, ata_release flags s))"

subsection \<open>Waiting\<close>

definition poll_end :: "nat \<Rightarrow> 'a ata_scheme \<Rightarrow> 'a ata_scheme" where
  "poll_end p s = s\<lparr>hw := (hw s)\<lparr>polls := p\<rparr>\<rparr>"

lemma ata_status_bits:
  "ata_status d = 0 \<longleftrightarrow> \<not> attached d"
  "attached d \<Longrightarrow> ata_status d AND 0x80 = 0 \<longleftrightarrow> polls d = 0"
  "attached d \<Longrightarrow> polls d = 0 \<Longrightarrow> ata_status d AND (0x01 OR 0x20) \<noteq> 0 \<longleftrightarrow> fault d"
  "attached d \<Longrightarrow> polls d = 0 \<Longrightarrow> \<not> fault d \<Longrightarrow> ata_status d AND 0x08 \<noteq> 0 \<longleftrightarrow> phase d \<noteq> Idle"
  by (simp_all add: ata_status_def)

lemma ata_poll_step:
  "ata_poll (Suc n) req s =
     (if \<not> attached (hw s) then (False, poll_end (polls (hw s) - 1) s)
      else if polls (hw s) > 0 then ata_poll n req (poll_end (polls (hw s) - 1) s)
      else if fault (hw s) then (False, poll_end 0 s)
      else if req \<and> phase (hw s) = Idle then ata_poll n req (poll_end 0 s)
      else (True, poll_end 0 s))"
  using ata_status_bits [of "hw s"] by (simp add: io_in8_def poll_end_def Let_def)

lemma poll_end_simps [simp]:
  "poll_end p (poll_end q s) = poll_end p s" "hw (poll_end p s) = (hw s)\<lparr>polls := p\<rparr>"
  "cpu (poll_end p s) = cpu s" "device_sector_count (poll_end p s) = device_sector_count s"
  "device_ready (poll_end p s) = device_ready s" "ata_operation_busy (poll_end p s) = ata_operation_busy s"
  by (simp_all add: poll_end_def)

lemma ata_poll_cases:
  "(\<exists>p. ata_poll n req s = (False, poll_end p s)) \<or>
   ata_poll n req s = (True, poll_end 0 s) \<and> attached (hw s) \<and> \<not> fault (hw s) \<and> (req \<longrightarrow> phase (hw s) \<noteq> Idle)"
proof (induction n arbitrary: s)
  case 0
  have "s = poll_end (polls (hw s)) s" by (simp add: poll_end_def)
  then show ?case by auto
next
  case (Suc n)
  show ?case using Suc [of "poll_end (polls (hw s) - 1) s"] Suc [of "poll_end 0 s"] by (auto simp: ata_poll_step simp del: ata_poll.simps)
qed

lemma ata_wait_cases:
  obtains (failed) p where "ata_wait req s = (False, poll_end p s)"
  | (ready) "ata_wait req s = (True, poll_end 0 s)" "transfers (hw (poll_end 0 s))" "req \<Longrightarrow> phase (hw s) \<noteq> Idle"
  using ata_poll_cases [of ATA_POLL_LIMIT req s] unfolding ata_wait_def by (auto simp: transfers_def)

lemma ata_poll_ready:
  "attached (hw s) \<Longrightarrow> \<not> fault (hw s) \<Longrightarrow> polls (hw s) < n \<Longrightarrow> (req \<Longrightarrow> phase (hw s) \<noteq> Idle) \<Longrightarrow>
   ata_poll n req s = (True, poll_end 0 s)"
proof (induction n arbitrary: s)
  case (Suc n)
  then show ?case using Suc.IH [of "poll_end (polls (hw s) - 1) s"] by (auto simp: ata_poll_step simp del: ata_poll.simps)
qed simp

lemma ata_wait_ready:
  "attached (hw s) \<Longrightarrow> \<not> fault (hw s) \<Longrightarrow> polls (hw s) < ATA_POLL_LIMIT \<Longrightarrow> (req \<Longrightarrow> phase (hw s) \<noteq> Idle) \<Longrightarrow>
   ata_wait req s = (True, poll_end 0 s)"
  unfolding ata_wait_def by (rule ata_poll_ready)

subsection \<open>Reading\<close>

definition bytes_of :: "u16 list \<Rightarrow> u8 list" where
  "bytes_of ws = concat (map (\<lambda>w. [ucast w, ucast (drop_bit 8 w)]) ws)"

lemma bytes_of_simps [simp]:
  "bytes_of [] = []" "bytes_of (w # ws) = ucast w # ucast (drop_bit 8 w) # bytes_of ws" "bytes_of (xs @ ys) = bytes_of xs @ bytes_of ys"
  "length (bytes_of ws) = 2 * length ws"
  by (induction ws) (simp_all add: bytes_of_def)

text \<open>The state of the device after the last word of a sector.\<close>

definition next_in :: "nat \<Rightarrow> nat \<Rightarrow> ata_hw \<Rightarrow> ata_hw" where
  "next_in lba n d = (if n \<le> 1 then d\<lparr>phase := Idle\<rparr> else enter (DataIn (Suc lba) (n - 1) 0) d)"

lemma ata_read_words_sector:
  assumes "phase (hw s) = DataIn lba n i" and "transfers (hw s)" and "i + Suc k = 256" and "length (sectors (hw s) lba) = 256"
  shows "ata_read_words (Suc k) s = (bytes_of (drop i (sectors (hw s) lba)), s\<lparr>hw := next_in lba n (hw s)\<rparr>)"
  using assms
proof (induction k arbitrary: s i)
  case 0
  then have "drop i (sectors (hw s) lba) = [sectors (hw s) lba ! i]"
    by (simp add: Cons_nth_drop_Suc [symmetric])
  then show ?case using 0 by (simp add: io_in16_def next_in_def)
next
  case (Suc k)
  let ?s = "s\<lparr>hw := (hw s)\<lparr>phase := DataIn lba n (Suc i)\<rparr>\<rparr>"
  have IH: "ata_read_words (Suc k) ?s = (bytes_of (drop (Suc i) (sectors (hw s) lba)), ?s\<lparr>hw := next_in lba n (hw ?s)\<rparr>)"
    using Suc.IH [of ?s "Suc i"] Suc.prems by (simp add: transfers_def)
  have "drop i (sectors (hw s) lba) = sectors (hw s) lba ! i # drop (Suc i) (sectors (hw s) lba)"
    using Suc.prems by (simp add: Cons_nth_drop_Suc)
  moreover have "?s\<lparr>hw := next_in lba n (hw ?s)\<rparr> = s\<lparr>hw := next_in lba n (hw s)\<rparr>"
    by (simp add: next_in_def enter_def)
  ultimately show ?case using Suc.prems IH by (simp add: io_in16_def del: ata_read_words.simps(2)) (simp add: io_in16_def ata_read_words.simps(2) [of "Suc k"] del: ata_read_words.simps(2))
qed

text \<open>What commands never change: the medium, and how the device behaves.\<close>

definition same_device :: "ata_hw \<Rightarrow> ata_hw \<Rightarrow> bool" where
  "same_device d d' \<longleftrightarrow> attached d = attached d' \<and> identify_data d = identify_data d' \<and> behaviour d = behaviour d'"

definition sound_medium :: "ata_hw \<Rightarrow> bool" where
  "sound_medium d \<longleftrightarrow> (\<forall>lba. length (sectors d lba) = 256)"

text \<open>A device that is present and from now on neither reports an error nor stays busy for too long.\<close>

definition reliable :: "ata_hw \<Rightarrow> bool" where
  "reliable d \<longleftrightarrow> attached d \<and> \<not> fault d \<and> polls d < ATA_POLL_LIMIT \<and>
     (\<forall>i \<ge> events d. fst (behaviour d i) < ATA_POLL_LIMIT \<and> \<not> snd (behaviour d i))"

lemma same_device_simps [simp]:
  "same_device d d" "same_device (d\<lparr>polls := p\<rparr>) d' = same_device d d'" "same_device (d\<lparr>phase := ph\<rparr>) d' = same_device d d'"
  "same_device (enter ph d) d' = same_device d d'" "same_device d (d'\<lparr>polls := p\<rparr>) = same_device d d'"
  "same_device d (d'\<lparr>phase := ph\<rparr>) = same_device d d'" "same_device d (enter ph d') = same_device d d'"
  "same_device (store_sector lba ws d) d' = same_device d d'" "same_device (d\<lparr>volatile := v\<rparr>) d' = same_device d d'"
  by (simp_all add: same_device_def enter_def store_sector_def)

lemma same_device_trans: "same_device d d' \<Longrightarrow> same_device d' d'' \<Longrightarrow> same_device d d''"
  by (simp add: same_device_def)

lemma enter_simps [simp]:
  "sectors (enter ph d) = sectors d" "phase (enter ph d) = ph" "sound_medium (enter ph d) = sound_medium d"
  by (simp_all add: enter_def sound_medium_def)

lemma reliable_enter: "reliable d \<Longrightarrow> reliable (enter ph d)"
  by (simp add: reliable_def enter_def)

lemma reliable_simps [simp]: "reliable d \<Longrightarrow> reliable (d\<lparr>polls := 0\<rparr>)" "reliable d \<Longrightarrow> reliable (d\<lparr>phase := ph\<rparr>)"
  "reliable (store_sector lba ws d) = reliable d" "reliable (d\<lparr>volatile := v\<rparr>) = reliable d"
  by (simp_all add: reliable_def store_sector_def)

lemma next_in_simps [simp]:
  "sectors (next_in lba n d) = sectors d" "same_device (next_in lba n d) d' = same_device d d'" "reliable d \<Longrightarrow> reliable (next_in lba n d)"
  "phase (next_in lba n d) = (if n \<le> 1 then Idle else DataIn (Suc lba) (n - 1) 0)"
  by (simp_all add: next_in_def reliable_enter)

lemma ata_wait_reliable: "reliable (hw s) \<Longrightarrow> (req \<Longrightarrow> phase (hw s) \<noteq> Idle) \<Longrightarrow> ata_wait req s = (True, poll_end 0 s)"
  by (rule ata_wait_ready) (simp_all add: reliable_def)

definition sector_bytes :: "ata_hw \<Rightarrow> nat \<Rightarrow> nat \<Rightarrow> u8 list" where
  "sector_bytes d lba n = concat (map (\<lambda>j. bytes_of (sectors d (lba + j))) [0..<n])"

lemma sector_bytes_Suc: "sector_bytes d lba (Suc n) = bytes_of (sectors d lba) @ sector_bytes d (Suc lba) n"
proof -
  have "[0..<Suc n] = 0 # map Suc [0..<n]" by (simp add: upt_conv_Cons map_Suc_upt del: upt_Suc)
  then show ?thesis by (simp add: sector_bytes_def comp_def del: upt_Suc)
qed

lemma sector_bytes_cong: "sectors d = sectors d' \<Longrightarrow> sector_bytes d = sector_bytes d'"
  by (simp add: sector_bytes_def fun_eq_iff)

lemma ata_read_loop_sound:
  assumes "n = 0 \<or> phase (hw s) = DataIn lba n 0" and "sound_medium (hw s)"
  shows "\<exists>ok bs d'. ata_read_loop n s = (ok, bs, s\<lparr>hw := d'\<rparr>) \<and> same_device d' (hw s) \<and> sectors d' = sectors (hw s) \<and>
    length bs \<le> 512 * n \<and> (ok \<longrightarrow> bs = sector_bytes (hw s) lba n) \<and> (reliable (hw s) \<longrightarrow> ok \<and> reliable d')"
  using assms
proof (induction n arbitrary: s lba)
  case 0
  show ?case by (intro exI [of _ True] exI [of _ "[]"] exI [of _ "hw s"]) (simp add: sector_bytes_def)
next
  case (Suc n)
  have ph: "phase (hw s) = DataIn lba (Suc n) 0" and len: "length (sectors (hw s) lba) = 256"
    using Suc.prems by (simp_all add: sound_medium_def)
  show ?case
  proof (cases rule: ata_wait_cases [of True s])
    case (failed p)
    have "\<not> reliable (hw s)" using ata_wait_reliable [of s True] failed ph by auto
    then show ?thesis
      using failed by (intro exI [of _ False] exI [of _ "[]"] exI [of _ "(hw s)\<lparr>polls := p\<rparr>"]) (simp add: poll_end_def)
  next
    case ready
    define s1 where "s1 = poll_end 0 s"
    define s2 where "s2 = s1\<lparr>hw := next_in lba (Suc n) (hw s1)\<rparr>"
    have words: "ata_read_words ATA_WORDS_PER_SECTOR s1 = (bytes_of (sectors (hw s) lba), s2)"
      using ata_read_words_sector [of s1 lba "Suc n" 0 255] ready(2) ph len by (simp add: s1_def s2_def del: ata_read_words.simps)
    have p2: "n = 0 \<or> phase (hw s2) = DataIn (Suc lba) n 0" and m2: "sound_medium (hw s2)" "sectors (hw s2) = sectors (hw s)"
      and dev: "same_device (hw s2) (hw s)" and rel: "reliable (hw s) \<Longrightarrow> reliable (hw s2)"
      using Suc.prems(2) by (auto simp: s2_def s1_def sound_medium_def)
    obtain ok bs d' where IH: "ata_read_loop n s2 = (ok, bs, s2\<lparr>hw := d'\<rparr>)" "same_device d' (hw s2)" "sectors d' = sectors (hw s2)"
      "length bs \<le> 512 * n" "ok \<longrightarrow> bs = sector_bytes (hw s2) (Suc lba) n" "reliable (hw s2) \<longrightarrow> ok \<and> reliable d'"
      using Suc.IH [OF p2 m2(1)] by blast
    have "ata_read_loop (Suc n) s = (ok, bytes_of (sectors (hw s) lba) @ bs, s\<lparr>hw := d'\<rparr>)"
      using ready words IH(1) by (simp add: s1_def [symmetric]) (simp add: s2_def s1_def poll_end_def)
    then show ?thesis
      using IH m2(2) dev rel len
      by (intro exI [of _ ok] exI [of _ "bytes_of (sectors (hw s) lba) @ bs"] exI [of _ d'])
        (auto simp: sector_bytes_Suc sector_bytes_cong [OF m2(2)] intro: same_device_trans)
  qed
qed

subsection \<open>Writing\<close>

fun words_of :: "u8 list \<Rightarrow> u16 list" where
  "words_of (a # b # bs) = (ucast a OR push_bit 8 (ucast b)) # words_of bs"
| "words_of bs = []"

lemma word16_bytes:
  "ucast (ucast (a :: u8) OR push_bit 8 (ucast (b :: u8)) :: u16) = a"
  "ucast (drop_bit 8 (ucast (a :: u8) OR push_bit 8 (ucast (b :: u8)) :: u16)) = b"
  by (rule bit_word_eqI; simp add: bit_ucast_iff bit_or_iff bit_push_bit_iff bit_drop_bit_eq; auto dest: bit_imp_le_length)+

lemma bytes_of_words_of: "even (length bs) \<Longrightarrow> bytes_of (words_of bs) = bs"
  by (induction bs rule: words_of.induct) (simp_all add: word16_bytes word16_bytes(2) [simplified])

lemma length_words_of [simp]: "length (words_of bs) = length bs div 2"
  by (induction bs rule: words_of.induct) simp_all

text \<open>The state of the device after the last word of a sector.\<close>

definition next_out :: "nat \<Rightarrow> nat \<Rightarrow> u16 list \<Rightarrow> ata_hw \<Rightarrow> ata_hw" where
  "next_out lba n ws d = enter (if n \<le> 1 then Idle else DataOut (Suc lba) (n - 1) []) (store_sector lba ws d)"

lemma next_out_simps [simp]:
  "same_device (next_out lba n ws d) d' = same_device d d'" "reliable d \<Longrightarrow> reliable (next_out lba n ws d)"
  "phase (next_out lba n ws d) = (if n \<le> 1 then Idle else DataOut (Suc lba) (n - 1) [])"
  by (simp_all add: next_out_def reliable_enter)

lemma next_out_sectors:
  "x \<noteq> lba \<Longrightarrow> sectors (next_out lba n ws d) x = sectors d x"
  "\<not> fault (next_out lba n ws d) \<Longrightarrow> sectors (next_out lba n ws d) = (sectors d)(lba := ws)"
  "sound_medium d \<Longrightarrow> length ws = 256 \<Longrightarrow> sound_medium (next_out lba n ws d)"
  by (auto simp: next_out_def store_sector_def enter_def sound_medium_def)

lemma ata_write_words_sector:
  assumes "phase (hw s) = DataOut lba n ws" and "transfers (hw s)" and "length ws + Suc k = 256" and "2 * Suc k \<le> length bs"
  shows "ata_write_words (Suc k) bs s = s\<lparr>hw := next_out lba n (ws @ words_of (take (2 * Suc k) bs)) (hw s)\<rparr>"
  using assms
proof (induction k arbitrary: s ws bs)
  case 0
  then obtain a b r where bs: "bs = a # b # r" by (cases bs rule: words_of.cases) auto
  then show ?case using 0 by (simp add: io_out16_def next_out_def)
next
  case (Suc k)
  then obtain a b r where bs: "bs = a # b # r" by (cases bs rule: words_of.cases) auto
  let ?w = "ucast a OR push_bit 8 (ucast b) :: u16"
  let ?s = "s\<lparr>hw := (hw s)\<lparr>phase := DataOut lba n (ws @ [?w])\<rparr>\<rparr>"
  have "ata_write_words (Suc k) r ?s = ?s\<lparr>hw := next_out lba n ((ws @ [?w]) @ words_of (take (2 * Suc k) r)) (hw ?s)\<rparr>"
    using Suc.prems by (intro Suc.IH) (simp_all add: bs transfers_def)
  moreover have "ata_write_words (Suc (Suc k)) bs s = ata_write_words (Suc k) r ?s"
    using Suc.prems by (subst ata_write_words.simps(2)) (simp add: io_out16_def bs del: ata_write_words.simps)
  moreover have "?s\<lparr>hw := next_out lba n x (hw ?s)\<rparr> = s\<lparr>hw := next_out lba n x (hw s)\<rparr>" for x
    by (simp add: next_out_def enter_def store_sector_def)
  ultimately show ?case by (simp add: bs del: ata_write_words.simps)
qed

definition overlay :: "nat \<Rightarrow> nat \<Rightarrow> u8 list \<Rightarrow> (nat \<Rightarrow> u16 list) \<Rightarrow> nat \<Rightarrow> u16 list" where
  "overlay lba k bs f = (\<lambda>x. if lba \<le> x \<and> x < lba + k then words_of (take 512 (drop (512 * (x - lba)) bs)) else f x)"

lemma overlay_Suc: "overlay lba (Suc k) bs f = overlay (Suc lba) k (drop 512 bs) (f(lba := words_of (take 512 bs)))"
proof
  fix x
  have "512 * (x - Suc lba) + 512 = 512 * (x - lba)" if "Suc lba \<le> x" using that by simp
  then show "overlay lba (Suc k) bs f x = overlay (Suc lba) k (drop 512 bs) (f(lba := words_of (take 512 bs))) x"
    by (cases "x = lba") (auto simp: overlay_def)
qed

lemma overlay_0 [simp]: "overlay lba 0 bs f = f"
  by (auto simp: overlay_def fun_eq_iff)

text \<open>What every write of some sectors keeps: the other sectors, and the length of every sector.\<close>

definition only_sectors :: "nat \<Rightarrow> nat \<Rightarrow> ata_hw \<Rightarrow> ata_hw \<Rightarrow> bool" where
  "only_sectors lba n d d' \<longleftrightarrow> same_device d' d \<and> (\<forall>x. x < lba \<or> lba + n \<le> x \<longrightarrow> sectors d' x = sectors d x) \<and> (sound_medium d \<longrightarrow> sound_medium d')"

lemma only_sectors_refl: "sectors d' = sectors d \<Longrightarrow> same_device d' d \<Longrightarrow> only_sectors lba n d d'"
  by (simp add: only_sectors_def sound_medium_def)

lemma only_sectors_trans: "only_sectors (Suc lba) n d' d'' \<Longrightarrow> only_sectors lba (Suc 0) d d' \<Longrightarrow> only_sectors lba (Suc n) d d''"
  unfolding only_sectors_def by (auto intro: same_device_trans)

lemma ata_write_loop_sound:
  assumes "n = 0 \<or> phase (hw s) = DataOut lba n []" and "length bs = 512 * n"
  shows "\<exists>ok d'. ata_write_loop n bs s = (ok, s\<lparr>hw := d'\<rparr>) \<and> only_sectors lba n (hw s) d' \<and>
    (ok \<and> \<not> fault d' \<longrightarrow> \<not> fault (hw s) \<and> sectors d' = overlay lba n bs (sectors (hw s))) \<and> (reliable (hw s) \<longrightarrow> ok \<and> reliable d')"
  using assms
proof (induction n arbitrary: s lba bs)
  case 0
  show ?case by (intro exI [of _ True] exI [of _ "hw s"]) (simp add: only_sectors_refl)
next
  case (Suc n)
  have ph: "phase (hw s) = DataOut lba (Suc n) []" using Suc.prems by simp
  show ?case
  proof (cases rule: ata_wait_cases [of True s])
    case (failed p)
    have "\<not> reliable (hw s)" using ata_wait_reliable [of s True] failed ph by auto
    then show ?thesis
      using failed by (intro exI [of _ False] exI [of _ "(hw s)\<lparr>polls := p\<rparr>"]) (simp add: poll_end_def only_sectors_refl)
  next
    case ready
    define s1 where "s1 = poll_end 0 s"
    define s2 where "s2 = s1\<lparr>hw := next_out lba (Suc n) (words_of (take 512 bs)) (hw s1)\<rparr>"
    have words: "ata_write_words ATA_WORDS_PER_SECTOR bs s1 = s2"
      using ata_write_words_sector [of s1 lba "Suc n" "[]" 255 bs] ready(2) ph Suc.prems(2) by (simp add: s1_def s2_def del: ata_write_words.simps)
    have p2: "n = 0 \<or> phase (hw s2) = DataOut (Suc lba) n []" and w2: "only_sectors lba (Suc 0) (hw s) (hw s2)"
      and rel: "reliable (hw s) \<Longrightarrow> reliable (hw s2)" and len: "length (drop 512 bs) = 512 * n"
      using Suc.prems(2) next_out_sectors(1,3) [where d = "hw s1"] by (auto simp: s2_def s1_def only_sectors_def sound_medium_def)
    have m2: "\<not> fault (hw s2) \<Longrightarrow> sectors (hw s2) = (sectors (hw s))(lba := words_of (take 512 bs))"
      using next_out_sectors(2) [of lba "Suc n" _ "hw s1"] by (simp add: s2_def s1_def)
    obtain ok d' where IH: "ata_write_loop n (drop 512 bs) s2 = (ok, s2\<lparr>hw := d'\<rparr>)" "only_sectors (Suc lba) n (hw s2) d'"
      "ok \<and> \<not> fault d' \<longrightarrow> \<not> fault (hw s2) \<and> sectors d' = overlay (Suc lba) n (drop 512 bs) (sectors (hw s2))"
      "reliable (hw s2) \<longrightarrow> ok \<and> reliable d'"
      using Suc.IH [OF p2 len] by blast
    have "ata_write_loop (Suc n) bs s = (ok, s\<lparr>hw := d'\<rparr>)"
      using ready words IH(1) by (simp add: s1_def [symmetric] del: ata_write_words.simps) (simp add: s2_def s1_def poll_end_def)
    then show ?thesis
      using IH(3,4) rel m2 ready(2) only_sectors_trans [OF IH(2) w2]
      by (intro exI [of _ ok] exI [of _ d']) (auto simp: overlay_Suc transfers_def)
  qed
qed

subsection \<open>Commands\<close>

lemma ata_delay_400ns_id [simp]: "ata_delay_400ns s = s"
  by (simp add: ata_delay_400ns_def io_in8_def Let_def)

lemma unat_ucast_u8: "unat (ucast (x :: u32) :: u8) = unat x mod 256"
  by (simp add: unsigned_ucast_eq take_bit_nat_def)

lemma drive_lba: "unat (ucast (0xE0 OR (drop_bit 24 (lba :: u32) AND 0x0F)) :: u8) mod 16 = unat (drop_bit 24 lba) mod 16"
proof -
  have "unat x mod 16 = unat (x AND 15)" for x :: u8
    using unat_and_mask [of x 4] by (simp add: mask_eq_exp_minus_1)
  then have "unat (ucast (0xE0 OR (drop_bit 24 lba AND 0x0F)) :: u8) mod 16 = unat ((ucast (0xE0 OR (drop_bit 24 lba AND 0x0F)) :: u8) AND 15)"
    by simp
  also have "(ucast (0xE0 OR (drop_bit 24 lba AND 0x0F)) :: u8) AND 15 = ucast (drop_bit 24 lba AND 0x0F)"
  proof (rule bit_word_eqI)
    fix n assume "n < LENGTH(8)"
    have m: "(15 :: u8) = mask 4" "(15 :: u32) = mask 4" "(0xE0 :: u32) = push_bit 5 7" by (simp_all add: mask_eq_exp_minus_1)
    have "bit (15 :: u8) n \<longleftrightarrow> n < 4" "bit (15 :: u32) n \<longleftrightarrow> n < 4" "bit (0xE0 :: u32) n \<longrightarrow> 5 \<le> n"
      unfolding m bit_mask_iff bit_push_bit_iff using \<open>n < LENGTH(8)\<close> by auto
    then show "bit ((ucast (0xE0 OR (drop_bit 24 lba AND 0x0F)) :: u8) AND 15) n = bit (ucast (drop_bit 24 lba AND 0x0F) :: u8) n"
      by (auto simp only: bit_and_iff bit_or_iff bit_ucast_iff)
  qed
  also have "unat (ucast (drop_bit 24 lba AND 0x0F) :: u8) = unat (drop_bit 24 lba) mod 16"
  proof -
    have "unat (drop_bit 24 lba AND 0x0F) = unat (drop_bit 24 lba) mod 16"
      using unat_and_mask [of "drop_bit 24 lba" 4] by (simp add: mask_eq_exp_minus_1)
    then show ?thesis unfolding unat_ucast_u8 by simp
  qed
  finally show ?thesis .
qed

lemma lba_split: "x < 268435456 \<Longrightarrow>
  x mod 256 + 256 * (x div 256 mod 256) + 65536 * (x div 65536 mod 256) + 16777216 * (x div 16777216 mod 16) = (x :: nat)"
proof -
  assume x: "x < 268435456"
  have d: "x div 65536 = x div 256 div 256" "x div 16777216 = x div 256 div 256 div 256"
    by (simp_all add: div_mult2_eq [symmetric])
  have "x div 256 div 256 div 256 < 16" using x by (simp add: div_mult2_eq [symmetric] less_mult_imp_div_less)
  then have "x div 256 div 256 div 256 mod 16 = x div 256 div 256 div 256" by simp
  then show ?thesis
    unfolding d using div_mult_mod_eq [of x 256] div_mult_mod_eq [of "x div 256" 256] div_mult_mod_eq [of "x div 256 div 256" 256]
    by linarith
qed

lemma ata_issue_spec:
  assumes "lba \<le> ATA_LBA28_MAX" and "count \<le> ATA_MAX_COMMAND_SECTORS" and "polls (hw s) = 0"
  shows "\<exists>d. ata_issue_lba28 lba count c s = s\<lparr>hw := ata_command c d\<rparr> \<and> same_device d (hw s) \<and> sectors d = sectors (hw s) \<and>
    selected_lba d = unat lba \<and> unat (reg_count d) = unat count \<and> (reliable (hw s) \<longrightarrow> reliable d)"
proof -
  define d where "d = (hw s)\<lparr>reg_drive := ucast (0xE0 OR (drop_bit 24 lba AND 0x0F)), reg_count := ucast count,
    reg_lba_low := ucast lba, reg_lba_mid := ucast (drop_bit 8 lba), reg_lba_high := ucast (drop_bit 16 lba)\<rparr>"
  have "ata_issue_lba28 lba count c s = s\<lparr>hw := ata_command c d\<rparr>"
    using assms(3) by (simp add: ata_issue_lba28_def port_out8_def io_out8_def Let_def d_def)
  moreover have "unat lba < 268435456" using assms(1) by (simp add: word_le_nat_alt)
  then have "selected_lba d = unat lba"
    using lba_split [of "unat lba"] drive_lba [of lba]
    by (simp add: selected_lba_def d_def unat_ucast_u8 unat_drop_bit)
  moreover have "unat (reg_count d) = unat count"
    using assms(2) by (simp add: d_def unat_ucast_u8 word_le_nat_alt)
  moreover have "same_device d (hw s)" "sectors d = sectors (hw s)" "reliable (hw s) \<longrightarrow> reliable d"
    by (simp_all add: d_def same_device_def reliable_def)
  ultimately show ?thesis by blast
qed

lemma ata_acquire_free:
  assumes "\<not> ata_operation_busy s"
  shows "ata_acquire s = (Some (eflags (cpu s)), s\<lparr>cpu := snd (irq_save_disable (cpu s)), ata_operation_busy := True\<rparr>)"
  using assms by (simp add: ata_acquire_def irq_save_disable_def irq_read_flags_def)

lemma ata_acquire_busy:
  assumes "ata_operation_busy s"
  shows "ata_acquire s = (None, s)"
proof -
  obtain f m where i: "irq_save_disable (cpu s) = (f, m)" by fastforce
  then show ?thesis using assms irq_restore_save [OF i] by (simp add: ata_acquire_def)
qed

text \<open>What the driver leaves when it gives the device back: only the hardware state may differ.\<close>

lemma ata_release_acquired:
  assumes "\<not> ata_operation_busy s"
    and "s' = s\<lparr>cpu := snd (irq_save_disable (cpu s)), ata_operation_busy := True, hw := d\<rparr>"
  shows "ata_release (eflags (cpu s)) s' = s\<lparr>hw := d\<rparr>"
proof -
  have "irq_restore (eflags (cpu s)) (snd (irq_save_disable (cpu s))) = cpu s"
    by (rule irq_restore_save) (simp add: irq_save_disable_def irq_read_flags_def)
  then show ?thesis using assms by (simp add: ata_release_def)
qed

lemma ata_valid:
  assumes "ata_request_valid lba count s"
  shows "lba \<le> ATA_LBA28_MAX" "count \<le> ATA_MAX_COMMAND_SECTORS" "0 < unat count"
  using assms by (auto simp: ata_request_valid_def unat_gt_0 word_neq_0_conv)

lemma ata_read_sectors_sound:
  assumes valid: "ata_request_valid lba count s" and med: "sound_medium (hw s)" and free: "\<not> ata_operation_busy s"
  obtains r bs d where "ata_read_sectors lba count s = (r, bs, s\<lparr>hw := d\<rparr>)" "r = 0 \<or> r = - MINIOS_EIO" "same_device d (hw s)"
    "sectors d = sectors (hw s)" "length bs \<le> 512 * unat count" "r = 0 \<Longrightarrow> bs = sector_bytes (hw s) (unat lba) (unat count)"
    "reliable (hw s) \<Longrightarrow> r = 0 \<and> reliable d"
proof -
  define s1 where "s1 = s\<lparr>cpu := snd (irq_save_disable (cpu s)), ata_operation_busy := True\<rparr>"
  note acq = ata_acquire_free [OF free, folded s1_def]
  note v = ata_valid [OF valid]
  have hw1: "hw s1 = hw s" by (simp add: s1_def)
  show ?thesis
  proof (cases rule: ata_wait_cases [of False s1])
    case (failed p)
    have "\<not> reliable (hw s)" using ata_wait_reliable [of s1 False] failed hw1 by auto
    moreover have "ata_release (eflags (cpu s)) (poll_end p s1) = s\<lparr>hw := (hw s)\<lparr>polls := p\<rparr>\<rparr>"
      by (rule ata_release_acquired [OF free]) (simp add: poll_end_def s1_def)
    ultimately show ?thesis
      using valid acq failed by (intro that [of "- MINIOS_EIO" "[]" "(hw s)\<lparr>polls := p\<rparr>"]) (simp_all add: ata_read_sectors_def)
  next
    case ready
    obtain d where d0: "ata_issue_lba28 lba count 0x20 (poll_end 0 s1) = (poll_end 0 s1)\<lparr>hw := ata_command 0x20 d\<rparr>"
      "same_device d (hw (poll_end 0 s1))" "sectors d = sectors (hw (poll_end 0 s1))" "selected_lba d = unat lba"
      "unat (reg_count d) = unat count" "reliable (hw (poll_end 0 s1)) \<longrightarrow> reliable d"
      using ata_issue_spec [OF v(1,2), of "poll_end 0 s1" "0x20"] by auto
    have d: "same_device d (hw s)" "sectors d = sectors (hw s)" "reliable (hw s) \<Longrightarrow> reliable d"
      using d0 hw1 by simp_all
    define s2 where "s2 = (poll_end 0 s1)\<lparr>hw := ata_command 0x20 d\<rparr>"
    have h2: "phase (hw s2) = DataIn (unat lba) (unat count) 0" "same_device (hw s2) (hw s)" "sectors (hw s2) = sectors (hw s)"
      "reliable (hw s) \<Longrightarrow> reliable (hw s2)"
      using d d0(4,5) by (simp_all add: s2_def ata_command_def reliable_enter)
    obtain ok bs d' where l: "ata_read_loop (unat count) s2 = (ok, bs, s2\<lparr>hw := d'\<rparr>)" "same_device d' (hw s2)" "sectors d' = sectors (hw s2)"
      "length bs \<le> 512 * unat count" "ok \<longrightarrow> bs = sector_bytes (hw s2) (unat lba) (unat count)" "reliable (hw s2) \<longrightarrow> ok \<and> reliable d'"
      using ata_read_loop_sound [of "unat count" s2 "unat lba"] h2 med by (auto simp: sound_medium_def)
    have "ata_release (eflags (cpu s)) (s2\<lparr>hw := d'\<rparr>) = s\<lparr>hw := d'\<rparr>"
      by (rule ata_release_acquired [OF free]) (simp add: s2_def poll_end_def s1_def)
    then have "ata_read_sectors lba count s = (if ok then 0 else - MINIOS_EIO, bs, s\<lparr>hw := d'\<rparr>)"
      using valid acq ready l(1) d0(1) by (simp add: ata_read_sectors_def s2_def)
    moreover have "sector_bytes (hw s2) = sector_bytes (hw s)" by (rule sector_bytes_cong) (rule h2(3))
    ultimately show ?thesis
      using l(2-6) h2 by (intro that [of "if ok then 0 else - MINIOS_EIO" bs d']) (auto intro: same_device_trans)
  qed
qed

text \<open>The end of a write: wait, flush the cache of the device, wait.\<close>

lemma ata_flush_sound:
  obtains r d' where "(case ata_wait False (s\<lparr>hw := d\<rparr>) of (False, s) \<Rightarrow> (- MINIOS_EIO, f s)
      | (True, s) \<Rightarrow> case ata_wait False (ata_delay_400ns (port_out8 ATA_STATUS_COMMAND_PORT ATA_COMMAND_CACHE_FLUSH s)) of
          (ok, s) \<Rightarrow> (if ok then 0 else - MINIOS_EIO, f s)) = (r, f (s\<lparr>hw := d'\<rparr>))"
    "r = 0 \<or> r = - MINIOS_EIO" "same_device d' d" "sectors d' = sectors d" "r = 0 \<Longrightarrow> \<not> fault d \<and> volatile d' = {}"
    "reliable d \<Longrightarrow> r = 0 \<and> reliable d'"
proof (cases rule: ata_wait_cases [of False "s\<lparr>hw := d\<rparr>"])
  case (failed p)
  have "\<not> reliable d" using ata_wait_reliable [of "s\<lparr>hw := d\<rparr>" False] failed by auto
  then show ?thesis using failed by (intro that [of "- MINIOS_EIO" "d\<lparr>polls := p\<rparr>"]) (simp_all add: poll_end_def)
next
  case ready
  define d1 where "d1 = ata_command 0xE7 (d\<lparr>polls := 0\<rparr>)"
  have fl: "port_out8 0x1F7 0xE7 (poll_end 0 (s\<lparr>hw := d\<rparr>)) = s\<lparr>hw := d1\<rparr>"
    by (simp add: port_out8_def io_out8_def d1_def poll_end_def)
  have r1: "reliable d \<Longrightarrow> reliable d1" by (simp add: d1_def ata_command_def Let_def reliable_enter)
  have d1: "same_device d1 d" "sectors d1 = sectors d" "\<not> fault d1 \<Longrightarrow> volatile d1 = {}"
    by (simp_all add: d1_def ata_command_def Let_def split: if_splits)
  show ?thesis
  proof (cases rule: ata_wait_cases [of False "s\<lparr>hw := d1\<rparr>"])
    case (failed p)
    have "\<not> reliable d" using ata_wait_reliable [of "s\<lparr>hw := d1\<rparr>" False] failed r1 by auto
    then show ?thesis
      using failed ready fl d1 by (intro that [of "- MINIOS_EIO" "d1\<lparr>polls := p\<rparr>"]) (simp_all add: poll_end_def)
  next
    case r: ready
    then show ?thesis
      using ready fl r1 d1 by (intro that [of 0 "d1\<lparr>polls := 0\<rparr>"]) (simp_all add: poll_end_def transfers_def)
  qed
qed

lemma ata_write_sectors_sound:
  assumes valid: "ata_request_valid lba count s" and len: "length bs = 512 * unat count" and free: "\<not> ata_operation_busy s"
  obtains r d where "ata_write_sectors lba count bs s = (r, s\<lparr>hw := d\<rparr>)" "r = 0 \<or> r = - MINIOS_EIO"
    "only_sectors (unat lba) (unat count) (hw s) d" "r = 0 \<Longrightarrow> sectors d = overlay (unat lba) (unat count) bs (sectors (hw s))"
    "r = 0 \<Longrightarrow> volatile d = {}" "reliable (hw s) \<Longrightarrow> r = 0 \<and> reliable d"
proof -
  define s1 where "s1 = s\<lparr>cpu := snd (irq_save_disable (cpu s)), ata_operation_busy := True\<rparr>"
  note acq = ata_acquire_free [OF free, folded s1_def]
  note v = ata_valid [OF valid]
  have hw1: "hw s1 = hw s" by (simp add: s1_def)
  have rel: "ata_release (eflags (cpu s)) (s1\<lparr>hw := d\<rparr>) = s\<lparr>hw := d\<rparr>" for d
    by (rule ata_release_acquired [OF free]) (simp add: s1_def)
  have pe: "poll_end p s1 = s1\<lparr>hw := (hw s)\<lparr>polls := p\<rparr>\<rparr>" for p
    by (simp add: poll_end_def hw1)
  show ?thesis
  proof (cases rule: ata_wait_cases [of False s1])
    case (failed p)
    have "\<not> reliable (hw s)" using ata_wait_reliable [of s1 False] failed hw1 by auto
    then show ?thesis
      using valid acq failed rel
      by (intro that [of "- MINIOS_EIO" "(hw s)\<lparr>polls := p\<rparr>"]) (simp_all add: ata_write_sectors_def pe only_sectors_refl)
  next
    case ready
    define e where "e = poll_end 0 s1"
    obtain d where d0: "ata_issue_lba28 lba count 0x30 e = e\<lparr>hw := ata_command 0x30 d\<rparr>"
      "same_device d (hw e)" "sectors d = sectors (hw e)" "selected_lba d = unat lba"
      "unat (reg_count d) = unat count" "reliable (hw e) \<longrightarrow> reliable d"
      using ata_issue_spec [OF v(1,2), of e "0x30"] by (auto simp: e_def)
    have d: "same_device d (hw s)" "sectors d = sectors (hw s)" "reliable (hw s) \<Longrightarrow> reliable d"
      using d0 hw1 by (simp_all add: e_def)
    define s2 where "s2 = s1\<lparr>hw := ata_command 0x30 d\<rparr>"
    have iss: "ata_issue_lba28 lba count 0x30 (poll_end 0 s1) = s2" using d0(1) by (simp add: e_def s2_def poll_end_def)
    have h2: "phase (hw s2) = DataOut (unat lba) (unat count) []" "same_device (hw s2) (hw s)" "sectors (hw s2) = sectors (hw s)"
      "reliable (hw s) \<Longrightarrow> reliable (hw s2)"
      using d d0(4,5) by (simp_all add: s2_def ata_command_def reliable_enter)
    obtain ok d1 where l: "ata_write_loop (unat count) bs s2 = (ok, s2\<lparr>hw := d1\<rparr>)" "only_sectors (unat lba) (unat count) (hw s2) d1"
      "ok \<and> \<not> fault d1 \<longrightarrow> \<not> fault (hw s2) \<and> sectors d1 = overlay (unat lba) (unat count) bs (sectors (hw s2))"
      "reliable (hw s2) \<longrightarrow> ok \<and> reliable d1"
      using ata_write_loop_sound [of "unat count" s2 "unat lba" bs] h2(1) len by blast
    have s2': "s2\<lparr>hw := x\<rparr> = s1\<lparr>hw := x\<rparr>" for x by (simp add: s2_def)
    have wr: "only_sectors (unat lba) (unat count) (hw s) d1"
      using l(2) h2(2,3) by (auto simp: only_sectors_def sound_medium_def intro: same_device_trans)
    note w = ata_write_sectors_def acq ready iss l(1) s2'
    show ?thesis
    proof (cases ok)
      case False
      then have "ata_write_sectors lba count bs s = (- MINIOS_EIO, s\<lparr>hw := d1\<rparr>)" using valid rel by (simp add: w)
      then show ?thesis using wr l(4) h2(4) False by (intro that [of "- MINIOS_EIO" d1]) auto
    next
      case True
      show ?thesis
      proof (rule ata_flush_sound [where s = s1 and d = d1 and f = "ata_release (eflags (cpu s))"])
        fix r d'
        assume eq: "(case ata_wait False (s1\<lparr>hw := d1\<rparr>) of (False, s') \<Rightarrow> (- MINIOS_EIO, ata_release (eflags (cpu s)) s')
            | (True, s') \<Rightarrow> case ata_wait False (ata_delay_400ns (port_out8 ATA_STATUS_COMMAND_PORT ATA_COMMAND_CACHE_FLUSH s')) of
                (ok, s') \<Rightarrow> (if ok then 0 else - MINIOS_EIO, ata_release (eflags (cpu s)) s')) = (r, ata_release (eflags (cpu s)) (s1\<lparr>hw := d'\<rparr>))"
          and f: "r = 0 \<or> r = - MINIOS_EIO" "same_device d' d1" "sectors d' = sectors d1" "r = 0 \<Longrightarrow> \<not> fault d1 \<and> volatile d' = {}"
            "reliable d1 \<Longrightarrow> r = 0 \<and> reliable d'"
        have "ata_write_sectors lba count bs s = (r, s\<lparr>hw := d'\<rparr>)" using eq True valid rel by (simp add: w)
        moreover have "only_sectors (unat lba) (unat count) (hw s) d'"
          using wr f(2,3) by (auto simp: only_sectors_def sound_medium_def intro: same_device_trans)
        ultimately show ?thesis using f(1,3-5) l(3,4) True h2(3,4) by (intro that [of r d']) auto
      qed
    qed
  qed
qed

text \<open>
  The error bit of the status register stays until the device takes the next command. The driver looks at it before it
  sends one, so after the first error it refuses every request.
\<close>

lemma ata_poll_fault:
  assumes "attached (hw s)" and "fault (hw s)" and "polls (hw s) = 0" and "0 < n"
  shows "ata_poll n req s = (False, poll_end 0 s)"
  using assms by (cases n) (simp_all add: ata_poll_step del: ata_poll.simps)

lemma ata_error_sticks:
  assumes "ata_request_valid lba count s" and "\<not> ata_operation_busy s" and "attached (hw s)" and "fault (hw s)" and "polls (hw s) = 0"
  shows "ata_read_sectors lba count s = (- MINIOS_EIO, [], s)" and "ata_write_sectors lba count bs s = (- MINIOS_EIO, s)"
proof -
  define s1 where "s1 = s\<lparr>cpu := snd (irq_save_disable (cpu s)), ata_operation_busy := True\<rparr>"
  note acq = ata_acquire_free [OF assms(2), folded s1_def]
  have "poll_end 0 s1 = s1" using assms(5) by (simp add: poll_end_def s1_def)
  moreover have "ata_wait False s1 = (False, poll_end 0 s1)"
    unfolding ata_wait_def by (rule ata_poll_fault) (use assms(3-5) in \<open>simp_all add: s1_def\<close>)
  moreover have "ata_release (eflags (cpu s)) s1 = s" by (subst ata_release_acquired [OF assms(2), of _ "hw s"]) (simp_all add: s1_def)
  ultimately show "ata_read_sectors lba count s = (- MINIOS_EIO, [], s)" "ata_write_sectors lba count bs s = (- MINIOS_EIO, s)"
    using assms(1) acq by (simp_all add: ata_read_sectors_def ata_write_sectors_def)
qed

end
