(* ===== verification/Block_Store.thy ===== *)
theory Block_Store
  imports Prelude
begin

text \<open>
  The contract of the block layer as the file system relies on it: a successful read returns the
  content of the block, a successful write replaces it, and neither touches any other block; a
  failed write may leave the one block it was about in any state. When the device is \<open>sane\<close> both
  succeed.
\<close>

locale block_store =
  fixes rd :: "u32 \<Rightarrow> 's \<Rightarrow> int \<times> u8 list \<times> 's"
    and wr :: "u32 \<Rightarrow> u8 list \<Rightarrow> 's \<Rightarrow> int \<times> 's"
    and content :: "'s \<Rightarrow> nat \<Rightarrow> u8 list"
    and extent :: "'s \<Rightarrow> nat"
    and ready :: "'s \<Rightarrow> bool"
    and sane :: "'s \<Rightarrow> bool"
  assumes rd_ok: "ready s \<Longrightarrow> unat n < extent s \<Longrightarrow> \<exists>r bs s'. rd n s = (r, bs, s') \<and> ready s' \<and> extent s' = extent s \<and>
      content s' = content s \<and> (r = 0 \<longrightarrow> bs = content s (unat n)) \<and> (sane s \<longrightarrow> r = 0 \<and> sane s')"
    and wr_ok: "ready s \<Longrightarrow> unat n < extent s \<Longrightarrow> length bs = 4096 \<Longrightarrow> \<exists>r s'. wr n bs s = (r, s') \<and> ready s' \<and> extent s' = extent s \<and>
      (\<forall>m. m \<noteq> unat n \<longrightarrow> content s' m = content s m) \<and> (r = 0 \<longrightarrow> content s' (unat n) = bs) \<and> (sane s \<longrightarrow> r = 0 \<and> sane s')"
begin

lemma write_read:
  assumes "ready s" and "unat n < extent s" and "length bs = 4096" and "wr n bs s = (0, s')" and "unat m < extent s"
    and "rd m s' = (0, xs, s'')"
  shows "xs = (if m = n then bs else content s (unat m))"
proof -
  have "ready s'" "extent s' = extent s" "\<forall>k. k \<noteq> unat n \<longrightarrow> content s' k = content s k" "content s' (unat n) = bs"
    using wr_ok [OF assms(1-3)] assms(4) by auto
  moreover have "xs = content s' (unat m)" using rd_ok [of s' m] calculation(1,2) assms(5,6) by auto
  ultimately show ?thesis by (auto simp: word_unat_eq_iff)
qed

lemma write_read_sane:
  assumes "ready s" and "sane s" and "unat n < extent s" and "length bs = 4096"
  shows "\<exists>s' s''. wr n bs s = (0, s') \<and> rd n s' = (0, bs, s'')"
proof -
  obtain s' where s': "wr n bs s = (0, s')" "ready s'" "extent s' = extent s" "content s' (unat n) = bs" "sane s'"
    using wr_ok [OF assms(1,3,4)] assms(2) by auto
  then show ?thesis using rd_ok [of s' n] assms(3) by auto
qed

end

end
