(* ===== verification/Block.thy ===== *)
theory Block
  imports Ata Block_Store Vmm
begin

text \<open>
  The block layer (\<open>kernel/block/block.c\<close>): blocks of 4096 bytes over the 512-byte sectors of the
  ATA driver. Its abstraction is the function from block numbers to their bytes.
\<close>

abbreviation (input) SECTOR_SIZE :: nat where "SECTOR_SIZE \<equiv> 512"
abbreviation (input) SECTORS_PER_BLOCK :: u32 where "SECTORS_PER_BLOCK \<equiv> 8"
abbreviation (input) KERNEL_ELF_BLOCK :: u32 where "KERNEL_ELF_BLOCK \<equiv> 16"
abbreviation (input) BLOCK_SIZE :: u32 where "BLOCK_SIZE \<equiv> 4096"

record block = ata +
  device_block_count :: u32

definition block_request_valid :: "u32 \<Rightarrow> u32 \<Rightarrow> 'a block_scheme \<Rightarrow> bool" where
  "block_request_valid block_number count s \<longleftrightarrow>
     device_block_count s \<noteq> 0 \<and> count > 0 \<and> count \<le> 0xFFFFFFFF div BLOCK_SIZE \<and> count \<le> device_block_count s \<and>
     block_number \<le> device_block_count s - count"

definition block_init :: "'a block_scheme \<Rightarrow> int \<times> 'a block_scheme" where
  "block_init s =
     (let count = ata_sector_count s
      in if count < SECTORS_PER_BLOCK then (- MINIOS_EIO, s\<lparr>device_block_count := 0\<rparr>)
         else (0, s\<lparr>device_block_count := count div SECTORS_PER_BLOCK\<rparr>))"

definition block_count :: "'a block_scheme \<Rightarrow> u32" where
  "block_count s = device_block_count s"

text \<open>The loops of \<open>block_read\<close> and \<open>block_write\<close>, by the number of blocks that remain.\<close>

fun block_read_loop :: "nat \<Rightarrow> u32 \<Rightarrow> 'a block_scheme \<Rightarrow> int \<times> u8 list \<times> 'a block_scheme" where
  "block_read_loop 0 n s = (0, [], s)"
| "block_read_loop (Suc remaining) n s =
     (case ata_read_sectors (n * SECTORS_PER_BLOCK) SECTORS_PER_BLOCK s of (result, bs, s) \<Rightarrow>
        if result < 0 then (result, bs, s)
        else case block_read_loop remaining (n + 1) s of (result, rest, s) \<Rightarrow> (result, bs @ rest, s))"

definition block_read :: "u32 \<Rightarrow> u32 \<Rightarrow> 'a block_scheme \<Rightarrow> int \<times> u8 list \<times> 'a block_scheme" where
  "block_read block_number count s =
     (if \<not> block_request_valid block_number count s then (- MINIOS_EINVAL, [], s)
      else block_read_loop (unat count) block_number s)"

fun block_write_loop :: "nat \<Rightarrow> u32 \<Rightarrow> u8 list \<Rightarrow> 'a block_scheme \<Rightarrow> int \<times> 'a block_scheme" where
  "block_write_loop 0 n bs s = (0, s)"
| "block_write_loop (Suc remaining) n bs s =
     (case ata_write_sectors (n * SECTORS_PER_BLOCK) SECTORS_PER_BLOCK (take 4096 bs) s of (result, s) \<Rightarrow>
        if result < 0 then (result, s)
        else block_write_loop remaining (n + 1) (drop 4096 bs) s)"

definition block_write :: "u32 \<Rightarrow> u32 \<Rightarrow> u8 list \<Rightarrow> 'a block_scheme \<Rightarrow> int \<times> 'a block_scheme" where
  "block_write block_number count bs s =
     (if \<not> block_request_valid block_number count s then (- MINIOS_EINVAL, s)
      else block_write_loop (unat count) block_number bs s)"

text \<open>A buffer of which a read stored the first bytes.\<close>

definition fill_buffer :: "u8 list \<Rightarrow> u8 list \<Rightarrow> u8 list" where
  "fill_buffer bs buffer = bs @ drop (length bs) buffer"

definition block_self_test :: "u8 list \<Rightarrow> 'a block_scheme \<Rightarrow> bool \<times> 'a block_scheme" where
  "block_self_test buffer s =
     (if device_block_count s \<le> KERNEL_ELF_BLOCK then (False, s)
      else case block_read 0 1 s of (r, bs, s) \<Rightarrow>
        let buffer = fill_buffer bs buffer
        in if r \<noteq> 0 \<or> buffer ! 510 \<noteq> 0x55 \<or> buffer ! 511 \<noteq> 0xAA then (False, s)
           else case block_read KERNEL_ELF_BLOCK 1 s of (r, bs, s) \<Rightarrow>
             let buffer = fill_buffer bs buffer
             in if r \<noteq> 0 \<or> buffer ! 0 \<noteq> 0x7F \<or> buffer ! 1 \<noteq> 0x45 \<or> buffer ! 2 \<noteq> 0x4C \<or> buffer ! 3 \<noteq> 0x46 then (False, s)
                else case block_read (device_block_count s) 1 s of (r, bs, s) \<Rightarrow>
                  if r \<ge> 0 then (False, s)
                  else case block_read 0xFFFFFFFF 1 s of (r, bs, s) \<Rightarrow> (\<not> r \<ge> 0, s))"

subsection \<open>Blocks of the medium\<close>

definition medium_block :: "'a block_scheme \<Rightarrow> nat \<Rightarrow> u8 list" where
  "medium_block s n = sector_bytes (hw s) (8 * n) 8"

text \<open>The driver and the block layer agree on the size of the disk, and the driver is not in use.\<close>

definition block_ready :: "'a block_scheme \<Rightarrow> bool" where
  "block_ready s \<longleftrightarrow> device_ready s \<and> \<not> ata_operation_busy s \<and> sound_medium (hw s) \<and>
     unat (device_block_count s) * 8 \<le> unat (device_sector_count s) \<and> unat (device_sector_count s) \<le> 268435456"

lemma block_ready_hw: "block_ready s \<Longrightarrow> sound_medium d \<Longrightarrow> block_ready (s\<lparr>hw := d\<rparr>)"
  by (simp add: block_ready_def)

lemma sector_request:
  assumes "block_ready s" and "unat n < unat (device_block_count s)"
  shows "ata_request_valid (n * 8) 8 s" "unat (n * 8) = 8 * unat n"
proof -
  have le: "8 * unat n + 8 \<le> unat (device_sector_count s)" "unat (device_sector_count s) \<le> 268435456" using assms by (simp_all add: block_ready_def)
  then show u: "unat (n * 8) = 8 * unat n" using unat_mult_lem [of n 8] by simp
  have "unat (device_sector_count s - 8) = unat (device_sector_count s) - 8"
    using le by (subst unat_sub) (simp_all add: word_le_nat_alt)
  moreover have "unat (0xFFFFFFF - n * 8) = 0xFFFFFFF - 8 * unat n"
    using le u by (subst unat_sub) (simp_all add: word_le_nat_alt)
  moreover have "8 * unat n \<le> unat (device_sector_count s) - 8" "7 \<le> 0xFFFFFFF - 8 * unat n" "unat (device_sector_count s) \<ge> 8"
    using le by linarith+
  ultimately show "ata_request_valid (n * 8) 8 s"
    using assms le(2) u by (simp add: ata_request_valid_def block_ready_def word_le_nat_alt)
qed

lemma sector_bytes_length: "sound_medium d \<Longrightarrow> length (sector_bytes d lba n) = 512 * n"
proof (induction n arbitrary: lba)
  case 0
  show ?case by (simp add: sector_bytes_def)
next
  case (Suc n)
  then show ?case by (simp add: sector_bytes_Suc) (simp add: sound_medium_def)
qed

lemma sector_bytes_overlay:
  assumes "length bs = 512 * k" and "sectors d = overlay lba k bs f"
  shows "sector_bytes d lba k = bs"
proof -
  have "sector_bytes d lba' j = take (512 * j) (drop (512 * (lba' - lba)) bs)" if "lba \<le> lba'" "lba' + j \<le> lba + k" for lba' j
    using that
  proof (induction j arbitrary: lba')
    case 0
    show ?case by (simp add: sector_bytes_def)
  next
    case (Suc j)
    let ?i = "lba' - lba"
    have i: "lba \<le> lba'" "lba' < lba + k" "512 * ?i + 512 \<le> length bs" using Suc.prems assms(1) by auto
    have "bytes_of (sectors d lba') = take 512 (drop (512 * ?i) bs)"
      using i by (simp add: assms(2) overlay_def bytes_of_words_of)
    moreover have "sector_bytes d (Suc lba') j = take (512 * j) (drop (512 * (Suc lba' - lba)) bs)"
      using Suc.prems by (intro Suc.IH) simp_all
    moreover have "drop (512 * (Suc lba' - lba)) bs = drop 512 (drop (512 * ?i) bs)" using i(1) by (simp add: Suc_diff_le add.commute)
    ultimately show ?case by (simp add: sector_bytes_Suc take_add)
  qed
  from this [of lba k] show ?thesis using assms(1) by simp
qed

lemma sector_bytes_other:
  assumes "only_sectors lba n d d'" and "lba' + j \<le> lba \<or> lba + n \<le> lba'"
  shows "sector_bytes d' lba' j = sector_bytes d lba' j"
proof -
  have "sectors d' (lba' + i) = sectors d (lba' + i)" if "i < j" for i
    using assms that by (auto simp: only_sectors_def)
  then show ?thesis by (auto simp: sector_bytes_def intro!: arg_cong [of _ _ concat])
qed

lemma medium_block_length: "block_ready s \<Longrightarrow> length (medium_block s n) = 4096"
  by (simp add: medium_block_def sector_bytes_length block_ready_def)

lemma block_valid_one:
  assumes "block_ready s"
  shows "block_request_valid n 1 s \<longleftrightarrow> unat n < unat (device_block_count s)"
proof (cases "device_block_count s = 0")
  case False
  then have "unat (device_block_count s - 1) = unat (device_block_count s) - 1" "0 < unat (device_block_count s)"
    by (simp_all add: unat_sub word_le_nat_alt unat_gt_0 Suc_leI)
  moreover have "(1 :: u32) \<le> 0xFFFFFFFF div 4096" by simp
  ultimately show ?thesis using False by (auto simp: block_request_valid_def word_le_nat_alt)
qed (simp add: block_request_valid_def)

lemma block_read_one:
  assumes ready: "block_ready s" and n: "unat n < unat (device_block_count s)"
  obtains r bs d where "block_read n 1 s = (r, bs, s\<lparr>hw := d\<rparr>)" "r = 0 \<or> r = - MINIOS_EIO" "same_device d (hw s)"
    "sectors d = sectors (hw s)" "length bs \<le> 4096" "r = 0 \<Longrightarrow> bs = medium_block s (unat n)" "reliable (hw s) \<Longrightarrow> r = 0 \<and> reliable d"
proof -
  have free: "\<not> ata_operation_busy s" "sound_medium (hw s)" using ready by (simp_all add: block_ready_def)
  note req = sector_request [OF ready n]
  obtain r bs d where rd: "ata_read_sectors (n * 8) 8 s = (r, bs, s\<lparr>hw := d\<rparr>)" "r = 0 \<or> r = - MINIOS_EIO" "same_device d (hw s)"
    "sectors d = sectors (hw s)" "length bs \<le> 512 * unat (8 :: u32)" "r = 0 \<Longrightarrow> bs = sector_bytes (hw s) (unat (n * 8)) (unat (8 :: u32))"
    "reliable (hw s) \<Longrightarrow> r = 0 \<and> reliable d"
    by (rule ata_read_sectors_sound [OF req(1) free(2,1)]) blast
  have "block_read n 1 s = block_read_loop 1 n s" using block_valid_one [OF ready] n by (simp add: block_read_def)
  also have "\<dots> = (r, bs, s\<lparr>hw := d\<rparr>)" using rd(1,2) by auto
  finally show ?thesis using rd(2-7) req(2) by (intro that [of r bs d]) (simp_all add: medium_block_def)
qed

lemma block_read_outside:
  "block_ready s \<Longrightarrow> \<not> unat n < unat (device_block_count s) \<Longrightarrow> block_read n 1 s = (- MINIOS_EINVAL, [], s)"
  by (simp add: block_read_def block_valid_one)

lemma block_write_one:
  assumes ready: "block_ready s" and n: "unat n < unat (device_block_count s)" and len: "length bs = 4096"
  obtains r d where "block_write n 1 bs s = (r, s\<lparr>hw := d\<rparr>)" "r = 0 \<or> r = - MINIOS_EIO" "same_device d (hw s)"
    "sound_medium d" "\<And>m. m \<noteq> unat n \<Longrightarrow> medium_block (s\<lparr>hw := d\<rparr>) m = medium_block s m"
    "r = 0 \<Longrightarrow> medium_block (s\<lparr>hw := d\<rparr>) (unat n) = bs \<and> volatile d = {}" "reliable (hw s) \<Longrightarrow> r = 0 \<and> reliable d"
proof -
  have free: "\<not> ata_operation_busy s" "sound_medium (hw s)" using ready by (simp_all add: block_ready_def)
  note req = sector_request [OF ready n]
  have len': "length bs = 512 * unat (8 :: u32)" using len by simp
  obtain r d where wr: "ata_write_sectors (n * 8) 8 bs s = (r, s\<lparr>hw := d\<rparr>)" "r = 0 \<or> r = - MINIOS_EIO"
    "only_sectors (unat (n * 8)) (unat (8 :: u32)) (hw s) d"
    "r = 0 \<Longrightarrow> sectors d = overlay (unat (n * 8)) (unat (8 :: u32)) bs (sectors (hw s))" "r = 0 \<Longrightarrow> volatile d = {}"
    "reliable (hw s) \<Longrightarrow> r = 0 \<and> reliable d"
    by (rule ata_write_sectors_sound [OF req(1) len' free(1)]) blast
  have "block_write n 1 bs s = block_write_loop 1 n bs s" using block_valid_one [OF ready] n by (simp add: block_write_def)
  also have "\<dots> = (r, s\<lparr>hw := d\<rparr>)" using wr(1,2) len by auto
  finally have eq: "block_write n 1 bs s = (r, s\<lparr>hw := d\<rparr>)" .
  have "sound_medium d" "same_device d (hw s)" using wr(3) free(2) by (simp_all add: only_sectors_def)
  moreover have "medium_block (s\<lparr>hw := d\<rparr>) m = medium_block s m" if "m \<noteq> unat n" for m
    using sector_bytes_other [OF wr(3), of "8 * m" 8] that req(2) by (simp add: medium_block_def) linarith
  moreover have "medium_block (s\<lparr>hw := d\<rparr>) (unat n) = bs \<and> volatile d = {}" if "r = 0"
    using sector_bytes_overlay [OF len' wr(4) [OF that]] wr(5) [OF that] req(2) by (simp add: medium_block_def)
  ultimately show ?thesis using eq wr(2,6) by (intro that [of r d])
qed

lemma medium_block_same_sectors: "sectors d = sectors (hw s) \<Longrightarrow> medium_block (s\<lparr>hw := d\<rparr>) = medium_block s"
  using sector_bytes_cong [of d "hw s"] by (simp add: medium_block_def fun_eq_iff)

lemma block_ready_same_sectors: "sectors d = sectors (hw s) \<Longrightarrow> block_ready (s\<lparr>hw := d\<rparr>) = block_ready s"
  by (simp add: block_ready_def sound_medium_def)

interpretation medium: block_store "\<lambda>n. block_read n 1" "\<lambda>n. block_write n 1" medium_block "\<lambda>s. unat (device_block_count s)" block_ready "\<lambda>s. reliable (hw s)"
proof
  fix s :: "'a block_scheme" and n :: u32 and bs :: "u8 list"
  assume ready: "block_ready s" and n: "unat n < unat (device_block_count s)"
  show "\<exists>r bs s'. block_read n 1 s = (r, bs, s') \<and> block_ready s' \<and> unat (device_block_count s') = unat (device_block_count s) \<and>
      medium_block s' = medium_block s \<and> (r = 0 \<longrightarrow> bs = medium_block s (unat n)) \<and> (reliable (hw s) \<longrightarrow> r = 0 \<and> reliable (hw s'))"
  proof (rule block_read_one [OF ready n])
    fix r bs d
    assume "block_read n 1 s = (r, bs, s\<lparr>hw := d\<rparr>)" "sectors d = sectors (hw s)" "r = 0 \<Longrightarrow> bs = medium_block s (unat n)"
      "reliable (hw s) \<Longrightarrow> r = 0 \<and> reliable d"
    then show ?thesis
      using ready by (intro exI [of _ r] exI [of _ bs] exI [of _ "s\<lparr>hw := d\<rparr>"])
        (simp add: medium_block_same_sectors block_ready_same_sectors)
  qed
  assume len: "length bs = 4096"
  show "\<exists>r s'. block_write n 1 bs s = (r, s') \<and> block_ready s' \<and> unat (device_block_count s') = unat (device_block_count s) \<and>
      (\<forall>m. m \<noteq> unat n \<longrightarrow> medium_block s' m = medium_block s m) \<and> (r = 0 \<longrightarrow> medium_block s' (unat n) = bs) \<and>
      (reliable (hw s) \<longrightarrow> r = 0 \<and> reliable (hw s'))"
  proof (rule block_write_one [OF ready n len])
    fix r d
    assume "block_write n 1 bs s = (r, s\<lparr>hw := d\<rparr>)" "sound_medium d" "\<And>m. m \<noteq> unat n \<Longrightarrow> medium_block (s\<lparr>hw := d\<rparr>) m = medium_block s m"
      "r = 0 \<Longrightarrow> medium_block (s\<lparr>hw := d\<rparr>) (unat n) = bs \<and> volatile d = {}" "reliable (hw s) \<Longrightarrow> r = 0 \<and> reliable d"
    then show ?thesis
      using block_ready_hw [OF ready] by (intro exI [of _ r] exI [of _ "s\<lparr>hw := d\<rparr>"]) simp
  qed
qed

lemma block_write_flushed:
  assumes "block_ready s" and "unat n < unat (device_block_count s)" and "length bs = 4096" and "block_write n 1 bs s = (0, s')"
  shows "volatile (hw s') = {}"
  by (rule block_write_one [OF assms(1-3)]) (use assms(4) in auto)

subsection \<open>Properties\<close>

text \<open>
  C21: whatever the device does, be it slow, in error or gone, a valid read request ends with the driver free again and the
  interrupt flag, the driver's variables and the medium unchanged. It reports success only with exactly
  the bytes of the requested sectors, and it does succeed when the device works. A request while the
  driver is in use is turned away and changes nothing.
\<close>

theorem ata_read_sectors_correct:
  assumes "ata_request_valid lba count s" and "sound_medium (hw s)"
  shows "\<exists>r bs s'. ata_read_sectors lba count s = (r, bs, s') \<and>
    (if ata_operation_busy s then r = - MINIOS_EAGAIN \<and> s' = s
     else s' = s\<lparr>hw := hw s'\<rparr> \<and> sectors (hw s') = sectors (hw s) \<and> length bs \<le> 512 * unat count \<and>
       (r = 0 \<and> bs = sector_bytes (hw s) (unat lba) (unat count) \<or> r = - MINIOS_EIO) \<and>
       (reliable (hw s) \<longrightarrow> r = 0))"
proof (cases "ata_operation_busy s")
  case True
  then show ?thesis using assms(1) by (simp add: ata_read_sectors_def ata_acquire_busy)
next
  case False
  show ?thesis
    by (rule ata_read_sectors_sound [OF assms False]) (use False in auto)
qed

text \<open>
  C22: a block that was written with success reads back as the bytes written, and every other
  block reads back as before; with a working device the write and the read do succeed. A write is reported as
  successful only once nothing that was written is in the cache of the device alone.
\<close>

theorem block_write_read_roundtrip:
  assumes "block_ready s" and "unat n < unat (device_block_count s)" and "length bs = 4096"
  shows "(\<forall>s' m xs s''. block_write n 1 bs s = (0, s') \<longrightarrow> unat m < unat (device_block_count s) \<longrightarrow> block_read m 1 s' = (0, xs, s'') \<longrightarrow>
      xs = (if m = n then bs else medium_block s (unat m))) \<and>
    (\<forall>s'. block_write n 1 bs s = (0, s') \<longrightarrow> volatile (hw s') = {}) \<and>
    (reliable (hw s) \<longrightarrow> (\<exists>s' s''. block_write n 1 bs s = (0, s') \<and> block_read n 1 s' = (0, bs, s'')))"
  using medium.write_read [OF assms] medium.write_read_sane [OF assms(1) _ assms(2,3)] block_write_flushed [OF assms] by blast

subsection \<open>A small disk\<close>

definition sample_hw :: ata_hw where
  "sample_hw = \<lparr>attached = True, identify_data = (\<lambda>i. if i = 49 then 0x200 else if i = 60 then 64 else 0),
     sectors = (\<lambda>_. replicate 256 0), volatile = {}, reg_drive = 0, reg_count = 0, reg_lba_low = 0, reg_lba_mid = 0, reg_lba_high = 0,
     phase = Idle, polls = 0, fault = False, events = 0, behaviour = (\<lambda>_. (3, False)), noise = (\<lambda>_ _. 0xFFFF)\<rparr>"

definition sample_block :: block where
  "sample_block = \<lparr>cpu = sample_machine, hw = sample_hw, device_sector_count = 64, device_ready = True,
     ata_operation_busy = False, device_block_count = 8\<rparr>"

lemma sample_hw_ok: "reliable sample_hw" "sound_medium sample_hw" "block_ready sample_block"
  by (simp_all add: reliable_def sound_medium_def sample_hw_def block_ready_def sample_block_def)

lemma sample_block_simps [simp]:
  "hw sample_block = sample_hw" "device_block_count sample_block = 8" "\<not> ata_operation_busy sample_block"
  by (simp_all add: sample_block_def)

theorem ata_read_sectors_correct_witness:
  "\<exists>bs s'. ata_read_sectors 16 8 sample_block = (0, bs, s') \<and> bs = sector_bytes sample_hw 16 8"
proof -
  have v: "ata_request_valid 16 8 sample_block" by (simp add: ata_request_valid_def sample_block_def)
  show ?thesis using ata_read_sectors_correct [OF v] sample_hw_ok by auto
qed

theorem block_write_read_roundtrip_witness:
  "\<exists>s' s''. block_write 3 1 (replicate 4096 7) sample_block = (0, s') \<and> block_read 3 1 s' = (0, replicate 4096 7, s'')"
  using block_write_read_roundtrip [of sample_block 3 "replicate 4096 7"] sample_hw_ok by simp

end
