(* ===== verification/Minifs.thy ===== *)
theory Minifs
  imports Minifs_Codec Block
begin

text \<open>
  MiniFS (\<open>kernel/fs/minifs.c\<close>) over the block layer. The state is the block layer's state with the
  static variables of the file: the mounted superblock, the three block buffers, which every
  operation shares, and the two flags. \<open>volume_start_block\<close> and \<open>volume_block_count\<close> are the constants
  of the header \<open>minifs-layout.h\<close> that the build generates; no operation writes them.

  A function that returns a negative errno or fills in a result returns a sum: \<^const>\<open>Inl\<close> is the
  errno, \<^const>\<open>Inr\<close> the results of a call that returned 0. A path is the list of the bytes of the C string
  before its terminator.
\<close>

type_synonym 'a result = "int + 'a"

record minifs = block +
  volume_start_block :: u32
  volume_block_count :: u32
  mounted_superblock :: minifs_superblock
  io_block :: "u8 list"
  auxiliary_block :: "u8 list"
  compare_buffer :: "u8 list"
  mounted :: bool
  operation_busy :: bool

definition minifs_acquire :: "'a minifs_scheme \<Rightarrow> u32 option \<times> 'a minifs_scheme" where
  "minifs_acquire s =
     (case irq_save_disable (cpu s) of (flags, m) \<Rightarrow>
        if operation_busy s then (None, s\<lparr>cpu := irq_restore flags m\<rparr>)
        else (Some flags, s\<lparr>cpu := m, operation_busy := True\<rparr>))"

definition minifs_release :: "u32 \<Rightarrow> 'a minifs_scheme \<Rightarrow> 'a minifs_scheme" where
  "minifs_release irq_flags s = s\<lparr>operation_busy := False, cpu := irq_restore irq_flags (cpu s)\<rparr>"

definition empty_superblock :: minifs_superblock where
  "empty_superblock = \<lparr>total_blocks = 0, total_inodes = 0, block_bitmap_start = 0, block_bitmap_blocks = 0,
     inode_bitmap_start = 0, inode_bitmap_blocks = 0, inode_table_start = 0, inode_table_blocks = 0, data_start = 0, root_inode = 0\<rparr>"

definition clear_superblock :: "'a minifs_scheme \<Rightarrow> 'a minifs_scheme" where
  "clear_superblock s = s\<lparr>mounted_superblock := empty_superblock\<rparr>"

subsection \<open>Blocks of the volume\<close>

definition read_volume_block_into :: "u32 \<Rightarrow> u8 list \<Rightarrow> 'a minifs_scheme \<Rightarrow> int \<times> u8 list \<times> 'a minifs_scheme" where
  "read_volume_block_into relative_block buffer s =
     (if relative_block \<ge> total_blocks (mounted_superblock s) \<or> relative_block \<ge> volume_block_count s then (- MINIOS_EIO, buffer, s)
      else case block_read (volume_start_block s + relative_block) 1 s of (r, bs, s) \<Rightarrow> (r, fill_buffer bs buffer, s))"

definition read_volume_block :: "u32 \<Rightarrow> 'a minifs_scheme \<Rightarrow> int \<times> 'a minifs_scheme" where
  "read_volume_block relative_block s =
     (case read_volume_block_into relative_block (io_block s) s of (r, buffer, s) \<Rightarrow> (r, s\<lparr>io_block := buffer\<rparr>))"

definition write_volume_block_from :: "u32 \<Rightarrow> u8 list \<Rightarrow> 'a minifs_scheme \<Rightarrow> int \<times> 'a minifs_scheme" where
  "write_volume_block_from relative_block buffer s =
     (if relative_block \<ge> total_blocks (mounted_superblock s) \<or> relative_block \<ge> volume_block_count s then (- MINIOS_EIO, s)
      else block_write (volume_start_block s + relative_block) 1 buffer s)"

subsection \<open>Bitmaps\<close>

definition bitmap_bit_set :: "u32 \<Rightarrow> u32 \<Rightarrow> u32 \<Rightarrow> 'a minifs_scheme \<Rightarrow> bool \<times> 'a minifs_scheme" where
  "bitmap_bit_set start_block block_count_value bit_number s =
     (let bitmap_block = bit_number div MINIFS_BITMAP_BITS_PER_BLOCK; within_block = bit_number mod MINIFS_BITMAP_BITS_PER_BLOCK
      in if bitmap_block \<ge> block_count_value then (False, s)
         else case read_volume_block (start_block + bitmap_block) s of (r, s) \<Rightarrow>
           if r \<noteq> 0 then (False, s)
           else (io_block s ! unat (within_block div 8) AND push_bit (unat (within_block mod 8)) 1 \<noteq> 0, s))"

definition bitmap_update :: "u32 \<Rightarrow> u32 \<Rightarrow> u32 \<Rightarrow> bool \<Rightarrow> 'a minifs_scheme \<Rightarrow> int \<times> 'a minifs_scheme" where
  "bitmap_update start_block block_count_value bit_number value s =
     (let bitmap_block = bit_number div MINIFS_BITMAP_BITS_PER_BLOCK; within_block = bit_number mod MINIFS_BITMAP_BITS_PER_BLOCK;
          bit_mask = push_bit (unat (within_block mod 8)) 1; i = unat (within_block div 8)
      in if bitmap_block \<ge> block_count_value then (- MINIOS_EIO, s)
         else case read_volume_block (start_block + bitmap_block) s of (r, s) \<Rightarrow>
           if r \<noteq> 0 then (- MINIOS_EIO, s)
           else let s = s\<lparr>io_block := (io_block s)[i := (if value then io_block s ! i OR bit_mask else io_block s ! i AND NOT bit_mask)]\<rparr>
                in write_volume_block_from (start_block + bitmap_block) (io_block s) s)"

text \<open>The search loop of \<open>allocate_bitmap_bit\<close>, by the number of bits that remain.\<close>

fun allocate_bitmap_loop :: "nat \<Rightarrow> u32 \<Rightarrow> u32 \<Rightarrow> u32 \<Rightarrow> u32 \<Rightarrow> 'a minifs_scheme \<Rightarrow> u32 result \<times> 'a minifs_scheme" where
  "allocate_bitmap_loop 0 start_block block_count_value bit_number loaded_block s = (Inl (- MINIOS_ENOSPC), s)"
| "allocate_bitmap_loop (Suc n) start_block block_count_value bit_number loaded_block s =
     (let bitmap_block = bit_number div MINIFS_BITMAP_BITS_PER_BLOCK; within_block = bit_number mod MINIFS_BITMAP_BITS_PER_BLOCK;
          bit_mask = push_bit (unat (within_block mod 8)) 1; i = unat (within_block div 8)
      in if bitmap_block \<ge> block_count_value then (Inl (- MINIOS_EIO), s)
         else case (if bitmap_block \<noteq> loaded_block then read_volume_block (start_block + bitmap_block) s else (0, s)) of (r, s) \<Rightarrow>
           if r \<noteq> 0 then (Inl (- MINIOS_EIO), s)
           else if io_block s ! i AND bit_mask = 0
           then let s = s\<lparr>io_block := (io_block s)[i := io_block s ! i OR bit_mask]\<rparr>
                in case write_volume_block_from (start_block + bitmap_block) (io_block s) s of (r, s) \<Rightarrow>
                     if r \<noteq> 0 then (Inl (- MINIOS_EIO), s) else (Inr bit_number, s)
           else allocate_bitmap_loop n start_block block_count_value (bit_number + 1) bitmap_block s)"

definition allocate_bitmap_bit :: "u32 \<Rightarrow> u32 \<Rightarrow> u32 \<Rightarrow> u32 \<Rightarrow> 'a minifs_scheme \<Rightarrow> u32 result \<times> 'a minifs_scheme" where
  "allocate_bitmap_bit start_block block_count_value first limit s =
     (if first \<ge> limit then (Inl (- MINIOS_EINVAL), s)
      else allocate_bitmap_loop (unat limit - unat first) start_block block_count_value first 0xFFFFFFFF s)"

subsection \<open>Inodes\<close>

definition read_inode_internal :: "u32 \<Rightarrow> 'a minifs_scheme \<Rightarrow> minifs_inode result \<times> 'a minifs_scheme" where
  "read_inode_internal number s =
     (let sb = mounted_superblock s
      in if number \<ge> total_inodes sb then (Inl (- MINIOS_EINVAL), s)
         else case bitmap_bit_set (inode_bitmap_start sb) (inode_bitmap_blocks sb) number s of (used, s) \<Rightarrow>
           if \<not> used then (Inl (- MINIOS_EIO), s)
           else let table_block = number div MINIFS_INODES_PER_BLOCK; inode_index = number mod MINIFS_INODES_PER_BLOCK
                in if table_block \<ge> inode_table_blocks sb then (Inl (- MINIOS_EIO), s)
                   else case read_volume_block (inode_table_start sb + table_block) s of (r, s) \<Rightarrow>
                     if r \<noteq> 0 then (Inl (- MINIOS_EIO), s)
                     else case decode_inode (io_block s) (unat inode_index * 64) of
                            None \<Rightarrow> (Inl (- MINIOS_EIO), s)
                          | Some inode \<Rightarrow> (if inode_pointer_shape_valid inode then Inr inode else Inl (- MINIOS_EIO), s))"

definition write_inode_internal :: "u32 \<Rightarrow> minifs_inode \<Rightarrow> 'a minifs_scheme \<Rightarrow> int \<times> 'a minifs_scheme" where
  "write_inode_internal number inode s =
     (let sb = mounted_superblock s
      in if number \<ge> total_inodes sb \<or> \<not> inode_pointer_shape_valid inode then (- MINIOS_EINVAL, s)
         else let table_block = number div MINIFS_INODES_PER_BLOCK; inode_index = number mod MINIFS_INODES_PER_BLOCK
              in if table_block \<ge> inode_table_blocks sb then (- MINIOS_EIO, s)
                 else case read_volume_block (inode_table_start sb + table_block) s of (r, s) \<Rightarrow>
                   if r \<noteq> 0 then (- MINIOS_EIO, s)
                   else let s = s\<lparr>io_block := encode_inode inode (unat inode_index * 64) (io_block s)\<rparr>
                        in write_volume_block_from (inode_table_start sb + table_block) (io_block s) s)"

definition allocate_inode :: "'a minifs_scheme \<Rightarrow> u32 result \<times> 'a minifs_scheme" where
  "allocate_inode s =
     (let sb = mounted_superblock s
      in allocate_bitmap_bit (inode_bitmap_start sb) (inode_bitmap_blocks sb) 1 (total_inodes sb) s)"

definition free_inode :: "u32 \<Rightarrow> 'a minifs_scheme \<Rightarrow> int \<times> 'a minifs_scheme" where
  "free_inode inode_number s =
     (let sb = mounted_superblock s
      in if inode_number = root_inode sb \<or> inode_number \<ge> total_inodes sb then (- MINIOS_EINVAL, s)
         else bitmap_update (inode_bitmap_start sb) (inode_bitmap_blocks sb) inode_number False s)"

definition clear_inode_record :: "u32 \<Rightarrow> 'a minifs_scheme \<Rightarrow> int \<times> 'a minifs_scheme" where
  "clear_inode_record inode_number s =
     (let sb = mounted_superblock s
      in if inode_number = root_inode sb \<or> inode_number \<ge> total_inodes sb then (- MINIOS_EINVAL, s)
         else let table_block = inode_number div MINIFS_INODES_PER_BLOCK; inode_index = inode_number mod MINIFS_INODES_PER_BLOCK
              in if table_block \<ge> inode_table_blocks sb then (- MINIOS_EIO, s)
                 else case read_volume_block (inode_table_start sb + table_block) s of (r, s) \<Rightarrow>
                   if r \<noteq> 0 then (- MINIOS_EIO, s)
                   else let s = s\<lparr>io_block := clear_bytes (unat inode_index * 64) 64 (io_block s)\<rparr>
                        in write_volume_block_from (inode_table_start sb + table_block) (io_block s) s)"

subsection \<open>Data blocks\<close>

definition data_block_valid :: "u32 \<Rightarrow> 'a minifs_scheme \<Rightarrow> bool" where
  "data_block_valid block s \<longleftrightarrow> block \<ge> data_start (mounted_superblock s) \<and> block < total_blocks (mounted_superblock s)"

definition data_block_allocated :: "u32 \<Rightarrow> 'a minifs_scheme \<Rightarrow> bool \<times> 'a minifs_scheme" where
  "data_block_allocated block s =
     (if \<not> data_block_valid block s then (False, s)
      else bitmap_bit_set (block_bitmap_start (mounted_superblock s)) (block_bitmap_blocks (mounted_superblock s)) block s)"

definition allocate_block :: "'a minifs_scheme \<Rightarrow> u32 result \<times> 'a minifs_scheme" where
  "allocate_block s =
     (let sb = mounted_superblock s
      in case allocate_bitmap_bit (block_bitmap_start sb) (block_bitmap_blocks sb) (data_start sb) (total_blocks sb) s of
           (Inl e, s) \<Rightarrow> (Inl e, s)
         | (Inr block, s) \<Rightarrow>
             let s = s\<lparr>auxiliary_block := clear_bytes 0 4096 (auxiliary_block s)\<rparr>
             in case write_volume_block_from block (auxiliary_block s) s of (r, s) \<Rightarrow>
                  if r \<noteq> 0
                  then (Inl (- MINIOS_EIO), snd (bitmap_update (block_bitmap_start sb) (block_bitmap_blocks sb) block False s))
                  else (Inr block, s))"

definition free_block :: "u32 \<Rightarrow> 'a minifs_scheme \<Rightarrow> int \<times> 'a minifs_scheme" where
  "free_block block s =
     (if \<not> data_block_valid block s then (- MINIOS_EINVAL, s)
      else bitmap_update (block_bitmap_start (mounted_superblock s)) (block_bitmap_blocks (mounted_superblock s)) block False s)"

definition inode_block_at :: "minifs_inode \<Rightarrow> u32 \<Rightarrow> 'a minifs_scheme \<Rightarrow> u32 result \<times> 'a minifs_scheme" where
  "inode_block_at inode file_block s =
     (let required_blocks = divide_round_up (i_size inode) MINIFS_BLOCK_SIZE;
          check = (\<lambda>block s. case data_block_allocated block s of (ok, s) \<Rightarrow> (if ok then Inr block else Inl (- MINIOS_EIO), s))
      in if file_block \<ge> required_blocks then (Inl (- MINIOS_EINVAL), s)
         else if file_block < MINIFS_DIRECT_COUNT then check (i_direct inode ! unat file_block) s
         else let indirect_index = file_block - MINIFS_DIRECT_COUNT
              in case data_block_allocated (i_indirect inode) s of (ok, s) \<Rightarrow>
                   if \<not> ok \<or> indirect_index \<ge> MINIFS_INDIRECT_COUNT then (Inl (- MINIOS_EIO), s)
                   else case read_volume_block (i_indirect inode) s of (r, s) \<Rightarrow>
                     if r \<noteq> 0 then (Inl (- MINIOS_EIO), s)
                     else check (read_le32 (io_block s) (unat indirect_index * 4)) s)"

subsection \<open>Directories\<close>

text \<open>
  The entry loop over the block in \<open>io_block\<close>, from entry \<open>index\<close> with \<open>n\<close> entries left; \<^const>\<open>None\<close> when
  it runs to the end. The entry is read through pointers into \<open>io_block\<close>; the name is copied before
  \<open>read_inode_internal\<close> overwrites that buffer.
\<close>

fun find_in_block :: "nat \<Rightarrow> nat \<Rightarrow> u32 \<Rightarrow> u8 list \<Rightarrow> 'a minifs_scheme \<Rightarrow> minifs_directory_record result option \<times> 'a minifs_scheme" where
  "find_in_block 0 index file_block component s = (None, s)"
| "find_in_block (Suc n) index file_block component s =
     (let entry = index * 64;
          child = read_le32 (io_block s) entry;
          entry_type = io_block s ! (entry + 4)
      in if entry_type = MINIFS_ENTRY_UNUSED
         then if \<not> directory_entry_unused (io_block s) entry then (Some (Inl (- MINIOS_EIO)), s)
              else find_in_block n (Suc index) file_block component s
         else if (entry_type \<noteq> MINIFS_ENTRY_REGULAR \<and> entry_type \<noteq> MINIFS_ENTRY_DIRECTORY) \<or>
                 child \<ge> total_inodes (mounted_superblock s) \<or> \<not> directory_name_valid (io_block s) (entry + 5)
         then (Some (Inl (- MINIOS_EIO)), s)
         else if directory_name_equal (io_block s) (entry + 5) component
         then let name = take 59 (drop (entry + 5) (io_block s))
              in case read_inode_internal child s of
                   (Inl e, s) \<Rightarrow> (Some (Inl (- MINIOS_EIO)), s)
                 | (Inr child_inode, s) \<Rightarrow>
                     if entry_type = MINIFS_ENTRY_DIRECTORY \<and> i_mode child_inode \<noteq> MINIFS_MODE_DIRECTORY \<or>
                        entry_type = MINIFS_ENTRY_REGULAR \<and> i_mode child_inode \<noteq> MINIFS_MODE_REGULAR
                     then (Some (Inl (- MINIOS_EIO)), s)
                     else (Some (Inr \<lparr>rec_inode = child,
                             rec_offset = file_block * MINIFS_BLOCK_SIZE + of_nat index * MINIFS_DIRECTORY_ENTRY_SIZE,
                             rec_type = entry_type, rec_name = name\<rparr>), s)
         else find_in_block n (Suc index) file_block component s)"

function find_in_blocks :: "nat \<Rightarrow> u32 \<Rightarrow> minifs_inode \<Rightarrow> u8 list \<Rightarrow> 'a minifs_scheme \<Rightarrow> minifs_directory_record result \<times> 'a minifs_scheme" where
  "find_in_blocks remaining_entries file_block directory component s =
     (if remaining_entries = 0 then (Inl (- MINIOS_ENOENT), s)
      else case inode_block_at directory file_block s of
        (Inl e, s) \<Rightarrow> (Inl (- MINIOS_EIO), s)
      | (Inr disk_block, s) \<Rightarrow>
          case read_volume_block disk_block s of (r, s) \<Rightarrow>
            if r \<noteq> 0 then (Inl (- MINIOS_EIO), s)
            else let entries = (if remaining_entries > 64 then 64 else remaining_entries)
                 in case find_in_block entries 0 file_block component s of
                      (Some result, s) \<Rightarrow> (result, s)
                    | (None, s) \<Rightarrow> find_in_blocks (remaining_entries - entries) (file_block + 1) directory component s)"
  by pat_completeness auto
termination by (relation "measure (\<lambda>(n, _). n)") (auto split: if_splits)

declare find_in_blocks.simps [simp del]

definition directory_find_internal :: "minifs_inode \<Rightarrow> u8 list \<Rightarrow> 'a minifs_scheme \<Rightarrow> minifs_directory_record result \<times> 'a minifs_scheme" where
  "directory_find_internal directory component s =
     (if i_mode directory \<noteq> MINIFS_MODE_DIRECTORY \<or> length component = 0 \<or> length component > MINIFS_NAME_MAX
      then (Inl (- MINIOS_EINVAL), s)
      else find_in_blocks (unat (i_size directory div MINIFS_DIRECTORY_ENTRY_SIZE)) 0 directory component s)"

definition directory_find :: "minifs_inode \<Rightarrow> u8 list \<Rightarrow> 'a minifs_scheme \<Rightarrow> u32 result \<times> 'a minifs_scheme" where
  "directory_find directory component s =
     (case directory_find_internal directory component s of
        (Inl e, s) \<Rightarrow> (Inl e, s)
      | (Inr record, s) \<Rightarrow> (Inr (rec_inode record), s))"

subsection \<open>Paths\<close>

definition char_at :: "u8 list \<Rightarrow> nat \<Rightarrow> u8" where
  "char_at path i = (if i < length path then path ! i else 0)"

definition bounded_path_length :: "u8 list \<Rightarrow> nat result" where
  "bounded_path_length path =
     (if char_at path 0 \<noteq> 0x2F then Inl (- MINIOS_EINVAL)
      else case for_find 0 MINIFS_PATH_MAX (\<lambda>index. char_at path index = 0) of
        None \<Rightarrow> Inl (- MINIOS_EINVAL)
      | Some index \<Rightarrow> if index = 0 then Inl (- MINIOS_EINVAL) else Inr index)"

text \<open>The inner loops of the path walk: over slashes, and over one component, which may only hold ASCII.\<close>

function skip_slashes :: "u8 list \<Rightarrow> nat \<Rightarrow> nat \<Rightarrow> nat" where
  "skip_slashes path n i = (if i < n \<and> char_at path i = 0x2F then skip_slashes path n (Suc i) else i)"
  by pat_completeness auto
termination by (relation "measure (\<lambda>(path, n, i). n - i)") auto

function skip_component :: "u8 list \<Rightarrow> nat \<Rightarrow> nat \<Rightarrow> nat option" where
  "skip_component path n i =
     (if i < n \<and> char_at path i \<noteq> 0x2F
      then if char_at path i > 0x7F then None else skip_component path n (Suc i)
      else Some i)"
  by pat_completeness auto
termination by (relation "measure (\<lambda>(path, n, i). n - i)") auto

declare skip_slashes.simps [simp del] skip_component.simps [simp del]

lemma skip_slashes_ge: "i \<le> skip_slashes path n i"
proof (induction path n i rule: skip_slashes.induct)
  case (1 path n i)
  then show ?case by (subst skip_slashes.simps) (auto dest: Suc_leD)
qed

lemma skip_slashes_le: "i \<le> n \<Longrightarrow> skip_slashes path n i \<le> n"
proof (induction path n i rule: skip_slashes.induct)
  case (1 path n i)
  then show ?case by (subst skip_slashes.simps) auto
qed

lemma skip_slashes_stop: "skip_slashes path n i < n \<Longrightarrow> char_at path (skip_slashes path n i) \<noteq> 0x2F"
proof (induction path n i rule: skip_slashes.induct)
  case (1 path n i)
  show ?case
  proof (cases "i < n \<and> char_at path i = 0x2F")
    case True
    then have "skip_slashes path n i = skip_slashes path n (Suc i)" by (simp add: skip_slashes.simps [of path n i])
    then show ?thesis using 1 True by simp
  next
    case False
    then have "skip_slashes path n i = i" by (auto simp: skip_slashes.simps [of path n i])
    then show ?thesis using 1 False by auto
  qed
qed

lemma skip_component_ge: "skip_component path n i = Some j \<Longrightarrow> i \<le> j \<and> (i \<le> n \<longrightarrow> j \<le> n)"
proof (induction path n i rule: skip_component.induct)
  case (1 path n i)
  show ?case
  proof (cases "i < n \<and> char_at path i \<noteq> 0x2F \<and> \<not> char_at path i > 0x7F")
    case True
    then have "skip_component path n (Suc i) = Some j" using "1.prems" by (simp add: skip_component.simps [of path n i])
    then have "Suc i \<le> j \<and> (Suc i \<le> n \<longrightarrow> j \<le> n)" using "1.IH" True by simp
    then show ?thesis using True by auto
  next
    case False
    then show ?thesis using "1.prems" by (auto simp: skip_component.simps [of path n i] split: if_splits)
  qed
qed

lemma skip_component_gt: "skip_component path n i = Some j \<Longrightarrow> i < n \<Longrightarrow> char_at path i \<noteq> 0x2F \<Longrightarrow> i < j"
  using skip_component_ge [of path n "Suc i" j] by (subst (asm) skip_component.simps) (auto split: if_splits)

lemma path_step:
  assumes "skip_component path n (skip_slashes path n index) = Some stop" and "index < n" and "\<not> n \<le> skip_slashes path n index"
  shows "n - stop < n - index"
proof -
  have "skip_slashes path n index < stop" using assms(3) skip_slashes_stop [of path n index] by (intro skip_component_gt [OF assms(1)]) simp_all
  then show ?thesis using skip_slashes_ge [of index path n] assms(2) by linarith
qed

text \<open>The walk of \<open>lookup_locked\<close> from position \<open>index\<close> and inode \<open>current\<close> to the inode of the path.\<close>

function lookup_walk :: "u8 list \<Rightarrow> nat \<Rightarrow> nat \<Rightarrow> u32 \<Rightarrow> 'a minifs_scheme \<Rightarrow> u32 result \<times> 'a minifs_scheme" where
  "lookup_walk path n index current s =
     (if \<not> index < n then (Inr current, s)
      else let start = skip_slashes path n index
           in if start \<ge> n then (Inr current, s)
              else case skip_component path n start of
                None \<Rightarrow> (Inl (- MINIOS_EINVAL), s)
              | Some stop \<Rightarrow>
                  if stop - start = 0 \<or> stop - start > MINIFS_NAME_MAX then (Inl (- MINIOS_EINVAL), s)
                  else case read_inode_internal current s of
                    (Inl e, s) \<Rightarrow> (Inl e, s)
                  | (Inr directory, s) \<Rightarrow>
                      if i_mode directory \<noteq> MINIFS_MODE_DIRECTORY then (Inl (- MINIOS_ENOTDIR), s)
                      else if stop - start = 1 \<and> char_at path start = 0x2E then lookup_walk path n stop current s
                      else case directory_find directory (take (stop - start) (drop start path)) s of
                        (Inl e, s) \<Rightarrow> (Inl e, s)
                      | (Inr child, s) \<Rightarrow> lookup_walk path n stop child s)"
  by pat_completeness auto
termination by (relation "measure (\<lambda>(path, n, i, _). n - i)") (auto dest: path_step)

declare lookup_walk.simps [simp del]

definition inode_stat :: "u32 \<Rightarrow> minifs_inode \<Rightarrow> minifs_stat" where
  "inode_stat number inode = \<lparr>st_inode = number, st_mode = i_mode inode, st_link_count = i_link_count inode, st_size = i_size inode\<rparr>"

definition lookup_locked :: "u8 list \<Rightarrow> 'a minifs_scheme \<Rightarrow> minifs_stat result \<times> 'a minifs_scheme" where
  "lookup_locked path s =
     (case bounded_path_length path of
        Inl e \<Rightarrow> (Inl e, s)
      | Inr path_length \<Rightarrow>
          let trailing_slash = (path_length > 1 \<and> char_at path (path_length - 1) = 0x2F)
          in case lookup_walk path path_length 1 (root_inode (mounted_superblock s)) s of
               (Inl e, s) \<Rightarrow> (Inl e, s)
             | (Inr current, s) \<Rightarrow>
                 case read_inode_internal current s of
                   (Inl e, s) \<Rightarrow> (Inl e, s)
                 | (Inr inode, s) \<Rightarrow>
                     if trailing_slash \<and> i_mode inode \<noteq> MINIFS_MODE_DIRECTORY then (Inl (- MINIOS_ENOTDIR), s)
                     else (Inr (inode_stat current inode), s))"

text \<open>The walk of \<open>resolve_parent_locked\<close>: the number and the inode of the parent, and the last component.\<close>

function parent_walk :: "u8 list \<Rightarrow> nat \<Rightarrow> nat \<Rightarrow> u32 \<Rightarrow> 'a minifs_scheme \<Rightarrow> (u32 \<times> minifs_inode \<times> u8 list) result \<times> 'a minifs_scheme" where
  "parent_walk path n index current s =
     (if \<not> index < n then (Inl (- MINIOS_EINVAL), s)
      else let start = skip_slashes path n index
           in if start \<ge> n then (Inl (- MINIOS_EINVAL), s)
              else case skip_component path n start of
                None \<Rightarrow> (Inl (- MINIOS_EINVAL), s)
              | Some stop \<Rightarrow>
                  if stop - start = 0 \<or> stop - start > MINIFS_NAME_MAX then (Inl (- MINIOS_EINVAL), s)
                  else let follow = skip_slashes path n stop
                       in case read_inode_internal current s of
                            (Inl e, s) \<Rightarrow> (Inl e, s)
                          | (Inr directory, s) \<Rightarrow>
                              if i_mode directory \<noteq> MINIFS_MODE_DIRECTORY then (Inl (- MINIOS_ENOTDIR), s)
                              else if follow \<ge> n
                              then if stop - start = 1 \<and> char_at path start = 0x2E \<or>
                                      stop - start = 2 \<and> char_at path start = 0x2E \<and> char_at path (start + 1) = 0x2E
                                   then (Inl (- MINIOS_EINVAL), s)
                                   else (Inr (current, directory, take (stop - start) (drop start path)), s)
                              else if \<not> (stop - start = 1 \<and> char_at path start = 0x2E)
                              then case directory_find directory (take (stop - start) (drop start path)) s of
                                     (Inl e, s) \<Rightarrow> (Inl e, s)
                                   | (Inr child, s) \<Rightarrow> parent_walk path n follow child s
                              else parent_walk path n follow current s)"
  by pat_completeness auto
termination
proof (relation "measure (\<lambda>(path, n, i, _). n - i)", goal_cases)
  case (2 path n index current s start stop follow)
  then show ?case using path_step [of path n index stop] skip_slashes_ge [of stop path n] by auto
next
  case (3 path n index current s start stop follow)
  then show ?case using path_step [of path n index stop] skip_slashes_ge [of stop path n] by auto
qed auto

declare parent_walk.simps [simp del]

definition resolve_parent_locked :: "u8 list \<Rightarrow> 'a minifs_scheme \<Rightarrow> (u32 \<times> minifs_inode \<times> u8 list) result \<times> 'a minifs_scheme" where
  "resolve_parent_locked path s =
     (case bounded_path_length path of
        Inl e \<Rightarrow> (Inl e, s)
      | Inr path_length \<Rightarrow>
          if path_length \<le> 1 \<or> char_at path (path_length - 1) = 0x2F then (Inl (- MINIOS_EINVAL), s)
          else parent_walk path path_length 1 (root_inode (mounted_superblock s)) s)"

subsection \<open>Writing file blocks\<close>

text \<open>
  \<open>write_chunk_locked\<close> updates the inode its caller holds, also where it fails and undoes that, so the
  inode is returned. Its first branch writes into a block the file has; the second appends a block and,
  where the file needs one, an indirect block.
\<close>

definition write_chunk_existing :: "u32 \<Rightarrow> minifs_inode \<Rightarrow> u32 \<Rightarrow> u8 list \<Rightarrow> 'a minifs_scheme \<Rightarrow> int \<times> minifs_inode \<times> 'a minifs_scheme" where
  "write_chunk_existing inode_number inode offset source s =
     (let file_block = offset div MINIFS_BLOCK_SIZE; block_offset = unat (offset mod MINIFS_BLOCK_SIZE); stop = offset + of_nat (length source)
      in case inode_block_at inode file_block s of
           (Inl e, s) \<Rightarrow> (- MINIOS_EIO, inode, s)
         | (Inr disk_block, s) \<Rightarrow>
             case read_volume_block disk_block s of (r, s) \<Rightarrow>
               if r \<noteq> 0 then (- MINIOS_EIO, inode, s)
               else let s = s\<lparr>io_block := copy_bytes block_offset source 0 (length source) (io_block s)\<rparr>
                    in case write_volume_block_from disk_block (io_block s) s of (r, s) \<Rightarrow>
                         if r \<noteq> 0 then (- MINIOS_EIO, inode, s)
                         else if stop > i_size inode
                         then case write_inode_internal inode_number (inode\<lparr>i_size := stop\<rparr>) s of (r, s) \<Rightarrow>
                                if r \<noteq> 0 then (- MINIOS_EIO, inode, s) else (0, inode\<lparr>i_size := stop\<rparr>, s)
                         else (0, inode, s))"

definition undo_indirect :: "u32 \<Rightarrow> 'a minifs_scheme \<Rightarrow> 'a minifs_scheme" where
  "undo_indirect new_indirect s = (if new_indirect \<noteq> 0 then snd (free_block new_indirect s) else s)"

definition write_chunk_append :: "u32 \<Rightarrow> minifs_inode \<Rightarrow> u32 \<Rightarrow> u8 list \<Rightarrow> 'a minifs_scheme \<Rightarrow> int \<times> minifs_inode \<times> 'a minifs_scheme" where
  "write_chunk_append inode_number inode offset source s =
     (let file_block = offset div MINIFS_BLOCK_SIZE; block_offset = unat (offset mod MINIFS_BLOCK_SIZE); stop = offset + of_nat (length source)
      in case (if file_block \<ge> MINIFS_DIRECT_COUNT \<and> i_indirect inode = 0 then allocate_block s else (Inr 0, s)) of
           (Inl e, s) \<Rightarrow> (e, inode, s)
         | (Inr new_indirect, s) \<Rightarrow>
             let grown = (if file_block \<ge> MINIFS_DIRECT_COUNT \<and> i_indirect inode = 0 then inode\<lparr>i_indirect := new_indirect\<rparr> else inode)
             in case allocate_block s of
                  (Inl e, s) \<Rightarrow> (e, inode, undo_indirect new_indirect s)
                | (Inr disk_block, s) \<Rightarrow>
                    let s = s\<lparr>io_block := copy_bytes block_offset source 0 (length source) (clear_bytes 0 4096 (io_block s))\<rparr>
                    in case write_volume_block_from disk_block (io_block s) s of (r, s) \<Rightarrow>
                         if r \<noteq> 0 then (- MINIOS_EIO, inode, undo_indirect new_indirect (snd (free_block disk_block s)))
                         else let indirect_index = file_block - MINIFS_DIRECT_COUNT
                              in case (if file_block < MINIFS_DIRECT_COUNT
                                       then (True, grown\<lparr>i_direct := (i_direct grown)[unat file_block := disk_block]\<rparr>, s)
                                       else if indirect_index \<ge> MINIFS_INDIRECT_COUNT then (False, grown, s)
                                       else case read_volume_block_into (i_indirect grown) (auxiliary_block s) s of (r, buffer, s) \<Rightarrow>
                                         let s = s\<lparr>auxiliary_block := buffer\<rparr>
                                         in if r \<noteq> 0 then (False, grown, s)
                                            else let s = s\<lparr>auxiliary_block := write_le32 (unat indirect_index * 4) disk_block (auxiliary_block s)\<rparr>
                                                 in case write_volume_block_from (i_indirect grown) (auxiliary_block s) s of (r, s) \<Rightarrow>
                                                      (r = 0, grown, s)) of
                                   (ok, linked, s) \<Rightarrow>
                                     if \<not> ok then (- MINIOS_EIO, inode, undo_indirect new_indirect (snd (free_block disk_block s)))
                                     else case write_inode_internal inode_number (linked\<lparr>i_size := stop\<rparr>) s of (r, s) \<Rightarrow>
                                       if r = 0 then (0, linked\<lparr>i_size := stop\<rparr>, s)
                                       else let s = (if file_block < MINIFS_DIRECT_COUNT \<or> new_indirect \<noteq> 0 then s
                                                     else let s = s\<lparr>auxiliary_block := write_le32 (unat indirect_index * 4) 0 (auxiliary_block s)\<rparr>
                                                          in snd (write_volume_block_from (i_indirect linked) (auxiliary_block s) s));
                                                undone = (if file_block < MINIFS_DIRECT_COUNT
                                                          then inode\<lparr>i_direct := (i_direct inode)[unat file_block := 0]\<rparr> else inode)
                                            in (- MINIOS_EIO, undone, undo_indirect new_indirect (snd (free_block disk_block s))))"

definition write_chunk_locked :: "u32 \<Rightarrow> minifs_inode \<Rightarrow> u32 \<Rightarrow> u8 list \<Rightarrow> 'a minifs_scheme \<Rightarrow> int \<times> minifs_inode \<times> 'a minifs_scheme" where
  "write_chunk_locked inode_number inode offset source s =
     (let file_block = offset div MINIFS_BLOCK_SIZE; allocated_blocks = divide_round_up (i_size inode) MINIFS_BLOCK_SIZE
      in if file_block < allocated_blocks then write_chunk_existing inode_number inode offset source s
         else if file_block \<noteq> allocated_blocks then (- MINIOS_EINVAL, inode, s)
         else write_chunk_append inode_number inode offset source s)"

subsection \<open>Creating and removing entries\<close>

text \<open>The search of \<open>directory_append_locked\<close> for an unused entry; the size of the directory when there is none.\<close>

function unused_slot :: "minifs_inode \<Rightarrow> nat \<Rightarrow> 'a minifs_scheme \<Rightarrow> nat result \<times> 'a minifs_scheme" where
  "unused_slot directory offset s =
     (if \<not> offset < unat (i_size directory) then (Inr offset, s)
      else case inode_block_at directory (of_nat offset div MINIFS_BLOCK_SIZE) s of
        (Inl e, s) \<Rightarrow> (Inl (- MINIOS_EIO), s)
      | (Inr disk_block, s) \<Rightarrow>
          case read_volume_block disk_block s of (r, s) \<Rightarrow>
            if r \<noteq> 0 then (Inl (- MINIOS_EIO), s)
            else if directory_entry_unused (io_block s) (offset mod 4096) then (Inr offset, s)
            else unused_slot directory (offset + 64) s)"
  by pat_completeness auto
termination by (relation "measure (\<lambda>(d, offset, s). unat (i_size d) - offset)") auto

declare unused_slot.simps [simp del]

definition directory_append_locked :: "u32 \<Rightarrow> minifs_inode \<Rightarrow> u32 \<Rightarrow> u8 \<Rightarrow> u8 list \<Rightarrow> 'a minifs_scheme \<Rightarrow> int \<times> minifs_inode \<times> 'a minifs_scheme" where
  "directory_append_locked directory_number directory child_number entry_type name s =
     (if length name = 0 \<or> length name > MINIFS_NAME_MAX \<or>
         (entry_type \<noteq> MINIFS_ENTRY_REGULAR \<and> entry_type \<noteq> MINIFS_ENTRY_DIRECTORY) \<or>
         i_size directory > MINIFS_MAX_FILE_SIZE - MINIFS_DIRECTORY_ENTRY_SIZE
      then (- MINIOS_EINVAL, directory, s)
      else let entry = encode_directory_entry 0 child_number entry_type name (replicate 64 0)
           in case unused_slot directory 0 s of
                (Inl e, s) \<Rightarrow> (e, directory, s)
              | (Inr offset, s) \<Rightarrow>
                  let appended = (offset = unat (i_size directory)); old_link_count = i_link_count directory
                  in if entry_type = MINIFS_ENTRY_DIRECTORY \<and> i_link_count directory = 0xFFFF
                     then (- MINIOS_ENOSPC, directory, s)
                     else let counted = (if entry_type = MINIFS_ENTRY_DIRECTORY
                                         then directory\<lparr>i_link_count := i_link_count directory + 1\<rparr> else directory)
                          in case write_chunk_locked directory_number counted (of_nat offset) entry s of (result, written, s) \<Rightarrow>
                               if result < 0 then (result, written\<lparr>i_link_count := old_link_count\<rparr>, s)
                               else if \<not> appended \<and> entry_type = MINIFS_ENTRY_DIRECTORY
                               then case write_inode_internal directory_number written s of (r, s) \<Rightarrow>
                                      if r \<noteq> 0
                                      then case write_chunk_locked directory_number written (of_nat offset) (replicate 64 0) s of (r, undone, s) \<Rightarrow>
                                             (- MINIOS_EIO, undone\<lparr>i_link_count := old_link_count\<rparr>, s)
                                      else (0, written, s)
                               else (0, written, s))"

definition rollback_created_inode :: "u32 \<Rightarrow> 'a minifs_scheme \<Rightarrow> 'a minifs_scheme" where
  "rollback_created_inode inode_number s =
     (let s = snd (clear_inode_record inode_number s) in snd (free_inode inode_number s))"

definition create_locked :: "u8 list \<Rightarrow> 'a minifs_scheme \<Rightarrow> minifs_stat result \<times> 'a minifs_scheme" where
  "create_locked path s =
     (case resolve_parent_locked path s of
        (Inl e, s) \<Rightarrow> (Inl e, s)
      | (Inr (parent_number, parent, name), s) \<Rightarrow>
          case directory_find parent name s of
            (Inr existing, s) \<Rightarrow> (Inl (- MINIOS_EEXIST), s)
          | (Inl e, s) \<Rightarrow>
              if e \<noteq> - MINIOS_ENOENT then (Inl e, s)
              else case allocate_inode s of
                (Inl e, s) \<Rightarrow> (Inl e, s)
              | (Inr inode_number, s) \<Rightarrow>
                  case write_inode_internal inode_number clear_inode s of (r, s) \<Rightarrow>
                    if r \<noteq> 0 then (Inl (- MINIOS_EIO), rollback_created_inode inode_number s)
                    else case directory_append_locked parent_number parent inode_number MINIFS_ENTRY_REGULAR name s of (r, _, s) \<Rightarrow>
                      if r < 0 then (Inl r, rollback_created_inode inode_number s)
                      else (Inr (inode_stat inode_number clear_inode), s))"

function directory_empty_from :: "minifs_inode \<Rightarrow> nat \<Rightarrow> 'a minifs_scheme \<Rightarrow> int \<times> 'a minifs_scheme" where
  "directory_empty_from directory offset s =
     (if \<not> offset < unat (i_size directory) then (0, s)
      else case inode_block_at directory (of_nat offset div MINIFS_BLOCK_SIZE) s of
        (Inl e, s) \<Rightarrow> (- MINIOS_EIO, s)
      | (Inr disk_block, s) \<Rightarrow>
          case read_volume_block disk_block s of (r, s) \<Rightarrow>
            if r \<noteq> 0 then (- MINIOS_EIO, s)
            else let entry = offset mod 4096; type = io_block s ! (entry + 4)
                 in if type = MINIFS_ENTRY_UNUSED
                    then if \<not> directory_entry_unused (io_block s) entry then (- MINIOS_EIO, s)
                         else directory_empty_from directory (offset + 64) s
                    else if (type \<noteq> MINIFS_ENTRY_REGULAR \<and> type \<noteq> MINIFS_ENTRY_DIRECTORY) \<or> \<not> directory_name_valid (io_block s) (entry + 5)
                    then (- MINIOS_EIO, s)
                    else if \<not> directory_name_equal (io_block s) (entry + 5) [0x2E] \<and> \<not> directory_name_equal (io_block s) (entry + 5) [0x2E, 0x2E]
                    then (- MINIOS_ENOTEMPTY, s)
                    else directory_empty_from directory (offset + 64) s)"
  by pat_completeness auto
termination by (relation "measure (\<lambda>(d, offset, s). unat (i_size d) - offset)") auto

declare directory_empty_from.simps [simp del]

definition directory_empty_locked :: "minifs_inode \<Rightarrow> 'a minifs_scheme \<Rightarrow> int \<times> 'a minifs_scheme" where
  "directory_empty_locked directory s =
     (if i_mode directory \<noteq> MINIFS_MODE_DIRECTORY then (- MINIOS_ENOTDIR, s) else directory_empty_from directory 0 s)"

text \<open>The loops that free blocks one after the other and stop at the first failure.\<close>

fun free_blocks :: "u32 list \<Rightarrow> 'a minifs_scheme \<Rightarrow> int \<times> 'a minifs_scheme" where
  "free_blocks [] s = (0, s)"
| "free_blocks (b # bs) s = (case free_block b s of (r, s) \<Rightarrow> if r \<noteq> 0 then (- MINIOS_EIO, s) else free_blocks bs s)"

definition release_inode_locked :: "u32 \<Rightarrow> minifs_inode \<Rightarrow> 'a minifs_scheme \<Rightarrow> int \<times> 'a minifs_scheme" where
  "release_inode_locked inode_number inode s =
     (let blocks = unat (divide_round_up (i_size inode) MINIFS_BLOCK_SIZE)
      in case (if blocks > 10 then case read_volume_block_into (i_indirect inode) (compare_buffer s) s of (r, buffer, s) \<Rightarrow>
                                 (r, s\<lparr>compare_buffer := buffer\<rparr>)
               else (0, s)) of (r, s) \<Rightarrow>
           if r \<noteq> 0 then (- MINIOS_EIO, s)
           else case free_blocks (map (\<lambda>index. i_direct inode ! index) [0..<min blocks 10]) s of (r, s) \<Rightarrow>
             if r \<noteq> 0 then (r, s)
             else case free_blocks (map (\<lambda>index. read_le32 (compare_buffer s) ((index - 10) * 4)) [10..<blocks]) s of (r, s) \<Rightarrow>
               if r \<noteq> 0 then (r, s)
               else case (if i_indirect inode \<noteq> 0 then free_block (i_indirect inode) s else (0, s)) of (r, s) \<Rightarrow>
                 if r \<noteq> 0 then (- MINIOS_EIO, s)
                 else case clear_inode_record inode_number s of (r, s) \<Rightarrow>
                   if r \<noteq> 0 then (- MINIOS_EIO, s)
                   else case free_inode inode_number s of (r, s) \<Rightarrow> (if r \<noteq> 0 then - MINIOS_EIO else 0, s))"

definition mkdir_locked :: "u8 list \<Rightarrow> 'a minifs_scheme \<Rightarrow> int \<times> 'a minifs_scheme" where
  "mkdir_locked path s =
     (case resolve_parent_locked path s of
        (Inl e, s) \<Rightarrow> (e, s)
      | (Inr (parent_number, parent, name), s) \<Rightarrow>
          case directory_find parent name s of
            (Inr existing, s) \<Rightarrow> (- MINIOS_EEXIST, s)
          | (Inl e, s) \<Rightarrow>
              if e \<noteq> - MINIOS_ENOENT then (e, s)
              else case allocate_inode s of
                (Inl e, s) \<Rightarrow> (e, s)
              | (Inr inode_number, s) \<Rightarrow>
                  case allocate_block s of
                    (Inl e, s) \<Rightarrow> (e, snd (free_inode inode_number s))
                  | (Inr data_block, s) \<Rightarrow>
                      let inode = clear_inode\<lparr>i_mode := MINIFS_MODE_DIRECTORY, i_link_count := 2, i_size := 2 * MINIFS_DIRECTORY_ENTRY_SIZE,
                                              i_direct := (i_direct clear_inode)[0 := data_block]\<rparr>;
                          b = clear_bytes 0 4096 (io_block s);
                          b = encode_directory_entry 0 inode_number MINIFS_ENTRY_DIRECTORY [0x2E] b;
                          b = encode_directory_entry 64 parent_number MINIFS_ENTRY_DIRECTORY [0x2E, 0x2E] b;
                          s = s\<lparr>io_block := b\<rparr>
                      in case (case write_volume_block_from data_block (io_block s) s of (r, s) \<Rightarrow>
                                 if r \<noteq> 0 then (False, s)
                                 else case write_inode_internal inode_number inode s of (r, s) \<Rightarrow> (r = 0, s)) of
                           (False, s) \<Rightarrow> (- MINIOS_EIO, rollback_created_inode inode_number (snd (free_block data_block s)))
                         | (True, s) \<Rightarrow>
                             case directory_append_locked parent_number parent inode_number MINIFS_ENTRY_DIRECTORY name s of (r, _, s) \<Rightarrow>
                               if r < 0 then (r, rollback_created_inode inode_number (snd (free_block data_block s)))
                               else (0, s))"

definition unlink_locked :: "u8 list \<Rightarrow> 'a minifs_scheme \<Rightarrow> int \<times> 'a minifs_scheme" where
  "unlink_locked path s =
     (case resolve_parent_locked path s of
        (Inl e, s) \<Rightarrow> (e, s)
      | (Inr (parent_number, parent, name), s) \<Rightarrow>
          case directory_find_internal parent name s of
            (Inl e, s) \<Rightarrow> (e, s)
          | (Inr record, s) \<Rightarrow>
              if rec_inode record = root_inode (mounted_superblock s) then (- MINIOS_EIO, s)
              else case read_inode_internal (rec_inode record) s of
                (Inl e, s) \<Rightarrow> (- MINIOS_EIO, s)
              | (Inr inode, s) \<Rightarrow>
                  case (if i_mode inode = MINIFS_MODE_DIRECTORY
                        then case directory_empty_locked inode s of (r, s) \<Rightarrow>
                               if r < 0 then (r, s) else if i_link_count parent = 0 then (- MINIOS_EIO, s) else (0, s)
                        else (0, s)) of (r, s) \<Rightarrow>
                    if r < 0 then (r, s)
                    else let file_block = rec_offset record div MINIFS_BLOCK_SIZE; block_offset = unat (rec_offset record mod MINIFS_BLOCK_SIZE)
                         in case inode_block_at parent file_block s of
                              (Inl e, s) \<Rightarrow> (- MINIOS_EIO, s)
                            | (Inr disk_block, s) \<Rightarrow>
                                case read_volume_block disk_block s of (r, s) \<Rightarrow>
                                  if r \<noteq> 0 then (- MINIOS_EIO, s)
                                  else let s = s\<lparr>auxiliary_block := copy_bytes 0 (io_block s) block_offset 64 (auxiliary_block s)\<rparr>;
                                           s = s\<lparr>io_block := clear_bytes block_offset 64 (io_block s)\<rparr>
                                       in case write_volume_block_from disk_block (io_block s) s of (r, s) \<Rightarrow>
                                            if r \<noteq> 0 then (- MINIOS_EIO, s)
                                            else if i_mode inode = MINIFS_MODE_DIRECTORY
                                            then case write_inode_internal parent_number (parent\<lparr>i_link_count := i_link_count parent - 1\<rparr>) s of (r, s) \<Rightarrow>
                                                   if r \<noteq> 0
                                                   then (- MINIOS_EIO,
                                                         case read_volume_block disk_block s of (r, s) \<Rightarrow>
                                                           if r = 0
                                                           then let s = s\<lparr>io_block := copy_bytes block_offset (auxiliary_block s) 0 64 (io_block s)\<rparr>
                                                                in snd (write_volume_block_from disk_block (io_block s) s)
                                                           else s)
                                                   else release_inode_locked (rec_inode record) inode s
                                            else release_inode_locked (rec_inode record) inode s)"

subsection \<open>Mounting\<close>

text \<open>The loop of \<open>minifs_mount\<close> that requires the bits of the metadata blocks, by the number of blocks that remain.\<close>

fun metadata_allocated :: "nat \<Rightarrow> u32 \<Rightarrow> 'a minifs_scheme \<Rightarrow> bool \<times> 'a minifs_scheme" where
  "metadata_allocated 0 block s = (True, s)"
| "metadata_allocated (Suc n) block s =
     (case bitmap_bit_set (block_bitmap_start (mounted_superblock s)) (block_bitmap_blocks (mounted_superblock s)) block s of (ok, s) \<Rightarrow>
        if \<not> ok then (False, s) else metadata_allocated n (block + 1) s)"

text \<open>The checks of \<open>minifs_mount\<close> once the superblock has been decoded.\<close>

definition mount_checks :: "minifs_superblock \<Rightarrow> 'a minifs_scheme \<Rightarrow> bool \<times> 'a minifs_scheme" where
  "mount_checks candidate s =
     (case metadata_allocated (unat (data_start candidate)) 0 s of (ok, s) \<Rightarrow>
        if \<not> ok then (False, s)
        else case bitmap_bit_set (inode_bitmap_start candidate) (inode_bitmap_blocks candidate) (root_inode candidate) s of (ok, s) \<Rightarrow>
          if \<not> ok then (False, s)
          else case read_inode_internal (root_inode candidate) s of
            (Inl e, s) \<Rightarrow> (False, s)
          | (Inr root, s) \<Rightarrow> (i_mode root = MINIFS_MODE_DIRECTORY, s))"

definition minifs_mount :: "'a minifs_scheme \<Rightarrow> int \<times> 'a minifs_scheme" where
  "minifs_mount s =
     (case minifs_acquire s of
        (None, s) \<Rightarrow> (- MINIOS_EAGAIN, s)
      | (Some irq_flags, s) \<Rightarrow>
          let s = clear_superblock (s\<lparr>mounted := False\<rparr>)
          in if volume_start_block s > block_count s \<or> volume_block_count s > block_count s - volume_start_block s
             then (- MINIOS_EIO, minifs_release irq_flags s)
             else case block_read (volume_start_block s) 1 s of (r, bs, s) \<Rightarrow>
               let s = s\<lparr>io_block := fill_buffer bs (io_block s)\<rparr>
               in if r \<noteq> 0 then (- MINIOS_EIO, minifs_release irq_flags s)
                  else case decode_superblock (volume_block_count s) (io_block s) of
                    None \<Rightarrow> (- MINIOS_EIO, minifs_release irq_flags s)
                  | Some candidate \<Rightarrow>
                      let s = s\<lparr>mounted_superblock := candidate\<rparr>
                      in case mount_checks candidate s of (ok, s) \<Rightarrow>
                           if ok then (0, minifs_release irq_flags (s\<lparr>mounted := True\<rparr>))
                           else (- MINIOS_EIO, minifs_release irq_flags (clear_superblock s)))"

definition minifs_total_blocks :: "'a minifs_scheme \<Rightarrow> u32" where
  "minifs_total_blocks s = (if mounted s then total_blocks (mounted_superblock s) else 0)"

definition minifs_total_inodes :: "'a minifs_scheme \<Rightarrow> u32" where
  "minifs_total_inodes s = (if mounted s then total_inodes (mounted_superblock s) else 0)"

subsection \<open>The public operations\<close>

definition minifs_lookup :: "u8 list \<Rightarrow> 'a minifs_scheme \<Rightarrow> minifs_stat result \<times> 'a minifs_scheme" where
  "minifs_lookup path s =
     (if \<not> mounted s then (Inl (- MINIOS_EIO), s)
      else case minifs_acquire s of
        (None, s) \<Rightarrow> (Inl (- MINIOS_EAGAIN), s)
      | (Some irq_flags, s) \<Rightarrow> case lookup_locked path s of (result, s) \<Rightarrow> (result, minifs_release irq_flags s))"

definition minifs_stat_inode :: "u32 \<Rightarrow> 'a minifs_scheme \<Rightarrow> minifs_stat result \<times> 'a minifs_scheme" where
  "minifs_stat_inode inode_number s =
     (if \<not> mounted s then (Inl (- MINIOS_EIO), s)
      else case minifs_acquire s of
        (None, s) \<Rightarrow> (Inl (- MINIOS_EAGAIN), s)
      | (Some irq_flags, s) \<Rightarrow>
          case read_inode_internal inode_number s of
            (Inl e, s) \<Rightarrow> (Inl e, minifs_release irq_flags s)
          | (Inr inode, s) \<Rightarrow> (Inr (inode_stat inode_number inode), minifs_release irq_flags s))"

text \<open>The copy loop of \<open>minifs_read\<close>: \<open>completed\<close> bytes are done, and the bytes stored from then on are returned.\<close>

function read_loop :: "minifs_inode \<Rightarrow> u32 \<Rightarrow> nat \<Rightarrow> nat \<Rightarrow> 'a minifs_scheme \<Rightarrow> int \<times> u8 list \<times> 'a minifs_scheme" where
  "read_loop inode offset len completed s =
     (if \<not> completed < len then (int completed, [], s)
      else let position = offset + of_nat completed;
               file_block = position div MINIFS_BLOCK_SIZE;
               block_offset = unat (position mod MINIFS_BLOCK_SIZE);
               chunk = min (4096 - block_offset) (len - completed)
           in case inode_block_at inode file_block s of
                (Inl e, s) \<Rightarrow> (- MINIOS_EIO, [], s)
              | (Inr disk_block, s) \<Rightarrow>
                  case read_volume_block disk_block s of (r, s) \<Rightarrow>
                    if r \<noteq> 0 then (- MINIOS_EIO, [], s)
                    else let bytes = map (\<lambda>index. io_block s ! (block_offset + index)) [0..<chunk]
                         in case read_loop inode offset len (completed + chunk) s of (result, rest, s) \<Rightarrow> (result, bytes @ rest, s))"
  by pat_completeness auto
termination
proof (relation "measure (\<lambda>(inode, offset, len, completed, s). len - completed)", goal_cases)
  case (2 inode offset len completed s position file_block block_offset chunk)
  have "unat (position mod MINIFS_BLOCK_SIZE) < 4096" by (simp add: unat_mod)
  then show ?case using 2 by auto
qed simp

declare read_loop.simps [simp del]

definition minifs_read :: "u32 \<Rightarrow> u32 \<Rightarrow> nat \<Rightarrow> 'a minifs_scheme \<Rightarrow> int \<times> u8 list \<times> 'a minifs_scheme" where
  "minifs_read inode_number offset len s =
     (if \<not> mounted s then (- MINIOS_EINVAL, [], s)
      else case minifs_acquire s of
        (None, s) \<Rightarrow> (- MINIOS_EAGAIN, [], s)
      | (Some irq_flags, s) \<Rightarrow>
          case read_inode_internal inode_number s of
            (Inl e, s) \<Rightarrow> (e, [], minifs_release irq_flags s)
          | (Inr inode, s) \<Rightarrow>
              if i_mode inode = MINIFS_MODE_DIRECTORY then (- MINIOS_EISDIR, [], minifs_release irq_flags s)
              else if offset \<ge> i_size inode \<or> len = 0 then (0, [], minifs_release irq_flags s)
              else let len = (if len > unat (i_size inode - offset) then unat (i_size inode - offset) else len)
                   in case read_loop inode offset len 0 s of (result, bytes, s) \<Rightarrow> (result, bytes, minifs_release irq_flags s))"

definition minifs_create :: "u8 list \<Rightarrow> 'a minifs_scheme \<Rightarrow> minifs_stat result \<times> 'a minifs_scheme" where
  "minifs_create path s =
     (if \<not> mounted s then (Inl (- MINIOS_EIO), s)
      else case minifs_acquire s of
        (None, s) \<Rightarrow> (Inl (- MINIOS_EAGAIN), s)
      | (Some irq_flags, s) \<Rightarrow> case create_locked path s of (result, s) \<Rightarrow> (result, minifs_release irq_flags s))"

definition minifs_mkdir :: "u8 list \<Rightarrow> 'a minifs_scheme \<Rightarrow> int \<times> 'a minifs_scheme" where
  "minifs_mkdir path s =
     (if \<not> mounted s then (- MINIOS_EIO, s)
      else case minifs_acquire s of
        (None, s) \<Rightarrow> (- MINIOS_EAGAIN, s)
      | (Some irq_flags, s) \<Rightarrow> case mkdir_locked path s of (result, s) \<Rightarrow> (result, minifs_release irq_flags s))"

definition minifs_unlink :: "u8 list \<Rightarrow> 'a minifs_scheme \<Rightarrow> int \<times> 'a minifs_scheme" where
  "minifs_unlink path s =
     (if \<not> mounted s then (- MINIOS_EIO, s)
      else case minifs_acquire s of
        (None, s) \<Rightarrow> (- MINIOS_EAGAIN, s)
      | (Some irq_flags, s) \<Rightarrow> case unlink_locked path s of (result, s) \<Rightarrow> (result, minifs_release irq_flags s))"

text \<open>
  The entry loop of \<open>minifs_readdir\<close>: the next entry in use from \<open>cursor\<close> and the offset behind it, or
  none and the end of the directory.
\<close>

function readdir_loop :: "minifs_inode \<Rightarrow> nat \<Rightarrow> 'a minifs_scheme \<Rightarrow> (minifs_dirent option \<times> nat) result \<times> 'a minifs_scheme" where
  "readdir_loop directory cursor s =
     (if \<not> cursor < unat (i_size directory) then (Inr (None, cursor), s)
      else case inode_block_at directory (of_nat cursor div MINIFS_BLOCK_SIZE) s of
        (Inl e, s) \<Rightarrow> (Inl (- MINIOS_EIO), s)
      | (Inr disk_block, s) \<Rightarrow>
          case read_volume_block disk_block s of (r, s) \<Rightarrow>
            if r \<noteq> 0 then (Inl (- MINIOS_EIO), s)
            else let raw_entry = take 64 (drop (cursor mod 4096) (io_block s)); type = raw_entry ! 4
                 in if type = MINIFS_ENTRY_UNUSED
                    then if \<not> directory_entry_unused raw_entry 0 then (Inl (- MINIOS_EIO), s)
                         else readdir_loop directory (cursor + 64) s
                    else let child_number = read_le32 raw_entry 0
                         in if (type \<noteq> MINIFS_ENTRY_REGULAR \<and> type \<noteq> MINIFS_ENTRY_DIRECTORY) \<or> \<not> directory_name_valid raw_entry 5
                            then (Inl (- MINIOS_EIO), s)
                            else case read_inode_internal child_number s of
                              (Inl e, s) \<Rightarrow> (Inl (- MINIOS_EIO), s)
                            | (Inr child, s) \<Rightarrow>
                                if type = MINIFS_ENTRY_DIRECTORY \<and> i_mode child \<noteq> MINIFS_MODE_DIRECTORY \<or>
                                   type = MINIFS_ENTRY_REGULAR \<and> i_mode child \<noteq> MINIFS_MODE_REGULAR
                                then (Inl (- MINIOS_EIO), s)
                                else let name = takeWhile (\<lambda>b. b \<noteq> 0) (take MINIFS_NAME_MAX (drop 5 raw_entry))
                                     in (Inr (Some \<lparr>de_inode = child_number, de_mode = i_mode child,
                                                    de_name_length = of_nat (length name), de_name = name\<rparr>, cursor + 64), s))"
  by pat_completeness auto
termination by (relation "measure (\<lambda>(d, cursor, s). unat (i_size d) - cursor)") auto

declare readdir_loop.simps [simp del]

text \<open>\<open>minifs_readdir\<close> returns 1 and the entry, 0 at the end, or an errno; the offset is stored unless it fails.\<close>

definition minifs_readdir :: "u32 \<Rightarrow> u32 \<Rightarrow> 'a minifs_scheme \<Rightarrow> (minifs_dirent option \<times> u32) result \<times> 'a minifs_scheme" where
  "minifs_readdir inode_number offset s =
     (if \<not> mounted s \<or> offset mod MINIFS_DIRECTORY_ENTRY_SIZE \<noteq> 0 then (Inl (- MINIOS_EINVAL), s)
      else case minifs_acquire s of
        (None, s) \<Rightarrow> (Inl (- MINIOS_EAGAIN), s)
      | (Some irq_flags, s) \<Rightarrow>
          case read_inode_internal inode_number s of
            (Inl e, s) \<Rightarrow> (Inl e, minifs_release irq_flags s)
          | (Inr directory, s) \<Rightarrow>
              if i_mode directory \<noteq> MINIFS_MODE_DIRECTORY then (Inl (- MINIOS_ENOTDIR), minifs_release irq_flags s)
              else case readdir_loop directory (unat offset) s of
                (Inl e, s) \<Rightarrow> (Inl e, minifs_release irq_flags s)
              | (Inr (entry, cursor), s) \<Rightarrow> (Inr (entry, of_nat cursor), minifs_release irq_flags s))"

text \<open>The chunk loop of \<open>minifs_write\<close>, with \<open>completed\<close> bytes written.\<close>

function write_loop :: "u32 \<Rightarrow> minifs_inode \<Rightarrow> u32 \<Rightarrow> u8 list \<Rightarrow> nat \<Rightarrow> 'a minifs_scheme \<Rightarrow> int \<times> 'a minifs_scheme" where
  "write_loop inode_number inode offset source completed s =
     (if \<not> completed < length source then (int completed, s)
      else let position = offset + of_nat completed;
               block_offset = unat (position mod MINIFS_BLOCK_SIZE);
               chunk = min (4096 - block_offset) (length source - completed)
           in case write_chunk_locked inode_number inode position (take chunk (drop completed source)) s of (result, inode, s) \<Rightarrow>
                if result < 0 then (if completed > 0 then int completed else result, s)
                else write_loop inode_number inode offset source (completed + chunk) s)"
  by pat_completeness auto
termination
proof (relation "measure (\<lambda>(n, inode, offset, source, completed, s). length source - completed)", goal_cases)
  case (2 n inode offset source completed s position block_offset chunk)
  have "unat (position mod MINIFS_BLOCK_SIZE) < 4096" by (simp add: unat_mod)
  then show ?case using 2 by auto
qed simp

declare write_loop.simps [simp del]

definition minifs_write :: "u32 \<Rightarrow> u32 \<Rightarrow> u8 list \<Rightarrow> 'a minifs_scheme \<Rightarrow> int \<times> 'a minifs_scheme" where
  "minifs_write inode_number offset buffer s =
     (if \<not> mounted s \<or> length buffer > 0x7FFFFFFF \<or> offset > MINIFS_MAX_FILE_SIZE \<or> length buffer > unat (MINIFS_MAX_FILE_SIZE - offset)
      then (- MINIOS_EINVAL, s)
      else case minifs_acquire s of
        (None, s) \<Rightarrow> (- MINIOS_EAGAIN, s)
      | (Some irq_flags, s) \<Rightarrow>
          case read_inode_internal inode_number s of
            (Inl e, s) \<Rightarrow> (e, minifs_release irq_flags s)
          | (Inr inode, s) \<Rightarrow>
              if i_mode inode = MINIFS_MODE_DIRECTORY then (- MINIOS_EISDIR, minifs_release irq_flags s)
              else if offset > i_size inode then (- MINIOS_EINVAL, minifs_release irq_flags s)
              else case write_loop inode_number inode offset buffer 0 s of (result, s) \<Rightarrow> (result, minifs_release irq_flags s))"

definition truncate_locked :: "u32 \<Rightarrow> u32 \<Rightarrow> 'a minifs_scheme \<Rightarrow> int \<times> 'a minifs_scheme" where
  "truncate_locked inode_number new_size s =
     (case read_inode_internal inode_number s of
        (Inl e, s) \<Rightarrow> (- MINIOS_EIO, s)
      | (Inr old_inode, s) \<Rightarrow>
          if i_mode old_inode = MINIFS_MODE_DIRECTORY then (- MINIOS_EISDIR, s)
          else if new_size > i_size old_inode then (- MINIOS_EINVAL, s)
          else if new_size = i_size old_inode then (0, s)
          else let old_blocks = unat (divide_round_up (i_size old_inode) MINIFS_BLOCK_SIZE);
                   new_blocks = unat (divide_round_up new_size MINIFS_BLOCK_SIZE)
               in case (if i_indirect old_inode \<noteq> 0
                        then case read_volume_block_into (i_indirect old_inode) (auxiliary_block s) s of (r, buffer, s) \<Rightarrow>
                               let s = s\<lparr>auxiliary_block := buffer\<rparr>
                               in if r \<noteq> 0 then (r, s)
                                  else (0, s\<lparr>compare_buffer := copy_bytes 0 (auxiliary_block s) 0 4096 (compare_buffer s)\<rparr>)
                        else (0, s)) of (r, s) \<Rightarrow>
                    if r \<noteq> 0 then (- MINIOS_EIO, s)
                    else case (if new_blocks > 10
                               then let s = s\<lparr>auxiliary_block := for_range (new_blocks - 10) (old_blocks - 10) (\<lambda>index. write_le32 (index * 4) 0) (auxiliary_block s)\<rparr>
                                    in write_volume_block_from (i_indirect old_inode) (auxiliary_block s) s
                               else (0, s)) of (r, s) \<Rightarrow>
                      if r \<noteq> 0 then (- MINIOS_EIO, s)
                      else let inode = old_inode\<lparr>i_indirect := (if new_blocks > 10 then i_indirect old_inode else 0),
                                                 i_direct := for_range new_blocks (min old_blocks 10) (\<lambda>index d. d[index := 0]) (i_direct old_inode),
                                                 i_size := new_size\<rparr>
                           in case write_inode_internal inode_number inode s of (r, s) \<Rightarrow>
                                if r \<noteq> 0
                                then (- MINIOS_EIO, if new_blocks > 10 then snd (write_volume_block_from (i_indirect old_inode) (compare_buffer s) s) else s)
                                else case free_blocks (map (\<lambda>index. i_direct old_inode ! index) [new_blocks..<min old_blocks 10]) s of (r, s) \<Rightarrow>
                                  if r \<noteq> 0 then (r, s)
                                  else if old_blocks > 10
                                  then case free_blocks (map (\<lambda>index. read_le32 (compare_buffer s) ((index - 10) * 4)) [max new_blocks 10..<old_blocks]) s of (r, s) \<Rightarrow>
                                    if r \<noteq> 0 then (r, s)
                                    else if new_blocks \<le> 10
                                    then case free_block (i_indirect old_inode) s of (r, s) \<Rightarrow> (if r \<noteq> 0 then - MINIOS_EIO else 0, s)
                                    else (0, s)
                                  else (0, s))"

definition minifs_truncate :: "u32 \<Rightarrow> u32 \<Rightarrow> 'a minifs_scheme \<Rightarrow> int \<times> 'a minifs_scheme" where
  "minifs_truncate inode_number new_size s =
     (if \<not> mounted s \<or> new_size > MINIFS_MAX_FILE_SIZE then (- MINIOS_EINVAL, s)
      else case minifs_acquire s of
        (None, s) \<Rightarrow> (- MINIOS_EAGAIN, s)
      | (Some irq_flags, s) \<Rightarrow> case truncate_locked inode_number new_size s of (result, s) \<Rightarrow> (result, minifs_release irq_flags s))"

end
