(* ===== verification/Minifs_Frame.thy ===== *)
theory Minifs_Frame
  imports Minifs
begin

text \<open>
  What the internal operations of MiniFS may change, whatever the disk does: the disk itself and the
  three block buffers. From this follows the locking discipline of the public operations.
\<close>

subsection \<open>The storage stack\<close>

definition hw_only :: "'a ata_scheme \<Rightarrow> 'a ata_scheme \<Rightarrow> bool" where
  "hw_only s s' \<longleftrightarrow> (\<exists>d. s' = s\<lparr>hw := d\<rparr>)"

lemma hw_only_refl [simp]: "hw_only s s"
  unfolding hw_only_def by (intro exI [of _ "hw s"]) simp

lemma hw_only_update [simp]: "hw_only s (s\<lparr>hw := d\<rparr>)"
  by (auto simp: hw_only_def)

lemma hw_only_trans: "hw_only s s' \<Longrightarrow> hw_only s' s'' \<Longrightarrow> hw_only s s''"
  by (auto simp: hw_only_def)

lemma hw_only_wait: "ata_wait r s = (ok, s') \<Longrightarrow> hw_only s s'"
  using ata_poll_cases [of ATA_POLL_LIMIT r s] by (auto simp: ata_wait_def poll_end_def)

lemma hw_only_issue: "hw_only s (ata_issue_lba28 lba n c s)"
  by (auto simp: ata_issue_lba28_def port_out8_def Let_def)

lemma hw_only_from_out: "hw_only (port_out8 p v s) s' \<Longrightarrow> hw_only s s'"
  by (auto simp: port_out8_def hw_only_def)

lemma hw_only_read_words: "ata_read_words n s = (bs, s') \<Longrightarrow> hw_only s s'"
proof (induction n arbitrary: s bs)
  case (Suc n)
  then show ?case by (fastforce split: prod.splits simp: hw_only_def)
qed simp

lemma hw_only_write_words: "hw_only s (ata_write_words n bs s)"
proof (induction n arbitrary: s bs)
  case (Suc n)
  then show ?case by (auto intro: hw_only_trans [OF hw_only_update])
qed simp

lemma hw_only_read_loop: "ata_read_loop n s = (ok, bs, s') \<Longrightarrow> hw_only s s'"
proof (induction n arbitrary: s ok bs s')
  case (Suc n)
  then show ?case
    by (auto split: prod.splits bool.splits simp del: ata_read_words.simps dest!: hw_only_wait hw_only_read_words intro: hw_only_trans)
qed simp

lemmas hw_only_from_words = hw_only_trans [OF hw_only_write_words]
lemmas hw_only_from_issue = hw_only_trans [OF hw_only_issue]

lemma hw_only_write_loop: "ata_write_loop n bs s = (ok, s') \<Longrightarrow> hw_only s s'"
proof (induction n arbitrary: s ok bs s')
  case (Suc n)
  from Suc.prems show ?case
    by (auto split: prod.splits bool.splits simp del: ata_write_words.simps dest!: hw_only_wait Suc.IH hw_only_from_words intro: hw_only_trans)
qed simp

lemma ata_release_hw_only:
  assumes "ata_acquire s = (Some f, s1)" and "hw_only s1 s2"
  shows "hw_only s (ata_release f s2)"
proof -
  have "f = eflags (cpu s)" "s1 = s\<lparr>cpu := snd (irq_save_disable (cpu s)), ata_operation_busy := True\<rparr>" "\<not> ata_operation_busy s"
    using assms(1) by (auto simp: ata_acquire_def irq_save_disable_def irq_read_flags_def split: if_splits)
  then show ?thesis using assms(2) ata_release_acquired [of s s2] by (auto simp: hw_only_def)
qed

lemma ata_acquire_None: "ata_acquire s = (None, s1) \<Longrightarrow> s1 = s"
  using ata_acquire_busy [of s] by (cases "ata_operation_busy s") (auto simp: ata_acquire_free)

lemma hw_only_read_sectors: "ata_read_sectors lba n s = (r, bs, s') \<Longrightarrow> hw_only s s'"
  by (auto simp: ata_read_sectors_def split: if_splits prod.splits option.splits bool.splits
      dest!: hw_only_wait hw_only_read_loop ata_acquire_None hw_only_from_issue intro!: ata_release_hw_only intro: hw_only_trans)

lemma hw_only_write_sectors: "ata_write_sectors lba n bs s = (r, s') \<Longrightarrow> hw_only s s'"
  by (auto simp: ata_write_sectors_def split: if_splits prod.splits option.splits bool.splits
      dest!: hw_only_wait hw_only_write_loop ata_acquire_None hw_only_from_issue hw_only_from_out intro!: ata_release_hw_only intro: hw_only_trans)

lemma hw_only_block_read: "block_read n c s = (r, bs, s') \<Longrightarrow> hw_only s s'"
proof -
  have "block_read_loop k n s = (r, bs, s') \<Longrightarrow> hw_only s s'" for k
    by (induction k n s arbitrary: r bs s' rule: block_read_loop.induct)
      (auto split: prod.splits if_splits dest!: hw_only_read_sectors intro: hw_only_trans)
  then show "block_read n c s = (r, bs, s') \<Longrightarrow> hw_only s s'" by (auto simp: block_read_def split: if_splits)
qed

lemma hw_only_block_write: "block_write n c bs s = (r, s') \<Longrightarrow> hw_only s s'"
proof -
  have "block_write_loop k n bs s = (r, s') \<Longrightarrow> hw_only s s'" for k
    by (induction k n bs s arbitrary: r s' rule: block_write_loop.induct)
      (auto split: prod.splits if_splits dest!: hw_only_write_sectors intro: hw_only_trans)
  then show "block_write n c bs s = (r, s') \<Longrightarrow> hw_only s s'" by (auto simp: block_write_def split: if_splits)
qed

subsection \<open>The file system\<close>

text \<open>
  The part of the state that only mounting and the lock change: all of it but the disk and the three block buffers, which every
  operation overwrites.
\<close>

definition core :: "'a minifs_scheme \<Rightarrow>
    (machine \<times> u32 \<times> bool \<times> bool \<times> u32) \<times> (u32 \<times> u32 \<times> minifs_superblock \<times> bool \<times> bool \<times> 'a)" where
  "core s = ((cpu s, device_sector_count s, device_ready s, ata_operation_busy s, device_block_count s),
     (volume_start_block s, volume_block_count s, mounted_superblock s, mounted s, operation_busy s, minifs.more s))"

lemma core_updates [simp]:
  "core (s\<lparr>io_block := a\<rparr>) = core s" "core (s\<lparr>auxiliary_block := a\<rparr>) = core s" "core (s\<lparr>compare_buffer := a\<rparr>) = core s"
  "core (s\<lparr>hw := d\<rparr>) = core s"
  by (simp_all add: core_def)

lemma core_eqD:
  assumes "core s' = core s"
  shows "cpu s' = cpu s" "mounted_superblock s' = mounted_superblock s" "mounted s' = mounted s" "operation_busy s' = operation_busy s"
    "volume_start_block s' = volume_start_block s" "volume_block_count s' = volume_block_count s" "minifs.more s' = minifs.more s"
    "device_block_count s' = device_block_count s" "ata_operation_busy s' = ata_operation_busy s"
  using assms by (simp_all add: core_def)

lemma hw_only_core: "hw_only s s' \<Longrightarrow> core (s' :: 'a minifs_scheme) = core s"
  by (auto simp: hw_only_def)

named_theorems fs_core \<open>what the internal operations of MiniFS leave unchanged\<close>

lemma core_read_into [fs_core]: "read_volume_block_into n buf s = (r, b, s') \<Longrightarrow> core s' = core s"
  by (auto simp: read_volume_block_into_def split: if_splits prod.splits dest!: hw_only_block_read hw_only_core)

lemma core_read [fs_core]: "read_volume_block n s = (r, s') \<Longrightarrow> core s' = core s"
  by (auto simp: read_volume_block_def split: prod.splits dest!: core_read_into)

lemma core_write [fs_core]: "write_volume_block_from n buf s = (r, s') \<Longrightarrow> core s' = core s"
  by (auto simp: write_volume_block_from_def split: if_splits dest!: hw_only_block_write hw_only_core)

lemma core_bitmap_bit_set [fs_core]: "bitmap_bit_set a n b s = (r, s') \<Longrightarrow> core s' = core s"
  by (auto simp: bitmap_bit_set_def Let_def split: if_splits prod.splits dest!: core_read)

lemma core_bitmap_update [fs_core]: "bitmap_update a n b v s = (r, s') \<Longrightarrow> core s' = core s"
  by (auto simp: bitmap_update_def Let_def split: if_splits prod.splits dest!: core_read core_write)

lemma core_snd1 [simp]: "core (snd (bitmap_update a n b v s)) = core s" "core (snd (write_volume_block_from n buf s)) = core s"
  by (cases "bitmap_update a n b v s", simp add: core_bitmap_update) (cases "write_volume_block_from n buf s", simp add: core_write)

lemma core_allocate_loop: "allocate_bitmap_loop k a n b l s = (r, s') \<Longrightarrow> core s' = core s"
proof (induction k arbitrary: b l s r s')
  case (Suc k)
  from Suc.prems show ?case
    by (auto simp: Let_def split: if_splits prod.splits dest!: core_read core_write Suc.IH)
qed simp

lemma core_allocate_bit [fs_core]: "allocate_bitmap_bit a n b l s = (r, s') \<Longrightarrow> core s' = core s"
  by (auto simp: allocate_bitmap_bit_def split: if_splits dest!: core_allocate_loop)

lemma core_read_inode [fs_core]: "read_inode_internal n s = (r, s') \<Longrightarrow> core s' = core s"
  by (auto simp: read_inode_internal_def Let_def split: if_splits prod.splits option.splits dest!: core_read core_bitmap_bit_set)

lemma core_write_inode [fs_core]: "write_inode_internal n i s = (r, s') \<Longrightarrow> core s' = core s"
  by (auto simp: write_inode_internal_def Let_def split: if_splits prod.splits dest!: core_read core_write)

lemma core_allocate_inode [fs_core]: "allocate_inode s = (r, s') \<Longrightarrow> core s' = core s"
  by (auto simp: allocate_inode_def Let_def dest!: core_allocate_bit)

lemma core_free_inode [fs_core]: "free_inode n s = (r, s') \<Longrightarrow> core s' = core s"
  by (auto simp: free_inode_def Let_def split: if_splits dest!: core_bitmap_update)

lemma core_clear_inode_record [fs_core]: "clear_inode_record n s = (r, s') \<Longrightarrow> core s' = core s"
  by (auto simp: clear_inode_record_def Let_def split: if_splits prod.splits dest!: core_read core_write)

lemma core_data_block_allocated [fs_core]: "data_block_allocated b s = (r, s') \<Longrightarrow> core s' = core s"
  by (auto simp: data_block_allocated_def split: if_splits dest!: core_bitmap_bit_set)

lemma core_allocate_block [fs_core]: "allocate_block s = (r, s') \<Longrightarrow> core s' = core s"
  by (auto simp: allocate_block_def Let_def core_snd1 split: if_splits prod.splits sum.splits dest!: core_allocate_bit core_write)

lemma core_free_block [fs_core]: "free_block b s = (r, s') \<Longrightarrow> core s' = core s"
  by (auto simp: free_block_def split: if_splits dest!: core_bitmap_update)

lemma core_inode_block_at [fs_core]: "inode_block_at i b s = (r, s') \<Longrightarrow> core s' = core s"
  by (auto simp: inode_block_at_def Let_def split: if_splits prod.splits dest!: core_read core_data_block_allocated)

lemma core_snd2 [simp]: "core (snd (free_block b s)) = core s" "core (snd (free_inode n s)) = core s" "core (snd (clear_inode_record n s)) = core s"
  by (cases "free_block b s", simp add: core_free_block) (cases "free_inode n s", simp add: core_free_inode,
    cases "clear_inode_record n s", simp add: core_clear_inode_record)

lemma core_undo [simp]: "core (undo_indirect n s) = core s" "core (rollback_created_inode n s) = core s"
  by (simp_all add: undo_indirect_def rollback_created_inode_def Let_def)

lemma core_find_in_block [fs_core]: "find_in_block n i fb c s = (r, s') \<Longrightarrow> core s' = core s"
proof (induction n arbitrary: i s r)
  case (Suc n)
  from Suc.prems show ?case
    by (auto simp: Let_def split: if_splits prod.splits sum.splits dest!: core_read_inode Suc.IH)
qed simp

lemma core_find_in_blocks: "find_in_blocks n fb d c s = (r, s') \<Longrightarrow> core s' = core s"
proof (induction n arbitrary: fb s rule: less_induct)
  case (less n)
  from less.prems show ?case
    by (subst (asm) find_in_blocks.simps)
      (auto simp: Let_def split: prod.splits sum.splits option.splits if_splits dest!: core_inode_block_at core_read core_find_in_block less.IH [rotated])
qed

lemma core_directory_find_internal [fs_core]: "directory_find_internal d c s = (r, s') \<Longrightarrow> core s' = core s"
  by (auto simp: directory_find_internal_def split: if_splits dest!: core_find_in_blocks)

lemma core_directory_find [fs_core]: "directory_find d c s = (r, s') \<Longrightarrow> core s' = core s"
  by (auto simp: directory_find_def split: prod.splits sum.splits dest!: core_directory_find_internal)

lemma core_lookup_walk: "lookup_walk path n index cur s = (r, s') \<Longrightarrow> core s' = core s"
proof (induction "n - index" arbitrary: index cur s rule: less_induct)
  case less
  from less.prems show ?case
    by (subst (asm) lookup_walk.simps)
      (auto simp: Let_def path_step split: prod.splits sum.splits option.splits if_splits dest!: core_read_inode core_directory_find less.hyps [rotated])
qed

lemma core_lookup [fs_core]: "lookup_locked path s = (r, s') \<Longrightarrow> core s' = core s"
  by (auto simp: lookup_locked_def Let_def split: prod.splits sum.splits if_splits dest!: core_lookup_walk core_read_inode)

lemma parent_step:
  assumes "skip_component path n (skip_slashes path n index) = Some stop" and "index < n" and "\<not> n \<le> skip_slashes path n index"
  shows "n - skip_slashes path n stop < n - index"
  using path_step [OF assms] skip_slashes_ge [of stop path n] by linarith

lemma core_parent_walk: "parent_walk path n index cur s = (r, s') \<Longrightarrow> core s' = core s"
proof (induction "n - index" arbitrary: index cur s rule: less_induct)
  case less
  from less.prems show ?case
    by (subst (asm) parent_walk.simps)
      (auto simp: Let_def parent_step split: prod.splits sum.splits option.splits if_splits dest!: core_read_inode core_directory_find less.hyps [rotated])
qed

lemma core_resolve_parent [fs_core]: "resolve_parent_locked path s = (r, s') \<Longrightarrow> core s' = core s"
  by (auto simp: resolve_parent_locked_def split: sum.splits if_splits dest!: core_parent_walk)

lemma core_write_chunk_existing: "write_chunk_existing n i off src s = (r, i', s') \<Longrightarrow> core s' = core s"
  by (auto simp: write_chunk_existing_def Let_def split: prod.splits sum.splits if_splits
      dest!: core_inode_block_at core_read core_write core_write_inode)

lemma core_write_chunk_append: "write_chunk_append n i off src s = (r, i', s') \<Longrightarrow> core s' = core s"
  unfolding write_chunk_append_def Let_def
  by (auto split: prod.splits sum.splits if_splits
      dest!: core_allocate_block core_read core_read_into core_write core_write_inode)

lemma core_write_chunk [fs_core]: "write_chunk_locked n i off src s = (r, i', s') \<Longrightarrow> core s' = core s"
  by (auto simp: write_chunk_locked_def Let_def split: if_splits dest!: core_write_chunk_existing core_write_chunk_append)

lemma core_unused_slot [fs_core]: "unused_slot d off s = (r, s') \<Longrightarrow> core s' = core s"
proof (induction "unat (i_size d) - off" arbitrary: off s rule: less_induct)
  case less
  from less.prems show ?case
    by (subst (asm) unused_slot.simps)
      (auto split: prod.splits sum.splits if_splits dest!: core_inode_block_at core_read less.hyps [rotated])
qed

lemma core_directory_append [fs_core]: "directory_append_locked n d c t name s = (r, d', s') \<Longrightarrow> core s' = core s"
  by (auto simp: directory_append_locked_def Let_def split: prod.splits sum.splits if_splits
      dest!: core_unused_slot core_write_chunk core_write_inode)

lemma core_create [fs_core]: "create_locked path s = (r, s') \<Longrightarrow> core s' = core s"
  by (auto simp: create_locked_def split: prod.splits sum.splits if_splits
      dest!: core_resolve_parent core_directory_find core_allocate_inode core_write_inode core_directory_append)

lemma core_directory_empty_from: "directory_empty_from d off s = (r, s') \<Longrightarrow> core s' = core s"
proof (induction "unat (i_size d) - off" arbitrary: off s rule: less_induct)
  case less
  from less.prems show ?case
    by (subst (asm) directory_empty_from.simps)
      (auto simp: Let_def split: prod.splits sum.splits if_splits dest!: core_inode_block_at core_read less.hyps [rotated])
qed

lemma core_directory_empty [fs_core]: "directory_empty_locked d s = (r, s') \<Longrightarrow> core s' = core s"
  by (auto simp: directory_empty_locked_def split: if_splits dest!: core_directory_empty_from)

lemma core_free_blocks [fs_core]: "free_blocks bs s = (r, s') \<Longrightarrow> core s' = core s"
proof (induction bs arbitrary: s)
  case (Cons b bs)
  from Cons.prems show ?case by (auto split: prod.splits if_splits dest!: core_free_block Cons.IH)
qed simp

lemma core_release_inode [fs_core]: "release_inode_locked n i s = (r, s') \<Longrightarrow> core s' = core s"
  unfolding release_inode_locked_def Let_def
  by (auto split: prod.splits if_splits dest!: core_read_into core_free_blocks core_free_block core_clear_inode_record core_free_inode)

lemma core_mkdir [fs_core]: "mkdir_locked path s = (r, s') \<Longrightarrow> core s' = core s"
  unfolding mkdir_locked_def Let_def
  by (auto split: prod.splits sum.splits if_splits bool.splits
      dest!: core_resolve_parent core_directory_find core_allocate_inode core_allocate_block core_write core_write_inode core_directory_append)

lemma core_unlink [fs_core]: "unlink_locked path s = (r, s') \<Longrightarrow> core s' = core s"
  unfolding unlink_locked_def Let_def
  by (auto split: prod.splits sum.splits if_splits
      dest!: core_resolve_parent core_directory_find_internal core_read_inode core_directory_empty core_inode_block_at core_read core_write core_write_inode core_release_inode)

lemma core_read_loop [fs_core]: "read_loop i off len k s = (r, bs, s') \<Longrightarrow> core s' = core s"
proof (induction "len - k" arbitrary: k s bs r s' rule: less_induct)
  case less
  have pos: "unat ((off + of_nat k) mod 4096) < 4096" by (simp add: unat_mod)
  from less.prems show ?case
    by (subst (asm) read_loop.simps)
      (use pos in \<open>auto simp: Let_def split: prod.splits sum.splits if_splits dest!: core_inode_block_at core_read less.hyps [rotated]\<close>)
qed

lemma core_readdir_loop [fs_core]: "readdir_loop d off s = (r, s') \<Longrightarrow> core s' = core s"
proof (induction "unat (i_size d) - off" arbitrary: off s rule: less_induct)
  case less
  from less.prems show ?case
    by (subst (asm) readdir_loop.simps)
      (auto simp: Let_def split: prod.splits sum.splits if_splits dest!: core_inode_block_at core_read core_read_inode less.hyps [rotated])
qed

lemma core_write_loop [fs_core]: "write_loop n i off src k s = (r, s') \<Longrightarrow> core s' = core s"
proof (induction "length src - k" arbitrary: k i s r s' rule: less_induct)
  case less
  have pos: "unat ((off + of_nat k) mod 4096) < 4096" by (simp add: unat_mod)
  from less.prems show ?case
    by (subst (asm) write_loop.simps)
      (use pos in \<open>auto simp: Let_def split: prod.splits if_splits dest!: core_write_chunk less.hyps [rotated]\<close>)
qed

lemma core_truncate [fs_core]: "truncate_locked n sz s = (r, s') \<Longrightarrow> core s' = core s"
  unfolding truncate_locked_def Let_def
  by (auto split: prod.splits sum.splits if_splits
      dest!: core_read_inode core_read_into core_write core_write_inode core_free_blocks core_free_block)

subsection \<open>The lock\<close>

lemma minifs_acquire_busy: "operation_busy s \<Longrightarrow> minifs_acquire s = (None, s)"
proof -
  assume busy: "operation_busy s"
  obtain f m where i: "irq_save_disable (cpu s) = (f, m)" by fastforce
  then show ?thesis using busy irq_restore_save [OF i] by (simp add: minifs_acquire_def)
qed

lemma minifs_acquire_None: "minifs_acquire s = (None, s1) \<Longrightarrow> s1 = s \<and> operation_busy s"
  using minifs_acquire_busy [of s] by (cases "operation_busy s") (auto simp: minifs_acquire_def split: prod.splits)

lemma minifs_acquire_Some:
  assumes "minifs_acquire s = (Some f, s1)"
  shows "f = eflags (cpu s)" "s1 = s\<lparr>cpu := snd (irq_save_disable (cpu s)), operation_busy := True\<rparr>" "\<not> operation_busy s"
  using assms by (auto simp: minifs_acquire_def irq_save_disable_def irq_read_flags_def split: if_splits)

lemma minifs_release_core:
  assumes a: "minifs_acquire s = (Some f, s1)" and c: "core s2 = core s1"
  shows "core (minifs_release f s2) = core s"
proof -
  note s1 = minifs_acquire_Some [OF a]
  have "irq_restore f (snd (irq_save_disable (cpu s))) = cpu s"
    unfolding s1(1) by (rule irq_restore_save) (simp add: irq_save_disable_def irq_read_flags_def)
  moreover have "cpu s2 = snd (irq_save_disable (cpu s))" using core_eqD(1) [OF c] s1(2) by simp
  ultimately show ?thesis using c s1(2,3) by (simp add: core_def minifs_release_def)
qed

lemmas lock_cases = minifs_release_core minifs_acquire_None [THEN conjunct1]

lemma core_minifs_lookup: "core (snd (minifs_lookup path s)) = core s"
  by (auto simp: minifs_lookup_def split: prod.splits option.splits dest: fs_core lock_cases(2) intro!: lock_cases(1))

lemma core_minifs_stat_inode: "core (snd (minifs_stat_inode n s)) = core s"
  by (auto simp: minifs_stat_inode_def split: prod.splits option.splits sum.splits dest: fs_core lock_cases(2) intro!: lock_cases(1))

lemma core_minifs_read: "core (snd (snd (minifs_read n off len s))) = core s"
proof -
  have "core (snd (snd (case read_inode_internal n s1 of (Inl e, s) \<Rightarrow> (e, [], minifs_release f s)
     | (Inr inode, s) \<Rightarrow> if i_mode inode = MINIFS_MODE_DIRECTORY then (- MINIOS_EISDIR, [], minifs_release f s)
         else if off \<ge> i_size inode \<or> len = 0 then (0, [], minifs_release f s)
         else let len = (if len > unat (i_size inode - off) then unat (i_size inode - off) else len)
              in case read_loop inode off len 0 s of (result, bytes, s) \<Rightarrow> (result, bytes, minifs_release f s)))) = core s"
    if "minifs_acquire s = (Some f, s1)" for f s1
    unfolding Let_def using that
    by (auto split: prod.splits sum.splits simp del: if_split intro!: lock_cases(1) dest!: core_read_inode core_read_loop split: if_split)
  then show ?thesis by (auto simp: minifs_read_def split: prod.splits option.splits dest: lock_cases(2))
qed

lemma core_minifs_create: "core (snd (minifs_create path s)) = core s"
  by (auto simp: minifs_create_def split: prod.splits option.splits dest: fs_core lock_cases(2) intro!: lock_cases(1))

lemma core_minifs_mkdir: "core (snd (minifs_mkdir path s)) = core s"
  by (auto simp: minifs_mkdir_def split: prod.splits option.splits dest: fs_core lock_cases(2) intro!: lock_cases(1))

lemma core_minifs_unlink: "core (snd (minifs_unlink path s)) = core s"
  by (auto simp: minifs_unlink_def split: prod.splits option.splits dest: fs_core lock_cases(2) intro!: lock_cases(1))

lemma core_minifs_truncate: "core (snd (minifs_truncate n sz s)) = core s"
  by (auto simp: minifs_truncate_def split: prod.splits option.splits dest: fs_core lock_cases(2) intro!: lock_cases(1))

lemma core_minifs_readdir: "core (snd (minifs_readdir n off s)) = core s"
  by (auto simp: minifs_readdir_def split: prod.splits option.splits sum.splits dest!: core_read_inode core_readdir_loop lock_cases(2) intro!: lock_cases(1))

lemma core_minifs_write: "core (snd (minifs_write n off buf s)) = core s"
  by (auto simp: minifs_write_def split: prod.splits option.splits sum.splits dest!: core_read_inode core_write_loop lock_cases(2) intro!: lock_cases(1))

lemma core_metadata_allocated [fs_core]: "metadata_allocated n b s = (r, s') \<Longrightarrow> core s' = core s"
proof (induction n arbitrary: b s)
  case (Suc n)
  from Suc.prems show ?case by (auto split: prod.splits if_splits dest!: core_bitmap_bit_set Suc.IH)
qed simp

lemma core_mount_checks [fs_core]: "mount_checks sb s = (r, s') \<Longrightarrow> core s' = core s"
  by (auto simp: mount_checks_def split: prod.splits sum.splits if_splits dest!: core_metadata_allocated core_bitmap_bit_set core_read_inode)

lemma minifs_release_mount:
  assumes a: "minifs_acquire s = (Some f, s1)" and c: "core s2 = core (s1\<lparr>mounted := b, mounted_superblock := x\<rparr>)"
  shows "core (minifs_release f s2) = core (s\<lparr>mounted := b, mounted_superblock := x\<rparr>)"
proof -
  have "core (s2\<lparr>mounted := mounted s1, mounted_superblock := mounted_superblock s1\<rparr>) = core s1" using c by (simp add: core_def)
  from minifs_release_core [OF a this] have "core (minifs_release f s2\<lparr>mounted := b, mounted_superblock := x\<rparr>) = core (s\<lparr>mounted := b, mounted_superblock := x\<rparr>)"
    by (simp add: core_def minifs_release_def)
  moreover have "mounted s2 = b" "mounted_superblock s2 = x" using core_eqD(2,3) [OF c] by simp_all
  ultimately show ?thesis by (simp add: core_def minifs_release_def)
qed

lemma core_minifs_mount:
  "case minifs_mount s of (r, s') \<Rightarrow> if operation_busy s then r = - MINIOS_EAGAIN \<and> s' = s
     else core s' = core (s\<lparr>mounted := (r = 0), mounted_superblock := (if r = 0 then mounted_superblock s' else empty_superblock)\<rparr>)"
proof (cases "operation_busy s")
  case False
  obtain f s1 where a: "minifs_acquire s = (Some f, s1)" using False by (cases "irq_save_disable (cpu s)") (simp add: minifs_acquire_def)
  note m = minifs_release_mount [OF a]
  let ?s = "s1\<lparr>mounted := False, mounted_superblock := empty_superblock\<rparr>"
  have k: "core t = core ?s" if "block_read n c ?s = (r, bs, t)" for n c r bs t
    using hw_only_core [OF hw_only_block_read [OF that]] .
  show ?thesis
    using False a
    by (auto simp: minifs_mount_def Let_def clear_superblock_def split: prod.splits option.splits if_splits
        dest!: k core_mount_checks intro!: m) (simp_all add: core_def minifs_release_def)
qed (simp add: minifs_mount_def minifs_acquire_busy)


text \<open>
  While an operation holds the lock, every other one returns \<open>-EAGAIN\<close> and changes nothing at all:
  not the disk, not the buffers the first one works in.
\<close>

theorem minifs_busy_refused:
  assumes "operation_busy s" and "mounted s"
  shows "minifs_lookup path s = (Inl (- MINIOS_EAGAIN), s) \<and> minifs_stat_inode n s = (Inl (- MINIOS_EAGAIN), s) \<and>
    minifs_read n off len s = (- MINIOS_EAGAIN, [], s) \<and> minifs_create path s = (Inl (- MINIOS_EAGAIN), s) \<and>
    minifs_mkdir path s = (- MINIOS_EAGAIN, s) \<and> minifs_unlink path s = (- MINIOS_EAGAIN, s) \<and>
    (off mod 64 = 0 \<longrightarrow> minifs_readdir n off s = (Inl (- MINIOS_EAGAIN), s)) \<and>
    (length buf \<le> unat (4235264 - off) \<and> off \<le> 4235264 \<longrightarrow> minifs_write n off buf s = (- MINIOS_EAGAIN, s)) \<and>
    (sz \<le> 4235264 \<longrightarrow> minifs_truncate n sz s = (- MINIOS_EAGAIN, s)) \<and> minifs_mount s = (- MINIOS_EAGAIN, s)"
proof -
  note b = minifs_acquire_busy [OF assms(1)]
  have "minifs_write n off buf s = (- MINIOS_EAGAIN, s)" if "length buf \<le> unat (4235264 - off)" "off \<le> 4235264"
  proof -
    have "unat (4235264 - off) \<le> 4235264" using that(2) by (simp add: unat_sub)
    then have "\<not> length buf > 0x7FFFFFFF" using that(1) by simp
    then show ?thesis using that assms(2) by (simp add: minifs_write_def b not_less)
  qed
  then show ?thesis
    using assms(2)
    by (auto simp: minifs_lookup_def minifs_stat_inode_def minifs_read_def minifs_create_def minifs_mkdir_def minifs_unlink_def
        minifs_readdir_def minifs_truncate_def minifs_mount_def b not_less)
qed

definition sample_minifs :: minifs where
  "sample_minifs = \<lparr>cpu = sample_machine, hw = sample_hw, device_sector_count = 64, device_ready = True, ata_operation_busy = False,
     device_block_count = 8, volume_start_block = 0, volume_block_count = 8, mounted_superblock = empty_superblock,
     io_block = replicate 4096 0, auxiliary_block = replicate 4096 0, compare_buffer = replicate 4096 0, mounted = True,
     operation_busy = False\<rparr>"

theorem minifs_busy_refused_witness:
  "minifs_unlink [0x2F, 0x61] (sample_minifs\<lparr>operation_busy := True\<rparr>) = (- MINIOS_EAGAIN, sample_minifs\<lparr>operation_busy := True\<rparr>)"
  using minifs_busy_refused [of "sample_minifs\<lparr>operation_busy := True\<rparr>" "[0x2F, 0x61]"] by (simp add: sample_minifs_def)

end
