(* ===== verification/Minifs_Format.thy ===== *)
theory Minifs_Format
  imports Minifs_Codec
begin

text \<open>
  The on-disk format: the checksum of the superblock detects damage, and inodes and directory entries
  read back as they were written.
\<close>

subsection \<open>The checksum\<close>


lemma crc_bit_high: "bit (crc_bit crc) 31 \<longleftrightarrow> bit crc 0"
proof -
  have "bit (MINIFS_CRC32_POLYNOMIAL :: u32) 31" by simp
  moreover have "0 - (crc AND 1) = (if bit crc 0 then - 1 else 0 :: u32)"
    by (cases "odd crc") (simp_all add: and_one_eq bit_0 mod_2_eq_odd)
  ultimately show ?thesis unfolding crc_bit_def by (simp only: bit_xor_iff bit_and_iff bit_drop_bit_eq) (auto simp: bit_simps dest: bit_imp_le_length)
qed

lemma crc_bit_inj: "crc_bit x = crc_bit y \<Longrightarrow> x = y"
proof -
  assume e: "crc_bit x = crc_bit y"
  then have b: "bit x 0 = bit y 0" using crc_bit_high by metis
  then have "x AND 1 = y AND 1" by (simp add: and_one_eq mod_2_eq_odd bit_0)
  then have "drop_bit 1 x = drop_bit 1 y" using e unfolding crc_bit_def by (metis xor.commute xor_cancel)
  show "x = y"
  proof (rule bit_word_eqI)
    fix n
    show "bit x n = bit y n"
    proof (cases n)
      case 0
      then show ?thesis using b by simp
    next
      case (Suc m)
      then show ?thesis using arg_cong [OF \<open>drop_bit 1 x = drop_bit 1 y\<close>, of "\<lambda>w. bit w m"] by (simp add: bit_drop_bit_eq)
    qed
  qed
qed

lemma crc_byte_inj: "crc_byte v x = crc_byte v y \<Longrightarrow> x = y"
  unfolding crc_byte_def using for_range_inj [of "\<lambda>_. crc_bit", OF crc_bit_inj] xor_cancel [of "ucast v" x y] by (metis xor.commute)

lemma ucast_u8_inj: "(ucast (v :: u8) :: u32) = ucast w \<Longrightarrow> v = w"
  by (metis unat_u8_bit word_unat_eq_iff)

lemma crc_byte_value_inj: "crc_byte v x = crc_byte w x \<Longrightarrow> v = w"
  unfolding crc_byte_def using for_range_inj [of "\<lambda>_. crc_bit", OF crc_bit_inj] xor_cancel ucast_u8_inj by meson

lemma crc_differs:
  assumes "index < 4096" and "index < 52 \<or> 56 \<le> index" and "length block = 4096" and "v \<noteq> block ! index"
  shows "superblock_crc32 (block[index := v]) \<noteq> superblock_crc32 block"
proof
  let ?f = "\<lambda>b i. crc_byte (if 52 \<le> i \<and> i < 56 then 0 else b ! i)"
  let ?b = "block[index := v]"
  have split: "for_range 0 4096 (?f b) 0xFFFFFFFF = for_range (Suc index) 4096 (?f b) (?f b index (for_range 0 index (?f b) 0xFFFFFFFF))" for b
    using for_range_split [of 0 index 4096 "?f b" "0xFFFFFFFF"] for_range_first [of index 4096 "?f b"] assms(1) by simp
  have other: "for_range 0 index (?f ?b) = for_range 0 index (?f block)" "for_range (Suc index) 4096 (?f ?b) = for_range (Suc index) 4096 (?f block)"
    by (rule for_range_cong, simp)+
  assume "superblock_crc32 ?b = superblock_crc32 block"
  then have "for_range 0 4096 (?f ?b) 0xFFFFFFFF = for_range 0 4096 (?f block) 0xFFFFFFFF"
    unfolding superblock_crc32_def bit.compl_eq_compl_iff .
  then have "?f ?b index (for_range 0 index (?f block) 0xFFFFFFFF) = ?f block index (for_range 0 index (?f block) 0xFFFFFFFF)"
    unfolding split other by (rule for_range_inj [of "?f block", OF crc_byte_inj, rotated])
  then have "?b ! index = block ! index" using assms(2) crc_byte_value_inj by auto
  then have "v = block ! index" using assms(1,3) by simp
  then show False using assms(4) by simp
qed

subsection \<open>Fields of a buffer\<close>

lemma length_write [simp]:
  "length (write_le16 off v b) = length b" "length (write_le32 off w b) = length b"
  by (simp_all add: write_le16_def write_le32_def)

lemma length_clear_bytes [simp]: "length (clear_bytes off n b) = length b"
  and length_copy_bytes [simp]: "length (copy_bytes off src from n b) = length b"
  by (simp_all add: clear_bytes_def copy_bytes_def length_for_range)

lemma clear_bytes_nth: "j < length b \<Longrightarrow> clear_bytes off n b ! j = (if off \<le> j \<and> j < off + n then 0 else b ! j)"
  by (simp add: clear_bytes_def for_range_update_nth)

lemma copy_bytes_nth: "j < length b \<Longrightarrow> copy_bytes off src from n b ! j = (if off \<le> j \<and> j < off + n then src ! (from + (j - off)) else b ! j)"
  by (simp add: copy_bytes_def for_range_update_nth)

lemma le16_bytes: "(ucast (ucast (v :: u16) :: u8) :: u16) OR push_bit 8 (ucast (ucast (drop_bit 8 v) :: u8)) = v"
  by (rule bit_word_eqI) (auto simp: bit_simps)

lemma le32_bytes:
  "(ucast (ucast (v :: u32) :: u8) :: u32) OR push_bit 8 (ucast (ucast (drop_bit 8 v) :: u8)) OR
   push_bit 16 (ucast (ucast (drop_bit 16 v) :: u8)) OR push_bit 24 (ucast (ucast (drop_bit 24 v) :: u8)) = v"
  by (rule bit_word_eqI, rename_tac n, case_tac "n < 16"; case_tac "n < 24") (auto simp: bit_simps)

lemma read_write_le16: "off + 2 \<le> length b \<Longrightarrow> read_le16 (write_le16 off v b) off = v"
  using le16_bytes [of v] by (simp add: read_le16_def write_le16_def)

lemma read_write_le32: "off + 4 \<le> length b \<Longrightarrow> read_le32 (write_le32 off v b) off = v"
  using le32_bytes [of v] by (simp add: read_le32_def write_le32_def nth_list_update)

text \<open>A field only depends on its own bytes, and a write only changes them.\<close>

lemma read_le16_cong: "(\<And>j. off \<le> j \<Longrightarrow> j < off + 2 \<Longrightarrow> b ! j = c ! j) \<Longrightarrow> read_le16 b off = read_le16 c off"
  by (simp add: read_le16_def)

lemma read_le32_cong: "(\<And>j. off \<le> j \<Longrightarrow> j < off + 4 \<Longrightarrow> b ! j = c ! j) \<Longrightarrow> read_le32 b off = read_le32 c off"
  by (simp add: read_le32_def)

lemma read_le32_byte:
  assumes "j < 4"
  shows "ucast (drop_bit (8 * j) (read_le32 b off)) = b ! (off + j)"
proof (rule bit_word_eqI)
  fix n assume "n < LENGTH(8)"
  then have n: "n < 8" by simp
  consider "j = 0" | "j = 1" | "j = 2" | "j = 3" using assms by linarith
  then show "bit (ucast (drop_bit (8 * j) (read_le32 b off)) :: u8) n = bit (b ! (off + j)) n"
    using n by cases (auto simp: read_le32_def bit_simps dest: bit_imp_le_length)
qed

lemma read_le32_changed:
  assumes "off \<le> index" and "index < off + 4" and "index < length b" and "v \<noteq> b ! index"
  shows "read_le32 (b[index := v]) off \<noteq> read_le32 b off"
proof -
  have j: "index - off < 4" using assms(1,2) by linarith
  show ?thesis using read_le32_byte [OF j, of "b[index := v]" off] read_le32_byte [OF j, of b off] assms by auto
qed

lemma write_le16_nth: "j < off \<or> off + 2 \<le> j \<Longrightarrow> write_le16 off v b ! j = b ! j"
  by (auto simp: write_le16_def)

lemma write_le32_nth: "j < off \<or> off + 4 \<le> j \<Longrightarrow> write_le32 off v b ! j = b ! j"
  by (auto simp: write_le32_def)

lemma read_le16_write16: "off' + 2 \<le> off \<or> off + 2 \<le> off' \<Longrightarrow> read_le16 (write_le16 off v b) off' = read_le16 b off'"
  by (rule read_le16_cong) (auto intro!: write_le16_nth)

lemma read_le16_write32: "off' + 2 \<le> off \<or> off + 4 \<le> off' \<Longrightarrow> read_le16 (write_le32 off w b) off' = read_le16 b off'"
  by (rule read_le16_cong) (auto intro!: write_le32_nth)

lemma read_le32_write16: "off' + 4 \<le> off \<or> off + 2 \<le> off' \<Longrightarrow> read_le32 (write_le16 off v b) off' = read_le32 b off'"
  by (rule read_le32_cong) (auto intro!: write_le16_nth)

lemma read_le32_write32: "off' + 4 \<le> off \<or> off + 4 \<le> off' \<Longrightarrow> read_le32 (write_le32 off w b) off' = read_le32 b off'"
  by (rule read_le32_cong) (auto intro!: write_le32_nth)

lemmas field_simps_le = read_write_le16 read_write_le32 read_le16_write16 read_le16_write32 read_le32_write16 read_le32_write32

subsection \<open>Inodes\<close>

lemma length_encode_inode [simp]: "length (encode_inode inode off b) = length b"
  by (simp add: encode_inode_def Let_def length_for_range)

text \<open>The pointer loop of \<open>encode_inode\<close>.\<close>

lemma pointer_loop:
  assumes "off + 40 \<le> length b" and "k \<le> 10"
  shows "(\<forall>i<k. read_le32 (for_range 0 k (\<lambda>index. write_le32 (off + index * 4) (f index)) b) (off + i * 4) = f i) \<and>
    (\<forall>j. j < off \<or> off + 4 * k \<le> j \<longrightarrow> for_range 0 k (\<lambda>index. write_le32 (off + index * 4) (f index)) b ! j = b ! j)"
proof -
  let ?I = "\<lambda>k d. length d = length b \<and> (\<forall>i<k. read_le32 d (off + i * 4) = f i) \<and> (\<forall>j. j < off \<or> off + 4 * k \<le> j \<longrightarrow> d ! j = b ! j)"
  have "?I k (for_range 0 k (\<lambda>index. write_le32 (off + index * 4) (f index)) b)"
  proof (rule for_range_rule [where I = ?I])
    fix i s
    assume i: "i < k" and I: "?I i s"
    have read: "read_le32 s (off + j * 4) = f j" if "j < i" for j using I that by blast
    have same: "s ! j = b ! j" if "j < off \<or> off + 4 * i \<le> j" for j using I that by blast
    have "off + i * 4 + 4 \<le> length s" using i assms I by linarith
    then have "read_le32 (write_le32 (off + i * 4) (f i) s) (off + i * 4) = f i" by (rule read_write_le32)
    moreover have "read_le32 (write_le32 (off + i * 4) (f i) s) (off + j * 4) = f j" if "j < i" for j
      using read [OF that] that by (subst read_le32_write32) simp_all
    moreover have "write_le32 (off + i * 4) (f i) s ! j = b ! j" if "j < off \<or> off + 4 * Suc i \<le> j" for j
      using same [of j] that by (subst write_le32_nth) auto
    moreover have "length (write_le32 (off + i * 4) (f i) s) = length b" using I by simp
    ultimately show "?I (Suc i) (write_le32 (off + i * 4) (f i) s)" unfolding less_Suc_eq by blast
  qed simp_all
  then show ?thesis by blast
qed

definition valid_inode :: "minifs_inode \<Rightarrow> bool" where
  "valid_inode inode \<longleftrightarrow> length (i_direct inode) = 10 \<and> i_mode inode \<in> {MINIFS_MODE_REGULAR, MINIFS_MODE_DIRECTORY} \<and>
     i_link_count inode \<noteq> 0 \<and> i_size inode \<le> MINIFS_MAX_FILE_SIZE \<and>
     (i_mode inode = MINIFS_MODE_DIRECTORY \<longrightarrow> i_size inode \<noteq> 0 \<and> i_size inode mod MINIFS_DIRECTORY_ENTRY_SIZE = 0)"

lemma encode_inode_fields:
  fixes inode
  assumes "off + 64 \<le> length b"
  defines "e \<equiv> encode_inode inode off b"
  shows "read_le16 e off = i_mode inode" "read_le16 e (off + 2) = i_link_count inode" "read_le32 e (off + 4) = i_size inode"
    "\<And>i. i < 10 \<Longrightarrow> read_le32 e (off + 8 + i * 4) = i_direct inode ! i" "read_le32 e (off + 48) = i_indirect inode"
    "read_le32 e (off + 52) = i_created_tick inode" "read_le32 e (off + 56) = i_modified_tick inode" "read_le32 e (off + 60) = 0"
    "\<And>j. j < length b \<Longrightarrow> j < off \<or> off + 64 \<le> j \<Longrightarrow> e ! j = b ! j"
proof -
  define h where "h = write_le32 (off + 4) (i_size inode) (write_le16 (off + 2) (i_link_count inode) (write_le16 off (i_mode inode) (clear_bytes off 64 b)))"
  define p where "p = for_range 0 10 (\<lambda>index. write_le32 (off + 8 + index * 4) (i_direct inode ! index)) h"
  have e: "e = write_le32 (off + 56) (i_modified_tick inode) (write_le32 (off + 52) (i_created_tick inode) (write_le32 (off + 48) (i_indirect inode) p))"
    by (simp add: e_def encode_inode_def p_def h_def Let_def)
  have len: "length h = length b" "length p = length b" by (simp_all add: h_def p_def length_for_range)
  have p: "\<And>i. i < 10 \<Longrightarrow> read_le32 p (off + 8 + i * 4) = i_direct inode ! i" "\<And>j. j < off + 8 \<or> off + 48 \<le> j \<Longrightarrow> p ! j = h ! j"
    using pointer_loop [of "off + 8" h 10 "\<lambda>i. i_direct inode ! i"] assms(1) len by (auto simp: p_def)
  have ph: "read_le16 p off = read_le16 h off" "read_le16 p (off + 2) = read_le16 h (off + 2)" "read_le32 p (off + 4) = read_le32 h (off + 4)"
    "read_le32 p (off + 60) = read_le32 h (off + 60)"
    by (rule read_le16_cong read_le32_cong; rule p(2); linarith)+
  have hz: "read_le32 h (off + 60) = 0"
    using assms(1) by (simp add: h_def field_simps_le) (simp add: read_le32_def clear_bytes_nth)
  show "read_le16 e off = i_mode inode" "read_le16 e (off + 2) = i_link_count inode" "read_le32 e (off + 4) = i_size inode"
    "read_le32 e (off + 48) = i_indirect inode" "read_le32 e (off + 52) = i_created_tick inode" "read_le32 e (off + 56) = i_modified_tick inode"
    "read_le32 e (off + 60) = 0"
    using assms(1) by (simp_all add: e field_simps_le ph hz len del: add_2_eq_Suc') (simp_all add: h_def field_simps_le del: add_2_eq_Suc')
  show "read_le32 e (off + 8 + i * 4) = i_direct inode ! i" if "i < 10" for i using p(1) [OF that] that by (simp add: e field_simps_le)
  show "e ! j = b ! j" if "j < length b" "j < off \<or> off + 64 \<le> j" for j
    using that p(2) [of j] by (auto simp: e write_le32_nth h_def write_le16_nth clear_bytes_nth)
qed

lemma inode_roundtrip_at:
  assumes "valid_inode inode" and "off + 64 \<le> length b"
  shows "decode_inode (encode_inode inode off b) off = Some inode"
proof -
  note f = encode_inode_fields [OF assms(2), where inode = inode]
  have "map (\<lambda>i. read_le32 (encode_inode inode off b) (off + 8 + i * 4)) [0..<10] = i_direct inode"
    using assms(1) f(4) by (intro nth_equalityI) (simp_all add: valid_inode_def)
  then show ?thesis using assms(1) by (auto simp: decode_inode_def Let_def f valid_inode_def simp del: add_2_eq_Suc')
qed

lemma decode_inode_cong:
  assumes "\<And>j. off \<le> j \<Longrightarrow> j < off + 64 \<Longrightarrow> b ! j = c ! j"
  shows "decode_inode b off = decode_inode c off"
proof -
  have "read_le32 b (off + k) = read_le32 c (off + k)" if "k + 4 \<le> 64" for k
    using that by (intro read_le32_cong assms) linarith+
  moreover have "read_le16 b (off + k) = read_le16 c (off + k)" if "k + 2 \<le> 64" for k
    using that by (intro read_le16_cong assms) linarith+
  moreover have "map (\<lambda>i. read_le32 b (off + 8 + i * 4)) [0..<10] = map (\<lambda>i. read_le32 c (off + 8 + i * 4)) [0..<10]"
    using calculation(1) [of "8 + _ * 4"] by (simp add: add.assoc)
  moreover have "read_le16 b off = read_le16 c off" using calculation(2) [of 0] by simp
  ultimately show ?thesis by (simp add: decode_inode_def del: add_2_eq_Suc')
qed

lemma decode_inode_valid: "decode_inode b off = Some inode \<Longrightarrow> valid_inode inode"
  by (auto simp: decode_inode_def Let_def valid_inode_def not_less split: if_splits del: mod_0_imp_dvd)

subsection \<open>Directory entries\<close>

definition valid_name :: "u8 list \<Rightarrow> bool" where
  "valid_name name \<longleftrightarrow> name \<noteq> [] \<and> length name \<le> MINIFS_NAME_MAX \<and> (\<forall>c\<in>set name. c \<noteq> 0 \<and> c \<le> 0x7F \<and> c \<noteq> 0x2F)"

lemma name_valid_from_end: "(\<And>j. j < n \<Longrightarrow> name ! (off + index + j) = 0) \<Longrightarrow> name_valid_from name off index n True"
proof (induction n arbitrary: index)
  case (Suc n)
  have "name ! (off + index) = 0" using Suc.prems [of 0] by simp
  moreover have "name_valid_from name off (Suc index) n True"
  proof (rule Suc.IH)
    fix j assume "j < n"
    then show "name ! (off + Suc index + j) = 0" using Suc.prems [of "Suc j"] by simp
  qed
  ultimately show ?case by simp
qed simp

lemma name_valid_fromI:
  assumes "k < n" and "0 < index + k" and "\<And>j. j < k \<Longrightarrow> name ! (off + index + j) \<noteq> 0 \<and> name ! (off + index + j) \<le> 0x7F \<and> name ! (off + index + j) \<noteq> 0x2F"
    and "\<And>j. k \<le> j \<Longrightarrow> j < n \<Longrightarrow> name ! (off + index + j) = 0"
  shows "name_valid_from name off index n False"
  using assms
proof (induction n arbitrary: index k)
  case (Suc n)
  show ?case
  proof (cases k)
    case 0
    have "name ! (off + Suc index + j) = 0" if "j < n" for j using Suc.prems(4) [of "Suc j"] that 0 by simp
    then have "name_valid_from name off (Suc index) n True" by (rule name_valid_from_end)
    then show ?thesis using Suc.prems(2) Suc.prems(4) [of 0] 0 by simp
  next
    case (Suc k')
    have "name_valid_from name off (Suc index) n False"
    proof (rule Suc.IH [of k'])
      fix j
      show "name ! (off + Suc index + j) \<noteq> 0 \<and> name ! (off + Suc index + j) \<le> 0x7F \<and> name ! (off + Suc index + j) \<noteq> 0x2F" if "j < k'"
        using Suc.prems(3) [of "Suc j"] that Suc by simp
      show "name ! (off + Suc index + j) = 0" if "k' \<le> j" "j < n" using Suc.prems(4) [of "Suc j"] that Suc by simp
    qed (use Suc.prems(1) Suc in simp_all)
    then show ?thesis using Suc.prems(3) [of 0] Suc by (simp add: not_less)
  qed
qed simp

lemma encode_directory_entry_bytes:
  fixes child ty
  assumes "off + 64 \<le> length b" and "length name \<le> 58"
  defines "e \<equiv> encode_directory_entry off child ty name b"
  shows "length e = length b" "read_le32 e off = child" "e ! (off + 4) = ty"
    "\<And>i. i < 59 \<Longrightarrow> e ! (off + 5 + i) = (if i < length name then name ! i else 0)"
    "\<And>j. j < length b \<Longrightarrow> j < off \<or> off + 64 \<le> j \<Longrightarrow> e ! j = b ! j"
proof -
  define h where "h = (write_le32 off child (clear_bytes off 64 b))[off + 4 := ty]"
  have e: "e = for_range 0 (length name) (\<lambda>i d. d[off + 5 + i := name ! i]) h"
    by (simp add: e_def encode_directory_entry_def h_def Let_def)
  have len: "length h = length b" by (simp add: h_def)
  then show "length e = length b" by (simp add: e length_for_range)
  have nth: "e ! j = (if off + 5 \<le> j \<and> j < off + 5 + length name then name ! (j - (off + 5)) else h ! j)" if "j < length b" for j
    using that len by (simp add: e for_range_update_nth)
  have h: "h ! j = (if j = off + 4 then ty else write_le32 off child (clear_bytes off 64 b) ! j)" if "j < length b" for j
    using that by (simp add: h_def list_update_nth)
  have "read_le32 e off = read_le32 (write_le32 off child (clear_bytes off 64 b)) off"
    by (rule read_le32_cong) (use assms(1) in \<open>simp add: nth h\<close>)
  then show "read_le32 e off = child" using assms(1) by (simp add: read_write_le32)
  show "e ! (off + 4) = ty" using assms(1) by (simp add: nth h)
  show "e ! (off + 5 + i) = (if i < length name then name ! i else 0)" if "i < 59" for i
    using that assms(1) by (simp add: nth h write_le32_nth clear_bytes_nth)
  show "e ! j = b ! j" if "j < length b" "j < off \<or> off + 64 \<le> j" for j
    using that assms(2) by (auto simp: nth h write_le32_nth clear_bytes_nth)
qed

lemma encoded_name_valid:
  assumes "valid_name name" and "\<And>i. i < 59 \<Longrightarrow> e ! (p + i) = (if i < length name then name ! i else 0)"
  shows "directory_name_valid e p"
  unfolding directory_name_valid_def
proof (rule name_valid_fromI [of "length name"])
  show "length name < 59" "0 < 0 + length name" using assms(1) by (auto simp: valid_name_def)
  fix j
  show "e ! (p + 0 + j) \<noteq> 0 \<and> e ! (p + 0 + j) \<le> 0x7F \<and> e ! (p + 0 + j) \<noteq> 0x2F" if "j < length name"
    using assms that nth_mem [OF that] by (auto simp: valid_name_def)
  show "e ! (p + 0 + j) = 0" if "length name \<le> j" "j < 59" using assms(2) [of j] that by simp
qed

lemma encoded_name_equal:
  assumes "valid_name name" and "0 \<notin> set component" and "\<And>i. i < 59 \<Longrightarrow> e ! (p + i) = (if i < length name then name ! i else 0)"
  shows "directory_name_equal e p component \<longleftrightarrow> component = name"
proof
  assume eq: "directory_name_equal e p component"
  then have c: "length component \<le> 58" "e ! (p + length component) = 0" "\<And>i. i < length component \<Longrightarrow> e ! (p + i) = component ! i"
    by (auto simp: directory_name_equal_def for_all_iff split: if_splits)
  have "\<not> length component < length name"
    using assms(1) assms(3) [of "length component"] c(1,2) nth_mem [of "length component" name] by (auto simp: valid_name_def)
  moreover have "\<not> length name < length component"
    using assms(2) assms(3) [of "length name"] c(1) c(3) [of "length name"] nth_mem [of "length name" component] by auto
  ultimately have "length component = length name" by linarith
  then show "component = name" using assms(3) c(1,3) by (intro nth_equalityI) auto
next
  assume "component = name"
  then show "directory_name_equal e p component" using assms(1,3) by (auto simp: directory_name_equal_def for_all_iff valid_name_def)
qed

subsection \<open>Properties\<close>

text \<open>
  C34: a superblock that decodes no longer does after any one of its 4096 bytes has changed: outside the
  stored checksum the CRC-32 of the block changes, inside it the stored value does.
\<close>

theorem superblock_corruption_detected:
  assumes "length block = 4096" and "decode_superblock n block = Some sb" and "index < 4096" and "v \<noteq> block ! index"
  shows "decode_superblock n (block[index := v]) = None"
proof -
  let ?b = "block[index := v]"
  have stored: "read_le32 block 52 = superblock_crc32 block" using assms(2) by (auto simp: decode_superblock_def split: if_splits)
  have "read_le32 ?b 52 \<noteq> superblock_crc32 ?b"
  proof (cases "52 \<le> index \<and> index < 56")
    case True
    have "superblock_crc32 ?b = superblock_crc32 block"
      unfolding superblock_crc32_def using True by (intro arg_cong [of _ _ "\<lambda>f. NOT (f _)"] for_range_cong) auto
    moreover have "read_le32 ?b 52 \<noteq> read_le32 block 52" using True assms(1,4) by (intro read_le32_changed) simp_all
    ultimately show ?thesis using stored by simp
  next
    case False
    then have "superblock_crc32 ?b \<noteq> superblock_crc32 block" using assms by (intro crc_differs) auto
    moreover have "read_le32 ?b 52 = read_le32 block 52" using False by (intro read_le32_cong) auto
    ultimately show ?thesis using stored by simp
  qed
  then show ?thesis by (simp add: decode_superblock_def)
qed

text \<open>
  C35: an inode that the format allows, written anywhere in a block, decodes to itself, and the bytes
  around it stay.
\<close>

theorem inode_roundtrip:
  assumes "valid_inode inode" and "off + 64 \<le> length b"
  shows "decode_inode (encode_inode inode off b) off = Some inode \<and>
    (\<forall>j. j < length b \<longrightarrow> j < off \<or> off + 64 \<le> j \<longrightarrow> encode_inode inode off b ! j = b ! j)"
  using inode_roundtrip_at [OF assms] encode_inode_fields(9) [OF assms(2)] by blast

text \<open>
  An encoded directory entry decodes to its inode number and type, its name is valid, and it is
  found under its own name and no other; the bytes around the entry stay.
\<close>

theorem directory_entry_roundtrip:
  assumes "valid_name name" and "off + 64 \<le> length b"
  shows "let e = encode_directory_entry off child ty name b
    in read_le32 e off = child \<and> e ! (off + 4) = ty \<and> directory_name_valid e (off + 5) \<and>
       (\<forall>component. 0 \<notin> set component \<longrightarrow> (directory_name_equal e (off + 5) component \<longleftrightarrow> component = name)) \<and>
       (\<forall>j. j < length b \<longrightarrow> j < off \<or> off + 64 \<le> j \<longrightarrow> e ! j = b ! j)"
proof -
  have l: "length name \<le> 58" using assms(1) by (simp add: valid_name_def)
  note f = encode_directory_entry_bytes [OF assms(2) l, where child = child and ty = ty]
  then show ?thesis
    unfolding Let_def using encoded_name_valid [OF assms(1) f(4)] encoded_name_equal [OF assms(1) _ f(4)] by blast
qed

definition sample_fields :: "u8 list" where
  "sample_fields = write_le32 48 0 (write_le32 44 4 (write_le32 40 1 (write_le32 36 3 (write_le32 32 1 (write_le32 28 2 (write_le32 24 1
     (write_le32 20 1 (write_le32 16 64 (write_le32 12 8 (write_le32 8 4096 (write_le32 4 1 (write_le32 0 MINIFS_MAGIC
       (replicate 4096 0)))))))))))))"

definition sample_volume_head :: "u8 list" where
  "sample_volume_head = write_le32 52 (superblock_crc32 sample_fields) sample_fields"

definition sample_superblock :: minifs_superblock where
  "sample_superblock = \<lparr>total_blocks = 8, total_inodes = 64, block_bitmap_start = 1, block_bitmap_blocks = 1, inode_bitmap_start = 2,
     inode_bitmap_blocks = 1, inode_table_start = 3, inode_table_blocks = 1, data_start = 4, root_inode = 0\<rparr>"

lemma sample_volume_head_decodes: "length sample_volume_head = 4096" "decode_superblock 8 sample_volume_head = Some sample_superblock"
proof -
  have len: "length sample_fields = 4096" by (simp add: sample_fields_def)
  show "length sample_volume_head = 4096" by (simp add: sample_volume_head_def len)
  have "superblock_crc32 sample_volume_head = superblock_crc32 sample_fields"
    unfolding superblock_crc32_def sample_volume_head_def
    by (intro arg_cong [of _ _ "\<lambda>f. NOT (f _)"] for_range_cong) (auto simp: write_le32_nth)
  moreover have "superblock_reserved_zero sample_volume_head"
    unfolding superblock_reserved_zero_def for_all_iff by (simp add: sample_volume_head_def sample_fields_def write_le32_nth)
  moreover have "read_le32 sample_volume_head 52 = superblock_crc32 sample_fields"
    by (simp add: sample_volume_head_def read_write_le32 len)
  moreover have "read_le32 sample_volume_head k = read_le32 sample_fields k" if "k + 4 \<le> 52" for k
    using that by (simp add: sample_volume_head_def read_le32_write32)
  moreover have "read_le32 sample_fields 0 = MINIFS_MAGIC" "read_le32 sample_fields 4 = 1" "read_le32 sample_fields 8 = 4096"
    "read_le32 sample_fields 12 = 8" "read_le32 sample_fields 16 = 64" "read_le32 sample_fields 20 = 1" "read_le32 sample_fields 24 = 1"
    "read_le32 sample_fields 28 = 2" "read_le32 sample_fields 32 = 1" "read_le32 sample_fields 36 = 3" "read_le32 sample_fields 40 = 1"
    "read_le32 sample_fields 44 = 4" "read_le32 sample_fields 48 = 0"
    by (simp_all add: sample_fields_def field_simps_le)
  ultimately show "decode_superblock 8 sample_volume_head = Some sample_superblock"
    by (simp add: decode_superblock_def divide_round_up_def sample_superblock_def)
qed

theorem superblock_corruption_detected_witness:
  "decode_superblock 8 sample_volume_head = Some sample_superblock \<and> decode_superblock 8 (sample_volume_head[100 := 1]) = None"
proof -
  have "sample_volume_head ! 100 = 0" by (simp add: sample_volume_head_def sample_fields_def write_le32_nth)
  then show ?thesis
    using superblock_corruption_detected [of sample_volume_head 8 sample_superblock 100 1] sample_volume_head_decodes by simp
qed

theorem inode_roundtrip_witness:
  "decode_inode (encode_inode clear_inode 128 (replicate 4096 0)) 128 = Some clear_inode"
  using inode_roundtrip [of clear_inode 128 "replicate 4096 0"] by (simp add: valid_inode_def clear_inode_def)

theorem directory_entry_roundtrip_witness:
  "directory_name_equal (encode_directory_entry 64 7 1 [0x61, 0x62] (replicate 4096 0)) 69 [0x61, 0x62] \<and>
   \<not> directory_name_equal (encode_directory_entry 64 7 1 [0x61, 0x62] (replicate 4096 0)) 69 [0x61]"
  using directory_entry_roundtrip [of "[0x61, 0x62]" 64 "replicate 4096 0" 7 1] by (simp add: valid_name_def Let_def)

end
