(* ===== verification/Minifs_Volume.thy ===== *)
theory Minifs_Volume
  imports Minifs_Frame Minifs_Format
begin

text \<open>
  MiniFS as functions of the volume: what the bitmaps, inodes and block pointers on the disk say, and that
  the reading operations return exactly that. A result of a successful read is right even on a failing disk;
  on a working disk the read does succeed.
\<close>

subsection \<open>The volume\<close>

definition layout_ok :: "minifs_superblock \<Rightarrow> bool" where
  "layout_ok sb \<longleftrightarrow> block_bitmap_start sb = 1 \<and> 0 < unat (total_inodes sb) \<and> unat (total_inodes sb) * 64 < 2 ^ 32 \<and>
     unat (total_blocks sb) \<le> unat (block_bitmap_blocks sb) * 32768 \<and>
     unat (inode_bitmap_start sb) = 1 + unat (block_bitmap_blocks sb) \<and>
     unat (total_inodes sb) \<le> unat (inode_bitmap_blocks sb) * 32768 \<and>
     unat (inode_table_start sb) = unat (inode_bitmap_start sb) + unat (inode_bitmap_blocks sb) \<and>
     unat (total_inodes sb) \<le> unat (inode_table_blocks sb) * 64 \<and>
     unat (data_start sb) = unat (inode_table_start sb) + unat (inode_table_blocks sb) \<and>
     unat (data_start sb) < unat (total_blocks sb) \<and> root_inode sb < total_inodes sb"

lemma unat_divide_round_up:
  assumes "0 < unat d"
  shows "unat (divide_round_up v d) = (unat v + unat d - 1) div unat d"
proof (cases "v = 0")
  case True
  then show ?thesis using assms by (simp add: divide_round_up_def)
next
  case False
  then have v: "0 < unat v" by (simp add: unat_gt_0)
  then have "unat (v - 1) = unat v - 1" by (subst unat_sub) (simp_all add: word_le_nat_alt)
  then have e: "unat ((v - 1) div d) = (unat v - 1) div unat d" by (simp add: unat_div)
  have "(unat v - 1) div unat d \<le> unat v - 1" by simp
  then have "(unat v - 1) div unat d + 1 < 4294967296" using unat_lt_2p32 [of v] v by linarith
  then have "unat ((v - 1) div d + 1) = (unat v - 1) div unat d + 1"
    by (subst unat_add_lem [THEN iffD1]) (simp_all add: e)
  moreover have "(unat v + unat d - 1) div unat d = (unat v - 1) div unat d + 1"
    using v assms by (metis Nat.add_diff_assoc2 One_nat_def Suc_leI div_add_self2 neq0_conv add.commute less_numeral_extra(3))
  ultimately show ?thesis using False by (simp add: divide_round_up_def)
qed

lemma round_up_covers: "unat v \<le> unat (divide_round_up v d) * unat d" if "0 < unat d"
proof -
  have "unat v + unat d - 1 < ((unat v + unat d - 1) div unat d + 1) * unat d" using that
    by (metis add.commute dividend_less_div_times mult.commute mult_Suc_right Suc_eq_plus1)
  then show ?thesis using that by (simp add: unat_divide_round_up)
qed

lemma no_wrap: "\<not> (a :: u32) + b < a \<Longrightarrow> unat (a + b) = unat a + unat b" "\<not> (a :: u32) + b < b \<Longrightarrow> unat (a + b) = unat a + unat b"
  using unat_plus_simple [of a b] unat_plus_simple [of b a] by (simp_all add: not_less add.commute)

lemma decode_superblock_layout:
  assumes "decode_superblock n b = Some sb"
  shows "layout_ok sb" "total_blocks sb = n"
proof -
  let ?blocks = "read_le32 b 12" and ?inodes = "read_le32 b 16"
  let ?bb = "divide_round_up ?blocks MINIFS_BITMAP_BITS_PER_BLOCK" and ?ib = "divide_round_up ?inodes MINIFS_BITMAP_BITS_PER_BLOCK"
  let ?itb = "divide_round_up (?inodes * MINIFS_INODE_SIZE) MINIFS_BLOCK_SIZE"
  have c: "?blocks = n" "?inodes \<noteq> 0" "\<not> ?inodes > 0xFFFFFFFF div MINIFS_INODE_SIZE" "\<not> 1 + ?bb < ?bb" "\<not> 1 + ?bb + ?ib < 1 + ?bb"
    "\<not> 1 + ?bb + ?ib + ?itb < 1 + ?bb + ?ib" "\<not> 1 + ?bb + ?ib + ?itb \<ge> ?blocks" "\<not> read_le32 b 48 \<ge> ?inodes"
    "sb = \<lparr>total_blocks = ?blocks, total_inodes = ?inodes, block_bitmap_start = 1, block_bitmap_blocks = ?bb, inode_bitmap_start = 1 + ?bb,
      inode_bitmap_blocks = ?ib, inode_table_start = 1 + ?bb + ?ib, inode_table_blocks = ?itb, data_start = 1 + ?bb + ?ib + ?itb,
      root_inode = read_le32 b 48\<rparr>"
    using assms unfolding decode_superblock_def Let_def by (simp_all only: split: if_splits) (simp_all only: option.simps de_Morgan_disj not_not not_False_eq_True)
  show "total_blocks sb = n" using c(1,9) by simp
  have small: "unat ?inodes \<le> 67108863" using c(3) by (simp add: word_le_nat_alt not_less)
  then have bytes: "unat (?inodes * 64) = unat ?inodes * 64" by (subst unat_mult_lem [THEN iffD1]) simp_all
  have "unat ?inodes \<le> unat ?itb * 64" using round_up_covers [of 4096 "?inodes * 64"] bytes by simp
  moreover have "unat ?blocks \<le> unat ?bb * 32768" "unat ?inodes \<le> unat ?ib * 32768"
    using round_up_covers [of 32768 ?blocks] round_up_covers [of 32768 ?inodes] by simp_all
  ultimately show "layout_ok sb"
    using c(2,7,8) small no_wrap(2) [OF c(4)] no_wrap(1) [OF c(5)] no_wrap(1) [OF c(6)]
    unfolding layout_ok_def c(9) by (simp add: word_less_nat_alt not_le unat_gt_0)
qed


definition volume :: "'a minifs_scheme \<Rightarrow> nat \<Rightarrow> u8 list" where
  "volume s n = medium_block s (unat (volume_start_block s) + n)"

definition volume_ready :: "'a minifs_scheme \<Rightarrow> bool" where
  "volume_ready s \<longleftrightarrow> block_ready s \<and> layout_ok (mounted_superblock s) \<and> total_blocks (mounted_superblock s) = volume_block_count s \<and>
     unat (volume_start_block s) + unat (volume_block_count s) \<le> unat (device_block_count s) \<and>
     length (io_block s) = 4096 \<and> length (auxiliary_block s) = 4096 \<and> length (compare_buffer s) = 4096"

text \<open>What a read may change: the disk registers and \<open>io_block\<close>.\<close>

definition stays :: "'a minifs_scheme \<Rightarrow> 'a minifs_scheme \<Rightarrow> bool" where
  "stays s s' \<longleftrightarrow> core s' = core s \<and> volume s' = volume s \<and> volume_ready s' \<and> (reliable (hw s) \<longrightarrow> reliable (hw s')) \<and>
     auxiliary_block s' = auxiliary_block s \<and> compare_buffer s' = compare_buffer s"

lemma stays_refl: "volume_ready s \<Longrightarrow> stays s s"
  by (simp add: stays_def)

lemma stays_trans [trans]: "stays s s' \<Longrightarrow> stays s' s'' \<Longrightarrow> stays s s''"
  by (auto simp: stays_def)

lemma staysD:
  assumes "stays s s'"
  shows "volume_ready s'" "volume s' = volume s" "mounted_superblock s' = mounted_superblock s" "core s' = core s"
    "reliable (hw s) \<Longrightarrow> reliable (hw s')" "volume_start_block s' = volume_start_block s" "volume_block_count s' = volume_block_count s"
  using assms core_eqD [of s' s] by (simp_all add: stays_def)

lemma volume_length: "volume_ready s \<Longrightarrow> length (volume s n) = 4096"
  by (simp add: volume_def volume_ready_def medium_block_length)

lemma volume_readyD:
  assumes "volume_ready s"
  shows "block_ready s" "layout_ok (mounted_superblock s)" "total_blocks (mounted_superblock s) = volume_block_count s"
    "length (io_block s) = 4096" "length (auxiliary_block s) = 4096" "length (compare_buffer s) = 4096"
    "unat (volume_start_block s) + unat (volume_block_count s) \<le> unat (device_block_count s)"
  using assms by (simp_all add: volume_ready_def)

lemma volume_address:
  assumes "volume_ready s" and "n < total_blocks (mounted_superblock s)"
  shows "unat (volume_start_block s + n) = unat (volume_start_block s) + unat n" "unat (volume_start_block s + n) < unat (device_block_count s)"
proof -
  have "unat n < unat (volume_block_count s)" using assms by (simp add: volume_ready_def word_less_nat_alt)
  then have "unat (volume_start_block s) + unat n < unat (device_block_count s)" using volume_readyD(7) [OF assms(1)] by linarith
  moreover from this show "unat (volume_start_block s + n) = unat (volume_start_block s) + unat n"
    using unat_lt_2p32 [of "device_block_count s"] by (intro unat_add_lem [THEN iffD1]) simp
  ultimately show "unat (volume_start_block s + n) < unat (device_block_count s)" by simp
qed

lemma fill_buffer_full: "length buffer \<le> length bs \<Longrightarrow> fill_buffer bs buffer = bs"
  by (simp add: fill_buffer_def)

lemma read_volume_block_into_sound:
  assumes v: "volume_ready s" and n: "n < total_blocks (mounted_superblock s)" and len: "length buffer = 4096"
  obtains r bs d where "read_volume_block_into n buffer s = (r, bs, s\<lparr>hw := d\<rparr>)" "volume (s\<lparr>hw := d\<rparr>) = volume s"
    "block_ready (s\<lparr>hw := d\<rparr>)" "length bs = 4096" "r = 0 \<Longrightarrow> bs = volume s (unat n)" "reliable (hw s) \<Longrightarrow> r = 0 \<and> reliable d"
proof -
  note a = volume_address [OF v n]
  obtain r bs d where rd: "block_read (volume_start_block s + n) 1 s = (r, bs, s\<lparr>hw := d\<rparr>)" "sectors d = sectors (hw s)" "length bs \<le> 4096"
    "r = 0 \<Longrightarrow> bs = medium_block s (unat (volume_start_block s + n))" "reliable (hw s) \<Longrightarrow> r = 0 \<and> reliable d"
    by (rule block_read_one [OF volume_readyD(1) [OF v] a(2)]) blast
  have "n < volume_block_count s" using n volume_readyD(3) [OF v] by simp
  then have "read_volume_block_into n buffer s = (r, fill_buffer bs buffer, s\<lparr>hw := d\<rparr>)"
    using n rd(1) by (auto simp: read_volume_block_into_def)
  moreover have "volume (s\<lparr>hw := d\<rparr>) = volume s" using medium_block_same_sectors [OF rd(2)] by (simp add: volume_def fun_eq_iff)
  moreover have "block_ready (s\<lparr>hw := d\<rparr>)" using block_ready_same_sectors [OF rd(2)] volume_readyD(1) [OF v] by simp
  moreover have "length (fill_buffer bs buffer) = 4096" using rd(3) len by (simp add: fill_buffer_def)
  moreover have "fill_buffer bs buffer = volume s (unat n)" if "r = 0"
    using rd(4) [OF that] a(1) medium_block_length [OF volume_readyD(1) [OF v]] len by (simp add: volume_def fill_buffer_full)
  ultimately show ?thesis using rd(5) by (intro that [of r "fill_buffer bs buffer" d])
qed

lemma volume_ready_update [simp]:
  "volume_ready s \<Longrightarrow> block_ready (s\<lparr>hw := d\<rparr>) \<Longrightarrow> volume_ready (s\<lparr>hw := d\<rparr>)"
  "volume_ready s \<Longrightarrow> length b = 4096 \<Longrightarrow> volume_ready (s\<lparr>io_block := b\<rparr>)"
  "volume_ready s \<Longrightarrow> length b = 4096 \<Longrightarrow> volume_ready (s\<lparr>auxiliary_block := b\<rparr>)"
  "volume_ready s \<Longrightarrow> length b = 4096 \<Longrightarrow> volume_ready (s\<lparr>compare_buffer := b\<rparr>)"
  by (simp_all add: volume_ready_def block_ready_def)

lemma volume_update [simp]:
  "volume (s\<lparr>io_block := b\<rparr>) = volume s" "volume (s\<lparr>auxiliary_block := b\<rparr>) = volume s" "volume (s\<lparr>compare_buffer := b\<rparr>) = volume s"
  by (simp_all add: volume_def medium_block_def fun_eq_iff)

lemma read_volume_block_sound:
  assumes v: "volume_ready s" and n: "n < total_blocks (mounted_superblock s)"
  obtains r s' where "read_volume_block n s = (r, s')" "stays s s'" "r = 0 \<Longrightarrow> io_block s' = volume s (unat n)" "reliable (hw s) \<Longrightarrow> r = 0"
proof (rule read_volume_block_into_sound [OF v n volume_readyD(4) [OF v]])
  fix r bs d
  assume rd: "read_volume_block_into n (io_block s) s = (r, bs, s\<lparr>hw := d\<rparr>)" "volume (s\<lparr>hw := d\<rparr>) = volume s"
    "block_ready (s\<lparr>hw := d\<rparr>)" "length bs = 4096" "r = 0 \<Longrightarrow> bs = volume s (unat n)" "reliable (hw s) \<Longrightarrow> r = 0 \<and> reliable d"
  then have "stays s (s\<lparr>hw := d, io_block := bs\<rparr>)" using v by (simp add: stays_def)
  then show thesis using rd by (intro that [of r "s\<lparr>hw := d, io_block := bs\<rparr>"]) (simp_all add: read_volume_block_def)
qed


subsection \<open>Bitmaps\<close>

definition bit_at :: "(nat \<Rightarrow> u8 list) \<Rightarrow> nat \<Rightarrow> nat \<Rightarrow> bool" where
  "bit_at V start k \<longleftrightarrow> bit (V (start + k div 32768) ! (k mod 32768 div 8)) (k mod 8)"

text \<open>A bitmap of \<open>n\<close> blocks at \<open>start\<close> that lies on the volume and has a bit \<open>k\<close>.\<close>

definition has_bit :: "'a minifs_scheme \<Rightarrow> u32 \<Rightarrow> u32 \<Rightarrow> u32 \<Rightarrow> bool" where
  "has_bit s start n k \<longleftrightarrow> unat start + unat n \<le> unat (total_blocks (mounted_superblock s)) \<and> unat k < unat n * 32768"

lemma has_bitD:
  assumes "has_bit s start n k"
  shows "\<not> k div 32768 \<ge> n" "unat (start + k div 32768) = unat start + unat k div 32768" "start + k div 32768 < total_blocks (mounted_superblock s)"
proof -
  have u: "unat (k div 32768) = unat k div 32768" by (simp add: unat_div)
  have d: "unat k div 32768 < unat n" using assms by (simp add: has_bit_def less_mult_imp_div_less)
  then show "\<not> k div 32768 \<ge> n" by (simp add: word_le_nat_alt u not_le)
  have lt: "unat start + unat k div 32768 < unat (total_blocks (mounted_superblock s))" using assms d by (simp add: has_bit_def)
  then show s: "unat (start + k div 32768) = unat start + unat k div 32768"
    using unat_lt_2p32 [of "total_blocks (mounted_superblock s)"] u by (subst unat_add_lem [THEN iffD1]) simp_all
  show "start + k div 32768 < total_blocks (mounted_superblock s)" using lt s by (simp add: word_less_nat_alt)
qed

lemma unat_within: "unat ((k :: u32) mod 32768 div 8) = unat k mod 32768 div 8" "unat ((k :: u32) mod 32768 mod 8) = unat k mod 8"
proof -
  show "unat ((k :: u32) mod 32768 div 8) = unat k mod 32768 div 8" by (simp add: unat_div unat_mod)
  have "unat k mod 32768 mod 8 = unat k mod 8" by (rule mod_mod_cancel) simp
  then show "unat ((k :: u32) mod 32768 mod 8) = unat k mod 8" by (simp add: unat_mod)
qed

lemma and_power_2: "(x :: u8) AND 2 ^ n = 0 \<longleftrightarrow> \<not> bit x n"
  by (simp add: bit_iff_and_push_bit_not_eq_0)

lemma bitmap_bit_set_sound:
  assumes v: "volume_ready s" and k: "has_bit s start n k"
  obtains ok s' where "bitmap_bit_set start n k s = (ok, s')" "stays s s'" "ok \<Longrightarrow> bit_at (volume s) (unat start) (unat k)"
    "reliable (hw s) \<Longrightarrow> ok = bit_at (volume s) (unat start) (unat k)"
proof (rule read_volume_block_sound [OF v has_bitD(3) [OF k]])
  fix r s'
  assume rd: "read_volume_block (start + k div 32768) s = (r, s')" "stays s s'" "r = 0 \<Longrightarrow> io_block s' = volume s (unat (start + k div 32768))"
    "reliable (hw s) \<Longrightarrow> r = 0"
  let ?ok = "r = 0 \<and> bit_at (volume s) (unat start) (unat k)"
  have "bitmap_bit_set start n k s = (?ok, s')"
    using rd(1,3) has_bitD(1,2) [OF k] by (simp add: bitmap_bit_set_def Let_def unat_within and_power_2 bit_at_def)
  then show thesis using rd(2,4) by (intro that [of ?ok s']) simp_all
qed

subsection \<open>Inodes\<close>

definition inode_of :: "(nat \<Rightarrow> u8 list) \<Rightarrow> minifs_superblock \<Rightarrow> nat \<Rightarrow> minifs_inode option" where
  "inode_of V sb n =
     (if n < unat (total_inodes sb) \<and> bit_at V (unat (inode_bitmap_start sb)) n
      then case decode_inode (V (unat (inode_table_start sb) + n div 64)) (n mod 64 * 64) of
             None \<Rightarrow> None
           | Some inode \<Rightarrow> if inode_pointer_shape_valid inode then Some inode else None
      else None)"

lemma inode_location:
  assumes v: "volume_ready s" and n: "n < total_inodes (mounted_superblock s)"
  defines "sb \<equiv> mounted_superblock s"
  shows "has_bit s (inode_bitmap_start sb) (inode_bitmap_blocks sb) n" "\<not> n div 64 \<ge> inode_table_blocks sb"
    "unat (inode_table_start sb + n div 64) = unat (inode_table_start sb) + unat n div 64" "inode_table_start sb + n div 64 < total_blocks sb"
    "unat (n mod 64) * 64 = unat n mod 64 * 64" "unat n mod 64 * 64 + 64 \<le> 4096"
proof -
  have l: "layout_ok sb" using volume_readyD(2) [OF v] by (simp add: sb_def)
  have un: "unat n < unat (total_inodes sb)" using n by (simp add: sb_def word_less_nat_alt)
  show "has_bit s (inode_bitmap_start sb) (inode_bitmap_blocks sb) n" using l un by (simp add: has_bit_def layout_ok_def sb_def)
  have u: "unat (n div 64) = unat n div 64" by (simp add: unat_div)
  have d: "unat n div 64 < unat (inode_table_blocks sb)" using l un by (simp add: layout_ok_def less_mult_imp_div_less)
  then show "\<not> n div 64 \<ge> inode_table_blocks sb" by (simp add: word_le_nat_alt u not_le)
  have lt: "unat (inode_table_start sb) + unat n div 64 < unat (total_blocks sb)" using l d by (simp add: layout_ok_def)
  then show s: "unat (inode_table_start sb + n div 64) = unat (inode_table_start sb) + unat n div 64"
    using unat_lt_2p32 [of "total_blocks sb"] u by (subst unat_add_lem [THEN iffD1]) simp_all
  show "inode_table_start sb + n div 64 < total_blocks sb" using lt s by (simp add: word_less_nat_alt)
  show "unat (n mod 64) * 64 = unat n mod 64 * 64" by (simp add: unat_mod)
  have "unat n mod 64 < 64" by simp
  then show "unat n mod 64 * 64 + 64 \<le> 4096" by linarith
qed

lemma read_inode_sound:
  assumes v: "volume_ready s"
  obtains res s' where "read_inode_internal n s = (res, s')" "stays s s'"
    "\<And>inode. res = Inr inode \<Longrightarrow> inode_of (volume s) (mounted_superblock s) (unat n) = Some inode"
    "\<And>inode. reliable (hw s) \<Longrightarrow> inode_of (volume s) (mounted_superblock s) (unat n) = Some inode \<Longrightarrow> res = Inr inode"
    "\<And>e. res = Inl e \<Longrightarrow> e < 0"
proof (cases "n < total_inodes (mounted_superblock s)")
  case False
  then have "read_inode_internal n s = (Inl (- MINIOS_EINVAL), s)" "inode_of (volume s) (mounted_superblock s) (unat n) = None"
    by (simp_all add: read_inode_internal_def inode_of_def word_less_nat_alt word_le_nat_alt Let_def)
  then show thesis using stays_refl [OF v] by (intro that [of "Inl (- MINIOS_EINVAL)" s]) simp_all
next
  case True
  note loc = inode_location [OF v True]
  let ?sb = "mounted_superblock s"
  obtain ok s1 where b: "bitmap_bit_set (inode_bitmap_start ?sb) (inode_bitmap_blocks ?sb) n s = (ok, s1)" "stays s s1"
    "ok \<Longrightarrow> bit_at (volume s) (unat (inode_bitmap_start ?sb)) (unat n)"
    "reliable (hw s) \<Longrightarrow> ok = bit_at (volume s) (unat (inode_bitmap_start ?sb)) (unat n)"
    by (rule bitmap_bit_set_sound [OF v loc(1)]) blast
  obtain r s2 where rd: "read_volume_block (inode_table_start ?sb + n div 64) s1 = (r, s2)" "stays s1 s2"
    "r = 0 \<Longrightarrow> io_block s2 = volume s1 (unat (inode_table_start ?sb + n div 64))" "reliable (hw s1) \<Longrightarrow> r = 0"
    using read_volume_block_sound [OF staysD(1) [OF b(2)], of "inode_table_start ?sb + n div 64"] loc(4) staysD(3) [OF b(2)] by metis
  let ?d = "decode_inode (volume s (unat (inode_table_start ?sb) + unat n div 64)) (unat n mod 64 * 64)"
  let ?i = "case ?d of None \<Rightarrow> Inl (- MINIOS_EIO) | Some inode \<Rightarrow> if inode_pointer_shape_valid inode then Inr inode else Inl (- MINIOS_EIO)"
  let ?res = "if ok \<and> r = 0 then ?i else Inl (- MINIOS_EIO)"
  have "\<not> n \<ge> total_inodes ?sb" using True by simp
  then have "read_inode_internal n s = (?res, if ok then s2 else s1)"
    using b(1) rd(1,3) loc(2,3,5) staysD(2) [OF b(2)] by (auto simp: read_inode_internal_def Let_def split: option.splits)
  moreover have "stays s (if ok then s2 else s1)" using b(2) rd(2) stays_trans by auto
  moreover have "inode_of (volume s) ?sb (unat n) = Some inode" if "?res = Inr inode" for inode
    using that b(3) True by (auto simp: inode_of_def word_less_nat_alt split: if_splits option.splits)
  moreover have "?res = Inr inode" if "reliable (hw s)" "inode_of (volume s) ?sb (unat n) = Some inode" for inode
    using that b(4) rd(4) staysD(5) [OF b(2)] by (auto simp: inode_of_def split: if_splits option.splits)
  moreover have "e < 0" if "?res = Inl e" for e using that by (auto split: if_splits option.splits)
  ultimately show thesis by (rule that)
qed


subsection \<open>The blocks of a file\<close>

definition block_used :: "(nat \<Rightarrow> u8 list) \<Rightarrow> minifs_superblock \<Rightarrow> nat \<Rightarrow> bool" where
  "block_used V sb b \<longleftrightarrow> unat (data_start sb) \<le> b \<and> b < unat (total_blocks sb) \<and> bit_at V 1 b"

definition file_blocks :: "minifs_inode \<Rightarrow> nat" where
  "file_blocks inode = (unat (i_size inode) + 4095) div 4096"

definition block_of :: "(nat \<Rightarrow> u8 list) \<Rightarrow> minifs_superblock \<Rightarrow> minifs_inode \<Rightarrow> nat \<Rightarrow> nat option" where
  "block_of V sb inode k =
     (if k < file_blocks inode \<and> (k < 10 \<or> k < 1034 \<and> block_used V sb (unat (i_indirect inode)))
      then let b = unat (if k < 10 then i_direct inode ! k else read_le32 (V (unat (i_indirect inode))) ((k - 10) * 4))
           in if block_used V sb b then Some b else None
      else None)"

lemma file_blocks_word: "unat (divide_round_up (i_size inode) 4096) = file_blocks inode"
  by (simp add: unat_divide_round_up file_blocks_def)

lemma data_block_allocated_sound:
  assumes v: "volume_ready s"
  obtains ok s' where "data_block_allocated b s = (ok, s')" "stays s s'" "ok \<Longrightarrow> block_used (volume s) (mounted_superblock s) (unat b)"
    "reliable (hw s) \<Longrightarrow> ok = block_used (volume s) (mounted_superblock s) (unat b)"
proof (cases "data_block_valid b s")
  case False
  then have "\<not> block_used (volume s) (mounted_superblock s) (unat b)"
    by (auto simp: data_block_valid_def block_used_def word_le_nat_alt word_less_nat_alt)
  then show thesis using False stays_refl [OF v] by (intro that [of False s]) (simp_all add: data_block_allocated_def)
next
  case True
  have l: "layout_ok (mounted_superblock s)" using volume_readyD(2) [OF v] .
  have h: "has_bit s 1 (block_bitmap_blocks (mounted_superblock s)) b"
    using l True by (simp add: has_bit_def layout_ok_def data_block_valid_def word_less_nat_alt word_le_nat_alt)
  have u: "block_used (volume s) (mounted_superblock s) (unat b) = bit_at (volume s) 1 (unat b)"
    using True by (simp add: block_used_def data_block_valid_def word_less_nat_alt word_le_nat_alt)
  have e: "data_block_allocated b s = bitmap_bit_set 1 (block_bitmap_blocks (mounted_superblock s)) b s"
    using True l by (simp add: data_block_allocated_def layout_ok_def)
  show thesis by (rule bitmap_bit_set_sound [OF v h]) (rule that, auto simp: e u)
qed

lemma block_used_lt: "block_used V sb (unat (b :: u32)) \<Longrightarrow> b < total_blocks sb"
  by (simp add: block_used_def word_less_nat_alt)

lemma checked_block:
  assumes v: "volume_ready s"
  obtains res s' where "(case data_block_allocated b s of (ok, s) \<Rightarrow> (if ok then Inr b else Inl (- MINIOS_EIO), s)) = (res, s')" "stays s s'"
    "res = Inr b \<and> block_used (volume s) (mounted_superblock s) (unat b) \<or> res = Inl (- MINIOS_EIO)"
    "reliable (hw s) \<Longrightarrow> block_used (volume s) (mounted_superblock s) (unat b) \<Longrightarrow> res = Inr b"
proof (rule data_block_allocated_sound [OF v, of b])
  fix ok s'
  assume a: "data_block_allocated b s = (ok, s')" "stays s s'" "ok \<Longrightarrow> block_used (volume s) (mounted_superblock s) (unat b)"
    "reliable (hw s) \<Longrightarrow> ok = block_used (volume s) (mounted_superblock s) (unat b)"
  then show thesis by (intro that [of "if ok then Inr b else Inl (- MINIOS_EIO)" s']) auto
qed

lemma inode_block_at_indirect:
  assumes v: "volume_ready s" and k: "\<not> k < 10" and kn: "unat k < file_blocks inode"
  obtains res s' where "inode_block_at inode k s = (res, s')" "stays s s'"
    "\<And>b. res = Inr b \<Longrightarrow> block_of (volume s) (mounted_superblock s) inode (unat k) = Some (unat b)"
    "\<And>b. reliable (hw s) \<Longrightarrow> block_of (volume s) (mounted_superblock s) inode (unat k) = Some b \<Longrightarrow> res = Inr (of_nat b)"
proof -
  let ?sb = "mounted_superblock s" and ?ind = "i_indirect inode"
  have uk: "unat (k - 10) = unat k - 10" "\<not> unat k < 10" using k by (simp_all add: unat_sub word_less_nat_alt word_le_nat_alt)
  have in_range: "\<not> divide_round_up (i_size inode) 4096 \<le> k" using kn by (simp add: word_le_nat_alt file_blocks_word)
  obtain ok s1 where a: "data_block_allocated ?ind s = (ok, s1)" "stays s s1" "ok \<Longrightarrow> block_used (volume s) ?sb (unat ?ind)"
    "reliable (hw s) \<Longrightarrow> ok = block_used (volume s) ?sb (unat ?ind)" by (rule data_block_allocated_sound [OF v]) blast
  show thesis
  proof (cases "ok \<and> \<not> 1024 \<le> k - 10")
    case False
    then have "inode_block_at inode k s = (Inl (- MINIOS_EIO), s1)" using k in_range a(1) by (auto simp: inode_block_at_def Let_def)
    moreover have "block_of (volume s) ?sb inode (unat k) = None" if "reliable (hw s)"
      using False a(4) [OF that] uk by (auto simp: block_of_def word_le_nat_alt)
    ultimately show thesis using a(2) by (intro that [of "Inl (- MINIOS_EIO)" s1]) simp_all
  next
    case True
    then have "\<not> 1024 \<le> unat k - 10" using uk(1) by (simp add: word_le_nat_alt)
    then have lt: "unat k < 1034" using uk(2) by linarith
    have used: "block_used (volume s) ?sb (unat ?ind)" using True a(3) by simp
    obtain r s2 where rd: "read_volume_block ?ind s1 = (r, s2)" "stays s1 s2" "r = 0 \<Longrightarrow> io_block s2 = volume s1 (unat ?ind)" "reliable (hw s1) \<Longrightarrow> r = 0"
      using read_volume_block_sound [OF staysD(1) [OF a(2)], of ?ind] block_used_lt [OF used] staysD(3) [OF a(2)] by metis
    let ?b = "read_le32 (volume s (unat ?ind)) ((unat k - 10) * 4)"
    have s2: "stays s s2" by (rule stays_trans [OF a(2) rd(2)])
    have b: "block_of (volume s) ?sb inode (unat k) = (if block_used (volume s) ?sb (unat ?b) then Some (unat ?b) else None)"
      using kn lt uk used by (simp add: block_of_def)
    have e: "inode_block_at inode k s = (if r \<noteq> 0 then (Inl (- MINIOS_EIO), s2)
        else case data_block_allocated ?b s2 of (ok, s) \<Rightarrow> (if ok then Inr ?b else Inl (- MINIOS_EIO), s))"
      using True k in_range a(1) rd(1,3) uk(1) staysD(2) [OF a(2)] by (auto simp: inode_block_at_def Let_def split: prod.splits)
    show thesis
    proof (cases "r = 0")
      case False
      then show thesis using e s2 rd(4) staysD(5) [OF a(2)] by (intro that [of "Inl (- MINIOS_EIO)" s2]) auto
    next
      case True
      obtain res s3 where c: "(case data_block_allocated ?b s2 of (ok, s) \<Rightarrow> (if ok then Inr ?b else Inl (- MINIOS_EIO), s)) = (res, s3)" "stays s2 s3"
        "res = Inr ?b \<and> block_used (volume s2) (mounted_superblock s2) (unat ?b) \<or> res = Inl (- MINIOS_EIO)"
        "reliable (hw s2) \<Longrightarrow> block_used (volume s2) (mounted_superblock s2) (unat ?b) \<Longrightarrow> res = Inr ?b"
        by (rule checked_block [OF staysD(1) [OF s2]]) blast
      then show thesis
        using True e staysD(2,3,5) [OF s2] b by (intro that [of res s3] stays_trans [OF s2 c(2)]) (auto split: if_splits)
    qed
  qed
qed

lemma inode_block_at_sound:
  assumes v: "volume_ready s"
  obtains res s' where "inode_block_at inode k s = (res, s')" "stays s s'"
    "\<And>b. res = Inr b \<Longrightarrow> block_of (volume s) (mounted_superblock s) inode (unat k) = Some (unat b)"
    "\<And>b. reliable (hw s) \<Longrightarrow> block_of (volume s) (mounted_superblock s) inode (unat k) = Some b \<Longrightarrow> res = Inr (of_nat b)"
proof (cases "k < divide_round_up (i_size inode) 4096")
  case False
  then have "inode_block_at inode k s = (Inl (- MINIOS_EINVAL), s)" "block_of (volume s) (mounted_superblock s) inode (unat k) = None"
    by (simp_all add: inode_block_at_def block_of_def word_less_nat_alt word_le_nat_alt file_blocks_word)
  then show thesis using stays_refl [OF v] by (intro that [of "Inl (- MINIOS_EINVAL)" s]) simp_all
next
  case True
  have kn: "unat k < file_blocks inode" using True by (simp add: word_less_nat_alt file_blocks_word)
  show thesis
  proof (cases "k < 10")
    case k: True
    then have e: "inode_block_at inode k s = (case data_block_allocated (i_direct inode ! unat k) s of (ok, s) \<Rightarrow>
        (if ok then Inr (i_direct inode ! unat k) else Inl (- MINIOS_EIO), s))" using True by (auto simp: inode_block_at_def Let_def)
    have b: "block_of (volume s) (mounted_superblock s) inode (unat k) =
        (if block_used (volume s) (mounted_superblock s) (unat (i_direct inode ! unat k)) then Some (unat (i_direct inode ! unat k)) else None)"
      using k kn by (simp add: block_of_def word_less_nat_alt)
    show thesis by (rule checked_block [OF v, of "i_direct inode ! unat k"]) (rule that, auto simp: e b split: if_splits)
  next
    case False
    then show thesis using inode_block_at_indirect [OF v False kn] that by blast
  qed
qed


subsection \<open>Reading a file\<close>

definition file_content :: "(nat \<Rightarrow> u8 list) \<Rightarrow> minifs_superblock \<Rightarrow> minifs_inode \<Rightarrow> u8 list" where
  "file_content V sb inode =
     take (unat (i_size inode)) (concat (map (\<lambda>k. V (case block_of V sb inode k of Some b \<Rightarrow> b | None \<Rightarrow> 0)) [0..<file_blocks inode]))"

text \<open>Every block the file needs is recorded and marked as used.\<close>

definition file_complete :: "(nat \<Rightarrow> u8 list) \<Rightarrow> minifs_superblock \<Rightarrow> minifs_inode \<Rightarrow> bool" where
  "file_complete V sb inode \<longleftrightarrow> for_all 0 (file_blocks inode) (\<lambda>k. block_of V sb inode k \<noteq> None)"

lemma concat_blocks_length: "(\<And>x. x \<in> set xss \<Longrightarrow> length x = 4096) \<Longrightarrow> length (concat xss) = 4096 * length xss"
  by (induction xss) auto

lemma concat_blocks_nth:
  "(\<And>x. x \<in> set xss \<Longrightarrow> length x = 4096) \<Longrightarrow> p < 4096 * length xss \<Longrightarrow> concat xss ! p = xss ! (p div 4096) ! (p mod 4096)"
proof (induction xss arbitrary: p)
  case (Cons x xss)
  show ?case
  proof (cases "p < 4096")
    case True
    then show ?thesis using Cons.prems(1) [of x] by (simp add: nth_append)
  next
    case False
    then have "p div 4096 = Suc ((p - 4096) div 4096)" "(p - 4096) mod 4096 = p mod 4096"
      by (simp_all add: le_div_geq le_mod_geq)
    then show ?thesis using False Cons.prems(1) [of x] Cons.IH [of "p - 4096"] Cons.prems by (simp add: nth_append)
  qed
qed simp

lemma file_blocks_bound: "p < unat (i_size inode) \<Longrightarrow> p div 4096 < file_blocks inode" "unat (i_size inode) \<le> 4096 * file_blocks inode"
proof -
  show "p div 4096 < file_blocks inode" if "p < unat (i_size inode)"
    using div_le_mono [of "p + 4096" "unat (i_size inode) + 4095" 4096] that by (simp add: file_blocks_def)
  let ?x = "unat (i_size inode) + 4095"
  have "?x = 4096 * (?x div 4096) + ?x mod 4096" "?x mod 4096 < 4096" by simp_all
  then show "unat (i_size inode) \<le> 4096 * file_blocks inode" unfolding file_blocks_def by linarith
qed

lemma file_content_length:
  assumes "\<And>n. length (V n) = 4096"
  shows "length (file_content V sb inode) = unat (i_size inode)"
proof -
  have "length (concat (map (\<lambda>k. V (case block_of V sb inode k of Some b \<Rightarrow> b | None \<Rightarrow> 0)) [0..<file_blocks inode])) = 4096 * file_blocks inode"
    by (subst concat_blocks_length) (auto simp: assms)
  then show ?thesis using file_blocks_bound(2) [of inode] by (simp add: file_content_def)
qed

lemma file_content_nth:
  assumes "\<And>n. length (V n) = 4096" and "p < unat (i_size inode)" and "block_of V sb inode (p div 4096) = Some b"
  shows "file_content V sb inode ! p = V b ! (p mod 4096)"
proof -
  let ?xss = "map (\<lambda>k. V (case block_of V sb inode k of Some b \<Rightarrow> b | None \<Rightarrow> 0)) [0..<file_blocks inode]"
  have "p < 4096 * length ?xss" using assms(2) file_blocks_bound(2) [of inode] by simp
  then have "concat ?xss ! p = ?xss ! (p div 4096) ! (p mod 4096)" by (intro concat_blocks_nth) (auto simp: assms(1))
  then show ?thesis using assms(2,3) file_blocks_bound(1) [OF assms(2)] by (simp add: file_content_def)
qed

lemma within_block:
  fixes p i :: nat
  assumes "p mod 4096 + i < 4096"
  shows "(p + i) div 4096 = p div 4096" "(p + i) mod 4096 = p mod 4096 + i"
proof -
  have "p + i = (p mod 4096 + i) + 4096 * (p div 4096)" by simp
  then have "(p + i) div 4096 = ((p mod 4096 + i) + 4096 * (p div 4096)) div 4096" "(p + i) mod 4096 = ((p mod 4096 + i) + 4096 * (p div 4096)) mod 4096"
    by simp_all
  then show "(p + i) div 4096 = p div 4096" "(p + i) mod 4096 = p mod 4096 + i" using assms by (simp_all only: div_mult_self2 mod_mult_self2) simp_all
qed

lemma file_content_chunk:
  assumes V: "\<And>n. length (V n) = 4096" and b: "block_of V sb inode (p div 4096) = Some b"
    and n: "p mod 4096 + n \<le> 4096" "p + n \<le> unat (i_size inode)"
  shows "map (\<lambda>i. V b ! (p mod 4096 + i)) [0..<n] = take n (drop p (file_content V sb inode))"
proof (rule nth_equalityI)
  show "length (map (\<lambda>i. V b ! (p mod 4096 + i)) [0..<n]) = length (take n (drop p (file_content V sb inode)))"
    using n by (simp add: file_content_length [where V = V, OF V])
  fix i assume "i < length (map (\<lambda>i. V b ! (p mod 4096 + i)) [0..<n])"
  then have i: "i < n" by simp
  then have "p mod 4096 + i < 4096" using n(1) by linarith
  note d = within_block [OF this]
  have "file_content V sb inode ! (p + i) = V b ! (p mod 4096 + i)"
    using file_content_nth [where V = V and p = "p + i" and inode = inode and sb = sb and b = b, OF V] b i n(2) d by simp
  then show "map (\<lambda>i. V b ! (p mod 4096 + i)) [0..<n] ! i = take n (drop p (file_content V sb inode)) ! i" using i n(2) file_content_length [where V = V and sb = sb and inode = inode, OF V] by simp
qed


lemma chunk_position:
  assumes "unat (off :: u32) + len \<le> unat (sz :: u32)" and "done < len"
  shows "unat (off + of_nat done) = unat off + done" "unat ((off + of_nat done) div 4096) = (unat off + done) div 4096"
    "unat ((off + of_nat done) mod 4096) = (unat off + done) mod 4096"
proof -
  have lt: "unat off + done < 4294967296" using assms unat_lt_2p32 [of sz] by linarith
  then show u: "unat (off + of_nat done) = unat off + done"
    by (subst unat_add_lem [THEN iffD1]) (simp_all add: unat_of_nat32)
  show "unat ((off + of_nat done) div 4096) = (unat off + done) div 4096" "unat ((off + of_nat done) mod 4096) = (unat off + done) mod 4096"
    by (simp_all add: unat_div unat_mod u)
qed

lemma take_chunk: "c \<le> n \<Longrightarrow> take c (drop p xs) @ take (n - c) (drop (p + c) xs) = take n (drop p xs)"
  by (metis add.commute drop_drop le_add_diff_inverse take_add)

lemma read_loop_sound:
  assumes "volume_ready s" and "unat off + len \<le> unat (i_size inode)" and "done \<le> len"
  shows "\<exists>r bs s'. read_loop inode off len done s = (r, bs, s') \<and> stays s s' \<and>
    (r = int len \<and> bs = take (len - done) (drop (unat off + done) (file_content (volume s) (mounted_superblock s) inode)) \<or> r = - MINIOS_EIO) \<and>
    (reliable (hw s) \<and> file_complete (volume s) (mounted_superblock s) inode \<longrightarrow> r = int len)"
  using assms
proof (induction "len - done" arbitrary: "done" s rule: less_induct)
  case less
  let ?V = "volume s" and ?sb = "mounted_superblock s" and ?p = "unat off + done"
  show ?case
  proof (cases "done < len")
    case False
    then have "read_loop inode off len done s = (int len, [], s)" using less.prems(3) by (subst read_loop.simps) simp
    then show ?thesis using False stays_refl [OF less.prems(1)] by simp
  next
    case True
    let ?w = "off + of_nat done"
    note pos = chunk_position [OF less.prems(2) True]
    define chunk where "chunk = min (4096 - ?p mod 4096) (len - done)"
    have chunk: "0 < chunk" "chunk \<le> len - done" "?p mod 4096 + chunk \<le> 4096"
      using True pos_mod_bound unfolding chunk_def by (simp_all add: min_def less_imp_le)
    obtain res s1 where a: "inode_block_at inode (?w div 4096) s = (res, s1)" "stays s s1"
      "\<And>b. res = Inr b \<Longrightarrow> block_of ?V ?sb inode (unat (?w div 4096)) = Some (unat b)"
      "\<And>b. reliable (hw s) \<Longrightarrow> block_of ?V ?sb inode (unat (?w div 4096)) = Some b \<Longrightarrow> res = Inr (of_nat b)"
      by (rule inode_block_at_sound [OF less.prems(1)]) blast
    have some: "\<exists>b. block_of ?V ?sb inode (?p div 4096) = Some b" if "file_complete ?V ?sb inode"
    proof -
      have "?p div 4096 < file_blocks inode" using file_blocks_bound(1) [of ?p inode] True less.prems(2) by linarith
      then show ?thesis using that by (auto simp: file_complete_def for_all_iff)
    qed
    show ?thesis
    proof (cases res)
      case (Inl e)
      then have "read_loop inode off len done s = (- MINIOS_EIO, [], s1)" using True a(1) by (simp add: read_loop.simps [of inode off len "done"])
      moreover have "\<not> (reliable (hw s) \<and> file_complete ?V ?sb inode)" using a(4) Inl some pos(2) by auto
      ultimately show ?thesis using a(2) by auto
    next
      case (Inr b)
      have b: "block_of ?V ?sb inode (?p div 4096) = Some (unat b)" using a(3) [OF Inr] pos(2) by simp
      then have "b < total_blocks (mounted_superblock s1)"
        using staysD(3) [OF a(2)] by (auto simp: block_of_def block_used_def word_less_nat_alt Let_def split: if_splits)
      then obtain r s2 where rd: "read_volume_block b s1 = (r, s2)" "stays s1 s2" "r = 0 \<Longrightarrow> io_block s2 = volume s1 (unat b)" "reliable (hw s1) \<Longrightarrow> r = 0"
        by (rule read_volume_block_sound [OF staysD(1) [OF a(2)]]) blast
      have s2: "stays s s2" by (rule stays_trans [OF a(2) rd(2)])
      show ?thesis
      proof (cases "r = 0")
        case False
        then have "read_loop inode off len done s = (- MINIOS_EIO, [], s2)" using True a(1) Inr rd(1) by (simp add: read_loop.simps [of inode off len "done"])
        then show ?thesis using s2 False rd(4) staysD(5) [OF a(2)] by auto
      next
        case r: True
        have "len - (done + chunk) < len - done" "done + chunk \<le> len" using chunk(1,2) True by linarith+
        note IH = less.hyps [OF this(1) staysD(1) [OF s2] less.prems(2) this(2), unfolded staysD(2,3) [OF s2]]
        then obtain r' rest s3 where rec: "read_loop inode off len (done + chunk) s2 = (r', rest, s3)" "stays s2 s3"
          "r' = int len \<and> rest = take (len - (done + chunk)) (drop (unat off + (done + chunk)) (file_content ?V ?sb inode)) \<or> r' = - MINIOS_EIO"
          "reliable (hw s2) \<and> file_complete ?V ?sb inode \<longrightarrow> r' = int len"
          by blast
        have bytes: "map (\<lambda>i. io_block s2 ! (?p mod 4096 + i)) [0..<chunk] = take chunk (drop ?p (file_content ?V ?sb inode))"
          using file_content_chunk [where V = ?V, OF volume_length [OF less.prems(1)] b chunk(3)] chunk(2) less.prems(2,3) rd(3) [OF r] staysD(2) [OF a(2)] by simp
        have "read_loop inode off len done s = (r', map (\<lambda>i. io_block s2 ! (?p mod 4096 + i)) [0..<chunk] @ rest, s3)"
          using True a(1) Inr rd(1) r rec(1) pos(3) by (simp add: read_loop.simps [of inode off len "done"] chunk_def Let_def)
        moreover have "stays s s3" by (rule stays_trans [OF s2 rec(2)])
        moreover have "take chunk (drop ?p (file_content ?V ?sb inode)) @ rest = take (len - done) (drop ?p (file_content ?V ?sb inode))" if "r' = int len"
          using rec(3) that take_chunk [OF chunk(2), of ?p "file_content ?V ?sb inode"] by (simp add: add.assoc)
        ultimately show ?thesis
          using rec(3,4) staysD(5) [OF s2] unfolding bytes by blast
      qed
    qed
  qed
qed

lemma volume_flags [simp]:
  "volume (s\<lparr>cpu := c\<rparr>) = volume s" "volume (s\<lparr>operation_busy := b\<rparr>) = volume s" "volume (minifs_release f s) = volume s"
  "volume_ready (s\<lparr>cpu := c\<rparr>) = volume_ready s" "volume_ready (s\<lparr>operation_busy := b\<rparr>) = volume_ready s"
  "volume_ready (minifs_release f s) = volume_ready s"
  by (simp_all add: volume_def medium_block_def fun_eq_iff volume_ready_def block_ready_def minifs_release_def)

lemma volume_same_sectors: "sectors d = sectors (hw s) \<Longrightarrow> volume (s\<lparr>hw := d\<rparr>) = volume s"
  using medium_block_same_sectors [of d s] by (simp add: volume_def fun_eq_iff)

lemma volume_lock:
  assumes "volume_ready s" and "\<not> operation_busy s"
  obtains f s1 where "minifs_acquire s = (Some f, s1)" "volume_ready s1" "volume s1 = volume s" "mounted_superblock s1 = mounted_superblock s" "hw s1 = hw s"
    "\<And>s2. stays s1 s2 \<Longrightarrow> stays s (minifs_release f s2)"
proof -
  let ?s1 = "s\<lparr>cpu := snd (irq_save_disable (cpu s)), operation_busy := True\<rparr>"
  have acq: "minifs_acquire s = (Some (eflags (cpu s)), ?s1)" using assms(2) by (simp add: minifs_acquire_def irq_save_disable_def irq_read_flags_def)
  have "stays s (minifs_release (eflags (cpu s)) s2)" if st: "stays ?s1 s2" for s2
  proof -
    have "core (minifs_release (eflags (cpu s)) s2) = core s" by (rule minifs_release_core [OF acq staysD(4) [OF st]])
    moreover have "hw (minifs_release f s2) = hw s2" "auxiliary_block (minifs_release f s2) = auxiliary_block s2"
      "compare_buffer (minifs_release f s2) = compare_buffer s2" for f by (simp_all add: minifs_release_def)
    ultimately show ?thesis using st by (simp add: stays_def)
  qed
  then show thesis using acq assms(1) by (intro that [of "eflags (cpu s)" ?s1]) simp_all
qed

text \<open>
  C32: reading a file returns exactly the requested part of its content, as the inode and its block
  pointers on the disk define it, cut at the end of the file, and changes neither the volume nor any static
  variable but the buffer. If the disk fails the read reports an error instead; if it works and the file is
  complete the read succeeds.
\<close>

theorem minifs_read_correct:
  assumes "volume_ready s" and "mounted s" and "\<not> operation_busy s"
  defines "V \<equiv> volume s" and "sb \<equiv> mounted_superblock s"
  shows "\<exists>r bs s'. minifs_read n off len s = (r, bs, s') \<and> stays s s' \<and>
    (r \<ge> 0 \<longrightarrow> r = int (length bs) \<and> (\<exists>inode. inode_of V sb (unat n) = Some inode \<and> i_mode inode = MINIFS_MODE_REGULAR \<and>
       bs = take len (drop (unat off) (file_content V sb inode)))) \<and>
    (\<forall>inode. reliable (hw s) \<and> inode_of V sb (unat n) = Some inode \<and> i_mode inode = MINIFS_MODE_REGULAR \<and>
       file_complete V sb inode \<longrightarrow> r \<ge> 0)"
proof -
  obtain f s1 where lock: "minifs_acquire s = (Some f, s1)" "volume_ready s1" "volume s1 = V" "mounted_superblock s1 = sb" "hw s1 = hw s"
    "\<And>s2. stays s1 s2 \<Longrightarrow> stays s (minifs_release f s2)"
    using volume_lock [OF assms(1,3)] unfolding V_def sb_def by metis
  obtain res s2 where rd: "read_inode_internal n s1 = (res, s2)" "stays s1 s2" "\<And>inode. res = Inr inode \<Longrightarrow> inode_of V sb (unat n) = Some inode"
    "\<And>inode. reliable (hw s) \<Longrightarrow> inode_of V sb (unat n) = Some inode \<Longrightarrow> res = Inr inode" "\<And>e. res = Inl e \<Longrightarrow> e < 0"
    by (rule read_inode_sound [OF lock(2), of n, unfolded lock(3,4,5)]) blast
  have eq: "minifs_read n off len s = (case (res, s2) of
       (Inl e, s) \<Rightarrow> (e, [], minifs_release f s)
     | (Inr inode, s) \<Rightarrow> if i_mode inode = MINIFS_MODE_DIRECTORY then (- MINIOS_EISDIR, [], minifs_release f s)
         else if off \<ge> i_size inode \<or> len = 0 then (0, [], minifs_release f s)
         else case read_loop inode off (min len (unat (i_size inode - off))) 0 s of (result, bytes, s) \<Rightarrow> (result, bytes, minifs_release f s))"
    using assms(2) lock(1) rd(1) by (simp add: minifs_read_def Let_def min_def not_less split: sum.splits)
  show ?thesis
  proof (cases res)
    case (Inl e)
    then show ?thesis using eq lock(6) [OF rd(2)] rd(4) rd(5) [OF Inl] by auto
  next
    case (Inr inode)
    note io = rd(3) [OF Inr]
    have mode: "i_mode inode = MINIFS_MODE_DIRECTORY \<or> i_mode inode = MINIFS_MODE_REGULAR"
      using io decode_inode_valid by (auto simp: inode_of_def valid_inode_def split: if_splits option.splits)
    note V4096 = volume_length [OF assms(1), folded V_def]
    have clen: "length (file_content V sb inode) = unat (i_size inode)" by (rule file_content_length [where V = V, OF V4096])
    consider "i_mode inode = MINIFS_MODE_DIRECTORY" | "i_mode inode = MINIFS_MODE_REGULAR" "off \<ge> i_size inode \<or> len = 0"
      | "i_mode inode = MINIFS_MODE_REGULAR" "\<not> (off \<ge> i_size inode \<or> len = 0)" using mode by blast
    then show ?thesis
    proof cases
      case 1
      then show ?thesis using eq Inr io lock(6) [OF rd(2)] by auto
    next
      case 2
      then have "take len (drop (unat off) (file_content V sb inode)) = []" by (auto simp: clen word_le_nat_alt)
      then show ?thesis using 2 eq Inr io lock(6) [OF rd(2)] by auto
    next
      case 3
      let ?l = "min len (unat (i_size inode - off))"
      have lt: "off < i_size inode" using 3(2) by auto
      have "unat (i_size inode - off) = unat (i_size inode) - unat off" "unat off < unat (i_size inode)"
        using unat_sub [OF less_imp_le [OF lt]] lt by (simp_all add: word_less_nat_alt)
      then have l: "unat off + ?l \<le> unat (i_size inode)" "take ?l (drop (unat off) (file_content V sb inode)) = take len (drop (unat off) (file_content V sb inode))"
        "length (take len (drop (unat off) (file_content V sb inode))) = ?l"
        by (auto simp: clen min_def)
      obtain r bs s3 where rl: "read_loop inode off ?l 0 s2 = (r, bs, s3)" "stays s2 s3"
        "r = int ?l \<and> bs = take ?l (drop (unat off) (file_content V sb inode)) \<or> r = - MINIOS_EIO"
        "reliable (hw s2) \<and> file_complete V sb inode \<longrightarrow> r = int ?l"
        using read_loop_sound [OF staysD(1) [OF rd(2)] l(1), of 0] unfolding staysD(2,3) [OF rd(2)] lock(3,4) by auto
      have "minifs_read n off len s = (r, bs, minifs_release f s3)" using eq Inr 3 rl(1) by simp
      moreover have "stays s (minifs_release f s3)" by (rule lock(6) [OF stays_trans [OF rd(2) rl(2)]])
      ultimately show ?thesis using rl(3,4) io l 3(1) staysD(5) [OF rd(2)] lock(5) by auto
    qed
  qed
qed


subsection \<open>Mounting\<close>

lemma metadata_allocated_sound:
  assumes "volume_ready s" and "unat b + n \<le> unat (data_start (mounted_superblock s))"
  shows "\<exists>ok s'. metadata_allocated n b s = (ok, s') \<and> stays s s' \<and> (ok \<longrightarrow> (\<forall>k. unat b \<le> k \<and> k < unat b + n \<longrightarrow> bit_at (volume s) 1 k)) \<and>
    (reliable (hw s) \<longrightarrow> ok = (\<forall>k. unat b \<le> k \<and> k < unat b + n \<longrightarrow> bit_at (volume s) 1 k))"
  using assms
proof (induction n arbitrary: b s)
  case 0
  then show ?case using stays_refl [OF 0(1)] by (intro exI [of _ True]) auto
next
  case (Suc n)
  have l: "layout_ok (mounted_superblock s)" by (rule volume_readyD(2) [OF Suc.prems(1)])
  have lt: "unat b < unat (total_blocks (mounted_superblock s))" using l Suc.prems(2) by (simp add: layout_ok_def)
  then have h: "has_bit s 1 (block_bitmap_blocks (mounted_superblock s)) b"
    using l by (simp add: has_bit_def layout_ok_def)
  have b1: "unat (b + 1) = unat b + 1"
    using lt unat_lt_2p32 [of "total_blocks (mounted_superblock s)"] by (subst unat_add_lem [THEN iffD1]) simp_all
  obtain ok s1 where bs: "bitmap_bit_set 1 (block_bitmap_blocks (mounted_superblock s)) b s = (ok, s1)" "stays s s1" "ok \<Longrightarrow> bit_at (volume s) 1 (unat b)"
    "reliable (hw s) \<Longrightarrow> ok = bit_at (volume s) 1 (unat b)"
    by (rule bitmap_bit_set_sound [OF Suc.prems(1) h]) simp
  have split: "(\<forall>k. unat b \<le> k \<and> k < unat b + Suc n \<longrightarrow> P k) \<longleftrightarrow> P (unat b) \<and> (\<forall>k. unat b + 1 \<le> k \<and> k < unat b + 1 + n \<longrightarrow> P k)" for P
  proof -
    have "unat b \<le> k \<and> k < unat b + Suc n \<longleftrightarrow> k = unat b \<or> unat b + 1 \<le> k \<and> k < unat b + 1 + n" for k by auto
    then show ?thesis by (simp only:) blast
  qed
  show ?case
  proof (cases ok)
    case False
    then have "metadata_allocated (Suc n) b s = (False, s1)" using bs(1) l by (simp add: layout_ok_def Let_def)
    then show ?thesis using False bs(2,4) split by (auto intro!: exI [of _ "unat b"])
  next
    case True
    then have e: "metadata_allocated (Suc n) b s = metadata_allocated n (b + 1) s1" using bs(1) l by (simp add: layout_ok_def Let_def)
    have "\<exists>ok s'. metadata_allocated n (b + 1) s1 = (ok, s') \<and> stays s1 s' \<and> (ok \<longrightarrow> (\<forall>k. unat b + 1 \<le> k \<and> k < unat b + 1 + n \<longrightarrow> bit_at (volume s) 1 k)) \<and>
      (reliable (hw s1) \<longrightarrow> ok = (\<forall>k. unat b + 1 \<le> k \<and> k < unat b + 1 + n \<longrightarrow> bit_at (volume s) 1 k))"
      using Suc.IH [OF staysD(1) [OF bs(2)], of "b + 1"] Suc.prems(2) unfolding staysD(2,3) [OF bs(2)] b1 by simp
    then show ?thesis unfolding e split using True bs(3) staysD(5) [OF bs(2)] stays_trans [OF bs(2)] by blast
  qed
qed

definition mountable :: "'a minifs_scheme \<Rightarrow> minifs_superblock \<Rightarrow> bool" where
  "mountable s sb \<longleftrightarrow> unat (volume_start_block s) + unat (volume_block_count s) \<le> unat (device_block_count s) \<and>
     decode_superblock (volume_block_count s) (volume s 0) = Some sb \<and> (\<forall>k<unat (data_start sb). bit_at (volume s) 1 k) \<and>
     (\<exists>root. inode_of (volume s) sb (unat (root_inode sb)) = Some root \<and> i_mode root = MINIFS_MODE_DIRECTORY)"

lemma mount_checks_sound:
  assumes v: "volume_ready s" and sb: "mounted_superblock s = sb"
  defines "good \<equiv> (\<forall>k<unat (data_start sb). bit_at (volume s) 1 k) \<and>
    (\<exists>root. inode_of (volume s) sb (unat (root_inode sb)) = Some root \<and> i_mode root = MINIFS_MODE_DIRECTORY)"
  shows "\<exists>ok s'. mount_checks sb s = (ok, s') \<and> stays s s' \<and> (ok \<longrightarrow> good) \<and> (reliable (hw s) \<longrightarrow> ok = good)"
proof -
  have root: "root_inode sb < total_inodes (mounted_superblock s)" using volume_readyD(2) [OF v] sb by (simp add: layout_ok_def)
  obtain ok s1 where m: "metadata_allocated (unat (data_start sb)) 0 s = (ok, s1)" "stays s s1" "ok \<Longrightarrow> \<forall>k<unat (data_start sb). bit_at (volume s) 1 k"
    "reliable (hw s) \<Longrightarrow> ok = (\<forall>k<unat (data_start sb). bit_at (volume s) 1 k)"
    using metadata_allocated_sound [OF v, of 0 "unat (data_start sb)"] sb by auto
  note s1 = staysD [OF m(2)]
  obtain ok2 s2 where b: "bitmap_bit_set (inode_bitmap_start sb) (inode_bitmap_blocks sb) (root_inode sb) s1 = (ok2, s2)" "stays s1 s2"
    "reliable (hw s1) \<Longrightarrow> ok2 = bit_at (volume s) (unat (inode_bitmap_start sb)) (unat (root_inode sb))"
    using bitmap_bit_set_sound [OF s1(1)] inode_location(1) [OF s1(1), of "root_inode sb"] root sb s1(2,3) by metis
  note s2 = staysD [OF stays_trans [OF m(2) b(2)]]
  obtain res s3 where rd: "read_inode_internal (root_inode sb) s2 = (res, s3)" "stays s2 s3"
    "\<And>inode. res = Inr inode \<Longrightarrow> inode_of (volume s) sb (unat (root_inode sb)) = Some inode"
    "\<And>inode. reliable (hw s2) \<Longrightarrow> inode_of (volume s) sb (unat (root_inode sb)) = Some inode \<Longrightarrow> res = Inr inode"
    by (rule read_inode_sound [OF s2(1), of "root_inode sb", unfolded s2(2,3) sb]) blast
  have st3: "stays s s3" by (rule stays_trans [OF stays_trans [OF m(2) b(2)] rd(2)])
  show ?thesis
  proof (cases "ok \<and> ok2")
    case False
    then have "\<exists>s'. mount_checks sb s = (False, s') \<and> stays s s'"
      using m(1,2) b(1) stays_trans [OF m(2) b(2)] by (cases ok) (auto simp: mount_checks_def)
    moreover have "\<not> good" if "reliable (hw s)"
      using False m(4) [OF that] b(3) s1(5) [OF that] by (auto simp: good_def inode_of_def split: if_splits)
    ultimately show ?thesis by auto
  next
    case True
    show ?thesis
    proof (cases res)
      case (Inl e)
      then have "mount_checks sb s = (False, s3)" using True m(1) b(1) rd(1) by (simp add: mount_checks_def)
      moreover have "\<not> good" if "reliable (hw s)" using rd(4) s2(5) [OF that] Inl by (auto simp: good_def)
      ultimately show ?thesis using st3 by auto
    next
      case (Inr r)
      then have "mount_checks sb s = (i_mode r = MINIFS_MODE_DIRECTORY, s3)" using True m(1) b(1) rd(1) by (simp add: mount_checks_def)
      then show ?thesis using st3 m(3) True rd(3) [OF Inr] by (auto simp: good_def)
    qed
  qed
qed

lemma volume_mounting [simp]:
  "volume (s\<lparr>mounted := b\<rparr>) = volume s" "volume (s\<lparr>mounted_superblock := sb\<rparr>) = volume s" "volume (clear_superblock s) = volume s"
  "volume_ready (s\<lparr>mounted := b\<rparr>) = volume_ready s"
  by (simp_all add: volume_def medium_block_def fun_eq_iff volume_ready_def block_ready_def clear_superblock_def)

text \<open>What every run of \<open>minifs_mount\<close> keeps: the volume and everything but the mounted superblock and flag.\<close>

definition mount_frame :: "'a minifs_scheme \<Rightarrow> 'a minifs_scheme \<Rightarrow> bool" where
  "mount_frame s s' \<longleftrightarrow> volume s' = volume s \<and> core (s'\<lparr>mounted := mounted s, mounted_superblock := mounted_superblock s\<rparr>) = core s"

definition unmounted :: "'a minifs_scheme \<Rightarrow> bool" where
  "unmounted s \<longleftrightarrow> \<not> mounted s \<and> mounted_superblock s = empty_superblock"

lemma range_check: "(a :: u32) > c \<or> b > c - a \<longleftrightarrow> \<not> unat a + unat b \<le> unat c"
proof (cases "a > c")
  case False
  then have "unat (c - a) = unat c - unat a" "unat a \<le> unat c" using unat_sub [of a c] by (simp_all add: word_le_nat_alt not_less)
  then show ?thesis using False by (auto simp: word_less_nat_alt)
qed (auto simp: word_less_nat_alt)

lemma release_mounting [simp]:
  "mounted (minifs_release f s) = mounted s" "mounted_superblock (minifs_release f s) = mounted_superblock s" "hw (minifs_release f s) = hw s"
  by (simp_all add: minifs_release_def)

text \<open>States on the way through \<open>minifs_mount\<close>, after the lock was taken in \<open>s\<close> with state \<open>s1\<close>.\<close>

definition mounting :: "'a minifs_scheme \<Rightarrow> 'a minifs_scheme \<Rightarrow> bool" where
  "mounting s1 s2 \<longleftrightarrow> volume s2 = volume s1 \<and> core (s2\<lparr>mounted := mounted s1, mounted_superblock := mounted_superblock s1\<rparr>) = core s1"

lemma mounting_release:
  assumes "minifs_acquire s = (Some f, s1)" and "mounting s1 s2"
  shows "mount_frame s (minifs_release f s2)"
proof -
  note s1 = minifs_acquire_Some [OF assms(1)]
  have "core (minifs_release f (s2\<lparr>mounted := mounted s1, mounted_superblock := mounted_superblock s1\<rparr>)) = core s"
    using assms(2) by (intro minifs_release_core [OF assms(1)]) (simp add: mounting_def)
  moreover have "minifs_release f (s2\<lparr>mounted := m, mounted_superblock := b\<rparr>) = (minifs_release f s2)\<lparr>mounted := m, mounted_superblock := b\<rparr>" for m b
    by (simp add: minifs_release_def)
  ultimately show ?thesis using assms(2) s1(2) by (simp add: mount_frame_def mounting_def)
qed

lemma mounting_stays: "mounting s1 s2 \<Longrightarrow> stays s2 s3 \<Longrightarrow> mounting s1 s3"
  by (simp add: mounting_def stays_def core_def)

lemma decode_superblock_positive: "decode_superblock n b = Some sb \<Longrightarrow> 0 < unat n"
  using decode_superblock_layout [of n b sb] by (auto simp: layout_ok_def)

text \<open>The part of \<open>minifs_mount\<close> after the superblock's block has been read into \<open>io_block\<close>.\<close>

lemma mount_superblock_sound:
  assumes s1: "mounting s1 s2" and u: "unmounted s2" and b: "block_ready s2" "length (io_block s2) = 4096" "length (auxiliary_block s2) = 4096" "length (compare_buffer s2) = 4096"
    and io: "io_block s2 = volume s1 0" and range: "unat (volume_start_block s2) + unat (volume_block_count s2) \<le> unat (device_block_count s2)"
  shows "\<exists>r s'. (case decode_superblock (volume_block_count s2) (io_block s2) of
       None \<Rightarrow> (- MINIOS_EIO, minifs_release f s2)
     | Some candidate \<Rightarrow> case mount_checks candidate (s2\<lparr>mounted_superblock := candidate\<rparr>) of (ok, s) \<Rightarrow>
         if ok then (0, minifs_release f (s\<lparr>mounted := True\<rparr>)) else (- MINIOS_EIO, minifs_release f (clear_superblock s))) = (r, minifs_release f s') \<and>
    mounting s1 s' \<and> (r = 0 \<and> mountable s2 (mounted_superblock s') \<and> mounted s' \<and> volume_ready s' \<or> r = - MINIOS_EIO \<and> unmounted s') \<and>
    (reliable (hw s2) \<longrightarrow> (r = 0 \<longleftrightarrow> (\<exists>sb. mountable s2 sb)))"
proof (cases "decode_superblock (volume_block_count s2) (io_block s2)")
  case None
  then have "\<not> mountable s2 sb" for sb using io s1 by (simp add: mountable_def mounting_def)
  then show ?thesis using None s1 u by (intro exI [of _ "- MINIOS_EIO"] exI [of _ s2]) simp
next
  case (Some sb)
  let ?c = "s2\<lparr>mounted_superblock := sb\<rparr>"
  have v: "volume_ready ?c" using decode_superblock_layout [OF Some] b range by (simp add: volume_ready_def block_ready_def)
  have c: "mounting s1 ?c" using s1 by (simp add: mounting_def core_def)
  have V: "volume s2 0 = io_block s2" using io s1 by (simp add: mounting_def)
  obtain ok s3 where k: "mount_checks sb ?c = (ok, s3)" "stays ?c s3" "ok \<Longrightarrow> mountable s2 sb" "reliable (hw s2) \<Longrightarrow> ok = mountable s2 sb"
    using mount_checks_sound [OF v, of sb] Some range V unfolding mountable_def by auto
  have uniq: "mountable s2 sb' \<Longrightarrow> sb' = sb" for sb' using Some V by (simp add: mountable_def)
  have sb3: "mounted_superblock s3 = sb" using staysD(3) [OF k(2)] by simp
  have "mounting s1 (s3\<lparr>mounted := True\<rparr>)" "mounting s1 (clear_superblock s3)" "volume_ready s3"
    using mounting_stays [OF c k(2)] staysD(1) [OF k(2)] by (simp_all add: mounting_def core_def clear_superblock_def)
  moreover have "unmounted (clear_superblock s3)" using u core_eqD(3) [OF staysD(4) [OF k(2)]] by (simp add: unmounted_def clear_superblock_def)
  moreover have "(\<exists>sb'. mountable s2 sb') \<longleftrightarrow> mountable s2 sb" using uniq by blast
  ultimately show ?thesis
    using k sb3 Some
    by (intro exI [of _ "if ok then 0 else - MINIOS_EIO"] exI [of _ "if ok then s3\<lparr>mounted := True\<rparr> else clear_superblock s3"]) (cases ok; simp)
qed

text \<open>
  C33: on an idle system, mounting succeeds only on a volume that passes every check: a superblock that
  decodes, its metadata blocks marked as used, and a root directory. It leaves a file system that is ready
  for the other operations. In every other case nothing is mounted. On a working disk it does succeed
  exactly on such a volume.
\<close>

theorem minifs_mount_correct:
  assumes "block_ready s" and "length (io_block s) = 4096" and "length (auxiliary_block s) = 4096" and "length (compare_buffer s) = 4096"
    and "\<not> operation_busy s"
  shows "\<exists>r s'. minifs_mount s = (r, s') \<and> mount_frame s s' \<and>
    (r = 0 \<and> mountable s (mounted_superblock s') \<and> mounted s' \<and> volume_ready s' \<or> r = - MINIOS_EIO \<and> unmounted s') \<and>
    (reliable (hw s) \<longrightarrow> (r = 0 \<longleftrightarrow> (\<exists>sb. mountable s sb)))"
proof -
  let ?s1 = "s\<lparr>cpu := snd (irq_save_disable (cpu s)), operation_busy := True\<rparr>"
  let ?f = "eflags (cpu s)" and ?s2 = "clear_superblock (?s1\<lparr>mounted := False\<rparr>)"
  have acq: "minifs_acquire s = (Some ?f, ?s1)" using assms(5) by (simp add: minifs_acquire_def irq_save_disable_def irq_read_flags_def)
  have s2: "mounting ?s1 ?s2" "unmounted ?s2" by (simp_all add: mounting_def unmounted_def core_def clear_superblock_def)
  have ready: "block_ready ?s2" using assms(1) by (simp add: block_ready_def clear_superblock_def)
  have fields: "volume_start_block ?s2 = volume_start_block s" "volume_block_count ?s2 = volume_block_count s" "block_count ?s2 = device_block_count s" "hw ?s2 = hw s"
    "device_block_count ?s2 = device_block_count s" "io_block ?s2 = io_block s"
    by (simp_all add: clear_superblock_def block_count_def)
  note finish = mounting_release [OF acq]
  consider "\<not> unat (volume_start_block s) + unat (volume_block_count s) \<le> unat (device_block_count s)"
    | "unat (volume_start_block s) + unat (volume_block_count s) \<le> unat (device_block_count s)" "\<not> unat (volume_start_block s) < unat (device_block_count s)"
    | "unat (volume_start_block s) + unat (volume_block_count s) \<le> unat (device_block_count s)" "unat (volume_start_block s) < unat (device_block_count s)" by blast
  then show ?thesis
  proof cases
    case 1
    then have "minifs_mount s = (- MINIOS_EIO, minifs_release ?f ?s2)" "\<not> mountable s sb" for sb
      by (simp_all add: minifs_mount_def acq Let_def fields range_check mountable_def)
    then show ?thesis using finish [OF s2(1)] s2(2) by (simp add: unmounted_def)
  next
    case 2
    have "minifs_mount s = (- MINIOS_EIO, minifs_release ?f (?s2\<lparr>io_block := io_block s\<rparr>))"
      using 2 block_read_outside [OF ready, of "volume_start_block s"]
      by (simp add: minifs_mount_def acq Let_def fields range_check fill_buffer_def) (simp add: clear_superblock_def)
    moreover have "\<not> mountable s sb" for sb using 2 decode_superblock_positive [of "volume_block_count s"] by (auto simp: mountable_def)
    moreover have "mounting ?s1 (?s2\<lparr>io_block := io_block s\<rparr>)" using s2(1) by (simp add: mounting_def core_def)
    ultimately show ?thesis using finish [of "?s2\<lparr>io_block := io_block s\<rparr>"] s2(2) by (simp add: unmounted_def)
  next
    case 3
    then have "volume_start_block s < device_block_count s" by (simp add: word_less_nat_alt)
    obtain r bs d where rd: "block_read (volume_start_block s) 1 ?s2 = (r, bs, ?s2\<lparr>hw := d\<rparr>)" "sectors d = sectors (hw s)" "length bs \<le> 4096"
      "r = 0 \<Longrightarrow> bs = medium_block ?s2 (unat (volume_start_block s))" "reliable (hw s) \<Longrightarrow> r = 0 \<and> reliable d"
      by (rule block_read_one [OF ready, of "volume_start_block s", unfolded fields]) (use 3(2) in blast)+
    let ?s3 = "?s2\<lparr>hw := d, io_block := fill_buffer bs (io_block s)\<rparr>"
    have V3: "volume ?s3 = volume ?s1" using volume_same_sectors [of d ?s2] rd(2) by (simp add: fields)
    have s3: "mounting ?s1 ?s3" "unmounted ?s3" using s2 V3 by (simp_all add: mounting_def core_def unmounted_def)
    have e: "minifs_mount s = (if r \<noteq> 0 then (- MINIOS_EIO, minifs_release ?f ?s3) else case decode_superblock (volume_block_count ?s3) (io_block ?s3) of
       None \<Rightarrow> (- MINIOS_EIO, minifs_release ?f ?s3)
     | Some candidate \<Rightarrow> case mount_checks candidate (?s3\<lparr>mounted_superblock := candidate\<rparr>) of (ok, s) \<Rightarrow>
         if ok then (0, minifs_release ?f (s\<lparr>mounted := True\<rparr>)) else (- MINIOS_EIO, minifs_release ?f (clear_superblock s)))"
      using 3(1) rd(1) by (simp add: minifs_mount_def acq Let_def fields range_check split: option.splits)
    show ?thesis
    proof (cases "r = 0")
      case False
      then show ?thesis using e rd(5) finish [OF s3(1)] s3(2) by (auto simp: unmounted_def)
    next
      case True
      have bs: "bs = volume ?s1 0" "length bs = 4096"
        using rd(4) [OF True] medium_block_length [OF ready] by (simp_all add: volume_def medium_block_def clear_superblock_def)
      have io: "io_block ?s3 = volume ?s1 0" using bs assms(2) by (simp add: fill_buffer_full)
      have b3: "block_ready ?s3" using block_ready_same_sectors [of d ?s2] ready rd(2) by (simp add: fields block_ready_def)
      have m: "mountable ?s3 sb = mountable s sb" for sb
        using V3 by (simp add: mountable_def) (simp add: clear_superblock_def)
      obtain r' s' where k: "minifs_mount s = (r', minifs_release ?f s')" "mounting ?s1 s'"
        "r' = 0 \<and> mountable ?s3 (mounted_superblock s') \<and> mounted s' \<and> volume_ready s' \<or> r' = - MINIOS_EIO \<and> unmounted s'"
        "reliable (hw ?s3) \<longrightarrow> (r' = 0 \<longleftrightarrow> (\<exists>sb. mountable ?s3 sb))"
        unfolding e using True mount_superblock_sound [OF s3 b3 _ _ _ io, of ?f] bs assms(2-4) 3(1)
        by (simp add: fill_buffer_full) (simp add: clear_superblock_def, blast)
      then show ?thesis using finish [OF k(2)] rd(5) unfolding m by (auto simp: unmounted_def)
    qed
  qed
qed


subsection \<open>A small volume\<close>

text \<open>The sectors of a disk with given blocks.\<close>

definition disk_of :: "(nat \<Rightarrow> u8 list) \<Rightarrow> nat \<Rightarrow> u16 list" where
  "disk_of B lba = words_of (take 512 (drop (lba mod 8 * 512) (B (lba div 8))))"

lemma disk_of_block:
  assumes "\<And>n. length (B n) = 4096" and "sectors d = disk_of B"
  shows "sound_medium d" "sector_bytes d (8 * n) 8 = B n"
proof -
  have len: "length (take 512 (drop (lba mod 8 * 512) (B (lba div 8)))) = 512" for lba
  proof -
    have "lba mod 8 < 8" by simp
    then show ?thesis by (simp add: assms(1))
  qed
  then show "sound_medium d" unfolding sound_medium_def assms(2) disk_of_def length_words_of by simp
  have bytes: "bytes_of (sectors d lba) = take 512 (drop (lba mod 8 * 512) (B (lba div 8)))" for lba
    unfolding assms(2) disk_of_def by (rule bytes_of_words_of) (subst len, simp)
  have "sector_bytes d (8 * n + j) k = take (512 * k) (drop (j * 512) (B n))" if "j + k \<le> 8" for j k
    using that
  proof (induction k arbitrary: j)
    case 0
    show ?case by (simp add: sector_bytes_def)
  next
    case (Suc k)
    then have "bytes_of (sectors d (8 * n + j)) = take 512 (drop (j * 512) (B n))" by (simp add: bytes)
    moreover have "sector_bytes d (8 * n + Suc j) k = take (512 * k) (drop (Suc j * 512) (B n))" using Suc.prems by (intro Suc.IH) simp
    ultimately show ?case by (simp add: sector_bytes_Suc take_add)
  qed
  from this [of 0 8] show "sector_bytes d (8 * n) 8 = B n" by (simp add: assms(1))
qed

definition sample_file_inode :: minifs_inode where
  "sample_file_inode = clear_inode\<lparr>i_size := 5, i_direct := [5, 0, 0, 0, 0, 0, 0, 0, 0, 0]\<rparr>"

definition sample_root_inode :: minifs_inode where
  "sample_root_inode = clear_inode\<lparr>i_mode := MINIFS_MODE_DIRECTORY, i_size := 192, i_link_count := 2, i_direct := [4, 0, 0, 0, 0, 0, 0, 0, 0, 0]\<rparr>"

definition sample_blocks :: "nat \<Rightarrow> u8 list" where
  "sample_blocks n =
     (if n = 0 then sample_volume_head
      else if n = 1 then 0x3F # replicate 4095 0
      else if n = 2 then 0x03 # replicate 4095 0
      else if n = 3 then encode_inode sample_root_inode 0 (encode_inode sample_file_inode 64 (replicate 4096 0))
      else if n = 4 then encode_directory_entry 128 1 MINIFS_ENTRY_REGULAR [0x68] (encode_directory_entry 64 0 MINIFS_ENTRY_DIRECTORY [0x2E, 0x2E]
        (encode_directory_entry 0 0 MINIFS_ENTRY_DIRECTORY [0x2E] (replicate 4096 0)))
      else if n = 5 then [0x68, 0x65, 0x6C, 0x6C, 0x6F] @ replicate 4091 0
      else replicate 4096 0)"

definition sample_volume :: minifs where
  "sample_volume = sample_minifs\<lparr>hw := sample_hw\<lparr>sectors := disk_of sample_blocks\<rparr>, mounted_superblock := sample_superblock\<rparr>"

lemma sample_blocks_length: "length (sample_blocks n) = 4096"
  by (simp add: sample_blocks_def sample_volume_head_decodes(1) encode_directory_entry_bytes(1))

lemma sample_volume_blocks: "volume sample_volume = sample_blocks" "sound_medium (hw sample_volume)"
  using disk_of_block [of sample_blocks "hw sample_volume"] sample_blocks_length
  by (simp_all add: volume_def medium_block_def fun_eq_iff sample_volume_def sample_minifs_def)

lemma sample_volume_ready: "volume_ready sample_volume" "reliable (hw sample_volume)" "mounted sample_volume" "\<not> operation_busy sample_volume"
  "mounted_superblock sample_volume = sample_superblock"
  using sample_volume_blocks(2)
  by (simp_all add: volume_ready_def block_ready_def layout_ok_def sample_volume_def sample_minifs_def sample_superblock_def reliable_def sample_hw_def)

lemma sample_inode_checks [simp]:
  "valid_inode sample_file_inode" "valid_inode sample_root_inode" "inode_pointer_shape_valid sample_file_inode" "inode_pointer_shape_valid sample_root_inode"
  by (simp_all add: valid_inode_def sample_file_inode_def sample_root_inode_def clear_inode_def inode_pointer_shape_valid_def divide_round_up_def
      for_all_def upt_rec)

lemma sample_inodes:
  "inode_of sample_blocks sample_superblock 1 = Some sample_file_inode" "inode_of sample_blocks sample_superblock 0 = Some sample_root_inode"
proof -
  let ?b = "encode_inode sample_file_inode 64 (replicate 4096 0)"
  have "decode_inode (sample_blocks 3) 64 = decode_inode ?b 64"
    by (rule decode_inode_cong) (simp add: sample_blocks_def encode_inode_fields(9))
  then have "decode_inode (sample_blocks 3) 64 = Some sample_file_inode" "decode_inode (sample_blocks 3) 0 = Some sample_root_inode"
    by (simp_all add: inode_roundtrip_at) (simp add: sample_blocks_def inode_roundtrip_at)
  moreover have "sample_blocks 2 ! 0 = 0x03" by (simp add: sample_blocks_def)
  ultimately show "inode_of sample_blocks sample_superblock 1 = Some sample_file_inode" "inode_of sample_blocks sample_superblock 0 = Some sample_root_inode"
    by (simp_all add: inode_of_def bit_at_def sample_superblock_def)
qed

lemma sample_blocks_used: "k < 6 \<Longrightarrow> bit_at sample_blocks 1 k"
proof -
  have "sample_blocks 1 ! 0 = 0x3F" by (simp add: sample_blocks_def)
  moreover assume "k < 6"
  then have "k = 0 \<or> k = 1 \<or> k = 2 \<or> k = 3 \<or> k = 4 \<or> k = 5" by linarith
  ultimately show ?thesis by (auto simp: bit_at_def)
qed

lemma sample_file:
  "file_complete sample_blocks sample_superblock sample_file_inode"
  "file_content sample_blocks sample_superblock sample_file_inode = [0x68, 0x65, 0x6C, 0x6C, 0x6F]"
proof -
  have b: "block_of sample_blocks sample_superblock sample_file_inode 0 = Some 5" "file_blocks sample_file_inode = 1"
    using sample_blocks_used [of 5]
    by (simp_all add: block_of_def block_used_def sample_superblock_def file_blocks_def sample_file_inode_def clear_inode_def)
  then show "file_complete sample_blocks sample_superblock sample_file_inode" by (simp add: file_complete_def for_all_def)
  show "file_content sample_blocks sample_superblock sample_file_inode = [0x68, 0x65, 0x6C, 0x6C, 0x6F]"
    using b by (simp add: file_content_def) (simp add: sample_file_inode_def sample_blocks_def)
qed

theorem minifs_mount_correct_witness:
  "\<exists>s'. minifs_mount (sample_volume\<lparr>mounted := False, mounted_superblock := empty_superblock\<rparr>) = (0, s') \<and> mounted s'"
proof -
  let ?s = "sample_volume\<lparr>mounted := False, mounted_superblock := empty_superblock\<rparr>"
  have "volume ?s = sample_blocks" using sample_volume_blocks by simp
  moreover have "block_ready ?s" "length (io_block ?s) = 4096" "length (auxiliary_block ?s) = 4096" "length (compare_buffer ?s) = 4096" "\<not> operation_busy ?s"
    using volume_readyD [OF sample_volume_ready(1)] sample_volume_ready(4) by (simp_all add: block_ready_def)
  note m = minifs_mount_correct [OF this]
  have "sample_blocks 0 = sample_volume_head" by (simp add: sample_blocks_def)
  then have "mountable ?s sample_superblock"
    using calculation sample_volume_head_decodes(2) sample_inodes(2) sample_blocks_used
    by (simp add: mountable_def sample_volume_def sample_minifs_def) (simp add: sample_superblock_def sample_root_inode_def)
  then show ?thesis using m sample_volume_ready(2) by auto
qed

theorem minifs_read_correct_witness: "\<exists>s'. minifs_read 1 1 3 sample_volume = (3, [0x65, 0x6C, 0x6C], s')"
proof -
  have "i_mode sample_file_inode = 1" by (simp add: sample_file_inode_def clear_inode_def)
  then show ?thesis
    using minifs_read_correct [OF sample_volume_ready(1,3,4), of 1 1 3] sample_volume_ready(2) sample_file sample_inodes
    by (auto simp: sample_volume_blocks sample_volume_ready)
qed

end
