(* ===== verification/Byte_Queue.thy ===== *)
theory Byte_Queue
  imports Prelude
begin

text \<open>
  The contract of a bounded queue of bytes that drops what does not fit, as the keyboard driver provides it to
  the readers of the console.
\<close>

locale byte_queue =
  fixes push :: "u8 \<Rightarrow> 's \<Rightarrow> 's"
    and pop :: "'s \<Rightarrow> (u8 \<times> 's) option"
    and contents :: "'s \<Rightarrow> u8 list"
    and capacity :: nat
    and ok :: "'s \<Rightarrow> bool"
  assumes push_ok: "ok s \<Longrightarrow> ok (push c s) \<and> contents (push c s) = (if length (contents s) < capacity then contents s @ [c] else contents s)"
    and pop_ok: "ok s \<Longrightarrow> (case contents s of [] \<Rightarrow> pop s = None | c # cs \<Rightarrow> \<exists>s'. pop s = Some (c, s') \<and> ok s' \<and> contents s' = cs)"
    and fits: "ok s \<Longrightarrow> length (contents s) \<le> capacity"
begin

lemma pop_empty: "ok s \<Longrightarrow> pop s = None \<longleftrightarrow> contents s = []"
  using pop_ok [of s] by (auto split: list.splits)

lemma pop_Some: "ok s \<Longrightarrow> pop s = Some (c, s') \<Longrightarrow> ok s' \<and> contents s = c # contents s'"
  using pop_ok [of s] by (auto split: list.splits)

lemma push_all: "ok s \<Longrightarrow> ok (fold push cs s) \<and> contents (fold push cs s) = take capacity (contents s @ cs)"
proof (induction cs arbitrary: s)
  case Nil
  then show ?case using fits by simp
next
  case (Cons c cs)
  then show ?case using push_ok [of s c] Cons.IH [of "push c s"] fits [of s] by (cases "length (contents s) < capacity") auto
qed

lemma push_prefix: "ok s \<Longrightarrow> \<exists>cs. contents (push c s) = contents s @ cs \<and> set cs \<subseteq> {c}"
  using push_ok [of s c] by (intro exI [of _ "if length (contents s) < capacity then [c] else []"]) auto

end

end
