(* ===== verification/Keyboard.thy ===== *)
theory Keyboard
  imports Byte_Queue
begin

text \<open>
  The PS/2 keyboard driver (\<open>kernel/drivers/keyboard.c\<close>). The controller is an environment: what a port
  returns is an arbitrary function of the port and of how many reads went before, and the values written
  are recorded. A poll that runs out is a panic, the value \<^const>\<open>None\<close>.
\<close>

subsection \<open>The controller\<close>

abbreviation (input) PS2_DATA_PORT :: u16 where "PS2_DATA_PORT \<equiv> 0x60"
abbreviation (input) PS2_STATUS_PORT :: u16 where "PS2_STATUS_PORT \<equiv> 0x64"
abbreviation (input) PS2_COMMAND_PORT :: u16 where "PS2_COMMAND_PORT \<equiv> 0x64"
abbreviation (input) PS2_POLL_LIMIT :: nat where "PS2_POLL_LIMIT \<equiv> 0xFFFF"
abbreviation (input) SCANCODE_EXTENDED :: u8 where "SCANCODE_EXTENDED \<equiv> 0xE0"
abbreviation (input) SCANCODE_PAUSE :: u8 where "SCANCODE_PAUSE \<equiv> 0xE1"
abbreviation (input) SCANCODE_RELEASE :: u8 where "SCANCODE_RELEASE \<equiv> 0x80"
abbreviation (input) SCANCODE_LEFT_SHIFT :: u8 where "SCANCODE_LEFT_SHIFT \<equiv> 0x2A"
abbreviation (input) SCANCODE_RIGHT_SHIFT :: u8 where "SCANCODE_RIGHT_SHIFT \<equiv> 0x36"
abbreviation (input) SCANCODE_CONTROL :: u8 where "SCANCODE_CONTROL \<equiv> 0x1D"
abbreviation (input) SCANCODE_CAPS_LOCK :: u8 where "SCANCODE_CAPS_LOCK \<equiv> 0x3A"
abbreviation (input) SCANCODE_PAUSE_REMAINING :: u8 where "SCANCODE_PAUSE_REMAINING \<equiv> 5"
abbreviation (input) KEYBOARD_BUFFER_SIZE :: nat where "KEYBOARD_BUFFER_SIZE \<equiv> 128"
abbreviation (input) KEYBOARD_BUFFER_MASK :: u8 where "KEYBOARD_BUFFER_MASK \<equiv> 127"

record keyboard =
  ps2_reads :: nat
  ps2_input :: "u16 \<Rightarrow> nat \<Rightarrow> u8"
  ps2_writes :: "(u16 \<times> u8) list"
  input_buffer :: "u8 list"
  input_head :: u8
  input_tail :: u8
  left_shift_pressed :: bool
  right_shift_pressed :: bool
  left_ctrl_pressed :: bool
  right_ctrl_pressed :: bool
  caps_lock :: bool
  extended_scancode :: bool
  pause_bytes_remaining :: u8

definition ps2_in8 :: "u16 \<Rightarrow> keyboard \<Rightarrow> u8 \<times> keyboard" where
  "ps2_in8 port k = (ps2_input k port (ps2_reads k), k\<lparr>ps2_reads := Suc (ps2_reads k)\<rparr>)"

definition ps2_out8 :: "u16 \<Rightarrow> u8 \<Rightarrow> keyboard \<Rightarrow> keyboard" where
  "ps2_out8 port v k = k\<lparr>ps2_writes := ps2_writes k @ [(port, v)]\<rparr>"

text \<open>The polling loops, by the number of polls that remain.\<close>

fun wait_input_empty :: "nat \<Rightarrow> keyboard \<Rightarrow> keyboard option" where
  "wait_input_empty 0 k = None"
| "wait_input_empty (Suc remaining) k =
     (case ps2_in8 PS2_STATUS_PORT k of (status, k) \<Rightarrow>
        if status AND 0x02 = 0 then Some k else wait_input_empty remaining k)"

definition ps2_wait_input_empty :: "keyboard \<Rightarrow> keyboard option" where
  "ps2_wait_input_empty k = wait_input_empty PS2_POLL_LIMIT k"

fun read_data :: "nat \<Rightarrow> keyboard \<Rightarrow> (u8 \<times> keyboard) option" where
  "read_data 0 k = None"
| "read_data (Suc remaining) k =
     (case ps2_in8 PS2_STATUS_PORT k of (status, k) \<Rightarrow>
        if status AND 0x01 \<noteq> 0 then Some (ps2_in8 PS2_DATA_PORT k) else read_data remaining k)"

definition ps2_read_data :: "keyboard \<Rightarrow> (u8 \<times> keyboard) option" where
  "ps2_read_data k = read_data PS2_POLL_LIMIT k"

definition ps2_write_command :: "u8 \<Rightarrow> keyboard \<Rightarrow> keyboard option" where
  "ps2_write_command command k = do { k \<leftarrow> ps2_wait_input_empty k; Some (ps2_out8 PS2_COMMAND_PORT command k) }"

definition ps2_write_data :: "u8 \<Rightarrow> keyboard \<Rightarrow> keyboard option" where
  "ps2_write_data value k = do { k \<leftarrow> ps2_wait_input_empty k; Some (ps2_out8 PS2_DATA_PORT value k) }"

definition ps2_write_config :: "u8 \<Rightarrow> keyboard \<Rightarrow> keyboard option" where
  "ps2_write_config config k = do { k \<leftarrow> ps2_write_command 0x60 k; ps2_write_data config k }"

fun flush_output :: "nat \<Rightarrow> keyboard \<Rightarrow> keyboard" where
  "flush_output 0 k = k"
| "flush_output (Suc remaining) k =
     (case ps2_in8 PS2_STATUS_PORT k of (status, k) \<Rightarrow>
        if status AND 0x01 \<noteq> 0 then flush_output remaining (snd (ps2_in8 PS2_DATA_PORT k)) else k)"

definition ps2_flush_output :: "keyboard \<Rightarrow> keyboard" where
  "ps2_flush_output k = flush_output PS2_POLL_LIMIT k"

definition keyboard_init :: "keyboard \<Rightarrow> keyboard option" where
  "keyboard_init k = do {
     let k = k\<lparr>input_head := 0, input_tail := 0, left_shift_pressed := False, right_shift_pressed := False, left_ctrl_pressed := False,
       right_ctrl_pressed := False, caps_lock := False, extended_scancode := False, pause_bytes_remaining := 0\<rparr>;
     k \<leftarrow> ps2_write_command 0xAD k;
     k \<leftarrow> ps2_write_command 0xA7 k;
     let k = ps2_flush_output k;
     k \<leftarrow> ps2_write_command 0x20 k;
     (config, k) \<leftarrow> ps2_read_data k;
     let config = config AND NOT (0x01 OR 0x02);
     k \<leftarrow> ps2_write_config config k;
     k \<leftarrow> ps2_write_command 0xAA k;
     (answer, k) \<leftarrow> ps2_read_data k;
     if answer \<noteq> 0x55 then None
     else do {
       k \<leftarrow> ps2_write_command 0xAB k;
       (answer, k) \<leftarrow> ps2_read_data k;
       if answer \<noteq> 0x00 then None
       else do {
         let config = (config OR 0x01 OR 0x40) AND NOT 0x10;
         k \<leftarrow> ps2_write_config config k;
         k \<leftarrow> ps2_write_command 0xAE k;
         k \<leftarrow> ps2_write_data 0xF4 k;
         (answer, k) \<leftarrow> ps2_read_data k;
         if answer \<noteq> 0xFA then None else Some k } } }"

subsection \<open>Key maps\<close>

definition normal_map :: "u8 \<Rightarrow> u8" where
  "normal_map code = (case map_of
     [
      (0x01, 0x1B), (0x02, 0x31), (0x03, 0x32), (0x04, 0x33), (0x05, 0x34), (0x06, 0x35), (0x07, 0x36), (0x08, 0x37),
      (0x09, 0x38), (0x0A, 0x39), (0x0B, 0x30), (0x0C, 0x2D), (0x0D, 0x3D), (0x0E, 0x08), (0x0F, 0x09), (0x10, 0x71),
      (0x11, 0x77), (0x12, 0x65), (0x13, 0x72), (0x14, 0x74), (0x15, 0x79), (0x16, 0x75), (0x17, 0x69), (0x18, 0x6F),
      (0x19, 0x70), (0x1A, 0x5B), (0x1B, 0x5D), (0x1C, 0x0A), (0x1E, 0x61), (0x1F, 0x73), (0x20, 0x64), (0x21, 0x66),
      (0x22, 0x67), (0x23, 0x68), (0x24, 0x6A), (0x25, 0x6B), (0x26, 0x6C), (0x27, 0x3B), (0x28, 0x27), (0x29, 0x60),
      (0x2B, 0x5C), (0x2C, 0x7A), (0x2D, 0x78), (0x2E, 0x63), (0x2F, 0x76), (0x30, 0x62), (0x31, 0x6E), (0x32, 0x6D),
      (0x33, 0x2C), (0x34, 0x2E), (0x35, 0x2F), (0x39, 0x20)] code of None \<Rightarrow> 0 | Some c \<Rightarrow> c)"

definition shifted_map :: "u8 \<Rightarrow> u8" where
  "shifted_map code = (case map_of
     [
      (0x02, 0x21), (0x03, 0x40), (0x04, 0x23), (0x05, 0x24), (0x06, 0x25), (0x07, 0x5E), (0x08, 0x26), (0x09, 0x2A),
      (0x0A, 0x28), (0x0B, 0x29), (0x0C, 0x5F), (0x0D, 0x2B), (0x1A, 0x7B), (0x1B, 0x7D), (0x27, 0x3A), (0x28, 0x22),
      (0x29, 0x7E), (0x2B, 0x7C), (0x33, 0x3C), (0x34, 0x3E), (0x35, 0x3F)] code of None \<Rightarrow> 0 | Some c \<Rightarrow> c)"

definition extended_map :: "u8 \<Rightarrow> u8" where
  "extended_map code = (case map_of
     [(0x1C, 0x0A), (0x35, 0x2F), (0x47, 0x84), (0x48, 0x82), (0x4B, 0x80), (0x4D, 0x81), (0x4F, 0x85), (0x50, 0x83), (0x53, 0x7F)] code of
       None \<Rightarrow> 0 | Some c \<Rightarrow> c)"

definition ascii_is_letter :: "u8 \<Rightarrow> bool" where
  "ascii_is_letter character \<longleftrightarrow> character \<ge> 0x61 \<and> character \<le> 0x7A"

subsection \<open>The buffer\<close>

definition keyboard_buffer_push :: "u8 \<Rightarrow> keyboard \<Rightarrow> keyboard" where
  "keyboard_buffer_push character k =
     (let after = (input_head k + 1) AND KEYBOARD_BUFFER_MASK
      in if after = input_tail k then k
         else k\<lparr>input_buffer := (input_buffer k)[unat (input_head k) := character], input_head := after\<rparr>)"

definition keyboard_try_read :: "keyboard \<Rightarrow> (u8 \<times> keyboard) option" where
  "keyboard_try_read k =
     (if input_tail k = input_head k then None
      else Some (input_buffer k ! unat (input_tail k), k\<lparr>input_tail := (input_tail k + 1) AND KEYBOARD_BUFFER_MASK\<rparr>))"

subsection \<open>Scan codes\<close>

definition keyboard_handle_extended :: "u8 \<Rightarrow> keyboard \<Rightarrow> keyboard" where
  "keyboard_handle_extended scancode k =
     (let code = scancode AND NOT SCANCODE_RELEASE; pressed = (scancode AND SCANCODE_RELEASE = 0)
      in if code = SCANCODE_CONTROL then k\<lparr>right_ctrl_pressed := pressed\<rparr>
         else if \<not> pressed \<or> code = SCANCODE_LEFT_SHIFT \<or> code = SCANCODE_RIGHT_SHIFT then k
         else let character = extended_map code in if character \<noteq> 0 then keyboard_buffer_push character k else k)"

text \<open>The part of \<open>keyboard_handle_irq\<close> after a scan code has been read from the first port.\<close>

definition keyboard_scancode :: "u8 \<Rightarrow> keyboard \<Rightarrow> keyboard" where
  "keyboard_scancode scancode k =
     (if pause_bytes_remaining k > 0 then k\<lparr>pause_bytes_remaining := pause_bytes_remaining k - 1\<rparr>
      else if scancode = SCANCODE_PAUSE then k\<lparr>pause_bytes_remaining := SCANCODE_PAUSE_REMAINING, extended_scancode := False\<rparr>
      else if scancode = SCANCODE_EXTENDED then k\<lparr>extended_scancode := True\<rparr>
      else if extended_scancode k then keyboard_handle_extended scancode (k\<lparr>extended_scancode := False\<rparr>)
      else let code = scancode AND NOT SCANCODE_RELEASE; pressed = (scancode AND SCANCODE_RELEASE = 0)
           in if code = SCANCODE_LEFT_SHIFT then k\<lparr>left_shift_pressed := pressed\<rparr>
              else if code = SCANCODE_RIGHT_SHIFT then k\<lparr>right_shift_pressed := pressed\<rparr>
              else if code = SCANCODE_CONTROL then k\<lparr>left_ctrl_pressed := pressed\<rparr>
              else if \<not> pressed then k
              else if code = SCANCODE_CAPS_LOCK then k\<lparr>caps_lock := \<not> caps_lock k\<rparr>
              else let shift_pressed = left_shift_pressed k \<or> right_shift_pressed k;
                       ctrl_pressed = left_ctrl_pressed k \<or> right_ctrl_pressed k;
                       character = (if shift_pressed \<and> shifted_map code \<noteq> 0 then shifted_map code else normal_map code);
                       character = (if ctrl_pressed \<and> ascii_is_letter (normal_map code) then normal_map code - 0x61 + 1 else character);
                       character = (if ascii_is_letter character \<and> shift_pressed \<noteq> caps_lock k then character - 0x61 + 0x41 else character)
                   in if character \<noteq> 0 then keyboard_buffer_push character k else k)"

definition keyboard_handle_irq :: "keyboard \<Rightarrow> keyboard" where
  "keyboard_handle_irq k =
     (case ps2_in8 PS2_STATUS_PORT k of (status, k) \<Rightarrow>
        if status AND 0x01 = 0 then k
        else case ps2_in8 PS2_DATA_PORT k of (scancode, k) \<Rightarrow>
          if status AND 0x20 \<noteq> 0 then k else keyboard_scancode scancode k)"


subsection \<open>The buffer as a queue\<close>

definition keyboard_inv :: "keyboard \<Rightarrow> bool" where
  "keyboard_inv k \<longleftrightarrow> length (input_buffer k) = 128 \<and> unat (input_head k) < 128 \<and> unat (input_tail k) < 128"

definition pending :: "keyboard \<Rightarrow> u8 list" where
  "pending k = map (\<lambda>i. input_buffer k ! ((unat (input_tail k) + i) mod 128)) [0..<(unat (input_head k) + 128 - unat (input_tail k)) mod 128]"

lemma unat_advance: "unat (h :: u8) < 128 \<Longrightarrow> unat ((h + 1) AND 127) = (unat h + 1) mod 128"
proof -
  assume "unat h < 128"
  then have "unat (h + 1) = unat h + 1" by (subst unat_add_lem [THEN iffD1]) simp_all
  moreover have "unat (x AND 127) = unat x mod 128" for x :: u8 using unat_and_mask [of x 7] by (simp add: mask_eq_exp_minus_1)
  ultimately show ?thesis by simp
qed

text \<open>Positions on a ring of 128 slots, \<open>n\<close> slots after \<open>t\<close>.\<close>

lemma ring_count: "(h :: nat) < 128 \<Longrightarrow> t < 128 \<Longrightarrow> (h + 128 - t) mod 128 = (if t \<le> h then h - t else h + 128 - t)"
  by (auto simp: mod_if)

lemma ring_slot: "t < 128 \<Longrightarrow> i < 128 \<Longrightarrow> (t + i) mod 128 = (if t + i < 128 then t + i else t + i - 128)" for t i :: nat
  by (auto simp: mod_if)

lemma push_pending:
  assumes "keyboard_inv k"
  shows "keyboard_inv (keyboard_buffer_push c k)"
    "pending (keyboard_buffer_push c k) = (if length (pending k) < 127 then pending k @ [c] else pending k)"
proof -
  let ?h = "unat (input_head k)" and ?t = "unat (input_tail k)"
  have inv: "length (input_buffer k) = 128" "?h < 128" "?t < 128" using assms by (simp_all add: keyboard_inv_def)
  note adv = unat_advance [OF inv(2)]
  define n where "n = (?h + 128 - ?t) mod 128"
  have n: "n < 128" "(?t + n) mod 128 = ?h" using inv by (auto simp: n_def ring_count mod_if)
  have full: "(input_head k + 1) AND 127 = input_tail k \<longleftrightarrow> n = 127"
    using inv adv by (auto simp: word_unat_eq_iff n_def ring_count mod_if)
  show "keyboard_inv (keyboard_buffer_push c k)"
    using assms adv by (simp add: keyboard_inv_def keyboard_buffer_push_def Let_def)
  show "pending (keyboard_buffer_push c k) = (if length (pending k) < 127 then pending k @ [c] else pending k)"
  proof (cases "n = 127")
    case True
    then show ?thesis using full by (simp add: keyboard_buffer_push_def Let_def pending_def n_def)
  next
    case False
    have cnt: "((?h + 1) mod 128 + 128 - ?t) mod 128 = Suc n" using False n inv by (auto simp: n_def ring_count mod_if split: if_splits)
    have other: "(?t + i) mod 128 \<noteq> ?h" if "i < n" for i
      using that inv n by (auto simp: mod_if n_def split: if_splits)
    have "pending (keyboard_buffer_push c k) = map (\<lambda>i. (input_buffer k)[?h := c] ! ((?t + i) mod 128)) [0..<Suc n]"
      using False full adv cnt by (simp add: keyboard_buffer_push_def Let_def pending_def del: upt_Suc)
    also have "\<dots> = map (\<lambda>i. input_buffer k ! ((?t + i) mod 128)) [0..<n] @ [c]" using n inv other [THEN not_sym] by (simp add: nth_list_update)
    finally show ?thesis using False n by (simp add: pending_def n_def [symmetric])
  qed
qed

lemma read_pending:
  assumes "keyboard_inv k"
  shows "case pending k of [] \<Rightarrow> keyboard_try_read k = None | c # cs \<Rightarrow> \<exists>k'. keyboard_try_read k = Some (c, k') \<and> keyboard_inv k' \<and> pending k' = cs"
proof -
  let ?h = "unat (input_head k)" and ?t = "unat (input_tail k)"
  have inv: "length (input_buffer k) = 128" "?h < 128" "?t < 128" using assms by (simp_all add: keyboard_inv_def)
  note adv = unat_advance [OF inv(3)]
  define n where "n = (?h + 128 - ?t) mod 128"
  have empty: "input_tail k = input_head k \<longleftrightarrow> n = 0" using inv by (auto simp: word_unat_eq_iff n_def ring_count)
  show ?thesis
  proof (cases n)
    case 0
    then show ?thesis using empty by (simp add: pending_def n_def keyboard_try_read_def)
  next
    case (Suc m)
    let ?k = "k\<lparr>input_tail := (input_tail k + 1) AND 127\<rparr>"
    have cnt: "(?h + 128 - (?t + 1) mod 128) mod 128 = m" using Suc inv by (auto simp: n_def ring_count mod_if split: if_splits)
    have slot: "((?t + 1) mod 128 + i) mod 128 = (?t + Suc i) mod 128" for i by (simp add: mod_simps)
    have "pending k = input_buffer k ! ?t # map (\<lambda>i. input_buffer k ! ((?t + Suc i) mod 128)) [0..<m]"
      unfolding pending_def n_def [symmetric] Suc using inv(3) by (simp add: upt_conv_Cons map_Suc_upt [symmetric] del: upt_Suc)
    moreover have "pending ?k = map (\<lambda>i. input_buffer k ! ((?t + Suc i) mod 128)) [0..<m]"
      using cnt slot adv by (simp add: pending_def)
    moreover have "keyboard_inv ?k" using assms adv by (simp add: keyboard_inv_def)
    moreover have "keyboard_try_read k = Some (input_buffer k ! ?t, ?k)" using empty Suc by (simp add: keyboard_try_read_def)
    ultimately show ?thesis by simp
  qed
qed

interpretation key_queue: byte_queue keyboard_buffer_push keyboard_try_read pending 127 keyboard_inv
proof
  fix k :: keyboard and c :: u8
  assume "keyboard_inv k"
  then show "keyboard_inv (keyboard_buffer_push c k) \<and> pending (keyboard_buffer_push c k) = (if length (pending k) < 127 then pending k @ [c] else pending k)"
    using push_pending by blast
  show "case pending k of [] \<Rightarrow> keyboard_try_read k = None | c # cs \<Rightarrow> \<exists>k'. keyboard_try_read k = Some (c, k') \<and> keyboard_inv k' \<and> pending k' = cs"
    by (rule read_pending) fact
  have "(unat (input_head k) + 128 - unat (input_tail k)) mod 128 < 128" by simp
  then show "length (pending k) \<le> 127" unfolding pending_def by (simp only: length_map length_upt)
qed


subsection \<open>Interrupts\<close>

lemma pending_fields [simp]:
  "pending (k\<lparr>ps2_reads := r\<rparr>) = pending k" "pending (k\<lparr>left_shift_pressed := b\<rparr>) = pending k" "pending (k\<lparr>right_shift_pressed := b\<rparr>) = pending k"
  "pending (k\<lparr>left_ctrl_pressed := b\<rparr>) = pending k" "pending (k\<lparr>right_ctrl_pressed := b\<rparr>) = pending k" "pending (k\<lparr>caps_lock := b\<rparr>) = pending k"
  "pending (k\<lparr>extended_scancode := b\<rparr>) = pending k" "pending (k\<lparr>pause_bytes_remaining := n\<rparr>) = pending k"
  by (simp_all add: pending_def)

lemma keyboard_inv_fields [simp]:
  "keyboard_inv (k\<lparr>ps2_reads := r\<rparr>) = keyboard_inv k" "keyboard_inv (k\<lparr>left_shift_pressed := b\<rparr>) = keyboard_inv k"
  "keyboard_inv (k\<lparr>right_shift_pressed := b\<rparr>) = keyboard_inv k" "keyboard_inv (k\<lparr>left_ctrl_pressed := b\<rparr>) = keyboard_inv k"
  "keyboard_inv (k\<lparr>right_ctrl_pressed := b\<rparr>) = keyboard_inv k" "keyboard_inv (k\<lparr>caps_lock := b\<rparr>) = keyboard_inv k"
  "keyboard_inv (k\<lparr>extended_scancode := b\<rparr>) = keyboard_inv k" "keyboard_inv (k\<lparr>pause_bytes_remaining := n\<rparr>) = keyboard_inv k"
  by (simp_all add: keyboard_inv_def)

text \<open>The scan codes of the letter keys.\<close>

definition letter_codes :: "u8 list" where
  "letter_codes = [0x10, 0x11, 0x12, 0x13, 0x14, 0x15, 0x16, 0x17, 0x18, 0x19, 0x1E, 0x1F, 0x20, 0x21, 0x22, 0x23, 0x24, 0x25, 0x26,
     0x2C, 0x2D, 0x2E, 0x2F, 0x30, 0x31, 0x32]"

lemma letter_code: "ascii_is_letter (normal_map code) \<Longrightarrow> code \<in> set letter_codes"
proof (rule ccontr)
  assume l: "ascii_is_letter (normal_map code)" and "code \<notin> set letter_codes"
  then have "normal_map code \<in> {0, 0x1B, 0x31, 0x32, 0x33, 0x34, 0x35, 0x36, 0x37, 0x38, 0x39, 0x30, 0x2D, 0x3D, 0x08, 0x09, 0x5B, 0x5D, 0x0A,
      0x3B, 0x27, 0x60, 0x5C, 0x2C, 0x2E, 0x2F, 0x20}"
    by (simp add: letter_codes_def normal_map_def)
  then show False using l by (auto simp: ascii_is_letter_def)
qed

lemma letter_code_facts:
  "list_all (\<lambda>code. code \<noteq> SCANCODE_PAUSE \<and> code \<noteq> SCANCODE_EXTENDED \<and> code AND NOT SCANCODE_RELEASE = code \<and> code AND SCANCODE_RELEASE = 0 \<and>
     code \<noteq> SCANCODE_LEFT_SHIFT \<and> code \<noteq> SCANCODE_RIGHT_SHIFT \<and> code \<noteq> SCANCODE_CONTROL \<and> code \<noteq> SCANCODE_CAPS_LOCK \<and> shifted_map code = 0 \<and>
     normal_map code - 0x61 + 1 = normal_map code - 0x60 \<and> normal_map code - 0x61 + 0x41 = normal_map code - 0x20 \<and> normal_map code \<noteq> 0 \<and>
     normal_map code - 0x60 \<noteq> 0 \<and> normal_map code - 0x20 \<noteq> 0 \<and> \<not> ascii_is_letter (normal_map code - 0x60)) letter_codes"
  by code_simp

text \<open>
  What the driver does with a stream of scan codes, without its buffer: the keys that are down and the prefixes seen so
  far, and a queue that holds at most 127 bytes and drops what comes then.
\<close>

record decoder =
  shift_down :: "bool \<times> bool"
  control_down :: "bool \<times> bool"
  capitals :: bool
  after_prefix :: bool
  to_skip :: u8

definition typed_byte :: "decoder \<Rightarrow> u8 \<Rightarrow> u8" where
  "typed_byte d code =
     (let c = normal_map code; shift = fst (shift_down d) \<or> snd (shift_down d)
      in if ascii_is_letter c
         then if fst (control_down d) \<or> snd (control_down d) then c - 0x60 else if shift \<noteq> capitals d then c - 0x20 else c
         else if shift \<and> shifted_map code \<noteq> 0 then shifted_map code else c)"

definition decode :: "u8 \<Rightarrow> decoder \<Rightarrow> u8 \<times> decoder" where
  "decode code d =
     (let key = code AND 0x7F; down = (code AND 0x80 = 0)
      in if to_skip d > 0 then (0, d\<lparr>to_skip := to_skip d - 1\<rparr>)
         else if code = 0xE1 then (0, d\<lparr>to_skip := 5, after_prefix := False\<rparr>)
         else if code = 0xE0 then (0, d\<lparr>after_prefix := True\<rparr>)
         else if after_prefix d then
           if key = 0x1D then (0, d\<lparr>after_prefix := False, control_down := (fst (control_down d), down)\<rparr>)
           else (if down \<and> key \<notin> {0x2A, 0x36} then extended_map key else 0, d\<lparr>after_prefix := False\<rparr>)
         else if key = 0x2A then (0, d\<lparr>shift_down := (down, snd (shift_down d))\<rparr>)
         else if key = 0x36 then (0, d\<lparr>shift_down := (fst (shift_down d), down)\<rparr>)
         else if key = 0x1D then (0, d\<lparr>control_down := (down, snd (control_down d))\<rparr>)
         else if \<not> down then (0, d)
         else if key = 0x3A then (0, d\<lparr>capitals := \<not> capitals d\<rparr>)
         else (typed_byte d key, d))"

text \<open>The byte 0 stands for none. The handler reads the status and, if there is one, the scan code.\<close>

record key_stream =
  input_at :: "u16 \<Rightarrow> nat \<Rightarrow> u8"
  input_position :: nat
  decoding :: decoder
  queued :: "u8 list"

definition arrive :: "key_stream \<Rightarrow> key_stream" where
  "arrive q =
     (let n = input_position q; status = input_at q 0x64 n
      in if status AND 1 = 0 then q\<lparr>input_position := n + 1\<rparr>
         else if status AND 0x20 \<noteq> 0 then q\<lparr>input_position := n + 2\<rparr>
         else case decode (input_at q 0x60 (n + 1)) (decoding q) of
                (c, d) \<Rightarrow> q\<lparr>input_position := n + 2, decoding := d,
                           queued := queued q @ (if c \<noteq> 0 \<and> length (queued q) < 127 then [c] else [])\<rparr>)"

text \<open>The interrupt handler and the reader in any order: the bytes read and what is left.\<close>

datatype keyboard_event = Key_interrupt | Key_read

fun stream_run :: "keyboard_event list \<Rightarrow> key_stream \<Rightarrow> u8 list \<times> key_stream" where
  "stream_run [] q = ([], q)"
| "stream_run (Key_interrupt # es) q = stream_run es (arrive q)"
| "stream_run (Key_read # es) q =
     (case queued q of
        [] \<Rightarrow> stream_run es q
      | c # cs \<Rightarrow> map_prod (Cons c) id (stream_run es (q\<lparr>queued := cs\<rparr>)))"

fun keyboard_run :: "keyboard_event list \<Rightarrow> keyboard \<Rightarrow> u8 list \<times> keyboard" where
  "keyboard_run [] k = ([], k)"
| "keyboard_run (Key_interrupt # es) k = keyboard_run es (keyboard_handle_irq k)"
| "keyboard_run (Key_read # es) k =
     (case keyboard_try_read k of
        None \<Rightarrow> keyboard_run es k
      | Some (c, k) \<Rightarrow> map_prod (Cons c) id (keyboard_run es k))"

definition decoder_of :: "keyboard \<Rightarrow> decoder" where
  "decoder_of k = \<lparr>shift_down = (left_shift_pressed k, right_shift_pressed k), control_down = (left_ctrl_pressed k, right_ctrl_pressed k),
     capitals = caps_lock k, after_prefix = extended_scancode k, to_skip = pause_bytes_remaining k\<rparr>"

definition stream_of :: "keyboard \<Rightarrow> key_stream" where
  "stream_of k = \<lparr>input_at = ps2_input k, input_position = ps2_reads k, decoding = decoder_of k, queued = pending k\<rparr>"

text \<open>A step of the driver on one scan code: \<open>decode\<close>, and the byte goes to the queue if there is one.\<close>

definition decodes :: "u8 \<times> decoder \<Rightarrow> keyboard \<Rightarrow> keyboard \<Rightarrow> bool" where
  "decodes r k k' \<longleftrightarrow> keyboard_inv k' \<and> decoder_of k' = snd r \<and> ps2_reads k' = ps2_reads k \<and> ps2_input k' = ps2_input k \<and>
     pending k' = pending k @ (if fst r \<noteq> 0 \<and> length (pending k) < 127 then [fst r] else [])"

lemma push_fields [simp]:
  "decoder_of (keyboard_buffer_push c k) = decoder_of k" "ps2_reads (keyboard_buffer_push c k) = ps2_reads k"
  "ps2_input (keyboard_buffer_push c k) = ps2_input k"
  by (simp_all add: keyboard_buffer_push_def Let_def decoder_of_def)

lemma decodes_push: "keyboard_inv k \<Longrightarrow> decodes (c, decoder_of k) k (if c \<noteq> 0 then keyboard_buffer_push c k else k)"
  using push_pending [of k c] by (simp add: decodes_def)

lemma decodes_quiet:
  "keyboard_inv k' \<Longrightarrow> decoder_of k' = d \<Longrightarrow> ps2_reads k' = ps2_reads k \<Longrightarrow> ps2_input k' = ps2_input k \<Longrightarrow> pending k' = pending k \<Longrightarrow>
   decodes (0, d) k k'"
  by (simp add: decodes_def)

lemma decodes_if: "(b \<Longrightarrow> decodes r k x) \<Longrightarrow> (\<not> b \<Longrightarrow> decodes r' k y) \<Longrightarrow> decodes (if b then r else r') k (if b then x else y)"
  by simp

lemma release_bit: "code AND NOT (0x80 :: u8) = code AND 0x7F"
  by (rule arg_cong [of _ _ "\<lambda>x. code AND x"]) simp

lemma decodes_extended:
  assumes "keyboard_inv k"
  shows "decodes (let key = code AND 0x7F; down = (code AND 0x80 = 0)
      in if key = 0x1D then (0, (decoder_of k)\<lparr>control_down := (left_ctrl_pressed k, down)\<rparr>)
         else (if down \<and> key \<notin> {0x2A, 0x36} then extended_map key else 0, decoder_of k)) k (keyboard_handle_extended code k)"
proof (cases "code AND 0x7F = 0x1D")
  case True
  then show ?thesis using assms unfolding keyboard_handle_extended_def Let_def release_bit
    by (simp add: decodes_def) (simp add: decoder_of_def)
next
  case False
  then show ?thesis
    using decodes_push [OF assms, of "extended_map (code AND 0x7F)"] decodes_quiet [OF assms refl refl refl refl]
    unfolding keyboard_handle_extended_def Let_def release_bit by simp
qed

lemma shifted_not_letter: "\<not> ascii_is_letter (shifted_map code)"
proof -
  have "shifted_map code \<in> {0, 0x21, 0x40, 0x23, 0x24, 0x25, 0x5E, 0x26, 0x2A, 0x28, 0x29, 0x5F, 0x2B, 0x7B, 0x7D, 0x3A, 0x22, 0x7E, 0x7C, 0x3C, 0x3E, 0x3F}"
    by (simp add: shifted_map_def)
  then show ?thesis by (auto simp: ascii_is_letter_def)
qed

lemma typed_byte_eq:
  "typed_byte (decoder_of k) code =
     (let shift = left_shift_pressed k \<or> right_shift_pressed k; control = left_ctrl_pressed k \<or> right_ctrl_pressed k;
          c = (if shift \<and> shifted_map code \<noteq> 0 then shifted_map code else normal_map code);
          c = (if control \<and> ascii_is_letter (normal_map code) then normal_map code - 0x61 + 1 else c)
      in if ascii_is_letter c \<and> shift \<noteq> caps_lock k then c - 0x61 + 0x41 else c)"
proof (cases "ascii_is_letter (normal_map code)")
  case True
  note f = letter_code_facts [unfolded list_all_iff, rule_format, OF letter_code [OF True]]
  show ?thesis using True f by (simp add: typed_byte_def Let_def decoder_of_def)
next
  case False
  then show ?thesis using shifted_not_letter [of code] by (simp add: typed_byte_def Let_def decoder_of_def)
qed

lemma decodes_scancode:
  assumes inv: "keyboard_inv k"
  shows "decodes (decode code (decoder_of k)) k (keyboard_scancode code k)"
proof -
  have ext: "decodes (let key = code AND 0x7F; down = (code AND 0x80 = 0)
      in if key = 0x1D then (0, (decoder_of k)\<lparr>after_prefix := False, control_down := (left_ctrl_pressed k, down)\<rparr>)
         else (if down \<and> key \<notin> {0x2A, 0x36} then extended_map key else 0, (decoder_of k)\<lparr>after_prefix := False\<rparr>))
      k (keyboard_handle_extended code (k\<lparr>extended_scancode := False\<rparr>))"
    using decodes_extended [of "k\<lparr>extended_scancode := False\<rparr>" code] inv by (simp add: decodes_def Let_def) (simp add: decoder_of_def)
  have key: "decodes (typed_byte (decoder_of k) c, decoder_of k) k
      (if typed_byte (decoder_of k) c \<noteq> 0 then keyboard_buffer_push (typed_byte (decoder_of k) c) k else k)" for c
    by (rule decodes_push [OF inv])
  have dec: "to_skip (decoder_of k) = pause_bytes_remaining k" "after_prefix (decoder_of k) = extended_scancode k"
    "fst (control_down (decoder_of k)) = left_ctrl_pressed k"
    by (simp_all add: decoder_of_def)
  show ?thesis
    unfolding decode_def keyboard_scancode_def dec release_bit typed_byte_eq Let_def
    by (intro decodes_if decodes_quiet ext [unfolded Let_def] key [unfolded typed_byte_eq Let_def]) (simp_all add: inv, simp_all add: decoder_of_def)
qed

lemma stream_of_irq:
  assumes "keyboard_inv k"
  shows "stream_of (keyboard_handle_irq k) = arrive (stream_of k)" "keyboard_inv (keyboard_handle_irq k)"
proof -
  let ?k = "k\<lparr>ps2_reads := Suc (Suc (ps2_reads k))\<rparr>"
  have "decodes (decode code (decoder_of k)) ?k (keyboard_scancode code ?k)" for code
    using decodes_scancode [of ?k code] assms by (simp add: decoder_of_def)
  then show "stream_of (keyboard_handle_irq k) = arrive (stream_of k)" "keyboard_inv (keyboard_handle_irq k)"
    using assms
    by (auto simp: keyboard_handle_irq_def ps2_in8_def arrive_def stream_of_def Let_def decodes_def split: prod.splits) (simp_all add: decoder_of_def)
qed

lemma stream_of_read:
  assumes "keyboard_inv k" and "keyboard_try_read k = Some (c, k')"
  shows "queued (stream_of k) = c # pending k'" "stream_of k' = (stream_of k)\<lparr>queued := pending k'\<rparr>" "keyboard_inv k'"
  using key_queue.pop_Some [OF assms] assms(2)
  by (auto simp: stream_of_def keyboard_try_read_def decoder_of_def split: if_splits)

text \<open>
  C36: whatever the controller sends and however interrupts and reads interleave, the driver with its ring buffer gives
  the readers exactly the bytes that the decoded scan codes and a queue of 127 bytes give, in that order; what is
  still pending, the modifiers and the position in the input agree as well, and the buffer indices stay in range.
\<close>

theorem keyboard_fifo:
  assumes "keyboard_inv k" and "keyboard_run es k = (cs, k')"
  shows "stream_run es (stream_of k) = (cs, stream_of k') \<and> keyboard_inv k'"
  using assms
proof (induction es k arbitrary: cs k' rule: keyboard_run.induct)
  case (1 k)
  then show ?case by simp
next
  case (2 es k)
  then show ?case using stream_of_irq [OF 2(2)] by simp
next
  case (3 es k)
  show ?case
  proof (cases "keyboard_try_read k")
    case None
    then have "pending k = []" using key_queue.pop_empty [OF 3(3)] by simp
    then show ?thesis using 3(1) [OF None 3(3)] 3(4) None by (simp add: stream_of_def)
  next
    case (Some p)
    obtain c k1 where p: "p = (c, k1)" by (cases p)
    obtain ds where run: "keyboard_run es k1 = (ds, k')" "cs = c # ds" using 3(4) Some p by (cases "keyboard_run es k1") auto
    note q = stream_of_read [OF 3(3) Some [unfolded p]]
    show ?thesis using 3(2) [OF Some p [symmetric] q(3) run(1)] q(1,2) run(2) by simp
  qed
qed

text \<open>
  C37: a letter key pressed with nothing pending of a longer scan code enters exactly one byte: the control
  character of the letter while a control key is down, and otherwise the letter, in upper case exactly when
  one of shift and caps lock is active but not both. The modifiers and the rest of the queue stay.
\<close>

theorem keyboard_letter:
  assumes "keyboard_inv k" and "pause_bytes_remaining k = 0" and "\<not> extended_scancode k" and "ascii_is_letter (normal_map code)"
    and "length (pending k) < 127"
  shows "keyboard_scancode code k = keyboard_buffer_push
      (if left_ctrl_pressed k \<or> right_ctrl_pressed k then normal_map code - 0x60
       else if (left_shift_pressed k \<or> right_shift_pressed k) \<noteq> caps_lock k then normal_map code - 0x20 else normal_map code) k \<and>
    pending (keyboard_scancode code k) = pending k @ [
       if left_ctrl_pressed k \<or> right_ctrl_pressed k then normal_map code - 0x60
       else if (left_shift_pressed k \<or> right_shift_pressed k) \<noteq> caps_lock k then normal_map code - 0x20 else normal_map code]"
proof -
  note f = letter_code_facts [unfolded list_all_iff, rule_format, OF letter_code [OF assms(4)]]
  have "keyboard_scancode code k = keyboard_buffer_push
      (if left_ctrl_pressed k \<or> right_ctrl_pressed k then normal_map code - 0x60
       else if (left_shift_pressed k \<or> right_shift_pressed k) \<noteq> caps_lock k then normal_map code - 0x20 else normal_map code) k"
    using assms(2-4) f unfolding keyboard_scancode_def Let_def by (simp only: if_True if_False simp_thms) (auto simp: f)
  then show ?thesis using push_pending(2) [OF assms(1)] assms(5) by simp
qed


definition sample_keyboard :: keyboard where
  "sample_keyboard = \<lparr>ps2_reads = 0, ps2_input = (\<lambda>port n. if port = PS2_STATUS_PORT then 0x01 else 0x1E), ps2_writes = [],
     input_buffer = replicate 128 0, input_head = 0, input_tail = 0, left_shift_pressed = True, right_shift_pressed = False,
     left_ctrl_pressed = False, right_ctrl_pressed = False, caps_lock = False, extended_scancode = False, pause_bytes_remaining = 0\<rparr>"

lemma sample_keyboard_fields [simp]:
  "pause_bytes_remaining sample_keyboard = 0" "\<not> extended_scancode sample_keyboard" "left_shift_pressed sample_keyboard"
  "\<not> left_ctrl_pressed sample_keyboard" "\<not> right_ctrl_pressed sample_keyboard" "\<not> caps_lock sample_keyboard"
  by (simp_all add: sample_keyboard_def)

lemma sample_keyboard_ok: "keyboard_inv sample_keyboard" "pending sample_keyboard = []"
  by (simp_all add: keyboard_inv_def pending_def sample_keyboard_def)

lemma normal_map_a: "normal_map 0x1E = 0x61"
  by code_simp

theorem keyboard_fifo_witness:
  "fst (keyboard_run [Key_interrupt, Key_interrupt, Key_read, Key_read, Key_read] sample_keyboard) = [0x41, 0x41] \<and>
   keyboard_inv (snd (keyboard_run [Key_interrupt, Key_interrupt, Key_read, Key_read, Key_read] sample_keyboard))"
proof -
  have d: "decode 0x1E (decoder_of sample_keyboard) = (0x41, decoder_of sample_keyboard)"
    using normal_map_a by (simp add: decode_def typed_byte_def decoder_of_def ascii_is_letter_def Let_def)
  let ?q = "stream_of sample_keyboard"
  have "arrive ?q = ?q\<lparr>input_position := 2, queued := [0x41]\<rparr>"
    using d by (simp add: arrive_def stream_of_def sample_keyboard_ok(2) Let_def) (simp add: sample_keyboard_def)
  moreover have "arrive (?q\<lparr>input_position := 2, queued := [0x41]\<rparr>) = ?q\<lparr>input_position := 4, queued := [0x41, 0x41]\<rparr>"
    using d by (simp add: arrive_def stream_of_def Let_def) (simp add: sample_keyboard_def)
  ultimately have "fst (stream_run [Key_interrupt, Key_interrupt, Key_read, Key_read, Key_read] ?q) = [0x41, 0x41]" by simp
  then show ?thesis
    using keyboard_fifo [OF sample_keyboard_ok(1) prod.collapse [symmetric], of "[Key_interrupt, Key_interrupt, Key_read, Key_read, Key_read]"]
    by (metis fst_conv)
qed

theorem keyboard_letter_witness: "pending (keyboard_scancode 0x1E sample_keyboard) = [0x41]"
  using normal_map_a keyboard_letter [THEN conjunct2, of sample_keyboard "0x1E"] sample_keyboard_ok(1) sample_keyboard_ok(2)
  by (simp add: ascii_is_letter_def)

end
