(* ===== verification/Process.thy ===== *)
theory Process
  imports Heap Minifs
begin

text \<open>
  The process table and what every part of the kernel reads of it (\<open>kernel/proc/scheduler.c\<close>): slots,
  process numbers, the search for the next ready process, the working directory, descriptors, and the snapshot.

  The kernel state has the heap, with the machine in it, the file system, the process table and the globals
  of the scheduler and of the VFS. A pointer into the process table or the file table is the index; \<open>NULL\<close> is
  \<^const>\<open>None\<close>. \<open>current_process\<close> is set by \<open>scheduler_init\<close> and never \<open>NULL\<close> after it. A string is the
  list of its bytes before the terminator.

  The saved kernel stack of a process that is not running stands for the place where it continues, so the field
  has a \<open>saved_context\<close>: one of the two trampolines, or the call inside which the process was switched away.
\<close>

abbreviation (input) PROCESS_LIMIT :: nat where "PROCESS_LIMIT \<equiv> 16"
abbreviation (input) PROCESS_NAME_LENGTH :: nat where "PROCESS_NAME_LENGTH \<equiv> 32"
abbreviation (input) PROCESS_FD_LIMIT :: nat where "PROCESS_FD_LIMIT \<equiv> 16"
abbreviation (input) MINIOS_PROCESS_CWD_SIZE :: nat where "MINIOS_PROCESS_CWD_SIZE \<equiv> 256"
abbreviation (input) DEFAULT_TIME_SLICE :: u32 where "DEFAULT_TIME_SLICE \<equiv> 5"
abbreviation (input) PID_MAXIMUM :: nat where "PID_MAXIMUM \<equiv> 0x7FFFFFFF"

datatype process_state = PROCESS_UNUSED | PROCESS_NEW | PROCESS_READY | PROCESS_RUNNING | PROCESS_BLOCKED | PROCESS_ZOMBIE | PROCESS_REAPED

datatype saved_context = Thread_Trampoline | User_Trampoline | In_Yield u32 | In_Sleep u32 | In_Waitpid int u32 | In_Tick | In_Exit

record process =
  p_pid :: u32
  p_state :: process_state
  p_name :: "u8 list"
  saved_stack :: "saved_context option"
  kernel_stack_top :: u32
  user_stack_top :: u32
  page_directory :: u32
  exit_code :: int
  parent_pid :: u32
  wake_tick :: u32
  time_slice :: u32
  fd_table :: "nat option list"
  current_working_directory :: "u8 list"
  run_node :: "nat option"
  wait_node :: "nat option"
  thread_entry :: u32
  thread_argument :: u32
  kernel_stack_allocation :: u32
  initial_eflags :: u32
  p_user_entry :: u32

datatype vfs_file_type = VFS_FILE_MINIFS
datatype vfs_file_ops = minifs_file_ops

record vfs_file =
  vf_used :: bool
  vf_refcount :: u32
  vf_type :: vfs_file_type
  vf_ops :: "vfs_file_ops option"
  vf_inode :: u32
  vf_offset :: u32
  vf_flags :: u32
  vf_mode :: u16

record kernel =
  k_heap :: heap
  k_fs :: minifs
  process_table :: "process list"
  current_process :: nat
  next_pid :: u32
  running :: "saved_context option"
  tick_count :: u32
  tss_esp0 :: u32
  file_table :: "vfs_file list"
  vfs_initialized :: bool
  vfs_busy :: bool
  last_user_fault_pid :: u32
  last_user_fault_address :: u32
  last_user_fault_error :: u32
  last_user_fault_eip :: u32

subsection \<open>Parts of the kernel state\<close>

definition machine_of :: "kernel \<Rightarrow> machine" where
  "machine_of k = mach (k_heap k)"

definition with_machine :: "machine \<Rightarrow> kernel \<Rightarrow> kernel" where
  "with_machine m k = k\<lparr>k_heap := (k_heap k)\<lparr>mach := m\<rparr>\<rparr>"

definition kernel_irq_save :: "kernel \<Rightarrow> u32 \<times> kernel" where
  "kernel_irq_save k = (case irq_save_disable (machine_of k) of (flags, m) \<Rightarrow> (flags, with_machine m k))"

definition kernel_irq_restore :: "u32 \<Rightarrow> kernel \<Rightarrow> kernel" where
  "kernel_irq_restore flags k = with_machine (irq_restore flags (machine_of k)) k"

text \<open>A file-system operation runs on the same machine.\<close>

definition on_fs :: "(minifs \<Rightarrow> 'r \<times> minifs) \<Rightarrow> kernel \<Rightarrow> 'r \<times> kernel" where
  "on_fs f k = (case f ((k_fs k)\<lparr>cpu := machine_of k\<rparr>) of (r, s) \<Rightarrow> (r, with_machine (cpu s) (k\<lparr>k_fs := s\<rparr>)))"

definition proc :: "kernel \<Rightarrow> nat \<Rightarrow> process" where
  "proc k i = process_table k ! i"

definition update_process :: "nat \<Rightarrow> (process \<Rightarrow> process) \<Rightarrow> kernel \<Rightarrow> kernel" where
  "update_process i f k = k\<lparr>process_table := (process_table k)[i := f (process_table k ! i)]\<rparr>"

definition update_current :: "(process \<Rightarrow> process) \<Rightarrow> kernel \<Rightarrow> kernel" where
  "update_current f k = update_process (current_process k) f k"

subsection \<open>Slots\<close>

definition cleared_process :: process where
  "cleared_process = \<lparr>p_pid = 0, p_state = PROCESS_UNUSED, p_name = replicate PROCESS_NAME_LENGTH 0, saved_stack = None,
     kernel_stack_top = 0, user_stack_top = 0, page_directory = 0, exit_code = 0, parent_pid = 0, wake_tick = 0, time_slice = 0,
     fd_table = replicate PROCESS_FD_LIMIT None, current_working_directory = 0x2F # replicate (MINIOS_PROCESS_CWD_SIZE - 1) 0,
     run_node = None, wait_node = None, thread_entry = 0, thread_argument = 0, kernel_stack_allocation = 0,
     initial_eflags = 0, p_user_entry = 0\<rparr>"

definition clear_process :: "nat \<Rightarrow> kernel \<Rightarrow> kernel" where
  "clear_process i k = update_process i (\<lambda>_. cleared_process) k"

definition set_process_name :: "u8 list \<Rightarrow> process \<Rightarrow> process" where
  "set_process_name name p =
     (let n = min (PROCESS_NAME_LENGTH - 1) (length (takeWhile (\<lambda>c. c \<noteq> 0) name))
      in p\<lparr>p_name := take n name @ 0 # drop (n + 1) (p_name p)\<rparr>)"

definition inherit_current_working_directory :: "nat \<Rightarrow> kernel \<Rightarrow> kernel option" where
  "inherit_current_working_directory i k =
     (let source = current_working_directory (proc k (current_process k))
      in case for_find 0 MINIOS_PROCESS_CWD_SIZE (\<lambda>index. source ! index = 0) of
           None \<Rightarrow> None
         | Some n \<Rightarrow> Some (update_process i (\<lambda>p. p\<lparr>current_working_directory :=
                       take (n + 1) source @ drop (n + 1) (current_working_directory p)\<rparr>) k))"

definition find_unused_process :: "kernel \<Rightarrow> nat option" where
  "find_unused_process k = for_find 1 PROCESS_LIMIT (\<lambda>index. p_state (proc k index) = PROCESS_UNUSED)"

definition find_process_by_pid :: "u32 \<Rightarrow> kernel \<Rightarrow> nat option" where
  "find_process_by_pid pid k =
     for_find 0 PROCESS_LIMIT (\<lambda>index. p_state (proc k index) \<noteq> PROCESS_UNUSED \<and> p_pid (proc k index) = pid)"

function find_free_pid :: "nat \<Rightarrow> kernel \<Rightarrow> u32 option" where
  "find_free_pid candidate k =
     (if candidate > PID_MAXIMUM then None
      else if find_process_by_pid (of_nat candidate) k = None then Some (of_nat candidate)
      else find_free_pid (candidate + 1) k)"
  by pat_completeness auto
termination
  by (relation "measure (\<lambda>(candidate, _). PID_MAXIMUM + 1 - candidate)") auto

declare find_free_pid.simps [simp del]

definition allocate_pid :: "kernel \<Rightarrow> u32 option \<times> kernel" where
  "allocate_pid k =
     (if next_pid k \<noteq> 0
      then (Some (next_pid k), k\<lparr>next_pid := (if next_pid k = of_nat PID_MAXIMUM then 0 else next_pid k + 1)\<rparr>)
      else (find_free_pid 1 k, k))"

definition find_next_ready :: "nat \<Rightarrow> kernel \<Rightarrow> nat option" where
  "find_next_ready after k =
     map_option (\<lambda>offset. (after + offset) mod PROCESS_LIMIT)
       (for_find 1 (PROCESS_LIMIT + 1) (\<lambda>offset. p_state (proc k ((after + offset) mod PROCESS_LIMIT)) = PROCESS_READY))"

definition wakes :: "nat \<Rightarrow> kernel \<Rightarrow> nat \<Rightarrow> bool" where
  "wakes child k index \<longleftrightarrow> p_state (proc k index) = PROCESS_BLOCKED \<and>
     p_pid (proc k index) = parent_pid (proc k child) \<and> wait_node (proc k index) \<in> {Some child, Some index}"

definition wake_waiting_parent :: "nat \<Rightarrow> kernel \<Rightarrow> kernel" where
  "wake_waiting_parent child k = for_range 0 PROCESS_LIMIT (\<lambda>index k.
     if wakes child k index then update_process index (\<lambda>p. p\<lparr>wait_node := None, p_state := PROCESS_READY\<rparr>) k else k) k"

subsection \<open>Children, numbers and the working directory\<close>

definition scheduler_current_pid :: "kernel \<Rightarrow> u32" where
  "scheduler_current_pid k = p_pid (proc k (current_process k))"

definition is_child :: "nat \<Rightarrow> int \<Rightarrow> bool \<Rightarrow> kernel \<Rightarrow> nat \<Rightarrow> bool" where
  "is_child parent requested_pid zombie_only k index \<longleftrightarrow>
     \<not> (p_state (proc k index) = PROCESS_UNUSED \<or> p_state (proc k index) = PROCESS_REAPED \<or>
        parent_pid (proc k index) \<noteq> p_pid (proc k parent) \<or>
        requested_pid \<noteq> -1 \<and> p_pid (proc k index) \<noteq> of_int requested_pid \<or>
        zombie_only \<and> p_state (proc k index) \<noteq> PROCESS_ZOMBIE)"

definition find_child :: "nat \<Rightarrow> int \<Rightarrow> bool \<Rightarrow> kernel \<Rightarrow> nat option" where
  "find_child parent requested_pid zombie_only k = for_find 1 PROCESS_LIMIT (is_child parent requested_pid zombie_only k)"

fun copy_cwd :: "nat list \<Rightarrow> nat \<Rightarrow> u8 list \<Rightarrow> u8 list \<Rightarrow> bool \<times> u8 list" where
  "copy_cwd [] capacity cwd path = (False, path)"
| "copy_cwd (index # rest) capacity cwd path =
     (if index \<ge> capacity then (False, path)
      else if cwd ! index = 0 then (True, path @ [cwd ! index])
      else copy_cwd rest capacity cwd (path @ [cwd ! index]))"

definition scheduler_get_current_working_directory :: "nat \<Rightarrow> kernel \<Rightarrow> (bool \<times> u8 list) \<times> kernel" where
  "scheduler_get_current_working_directory capacity k =
     (if capacity = 0 then ((False, []), k)
      else case kernel_irq_save k of (flags, k) \<Rightarrow>
        (copy_cwd [0..<MINIOS_PROCESS_CWD_SIZE] capacity (current_working_directory (proc k (current_process k))) [],
         kernel_irq_restore flags k))"

definition scheduler_set_current_working_directory :: "u8 list \<Rightarrow> kernel \<Rightarrow> bool \<times> kernel" where
  "scheduler_set_current_working_directory path k =
     (let text = takeWhile (\<lambda>c. c \<noteq> 0) path; len = min MINIOS_PROCESS_CWD_SIZE (length text)
      in if take 1 path \<noteq> [0x2F] \<or> len = 0 \<or> len \<ge> MINIOS_PROCESS_CWD_SIZE then (False, k)
         else case kernel_irq_save k of (flags, k) \<Rightarrow>
           (True, kernel_irq_restore flags (update_current (\<lambda>p. p\<lparr>current_working_directory :=
              text @ 0 # drop (len + 1) (current_working_directory p)\<rparr>) k)))"

subsection \<open>Descriptors\<close>

definition scheduler_fd_install :: "nat option \<Rightarrow> kernel \<Rightarrow> int \<times> kernel" where
  "scheduler_fd_install handle k =
     (if handle = None then (- MINIOS_EINVAL, k)
      else case kernel_irq_save k of (flags, k) \<Rightarrow>
        case for_find 3 PROCESS_FD_LIMIT (\<lambda>descriptor. fd_table (proc k (current_process k)) ! descriptor = None) of
          None \<Rightarrow> (- MINIOS_EMFILE, kernel_irq_restore flags k)
        | Some descriptor \<Rightarrow>
            (int descriptor,
             kernel_irq_restore flags (update_current (\<lambda>p. p\<lparr>fd_table := (fd_table p)[descriptor := handle]\<rparr>) k)))"

definition scheduler_fd_get :: "int \<Rightarrow> kernel \<Rightarrow> nat option \<times> kernel" where
  "scheduler_fd_get descriptor k =
     (if descriptor < 3 \<or> descriptor \<ge> int PROCESS_FD_LIMIT then (None, k)
      else case kernel_irq_save k of (flags, k) \<Rightarrow>
        (fd_table (proc k (current_process k)) ! nat descriptor, kernel_irq_restore flags k))"

definition scheduler_fd_remove :: "int \<Rightarrow> kernel \<Rightarrow> nat option \<times> kernel" where
  "scheduler_fd_remove descriptor k =
     (if descriptor < 3 \<or> descriptor \<ge> int PROCESS_FD_LIMIT then (None, k)
      else case kernel_irq_save k of (flags, k) \<Rightarrow>
        (fd_table (proc k (current_process k)) ! nat descriptor,
         kernel_irq_restore flags (update_current (\<lambda>p. p\<lparr>fd_table := (fd_table p)[nat descriptor := None]\<rparr>) k)))"

subsection \<open>Snapshot\<close>

record minios_process_info =
  info_pid :: u32
  info_parent_pid :: u32
  info_state :: u32
  info_name :: "u8 list"

fun state_number :: "process_state \<Rightarrow> u32" where
  "state_number PROCESS_UNUSED = 0"
| "state_number PROCESS_NEW = 1"
| "state_number PROCESS_READY = 2"
| "state_number PROCESS_RUNNING = 3"
| "state_number PROCESS_BLOCKED = 4"
| "state_number PROCESS_ZOMBIE = 5"
| "state_number PROCESS_REAPED = 6"

fun snapshot_loop :: "process list \<Rightarrow> nat \<Rightarrow> minios_process_info list" where
  "snapshot_loop [] capacity = []"
| "snapshot_loop (p # rest) capacity =
     (if capacity = 0 then []
      else if p_state p = PROCESS_UNUSED \<or> p_state p = PROCESS_REAPED then snapshot_loop rest capacity
      else \<lparr>info_pid = p_pid p, info_parent_pid = parent_pid p, info_state = state_number (p_state p), info_name = p_name p\<rparr> #
           snapshot_loop rest (capacity - 1))"

definition scheduler_process_snapshot :: "nat \<Rightarrow> kernel \<Rightarrow> minios_process_info list \<times> kernel" where
  "scheduler_process_snapshot capacity k =
     (case kernel_irq_save k of (flags, k) \<Rightarrow> (snapshot_loop (process_table k) capacity, kernel_irq_restore flags k))"

end
