(* ===== verification/Vfs.thy ===== *)
theory Vfs
  imports Process
begin

text \<open>
  The virtual file system (\<open>kernel/fs/vfs.c\<close>): a table of 32 open files, shared by all processes, and the
  descriptors of the current process that point into it. A handle is the index of the file.
\<close>

abbreviation (input) VFS_FILE_LIMIT :: nat where "VFS_FILE_LIMIT \<equiv> 32"
abbreviation (input) MINIOS_O_RDONLY :: u32 where "MINIOS_O_RDONLY \<equiv> 0"
abbreviation (input) MINIOS_O_WRONLY :: u32 where "MINIOS_O_WRONLY \<equiv> 1"
abbreviation (input) MINIOS_O_RDWR :: u32 where "MINIOS_O_RDWR \<equiv> 2"
abbreviation (input) MINIOS_O_ACCMODE :: u32 where "MINIOS_O_ACCMODE \<equiv> 3"
abbreviation (input) MINIOS_O_CREAT :: u32 where "MINIOS_O_CREAT \<equiv> 0x100"
abbreviation (input) MINIOS_O_TRUNC :: u32 where "MINIOS_O_TRUNC \<equiv> 0x200"
abbreviation (input) VFS_ALLOWED_FLAGS :: u32 where "VFS_ALLOWED_FLAGS \<equiv> MINIOS_O_ACCMODE OR MINIOS_O_CREAT OR MINIOS_O_TRUNC"
abbreviation (input) MINIOS_SEEK_SET :: int where "MINIOS_SEEK_SET \<equiv> 0"
abbreviation (input) MINIOS_SEEK_CUR :: int where "MINIOS_SEEK_CUR \<equiv> 1"
abbreviation (input) MINIOS_SEEK_END :: int where "MINIOS_SEEK_END \<equiv> 2"

record minios_stat =
  ms_inode :: u32
  ms_mode :: u16
  ms_link_count :: u16
  ms_size :: u32

record minios_dirent =
  md_inode :: u32
  md_mode :: u16
  md_name_length :: u16
  md_name :: "u8 list"
  md_reserved :: u8

subsection \<open>Lock and file table\<close>

definition vfs_acquire :: "kernel \<Rightarrow> u32 option \<times> kernel" where
  "vfs_acquire k =
     (case kernel_irq_save k of (flags, k) \<Rightarrow>
        if vfs_busy k then (None, kernel_irq_restore flags k) else (Some flags, k\<lparr>vfs_busy := True\<rparr>))"

definition vfs_release :: "u32 \<Rightarrow> kernel \<Rightarrow> kernel" where
  "vfs_release irq_flags k = kernel_irq_restore irq_flags (k\<lparr>vfs_busy := False\<rparr>)"

definition cleared_file :: vfs_file where
  "cleared_file = \<lparr>vf_used = False, vf_refcount = 0, vf_type = VFS_FILE_MINIFS, vf_ops = None, vf_inode = 0, vf_offset = 0,
     vf_flags = 0, vf_mode = 0\<rparr>"

definition file_at :: "kernel \<Rightarrow> nat \<Rightarrow> vfs_file" where
  "file_at k i = file_table k ! i"

definition update_file :: "nat \<Rightarrow> (vfs_file \<Rightarrow> vfs_file) \<Rightarrow> kernel \<Rightarrow> kernel" where
  "update_file i f k = k\<lparr>file_table := (file_table k)[i := f (file_table k ! i)]\<rparr>"

definition clear_file :: "nat \<Rightarrow> kernel \<Rightarrow> kernel" where
  "clear_file i k = update_file i (\<lambda>_. cleared_file) k"

definition allocate_file :: "kernel \<Rightarrow> nat option \<times> kernel" where
  "allocate_file k =
     (case for_find 0 VFS_FILE_LIMIT (\<lambda>index. \<not> vf_used (file_at k index)) of
        None \<Rightarrow> (None, k)
      | Some index \<Rightarrow> (Some index, update_file index (\<lambda>f. f\<lparr>vf_used := True, vf_refcount := 1\<rparr>) (clear_file index k)))"

definition file_from_handle :: "nat option \<Rightarrow> kernel \<Rightarrow> nat option" where
  "file_from_handle handle k =
     (case handle of
        None \<Rightarrow> None
      | Some index \<Rightarrow>
          if index < VFS_FILE_LIMIT \<and> vf_used (file_at k index) \<and> vf_refcount (file_at k index) > 0 \<and> vf_ops (file_at k index) \<noteq> None
          then Some index else None)"

definition flags_valid :: "u32 \<Rightarrow> bool" where
  "flags_valid flags \<longleftrightarrow>
     (let access = flags AND MINIOS_O_ACCMODE
      in flags AND NOT VFS_ALLOWED_FLAGS = 0 \<and> access \<le> MINIOS_O_RDWR \<and>
         (flags AND MINIOS_O_TRUNC = 0 \<or> access \<noteq> MINIOS_O_RDONLY))"

definition file_readable :: "vfs_file \<Rightarrow> bool" where
  "file_readable f \<longleftrightarrow> vf_flags f AND MINIOS_O_ACCMODE \<noteq> MINIOS_O_WRONLY"

definition file_writable :: "vfs_file \<Rightarrow> bool" where
  "file_writable f \<longleftrightarrow> vf_flags f AND MINIOS_O_ACCMODE \<noteq> MINIOS_O_RDONLY"

definition vfs_init :: "kernel \<Rightarrow> kernel" where
  "vfs_init k =
     (case kernel_irq_save k of (flags, k) \<Rightarrow>
        kernel_irq_restore flags ((for_range 0 VFS_FILE_LIMIT clear_file k)\<lparr>vfs_busy := False, vfs_initialized := True\<rparr>))"

subsection \<open>Opening and closing\<close>

text \<open>The status of the path, created where that was asked for.\<close>

definition open_status :: "u8 list \<Rightarrow> u32 \<Rightarrow> kernel \<Rightarrow> minifs_stat result \<times> kernel" where
  "open_status path flags k =
     (case on_fs (minifs_lookup path) k of (result, k) \<Rightarrow>
        if result = Inl (- MINIOS_ENOENT) \<and> flags AND MINIOS_O_CREAT \<noteq> 0 then on_fs (minifs_create path) k else (result, k))"

text \<open>The rest of \<open>vfs_open\<close>, with the lock held and a file of the table taken.\<close>

definition open_file :: "nat \<Rightarrow> u8 list \<Rightarrow> u32 \<Rightarrow> kernel \<Rightarrow> int \<times> kernel" where
  "open_file index path flags k =
     (case open_status path flags k of
        (Inl e, k) \<Rightarrow> (e, clear_file index k)
      | (Inr status, k) \<Rightarrow>
          if st_mode status = MINIFS_MODE_DIRECTORY \<and>
             (flags AND MINIOS_O_ACCMODE \<noteq> MINIOS_O_RDONLY \<or> flags AND MINIOS_O_TRUNC \<noteq> 0)
          then (- MINIOS_EISDIR, clear_file index k)
          else case (if flags AND MINIOS_O_TRUNC \<noteq> 0 then on_fs (minifs_truncate (st_inode status) 0) k else (0, k)) of (result, k) \<Rightarrow>
            if result < 0 then (result, clear_file index k)
            else let k = update_file index (\<lambda>f. f\<lparr>vf_inode := st_inode status, vf_type := VFS_FILE_MINIFS, vf_ops := Some minifs_file_ops,
                           vf_offset := 0, vf_flags := flags, vf_mode := st_mode status\<rparr>) k
                 in case scheduler_fd_install (Some index) k of (result, k) \<Rightarrow>
                      if result < 0 then (result, clear_file index k) else (result, k))"

definition vfs_open :: "u8 list \<Rightarrow> u32 \<Rightarrow> kernel \<Rightarrow> int \<times> kernel" where
  "vfs_open path flags k =
     (if \<not> vfs_initialized k \<or> \<not> flags_valid flags then (- MINIOS_EINVAL, k)
      else case vfs_acquire k of
        (None, k) \<Rightarrow> (- MINIOS_EAGAIN, k)
      | (Some irq_flags, k) \<Rightarrow>
          case allocate_file k of
            (None, k) \<Rightarrow> (- MINIOS_ENFILE, vfs_release irq_flags k)
          | (Some index, k) \<Rightarrow> case open_file index path flags k of (result, k) \<Rightarrow> (result, vfs_release irq_flags k))"

definition drop_reference :: "nat \<Rightarrow> kernel \<Rightarrow> kernel" where
  "drop_reference index k =
     (let k = update_file index (\<lambda>f. f\<lparr>vf_refcount := vf_refcount f - 1\<rparr>) k
      in if vf_refcount (file_at k index) = 0 then clear_file index k else k)"

definition vfs_close :: "int \<Rightarrow> kernel \<Rightarrow> int \<times> kernel" where
  "vfs_close descriptor k =
     (if \<not> vfs_initialized k then (- MINIOS_EIO, k)
      else case vfs_acquire k of
        (None, k) \<Rightarrow> (- MINIOS_EAGAIN, k)
      | (Some irq_flags, k) \<Rightarrow>
          case scheduler_fd_remove descriptor k of (handle, k) \<Rightarrow>
            case file_from_handle handle k of
              None \<Rightarrow> (- MINIOS_EBADF, vfs_release irq_flags k)
            | Some index \<Rightarrow> (0, vfs_release irq_flags (drop_reference index k)))"

definition vfs_close_all_current :: "kernel \<Rightarrow> kernel" where
  "vfs_close_all_current k =
     (if \<not> vfs_initialized k then k
      else for_range 3 PROCESS_FD_LIMIT (\<lambda>descriptor k.
             case scheduler_fd_get (int descriptor) k of (handle, k) \<Rightarrow>
               if handle \<noteq> None then snd (vfs_close (int descriptor) k) else k) k)"

subsection \<open>Reading, writing and seeking\<close>

text \<open>The file of a descriptor, with the lock held.\<close>

definition descriptor_file :: "int \<Rightarrow> kernel \<Rightarrow> nat option \<times> kernel" where
  "descriptor_file descriptor k =
     (case scheduler_fd_get descriptor k of (handle, k) \<Rightarrow> (file_from_handle handle k, k))"

definition advance :: "nat \<Rightarrow> int \<Rightarrow> kernel \<Rightarrow> kernel" where
  "advance index result k = (if result > 0 then update_file index (\<lambda>f. f\<lparr>vf_offset := vf_offset f + of_int result\<rparr>) k else k)"

definition fs_read :: "u32 \<Rightarrow> u32 \<Rightarrow> nat \<Rightarrow> kernel \<Rightarrow> (int \<times> u8 list) \<times> kernel" where
  "fs_read inode offset len = on_fs (\<lambda>s. case minifs_read inode offset len s of (result, bytes, s) \<Rightarrow> ((result, bytes), s))"

definition vfs_read :: "int \<Rightarrow> nat \<Rightarrow> kernel \<Rightarrow> (int \<times> u8 list) \<times> kernel" where
  "vfs_read descriptor len k =
     (if \<not> vfs_initialized k then ((- MINIOS_EINVAL, []), k)
      else case vfs_acquire k of
        (None, k) \<Rightarrow> ((- MINIOS_EAGAIN, []), k)
      | (Some irq_flags, k) \<Rightarrow>
          case descriptor_file descriptor k of
            (None, k) \<Rightarrow> ((- MINIOS_EBADF, []), vfs_release irq_flags k)
          | (Some index, k) \<Rightarrow>
              if \<not> file_readable (file_at k index) then ((- MINIOS_EBADF, []), vfs_release irq_flags k)
              else if vf_mode (file_at k index) = MINIFS_MODE_DIRECTORY then ((- MINIOS_EISDIR, []), vfs_release irq_flags k)
              else case fs_read (vf_inode (file_at k index)) (vf_offset (file_at k index)) len k of ((result, bytes), k) \<Rightarrow>
                ((result, bytes), vfs_release irq_flags (advance index result k)))"

definition vfs_write :: "int \<Rightarrow> u8 list \<Rightarrow> kernel \<Rightarrow> int \<times> kernel" where
  "vfs_write descriptor bytes k =
     (if \<not> vfs_initialized k then (- MINIOS_EINVAL, k)
      else case vfs_acquire k of
        (None, k) \<Rightarrow> (- MINIOS_EAGAIN, k)
      | (Some irq_flags, k) \<Rightarrow>
          case descriptor_file descriptor k of
            (None, k) \<Rightarrow> (- MINIOS_EBADF, vfs_release irq_flags k)
          | (Some index, k) \<Rightarrow>
              if \<not> file_writable (file_at k index) then (- MINIOS_EBADF, vfs_release irq_flags k)
              else if vf_mode (file_at k index) = MINIFS_MODE_DIRECTORY then (- MINIOS_EISDIR, vfs_release irq_flags k)
              else case on_fs (minifs_write (vf_inode (file_at k index)) (vf_offset (file_at k index)) bytes) k of (result, k) \<Rightarrow>
                (result, vfs_release irq_flags (advance index result k)))"

text \<open>The base of a seek; the sum has 64 bits in the code and cannot overflow.\<close>

definition seek_base :: "nat \<Rightarrow> int \<Rightarrow> kernel \<Rightarrow> int result \<times> kernel" where
  "seek_base index whence k =
     (if whence = MINIOS_SEEK_SET then (Inr 0, k)
      else if whence = MINIOS_SEEK_CUR then (Inr (uint (vf_offset (file_at k index))), k)
      else if whence = MINIOS_SEEK_END
      then case on_fs (minifs_stat_inode (vf_inode (file_at k index))) k of
             (Inl e, k) \<Rightarrow> (Inl e, k)
           | (Inr status, k) \<Rightarrow> (Inr (uint (st_size status)), k)
      else (Inl (- MINIOS_EINVAL), k))"

definition vfs_lseek :: "int \<Rightarrow> int \<Rightarrow> int \<Rightarrow> kernel \<Rightarrow> int \<times> kernel" where
  "vfs_lseek descriptor offset whence k =
     (if \<not> vfs_initialized k then (- MINIOS_EIO, k)
      else case vfs_acquire k of
        (None, k) \<Rightarrow> (- MINIOS_EAGAIN, k)
      | (Some irq_flags, k) \<Rightarrow>
          case descriptor_file descriptor k of
            (None, k) \<Rightarrow> (- MINIOS_EBADF, vfs_release irq_flags k)
          | (Some index, k) \<Rightarrow>
              case seek_base index whence k of
                (Inl e, k) \<Rightarrow> (e, vfs_release irq_flags k)
              | (Inr base, k) \<Rightarrow>
                  let target = base + offset
                  in if target < 0 \<or> target > 0x7FFFFFFF then (- MINIOS_EINVAL, vfs_release irq_flags k)
                     else (target, vfs_release irq_flags (update_file index (\<lambda>f. f\<lparr>vf_offset := of_int target\<rparr>) k)))"

subsection \<open>Paths and directories\<close>

definition vfs_stat :: "u8 list \<Rightarrow> kernel \<Rightarrow> minios_stat result \<times> kernel" where
  "vfs_stat path k =
     (if \<not> vfs_initialized k then (Inl (- MINIOS_EINVAL), k)
      else case on_fs (minifs_lookup path) k of
        (Inl e, k) \<Rightarrow> (Inl e, k)
      | (Inr st, k) \<Rightarrow> (Inr \<lparr>ms_inode = st_inode st, ms_mode = st_mode st, ms_link_count = st_link_count st, ms_size = st_size st\<rparr>, k))"

definition vfs_mkdir :: "u8 list \<Rightarrow> kernel \<Rightarrow> int \<times> kernel" where
  "vfs_mkdir path k =
     (if \<not> vfs_initialized k then (- MINIOS_EIO, k)
      else case vfs_acquire k of
        (None, k) \<Rightarrow> (- MINIOS_EAGAIN, k)
      | (Some irq_flags, k) \<Rightarrow> case on_fs (minifs_mkdir path) k of (result, k) \<Rightarrow> (result, vfs_release irq_flags k))"

definition inode_open :: "u32 \<Rightarrow> kernel \<Rightarrow> bool" where
  "inode_open inode k \<longleftrightarrow> for_find 0 VFS_FILE_LIMIT (\<lambda>index. vf_used (file_at k index) \<and> vf_inode (file_at k index) = inode) \<noteq> None"

definition vfs_unlink :: "u8 list \<Rightarrow> kernel \<Rightarrow> int \<times> kernel" where
  "vfs_unlink path k =
     (if \<not> vfs_initialized k then (- MINIOS_EIO, k)
      else case vfs_acquire k of
        (None, k) \<Rightarrow> (- MINIOS_EAGAIN, k)
      | (Some irq_flags, k) \<Rightarrow>
          case on_fs (minifs_lookup path) k of
            (Inl e, k) \<Rightarrow> (e, vfs_release irq_flags k)
          | (Inr status, k) \<Rightarrow>
              if inode_open (st_inode status) k then (- MINIOS_EBUSY, vfs_release irq_flags k)
              else case on_fs (minifs_unlink path) k of (result, k) \<Rightarrow> (result, vfs_release irq_flags k))"

definition convert_dirent :: "minifs_dirent \<Rightarrow> minios_dirent" where
  "convert_dirent e =
     (let copy_length = min (unat (de_name_length e) + 1) 59
      in \<lparr>md_inode = de_inode e, md_mode = de_mode e, md_name_length = de_name_length e,
          md_name = take copy_length (de_name e @ [0]) @ replicate (59 - copy_length) 0, md_reserved = 0\<rparr>)"

definition vfs_readdir :: "int \<Rightarrow> kernel \<Rightarrow> (int \<times> minios_dirent option) \<times> kernel" where
  "vfs_readdir descriptor k =
     (if \<not> vfs_initialized k then ((- MINIOS_EINVAL, None), k)
      else case vfs_acquire k of
        (None, k) \<Rightarrow> ((- MINIOS_EAGAIN, None), k)
      | (Some irq_flags, k) \<Rightarrow>
          case descriptor_file descriptor k of
            (None, k) \<Rightarrow> ((- MINIOS_EBADF, None), vfs_release irq_flags k)
          | (Some index, k) \<Rightarrow>
              if \<not> file_readable (file_at k index) then ((- MINIOS_EBADF, None), vfs_release irq_flags k)
              else if vf_mode (file_at k index) \<noteq> MINIFS_MODE_DIRECTORY then ((- MINIOS_ENOTDIR, None), vfs_release irq_flags k)
              else case on_fs (minifs_readdir (vf_inode (file_at k index)) (vf_offset (file_at k index))) k of
                (Inl e, k) \<Rightarrow> ((e, None), vfs_release irq_flags k)
              | (Inr (entry, cursor), k) \<Rightarrow>
                  let k = vfs_release irq_flags (update_file index (\<lambda>f. f\<lparr>vf_offset := cursor\<rparr>) k)
                  in case entry of None \<Rightarrow> ((0, None), k) | Some e \<Rightarrow> ((1, Some (convert_dirent e)), k))"

subsection \<open>Self test\<close>

definition bytes_of :: "string \<Rightarrow> u8 list" where
  "bytes_of s = map of_char s"

text \<open>The conditions on two descriptors of one file; the descriptors are kept for the cleanup where one fails.\<close>

definition self_test_reads :: "kernel \<Rightarrow> bool \<times> int \<times> int \<times> kernel" where
  "self_test_reads k =
     (let path = bytes_of ''/bin/init''
      in case vfs_open path MINIOS_O_RDONLY k of (first, k) \<Rightarrow>
         case vfs_open path MINIOS_O_RDONLY k of (second, k) \<Rightarrow>
         if first < 3 \<or> second < 3 \<or> first = second then (False, first, second, k)
         else case vfs_read first 4 k of ((r, buf), k) \<Rightarrow>
         if r \<noteq> 4 \<or> take 4 buf \<noteq> [0x7F, 0x45, 0x4C, 0x46] then (False, first, second, k)
         else case vfs_read second 1 k of ((r, buf), k) \<Rightarrow>
         if r \<noteq> 1 \<or> take 1 buf \<noteq> [0x7F] then (False, first, second, k)
         else case vfs_lseek first 0 MINIOS_SEEK_SET k of (r, k) \<Rightarrow>
         if r \<noteq> 0 then (False, first, second, k)
         else case vfs_read first 1 k of ((r, buf), k) \<Rightarrow>
         if r \<noteq> 1 \<or> take 1 buf \<noteq> [0x7F] then (False, first, second, k)
         else case vfs_write first (take 1 buf) k of (r, k) \<Rightarrow>
         if r \<noteq> - MINIOS_EBADF then (False, first, second, k)
         else case vfs_stat path k of
           (Inl e, k) \<Rightarrow> (False, first, second, k)
         | (Inr status, k) \<Rightarrow>
             if ms_mode status \<noteq> MINIFS_MODE_REGULAR \<or> ms_size status = 0 then (False, first, second, k)
             else case vfs_close first k of (r, k) \<Rightarrow>
             if r \<noteq> 0 then (False, first, second, k)
             else case vfs_close first k of (r, k) \<Rightarrow>
             if r \<noteq> - MINIOS_EBADF then (False, first, second, k)
             else case vfs_close second k of (r, k) \<Rightarrow>
             if r \<noteq> 0 then (False, first, second, k) else (True, -1, -1, k))"

definition self_test_directory :: "kernel \<Rightarrow> bool \<times> int \<times> kernel" where
  "self_test_directory k =
     (case vfs_open (bytes_of ''/bin/sh'') MINIOS_O_RDONLY k of (third, k) \<Rightarrow>
      if third < 3 then (False, third, k)
      else case scheduler_fd_get third (vfs_close_all_current k) of (handle, k) \<Rightarrow>
      if handle \<noteq> None then (False, third, k)
      else case vfs_open (bytes_of ''/bin'') MINIOS_O_RDONLY k of (third, k) \<Rightarrow>
      if third < 3 then (False, third, k)
      else case vfs_readdir third k of ((r, entry), k) \<Rightarrow>
      case entry of
        None \<Rightarrow> (False, third, k)
      | Some e \<Rightarrow>
          if r \<noteq> 1 \<or> md_mode e \<noteq> MINIFS_MODE_DIRECTORY \<or> md_name_length e \<noteq> 1 \<or> md_name e ! 0 \<noteq> 0x2E \<or> md_name e ! 1 \<noteq> 0
          then (False, third, k)
          else case vfs_close third k of (r, k) \<Rightarrow> if r \<noteq> 0 then (False, third, k) else (True, -1, k))"

definition close_if_open :: "int \<Rightarrow> kernel \<Rightarrow> kernel" where
  "close_if_open descriptor k = (if descriptor \<ge> 3 then snd (vfs_close descriptor k) else k)"

definition vfs_self_test :: "kernel \<Rightarrow> bool \<times> kernel" where
  "vfs_self_test k =
     (if for_find 0 VFS_FILE_LIMIT (\<lambda>index. vf_used (file_at k index) \<or> vf_refcount (file_at k index) \<noteq> 0) \<noteq> None then (False, k)
      else case self_test_reads k of (ok, first, second, k) \<Rightarrow>
        case (if ok then self_test_directory k else (False, -1, k)) of (passed, third, k) \<Rightarrow>
          (passed, close_if_open third (close_if_open second (close_if_open first k))))"

end
