(* ===== verification/Scheduler.thy ===== *)
theory Scheduler
  imports Vfs Elf
begin

text \<open>
  The scheduler (\<open>kernel/proc/scheduler.c\<close>): creation of kernel threads and user processes, round-robin
  switching, sleep, exit and wait.

  A call that switches to another process does not return at that point. Its result is \<open>Switched\<close>, the
  context of the process that left is kept in its \<open>saved_stack\<close>, and \<open>running\<close> has the context of the process that
  was chosen. \<open>resume\<close> continues that context: it runs the rest of the call the process was inside, or a trampoline.
\<close>

abbreviation (input) KERNEL_STACK_SIZE :: u32 where "KERNEL_STACK_SIZE \<equiv> 16384"
abbreviation (input) EFLAGS_INTERRUPT_ENABLE :: u32 where "EFLAGS_INTERRUPT_ENABLE \<equiv> 0x200"
abbreviation (input) USER_CODE_VIRTUAL :: u32 where "USER_CODE_VIRTUAL \<equiv> 0x00400000"
abbreviation (input) USER_STACK_VIRTUAL :: u32 where "USER_STACK_VIRTUAL \<equiv> 0xBFFFF000"
abbreviation (input) USER_STACK_TOP :: u32 where "USER_STACK_TOP \<equiv> 0xC0000000"
abbreviation (input) USER_PAGE_LOAD_WINDOW :: u32 where "USER_PAGE_LOAD_WINDOW \<equiv> 0xD0C00000"
abbreviation (input) USER_ARGUMENT_LIMIT :: nat where "USER_ARGUMENT_LIMIT \<equiv> 16"
abbreviation (input) USER_ARGUMENT_LENGTH_LIMIT :: nat where "USER_ARGUMENT_LENGTH_LIMIT \<equiv> 256"
abbreviation (input) USER_PRIVILEGE_LEVEL :: u32 where "USER_PRIVILEGE_LEVEL \<equiv> 3"
abbreviation (input) SLEEP_MAXIMUM_TICKS :: u32 where "SLEEP_MAXIMUM_TICKS \<equiv> 0x7FFFFFFF"

datatype 'a outcome = Returned 'a | Switched

definition on_machine :: "(machine \<Rightarrow> ('r \<times> machine) option) \<Rightarrow> kernel \<Rightarrow> ('r \<times> kernel) option" where
  "on_machine f k = do { (r, m) \<leftarrow> f (machine_of k); Some (r, with_machine m k) }"

definition on_heap :: "(heap \<Rightarrow> ('r \<times> heap) option) \<Rightarrow> kernel \<Rightarrow> ('r \<times> kernel) option" where
  "on_heap f k = do { (r, h) \<leftarrow> f (k_heap k); Some (r, k\<lparr>k_heap := h\<rparr>) }"

definition kernel_pmm_alloc :: "kernel \<Rightarrow> u32 \<times> kernel" where
  "kernel_pmm_alloc k =
     (case pmm_alloc (m_pmm (machine_of k)) of (physical, p) \<Rightarrow> (physical, with_machine ((machine_of k)\<lparr>m_pmm := p\<rparr>) k))"

subsection \<open>Switching\<close>

definition activate_space :: "u32 \<Rightarrow> kernel \<Rightarrow> kernel option" where
  "activate_space directory k = do {
     (ok, k) \<leftarrow> on_machine (if directory = 0 then (\<lambda>m. Some (vmm_activate_kernel_address_space m))
                            else vmm_address_space_activate directory) k;
     if ok then Some k else None
   }"

definition gdt_set_kernel_stack :: "u32 \<Rightarrow> kernel \<Rightarrow> kernel option" where
  "gdt_set_kernel_stack stack_top k = (if stack_top = 0 then None else Some (k\<lparr>tss_esp0 := stack_top\<rparr>))"

definition switch_to :: "saved_context \<Rightarrow> nat \<Rightarrow> kernel \<Rightarrow> kernel option" where
  "switch_to here next_process k = do {
     k \<leftarrow> activate_space (page_directory (proc k next_process)) k;
     let previous = current_process k;
     let k = update_process next_process (\<lambda>p. p\<lparr>p_state := PROCESS_RUNNING, time_slice := DEFAULT_TIME_SLICE\<rparr>)
               (k\<lparr>current_process := next_process\<rparr>);
     k \<leftarrow> gdt_set_kernel_stack (kernel_stack_top (proc k next_process)) k;
     Some (update_process previous (\<lambda>p. p\<lparr>saved_stack := Some here\<rparr>) (k\<lparr>running := saved_stack (proc k next_process)\<rparr>))
   }"

definition scheduler_exit_current :: "int \<Rightarrow> kernel \<Rightarrow> kernel option" where
  "scheduler_exit_current code k =
     (case kernel_irq_save k of (flags, k) \<Rightarrow>
        let k = vfs_close_all_current k;
            k = update_current (\<lambda>p. p\<lparr>exit_code := code, p_state := PROCESS_ZOMBIE\<rparr>) k;
            k = wake_waiting_parent (current_process k) k
        in case find_next_ready (current_process k) k of
             None \<Rightarrow> None
           | Some next_process \<Rightarrow> switch_to In_Exit next_process k)"

definition scheduler_user_page_fault :: "u32 \<Rightarrow> u32 \<Rightarrow> u32 \<Rightarrow> u32 \<Rightarrow> kernel \<Rightarrow> (bool outcome \<times> kernel) option" where
  "scheduler_user_page_fault address error_code cs eip k =
     (if page_directory (proc k (current_process k)) = 0 \<or> cs AND USER_PRIVILEGE_LEVEL \<noteq> USER_PRIVILEGE_LEVEL
      then Some (Returned False, k)
      else do {
        k \<leftarrow> scheduler_exit_current (- MINIOS_EFAULT)
               (k\<lparr>last_user_fault_pid := p_pid (proc k (current_process k)), last_user_fault_address := address,
                  last_user_fault_error := error_code, last_user_fault_eip := eip\<rparr>);
        Some (Switched, k)
      })"

definition scheduler_init :: "u32 \<Rightarrow> kernel \<Rightarrow> kernel" where
  "scheduler_init boot_stack_top k =
     (let k = k\<lparr>process_table := replicate PROCESS_LIMIT cleared_process, current_process := 0, running := None, next_pid := 1\<rparr>
      in update_process 0 (\<lambda>p. (set_process_name [0x62, 0x6F, 0x6F, 0x74] (p\<lparr>p_pid := 0, p_state := PROCESS_RUNNING\<rparr>))
           \<lparr>kernel_stack_top := boot_stack_top, time_slice := DEFAULT_TIME_SLICE, initial_eflags := irq_read_flags (machine_of k)\<rparr>) k)"

subsection \<open>Creating\<close>

text \<open>
  A new process in a free slot. Its kernel stack starts with the frame of \<open>context_switch\<close> that enters the
  trampoline; \<open>specific\<close> sets what the three creating functions set differently.
\<close>

definition new_process :: "nat \<Rightarrow> u8 list \<Rightarrow> u32 \<Rightarrow> u32 \<Rightarrow> saved_context \<Rightarrow> (process \<Rightarrow> process) \<Rightarrow> kernel \<Rightarrow> kernel option" where
  "new_process index name pid allocation trampoline specific k = do {
     k \<leftarrow> inherit_current_working_directory index (clear_process index k);
     Some (update_process index (\<lambda>p.
       (specific ((set_process_name name (p\<lparr>p_pid := pid, p_state := PROCESS_NEW\<rparr>))
          \<lparr>kernel_stack_allocation := allocation, kernel_stack_top := allocation + KERNEL_STACK_SIZE,
           parent_pid := p_pid (proc k (current_process k)), time_slice := DEFAULT_TIME_SLICE\<rparr>))
       \<lparr>saved_stack := Some trampoline, p_state := PROCESS_READY\<rparr>) k)
   }"

definition kernel_thread_create :: "u8 list \<Rightarrow> u32 \<Rightarrow> u32 \<Rightarrow> kernel \<Rightarrow> (int \<times> kernel) option" where
  "kernel_thread_create name entry argument k =
     (if take 1 name \<in> {[], [0]} \<or> entry = 0 then Some (-1, k)
      else case kernel_irq_save k of (flags, k) \<Rightarrow>
        case find_unused_process k of
          None \<Rightarrow> Some (-1, kernel_irq_restore flags k)
        | Some index \<Rightarrow> do {
            (allocation, k) \<leftarrow> on_heap (kmalloc KERNEL_STACK_SIZE) k;
            if allocation = 0 then Some (-1, kernel_irq_restore flags k)
            else case allocate_pid k of
              (None, k) \<Rightarrow> do {
                (ok, k) \<leftarrow> on_heap (kfree allocation) k;
                if \<not> ok then None else Some (-1, kernel_irq_restore flags k)
              }
            | (Some pid, k) \<Rightarrow> do {
                k \<leftarrow> new_process index name pid allocation Thread_Trampoline
                       (\<lambda>p. p\<lparr>thread_entry := entry, thread_argument := argument, initial_eflags := flags AND EFLAGS_INTERRUPT_ENABLE\<rparr>) k;
                Some (sint pid, kernel_irq_restore flags k)
              }
          })"

definition initialize_user_page :: "u32 \<Rightarrow> u8 list \<Rightarrow> machine \<Rightarrow> (bool \<times> machine) option" where
  "initialize_user_page physical_address source m =
     (if length source > 4096 then Some (False, m)
      else do {
        (ok, m) \<leftarrow> vmm_map USER_PAGE_LOAD_WINDOW physical_address VMM_WRITABLE m;
        if \<not> ok then Some (False, m)
        else do {
          m \<leftarrow> for_opt 0 4096 (\<lambda>index. vwrite8 (USER_PAGE_LOAD_WINDOW + of_nat index) 0) m;
          m \<leftarrow> for_opt 0 (length source) (\<lambda>index. vwrite8 (USER_PAGE_LOAD_WINDOW + of_nat index) (source ! index)) m;
          (unmapped, m) \<leftarrow> vmm_unmap USER_PAGE_LOAD_WINDOW m;
          if unmapped \<noteq> Some physical_address then None else Some (True, m)
        }
      })"

definition bounded_string_length :: "u8 list \<Rightarrow> nat option" where
  "bounded_string_length v = for_find 0 USER_ARGUMENT_LENGTH_LIMIT (\<lambda>index. index < length v \<longrightarrow> v ! index = 0)"

text \<open>The first loop of \<open>initialize_user_stack\<close>: the lengths of the arguments and their bytes, terminators included.\<close>

fun measure_arguments :: "u8 list list \<Rightarrow> nat list \<Rightarrow> nat \<Rightarrow> (nat list \<times> nat) option" where
  "measure_arguments [] lengths string_bytes = Some (lengths, string_bytes)"
| "measure_arguments (argument # rest) lengths string_bytes =
     (if length lengths \<ge> USER_ARGUMENT_LIMIT then None
      else case bounded_string_length argument of
        None \<Rightarrow> None
      | Some len \<Rightarrow> if len + 1 > 4096 - string_bytes then None
                      else measure_arguments rest (lengths @ [len]) (string_bytes + len + 1))"

text \<open>The copy of the strings, from the last argument down; the addresses come out in order.\<close>

fun write_arguments :: "(u8 list \<times> nat) list \<Rightarrow> nat \<Rightarrow> u32 list \<Rightarrow> machine \<Rightarrow> (nat \<times> u32 list \<times> machine) option" where
  "write_arguments [] cursor addresses m = Some (cursor, addresses, m)"
| "write_arguments ((argument, len) # rest) cursor addresses m =
     (let cursor = cursor - (len + 1)
      in do {
        m \<leftarrow> for_opt 0 (len + 1) (\<lambda>character. vwrite8 (USER_PAGE_LOAD_WINDOW + of_nat (cursor + character))
               (if character < length argument then argument ! character else 0)) m;
        write_arguments rest cursor ((USER_STACK_VIRTUAL + of_nat cursor) # addresses) m
      })"

definition initialize_user_stack :: "u32 \<Rightarrow> u8 list list \<Rightarrow> machine \<Rightarrow> (u32 option \<times> machine) option" where
  "initialize_user_stack physical_address argv m =
     (if argv = [] then Some (None, m)
      else case measure_arguments argv [] 0 of
        None \<Rightarrow> Some (None, m)
      | Some (lengths, string_bytes) \<Rightarrow>
          let argument_count = length argv
          in if string_bytes + (argument_count + 2) * 4 + 3 > 4096 then Some (None, m)
             else do {
               (ok, m) \<leftarrow> vmm_map USER_PAGE_LOAD_WINDOW physical_address VMM_WRITABLE m;
               if \<not> ok then Some (None, m)
               else do {
                 m \<leftarrow> for_opt 0 4096 (\<lambda>index. vwrite8 (USER_PAGE_LOAD_WINDOW + of_nat index) 0) m;
                 (cursor, argument_addresses, m) \<leftarrow> write_arguments (rev (zip argv lengths)) 4096 [] m;
                 let cursor = cursor - cursor mod 4 - (argument_count + 2) * 4;
                 let words = USER_PAGE_LOAD_WINDOW + of_nat cursor;
                 m \<leftarrow> vwrite words (of_nat argument_count) m;
                 m \<leftarrow> for_opt 0 argument_count (\<lambda>index. vwrite (words + 4 * of_nat (index + 1)) (argument_addresses ! index)) m;
                 m \<leftarrow> vwrite (words + 4 * of_nat (argument_count + 1)) 0 m;
                 (unmapped, m) \<leftarrow> vmm_unmap USER_PAGE_LOAD_WINDOW m;
                 if unmapped \<noteq> Some physical_address then None else Some (Some (USER_STACK_VIRTUAL + of_nat cursor), m)
               }
             })"

definition release_physical_page :: "u32 \<Rightarrow> kernel \<Rightarrow> kernel option" where
  "release_physical_page physical k =
     (if physical = 0 then Some k else do { m \<leftarrow> free_or_panic physical (machine_of k); Some (with_machine m k) })"

text \<open>The rollback both creating functions end with.\<close>

definition rollback :: "u32 \<Rightarrow> u32 list \<Rightarrow> u32 \<Rightarrow> u32 \<Rightarrow> int \<Rightarrow> kernel \<Rightarrow> (int \<times> kernel) option" where
  "rollback space pages kernel_stack flags result k = do {
     k \<leftarrow> (if space = 0 then Some k
            else do { (ok, k) \<leftarrow> on_machine (\<lambda>m. map_option (\<lambda>(ok, space, m). (ok, m)) (vmm_address_space_destroy space m)) k;
                      if ok then Some k else None });
     k \<leftarrow> fold (\<lambda>page r. Option.bind r (release_physical_page page)) pages (Some k);
     k \<leftarrow> (if kernel_stack = 0 then Some k
            else do { (ok, k) \<leftarrow> on_heap (kfree kernel_stack) k; if ok then Some k else None });
     Some (result, kernel_irq_restore flags k)
   }"

definition create_space :: "kernel \<Rightarrow> (u32 \<times> kernel) option" where
  "create_space k = on_machine (\<lambda>m. map_option (\<lambda>(ok, space, m). (space, m)) (vmm_address_space_create 0 m)) k"

definition user_process_create :: "u8 list \<Rightarrow> u8 list \<Rightarrow> kernel \<Rightarrow> (int \<times> kernel) option" where
  "user_process_create name img k =
     (if take 1 name \<in> {[], [0]} \<or> img = [] \<or> length img > 4096 then Some (-1, k)
      else case kernel_irq_save k of (flags, k) \<Rightarrow>
        case find_unused_process k of
          None \<Rightarrow> Some (-1, kernel_irq_restore flags k)
        | Some index \<Rightarrow>
            if page_directory (proc k (current_process k)) \<noteq> 0 \<or>
               vmm_current_page_directory (machine_of k) \<noteq> vmm_kernel_page_directory (machine_of k)
            then Some (-1, kernel_irq_restore flags k)
            else do {
              (kernel_stack, k) \<leftarrow> on_heap (kmalloc KERNEL_STACK_SIZE) k;
              case kernel_pmm_alloc k of (code_physical, k) \<Rightarrow>
              case kernel_pmm_alloc k of (stack_physical, k) \<Rightarrow>
              if kernel_stack = 0 \<or> code_physical = 0 \<or> stack_physical = 0
              then rollback 0 [code_physical, stack_physical] kernel_stack flags (-1) k
              else do {
                (ok, k) \<leftarrow> on_machine (initialize_user_page code_physical img) k;
                (ok, k) \<leftarrow> (if ok then on_machine (initialize_user_page stack_physical []) k else Some (False, k));
                (space, k) \<leftarrow> (if ok then create_space k else Some (0, k));
                if space = 0 then rollback 0 [code_physical, stack_physical] kernel_stack flags (-1) k
                else do {
                  (ok, k) \<leftarrow> on_machine (vmm_address_space_map space USER_CODE_VIRTUAL code_physical 0) k;
                  if \<not> ok then rollback space [code_physical, stack_physical] kernel_stack flags (-1) k
                  else do {
                    (ok, k) \<leftarrow> on_machine (vmm_address_space_map space USER_STACK_VIRTUAL stack_physical VMM_WRITABLE) k;
                    if \<not> ok then rollback space [0, stack_physical] kernel_stack flags (-1) k
                    else case allocate_pid k of
                      (None, k) \<Rightarrow> rollback space [0, 0] kernel_stack flags (-1) k
                    | (Some pid, k) \<Rightarrow> do {
                        k \<leftarrow> new_process index name pid kernel_stack User_Trampoline
                               (\<lambda>p. p\<lparr>user_stack_top := USER_STACK_TOP, page_directory := space,
                                      initial_eflags := EFLAGS_INTERRUPT_ENABLE, p_user_entry := USER_CODE_VIRTUAL\<rparr>) k;
                        Some (sint pid, kernel_irq_restore flags k)
                      }
                  }
                }
              }
            })"

definition scheduler_spawn_image :: "u8 list \<Rightarrow> u8 list \<Rightarrow> u8 list list \<Rightarrow> kernel \<Rightarrow> (int \<times> kernel) option" where
  "scheduler_spawn_image name img argv k =
     (if take 1 name \<in> {[], [0]} \<or> img = [] \<or> argv = [] then Some (- MINIOS_EINVAL, k)
      else case kernel_irq_save k of (flags, k) \<Rightarrow>
        case find_unused_process k of
          None \<Rightarrow> Some (- MINIOS_EAGAIN, kernel_irq_restore flags k)
        | Some index \<Rightarrow> do {
            (kernel_stack, k) \<leftarrow> on_heap (kmalloc KERNEL_STACK_SIZE) k;
            case kernel_pmm_alloc k of (stack_physical, k) \<Rightarrow> do {
            (space, k) \<leftarrow> (if kernel_stack = 0 \<or> stack_physical = 0 then Some (0, k) else create_space k);
            if space = 0 then rollback 0 [stack_physical] kernel_stack flags (- MINIOS_ENOMEM) k
            else do {
              ((result, entry_point), k) \<leftarrow> on_machine (\<lambda>m. map_option (\<lambda>(r, e, m). ((r, e), m))
                                               (elf_load_image space img (of_nat (length img)) m)) k;
              if result < 0 then rollback space [stack_physical] kernel_stack flags result k
              else do {
                (stack_top, k) \<leftarrow> on_machine (initialize_user_stack stack_physical argv) k;
                case stack_top of
                  None \<Rightarrow> rollback space [stack_physical] kernel_stack flags (- MINIOS_EINVAL) k
                | Some stack_top \<Rightarrow> do {
                    (ok, k) \<leftarrow> on_machine (vmm_address_space_map space USER_STACK_VIRTUAL stack_physical VMM_WRITABLE) k;
                    if \<not> ok then rollback space [stack_physical] kernel_stack flags (- MINIOS_ENOMEM) k
                    else case allocate_pid k of
                      (None, k) \<Rightarrow> rollback space [0] kernel_stack flags (- MINIOS_EAGAIN) k
                    | (Some pid, k) \<Rightarrow> do {
                        k \<leftarrow> new_process index name pid kernel_stack User_Trampoline
                               (\<lambda>p. p\<lparr>user_stack_top := stack_top, page_directory := space,
                                      initial_eflags := EFLAGS_INTERRUPT_ENABLE,
                                      p_user_entry := (case entry_point of None \<Rightarrow> 0 | Some e \<Rightarrow> e)\<rparr>) k;
                        Some (sint pid, kernel_irq_restore flags k)
                      }
                  }
              }
            }
          } })"

subsection \<open>Yielding, sleeping and waiting\<close>

definition reap_process :: "nat \<Rightarrow> kernel \<Rightarrow> (bool \<times> kernel) option" where
  "reap_process index k =
     (if p_state (proc k index) \<noteq> PROCESS_ZOMBIE \<or> index = current_process k \<or> kernel_stack_allocation (proc k index) = 0
      then Some (False, k)
      else do {
        (ok, k) \<leftarrow> (if page_directory (proc k index) = 0 then Some (True, k)
                    else do {
                      (ok, k) \<leftarrow> on_machine (\<lambda>m. map_option (\<lambda>(ok, space, m). (ok, m))
                                   (vmm_address_space_destroy (page_directory (proc k index)) m)) k;
                      Some (ok, if ok then update_process index (\<lambda>p. p\<lparr>page_directory := 0\<rparr>) k else k)
                    });
        if \<not> ok then Some (False, k)
        else do {
          (ok, k) \<leftarrow> on_heap (kfree (kernel_stack_allocation (proc k index))) k;
          if \<not> ok then Some (False, k) else Some (True, clear_process index k)
        }
      })"

definition scheduler_yield :: "kernel \<Rightarrow> (unit outcome \<times> kernel) option" where
  "scheduler_yield k =
     (case kernel_irq_save k of (flags, k) \<Rightarrow>
        let k = update_current (\<lambda>p. p\<lparr>p_state := PROCESS_READY\<rparr>) k; next_process = find_next_ready (current_process k) k
        in if next_process = None \<or> next_process = Some (current_process k)
           then Some (Returned (), kernel_irq_restore flags (update_current (\<lambda>p. p\<lparr>p_state := PROCESS_RUNNING\<rparr>) k))
           else do { k \<leftarrow> switch_to (In_Yield flags) (the next_process) k; Some (Switched, k) })"

definition scheduler_sleep_current :: "u32 \<Rightarrow> kernel \<Rightarrow> (bool outcome \<times> kernel) option" where
  "scheduler_sleep_current ticks k =
     (if ticks = 0 then do { (r, k) \<leftarrow> scheduler_yield k; Some (case r of Returned _ \<Rightarrow> Returned True | Switched \<Rightarrow> Switched, k) }
      else if ticks > SLEEP_MAXIMUM_TICKS then Some (Returned False, k)
      else case kernel_irq_save k of (flags, k) \<Rightarrow>
        case find_next_ready (current_process k) k of
          None \<Rightarrow> Some (Returned False, kernel_irq_restore flags k)
        | Some next_process \<Rightarrow> do {
            k \<leftarrow> switch_to (In_Sleep flags) next_process
                   (update_current (\<lambda>p. p\<lparr>wake_tick := tick_count k + ticks, wait_node := None, p_state := PROCESS_BLOCKED\<rparr>) k);
            Some (Switched, k)
          })"

text \<open>One pass of the loop of \<open>scheduler_waitpid\<close>; a process that is resumed inside it makes the next one.\<close>

definition waitpid_loop :: "int \<Rightarrow> u32 \<Rightarrow> kernel \<Rightarrow> ((int \<times> int option) outcome \<times> kernel) option" where
  "waitpid_loop pid flags k =
     (let parent = current_process k
      in case find_child parent pid True k of
           Some child \<Rightarrow> do {
             let result = sint (p_pid (proc k child));
             let status = exit_code (proc k child);
             (ok, k) \<leftarrow> reap_process child k;
             if \<not> ok then None else Some (Returned (result, Some status), kernel_irq_restore flags k)
           }
         | None \<Rightarrow>
             case find_child parent pid False k of
               None \<Rightarrow> Some (Returned (- MINIOS_ECHILD, None), kernel_irq_restore flags k)
             | Some child \<Rightarrow>
                 let k = update_process parent (\<lambda>p. p\<lparr>p_state := PROCESS_BLOCKED,
                           wait_node := Some (if pid = -1 then parent else child)\<rparr>) k
                 in case find_next_ready parent k of
                      None \<Rightarrow> Some (Returned (- MINIOS_ECHILD, None), kernel_irq_restore flags
                                (update_process parent (\<lambda>p. p\<lparr>wait_node := None, p_state := PROCESS_RUNNING\<rparr>) k))
                    | Some next_process \<Rightarrow> do { k \<leftarrow> switch_to (In_Waitpid pid flags) next_process k; Some (Switched, k) })"

definition scheduler_waitpid :: "int \<Rightarrow> kernel \<Rightarrow> ((int \<times> int option) outcome \<times> kernel) option" where
  "scheduler_waitpid pid k =
     (if pid = 0 \<or> pid < -1 then Some (Returned (- MINIOS_EINVAL, None), k)
      else case kernel_irq_save k of (flags, k) \<Rightarrow> waitpid_loop pid flags k)"

subsection \<open>The timer tick\<close>

definition sleep_over :: "kernel \<Rightarrow> nat \<Rightarrow> bool" where
  "sleep_over k index \<longleftrightarrow> p_state (proc k index) = PROCESS_BLOCKED \<and> wait_node (proc k index) = None \<and>
     sint (tick_count k - wake_tick (proc k index)) \<ge> 0"

definition wake_sleepers :: "kernel \<Rightarrow> kernel" where
  "wake_sleepers k = for_range 1 PROCESS_LIMIT (\<lambda>index k.
     if sleep_over k index then update_process index (\<lambda>p. p\<lparr>wake_tick := 0, p_state := PROCESS_READY\<rparr>) k else k) k"

definition scheduler_on_tick :: "kernel \<Rightarrow> (unit outcome \<times> kernel) option" where
  "scheduler_on_tick k =
     (let k = wake_sleepers k; current = proc k (current_process k)
      in if p_state current \<noteq> PROCESS_RUNNING then Some (Returned (), k)
         else if time_slice current > 1 then Some (Returned (), update_current (\<lambda>p. p\<lparr>time_slice := time_slice p - 1\<rparr>) k)
         else let k = update_current (\<lambda>p. p\<lparr>p_state := PROCESS_READY\<rparr>) k; next_process = find_next_ready (current_process k) k
              in if next_process = None \<or> next_process = Some (current_process k)
                 then Some (Returned (), update_current (\<lambda>p. p\<lparr>p_state := PROCESS_RUNNING, time_slice := DEFAULT_TIME_SLICE\<rparr>) k)
                 else do { k \<leftarrow> switch_to In_Tick (the next_process) k; Some (Switched, k) })"

definition pit_handle_irq :: "kernel \<Rightarrow> kernel" where
  "pit_handle_irq k = k\<lparr>tick_count := tick_count k + 1\<rparr>"

subsection \<open>Resuming\<close>

text \<open>What the resumed process does next, once the kernel has run the rest of its call.\<close>

datatype resumed = Runs_Thread u32 u32 | Enters_User u32 u32 | Returns_From_Yield | Returns_From_Sleep bool
  | Returns_From_Waitpid int "int option" | Returns_From_Tick

definition thread_trampoline :: "kernel \<Rightarrow> resumed \<times> kernel" where
  "thread_trampoline k =
     (let p = proc k (current_process k)
      in (Runs_Thread (thread_entry p) (thread_argument p), kernel_irq_restore (initial_eflags p) k))"

definition user_process_trampoline :: "kernel \<Rightarrow> resumed \<times> kernel" where
  "user_process_trampoline k = (let p = proc k (current_process k) in (Enters_User (p_user_entry p) (user_stack_top p), k))"

definition resume :: "kernel \<Rightarrow> (resumed outcome \<times> kernel) option" where
  "resume k =
     (case running k of
        None \<Rightarrow> None
      | Some context \<Rightarrow>
          let k = k\<lparr>running := None\<rparr>
          in case context of
               Thread_Trampoline \<Rightarrow> (case thread_trampoline k of (r, k) \<Rightarrow> Some (Returned r, k))
             | User_Trampoline \<Rightarrow> (case user_process_trampoline k of (r, k) \<Rightarrow> Some (Returned r, k))
             | In_Yield flags \<Rightarrow> Some (Returned Returns_From_Yield, kernel_irq_restore flags k)
             | In_Sleep flags \<Rightarrow> Some (Returned (Returns_From_Sleep True), kernel_irq_restore flags k)
             | In_Waitpid pid flags \<Rightarrow> do {
                 (r, k) \<leftarrow> waitpid_loop pid flags k;
                 Some (case r of Returned (result, status) \<Rightarrow> Returned (Returns_From_Waitpid result status) | Switched \<Rightarrow> Switched, k)
               }
             | In_Tick \<Rightarrow> Some (Returned Returns_From_Tick, k)
             | In_Exit \<Rightarrow> None)"

text \<open>The test of the pid allocator, with the allocator at its last new number.\<close>

definition pid_allocator_self_test :: "kernel \<Rightarrow> bool \<times> kernel" where
  "pid_allocator_self_test k =
     (case kernel_irq_save k of (flags, k) \<Rightarrow>
        let saved_next_pid = next_pid k
        in case find_unused_process k of
             None \<Rightarrow> (False, kernel_irq_restore flags (k\<lparr>next_pid := saved_next_pid\<rparr>))
           | Some temporary \<Rightarrow>
               case allocate_pid (k\<lparr>next_pid := of_nat PID_MAXIMUM\<rparr>) of (final_pid, k) \<Rightarrow>
                 if final_pid = Some (of_nat PID_MAXIMUM)
                 then let k = update_process temporary (\<lambda>p. p\<lparr>p_pid := of_nat PID_MAXIMUM, p_state := PROCESS_NEW\<rparr>) (clear_process temporary k)
                      in case allocate_pid k of (reused_pid, k) \<Rightarrow>
                           (case reused_pid of
                              None \<Rightarrow> False
                            | Some pid \<Rightarrow> pid \<noteq> 0 \<and> pid \<noteq> of_nat PID_MAXIMUM \<and> find_process_by_pid pid k = None,
                            kernel_irq_restore flags (clear_process temporary k\<lparr>next_pid := saved_next_pid\<rparr>))
                 else (False, kernel_irq_restore flags (k\<lparr>next_pid := saved_next_pid\<rparr>)))"

end
