(* ===== verification/Sched_Invariant.thy ===== *)
theory Sched_Invariant
  imports Scheduler
begin

text \<open>
  The process table keeps its invariant through every operation of the scheduler, and round robin reaches
  every ready process.
\<close>

subsection \<open>What leaves the process table alone\<close>

definition same_sched :: "kernel \<Rightarrow> kernel \<Rightarrow> bool" where
  "same_sched k k' \<longleftrightarrow> process_table k' = process_table k \<and> current_process k' = current_process k \<and>
     next_pid k' = next_pid k \<and> running k' = running k \<and> tick_count k' = tick_count k"

lemma same_schedD:
  assumes "same_sched k k'"
  shows "process_table k' = process_table k" "current_process k' = current_process k" "next_pid k' = next_pid k"
    "running k' = running k" "tick_count k' = tick_count k" "proc k' = proc k"
  using assms by (auto simp: same_sched_def proc_def)

lemma same_sched_refl [simp]: "same_sched k k"
  by (simp add: same_sched_def)

lemma same_sched_trans: "same_sched a b \<Longrightarrow> same_sched b c \<Longrightarrow> same_sched a c"
  by (simp add: same_sched_def)

lemma same_sched_with_machine [simp]: "same_sched k (with_machine m k)"
  by (simp add: same_sched_def with_machine_def)

lemma same_sched_irq_restore [simp]: "same_sched k (kernel_irq_restore flags k)"
  by (simp add: kernel_irq_restore_def)

lemma same_sched_irq_save: "kernel_irq_save k = (flags, k') \<Longrightarrow> same_sched k k'"
  by (auto simp: kernel_irq_save_def split: prod.splits)

lemma same_sched_on_machine: "on_machine f k = Some (r, k') \<Longrightarrow> same_sched k k'"
  by (auto simp: on_machine_def split: bind_splits)

lemma same_sched_on_heap: "on_heap f k = Some (r, k') \<Longrightarrow> same_sched k k'"
  by (auto simp: on_heap_def same_sched_def split: bind_splits)

lemma same_sched_activate: "activate_space d k = Some k' \<Longrightarrow> same_sched k k'"
  by (auto simp: activate_space_def split: bind_splits if_splits dest: same_sched_on_machine)

lemma same_sched_pmm_alloc: "kernel_pmm_alloc k = (a, k') \<Longrightarrow> same_sched k k'"
  by (auto simp: kernel_pmm_alloc_def split: prod.splits)

lemma same_sched_on_fs: "on_fs f k = (r, k') \<Longrightarrow> same_sched k k'"
  by (auto simp: on_fs_def same_sched_def with_machine_def split: prod.splits)

subsection \<open>Updates of the table\<close>

lemma process_table_update [simp]: "length (process_table (update_process i f k)) = length (process_table k)"
  by (simp add: update_process_def)

lemma update_process_fields [simp]:
  "current_process (update_process i f k) = current_process k" "next_pid (update_process i f k) = next_pid k"
  "running (update_process i f k) = running k" "tick_count (update_process i f k) = tick_count k"
  by (simp_all add: update_process_def)

lemma proc_update:
  assumes "i < length (process_table k)"
  shows "proc (update_process i f k) j = (if j = i then f (proc k i) else proc k j)"
  using assms by (auto simp: proc_def update_process_def nth_list_update)

lemma proc_simps [simp]:
  "proc (k\<lparr>current_process := c\<rparr>) = proc k" "proc (k\<lparr>running := r\<rparr>) = proc k" "proc (k\<lparr>next_pid := n\<rparr>) = proc k"
  "proc (k\<lparr>tick_count := t\<rparr>) = proc k" "proc (k\<lparr>tss_esp0 := e\<rparr>) = proc k" "proc (k\<lparr>vfs_busy := b\<rparr>) = proc k"
  by (auto simp: proc_def)

text \<open>A loop over the table whose test reads only the slot it is at.\<close>

lemma for_range_processes:
  assumes len: "length (process_table k) = n" and b: "b \<le> n" "a \<le> b"
    and P: "\<And>k i j. length (process_table k) = n \<Longrightarrow> i < n \<Longrightarrow> i \<noteq> j \<Longrightarrow> P (update_process i f k) j = P k j"
  defines "k' \<equiv> for_range a b (\<lambda>i k. if P k i then update_process i f k else k) k"
  shows "length (process_table k') = n" and "current_process k' = current_process k" "next_pid k' = next_pid k"
    "running k' = running k" "tick_count k' = tick_count k"
    and "proc k' i = (if a \<le> i \<and> i < b \<and> P k i then f (proc k i) else proc k i)"
    and "j \<ge> b \<Longrightarrow> P k' j = P k j"
proof -
  have "length (process_table k') = n \<and> current_process k' = current_process k \<and> next_pid k' = next_pid k \<and>
     running k' = running k \<and> tick_count k' = tick_count k \<and>
     (\<forall>i. proc k' i = (if a \<le> i \<and> i < b \<and> P k i then f (proc k i) else proc k i)) \<and> (\<forall>j\<ge>b. P k' j = P k j)"
    unfolding k'_def using b(2,1)
  proof (induction b rule: nat_induct_at_least)
    case base
    then show ?case using len by (auto simp: for_range_def)
  next
    case (Suc b)
    let ?k = "for_range a b (\<lambda>i k. if P k i then update_process i f k else k) k"
    have IH: "length (process_table ?k) = n" "current_process ?k = current_process k" "next_pid ?k = next_pid k"
      "running ?k = running k" "tick_count ?k = tick_count k"
      "\<And>i. proc ?k i = (if a \<le> i \<and> i < b \<and> P k i then f (proc k i) else proc k i)" "\<And>j. j \<ge> b \<Longrightarrow> P ?k j = P k j"
      using Suc by auto
    have last: "for_range a (Suc b) (\<lambda>i k. if P k i then update_process i f k else k) k =
        (if P k b then update_process b f ?k else ?k)"
      using Suc.hyps IH(7) [of b] by (simp add: for_range_last)
    show ?case
    proof (cases "P k b")
      case True
      have "P (update_process b f ?k) j = P k j" if "j \<ge> Suc b" for j
        using P [OF IH(1), of b j] IH(7) [of j] that Suc.prems by simp
      then show ?thesis
        using True IH Suc by (auto simp: last proc_update less_Suc_eq)
    next
      case False
      then show ?thesis using IH by (auto simp: last less_Suc_eq)
    qed
  qed
  then show "length (process_table k') = n" "current_process k' = current_process k" "next_pid k' = next_pid k"
    "running k' = running k" "tick_count k' = tick_count k"
    "proc k' i = (if a \<le> i \<and> i < b \<and> P k i then f (proc k i) else proc k i)" "j \<ge> b \<Longrightarrow> P k' j = P k j" by blast+
qed

lemma wake_waiting_parent_spec:
  assumes "length (process_table k) = 16"
  shows "length (process_table (wake_waiting_parent c k)) = 16"
    and "current_process (wake_waiting_parent c k) = current_process k" "next_pid (wake_waiting_parent c k) = next_pid k"
      "running (wake_waiting_parent c k) = running k" "tick_count (wake_waiting_parent c k) = tick_count k"
    and "i < 16 \<Longrightarrow> proc (wake_waiting_parent c k) i =
      (if wakes c k i then (proc k i)\<lparr>wait_node := None, p_state := PROCESS_READY\<rparr> else proc k i)"
proof -
  have P: "wakes c (update_process i (\<lambda>p. p\<lparr>wait_node := None, p_state := PROCESS_READY\<rparr>) k) j = wakes c k j"
    if "length (process_table k) = 16" "i < 16" "i \<noteq> j" for k i j
    using that by (auto simp: wakes_def proc_update)
  note f = for_range_processes [OF assms order_refl, of 0 "wakes c" "\<lambda>p. p\<lparr>wait_node := None, p_state := PROCESS_READY\<rparr>", OF _ P]
  show "length (process_table (wake_waiting_parent c k)) = 16"
    "current_process (wake_waiting_parent c k) = current_process k" "next_pid (wake_waiting_parent c k) = next_pid k"
    "running (wake_waiting_parent c k) = running k" "tick_count (wake_waiting_parent c k) = tick_count k"
    "i < 16 \<Longrightarrow> proc (wake_waiting_parent c k) i =
      (if wakes c k i then (proc k i)\<lparr>wait_node := None, p_state := PROCESS_READY\<rparr> else proc k i)"
    unfolding wake_waiting_parent_def using f by simp_all
qed

lemma wake_sleepers_spec:
  assumes "length (process_table k) = 16"
  shows "length (process_table (wake_sleepers k)) = 16"
    and "current_process (wake_sleepers k) = current_process k" "next_pid (wake_sleepers k) = next_pid k"
      "running (wake_sleepers k) = running k" "tick_count (wake_sleepers k) = tick_count k"
    and "i < 16 \<Longrightarrow> proc (wake_sleepers k) i =
      (if 1 \<le> i \<and> sleep_over k i then (proc k i)\<lparr>wake_tick := 0, p_state := PROCESS_READY\<rparr> else proc k i)"
proof -
  have P: "sleep_over (update_process i (\<lambda>p. p\<lparr>wake_tick := 0, p_state := PROCESS_READY\<rparr>) k) j = sleep_over k j"
    if "length (process_table k) = 16" "i < 16" "i \<noteq> j" for k i j
    using that by (auto simp: sleep_over_def proc_update)
  note f = for_range_processes [OF assms order_refl, of 1 sleep_over "\<lambda>p. p\<lparr>wake_tick := 0, p_state := PROCESS_READY\<rparr>", OF _ P]
  show "length (process_table (wake_sleepers k)) = 16"
    "current_process (wake_sleepers k) = current_process k" "next_pid (wake_sleepers k) = next_pid k"
    "running (wake_sleepers k) = running k" "tick_count (wake_sleepers k) = tick_count k"
    "i < 16 \<Longrightarrow> proc (wake_sleepers k) i =
      (if 1 \<le> i \<and> sleep_over k i then (proc k i)\<lparr>wake_tick := 0, p_state := PROCESS_READY\<rparr> else proc k i)"
    unfolding wake_sleepers_def using f by simp_all
qed

subsection \<open>What changes descriptors only\<close>

definition same_slots :: "kernel \<Rightarrow> kernel \<Rightarrow> bool" where
  "same_slots k k' \<longleftrightarrow> length (process_table k') = length (process_table k) \<and> current_process k' = current_process k \<and>
     next_pid k' = next_pid k \<and> running k' = running k \<and> tick_count k' = tick_count k \<and>
     (\<forall>i. \<exists>t. proc k' i = (proc k i)\<lparr>fd_table := t\<rparr>)"

lemma same_sched_slots: "same_sched k k' \<Longrightarrow> same_slots k k'"
proof -
  assume s: "same_sched k k'"
  have "proc k' i = (proc k i)\<lparr>fd_table := fd_table (proc k i)\<rparr>" for i using same_schedD(6) [OF s] by simp
  then have "\<forall>i. \<exists>t. proc k' i = (proc k i)\<lparr>fd_table := t\<rparr>" by blast
  then show "same_slots k k'" using same_schedD(1-5) [OF s] by (simp add: same_slots_def)
qed

lemma same_slots_refl [simp]: "same_slots k k"
  by (rule same_sched_slots) simp

lemma same_slots_trans:
  assumes "same_slots a b" and "same_slots b c"
  shows "same_slots a c"
proof -
  have "\<exists>t. proc c i = (proc a i)\<lparr>fd_table := t\<rparr>" for i
  proof -
    obtain t u where "proc b i = (proc a i)\<lparr>fd_table := t\<rparr>" "proc c i = (proc b i)\<lparr>fd_table := u\<rparr>"
      using assms unfolding same_slots_def by metis
    then show ?thesis by auto
  qed
  then show ?thesis using assms by (simp add: same_slots_def)
qed

lemma same_slots_fd: "same_slots k (update_current (\<lambda>p. p\<lparr>fd_table := f p\<rparr>) k)"
proof -
  have "\<exists>t. proc (update_current (\<lambda>p. p\<lparr>fd_table := f p\<rparr>) k) i = (proc k i)\<lparr>fd_table := t\<rparr>" for i
  proof (cases "current_process k < length (process_table k) \<and> i = current_process k")
    case True
    then show ?thesis by (auto simp: update_current_def proc_update)
  next
    case False
    then have "proc (update_current (\<lambda>p. p\<lparr>fd_table := f p\<rparr>) k) i = proc k i"
      by (cases "current_process k < length (process_table k)")
        (auto simp: update_current_def proc_update, simp add: update_process_def proc_def list_update_beyond)
    then show ?thesis by (auto intro: exI [of _ "fd_table (proc k i)"])
  qed
  then show ?thesis by (simp add: same_slots_def update_current_def)
qed

lemma same_sched_file [simp]: "same_sched k (update_file i f k)" "same_sched k (clear_file i k)" "same_sched k (drop_reference i k)"
  by (simp_all add: same_sched_def update_file_def clear_file_def drop_reference_def Let_def)

lemma same_slots_irq:
  "same_slots k (kernel_irq_restore flags k)" "kernel_irq_save k = (flags, k') \<Longrightarrow> same_slots k k'"
  by (auto intro: same_sched_slots same_sched_irq_save)

lemma same_slots_acquire: "vfs_acquire k = (r, k') \<Longrightarrow> same_slots k k'"
  by (auto simp: vfs_acquire_def same_sched_def kernel_irq_restore_def with_machine_def split: prod.splits if_splits
      intro!: same_sched_slots dest!: same_sched_irq_save)

lemma same_slots_release: "same_slots k (vfs_release flags k)"
  by (rule same_sched_slots) (simp add: vfs_release_def same_sched_def kernel_irq_restore_def with_machine_def)

lemma same_slots_fd_remove: "scheduler_fd_remove d k = (h, k') \<Longrightarrow> same_slots k k'"
  by (auto simp: scheduler_fd_remove_def split: prod.splits if_splits
      intro: same_slots_trans [OF same_slots_irq(2) same_slots_trans [OF same_slots_fd same_slots_irq(1)]])

lemma same_slots_fd_get: "scheduler_fd_get d k = (h, k') \<Longrightarrow> same_slots k k'"
  by (auto simp: scheduler_fd_get_def split: prod.splits if_splits intro: same_slots_trans [OF same_slots_irq(2) same_slots_irq(1)])

lemma same_slots_close:
  assumes "vfs_close d k = (r, k')"
  shows "same_slots k k'"
proof (cases "vfs_initialized k")
  case True
  obtain l k1 where l: "vfs_acquire k = (l, k1)" by fastforce
  note s1 = same_slots_acquire [OF l]
  show ?thesis
  proof (cases l)
    case None
    then show ?thesis using assms True l s1 by (simp add: vfs_close_def)
  next
    case (Some flags)
    obtain h k2 where h: "scheduler_fd_remove d k1 = (h, k2)" by fastforce
    note s2 = same_slots_trans [OF s1 same_slots_fd_remove [OF h]]
    show ?thesis
    proof (cases "file_from_handle h k2")
      case None
      then show ?thesis using assms True l Some h same_slots_trans [OF s2 same_slots_release] by (auto simp: vfs_close_def)
    next
      case f: (Some i)
      have "k' = vfs_release flags (drop_reference i k2)" using assms True l Some h f by (simp add: vfs_close_def)
      then show ?thesis
        using same_slots_trans [OF s2 same_slots_trans [OF same_sched_slots [OF same_sched_file(3)] same_slots_release]] by simp
    qed
  qed
qed (use assms in \<open>simp add: vfs_close_def\<close>)

lemma same_slots_close_all: "same_slots k (vfs_close_all_current k)"
proof -
  let ?body = "\<lambda>descriptor k. case scheduler_fd_get (int descriptor) k of (handle, k) \<Rightarrow>
    if handle \<noteq> None then snd (vfs_close (int descriptor) k) else k"
  have body: "same_slots k (?body d k)" for d k
    by (auto split: prod.splits intro: same_slots_fd_get same_slots_trans [OF same_slots_fd_get same_slots_close]
        simp: prod_eq_iff)
  have "same_slots k (for_range 3 16 ?body k)"
  proof (rule for_range_rule [where I = "\<lambda>_ s. same_slots k s"])
    show "same_slots k (?body i s)" if "same_slots k s" for i s by (rule same_slots_trans [OF that body])
  qed simp_all
  then show ?thesis by (simp add: vfs_close_all_current_def)
qed

subsection \<open>The invariant\<close>

definition live :: "kernel \<Rightarrow> nat \<Rightarrow> bool" where
  "live k i \<longleftrightarrow> p_state (proc k i) \<noteq> PROCESS_UNUSED"

text \<open>
  The table between and inside operations: process numbers are unique and below the next new one, and whoever is
  ready or blocked has a context to continue in that is not the end of an exit.
\<close>

definition pids_ok :: "kernel \<Rightarrow> bool" where
  "pids_ok k \<longleftrightarrow> unat (next_pid k) \<le> PID_MAXIMUM \<and>
     (\<forall>i<16. live k i \<longrightarrow> unat (p_pid (proc k i)) \<le> PID_MAXIMUM \<and> (next_pid k = 0 \<or> p_pid (proc k i) < next_pid k)) \<and>
     (\<forall>i<16. \<forall>j<16. live k i \<longrightarrow> live k j \<longrightarrow> p_pid (proc k i) = p_pid (proc k j) \<longrightarrow> i = j)"

definition slots_ok :: "kernel \<Rightarrow> bool" where
  "slots_ok k \<longleftrightarrow> length (process_table k) = 16 \<and> current_process k < 16 \<and> live k 0 \<and> pids_ok k \<and>
     (\<forall>i<16. p_state (proc k i) \<noteq> PROCESS_NEW \<and> p_state (proc k i) \<noteq> PROCESS_REAPED) \<and>
     (\<forall>i<16. i \<noteq> current_process k \<longrightarrow> p_state (proc k i) \<in> {PROCESS_READY, PROCESS_BLOCKED} \<longrightarrow>
        (\<exists>c. saved_stack (proc k i) = Some c \<and> c \<noteq> In_Exit))"

text \<open>Between operations exactly the current process is running, with one to five ticks left of its time slice.\<close>

definition time_left :: "kernel \<Rightarrow> nat" where
  "time_left k = unat (time_slice (proc k (current_process k)))"

definition sched_inv :: "kernel \<Rightarrow> bool" where
  "sched_inv k \<longleftrightarrow> slots_ok k \<and> (\<forall>i<16. p_state (proc k i) = PROCESS_RUNNING \<longleftrightarrow> i = current_process k) \<and>
     running k \<noteq> Some In_Exit \<and> 0 < time_left k \<and> time_left k \<le> 5"

definition none_running :: "kernel \<Rightarrow> bool" where
  "none_running k \<longleftrightarrow> (\<forall>i<16. p_state (proc k i) \<noteq> PROCESS_RUNNING)"

lemma slots_okD:
  assumes "slots_ok k"
  shows "length (process_table k) = 16" "current_process k < 16" "current_process k < length (process_table k)" "live k 0" "pids_ok k"
    "i < 16 \<Longrightarrow> p_state (proc k i) \<noteq> PROCESS_NEW" "i < 16 \<Longrightarrow> p_state (proc k i) \<noteq> PROCESS_REAPED"
    "i < 16 \<Longrightarrow> i \<noteq> current_process k \<Longrightarrow> p_state (proc k i) \<in> {PROCESS_READY, PROCESS_BLOCKED} \<Longrightarrow>
      \<exists>c. saved_stack (proc k i) = Some c \<and> c \<noteq> In_Exit"
  using assms by (auto simp: slots_ok_def)

lemma sched_invD:
  assumes "sched_inv k"
  shows "slots_ok k" "p_state (proc k (current_process k)) = PROCESS_RUNNING"
    "i < 16 \<Longrightarrow> i \<noteq> current_process k \<Longrightarrow> p_state (proc k i) \<noteq> PROCESS_RUNNING" "running k \<noteq> Some In_Exit"
    "0 < time_left k" "time_left k \<le> 5"
  using assms slots_okD(2) by (auto simp: sched_inv_def)

lemma pids_frame:
  assumes "pids_ok k" and "next_pid k' = next_pid k"
    and "\<And>i. i < 16 \<Longrightarrow> live k' i \<Longrightarrow> live k i \<and> p_pid (proc k' i) = p_pid (proc k i)"
  shows "pids_ok k'"
  using assms unfolding pids_ok_def by (smt (verit))

text \<open>A change of the slots that starts and ends none and keeps the contexts.\<close>

lemma slots_frame:
  assumes ok: "slots_ok k" and f: "length (process_table k') = 16" "current_process k' = current_process k" "next_pid k' = next_pid k"
    and p: "\<And>i. i < 16 \<Longrightarrow> p_pid (proc k' i) = p_pid (proc k i) \<and> saved_stack (proc k' i) = saved_stack (proc k i)"
    and s: "\<And>i. i < 16 \<Longrightarrow> p_state (proc k' i) = p_state (proc k i) \<or>
      i = current_process k \<and> p_state (proc k' i) \<notin> {PROCESS_UNUSED, PROCESS_NEW, PROCESS_REAPED} \<and> live k i \<or>
      p_state (proc k i) = PROCESS_BLOCKED \<and> p_state (proc k' i) = PROCESS_READY"
  shows "slots_ok k'"
proof -
  note o = slots_okD [OF ok]
  have live: "live k' i = live k i" if "i < 16" for i using s [OF that] by (auto simp: live_def)
  have "pids_ok k'" using pids_frame [OF o(5) f(3)] live p by blast
  moreover have "p_state (proc k' i) \<noteq> PROCESS_NEW \<and> p_state (proc k' i) \<noteq> PROCESS_REAPED" if "i < 16" for i
    using s [OF that] o(6,7) [OF that] by auto
  moreover have "\<exists>c. saved_stack (proc k' i) = Some c \<and> c \<noteq> In_Exit"
    if "i < 16" "i \<noteq> current_process k" "p_state (proc k' i) \<in> {PROCESS_READY, PROCESS_BLOCKED}" for i
    using s [OF that(1)] o(8) [OF that(1,2)] that p [OF that(1)] by auto
  ultimately show ?thesis using f o(2,4) live [of 0] by (simp add: slots_ok_def)
qed

lemma slots_same: "slots_ok k \<Longrightarrow> same_slots k k' \<Longrightarrow> slots_ok k'"
proof (rule slots_frame)
  assume ok: "slots_ok k" and s: "same_slots k k'"
  have e: "\<exists>t. proc k' i = (proc k i)\<lparr>fd_table := t\<rparr>" for i using s by (simp add: same_slots_def)
  show "p_pid (proc k' i) = p_pid (proc k i) \<and> saved_stack (proc k' i) = saved_stack (proc k i)"
    "p_state (proc k' i) = p_state (proc k i) \<or>
      i = current_process k \<and> p_state (proc k' i) \<notin> {PROCESS_UNUSED, PROCESS_NEW, PROCESS_REAPED} \<and> live k i \<or>
      p_state (proc k i) = PROCESS_BLOCKED \<and> p_state (proc k' i) = PROCESS_READY" for i
    using e [of i] by auto
qed (auto simp: same_slots_def slots_ok_def)

lemma same_slots_state: "same_slots k k' \<Longrightarrow> p_state (proc k' i) = p_state (proc k i)"
  unfolding same_slots_def by (metis process.select_convs(2) process.surjective process.update_convs(12))

lemma same_slots_slice:
  assumes s: "same_slots k k'"
  shows "time_left k' = time_left k"
proof -
  obtain t where "proc k' (current_process k) = (proc k (current_process k))\<lparr>fd_table := t\<rparr>" using s by (auto simp: same_slots_def)
  then show ?thesis using s by (simp add: time_left_def same_slots_def)
qed

lemma sched_inv_same: "sched_inv k \<Longrightarrow> same_slots k k' \<Longrightarrow> sched_inv k'"
  using slots_same [of k k'] same_slots_state [of k k'] same_slots_slice [of k k'] by (auto simp: sched_inv_def same_slots_def)

text \<open>The current process changes its own state.\<close>

lemma slots_update_current:
  assumes ok: "slots_ok k" and live: "live k (current_process k)"
    and f: "\<And>p. p_pid (f p) = p_pid p" "\<And>p. saved_stack (f p) = saved_stack p"
      "\<And>p. p_state (f p) \<notin> {PROCESS_UNUSED, PROCESS_NEW, PROCESS_REAPED}"
  shows "slots_ok (update_current f k)"
proof (rule slots_frame [OF ok])
  note o = slots_okD [OF ok]
  show "p_pid (proc (update_current f k) i) = p_pid (proc k i) \<and> saved_stack (proc (update_current f k) i) = saved_stack (proc k i)"
    "p_state (proc (update_current f k) i) = p_state (proc k i) \<or>
      i = current_process k \<and> p_state (proc (update_current f k) i) \<notin> {PROCESS_UNUSED, PROCESS_NEW, PROCESS_REAPED} \<and> live k i \<or>
      p_state (proc k i) = PROCESS_BLOCKED \<and> p_state (proc (update_current f k) i) = PROCESS_READY" for i
    using f live by (auto simp: update_current_def proc_update [OF o(3)])
qed (use slots_okD [OF ok] in \<open>simp_all add: update_current_def\<close>)

subsection \<open>Choosing and switching\<close>

text \<open>The number of slots from \<open>c\<close> forward to \<open>i\<close>, from 1 to 16.\<close>

definition ahead :: "nat \<Rightarrow> nat \<Rightarrow> nat" where
  "ahead c i = (if c < i then i - c else i + 16 - c)"

lemma ahead_slot:
  assumes "c < 16" and "i < 16"
  shows "1 \<le> ahead c i" "ahead c i \<le> 16" "(c + ahead c i) mod 16 = i"
  using assms by (auto simp: ahead_def mod_if)

lemma ahead_eq: "c < 16 \<Longrightarrow> 1 \<le> o' \<Longrightarrow> o' \<le> 16 \<Longrightarrow> ahead c ((c + o') mod 16) = o'"
  by (auto simp: ahead_def mod_if)

lemma find_next_ready_Some:
  assumes "find_next_ready c k = Some n" and c: "c < 16"
  shows "n < 16" "p_state (proc k n) = PROCESS_READY"
    "\<And>i. i < 16 \<Longrightarrow> p_state (proc k i) = PROCESS_READY \<Longrightarrow> ahead c n \<le> ahead c i"
proof -
  from assms(1) obtain d where d: "n = (c + d) mod 16" "1 \<le> d" "d < 17" "p_state (proc k n) = PROCESS_READY"
    "\<And>j. 1 \<le> j \<Longrightarrow> j < d \<Longrightarrow> p_state (proc k ((c + j) mod 16)) \<noteq> PROCESS_READY"
    unfolding find_next_ready_def by (auto simp: for_find_Some_iff)
  show "n < 16" "p_state (proc k n) = PROCESS_READY" using d by simp_all
  show "ahead c n \<le> ahead c i" if "i < 16" "p_state (proc k i) = PROCESS_READY" for i
    using d(5) [of "ahead c i"] ahead_slot [OF c that(1)] that(2) ahead_eq [OF c d(2)] d(1,3) by (cases "ahead c i < d") auto
qed

lemma find_next_ready_None:
  assumes "find_next_ready c k = None" and "c < 16" and "i < 16"
  shows "p_state (proc k i) \<noteq> PROCESS_READY"
  using assms ahead_slot [OF assms(2,3)] unfolding find_next_ready_def
  by (auto simp: for_find_None_iff dest: spec [of _ "ahead c i"])

lemma find_next_ready_cong:
  assumes "\<And>i. i < 16 \<Longrightarrow> p_state (proc k i) = PROCESS_READY \<longleftrightarrow> p_state (proc k' i) = PROCESS_READY"
  shows "find_next_ready c k = find_next_ready c k'"
  using assms by (simp add: find_next_ready_def)

lemma switch_to_spec:
  assumes sw: "switch_to here n k = Some k'" and len: "length (process_table k) = 16" "current_process k < 16" "n < 16"
    and ne: "n \<noteq> current_process k"
  shows "length (process_table k') = 16" "current_process k' = n" "next_pid k' = next_pid k" "tick_count k' = tick_count k"
    "running k' = saved_stack (proc k n)"
    "proc k' i = (if i = n then (proc k n)\<lparr>p_state := PROCESS_RUNNING, time_slice := DEFAULT_TIME_SLICE\<rparr>
       else if i = current_process k then (proc k i)\<lparr>saved_stack := Some here\<rparr> else proc k i)"
proof -
  obtain k1 where k1: "activate_space (page_directory (proc k n)) k = Some k1"
    using sw by (auto simp: switch_to_def split: bind_splits)
  note s = same_schedD [OF same_sched_activate [OF k1]]
  let ?u = "\<lambda>p. p\<lparr>p_state := PROCESS_RUNNING, time_slice := DEFAULT_TIME_SLICE\<rparr>"
  define k2 where "k2 = update_process n ?u (k1\<lparr>current_process := n\<rparr>)"
  have l: "n < length (process_table (k1\<lparr>current_process := n\<rparr>))" using len s by simp
  note p2 = proc_update [OF l, of ?u, folded k2_def]
  obtain e where k': "k' = update_process (current_process k) (\<lambda>p. p\<lparr>saved_stack := Some here\<rparr>)
      (k2\<lparr>tss_esp0 := e, running := saved_stack (proc (k2\<lparr>tss_esp0 := e\<rparr>) n)\<rparr>)"
    using sw k1 s(2) by (auto simp: switch_to_def Let_def gdt_set_kernel_stack_def k2_def split: if_splits)
  have l2: "current_process k < length (process_table (k2\<lparr>tss_esp0 := e, running := saved_stack (proc (k2\<lparr>tss_esp0 := e\<rparr>) n)\<rparr>))"
    using len s by (simp add: k2_def)
  show "length (process_table k') = 16" "current_process k' = n" "next_pid k' = next_pid k" "tick_count k' = tick_count k"
    using len s by (simp_all add: k' k2_def)
  show "running k' = saved_stack (proc k n)" using s by (simp add: k' p2)
  show "proc k' i = (if i = n then (proc k n)\<lparr>p_state := PROCESS_RUNNING, time_slice := DEFAULT_TIME_SLICE\<rparr>
       else if i = current_process k then (proc k i)\<lparr>saved_stack := Some here\<rparr> else proc k i)"
    unfolding k' proc_update [OF l2] using ne s by (simp add: p2)
qed

lemma switch_inv:
  assumes ok: "slots_ok k" and none: "none_running k" and n: "n < 16" "p_state (proc k n) = PROCESS_READY" "n \<noteq> current_process k"
    and here: "here = In_Exit \<Longrightarrow> p_state (proc k (current_process k)) = PROCESS_ZOMBIE"
    and sw: "switch_to here n k = Some k'"
  shows "sched_inv k'"
proof -
  note o = slots_okD [OF ok]
  note w = switch_to_spec [OF sw o(1,2) n(1,3)]
  have st: "p_state (proc k' i) = (if i = n then PROCESS_RUNNING else p_state (proc k i))" for i by (simp add: w(6))
  have "pids_ok k'" using n(2) by (intro pids_frame [OF o(5) w(3)]) (auto simp: w(6) live_def)
  moreover have "\<exists>c. saved_stack (proc k' i) = Some c \<and> c \<noteq> In_Exit"
    if "i < 16" "i \<noteq> n" "p_state (proc k' i) \<in> {PROCESS_READY, PROCESS_BLOCKED}" for i
    using that o(8) [OF that(1)] here by (cases "i = current_process k") (auto simp: w(6))
  moreover have "p_state (proc k' i) \<noteq> PROCESS_NEW \<and> p_state (proc k' i) \<noteq> PROCESS_REAPED" if "i < 16" for i
    using o(6,7) [OF that] by (simp add: st)
  ultimately have "slots_ok k'" using w(1,2) n(1) o(4) by (auto simp: slots_ok_def live_def st)
  moreover have "running k' \<noteq> Some In_Exit" using o(8) [OF n(1,3)] n(2) w(5) by auto
  moreover have "p_state (proc k' i) = PROCESS_RUNNING \<longleftrightarrow> i = current_process k'" if "i < 16" for i
    using none that by (auto simp: st w(2) none_running_def)
  moreover have "time_left k' = 5" by (simp add: time_left_def w(2,6))
  ultimately show ?thesis by (simp add: sched_inv_def)
qed

text \<open>The running process stops running.\<close>

lemma stop_current:
  assumes inv: "sched_inv k" and f: "\<And>p. p_pid (f p) = p_pid p" "\<And>p. saved_stack (f p) = saved_stack p"
      "\<And>p. p_state (f p) = s" and s: "s \<in> {PROCESS_READY, PROCESS_BLOCKED, PROCESS_ZOMBIE}"
  shows "slots_ok (update_current f k)" "none_running (update_current f k)"
    "i < 16 \<Longrightarrow> i \<noteq> current_process k \<Longrightarrow> proc (update_current f k) i = proc k i"
    "proc (update_current f k) (current_process k) = f (proc k (current_process k))"
    "current_process (update_current f k) = current_process k"
proof -
  note i = sched_invD [OF inv]
  note o = slots_okD [OF i(1)]
  note p = proc_update [OF o(3), of f]
  show "slots_ok (update_current f k)"
    using i(2) f s by (intro slots_update_current [OF i(1)]) (auto simp: live_def)
  show "none_running (update_current f k)"
    using i(3) f(3) s by (auto simp: none_running_def update_current_def p)
  show "i < 16 \<Longrightarrow> i \<noteq> current_process k \<Longrightarrow> proc (update_current f k) i = proc k i"
    "proc (update_current f k) (current_process k) = f (proc k (current_process k))"
    "current_process (update_current f k) = current_process k"
    by (simp_all add: update_current_def p)
qed

subsection \<open>Steps of the scheduler\<close>

text \<open>
  What every operation does: it keeps the invariant, and a ready process is chosen, or stays ready and comes
  nearer to its turn whenever another one is chosen. As long as no other one is chosen the time slice does not grow.
\<close>

definition nearer :: "kernel \<Rightarrow> kernel \<Rightarrow> nat \<Rightarrow> bool" where
  "nearer k k' i \<longleftrightarrow> current_process k' = i \<or> p_state (proc k' i) = PROCESS_READY \<and>
     (current_process k' = current_process k \<and> time_left k' \<le> time_left k \<or> ahead (current_process k') i < ahead (current_process k) i)"

definition serves :: "kernel \<Rightarrow> kernel \<Rightarrow> bool" where
  "serves k k' \<longleftrightarrow> sched_inv k' \<and> (\<forall>i<16. p_state (proc k i) = PROCESS_READY \<longrightarrow> nearer k k' i)"

text \<open>
  Apart from the timer interrupt an operation lets no time pass and leaves every sleeping process asleep, with the same
  process number and until the same tick.
\<close>

definition asleep :: "kernel \<Rightarrow> nat \<Rightarrow> bool" where
  "asleep k i \<longleftrightarrow> p_state (proc k i) = PROCESS_BLOCKED \<and> wait_node (proc k i) = None"

definition undisturbed :: "kernel \<Rightarrow> kernel \<Rightarrow> bool" where
  "undisturbed k k' \<longleftrightarrow> tick_count k' = tick_count k \<and> (\<forall>i<16. asleep k i \<longrightarrow>
     asleep k' i \<and> wake_tick (proc k' i) = wake_tick (proc k i) \<and> p_pid (proc k' i) = p_pid (proc k i))"

definition moves :: "kernel \<Rightarrow> kernel \<Rightarrow> bool" where
  "moves k k' \<longleftrightarrow> serves k k' \<and> undisturbed k k'"

lemma undisturbed_trans: "undisturbed a b \<Longrightarrow> undisturbed b c \<Longrightarrow> undisturbed a c"
  by (simp add: undisturbed_def)

lemma undisturbed_same: "same_slots k k' \<Longrightarrow> undisturbed k k'"
proof -
  assume s: "same_slots k k'"
  have "asleep k' i = asleep k i \<and> wake_tick (proc k' i) = wake_tick (proc k i) \<and> p_pid (proc k' i) = p_pid (proc k i)" for i
  proof -
    obtain t where "proc k' i = (proc k i)\<lparr>fd_table := t\<rparr>" using s by (auto simp: same_slots_def)
    then show ?thesis by (simp add: asleep_def)
  qed
  then show ?thesis using s by (simp add: undisturbed_def same_slots_def)
qed

lemma undisturbed_but:
  assumes "tick_count k' = tick_count k" and "p_state (proc k j) \<noteq> PROCESS_BLOCKED" and "\<And>i. i < 16 \<Longrightarrow> i \<noteq> j \<Longrightarrow> proc k' i = proc k i"
  shows "undisturbed k k'"
  unfolding undisturbed_def using assms(1,2) by (metis asleep_def assms(3))

lemma undisturbed_current:
  assumes "sched_inv k"
  shows "undisturbed k (update_current f k)"
  by (rule undisturbed_but [where j = "current_process k"])
    (use sched_invD(2) [OF assms] in \<open>simp_all add: update_current_def proc_update [OF slots_okD(3) [OF sched_invD(1) [OF assms]]]\<close>)

lemma undisturbed_switch:
  assumes "switch_to here n k = Some k'" "length (process_table k) = 16" "current_process k < 16" "n < 16" "n \<noteq> current_process k"
    and "p_state (proc k n) = PROCESS_READY"
  shows "undisturbed k k'"
  using switch_to_spec(4,6) [OF assms(1-5)] assms(6) by (auto simp: undisturbed_def asleep_def)

lemma moves_stay:
  assumes "sched_inv k'" and "current_process k' = current_process k" and "undisturbed k k'"
    and "\<And>i. i < 16 \<Longrightarrow> p_state (proc k i) = PROCESS_READY \<Longrightarrow> p_state (proc k' i) = PROCESS_READY"
    and "\<And>i. i < 16 \<Longrightarrow> p_state (proc k i) = PROCESS_READY \<Longrightarrow> time_left k' \<le> time_left k"
  shows "moves k k'"
  using assms by (auto simp: moves_def serves_def nearer_def)

lemma moves_same:
  assumes inv: "sched_inv k" and s: "same_slots k k'"
  shows "moves k k'"
  by (rule moves_stay [OF sched_inv_same [OF inv s] _ undisturbed_same [OF s]])
    (use s same_slots_state [OF s] same_slots_slice [OF s] in \<open>simp_all add: same_slots_def\<close>)

lemma ahead_less:
  assumes "c < 16" "n < 16" "i < 16" "ahead c n \<le> ahead c i" "n \<noteq> i"
  shows "ahead n i < ahead c i"
  using assms by (auto simp: ahead_def split: if_splits)

lemma moves_switch:
  assumes c: "current_process k1 = current_process k" and u: "undisturbed k k1" and ok: "slots_ok k1" "none_running k1"
    and ready: "\<And>i. i < 16 \<Longrightarrow> p_state (proc k i) = PROCESS_READY \<Longrightarrow> p_state (proc k1 i) = PROCESS_READY"
    and n: "find_next_ready (current_process k) k1 = Some n" "n \<noteq> current_process k"
    and here: "here = In_Exit \<Longrightarrow> p_state (proc k1 (current_process k)) = PROCESS_ZOMBIE"
    and sw: "switch_to here n k1 = Some k'"
  shows "moves k k'"
proof -
  note o = slots_okD [OF ok(1)]
  have c16: "current_process k < 16" using o(2) c by simp
  note f = find_next_ready_Some [OF n(1) c16]
  have ne: "n \<noteq> current_process k1" using n(2) c by simp
  note w = switch_to_spec [OF sw o(1,2) f(1) ne]
  have "sched_inv k'" using here c by (intro switch_inv [OF ok f(1,2) ne _ sw]) simp
  moreover have "nearer k k' i" if i: "i < 16" "p_state (proc k i) = PROCESS_READY" for i
    using w(2,6) ahead_less [OF c16 f(1) i(1) f(3) [OF i(1) ready [OF i]]] ready [OF i] by (auto simp: nearer_def)
  moreover have "undisturbed k k'" by (rule undisturbed_trans [OF u undisturbed_switch [OF sw o(1,2) f(1) ne f(2)]])
  ultimately show ?thesis by (simp add: moves_def serves_def)
qed

lemma same_slots_current: "same_slots k k' \<Longrightarrow> current_process k' = current_process k"
  by (simp add: same_slots_def)

lemma serves_pre:
  assumes m: "serves k1 k'" and c: "current_process k1 = current_process k" "time_left k1 = time_left k"
    and r: "\<And>i. i < 16 \<Longrightarrow> p_state (proc k i) = PROCESS_READY \<Longrightarrow> p_state (proc k1 i) = PROCESS_READY"
  shows "serves k k'"
  using m r by (simp add: serves_def nearer_def c)

lemma moves_pre:
  assumes "moves k1 k'" and "undisturbed k k1" and "current_process k1 = current_process k" "time_left k1 = time_left k"
    and "\<And>i. i < 16 \<Longrightarrow> p_state (proc k i) = PROCESS_READY \<Longrightarrow> p_state (proc k1 i) = PROCESS_READY"
  shows "moves k k'"
  using assms serves_pre [of k1 k' k] undisturbed_trans by (auto simp: moves_def)

lemma moves_before:
  assumes s: "same_slots k k1" and m: "moves k1 k'"
  shows "moves k k'"
  by (rule moves_pre [OF m undisturbed_same [OF s]]) (simp_all add: same_slots_state [OF s] same_slots_current [OF s] same_slots_slice [OF s])

lemma moves_after:
  assumes m: "moves k k1" and s: "same_slots k1 k'"
  shows "moves k k'"
  using m undisturbed_trans [OF _ undisturbed_same [OF s]]
  by (simp add: moves_def serves_def nearer_def same_slots_state [OF s] same_slots_current [OF s] same_slots_slice [OF s] sched_inv_same [OF _ s])

lemma update_current_twice:
  "current_process k < length (process_table k) \<Longrightarrow> update_current f (update_current g k) = update_current (\<lambda>p. f (g p)) k"
  by (simp add: update_current_def update_process_def)

text \<open>The running process changes and goes on running.\<close>

lemma keeps_running:
  assumes inv: "sched_inv k" and f: "\<And>p. p_pid (f p) = p_pid p" "\<And>p. saved_stack (f p) = saved_stack p"
    "\<And>p. p_state p = PROCESS_RUNNING \<Longrightarrow> p_state (f p) = PROCESS_RUNNING"
    and t: "0 < time_left (update_current f k)" "time_left (update_current f k) \<le> 5"
      "\<And>i. i < 16 \<Longrightarrow> p_state (proc k i) = PROCESS_READY \<Longrightarrow> time_left (update_current f k) \<le> time_left k"
  shows "moves k (update_current f k)"
proof -
  note i = sched_invD [OF inv]
  note o = slots_okD [OF i(1)]
  have p: "proc (update_current f k) j = (if j = current_process k then f (proc k j) else proc k j)" for j
    by (simp add: update_current_def proc_update [OF o(3)])
  have st: "p_state (proc (update_current f k) j) = p_state (proc k j)" for j using f(3) i(2) by (simp add: p)
  have "slots_ok (update_current f k)"
    by (rule slots_frame [OF i(1)]) (use f o(1) st in \<open>simp_all add: p\<close>, simp_all add: update_current_def)
  then have "sched_inv (update_current f k)" using inv t(1,2) by (simp add: sched_inv_def st) (simp add: update_current_def)
  then show ?thesis by (rule moves_stay [OF _ _ undisturbed_current [OF inv]]) (use t(3) in \<open>simp_all add: st\<close>, simp add: update_current_def)
qed

lemma slice_update: "sched_inv k \<Longrightarrow> time_left (update_current f k) = unat (time_slice (f (proc k (current_process k))))"
  by (simp add: time_left_def update_current_def proc_update [OF slots_okD(3) [OF sched_invD(1)]])

lemma same_slice:
  assumes inv: "sched_inv k" and "\<And>p. time_slice (f p) = time_slice p"
  shows "0 < time_left (update_current f k)" "time_left (update_current f k) \<le> 5" "time_left (update_current f k) \<le> time_left k"
  using sched_invD(5,6) [OF inv] assms(2) by (simp_all add: slice_update [OF inv]) (simp_all add: time_left_def)

text \<open>The running process steps down for the next ready one, unless it is itself the next.\<close>

lemma steps_down:
  assumes inv: "sched_inv k" and f: "\<And>p. p_pid (f p) = p_pid p" "\<And>p. saved_stack (f p) = saved_stack p" "\<And>p. p_state (f p) = s"
      "s \<in> {PROCESS_READY, PROCESS_BLOCKED}"
    and n: "find_next_ready (current_process k) (update_current f k) = Some n" "n \<noteq> current_process k"
    and sw: "switch_to here n (update_current f k) = Some k'" "here \<noteq> In_Exit"
  shows "moves k k'"
proof -
  have "s \<in> {PROCESS_READY, PROCESS_BLOCKED, PROCESS_ZOMBIE}" using f(4) by auto
  note st = stop_current [OF inv f(1-3) this]
  show ?thesis
  proof (rule moves_switch [OF st(5) undisturbed_current [OF inv] st(1,2) _ n _ sw(1)])
    show "p_state (proc (update_current f k) i) = PROCESS_READY" if "i < 16" "p_state (proc k i) = PROCESS_READY" for i
      using that st(3) [OF that(1)] sched_invD(2) [OF inv] by (cases "i = current_process k") simp_all
  qed (use sw(2) in simp)
qed

lemma blocks:
  assumes inv: "sched_inv k" and f: "\<And>p. p_pid (f p) = p_pid p" "\<And>p. saved_stack (f p) = saved_stack p"
      "\<And>p. p_state (f p) = PROCESS_BLOCKED"
    and n: "find_next_ready (current_process k) (update_current f k) = Some n"
    and sw: "switch_to here n (update_current f k) = Some k'" "here \<noteq> In_Exit"
  shows "moves k k'"
proof (rule steps_down [OF inv f _ n _ sw])
  show "n \<noteq> current_process k"
    using find_next_ready_Some(2) [OF n slots_okD(2) [OF sched_invD(1) [OF inv]]] stop_current(4) [OF inv f] f(3) by auto
qed simp

lemma yield_moves:
  assumes inv: "sched_inv k" and y: "scheduler_yield k = Some (r, k')"
  shows "moves k k'"
proof -
  obtain flags k0 where k0: "kernel_irq_save k = (flags, k0)" by fastforce
  note s0 = same_slots_irq(2) [OF k0]
  note inv0 = sched_inv_same [OF inv s0]
  let ?f = "\<lambda>p. p\<lparr>p_state := PROCESS_READY\<rparr>"
  let ?n = "find_next_ready (current_process k0) (update_current ?f k0)"
  have c: "current_process (update_current ?f k0) = current_process k0" by (simp add: update_current_def)
  have "moves k0 k'"
  proof (cases "?n = None \<or> ?n = Some (current_process k0)")
    case True
    then have k': "k' = kernel_irq_restore flags (update_current (\<lambda>p. p\<lparr>p_state := PROCESS_RUNNING\<rparr>) k0)"
      using y k0 update_current_twice [OF slots_okD(3) [OF sched_invD(1) [OF inv0]], of "\<lambda>p. p\<lparr>p_state := PROCESS_RUNNING\<rparr>" ?f]
      by (simp add: scheduler_yield_def Let_def c)
    show ?thesis unfolding k' by (rule moves_after [OF keeps_running [OF inv0] same_slots_irq(1)]) (simp_all add: same_slice [OF inv0])
  next
    case False
    then obtain n where n: "?n = Some n" "n \<noteq> current_process k0" by auto
    have sw: "switch_to (In_Yield flags) n (update_current ?f k0) = Some k'"
      using y k0 False n by (auto simp: scheduler_yield_def Let_def c split: bind_splits)
    show ?thesis by (rule steps_down [OF inv0 _ _ _ _ n sw, of PROCESS_READY]) simp_all
  qed
  then show ?thesis by (rule moves_before [OF s0])
qed

lemma sleep_moves:
  assumes inv: "sched_inv k" and y: "scheduler_sleep_current t k = Some (r, k')"
  shows "moves k k'"
proof (cases "t = 0 \<or> t > SLEEP_MAXIMUM_TICKS")
  case True
  then show ?thesis
    using y yield_moves [OF inv] moves_same [OF inv, of k]
    by (auto simp: scheduler_sleep_current_def split: bind_splits if_splits)
next
  case False
  obtain flags k0 where k0: "kernel_irq_save k = (flags, k0)" by fastforce
  note s0 = same_slots_irq(2) [OF k0]
  note inv0 = sched_inv_same [OF inv s0]
  let ?f = "\<lambda>p. p\<lparr>wake_tick := tick_count k0 + t, wait_node := None, p_state := PROCESS_BLOCKED\<rparr>"
  have "moves k0 k'"
  proof (cases "find_next_ready (current_process k0) k0")
    case None
    then have "k' = kernel_irq_restore flags k0" using y k0 False by (simp add: scheduler_sleep_current_def)
    then show ?thesis using moves_same [OF inv0 same_slots_irq(1)] by simp
  next
    case (Some n)
    have sw: "switch_to (In_Sleep flags) n (update_current ?f k0) = Some k'"
      using y k0 False Some by (auto simp: scheduler_sleep_current_def split: bind_splits)
    note st = stop_current [OF inv0, of ?f PROCESS_BLOCKED, simplified]
    have "find_next_ready (current_process k0) (update_current ?f k0) = find_next_ready (current_process k0) k0"
    proof (rule find_next_ready_cong)
      show "p_state (proc (update_current ?f k0) i) = PROCESS_READY \<longleftrightarrow> p_state (proc k0 i) = PROCESS_READY" if "i < 16" for i
        using st(3) [OF that] st(4) sched_invD(2) [OF inv0] by (cases "i = current_process k0") simp_all
    qed
    then show ?thesis using Some by (intro blocks [OF inv0 _ _ _ _ sw]) simp_all
  qed
  then show ?thesis by (rule moves_before [OF s0])
qed

lemma exit_moves:
  assumes inv: "sched_inv k" and e: "scheduler_exit_current code k = Some k'"
  shows "moves k k'"
proof -
  obtain flags k0 where k0: "kernel_irq_save k = (flags, k0)" by fastforce
  let ?k1 = "vfs_close_all_current k0" and ?f = "\<lambda>p. p\<lparr>exit_code := code, p_state := PROCESS_ZOMBIE\<rparr>"
  let ?k2 = "update_current ?f ?k1" and ?c = "current_process ?k1"
  let ?k3 = "wake_waiting_parent ?c ?k2"
  note s1 = same_slots_trans [OF same_slots_irq(2) [OF k0] same_slots_close_all]
  note inv1 = sched_inv_same [OF inv s1]
  note st = stop_current [OF inv1, of ?f PROCESS_ZOMBIE, simplified]
  note w = wake_waiting_parent_spec [OF slots_okD(1) [OF st(1)], where c = ?c]
  have p: "p_pid (proc ?k3 i) = p_pid (proc ?k2 i)" "saved_stack (proc ?k3 i) = saved_stack (proc ?k2 i)"
    "p_state (proc ?k3 i) = (if wakes ?c ?k2 i then PROCESS_READY else p_state (proc ?k2 i))" if "i < 16" for i
    using w(6) [OF that] by simp_all
  have ok: "slots_ok ?k3" by (rule slots_frame [OF st(1) w(1-3)]) (use p in \<open>auto simp: wakes_def\<close>)
  have none: "none_running ?k3" using st(2) p(3) by (auto simp: none_running_def)
  have c: "current_process ?k3 = ?c" using w(2) st(5) by simp
  have z: "p_state (proc ?k3 ?c) = PROCESS_ZOMBIE"
    using p(3) [of ?c] st(4) slots_okD(2) [OF ok] c by (simp add: wakes_def)
  obtain n where n: "find_next_ready ?c ?k3 = Some n" and sw: "switch_to In_Exit n ?k3 = Some k'"
    using e k0 c st(5) by (auto simp: scheduler_exit_current_def Let_def split: option.splits)
  have "undisturbed ?k2 ?k3" using w(5,6) by (auto simp: undisturbed_def asleep_def wakes_def)
  note u = undisturbed_trans [OF undisturbed_current [OF inv1] this]
  have "moves ?k1 k'"
  proof (rule moves_switch [OF c u ok none _ n _ z sw])
    show "p_state (proc ?k3 i) = PROCESS_READY" if "i < 16" "p_state (proc ?k1 i) = PROCESS_READY" for i
      using that p(3) [OF that(1)] st(3) [OF that(1)] sched_invD(2) [OF inv1] by (cases "i = ?c") auto
    show "n \<noteq> ?c" using z find_next_ready_Some(2) [OF n] slots_okD(2) [OF ok] c by auto
  qed
  then show ?thesis by (rule moves_before [OF s1])
qed

lemma page_fault_moves:
  assumes inv: "sched_inv k" and f: "scheduler_user_page_fault address error_code cs eip k = Some (r, k')"
  shows "moves k k'"
proof -
  let ?k = "k\<lparr>last_user_fault_pid := p_pid (proc k (current_process k)), last_user_fault_address := address,
    last_user_fault_error := error_code, last_user_fault_eip := eip\<rparr>"
  have s: "same_slots k ?k" by (rule same_sched_slots) (simp add: same_sched_def)
  have "k' = k \<or> scheduler_exit_current (- MINIOS_EFAULT) ?k = Some k'"
    using f by (auto simp: scheduler_user_page_fault_def split: if_splits bind_splits)
  then show ?thesis
    using moves_same [OF inv same_slots_refl] moves_before [OF s exit_moves [OF sched_inv_same [OF inv s]]] by blast
qed

lemma wake_sleepers_inv:
  assumes inv: "sched_inv k"
  shows "sched_inv (wake_sleepers k)" "current_process (wake_sleepers k) = current_process k" "time_left (wake_sleepers k) = time_left k"
    "i < 16 \<Longrightarrow> p_state (proc k i) = PROCESS_READY \<Longrightarrow> p_state (proc (wake_sleepers k) i) = PROCESS_READY"
proof -
  note i = sched_invD [OF inv]
  note w = wake_sleepers_spec [OF slots_okD(1) [OF i(1)]]
  have p: "p_pid (proc (wake_sleepers k) i) = p_pid (proc k i)" "saved_stack (proc (wake_sleepers k) i) = saved_stack (proc k i)"
    "p_state (proc (wake_sleepers k) i) = (if 1 \<le> i \<and> sleep_over k i then PROCESS_READY else p_state (proc k i))" if "i < 16" for i
    using w(6) [OF that] by simp_all
  have "slots_ok (wake_sleepers k)" by (rule slots_frame [OF i(1) w(1-3)]) (use p in \<open>auto simp: sleep_over_def\<close>)
  moreover show s: "time_left (wake_sleepers k) = time_left k"
    using w(2) w(6) [OF slots_okD(2) [OF i(1)]] by (simp add: time_left_def)
  ultimately show "sched_inv (wake_sleepers k)"
    using inv p(3) w(2,4) by (auto simp: sched_inv_def sleep_over_def)
  show "current_process (wake_sleepers k) = current_process k" by (rule w(2))
  show "i < 16 \<Longrightarrow> p_state (proc k i) = PROCESS_READY \<Longrightarrow> p_state (proc (wake_sleepers k) i) = PROCESS_READY"
    using p(3) by simp
qed

text \<open>A process that steps down and is chosen again is the only one ready.\<close>

lemma alone:
  assumes inv: "sched_inv k" and f: "\<And>p. p_state (f p) = PROCESS_READY"
    and n: "find_next_ready (current_process k) (update_current f k) \<in> {None, Some (current_process k)}" and i: "i < 16"
  shows "p_state (proc k i) \<noteq> PROCESS_READY"
proof
  assume r: "p_state (proc k i) = PROCESS_READY"
  have ne: "i \<noteq> current_process k" using r sched_invD(2) [OF inv] by auto
  have c: "current_process k < 16" by (rule slots_okD(2) [OF sched_invD(1) [OF inv]])
  have "p_state (proc (update_current f k) i) = PROCESS_READY"
    using r ne by (simp add: update_current_def proc_update [OF slots_okD(3) [OF sched_invD(1) [OF inv]]])
  then have "ahead (current_process k) (current_process k) \<le> ahead (current_process k) i"
    using n find_next_ready_None [OF _ c i] find_next_ready_Some(3) [OF _ c i] by auto
  then show False using ne c i by (auto simp: ahead_def split: if_splits)
qed

lemma tick_moves:
  assumes inv: "sched_inv k" and t: "scheduler_on_tick k = Some (r, k')"
  shows "moves (wake_sleepers k) k'"
proof -
  let ?k1 = "wake_sleepers k" and ?f = "\<lambda>p. p\<lparr>p_state := PROCESS_READY\<rparr>"
  note w = wake_sleepers_inv [OF inv]
  let ?n = "find_next_ready (current_process ?k1) (update_current ?f ?k1)"
  have c: "current_process (update_current ?f ?k1) = current_process ?k1" by (simp add: update_current_def)
  show ?thesis
  proof (cases "time_slice (proc ?k1 (current_process ?k1)) > 1")
    case True
    then have k': "k' = update_current (\<lambda>p. p\<lparr>time_slice := time_slice p - 1\<rparr>) ?k1"
      using t sched_invD(2) [OF w(1)] by (simp add: scheduler_on_tick_def Let_def)
    have "time_slice (proc ?k1 (current_process ?k1)) \<noteq> 0" using True by auto
    then have "time_left k' = time_left ?k1 - 1"
      unfolding k' slice_update [OF w(1)] by (subst time_left_def) (simp add: unat_minus_one)
    moreover have "1 < time_left ?k1" using True by (simp add: time_left_def word_less_nat_alt)
    ultimately show ?thesis using sched_invD(6) [OF w(1)] unfolding k' by (intro keeps_running [OF w(1)]) simp_all
  next
    case slice: False
    show ?thesis
    proof (cases "?n = None \<or> ?n = Some (current_process ?k1)")
      case True
      then have k': "k' = update_current (\<lambda>p. p\<lparr>p_state := PROCESS_RUNNING, time_slice := DEFAULT_TIME_SLICE\<rparr>) ?k1"
        using t slice sched_invD(2) [OF w(1)] update_current_twice [OF slots_okD(3) [OF sched_invD(1) [OF w(1)]],
          of "\<lambda>p. p\<lparr>p_state := PROCESS_RUNNING, time_slice := DEFAULT_TIME_SLICE\<rparr>" ?f]
        by (simp add: scheduler_on_tick_def Let_def c)
      have "p_state (proc ?k1 i) \<noteq> PROCESS_READY" if "i < 16" for i
        using alone [OF w(1), of ?f, OF _ _ that] True by auto
      then show ?thesis unfolding k' by (intro keeps_running [OF w(1)]) (simp_all add: slice_update [OF w(1)])
    next
      case False
      then obtain n where n: "?n = Some n" "n \<noteq> current_process ?k1" by auto
      have sw: "switch_to In_Tick n (update_current ?f ?k1) = Some k'"
        using t slice False n sched_invD(2) [OF w(1)] by (auto simp: scheduler_on_tick_def Let_def c split: bind_splits)
      show ?thesis by (rule steps_down [OF w(1) _ _ _ _ n sw, of PROCESS_READY]) simp_all
    qed
  qed
qed

lemma tick_serves: "sched_inv k \<Longrightarrow> scheduler_on_tick k = Some (r, k') \<Longrightarrow> serves k k'"
  by (rule serves_pre [of "wake_sleepers k"]) (simp_all add: tick_moves [unfolded moves_def] wake_sleepers_inv)

lemma clear_moves:
  assumes inv: "sched_inv k" and i: "0 < i" "i < 16" "p_state (proc k i) = PROCESS_ZOMBIE"
    and k': "length (process_table k') = 16" "current_process k' = current_process k" "next_pid k' = next_pid k" "running k' = running k" "tick_count k' = tick_count k"
      "\<And>j. j < 16 \<Longrightarrow> proc k' j = (if j = i then cleared_process else proc k j)"
  shows "moves k k'"
proof -
  note v = sched_invD [OF inv]
  note o = slots_okD [OF v(1)]
  have st: "p_state (proc k' j) = (if j = i then PROCESS_UNUSED else p_state (proc k j))" if "j < 16" for j
    using k'(6) [OF that] by (simp add: cleared_process_def)
  have "pids_ok k'" by (rule pids_frame [OF o(5) k'(3)]) (auto simp: live_def st k'(6) cleared_process_def)
  moreover have "\<exists>c. saved_stack (proc k' j) = Some c \<and> c \<noteq> In_Exit"
    if "j < 16" "j \<noteq> current_process k" "p_state (proc k' j) \<in> {PROCESS_READY, PROCESS_BLOCKED}" for j
    using that o(8) [OF that(1,2)] st [OF that(1)] k'(6) [OF that(1)] by (cases "j = i") auto
  ultimately have "slots_ok k'"
    using k'(1,2) o(2,4,6,7) i(1) st by (auto simp: slots_ok_def live_def)
  moreover have "i \<noteq> current_process k" using v(2) i(3) by auto
  moreover from this have "time_left k' = time_left k" using k'(2) k'(6) [OF o(2)] by (auto simp: time_left_def)
  ultimately have "sched_inv k'" "time_left k' = time_left k" using v st k'(2,4) slots_okD(2) [OF v(1)] by (auto simp: sched_inv_def)
  moreover have "undisturbed k k'" by (rule undisturbed_but [OF k'(5), where j = i]) (use i(3) k'(6) in simp_all)
  ultimately show ?thesis by (intro moves_stay [OF _ k'(2)]) (use i(3) st in auto)
qed

text \<open>A successful reap clears the slot and nothing else of the table.\<close>

lemma reap_spec:
  assumes r: "reap_process index k = Some (True, k')" and len: "length (process_table k) = 16" "index < 16"
  shows "p_state (proc k index) = PROCESS_ZOMBIE" "index \<noteq> current_process k"
    "length (process_table k') = 16" "current_process k' = current_process k" "next_pid k' = next_pid k"
    "running k' = running k" "tick_count k' = tick_count k"
    "proc k' j = (if j = index then cleared_process else proc k j)"
proof -
  show z: "p_state (proc k index) = PROCESS_ZOMBIE" "index \<noteq> current_process k"
    using r by (auto simp: reap_process_def split: if_splits)
  obtain k1 where k1: "(if page_directory (proc k index) = 0 then Some (True, k)
      else do { (ok, k) \<leftarrow> on_machine (\<lambda>m. map_option (\<lambda>(ok, space, m). (ok, m)) (vmm_address_space_destroy (page_directory (proc k index)) m)) k;
                Some (ok, if ok then update_process index (\<lambda>p. p\<lparr>page_directory := 0\<rparr>) k else k) }) = Some (True, k1)"
    and k2: "do { (ok, k) \<leftarrow> on_heap (kfree (kernel_stack_allocation (proc k1 index))) k1;
                  if \<not> ok then Some (False, k) else Some (True, clear_process index k) } = Some (True, k')"
    using r z unfolding reap_process_def by (auto split: bind_splits if_splits)
  have s1: "length (process_table k1) = 16" "current_process k1 = current_process k" "next_pid k1 = next_pid k"
    "running k1 = running k" "tick_count k1 = tick_count k" "\<And>j. j \<noteq> index \<Longrightarrow> proc k1 j = proc k j"
    using k1 len by (auto split: if_splits bind_splits dest!: same_sched_on_machine dest: same_schedD simp: same_schedD proc_update)
  obtain k3 where k3: "same_sched k1 k3" "k' = clear_process index k3"
    using k2 by (auto split: bind_splits if_splits dest: same_sched_on_heap)
  note s3 = same_schedD [OF k3(1)]
  show "length (process_table k') = 16" "current_process k' = current_process k" "next_pid k' = next_pid k"
    "running k' = running k" "tick_count k' = tick_count k" "proc k' j = (if j = index then cleared_process else proc k j)"
    using s1 s3 len by (auto simp: k3(2) clear_process_def proc_update)
qed

lemma find_child_Some:
  assumes "find_child parent pid z k = Some child"
  shows "1 \<le> child" "child < 16" "is_child parent pid z k child"
  using assms by (auto simp: find_child_def for_find_Some_iff)

lemma waitpid_loop_moves:
  assumes inv: "sched_inv k" and w: "waitpid_loop pid flags k = Some (r, k')"
  shows "moves k k'"
proof (cases "find_child (current_process k) pid True k")
  case (Some child)
  note c = find_child_Some [OF Some]
  obtain k1 where k1: "reap_process child k = Some (True, k1)" and k': "k' = kernel_irq_restore flags k1"
    using w Some by (auto simp: waitpid_loop_def Let_def split: bind_splits if_splits)
  note s = reap_spec [OF k1 slots_okD(1) [OF sched_invD(1) [OF inv]] c(2)]
  have "moves k k1" by (rule clear_moves [OF inv _ c(2) s(1,3-8)]) (use c(1) in simp)
  then show ?thesis unfolding k' by (rule moves_after [OF _ same_slots_irq(1)])
next
  case none: None
  show ?thesis
  proof (cases "find_child (current_process k) pid False k")
    case None
    then have "k' = kernel_irq_restore flags k" using w none by (simp add: waitpid_loop_def)
    then show ?thesis using moves_same [OF inv same_slots_irq(1)] by simp
  next
    case (Some child)
    let ?f = "\<lambda>p. p\<lparr>p_state := PROCESS_BLOCKED, wait_node := Some (if pid = -1 then current_process k else child)\<rparr>"
    let ?g = "\<lambda>p. p\<lparr>wait_node := None, p_state := PROCESS_RUNNING\<rparr>"
    have b: "update_process (current_process k) ?f k = update_current ?f k" by (simp add: update_current_def)
    have g: "update_process (current_process k) ?g (update_current ?f k) = update_current (\<lambda>p. ?g (?f p)) k"
      using update_current_twice [OF slots_okD(3) [OF sched_invD(1) [OF inv]], of ?g ?f] by (simp add: update_current_def)
    show ?thesis
    proof (cases "find_next_ready (current_process k) (update_current ?f k)")
      case None
      then have k': "k' = kernel_irq_restore flags (update_current (\<lambda>p. ?g (?f p)) k)"
        using w none Some unfolding waitpid_loop_def by (simp add: Let_def b g)
      show ?thesis unfolding k' by (rule moves_after [OF keeps_running [OF inv] same_slots_irq(1)]) (simp_all add: same_slice [OF inv])
    next
      case n: (Some n)
      then have sw: "switch_to (In_Waitpid pid flags) n (update_current ?f k) = Some k'"
        using w none Some unfolding waitpid_loop_def by (auto simp: Let_def b split: bind_splits)
      show ?thesis by (rule blocks [OF inv _ _ _ n sw]) simp_all
    qed
  qed
qed

lemma waitpid_moves:
  assumes inv: "sched_inv k" and w: "scheduler_waitpid pid k = Some (r, k')"
  shows "moves k k'"
proof (cases "pid = 0 \<or> pid < -1")
  case True
  then show ?thesis using w moves_same [OF inv same_slots_refl] by (auto simp: scheduler_waitpid_def)
next
  case False
  obtain flags k0 where k0: "kernel_irq_save k = (flags, k0)" by fastforce
  note s0 = same_slots_irq(2) [OF k0]
  show ?thesis
    using w False k0 moves_before [OF s0 waitpid_loop_moves [OF sched_inv_same [OF inv s0]]] by (simp add: scheduler_waitpid_def)
qed

lemma resume_moves:
  assumes inv: "sched_inv k" and r: "resume k = Some (r, k')"
  shows "moves k k'"
proof -
  let ?k = "k\<lparr>running := None\<rparr>"
  have "slots_ok ?k" by (rule slots_frame [OF sched_invD(1) [OF inv]]) (use slots_okD(1) [OF sched_invD(1) [OF inv]] in simp_all)
  moreover have sl: "time_left ?k = time_left k" by (simp add: time_left_def)
  ultimately have inv0: "sched_inv ?k" using inv by (simp add: sched_inv_def)
  have s: "same_slots ?k (kernel_irq_restore f ?k)" "same_slots ?k ?k" for f by (simp_all add: same_slots_irq)
  obtain c where c: "running k = Some c" using r by (auto simp: resume_def split: option.splits)
  have "same_slots ?k k' \<or> (\<exists>pid flags r. waitpid_loop pid flags ?k = Some (r, k'))"
    using r c s
    by (auto simp: resume_def thread_trampoline_def user_process_trampoline_def Let_def split: saved_context.splits bind_splits)
  then have "moves ?k k'" using moves_same [OF inv0] waitpid_loop_moves [OF inv0] by blast
  then show ?thesis by (rule moves_pre) (simp_all add: sl undisturbed_def asleep_def)
qed

subsection \<open>New processes\<close>

lemma find_process_by_pid_None: "find_process_by_pid pid k = None \<longleftrightarrow> (\<forall>i<16. live k i \<longrightarrow> p_pid (proc k i) \<noteq> pid)"
  by (auto simp: find_process_by_pid_def for_find_None_iff live_def)

lemma find_process_by_pid_Some: "find_process_by_pid pid k = Some i \<Longrightarrow> i < 16 \<and> live k i \<and> p_pid (proc k i) = pid"
  by (auto simp: find_process_by_pid_def for_find_Some_iff live_def)

text \<open>Sixteen slots cannot have seventeen process numbers.\<close>

lemma free_pid_exists: "\<exists>c. 1 \<le> c \<and> c \<le> 17 \<and> find_process_by_pid (of_nat c) k = None"
proof (rule ccontr)
  assume "\<not> ?thesis"
  then have "\<forall>c\<in>{1..17}. \<exists>i. find_process_by_pid (of_nat c) k = Some i" by auto
  then obtain slot where slot: "\<And>c. c \<in> {1..17} \<Longrightarrow> find_process_by_pid (of_nat c) k = Some (slot c)" by metis
  have "c = d" if "c \<in> {1..17}" "d \<in> {1..17}" "slot c = slot d" for c d
  proof -
    have "(of_nat c :: u32) = of_nat d"
      using find_process_by_pid_Some [OF slot [OF that(1)]] find_process_by_pid_Some [OF slot [OF that(2)]] that(3) by simp
    then have "unat (of_nat c :: u32) = unat (of_nat d :: u32)" by simp
    then show ?thesis using that(1,2) by (simp add: unat_of_nat)
  qed
  then have "inj_on slot {1..17}" by (rule inj_onI)
  moreover have "slot ` {1..17} \<subseteq> {0..<16}" using find_process_by_pid_Some [OF slot] by force
  ultimately have "card {1..17::nat} \<le> card {0..<16::nat}" by (intro card_inj_on_le) simp_all
  then show False by simp
qed

lemma find_free_pid_spec:
  assumes "find_process_by_pid (of_nat d) k = None" and "c \<le> d" and "d \<le> PID_MAXIMUM"
  shows "\<exists>e. c \<le> e \<and> e \<le> d \<and> find_free_pid c k = Some (of_nat e) \<and> find_process_by_pid (of_nat e) k = None"
  using assms(2)
proof (induction "d - c" arbitrary: c)
  case 0
  then have "c = d" by simp
  then show ?case using assms(1,3) by (subst find_free_pid.simps) auto
next
  case (Suc n)
  show ?case
  proof (cases "find_process_by_pid (of_nat c) k = None")
    case True
    then show ?thesis using Suc.prems assms(3) by (subst find_free_pid.simps) auto
  next
    case False
    have "c < d" "n = d - (c + 1)" using Suc.hyps(2) by simp_all
    then obtain e where "c + 1 \<le> e" "e \<le> d" "find_free_pid (c + 1) k = Some (of_nat e)" "find_process_by_pid (of_nat e) k = None"
      using Suc.hyps(1) [of "c + 1"] by auto
    moreover have "find_free_pid c k = find_free_pid (c + 1) k"
      using False \<open>c < d\<close> assms(3) by (subst find_free_pid.simps) auto
    ultimately show ?thesis by (intro exI [of _ e]) simp
  qed
qed

lemma allocate_pid_spec:
  assumes "pids_ok k"
  obtains pid where "allocate_pid k = (Some pid, k\<lparr>next_pid := next_pid (snd (allocate_pid k))\<rparr>)"
    "pid \<noteq> 0" "unat pid \<le> PID_MAXIMUM" "find_process_by_pid pid k = None"
    "unat (next_pid (snd (allocate_pid k))) \<le> PID_MAXIMUM" 
    "next_pid (snd (allocate_pid k)) = 0 \<or> pid < next_pid (snd (allocate_pid k)) \<and> next_pid k < next_pid (snd (allocate_pid k)) \<and> next_pid k \<noteq> 0"
proof (cases "next_pid k = 0")
  case True
  obtain d where d: "1 \<le> d" "d \<le> 17" "find_process_by_pid (of_nat d) k = None" using free_pid_exists by blast
  have "d \<le> PID_MAXIMUM" using d(2) by simp
  then obtain e where e: "1 \<le> e" "e \<le> d" "find_free_pid 1 k = Some (of_nat e)" "find_process_by_pid (of_nat e) k = None"
    using find_free_pid_spec [OF d(3,1)] by blast
  have u: "unat (of_nat e :: u32) = e" using e d(2) by (simp add: unat_of_nat)
  then have nz: "(of_nat e :: u32) \<noteq> 0" using e(1) by (metis not_one_le_zero unat_0)
  have a: "allocate_pid k = (Some (of_nat e), k)" using True e(3) by (simp add: allocate_pid_def)
  show ?thesis by (rule that [of "of_nat e"]) (use e d(2) u nz True in \<open>simp_all add: a\<close>)
next
  case False
  have n: "unat (next_pid k) \<le> PID_MAXIMUM" using assms by (simp add: pids_ok_def)
  have f: "find_process_by_pid (next_pid k) k = None"
    using assms False by (auto simp: pids_ok_def find_process_by_pid_None)
  let ?n = "if next_pid k = of_nat PID_MAXIMUM then 0 else next_pid k + 1"
  have a: "allocate_pid k = (Some (next_pid k), k\<lparr>next_pid := ?n\<rparr>)" using False by (simp add: allocate_pid_def)
  have u: "unat (next_pid k + 1) = unat (next_pid k) + 1" using n by (subst unat_add_lem [THEN iffD1]) simp_all
  have "next_pid k < next_pid k + 1" by (simp add: word_less_nat_alt u)
  moreover have "unat (next_pid k + 1) \<le> PID_MAXIMUM" if "next_pid k \<noteq> of_nat PID_MAXIMUM"
  proof -
    have "unat (next_pid k) \<noteq> PID_MAXIMUM" using that by (metis of_nat_unat ucast_id)
    then show ?thesis using n by (simp add: u)
  qed
  ultimately show ?thesis by (intro that [of "next_pid k"]) (use n f False in \<open>simp_all add: a\<close>)
qed

lemma find_unused_process_Some:
  assumes "find_unused_process k = Some i"
  shows "0 < i" "i < 16" "p_state (proc k i) = PROCESS_UNUSED"
  using assms by (auto simp: find_unused_process_def for_find_Some_iff)

lemma set_process_name_fields [simp]:
  "p_pid (set_process_name name p) = p_pid p" "p_state (set_process_name name p) = p_state p"
  by (simp_all add: set_process_name_def Let_def)

lemma new_process_spec:
  assumes n: "new_process index name pid allocation trampoline specific k = Some k'"
    and len: "length (process_table k) = 16" "index < 16" and specific: "\<And>p. p_pid (specific p) = p_pid p"
  shows "length (process_table k') = 16" "current_process k' = current_process k" "next_pid k' = next_pid k" "running k' = running k"
    "\<And>j. j \<noteq> index \<Longrightarrow> proc k' j = proc k j"
    "p_pid (proc k' index) = pid" "p_state (proc k' index) = PROCESS_READY" "saved_stack (proc k' index) = Some trampoline" "tick_count k' = tick_count k"
proof -
  obtain k1 where k1: "inherit_current_working_directory index (clear_process index k) = Some k1"
    using n by (auto simp: new_process_def split: bind_splits)
  have s1: "length (process_table k1) = 16" "current_process k1 = current_process k" "next_pid k1 = next_pid k" "running k1 = running k" "tick_count k1 = tick_count k"
    "\<And>j. j \<noteq> index \<Longrightarrow> proc k1 j = proc k j"
    using k1 len by (auto simp: inherit_current_working_directory_def clear_process_def Let_def proc_update split: option.splits)
  have l: "index < length (process_table k1)" using s1 len by simp
  show "length (process_table k') = 16" "current_process k' = current_process k" "next_pid k' = next_pid k" "running k' = running k"
    "\<And>j. j \<noteq> index \<Longrightarrow> proc k' j = proc k j"
    "p_pid (proc k' index) = pid" "p_state (proc k' index) = PROCESS_READY" "saved_stack (proc k' index) = Some trampoline" "tick_count k' = tick_count k"
    using n s1 specific by (auto simp: new_process_def k1 proc_update [OF l])
qed

lemma created_moves:
  assumes inv: "sched_inv k" and u: "find_unused_process k = Some index" and a: "allocate_pid k = (Some pid, k1)"
    and n: "new_process index name pid allocation trampoline specific k1 = Some k'"
    and specific: "\<And>p. p_pid (specific p) = p_pid p" and t: "trampoline \<noteq> In_Exit"
  shows "moves k k'"
proof -
  note v = sched_invD [OF inv]
  note o = slots_okD [OF v(1)]
  note f = find_unused_process_Some [OF u]
  define m where "m = next_pid k1"
  obtain q where q: "allocate_pid k = (Some q, k\<lparr>next_pid := m\<rparr>)" "unat q \<le> PID_MAXIMUM" "find_process_by_pid q k = None"
    "unat m \<le> PID_MAXIMUM" "m = 0 \<or> q < m \<and> next_pid k < m \<and> next_pid k \<noteq> 0"
    by (rule allocate_pid_spec [OF o(5)]) (simp add: a m_def)
  then have m: "k1 = k\<lparr>next_pid := m\<rparr>" and [simp]: "q = pid" using a by simp_all
  note pid = q(2-5) [simplified]
  have l: "length (process_table k1) = 16" using o(1) m by simp
  note s = new_process_spec [OF n l f(2) specific]
  have p: "proc k' j = proc k j" if "j \<noteq> index" for j using s(5) [OF that] m by simp
  have live: "live k' j \<longleftrightarrow> j = index \<or> live k j" for j using p s(7) by (cases "j = index") (simp_all add: live_def)
  have pp: "p_pid (proc k' j) = (if j = index then pid else p_pid (proc k j))" for j using p s(6) by simp
  have fresh: "p_pid (proc k j) \<noteq> pid" if "j < 16" "live k j" for j using pid(2) that by (auto simp: find_process_by_pid_None)
  have "pids_ok k'"
    unfolding pids_ok_def
  proof (intro conjI allI impI)
    show "unat (next_pid k') \<le> PID_MAXIMUM" using pid(3) s(3) m by simp
    show "unat (p_pid (proc k' j)) \<le> PID_MAXIMUM" if "j < 16" "live k' j" for j
      using o(5) pid(1) that by (auto simp: live pp pids_ok_def)
    show "next_pid k' = 0 \<or> p_pid (proc k' j) < next_pid k'" if "j < 16" "live k' j" for j
      using o(5) pid(4) that s(3) m by (auto simp: live pp pids_ok_def intro: less_trans)
    show "i = j" if "i < 16" "j < 16" "live k' i" "live k' j" "p_pid (proc k' i) = p_pid (proc k' j)" for i j
      using o(5) fresh that by (auto simp: live pp pids_ok_def split: if_splits)
  qed
  moreover have ne: "index \<noteq> current_process k" using v(2) f(3) by auto
  moreover have "p_state (proc k' j) \<noteq> PROCESS_NEW \<and> p_state (proc k' j) \<noteq> PROCESS_REAPED" if "j < 16" for j
    using o(6,7) [OF that] p s(7) by (cases "j = index") simp_all
  moreover have "\<exists>c. saved_stack (proc k' j) = Some c \<and> c \<noteq> In_Exit"
    if "j < 16" "j \<noteq> current_process k" "p_state (proc k' j) \<in> {PROCESS_READY, PROCESS_BLOCKED}" for j
    using o(8) [OF that(1,2)] that p s(8) t by (cases "j = index") auto
  ultimately have "slots_ok k'" using s(1,2) o(2,4) m by (simp add: slots_ok_def live)
  moreover have "p_state (proc k' j) = PROCESS_RUNNING \<longleftrightarrow> j = current_process k" if "j < 16" for j
    using v(2) v(3) [OF that] p s(7) ne by (cases "j = index") auto
  moreover have sl: "time_left k' = time_left k" using p [of "current_process k"] ne s(2) m by (simp add: time_left_def)
  ultimately have "sched_inv k'" using v(4-6) s(2,4) m by (simp add: sched_inv_def)
  moreover have "undisturbed k k'" by (rule undisturbed_but [of _ _ index]) (use s(9) m f(3) p in simp_all)
  ultimately show ?thesis
  proof (intro moves_stay)
    show "p_state (proc k' j) = PROCESS_READY" if "p_state (proc k j) = PROCESS_READY" for j
      using that p f(3) by (cases "j = index") auto
  qed (use s(2) m sl in simp_all)
qed

text \<open>
  The creating functions go through many fallible steps that leave the table alone. \<open>ends P r\<close> says that a call which
  does not fail ends in \<open>P\<close>; the rules follow the shape of the functions.
\<close>

definition ends :: "('a \<Rightarrow> bool) \<Rightarrow> 'a option \<Rightarrow> bool" where
  "ends P r \<longleftrightarrow> (\<forall>x. r = Some x \<longrightarrow> P x)"

lemma ends_if: "(b \<Longrightarrow> ends P x) \<Longrightarrow> (\<not> b \<Longrightarrow> ends P y) \<Longrightarrow> ends P (if b then x else y)"
  by simp

lemma ends_case_option: "ends P x \<Longrightarrow> (\<And>a. ends P (f a)) \<Longrightarrow> ends P (case r of None \<Rightarrow> x | Some a \<Rightarrow> f a)"
  by (simp split: option.splits)

lemma ends_case_pair: "(\<And>a b. ends P (f a b)) \<Longrightarrow> ends P (case p of (a, b) \<Rightarrow> f a b)"
  by (simp split: prod.splits)

lemma ends_case_pair_app: "(\<And>a b. ends P (f a b k)) \<Longrightarrow> ends P ((case p of (a, b) \<Rightarrow> f a b) k)"
  by (simp split: prod.splits)

lemma ends_None: "ends P None"
  by (simp add: ends_def)

lemma ends_bind:
  "sched_inv k0 \<Longrightarrow> ends (\<lambda>(r, k'). same_sched k0 k') x \<Longrightarrow> (\<And>r k'. same_sched k0 k' \<Longrightarrow> ends P (f r k')) \<Longrightarrow>
    ends P (do { (r, k) \<leftarrow> x; f r k })"
  "sched_inv k0 \<Longrightarrow> ends (same_sched k0) y \<Longrightarrow> (\<And>k'. same_sched k0 k' \<Longrightarrow> ends P (g k')) \<Longrightarrow> ends P (do { k \<leftarrow> y; g k })"
  by (auto simp: ends_def split: bind_splits)

lemma ends_irq_save:
  assumes "sched_inv k0" and "same_sched k0 k" and "\<And>flags k'. same_sched k0 k' \<Longrightarrow> ends P (f flags k')"
  shows "ends P (case kernel_irq_save k of (flags, k) \<Rightarrow> f flags k)"
  using assms by (auto split: prod.splits dest: same_sched_irq_save intro: same_sched_trans)

lemma ends_pmm_alloc:
  assumes "sched_inv k0" and "same_sched k0 k" and "\<And>physical k'. same_sched k0 k' \<Longrightarrow> ends P (f physical k')"
  shows "ends P (case kernel_pmm_alloc k of (physical, k) \<Rightarrow> f physical k)"
  using assms by (auto split: prod.splits dest: same_sched_pmm_alloc intro: same_sched_trans)

lemma ends_unused:
  assumes "sched_inv k0" and "same_sched k0 k" and "ends P x" and "\<And>index. find_unused_process k0 = Some index \<Longrightarrow> ends P (f index)"
  shows "ends P (case find_unused_process k of None \<Rightarrow> x | Some index \<Rightarrow> f index)"
  using assms(3,4) same_schedD(6) [OF assms(2)] by (auto simp: find_unused_process_def split: option.splits)

lemma ends_allocate_pid:
  assumes inv: "sched_inv k0" and s: "same_sched k0 k" and f: "\<And>pid k1. allocate_pid k = (Some pid, k1) \<Longrightarrow> ends P (f pid k1)"
  shows "ends P (case allocate_pid k of (None, k) \<Rightarrow> g k | (Some pid, k) \<Rightarrow> f pid k)"
proof -
  have "pids_ok k" by (rule slots_okD(5) [OF sched_invD(1) [OF sched_inv_same [OF inv same_sched_slots [OF s]]]])
  then obtain pid k1 where "allocate_pid k = (Some pid, k1)" by (rule allocate_pid_spec) simp
  then show ?thesis using f by simp
qed

lemma ends_same:
  "same_sched k0 k \<Longrightarrow> ends (\<lambda>(r, k'). same_sched k0 k') (on_machine f k)"
  "same_sched k0 k \<Longrightarrow> ends (\<lambda>(r, k'). same_sched k0 k') (on_heap g k)"
  "same_sched k0 k \<Longrightarrow> ends (\<lambda>(r, k'). same_sched k0 k') (create_space k)"
  "same_sched k0 k \<Longrightarrow> ends (same_sched k0) (Some k)"
  "same_sched k0 k \<Longrightarrow> ends (\<lambda>(r, k'). same_sched k0 k') (Some (r, k))"
  by (auto simp: ends_def create_space_def dest!: same_sched_on_machine same_sched_on_heap intro: same_sched_trans)

lemma ends_return:
  assumes inv: "sched_inv k0" and s: "same_sched k0 k"
  shows "ends (\<lambda>(r, k'). moves k0 k') (Some (r, k))" "ends (\<lambda>(r, k'). moves k0 k') (Some (r, kernel_irq_restore flags k))"
  using moves_same [OF inv same_sched_slots [OF s]] moves_same [OF inv same_slots_trans [OF same_sched_slots [OF s] same_slots_irq(1)]]
  by (simp_all add: ends_def)

lemma same_sched_release: "release_physical_page physical k = Some k' \<Longrightarrow> same_sched k k'"
  by (auto simp: release_physical_page_def split: if_splits bind_splits)

lemma same_sched_release_all:
  "fold (\<lambda>page r. Option.bind r (release_physical_page page)) pages r = Some k' \<Longrightarrow> \<exists>k. r = Some k \<and> same_sched k k'"
proof (induction pages arbitrary: r)
  case (Cons page pages)
  then show ?case by (fastforce split: bind_splits dest: same_sched_release intro: same_sched_trans)
qed simp

lemma ends_release: "same_sched k0 k \<Longrightarrow> ends (same_sched k0) (fold (\<lambda>page r. Option.bind r (release_physical_page page)) pages (Some k))"
  by (auto simp: ends_def dest!: same_sched_release_all intro: same_sched_trans)

lemma ends_rollback:
  assumes inv: "sched_inv k0" and s: "same_sched k0 k"
  shows "ends (\<lambda>(r, k'). moves k0 k') (rollback space pages stack flags result k)"
  unfolding rollback_def
  by (rule inv s ends_release ends_return(2) ends_same ends_bind ends_if ends_None | assumption)+

lemma ends_created:
  assumes u: "find_unused_process k0 = Some index" and a: "allocate_pid k = (Some pid, k1)"
    and inv: "sched_inv k0" and s: "same_sched k0 k"
    and specific: "\<And>p. p_pid (specific p) = p_pid p" and t: "trampoline \<noteq> In_Exit"
  shows "ends (\<lambda>(r, k'). moves k0 k') (do { k \<leftarrow> new_process index name pid allocation trampoline specific k1; Some (r, kernel_irq_restore flags k) })"
proof -
  note s' = same_sched_slots [OF s]
  have u': "find_unused_process k = Some index" using u same_schedD(6) [OF s] by (simp add: find_unused_process_def)
  have "moves k0 (kernel_irq_restore flags k')" if "new_process index name pid allocation trampoline specific k1 = Some k'" for k'
    by (rule moves_after [OF moves_before [OF s' created_moves [OF sched_inv_same [OF inv s'] u' a that specific t]] same_slots_irq(1)])
  then show ?thesis by (auto simp: ends_def split: bind_splits)
qed

lemmas ends_rules = ends_created ends_allocate_pid ends_unused ends_irq_save ends_pmm_alloc ends_rollback ends_return(2,1) ends_same
  ends_bind ends_None ends_if ends_case_option ends_case_pair ends_case_pair_app same_sched_refl

lemma thread_create_ends: "sched_inv k \<Longrightarrow> ends (\<lambda>(r, k'). moves k k') (kernel_thread_create name entry argument k)"
  unfolding kernel_thread_create_def by (assumption | rule ends_rules | simp)+

lemma user_create_ends: "sched_inv k \<Longrightarrow> ends (\<lambda>(r, k'). moves k k') (user_process_create name img k)"
  unfolding user_process_create_def by (assumption | rule ends_rules | simp)+

lemma spawn_ends: "sched_inv k \<Longrightarrow> ends (\<lambda>(r, k'). moves k k') (scheduler_spawn_image name img argv k)"
  unfolding scheduler_spawn_image_def by (assumption | rule ends_rules | simp)+

subsection \<open>Executions\<close>

text \<open>
  The steps of the process layer. A step is a call of the process that runs, the timer interrupt, or the continuation of
  the process a switch has chosen. \<open>elsewhere\<close> is kernel code that does not write the process table.
\<close>

inductive sched_step :: "kernel \<Rightarrow> kernel \<Rightarrow> bool" where
  thread_create: "running k = None \<Longrightarrow> kernel_thread_create name entry argument k = Some (pid, k') \<Longrightarrow> sched_step k k'"
| user_create: "running k = None \<Longrightarrow> user_process_create name img k = Some (pid, k') \<Longrightarrow> sched_step k k'"
| spawn: "running k = None \<Longrightarrow> scheduler_spawn_image name img argv k = Some (pid, k') \<Longrightarrow> sched_step k k'"
| yield: "running k = None \<Longrightarrow> scheduler_yield k = Some (r, k') \<Longrightarrow> sched_step k k'"
| sleep: "running k = None \<Longrightarrow> scheduler_sleep_current ticks k = Some (b, k') \<Longrightarrow> sched_step k k'"
| waitpid: "running k = None \<Longrightarrow> scheduler_waitpid child k = Some (w, k') \<Longrightarrow> sched_step k k'"
| exit: "running k = None \<Longrightarrow> scheduler_exit_current code k = Some k' \<Longrightarrow> sched_step k k'"
| fault: "running k = None \<Longrightarrow> scheduler_user_page_fault address error_code cs eip k = Some (b, k') \<Longrightarrow> sched_step k k'"
| tick: "running k = None \<Longrightarrow> scheduler_on_tick (pit_handle_irq k) = Some (r, k') \<Longrightarrow> sched_step k k'"
| resumed: "resume k = Some (res, k') \<Longrightarrow> sched_step k k'"
| set_cwd: "running k = None \<Longrightarrow> scheduler_set_current_working_directory path k = (ok, k') \<Longrightarrow> sched_step k k'"
| fd_install: "running k = None \<Longrightarrow> scheduler_fd_install handle k = (d, k') \<Longrightarrow> sched_step k k'"
| fd_remove: "running k = None \<Longrightarrow> scheduler_fd_remove descriptor k = (h, k') \<Longrightarrow> sched_step k k'"
| elsewhere: "running k = None \<Longrightarrow> process_table k' = process_table k \<Longrightarrow> current_process k' = current_process k \<Longrightarrow>
    next_pid k' = next_pid k \<Longrightarrow> running k' = None \<Longrightarrow> tick_count k' = tick_count k \<Longrightarrow> sched_step k k'"

lemma pit_irq_inv:
  assumes inv: "sched_inv k"
  shows "sched_inv (pit_handle_irq k)" "time_left (pit_handle_irq k) = time_left k" "current_process (pit_handle_irq k) = current_process k"
    "proc (pit_handle_irq k) = proc k"
proof -
  let ?k = "pit_handle_irq k"
  show s: "time_left ?k = time_left k" "current_process ?k = current_process k" "proc ?k = proc k" by (simp_all add: time_left_def pit_handle_irq_def)
  have "slots_ok ?k"
    by (rule slots_frame [OF sched_invD(1) [OF inv]])
      (use slots_okD(1) [OF sched_invD(1) [OF inv]] in \<open>simp_all add: pit_handle_irq_def\<close>)
  then show "sched_inv ?k" using inv s by (simp add: sched_inv_def) (simp add: pit_handle_irq_def)
qed

lemma set_cwd_moves:
  assumes inv: "sched_inv k" and c: "scheduler_set_current_working_directory path k = (ok, k')"
  shows "moves k k'"
proof -
  obtain flags k0 where k0: "kernel_irq_save k = (flags, k0)" by fastforce
  note s0 = same_slots_irq(2) [OF k0]
  note inv0 = sched_inv_same [OF inv s0]
  have "k' = k \<or> (\<exists>f. k' = kernel_irq_restore flags (update_current (\<lambda>p. p\<lparr>current_working_directory := f p\<rparr>) k0))"
    using c k0 by (auto simp: scheduler_set_current_working_directory_def Let_def split: if_splits)
  moreover have "moves k (kernel_irq_restore flags (update_current (\<lambda>p. p\<lparr>current_working_directory := f p\<rparr>) k0))" for f
    by (rule moves_before [OF s0 moves_after [OF keeps_running [OF inv0] same_slots_irq(1)]]) (simp_all add: same_slice [OF inv0])
  ultimately show ?thesis using moves_same [OF inv same_slots_refl] by auto
qed

lemma same_slots_fd_install: "scheduler_fd_install h k = (d, k') \<Longrightarrow> same_slots k k'"
  by (auto simp: scheduler_fd_install_def split: prod.splits if_splits option.splits
      intro: same_slots_trans [OF same_slots_irq(2) same_slots_irq(1)]
        same_slots_trans [OF same_slots_irq(2) same_slots_trans [OF same_slots_fd same_slots_irq(1)]])

text \<open>Every step serves the ready processes; every step but the timer interrupt leaves the sleeping ones undisturbed.\<close>

lemma tick_step_serves:
  assumes inv: "sched_inv k" and "scheduler_on_tick (pit_handle_irq k) = Some (r, k')"
  shows "serves k k'"
  by (rule serves_pre [OF tick_serves [OF pit_irq_inv(1) [OF inv] assms(2)]]) (simp_all add: pit_irq_inv [OF inv])

lemma step_cases:
  assumes "sched_inv k" and "sched_step k k'"
  shows "moves k k' \<or> running k = None \<and> (\<exists>r. scheduler_on_tick (pit_handle_irq k) = Some (r, k'))"
  using assms(2,1)
proof cases
  case elsewhere
  then show ?thesis using moves_same [OF assms(1) same_sched_slots] by (simp add: same_sched_def)
qed (use thread_create_ends user_create_ends spawn_ends yield_moves sleep_moves waitpid_moves exit_moves page_fault_moves
      resume_moves set_cwd_moves moves_same same_slots_fd_install same_slots_fd_remove in \<open>fastforce simp: ends_def\<close>)+

lemma step_serves: "sched_inv k \<Longrightarrow> sched_step k k' \<Longrightarrow> serves k k'"
  by (metis step_cases tick_step_serves moves_def)

lemma scheduler_init_inv: "sched_inv (scheduler_init stack_top k)"
proof -
  let ?k = "scheduler_init stack_top k"
  have p: "length (process_table ?k) = 16" "current_process ?k = 0" "running ?k = None" "next_pid ?k = 1"
    by (simp_all add: scheduler_init_def Let_def)
  have z: "p_pid (proc ?k 0) = 0" "p_state (proc ?k 0) = PROCESS_RUNNING" "time_slice (proc ?k 0) = 5"
    by (simp_all add: scheduler_init_def Let_def proc_def update_process_def)
  have o: "p_state (proc ?k i) = PROCESS_UNUSED" if "0 < i" "i < 16" for i
    using that by (simp add: scheduler_init_def Let_def proc_def update_process_def cleared_process_def nth_list_update)
  have l: "live ?k i \<longleftrightarrow> i = 0" if "i < 16" for i using o [OF _ that] z(2) by (cases "i = 0") (simp_all add: live_def)
  have st: "p_state (proc ?k i) = (if i = 0 then PROCESS_RUNNING else PROCESS_UNUSED)" if "i < 16" for i
    using o [OF _ that] z(2) by simp
  have "pids_ok ?k" using l z(1) p(4) by (simp add: pids_ok_def)
  then show ?thesis using p z st l by (simp add: sched_inv_def slots_ok_def time_left_def)
qed

lemma reachable_inv: "sched_step\<^sup>*\<^sup>* k k' \<Longrightarrow> sched_inv k \<Longrightarrow> sched_inv k'"
  by (induction rule: rtranclp_induct) (auto dest: step_serves simp: serves_def)

end
