(* ===== verification/Fair_Choice.thy ===== *)
theory Fair_Choice
  imports Prelude
begin

text \<open>
  The contract of a fair scheduler: whoever waits has a number of ticks that is left at most until its turn. No step
  raises it and every tick lowers it, so after that many ticks the one that waits has had its turn.
\<close>

fun ticks_in :: "('s \<Rightarrow> 's \<Rightarrow> bool) \<Rightarrow> 's list \<Rightarrow> nat" where
  "ticks_in tick (s # t # ss) = (if tick s t then 1 else 0) + ticks_in tick (t # ss)"
| "ticks_in tick _ = 0"

locale fair_choice =
  fixes step :: "'s \<Rightarrow> 's \<Rightarrow> bool"
    and tick :: "'s \<Rightarrow> 's \<Rightarrow> bool"
    and inv :: "'s \<Rightarrow> bool"
    and waiting :: "'s \<Rightarrow> 'i \<Rightarrow> bool"
    and chosen :: "'s \<Rightarrow> 'i"
    and left :: "'s \<Rightarrow> 'i \<Rightarrow> nat"
  assumes inv_step: "inv s \<Longrightarrow> step s t \<Longrightarrow> inv t"
    and wait_step: "inv s \<Longrightarrow> step s t \<Longrightarrow> waiting s i \<Longrightarrow> chosen t = i \<or> waiting t i \<and> left t i \<le> left s i"
    and wait_tick: "inv s \<Longrightarrow> step s t \<Longrightarrow> tick s t \<Longrightarrow> waiting s i \<Longrightarrow> chosen t = i \<or> left t i < left s i"
    and left_pos: "inv s \<Longrightarrow> waiting s i \<Longrightarrow> 0 < left s i"
begin

lemma ticks_bound:
  assumes "inv s" and "waiting s i" and "successively step (s # ss)" and "\<forall>t\<in>set ss. chosen t \<noteq> i"
  shows "ticks_in tick (s # ss) < left s i"
  using assms
proof (induction ss arbitrary: s)
  case Nil
  then show ?case by (simp add: left_pos)
next
  case (Cons t ss)
  have st: "step s t" "successively step (t # ss)" "chosen t \<noteq> i" using Cons.prems by (simp_all add: successively_Cons)
  note w = wait_step [OF Cons.prems(1) st(1) Cons.prems(2)] wait_tick [OF Cons.prems(1) st(1) _ Cons.prems(2)]
  have "ticks_in tick (t # ss) < left t i"
    using Cons.IH [of t] inv_step [OF Cons.prems(1) st(1)] w(1) st Cons.prems(4) by simp
  then show ?case using w st(3) by fastforce
qed

lemma served:
  assumes "inv s" and "waiting s i" and "successively step (s # ss)" and "left s i \<le> ticks_in tick (s # ss)"
  shows "\<exists>t\<in>set ss. chosen t = i"
  using ticks_bound [OF assms(1-3)] assms(4) by fastforce

end

end
