(* ===== verification/Sched_Correct.thy ===== *)
theory Sched_Correct
  imports Sched_Invariant Fair_Choice Minifs_Frame
begin

text \<open>
  The properties of the scheduler: the invariant of the process table in every execution, fairness, the allocation of
  process numbers, exact sleeping across the wrap of the tick counter, and \<open>waitpid\<close>.
\<close>

subsection \<open>Fairness\<close>

definition tick_step :: "kernel \<Rightarrow> kernel \<Rightarrow> bool" where
  "tick_step k k' \<longleftrightarrow> running k = None \<and> (\<exists>r. scheduler_on_tick (pit_handle_irq k) = Some (r, k'))"

text \<open>The ticks until the turn of a ready process: what is left of the slice that runs, and a slice for each slot before it.\<close>

definition ticks_left :: "kernel \<Rightarrow> nat \<Rightarrow> nat" where
  "ticks_left k i = 5 * (ahead (current_process k) i - 1) + time_left k"

lemma tick_lowers:
  assumes inv: "sched_inv k" and t: "scheduler_on_tick k = Some (r, k')" and c: "current_process k' = current_process k"
    and i: "i < 16" "p_state (proc k i) = PROCESS_READY"
  shows "time_left k' < time_left k"
proof -
  let ?k1 = "wake_sleepers k" and ?f = "\<lambda>p. p\<lparr>p_state := PROCESS_READY\<rparr>"
  note w = wake_sleepers_inv [OF inv]
  let ?n = "find_next_ready (current_process ?k1) (update_current ?f ?k1)"
  have c1: "current_process (update_current ?f ?k1) = current_process ?k1" by (simp add: update_current_def)
  have run: "p_state (proc ?k1 (current_process ?k1)) = PROCESS_RUNNING" by (rule sched_invD(2) [OF w(1)])
  show ?thesis
  proof (cases "time_slice (proc ?k1 (current_process ?k1)) > 1")
    case True
    then have k': "k' = update_current (\<lambda>p. p\<lparr>time_slice := time_slice p - 1\<rparr>) ?k1"
      using t run by (simp add: scheduler_on_tick_def Let_def)
    have "time_slice (proc ?k1 (current_process ?k1)) \<noteq> 0" using True by auto
    then have "time_left k' = time_left ?k1 - 1" unfolding k' slice_update [OF w(1)] by (subst time_left_def) (simp add: unat_minus_one)
    then show ?thesis using sched_invD(5) [OF inv] w(3) by simp
  next
    case False
    have "?n \<notin> {None, Some (current_process ?k1)}"
      using alone [OF w(1) _ _ i(1), of ?f] w(4) [OF i] by fastforce
    then obtain n where n: "?n = Some n" "n \<noteq> current_process ?k1" by auto
    then have sw: "switch_to In_Tick n (update_current ?f ?k1) = Some k'"
      using t False run by (auto simp: scheduler_on_tick_def Let_def c1 split: bind_splits)
    have "n < 16" by (rule find_next_ready_Some(1) [OF n(1) slots_okD(2) [OF sched_invD(1) [OF w(1)]]])
    then have "current_process k' = n"
      using switch_to_spec(2) [OF sw] slots_okD(1,2) [OF sched_invD(1) [OF w(1)]] n(2) c1 by (simp add: update_current_def)
    then show ?thesis using n(2) c w(2) by simp
  qed
qed

lemma ahead_pos: "c < 16 \<Longrightarrow> 0 < ahead c i"
  by (simp add: ahead_def)

lemma nearer_left:
  assumes "sched_inv k" "sched_inv k'" "nearer k k' i" "current_process k' \<noteq> i"
  shows "ticks_left k' i \<le> ticks_left k i" "current_process k' \<noteq> current_process k \<or> time_left k' < time_left k \<Longrightarrow> ticks_left k' i < ticks_left k i"
proof -
  have s: "0 < time_left k" "time_left k' \<le> 5" using sched_invD(5,6) assms by blast+
  have p: "0 < ahead (current_process k') i" using slots_okD(2) [OF sched_invD(1) [OF assms(2)]] by (rule ahead_pos)
  consider "current_process k' = current_process k" "time_left k' \<le> time_left k" | "ahead (current_process k') i < ahead (current_process k) i"
    using assms(3,4) by (auto simp: nearer_def)
  then show "ticks_left k' i \<le> ticks_left k i" "current_process k' \<noteq> current_process k \<or> time_left k' < time_left k \<Longrightarrow> ticks_left k' i < ticks_left k i"
    using s p by (cases; simp add: ticks_left_def; linarith)+
qed

interpretation round_robin: fair_choice sched_step tick_step sched_inv
  "\<lambda>k i. i < 16 \<and> p_state (proc k i) = PROCESS_READY" current_process ticks_left
proof unfold_locales
  fix s t :: kernel and i :: nat
  assume inv: "sched_inv s" and st: "sched_step s t"
  note m = step_serves [OF inv st, unfolded serves_def]
  show "sched_inv t" using m by simp
  assume i: "i < 16 \<and> p_state (proc s i) = PROCESS_READY"
  then have n: "nearer s t i" using m by simp
  note l = nearer_left [OF inv conjunct1 [OF m] n]
  show "current_process t = i \<or> (i < 16 \<and> p_state (proc t i) = PROCESS_READY) \<and> ticks_left t i \<le> ticks_left s i"
    using n l(1) i by (auto simp: nearer_def)
  assume "tick_step s t"
  then obtain r where r: "scheduler_on_tick (pit_handle_irq s) = Some (r, t)" by (auto simp: tick_step_def)
  note p = pit_irq_inv [OF inv]
  have "current_process t = current_process s \<Longrightarrow> time_left t < time_left s" using tick_lowers [OF p(1) r, of i] i by (simp add: p)
  then show "current_process t = i \<or> ticks_left t i < ticks_left s i" using l(2) by blast
next
  show "0 < ticks_left s i" if "sched_inv s" for s and i :: nat using sched_invD(5) [OF that] by (simp add: ticks_left_def)
qed

lemma ticks_left_bound:
  assumes "sched_inv k" "i < 16" "p_state (proc k i) = PROCESS_READY"
  shows "ticks_left k i \<le> 75"
proof -
  have c: "current_process k < 16" "i \<noteq> current_process k" 
    using slots_okD(2) [OF sched_invD(1) [OF assms(1)]] sched_invD(2) [OF assms(1)] assms(3) by auto
  then have "ahead (current_process k) i \<le> 15" using assms(2) by (auto simp: ahead_def)
  then show ?thesis using sched_invD(6) [OF assms(1)] by (simp add: ticks_left_def)
qed

text \<open>
  C2. Liveness of the scheduler. In every execution a ready process becomes the current one before as many timer ticks
  have passed as are left of the running slice and of five ticks for each slot in between, which is never more than 75.
\<close>
theorem ready_process_runs:
  assumes "sched_inv k" and "i < 16" and "p_state (proc k i) = PROCESS_READY"
    and "successively sched_step (k # ks)" and "ticks_left k i \<le> ticks_in tick_step (k # ks)"
  shows "ticks_left k i \<le> 75 \<and> (\<exists>k'\<in>set ks. current_process k' = i)"
  using round_robin.served [OF assms(1) conjI [OF assms(2,3)] assms(4,5)] ticks_left_bound [OF assms(1-3)] by blast

text \<open>
  C1. The invariant of the process table. Whatever calls, faults and timer ticks follow \<open>scheduler_init\<close>, exactly the
  current process is running, no two processes have the same number, every process that is ready or blocked has a
  kernel context to continue in, and none is ever switched to that has exited.
\<close>
theorem process_table_invariant:
  assumes "sched_step\<^sup>*\<^sup>* (scheduler_init boot_stack_top k0) k"
  shows "current_process k < 16 \<and> (\<forall>i<16. p_state (proc k i) = PROCESS_RUNNING \<longleftrightarrow> i = current_process k) \<and>
    (\<forall>i<16. \<forall>j<16. p_state (proc k i) \<noteq> PROCESS_UNUSED \<longrightarrow> p_state (proc k j) \<noteq> PROCESS_UNUSED \<longrightarrow>
       p_pid (proc k i) = p_pid (proc k j) \<longrightarrow> i = j) \<and>
    (\<forall>i<16. p_state (proc k i) \<in> {PROCESS_READY, PROCESS_BLOCKED} \<longrightarrow> (\<exists>c. saved_stack (proc k i) = Some c \<and> c \<noteq> In_Exit)) \<and>
    running k \<noteq> Some In_Exit"
proof -
  have inv: "sched_inv k" by (rule reachable_inv [OF assms scheduler_init_inv])
  note o = slots_okD [OF sched_invD(1) [OF inv]]
  have "\<exists>c. saved_stack (proc k i) = Some c \<and> c \<noteq> In_Exit" if "i < 16" "p_state (proc k i) \<in> {PROCESS_READY, PROCESS_BLOCKED}" for i
    using o(8) [OF that(1) _ that(2)] sched_invD(2) [OF inv] that(2) by (cases "i = current_process k") auto
  then show ?thesis using inv o(2,5) unfolding sched_inv_def pids_ok_def live_def by blast
qed

subsection \<open>Process numbers\<close>

text \<open>
  C20. The search for a process number ends. While numbers are left the next one is new; when they are used up, the search
  for one that is free tries at most the first seventeen. The result is positive, fits the signed result of the system call,
  and no process has it.
\<close>
theorem allocate_pid_total:
  assumes "pids_ok k"
  shows "\<exists>pid. fst (allocate_pid k) = Some pid \<and> 0 < sint pid \<and> find_process_by_pid pid k = None \<and>
    (if next_pid k = 0 then unat pid \<le> 17 else pid = next_pid k)"
proof (cases "next_pid k = 0")
  case True
  obtain d where d: "1 \<le> d" "d \<le> 17" "find_process_by_pid (of_nat d) k = None" using free_pid_exists by blast
  have "d \<le> PID_MAXIMUM" using d(2) by simp
  then obtain e where e: "1 \<le> e" "e \<le> d" "find_free_pid 1 k = Some (of_nat e)" "find_process_by_pid (of_nat e) k = None"
    using find_free_pid_spec [OF d(3,1)] by blast
  have u: "unat (of_nat e :: u32) = e" using e d(2) by (simp add: unat_of_nat)
  then have "sint (of_nat e :: u32) = int e" using e d(2) by (simp add: sint_u32)
  then show ?thesis using True e d(2) u by (simp add: allocate_pid_def)
next
  case False
  obtain pid where p: "allocate_pid k = (Some pid, k\<lparr>next_pid := next_pid (snd (allocate_pid k))\<rparr>)" "pid \<noteq> 0"
    "unat pid \<le> PID_MAXIMUM" "find_process_by_pid pid k = None"
    by (rule allocate_pid_spec [OF assms])
  have "pid = next_pid k" using p(1) False by (simp add: allocate_pid_def)
  moreover have "0 < int (unat pid)" using p(2) unat_gt_0 [of pid] by linarith
  then have "0 < sint pid" using p(3) by (simp add: sint_u32)
  ultimately show ?thesis using p False by (metis fst_conv)
qed

subsection \<open>Sleeping\<close>

lemma deadline:
  assumes n: "unat (n :: u32) \<le> 2147483647" and m: "m < 2147483648"
  shows "0 \<le> sint ((c + of_nat m) - (c + n)) \<longleftrightarrow> unat n \<le> m"
proof -
  have u: "unat (of_nat m :: u32) = m" using m by (simp add: unat_of_nat)
  have d: "(c + of_nat m) - (c + n) = of_nat m - n" by simp
  show ?thesis
  proof (cases "unat n \<le> m")
    case True
    then have "unat (of_nat m - n :: u32) = m - unat n" using u by (simp add: unat_sub word_le_nat_alt)
    then show ?thesis using True m unfolding d sint_nonneg by linarith
  next
    case False
    have "unat (of_nat m - n :: u32) = 4294967296 + m - unat n"
      using False u unat_sub_if' [of "of_nat m :: u32" n] by (simp add: unat_sub_if')
    then show ?thesis using False n unfolding d sint_nonneg by linarith
  qed
qed

lemma sleep_switched:
  assumes inv: "sched_inv k" and s: "scheduler_sleep_current n k = Some (Switched, k1)" and n: "n \<noteq> 0"
  shows "unat n \<le> 2147483647" "p_state (proc k1 (current_process k)) = PROCESS_BLOCKED"
    "wait_node (proc k1 (current_process k)) = None" "wake_tick (proc k1 (current_process k)) = tick_count k + n"
    "p_pid (proc k1 (current_process k)) = p_pid (proc k (current_process k))" "tick_count k1 = tick_count k"
proof -
  obtain flags k0 where k0: "kernel_irq_save k = (flags, k0)" by fastforce
  note s0 = same_schedD [OF same_sched_irq_save [OF k0]]
  have inv0: "sched_inv k0" by (rule sched_inv_same [OF inv same_slots_irq(2) [OF k0]])
  let ?f = "\<lambda>p. p\<lparr>wake_tick := tick_count k0 + n, wait_node := None, p_state := PROCESS_BLOCKED\<rparr>"
  have "n \<le> SLEEP_MAXIMUM_TICKS" using s n by (auto simp: scheduler_sleep_current_def not_less split: if_splits)
  then show "unat n \<le> 2147483647" by (simp add: word_le_nat_alt)
  obtain j where j: "find_next_ready (current_process k0) k0 = Some j" and sw: "switch_to (In_Sleep flags) j (update_current ?f k0) = Some k1"
    using s n k0 by (auto simp: scheduler_sleep_current_def split: if_splits option.splits bind_splits)
  note c = slots_okD(1,2) [OF sched_invD(1) [OF inv0]]
  note f = find_next_ready_Some(1,2) [OF j c(2)]
  have ne: "j \<noteq> current_process k0" using f(2) sched_invD(2) [OF inv0] by auto
  note st = stop_current [OF inv0, of ?f PROCESS_BLOCKED, simplified]
  have "proc k1 (current_process k0) = (?f (proc k0 (current_process k0)))\<lparr>saved_stack := Some (In_Sleep flags)\<rparr>"
    using switch_to_spec(6) [OF sw slots_okD(1,2) [OF st(1)] f(1), of "current_process k0"] ne st(4,5) by simp
  then show "p_state (proc k1 (current_process k)) = PROCESS_BLOCKED"
    "wait_node (proc k1 (current_process k)) = None" "wake_tick (proc k1 (current_process k)) = tick_count k + n"
    "p_pid (proc k1 (current_process k)) = p_pid (proc k (current_process k))"
    using s0 by simp_all
  show "tick_count k1 = tick_count k"
    using switch_to_spec(4) [OF sw slots_okD(1,2) [OF st(1)] f(1)] ne st(5) s0 by (simp add: update_current_def)
qed

text \<open>An execution together with the number of timer ticks in it.\<close>

inductive execution :: "kernel \<Rightarrow> nat \<Rightarrow> kernel \<Rightarrow> bool" where
  begins: "execution k 0 k"
| step: "execution k m k1 \<Longrightarrow> sched_step k1 k2 \<Longrightarrow> \<not> tick_step k1 k2 \<Longrightarrow> execution k m k2"
| tick: "execution k m k1 \<Longrightarrow> tick_step k1 k2 \<Longrightarrow> execution k (Suc m) k2"

lemma tick_step_step: "tick_step k k' \<Longrightarrow> sched_step k k'"
  by (auto simp: tick_step_def intro: sched_step.tick)

lemma execution_steps: "execution k m k' \<Longrightarrow> sched_step\<^sup>*\<^sup>* k k'"
  by (induction rule: execution.induct) (auto dest: tick_step_step)

lemma steps_execution: "sched_step\<^sup>*\<^sup>* k k' \<Longrightarrow> \<exists>m. execution k m k'"
  by (induction rule: rtranclp_induct) (auto intro: execution.intros)

lemma tick_wakes:
  assumes inv: "sched_inv k" and t: "tick_step k k'" and i: "i < 16" "asleep k i"
  shows "tick_count k' = tick_count k + 1"
    and "0 < i \<Longrightarrow> 0 \<le> sint (tick_count k + 1 - wake_tick (proc k i)) \<Longrightarrow>
      p_state (proc k' i) = (if current_process k' = i then PROCESS_RUNNING else PROCESS_READY)"
    and "i = 0 \<or> sint (tick_count k + 1 - wake_tick (proc k i)) < 0 \<Longrightarrow>
      asleep k' i \<and> wake_tick (proc k' i) = wake_tick (proc k i) \<and> p_pid (proc k' i) = p_pid (proc k i)"
proof -
  let ?p = "pit_handle_irq k"
  note p = pit_irq_inv [OF inv]
  have c: "tick_count ?p = tick_count k + 1" by (simp add: pit_handle_irq_def)
  obtain r where r: "scheduler_on_tick ?p = Some (r, k')" using t by (auto simp: tick_step_def)
  note w = wake_sleepers_spec [OF slots_okD(1) [OF sched_invD(1) [OF p(1)]]]
  note m = tick_moves [OF p(1) r, unfolded moves_def serves_def]
  then have u: "undisturbed (wake_sleepers ?p) k'" and inv': "sched_inv k'" by simp_all
  show "tick_count k' = tick_count k + 1" using u w(5) c by (simp add: undisturbed_def)
  have over: "sleep_over ?p i \<longleftrightarrow> 0 \<le> sint (tick_count k + 1 - wake_tick (proc k i))"
    using i(2) p(4) c by (simp add: sleep_over_def asleep_def)
  show "p_state (proc k' i) = (if current_process k' = i then PROCESS_RUNNING else PROCESS_READY)"
    if "0 < i" "0 \<le> sint (tick_count k + 1 - wake_tick (proc k i))"
  proof -
    have "p_state (proc (wake_sleepers ?p) i) = PROCESS_READY" using w(6) [OF i(1)] over that by simp
    then have "nearer (wake_sleepers ?p) k' i" using m i(1) by blast
    then show ?thesis using sched_invD(2) [OF inv'] by (auto simp: nearer_def)
  qed
  show "asleep k' i \<and> wake_tick (proc k' i) = wake_tick (proc k i) \<and> p_pid (proc k' i) = p_pid (proc k i)"
    if "i = 0 \<or> sint (tick_count k + 1 - wake_tick (proc k i)) < 0"
  proof -
    have "proc (wake_sleepers ?p) i = proc k i" using w(6) [OF i(1)] over that p(4) by auto
    then show ?thesis using u i by (simp add: undisturbed_def asleep_def)
  qed
qed

lemma stays_asleep:
  assumes inv: "sched_inv k" and n: "unat n \<le> 2147483647" and i: "i < 16" "asleep k i" "wake_tick (proc k i) = tick_count k + n"
    and e: "execution k m k'" and m: "m < unat n \<or> i = 0"
  shows "sched_inv k' \<and> tick_count k' = tick_count k + of_nat m \<and> asleep k' i \<and> wake_tick (proc k' i) = tick_count k + n \<and>
    p_pid (proc k' i) = p_pid (proc k i)"
  using e inv i m
proof (induction rule: execution.induct)
  case (step k m k1 k2)
  then have "sched_inv k1" by blast
  then have "moves k1 k2" using step_cases [OF _ step.hyps(2)] step.hyps(3) by (auto simp: tick_step_def)
  then show ?case using step by (simp add: moves_def serves_def undisturbed_def)
next
  case (tick k m k1 k2)
  then have IH: "sched_inv k1" "tick_count k1 = tick_count k + of_nat m" "asleep k1 i" "wake_tick (proc k1 i) = tick_count k + n"
    "p_pid (proc k1 i) = p_pid (proc k i)" by auto
  note w = tick_wakes [OF IH(1) tick.hyps(2) tick.prems(2) IH(3)]
  have "sint (tick_count k1 + 1 - wake_tick (proc k1 i)) < 0" if "i \<noteq> 0"
  proof -
    have "Suc m < unat n" using that tick.prems by simp
    then show ?thesis using deadline [OF n, of "Suc m" "tick_count k"] n IH(2,4) by (simp add: algebra_simps not_le [symmetric])
  qed
  then have "asleep k2 i \<and> wake_tick (proc k2 i) = wake_tick (proc k1 i) \<and> p_pid (proc k2 i) = p_pid (proc k1 i)" using w(3) by (cases "i = 0") simp_all
  moreover have "sched_inv k2" using step_serves [OF IH(1) tick_step_step [OF tick.hyps(2)]] by (simp add: serves_def)
  ultimately show ?case using IH w(1) by (simp add: algebra_simps)
qed simp

text \<open>
  C19. Sleeping is exact across the wrap of the tick counter, in every execution. A process that sleeps for \<open>n\<close> ticks, with
  \<open>n\<close> from 1 to \<open>0x7FFFFFFF\<close>, stays blocked, whatever the other processes and the kernel do, as long as fewer than \<open>n\<close> ticks have passed,
  and the \<open>n\<close>-th tick makes it ready or lets it run at once. The boot process, in slot 0, is the exception: the loop of the tick
  begins at slot 1, so that once asleep it is blocked in every execution, however many ticks pass.
\<close>
theorem sleep_wakes_exactly:
  assumes "sched_inv k" and "scheduler_sleep_current n k = Some (Switched, k1)" and "n \<noteq> 0" and "execution k1 m k2"
  shows "(m < unat n \<or> current_process k = 0 \<longrightarrow> p_state (proc k2 (current_process k)) = PROCESS_BLOCKED \<and>
      p_pid (proc k2 (current_process k)) = p_pid (proc k (current_process k))) \<and>
    (0 < current_process k \<longrightarrow> Suc m = unat n \<longrightarrow> tick_step k2 k3 \<longrightarrow>
      p_state (proc k3 (current_process k)) = (if current_process k3 = current_process k then PROCESS_RUNNING else PROCESS_READY))"
proof -
  let ?c = "current_process k"
  note z = sleep_switched [OF assms(1-3)]
  have c: "?c < 16" by (rule slots_okD(2) [OF sched_invD(1) [OF assms(1)]])
  have a: "asleep k1 ?c" "wake_tick (proc k1 ?c) = tick_count k1 + n" using z by (simp_all add: asleep_def)
  have inv1: "sched_inv k1" using sleep_moves [OF assms(1,2)] by (simp add: moves_def serves_def)
  note s = stays_asleep [OF inv1 z(1) c a assms(4)]
  have "p_state (proc k3 ?c) = (if current_process k3 = ?c then PROCESS_RUNNING else PROCESS_READY)"
    if h: "0 < ?c" "Suc m = unat n" "tick_step k2 k3"
  proof (rule tick_wakes(2) [OF _ h(3) c _ h(1)])
    have n: "n = of_nat m + 1" using arg_cong [OF h(2), of "of_nat :: nat \<Rightarrow> u32"] by (simp add: algebra_simps)
    show "0 \<le> sint (tick_count k2 + 1 - wake_tick (proc k2 ?c))"
      using s h(2) by (simp add: n)
  qed (use s h(2) in simp_all)
  then show ?thesis using s z(5) by (simp add: asleep_def)
qed

subsection \<open>Waiting for a child\<close>

lemma find_child_None: "find_child parent pid z k = None \<longleftrightarrow> (\<forall>i. 1 \<le> i \<longrightarrow> i < 16 \<longrightarrow> \<not> is_child parent pid z k i)"
  by (auto simp: find_child_def for_find_None_iff)

lemma is_child_same: "same_sched k k' \<Longrightarrow> is_child parent pid z k' i = is_child parent pid z k i"
  by (simp add: is_child_def same_schedD(6))

lemma waitpid_reaps:
  assumes inv: "sched_inv k" and w: "waitpid_loop pid flags k = Some (Returned (result, Some status), k')"
  shows "\<exists>child. child < 16 \<and> is_child (current_process k) pid True k child \<and> result = sint (p_pid (proc k child)) \<and>
    status = exit_code (proc k child) \<and> (\<forall>j<16. proc k' j = (if j = child then cleared_process else proc k j))"
proof -
  obtain child where c: "find_child (current_process k) pid True k = Some child"
    using w by (auto simp: waitpid_loop_def Let_def split: option.splits bind_splits)
  obtain k1 where k1: "reap_process child k = Some (True, k1)" and k': "k' = kernel_irq_restore flags k1"
    and r: "result = sint (p_pid (proc k child))" "status = exit_code (proc k child)"
    using w c by (auto simp: waitpid_loop_def Let_def split: bind_splits if_splits)
  note f = find_child_Some [OF c]
  have "proc k' = proc k1" by (rule same_schedD(6)) (simp add: k')
  then show ?thesis using f r reap_spec(8) [OF k1 slots_okD(1) [OF sched_invD(1) [OF inv]] f(2)] by auto
qed

lemma waitpid_refuses:
  assumes inv: "sched_inv k" and w: "waitpid_loop pid flags k = Some (Returned (result, None), k')"
  shows "result = - MINIOS_ECHILD \<and> (\<forall>i. 1 \<le> i \<longrightarrow> i < 16 \<longrightarrow> \<not> is_child (current_process k) pid True k i) \<and>
    ((\<forall>i. 1 \<le> i \<longrightarrow> i < 16 \<longrightarrow> \<not> is_child (current_process k) pid False k i) \<or> (\<forall>i<16. p_state (proc k i) \<noteq> PROCESS_READY))"
proof -
  have n: "find_child (current_process k) pid True k = None"
    using w by (auto simp: waitpid_loop_def Let_def split: option.splits bind_splits if_splits)
  show ?thesis
  proof (cases "find_child (current_process k) pid False k")
    case None
    then have "result = - MINIOS_ECHILD" using w n by (simp add: waitpid_loop_def Let_def)
    then show ?thesis using n None by (simp add: find_child_None)
  next
    case (Some child)
    let ?f = "\<lambda>p. p\<lparr>p_state := PROCESS_BLOCKED, wait_node := Some (if pid = -1 then current_process k else child)\<rparr>"
    have r: "result = - MINIOS_ECHILD" "find_next_ready (current_process k) (update_current ?f k) = None"
      using w n Some by (auto simp: waitpid_loop_def Let_def update_current_def split: option.splits bind_splits)
    note st = stop_current [OF inv, of ?f PROCESS_BLOCKED, simplified]
    have "p_state (proc k i) \<noteq> PROCESS_READY" if "i < 16" for i
      using find_next_ready_None [OF r(2) _ that] st(3) [OF that] sched_invD(2) [OF inv] slots_okD(2) [OF sched_invD(1) [OF inv]]
      by (cases "i = current_process k") auto
    then show ?thesis using r(1) n by (simp add: find_child_None)
  qed
qed

lemma waitpid_blocks:
  assumes inv: "sched_inv k" and w: "waitpid_loop pid flags k = Some (Switched, k')"
  shows "\<exists>child. child < 16 \<and> is_child (current_process k) pid False k child \<and> p_state (proc k child) \<noteq> PROCESS_ZOMBIE \<and>
    p_state (proc k' (current_process k)) = PROCESS_BLOCKED \<and> saved_stack (proc k' (current_process k)) = Some (In_Waitpid pid flags) \<and>
    wait_node (proc k' (current_process k)) = Some (if pid = -1 then current_process k else child)"
proof -
  have n: "find_child (current_process k) pid True k = None"
    using w by (auto simp: waitpid_loop_def Let_def split: option.splits bind_splits if_splits)
  obtain child where c: "find_child (current_process k) pid False k = Some child"
    using w n by (auto simp: waitpid_loop_def Let_def split: option.splits)
  let ?f = "\<lambda>p. p\<lparr>p_state := PROCESS_BLOCKED, wait_node := Some (if pid = -1 then current_process k else child)\<rparr>"
  obtain j where j: "find_next_ready (current_process k) (update_current ?f k) = Some j"
    and sw: "switch_to (In_Waitpid pid flags) j (update_current ?f k) = Some k'"
    using w n c by (auto simp: waitpid_loop_def Let_def update_current_def split: option.splits bind_splits)
  note st = stop_current [OF inv, of ?f PROCESS_BLOCKED, simplified]
  note f = find_next_ready_Some(1,2) [OF j slots_okD(2) [OF sched_invD(1) [OF inv]]]
  have ne: "j \<noteq> current_process k" using f(2) st(4) by auto
  have "proc k' (current_process k) = (?f (proc k (current_process k)))\<lparr>saved_stack := Some (In_Waitpid pid flags)\<rparr>"
    using switch_to_spec(6) [OF sw slots_okD(1,2) [OF st(1)] f(1), of "current_process k"] ne st(4,5) by simp
  moreover note fc = find_child_Some [OF c]
  moreover have "p_state (proc k child) \<noteq> PROCESS_ZOMBIE" using n fc by (auto simp: find_child_None is_child_def)
  ultimately show ?thesis by auto
qed

text \<open>
  C18. Waiting for a child, for a number or for any. A call that returns a status returns the number and the exit code of a
  child that has exited, and only its slot is cleared. A call that fails has no such child, and either no child that matches at
  all or nobody to switch to. A call that does not return at once leaves the caller blocked on a child that has not exited.
\<close>
theorem waitpid_correct:
  assumes "sched_inv k" and "pid = -1 \<or> 0 < pid" and "scheduler_waitpid pid k = Some (r, k')"
  shows "case r of
      Returned (result, Some status) \<Rightarrow> \<exists>child<16. is_child (current_process k) pid True k child \<and> p_state (proc k child) = PROCESS_ZOMBIE \<and>
        result = sint (p_pid (proc k child)) \<and> status = exit_code (proc k child) \<and>
        (\<forall>j<16. proc k' j = (if j = child then cleared_process else proc k j))
    | Returned (result, None) \<Rightarrow> result = - MINIOS_ECHILD \<and> (\<forall>i. 1 \<le> i \<longrightarrow> i < 16 \<longrightarrow> \<not> is_child (current_process k) pid True k i) \<and>
        ((\<forall>i. 1 \<le> i \<longrightarrow> i < 16 \<longrightarrow> \<not> is_child (current_process k) pid False k i) \<or> (\<forall>i<16. p_state (proc k i) \<noteq> PROCESS_READY))
    | Switched \<Rightarrow> \<exists>child<16. is_child (current_process k) pid False k child \<and> p_state (proc k child) \<noteq> PROCESS_ZOMBIE \<and>
        p_state (proc k' (current_process k)) = PROCESS_BLOCKED \<and>
        wait_node (proc k' (current_process k)) = Some (if pid = -1 then current_process k else child)"
proof -
  obtain flags k0 where k0: "kernel_irq_save k = (flags, k0)" by fastforce
  note s = same_sched_irq_save [OF k0]
  note s0 = same_schedD [OF s]
  have inv: "sched_inv k0" by (rule sched_inv_same [OF assms(1) same_sched_slots [OF s]])
  have w: "waitpid_loop pid flags k0 = Some (r, k')" using assms(2,3) k0 by (auto simp: scheduler_waitpid_def)
  show ?thesis
    using waitpid_reaps [OF inv, of pid flags] waitpid_refuses [OF inv, of pid flags] waitpid_blocks [OF inv, of pid flags] w s0
    by (auto simp: is_child_same [OF s] split: outcome.splits option.splits) (auto simp: is_child_def)
qed

subsection \<open>A kernel with a boot process and a thread\<close>

definition sample_boot_process :: process where
  "sample_boot_process = cleared_process\<lparr>p_state := PROCESS_RUNNING, kernel_stack_top := 0xC0010000, time_slice := 1\<rparr>"

definition sample_thread :: process where
  "sample_thread = cleared_process\<lparr>p_pid := 1, p_state := PROCESS_READY, saved_stack := Some Thread_Trampoline,
     kernel_stack_top := 0xD1004018, kernel_stack_allocation := 0xD1000018, time_slice := 5\<rparr>"

definition sample_kernel :: kernel where
  "sample_kernel = \<lparr>k_heap = \<lparr>blocks = (\<lambda>_. \<lparr>blk_magic = 0, blk_size = 0, blk_prev = 0, blk_next = 0, blk_state = 0, blk_reserved = 0\<rparr>),
       heap_head = 0, heap_end = 0, heap_mapped_pages = 0, heap_initialized = False, mach = sample_machine\<rparr>, k_fs = sample_minifs,
     process_table = sample_boot_process # sample_thread # replicate 14 cleared_process, current_process = 0, next_pid = 2,
     running = None, tick_count = 0, tss_esp0 = 0xC0010000, file_table = [], vfs_initialized = False, vfs_busy = False,
     last_user_fault_pid = 0, last_user_fault_address = 0, last_user_fault_error = 0, last_user_fault_eip = 0\<rparr>"

lemma sample_kernel_fields [simp]:
  "length (process_table sample_kernel) = 16" "current_process sample_kernel = 0" "next_pid sample_kernel = 2"
  "running sample_kernel = None" "tick_count sample_kernel = 0" "machine_of sample_kernel = sample_machine"
  by (simp_all add: sample_kernel_def machine_of_def)

lemma sample_kernel_proc:
  "i < 16 \<Longrightarrow> proc sample_kernel i = (if i = 0 then sample_boot_process else if i = 1 then sample_thread else cleared_process)"
  by (auto simp: sample_kernel_def proc_def nth_Cons' nth_replicate)

lemma sample_process_fields [simp]:
  "p_pid sample_boot_process = 0" "p_state sample_boot_process = PROCESS_RUNNING" "time_slice sample_boot_process = 1"
  "p_pid sample_thread = 1" "p_state sample_thread = PROCESS_READY" "saved_stack sample_thread = Some Thread_Trampoline"
  "time_slice sample_thread = 5" "page_directory sample_thread = 0" "kernel_stack_top sample_thread = 0xD1004018"
  "parent_pid sample_thread = 0" "p_state cleared_process = PROCESS_UNUSED"
  by (simp_all add: sample_boot_process_def sample_thread_def cleared_process_def)

lemma sample_kernel_inv: "sched_inv sample_kernel"
proof -
  have live: "live sample_kernel i \<longleftrightarrow> i = 0 \<or> i = 1" if "i < 16" for i using that by (simp add: live_def sample_kernel_proc)
  have "pids_ok sample_kernel"
    unfolding pids_ok_def by (auto simp: live sample_kernel_proc)
  moreover have "live sample_kernel 0" by (simp add: live)
  ultimately have "slots_ok sample_kernel" by (auto simp: slots_ok_def sample_kernel_proc split: if_splits)
  then show ?thesis by (simp add: sched_inv_def time_left_def sample_kernel_proc)
qed

lemma sample_next: "find_next_ready 0 k = Some 1" if "p_state (proc k 1) = PROCESS_READY"
proof -
  have "for_find 1 17 (\<lambda>offset. p_state (proc k ((0 + offset) mod 16)) = PROCESS_READY) = Some 1"
    using that by (simp add: for_find_Some_iff)
  then show ?thesis by (simp add: find_next_ready_def)
qed

lemma switch_to_thread:
  assumes "n < length (process_table k)" "page_directory (proc k n) = 0" "kernel_stack_top (proc k n) \<noteq> 0"
    and "vmm_initialized (machine_of k)" "kernel_page_directory_physical (machine_of k) = 0x1000"
  shows "\<exists>k'. switch_to here n k = Some k'"
proof -
  obtain k1 where k1: "activate_space 0 k = Some k1"
    using assms(4,5) by (auto simp: activate_space_def on_machine_def vmm_activate_kernel_address_space_def vmm_activate_page_directory_def)
  note s = same_schedD [OF same_sched_activate [OF k1]]
  have "n < length (process_table (k1\<lparr>current_process := n\<rparr>))" using assms(1) s(1) by simp
  then show ?thesis using k1 assms(2,3) s by (simp add: switch_to_def gdt_set_kernel_stack_def proc_update Let_def)
qed

lemma sample_machine_kernel: "kernel_page_directory_physical sample_machine = 0x1000"
  by (simp add: sample_machine_def)

lemma machine_of_update [simp]: "machine_of (update_process i f k) = machine_of k" "machine_of (update_current f k) = machine_of k"
  by (simp_all add: machine_of_def update_process_def update_current_def)

lemma machine_of_wake_sleepers: "machine_of (wake_sleepers k) = machine_of k"
  unfolding wake_sleepers_def by (rule for_range_rule [where I = "\<lambda>_ s. machine_of s = machine_of k"]) simp_all

lemma sample_step_down:
  assumes "current_process k = 0" "length (process_table k) = 16" "proc k 1 = sample_thread"
    and "vmm_initialized (machine_of k)" "kernel_page_directory_physical (machine_of k) = 0x1000"
  shows "find_next_ready 0 (update_current f k) = Some 1" "\<exists>k'. switch_to here 1 (update_current f k) = Some k'"
proof -
  have p: "proc (update_current f k) 1 = sample_thread" using assms(1-3) by (simp add: update_current_def proc_update)
  show "find_next_ready 0 (update_current f k) = Some 1" by (rule sample_next) (simp only: p sample_process_fields)
  show "\<exists>k'. switch_to here 1 (update_current f k) = Some k'"
  proof (rule switch_to_thread)
    show "1 < length (process_table (update_current f k))" using assms(2) by (simp add: update_current_def)
  qed (use assms p in simp_all)
qed

theorem ready_process_runs_witness:
  "\<exists>r k'. scheduler_on_tick (pit_handle_irq sample_kernel) = Some (r, k') \<and> current_process k' = 1"
proof -
  let ?k = "pit_handle_irq sample_kernel"
  let ?w = "wake_sleepers ?k"
  note inv = pit_irq_inv [OF sample_kernel_inv]
  have l: "length (process_table ?k) = 16" by (simp add: pit_handle_irq_def)
  note ws = wake_sleepers_spec [OF l]
  have p: "proc ?w 0 = sample_boot_process" "proc ?w 1 = sample_thread" "current_process ?w = 0"
    by (simp_all add: ws(2,6) inv(3,4) sample_kernel_proc sleep_over_def)
  have m: "machine_of ?w = sample_machine"
    unfolding machine_of_wake_sleepers by (simp add: pit_handle_irq_def machine_of_def) (simp add: sample_kernel_def)
  note d = sample_step_down [OF p(3) ws(1) p(2)]
  obtain k' where k': "scheduler_on_tick ?k = Some (Switched, k')"
    using p d(1) d(2) [where f = "\<lambda>p. p\<lparr>p_state := PROCESS_READY\<rparr>" and here = In_Tick] m sample_machine_kernel
    by (auto simp: scheduler_on_tick_def Let_def) (simp add: update_current_def)
  have step: "sched_step sample_kernel k'" by (rule sched_step.tick [OF _ k']) simp
  have "tick_step sample_kernel k'" using k' by (simp add: tick_step_def)
  then have "\<exists>k''\<in>set [k']. current_process k'' = 1"
    using ready_process_runs [OF sample_kernel_inv, of 1 "[k']"] step
    by (simp add: sample_kernel_proc ticks_left_def ahead_def time_left_def)
  then show ?thesis using k' by auto
qed

theorem process_table_invariant_witness:
  "\<exists>k. sched_step (scheduler_init 0xC0010000 sample_kernel) k \<and> p_state (proc k (current_process k)) = PROCESS_RUNNING"
proof -
  let ?i = "scheduler_init 0xC0010000 sample_kernel"
  obtain ok k where k: "scheduler_set_current_working_directory [0x2F, 0x62, 0] ?i = (ok, k)" by fastforce
  have st: "sched_step ?i k" by (rule sched_step.set_cwd [OF _ k]) (simp add: scheduler_init_def Let_def)
  have "p_state (proc k (current_process k)) = PROCESS_RUNNING"
    using process_table_invariant [of "0xC0010000" sample_kernel k] st by (simp add: r_into_rtranclp)
  then show ?thesis using st by blast
qed

theorem allocate_pid_total_witness:
  "\<exists>pid. fst (allocate_pid (sample_kernel\<lparr>next_pid := 0\<rparr>)) = Some pid \<and> 0 < sint pid \<and> unat pid \<le> 17"
proof -
  have "pids_ok (sample_kernel\<lparr>next_pid := 0\<rparr>)"
    using slots_okD(5) [OF sched_invD(1) [OF sample_kernel_inv]] by (simp add: pids_ok_def live_def)
  then show ?thesis using allocate_pid_total [of "sample_kernel\<lparr>next_pid := 0\<rparr>"] by auto
qed

theorem waitpid_correct_witness:
  "\<exists>k'. scheduler_waitpid 1 sample_kernel = Some (Switched, k') \<and> p_state (proc k' 0) = PROCESS_BLOCKED"
proof -
  obtain flags k0 where k0: "kernel_irq_save sample_kernel = (flags, k0)" by fastforce
  note s = same_schedD [OF same_sched_irq_save [OF k0]]
  have m: "vmm_initialized (machine_of k0)" "kernel_page_directory_physical (machine_of k0) = 0x1000"
    using k0 by (auto simp: kernel_irq_save_def irq_save_disable_def machine_of_def with_machine_def)
      (simp_all add: sample_kernel_def sample_machine_kernel)
  note d = sample_step_down [of k0, OF _ _ _ m]
  have n: "find_child 0 1 True k0 = None" "find_child 0 1 False k0 = Some 1"
    by (auto simp: find_child_None s(6) is_child_def sample_kernel_proc)
      (auto simp: find_child_def for_find_Some_iff is_child_def s(6) sample_kernel_proc)
  let ?f = "\<lambda>p. p\<lparr>p_state := PROCESS_BLOCKED, wait_node := Some 1\<rparr>"
  obtain k' where k': "switch_to (In_Waitpid 1 flags) 1 (update_current ?f k0) = Some k'"
    "find_next_ready 0 (update_current ?f k0) = Some 1"
    using d(1) [where f = ?f] d(2) [where f = ?f and here = "In_Waitpid 1 flags"] s by (auto simp: sample_kernel_proc)
  then have "scheduler_waitpid 1 sample_kernel = Some (Switched, k')"
    using n s(2) by (simp add: scheduler_waitpid_def k0 waitpid_loop_def Let_def update_current_def)
  then show ?thesis using waitpid_correct [OF sample_kernel_inv, of 1 Switched k'] by auto
qed

text \<open>The thread runs, two ticks before the tick counter wraps.\<close>

definition sample_sleeper :: kernel where
  "sample_sleeper = sample_kernel\<lparr>process_table := sample_boot_process\<lparr>p_state := PROCESS_READY, saved_stack := Some In_Tick\<rparr> #
     sample_thread\<lparr>p_state := PROCESS_RUNNING\<rparr> # replicate 14 cleared_process, current_process := 1, tick_count := 0xFFFFFFFE\<rparr>"

lemma sample_sleeper_proc:
  "i < 16 \<Longrightarrow> proc sample_sleeper i = (if i = 0 then sample_boot_process\<lparr>p_state := PROCESS_READY, saved_stack := Some In_Tick\<rparr>
     else if i = 1 then sample_thread\<lparr>p_state := PROCESS_RUNNING\<rparr> else cleared_process)"
  by (auto simp: sample_sleeper_def proc_def nth_Cons' nth_replicate)

lemma sample_sleeper_fields [simp]:
  "length (process_table sample_sleeper) = 16" "current_process sample_sleeper = 1" "next_pid sample_sleeper = 2"
  "running sample_sleeper = None" "tick_count sample_sleeper = 0xFFFFFFFE" "machine_of sample_sleeper = sample_machine"
  by (simp_all add: sample_sleeper_def) (simp add: machine_of_def sample_kernel_def)

lemma sample_sleeper_inv: "sched_inv sample_sleeper"
proof -
  have live: "live sample_sleeper i \<longleftrightarrow> i = 0 \<or> i = 1" if "i < 16" for i using that by (simp add: live_def sample_sleeper_proc)
  have "pids_ok sample_sleeper" unfolding pids_ok_def by (auto simp: live sample_sleeper_proc)
  moreover have "live sample_sleeper 0" by (simp add: live)
  ultimately have "slots_ok sample_sleeper" by (auto simp: slots_ok_def sample_sleeper_proc split: if_splits)
  then show ?thesis by (simp add: sched_inv_def time_left_def sample_sleeper_proc)
qed

lemma sample_sleeper_sleeps: "\<exists>k1. scheduler_sleep_current 3 sample_sleeper = Some (Switched, k1)"
proof -
  obtain flags k0 where k0: "kernel_irq_save sample_sleeper = (flags, k0)" by fastforce
  note s = same_schedD [OF same_sched_irq_save [OF k0]]
  have m: "vmm_initialized (machine_of k0)" "kernel_page_directory_physical (machine_of k0) = 0x1000"
    using k0 by (auto simp: kernel_irq_save_def irq_save_disable_def machine_of_def with_machine_def)
      (simp_all add: sample_sleeper_def sample_kernel_def sample_machine_kernel)
  have "for_find 1 17 (\<lambda>offset. p_state (proc k0 ((1 + offset) mod 16)) = PROCESS_READY) = Some 15"
    by (simp add: for_find_Some_iff s(6) sample_sleeper_proc)
  then have n: "find_next_ready 1 k0 = Some 0" by (simp add: find_next_ready_def)
  let ?f = "\<lambda>p. p\<lparr>wake_tick := tick_count k0 + 3, wait_node := None, p_state := PROCESS_BLOCKED\<rparr>"
  have p: "proc (update_current ?f k0) 0 = proc sample_sleeper 0" using s by (simp add: update_current_def proc_update)
  have "\<exists>k'. switch_to (In_Sleep flags) 0 (update_current ?f k0) = Some k'"
  proof (rule switch_to_thread)
    show "0 < length (process_table (update_current ?f k0))" using s by (simp add: update_current_def)
    show "page_directory (proc (update_current ?f k0) 0) = 0" "kernel_stack_top (proc (update_current ?f k0) 0) \<noteq> 0"
      unfolding p by (simp_all add: sample_sleeper_proc sample_boot_process_def cleared_process_def)
  qed (use m in simp_all)
  then show ?thesis using n k0 s(2) by (auto simp: scheduler_sleep_current_def)
qed

lemma tick_step_exists:
  assumes inv: "sched_inv k" and "running k = None" and t: "1 < time_left k"
  shows "\<exists>k'. tick_step k k' \<and> running k' = None \<and> current_process k' = current_process k \<and> time_left k' = time_left k - 1"
proof -
  let ?k = "wake_sleepers (pit_handle_irq k)" and ?f = "\<lambda>p. p\<lparr>time_slice := time_slice p - 1\<rparr>"
  note p = pit_irq_inv [OF inv]
  note w = wake_sleepers_inv [OF p(1)]
  have t1: "1 < time_left ?k" using t w(3) p(2) by simp
  then have s: "time_slice (proc ?k (current_process ?k)) > 1" by (simp add: time_left_def word_less_nat_alt)
  then have nz: "time_slice (proc ?k (current_process ?k)) \<noteq> 0" by auto
  have "scheduler_on_tick (pit_handle_irq k) = Some (Returned (), update_current ?f ?k)"
    using s sched_invD(2) [OF w(1)] by (simp add: scheduler_on_tick_def Let_def)
  moreover have "time_left (update_current ?f ?k) = time_left k - 1"
    using w(3) p(2) nz by (simp add: slice_update [OF w(1)]) (simp add: time_left_def unat_minus_one)
  moreover have "running ?k = None"
    using wake_sleepers_spec(4) [OF slots_okD(1) [OF sched_invD(1) [OF p(1)]]] assms(2) by (simp add: pit_handle_irq_def)
  ultimately show ?thesis using assms(2) w(2) p(3) by (auto simp: tick_step_def update_current_def)
qed

lemma sample_sleeper_resumes:
  assumes "scheduler_sleep_current 3 sample_sleeper = Some (Switched, k1)"
  shows "\<exists>k. execution k1 0 k \<and> sched_inv k \<and> running k = None \<and> current_process k = 0 \<and> time_left k = 5"
proof -
  obtain flags k0 where k0: "kernel_irq_save sample_sleeper = (flags, k0)" by fastforce
  note s0 = same_schedD [OF same_sched_irq_save [OF k0]]
  have "for_find 1 17 (\<lambda>offset. p_state (proc k0 ((1 + offset) mod 16)) = PROCESS_READY) = Some 15"
    by (simp add: for_find_Some_iff s0(6) sample_sleeper_proc)
  then have n: "find_next_ready 1 k0 = Some 0" by (simp add: find_next_ready_def)
  let ?f = "\<lambda>p. p\<lparr>wake_tick := tick_count k0 + 3, wait_node := None, p_state := PROCESS_BLOCKED\<rparr>"
  have sw: "switch_to (In_Sleep flags) 0 (update_current ?f k0) = Some k1"
    using assms k0 n s0(2) by (auto simp: scheduler_sleep_current_def split: bind_splits)
  have l: "length (process_table (update_current ?f k0)) = 16" "current_process (update_current ?f k0) = 1"
    using s0 by (simp_all add: update_current_def)
  have p: "proc (update_current ?f k0) 0 = proc sample_sleeper 0" using s0 by (simp add: update_current_def proc_update)
  note w = switch_to_spec [OF sw l(1)]
  have "running k1 = Some In_Tick" "current_process k1 = 0" "time_left k1 = 5"
    using w(2,5,6) l(2) by (simp_all add: p time_left_def sample_sleeper_proc)
  then have r: "resume k1 = Some (Returned Returns_From_Tick, k1\<lparr>running := None\<rparr>)" by (simp add: resume_def)
  have inv1: "sched_inv k1" using sleep_moves [OF sample_sleeper_inv assms] by (simp add: moves_def serves_def)
  have "execution k1 0 (k1\<lparr>running := None\<rparr>)"
    by (rule execution.step [OF execution.begins sched_step.resumed [OF r]]) (use \<open>running k1 = Some In_Tick\<close> in \<open>simp add: tick_step_def\<close>)
  moreover have "sched_inv (k1\<lparr>running := None\<rparr>)" using resume_moves [OF inv1 r] by (simp add: moves_def serves_def)
  ultimately show ?thesis using \<open>current_process k1 = 0\<close> \<open>time_left k1 = 5\<close> by (intro exI [of _ "k1\<lparr>running := None\<rparr>"]) (simp add: time_left_def)
qed

lemma sample_sleeper_ticks:
  "\<exists>k1 k2 k3. scheduler_sleep_current 3 sample_sleeper = Some (Switched, k1) \<and> execution k1 2 k2 \<and> tick_step k2 k3 \<and> current_process k3 = 0"
proof -
  have more: "\<exists>k'. execution k (Suc m) k' \<and> sched_inv k' \<and> running k' = None \<and> current_process k' = 0 \<and> time_left k' = t \<and> tick_step k1 k'"
    if "execution k m k1" "sched_inv k1" "running k1 = None" "current_process k1 = 0" "time_left k1 = Suc t" "0 < t" for k m k1 t
  proof -
    note h = that
    obtain k' where k': "tick_step k1 k'" "running k' = None" "current_process k' = 0" "time_left k' = t"
      using tick_step_exists [OF h(2,3)] h by auto
    have "sched_inv k'" using step_serves [OF that(2) tick_step_step [OF k'(1)]] by (simp add: serves_def)
    then show ?thesis using k' execution.tick [OF that(1) k'(1)] by blast
  qed
  obtain k1 where k1: "scheduler_sleep_current 3 sample_sleeper = Some (Switched, k1)" using sample_sleeper_sleeps by blast
  obtain a where a: "execution k1 0 a" "sched_inv a" "running a = None" "current_process a = 0" "time_left a = 5"
    using sample_sleeper_resumes [OF k1] by blast
  obtain b where b: "execution k1 1 b" "sched_inv b" "running b = None" "current_process b = 0" "time_left b = 4"
    using more [OF a(1-4), of 4] a(5) by auto
  obtain c where c: "execution k1 2 c" "sched_inv c" "running c = None" "current_process c = 0" "time_left c = 3"
    using more [OF b(1-4), of 3] b(5) by (auto simp: numeral_2_eq_2)
  obtain d where "tick_step c d" "current_process d = 0" using more [OF c(1-4), of 2] c(5) by auto
  then show ?thesis using k1 c(1) by blast
qed

theorem sleep_wakes_exactly_witness:
  "\<exists>k1 k2 k3. scheduler_sleep_current 3 sample_sleeper = Some (Switched, k1) \<and> execution k1 2 k2 \<and> tick_step k2 k3 \<and>
     p_state (proc k2 1) = PROCESS_BLOCKED \<and> p_state (proc k3 1) = PROCESS_READY"
proof -
  obtain k1 k2 k3 where k: "scheduler_sleep_current 3 sample_sleeper = Some (Switched, k1)" "execution k1 2 k2" "tick_step k2 k3"
    "current_process k3 = 0" using sample_sleeper_ticks by blast
  show ?thesis using sleep_wakes_exactly [OF sample_sleeper_inv k(1) _ k(2), of k3] k by auto
qed

end
