(* ===== verification/Usercopy.thy ===== *)
theory Usercopy
  imports Address_Space Byte_Access
begin

text \<open>
  Copies between kernel and user memory (\<open>kernel/mm/usercopy.c\<close>): the range check against the page tables of the
  active directory, and the copies byte by byte. The kernel buffer is the list of the bytes that are copied; a page fault of
  the kernel is \<^const>\<open>None\<close>.
\<close>

abbreviation (input) USERCOPY_TEST_VIRTUAL :: u32 where "USERCOPY_TEST_VIRTUAL \<equiv> 0x00800000"

datatype user_access = USER_ACCESS_READ | USER_ACCESS_WRITE

subsection \<open>The range check\<close>

text \<open>The loop over the pages; not returning is \<^const>\<open>None\<close>.\<close>

partial_function (option) validate_pages :: "user_access \<Rightarrow> u32 \<Rightarrow> u32 \<Rightarrow> machine \<Rightarrow> bool option" where
  "validate_pages access last_byte page m =
     Option.bind (vmm_query page m) (\<lambda>found.
       case found of
         None \<Rightarrow> Some False
       | Some entry \<Rightarrow>
           if snd entry AND VMM_USER = 0 \<or> access = USER_ACCESS_WRITE \<and> snd entry AND VMM_WRITABLE = 0 then Some False
           else if page = last_byte AND PAGE_MASK then Some True
           else validate_pages access last_byte (page + 4096) m)"

definition validate_user_range :: "u32 \<Rightarrow> nat \<Rightarrow> user_access \<Rightarrow> machine \<Rightarrow> bool option" where
  "validate_user_range start len access m =
     (if len = 0 then Some True
      else if start \<ge> KERNEL_BASE \<or> len > unat (KERNEL_BASE - start) then Some False
      else validate_pages access (start + of_nat len - 1) (start AND PAGE_MASK) m)"

subsection \<open>Copies\<close>

definition copy_from_user :: "u32 \<Rightarrow> nat \<Rightarrow> machine \<Rightarrow> (int \<times> u8 list) option" where
  "copy_from_user user_source len m =
     (if len = 0 then Some (0, [])
      else do {
        ok \<leftarrow> validate_user_range user_source len USER_ACCESS_READ m;
        if \<not> ok then Some (- MINIOS_EFAULT, [])
        else do {
          bytes \<leftarrow> for_opt 0 len (\<lambda>index bytes. do { x \<leftarrow> vread8 (user_source + of_nat index) m; Some (bytes @ [x]) }) [];
          Some (0, bytes)
        }
      })"

definition copy_to_user :: "u32 \<Rightarrow> u8 list \<Rightarrow> machine \<Rightarrow> (int \<times> machine) option" where
  "copy_to_user user_destination kernel_source m =
     (if length kernel_source = 0 then Some (0, m)
      else do {
        ok \<leftarrow> validate_user_range user_destination (length kernel_source) USER_ACCESS_WRITE m;
        if \<not> ok then Some (- MINIOS_EFAULT, m)
        else do {
          m \<leftarrow> for_opt 0 (length kernel_source) (\<lambda>index. vwrite8 (user_destination + of_nat index) (kernel_source ! index)) m;
          Some (0, m)
        }
      })"

text \<open>
  The loops of \<open>copy_user_string\<close>. The bytes are what the kernel buffer holds from its start; the inner loop says
  whether it met the terminator.
\<close>

fun copy_chunk :: "u32 \<Rightarrow> nat \<Rightarrow> u8 list \<Rightarrow> machine \<Rightarrow> (bool \<times> u8 list) option" where
  "copy_chunk address 0 bytes m = Some (False, bytes)"
| "copy_chunk address (Suc rest) bytes m = do {
     x \<leftarrow> vread8 address m;
     if x = 0 then Some (True, bytes @ [x]) else copy_chunk (address + 1) rest (bytes @ [x]) m
   }"

definition string_chunk :: "u32 \<Rightarrow> nat \<Rightarrow> nat \<Rightarrow> nat \<Rightarrow> nat" where
  "string_chunk start maximum_length remaining_user index =
     (let page_offset = (start + of_nat index) AND (4096 - 1)
      in min (min (4096 - unat page_offset) (maximum_length - index)) (remaining_user - index))"

lemma string_chunk_pos: "index < maximum_length \<Longrightarrow> index < remaining_user \<Longrightarrow> 0 < string_chunk start maximum_length remaining_user index"
  by (simp add: string_chunk_def Let_def unat_and_FFF)

function copy_string_loop :: "u32 \<Rightarrow> nat \<Rightarrow> nat \<Rightarrow> nat \<Rightarrow> u8 list \<Rightarrow> machine \<Rightarrow> (int \<times> u8 list) option" where
  "copy_string_loop start maximum_length remaining_user index bytes m =
     (if index \<ge> maximum_length \<or> index \<ge> remaining_user then Some (- MINIOS_EFAULT, bytes)
      else do {
        let current_address = start + of_nat index;
        let chunk = string_chunk start maximum_length remaining_user index;
        ok \<leftarrow> validate_user_range current_address chunk USER_ACCESS_READ m;
        if \<not> ok then Some (- MINIOS_EFAULT, bytes)
        else do {
          (ended, bytes) \<leftarrow> copy_chunk current_address chunk bytes m;
          if ended then Some (0, bytes)
          else copy_string_loop start maximum_length remaining_user (index + chunk) bytes m
        }
      })"
  by pat_completeness auto
termination
  by (relation "measure (\<lambda>(_, maximum_length, _, index, _, _). maximum_length - index)")
    (auto simp: not_le intro!: diff_less_mono2 string_chunk_pos)

declare copy_string_loop.simps [simp del]

definition copy_user_string :: "u32 \<Rightarrow> nat \<Rightarrow> machine \<Rightarrow> (int \<times> u8 list) option" where
  "copy_user_string start maximum_length m =
     (if maximum_length = 0 \<or> start \<ge> KERNEL_BASE then Some (- MINIOS_EFAULT, [])
      else copy_string_loop start maximum_length (unat (KERNEL_BASE - start)) 0 [] m)"

subsection \<open>The self test\<close>

definition usercopy_setup :: "u32 \<Rightarrow> u32 \<Rightarrow> u32 \<Rightarrow> u32 \<Rightarrow> machine \<Rightarrow> (bool \<times> machine) option" where
  "usercopy_setup first second third boundary m =
     (if first = 0 \<or> second = 0 \<or> third = 0 \<or> boundary = 0 then Some (False, m)
      else do {
        (ok, m) \<leftarrow> vmm_map USERCOPY_TEST_VIRTUAL first (VMM_USER OR VMM_WRITABLE) m;
        expect ok m (\<lambda>m. do {
          (ok, m) \<leftarrow> vmm_map (USERCOPY_TEST_VIRTUAL + 4096) second (VMM_USER OR VMM_WRITABLE) m;
          expect ok m (\<lambda>m. do {
            (ok, m) \<leftarrow> vmm_map (USERCOPY_TEST_VIRTUAL + 3 * 4096) third VMM_USER m;
            expect ok m (\<lambda>m. vmm_map (KERNEL_BASE - 4096) boundary (VMM_USER OR VMM_WRITABLE) m)
          })
        })
      })"

definition usercopy_fill :: "machine \<Rightarrow> machine option" where
  "usercopy_fill m =
     fold (\<lambda>(address, x) r. Option.bind r (vwrite8 address x))
       [(USERCOPY_TEST_VIRTUAL, 0x6F), (USERCOPY_TEST_VIRTUAL + 1, 0x72), (USERCOPY_TEST_VIRTUAL + 2, 0x61),
        (USERCOPY_TEST_VIRTUAL + 3, 0x6E), (USERCOPY_TEST_VIRTUAL + 4, 0x67), (USERCOPY_TEST_VIRTUAL + 5, 0x65),
        (USERCOPY_TEST_VIRTUAL + 6, 0), (USERCOPY_TEST_VIRTUAL + 4096 - 2, 0x41), (USERCOPY_TEST_VIRTUAL + 4096 - 1, 0x42),
        (USERCOPY_TEST_VIRTUAL + 4096, 0x43), (USERCOPY_TEST_VIRTUAL + 4096 + 1, 0x44),
        (USERCOPY_TEST_VIRTUAL + 4096 + 4096 - 1, 0), (KERNEL_BASE - 1, 0)] (Some m)"

definition usercopy_checks :: "machine \<Rightarrow> (bool \<times> machine) option" where
  "usercopy_checks m = do {
     let source = [0x4F, 0x53, 0];
     (r, copied) \<leftarrow> copy_from_user USERCOPY_TEST_VIRTUAL 7 m;
     expect (r = 0 \<and> copied ! 0 = 0x6F \<and> copied ! 5 = 0x65 \<and> copied ! 6 = 0) m (\<lambda>m. do {
     (r, m) \<leftarrow> copy_to_user (USERCOPY_TEST_VIRTUAL + 16) source m;
     expect (r = 0) m (\<lambda>m. do {
     x \<leftarrow> vread8 (USERCOPY_TEST_VIRTUAL + 16) m;
     y \<leftarrow> vread8 (USERCOPY_TEST_VIRTUAL + 17) m;
     expect (x = 0x4F \<and> y = 0x53) m (\<lambda>m. do {
     (r, text) \<leftarrow> copy_user_string USERCOPY_TEST_VIRTUAL 8 m;
     expect (r = 0 \<and> text ! 0 = 0x6F \<and> text ! 6 = 0) m (\<lambda>m. do {
     (r, copied) \<leftarrow> copy_from_user (USERCOPY_TEST_VIRTUAL + 4096 - 2) 4 m;
     expect (r = 0 \<and> copied = [0x41, 0x42, 0x43, 0x44]) m (\<lambda>m. do {
     (r, m) \<leftarrow> copy_to_user (USERCOPY_TEST_VIRTUAL + 4096 - 1) source m;
     expect (r = 0) m (\<lambda>m. do {
     x \<leftarrow> vread8 (USERCOPY_TEST_VIRTUAL + 4096 - 1) m;
     y \<leftarrow> vread8 (USERCOPY_TEST_VIRTUAL + 4096) m;
     z \<leftarrow> vread8 (USERCOPY_TEST_VIRTUAL + 4096 + 1) m;
     expect (x = 0x4F \<and> y = 0x53 \<and> z = 0) m (\<lambda>m. do {
     (r, text) \<leftarrow> copy_user_string (USERCOPY_TEST_VIRTUAL + 2 * 4096 - 1) 8 m;
     expect (r = 0 \<and> text ! 0 = 0) m (\<lambda>m. do {
     (r, text) \<leftarrow> copy_user_string (KERNEL_BASE - 1) 8 m;
     expect (r = 0 \<and> text ! 0 = 0) m (\<lambda>m. do {
     (r, m) \<leftarrow> copy_to_user (USERCOPY_TEST_VIRTUAL + 3 * 4096) source m;
     expect (r = - MINIOS_EFAULT) m (\<lambda>m. do {
     (r, copied) \<leftarrow> copy_from_user (USERCOPY_TEST_VIRTUAL + 4 * 4096) 1 m;
     expect (r = - MINIOS_EFAULT) m (\<lambda>m. do {
     ok \<leftarrow> validate_user_range 0xBFFFFFF0 32 USER_ACCESS_READ m;
     expect (\<not> ok) m (\<lambda>m. do {
     (r, copied) \<leftarrow> copy_from_user 0 0 m;
     Some (r = 0, m)
     }) }) }) }) }) }) }) }) }) }) }) }) }"

fun usercopy_release :: "(u32 \<times> u32) list \<Rightarrow> machine \<Rightarrow> (bool \<times> machine) option" where
  "usercopy_release [] m = Some (True, m)"
| "usercopy_release ((virtual_address, physical) # rest) m = do {
     (unmapped, m) \<leftarrow> vmm_unmap virtual_address m;
     expect (unmapped = Some physical) m (\<lambda>m.
       case pmm_free physical (m_pmm m) of (ok, p) \<Rightarrow> expect ok (m\<lparr>m_pmm := p\<rparr>) (usercopy_release rest))
   }"

definition usercopy_self_test :: "machine \<Rightarrow> (bool \<times> machine) option" where
  "usercopy_self_test m =
     (let before = free_pages (m_pmm m)
      in case pmm_alloc (m_pmm m) of (first, p) \<Rightarrow>
         case pmm_alloc p of (second, p) \<Rightarrow>
         case pmm_alloc p of (third, p) \<Rightarrow>
         case pmm_alloc p of (boundary, p) \<Rightarrow> do {
           (ok, m) \<leftarrow> usercopy_setup first second third boundary (m\<lparr>m_pmm := p\<rparr>);
           expect ok m (\<lambda>m. do {
             m \<leftarrow> usercopy_fill m;
             (passed, m) \<leftarrow> usercopy_checks m;
             (ok, m) \<leftarrow> usercopy_release [(USERCOPY_TEST_VIRTUAL, first), (USERCOPY_TEST_VIRTUAL + 4096, second),
                          (USERCOPY_TEST_VIRTUAL + 3 * 4096, third), (KERNEL_BASE - 4096, boundary)] m;
             expect ok m (\<lambda>m. Some (passed \<and> free_pages (m_pmm m) = before, m))
           })
         })"

end
