(* ===== verification/Usercopy_Correct.thy ===== *)
theory Usercopy_Correct
  imports Usercopy
begin

text \<open>
  Copies between kernel and user memory touch exactly what the page tables open to user code: the range check accepts
  exactly the mapped user ranges, and the copies never fault and move exactly the bytes asked for.
\<close>

subsection \<open>What user code may access\<close>

definition user_page_ok :: "user_access \<Rightarrow> machine \<Rightarrow> nat \<Rightarrow> bool" where
  "user_page_ok access m n \<longleftrightarrow>
     (\<exists>e. page_entry m n = Some e \<and> bit e 2 \<and> (access = USER_ACCESS_WRITE \<longrightarrow> bit e 1))"

definition user_range :: "user_access \<Rightarrow> machine \<Rightarrow> nat \<Rightarrow> nat \<Rightarrow> bool" where
  "user_range access m a len \<longleftrightarrow> len = 0 \<or> a + len \<le> 3221225472 \<and> (\<forall>x. a \<le> x \<longrightarrow> x < a + len \<longrightarrow> user_page_ok access m (x div 4096))"

text \<open>The byte at a user address, through the page table.\<close>

definition user_byte :: "machine \<Rightarrow> nat \<Rightarrow> u8 option" where
  "user_byte m a = map_option (\<lambda>e. word_byte (a mod 4) (ram m (frame_of e) (a mod 4096 div 4))) (page_entry m (a div 4096))"

text \<open>User pages have frames of their own, and none that holds a page table.\<close>

definition user_private :: "machine \<Rightarrow> bool" where
  "user_private m \<longleftrightarrow>
     (\<forall>n<786432. \<forall>e. page_entry m n = Some e \<longrightarrow> frame_of e \<notin> table_frames m) \<and>
     (\<forall>n<786432. \<forall>n'<786432. \<forall>e e'. page_entry m n = Some e \<longrightarrow> page_entry m n' = Some e' \<longrightarrow> frame_of e = frame_of e' \<longrightarrow> n = n')"

subsection \<open>The range check\<close>

lemma query_user_page:
  assumes inv: "vmm_inv m" and n: "n < 786432"
  shows "\<exists>found. vmm_query (of_nat (n * 4096)) m = Some found \<and>
    ((case found of None \<Rightarrow> False | Some entry \<Rightarrow>
        \<not> (snd entry AND VMM_USER = 0 \<or> access = USER_ACCESS_WRITE \<and> snd entry AND VMM_WRITABLE = 0)) \<longleftrightarrow> user_page_ok access m n)"
proof -
  have u: "unat (of_nat (n * 4096) :: u32) = n * 4096" using n by (intro unat_of_nat32) simp
  have f: "frame_of (of_nat (n * 4096)) = n" unfolding frame_of_def u by simp
  have k: "of_nat (n * 4096) < (KERNEL_BASE :: u32)" using n u by (simp add: word_less_nat_alt)
  have q: "vmm_query (of_nat (n * 4096)) m = Some (map_option (\<lambda>e. ((e AND PAGE_MASK) OR (of_nat (n * 4096) AND NOT PAGE_MASK),
      e AND 6)) (page_entry m n))"
    using n unfolding vmm_query_eq [OF inv] u f by (simp only: k if_True) simp
  have b: "(e AND 6) AND 4 = 0 \<longleftrightarrow> \<not> bit e 2" "(e AND 6) AND 2 = 0 \<longleftrightarrow> \<not> bit e 1" for e :: u32
    unfolding test_bits by (simp_all only: bit_and_iff bit_flags) auto
  show ?thesis unfolding q using b by (cases "page_entry m n") (auto simp: user_page_ok_def)
qed

lemma validate_step:
  assumes inv: "vmm_inv m" and n: "n < 786432"
  shows "validate_pages access last_byte (of_nat (n * 4096)) m =
    (if \<not> user_page_ok access m n then Some False
     else if n = unat last_byte div 4096 then Some True
     else validate_pages access last_byte (of_nat (Suc n * 4096)) m)"
proof -
  have u: "unat (of_nat (n * 4096) :: u32) = n * 4096" using n by (intro unat_of_nat32) simp
  have last: "of_nat (n * 4096) = last_byte AND PAGE_MASK \<longleftrightarrow> n = unat last_byte div 4096"
    unfolding word_unat_eq_iff u unat_and_FFFFF000 by simp
  have next_page: "of_nat (n * 4096) + 4096 = (of_nat (Suc n * 4096) :: u32)" by simp
  obtain found where q: "vmm_query (of_nat (n * 4096)) m = Some found" and f: "(case found of None \<Rightarrow> False | Some entry \<Rightarrow>
        \<not> (snd entry AND VMM_USER = 0 \<or> access = USER_ACCESS_WRITE \<and> snd entry AND VMM_WRITABLE = 0)) \<longleftrightarrow> user_page_ok access m n"
    using query_user_page [OF inv n] by blast
  show ?thesis
    unfolding validate_pages.simps [of access last_byte "of_nat (n * 4096)"] q next_page last using f by (auto split: option.splits)
qed

lemma validate_pages_spec:
  assumes inv: "vmm_inv m" and l: "unat last_byte < 3221225472" and n: "n \<le> unat last_byte div 4096"
  shows "validate_pages access last_byte (of_nat (n * 4096)) m =
    Some (\<forall>j. n \<le> j \<longrightarrow> j \<le> unat last_byte div 4096 \<longrightarrow> user_page_ok access m j)"
  using n
proof (induction "unat last_byte div 4096 - n" arbitrary: n)
  case 0
  then have "n = unat last_byte div 4096" by simp
  then show ?case using validate_step [OF inv, of n] l by auto
next
  case (Suc d)
  then have lt: "n < unat last_byte div 4096" by simp
  then have "n < 786432" using l by simp
  note step = validate_step [OF inv this, of access last_byte]
  have "validate_pages access last_byte (of_nat (Suc n * 4096)) m =
      Some (\<forall>j. Suc n \<le> j \<longrightarrow> j \<le> unat last_byte div 4096 \<longrightarrow> user_page_ok access m j)"
    using Suc lt by (intro Suc.hyps(1)) auto
  then show ?case unfolding step using lt by (auto simp: Suc_le_eq dest: le_neq_implies_less)
qed

lemma pages_of_range:
  fixes a len :: nat
  assumes "0 < len"
  shows "(\<forall>j. a div 4096 \<le> j \<longrightarrow> j \<le> (a + len - 1) div 4096 \<longrightarrow> P j) \<longleftrightarrow> (\<forall>x. a \<le> x \<longrightarrow> x < a + len \<longrightarrow> P (x div 4096))"
proof (intro iffI allI impI)
  fix x assume p: "\<forall>j. a div 4096 \<le> j \<longrightarrow> j \<le> (a + len - 1) div 4096 \<longrightarrow> P j" and x: "a \<le> x" "x < a + len"
  have "x div 4096 \<le> (a + len - 1) div 4096" using x by (intro div_le_mono) simp
  then show "P (x div 4096)" using p x by (simp add: div_le_mono)
next
  fix j assume p: "\<forall>x. a \<le> x \<longrightarrow> x < a + len \<longrightarrow> P (x div 4096)" and j: "a div 4096 \<le> j" "j \<le> (a + len - 1) div 4096"
  have "P (max a (j * 4096) div 4096)" using p j assms by (auto simp: max_def)
  moreover have "max a (j * 4096) div 4096 = j" using j by (auto simp: max_def)
  ultimately show "P j" by simp
qed

lemma validate_user_range_spec:
  assumes inv: "vmm_inv m"
  shows "validate_user_range start len access m = Some (user_range access m (unat start) len)"
proof (cases "len = 0 \<or> unat start + len > 3221225472")
  case True
  have "start \<ge> KERNEL_BASE \<or> len > unat (KERNEL_BASE - start)" if "unat start + len > 3221225472"
    using that unat_sub [of start KERNEL_BASE] by (cases "KERNEL_BASE \<le> start") (auto simp: word_le_nat_alt)
  then show ?thesis using True by (auto simp: validate_user_range_def user_range_def)
next
  case False
  let ?l = "start + of_nat len - 1"
  have k: "\<not> start \<ge> KERNEL_BASE" "\<not> len > unat (KERNEL_BASE - start)"
    using False unat_sub [of start KERNEL_BASE] by (auto simp: word_le_nat_alt)
  have "unat (of_nat len :: u32) = len" using False by (intro unat_of_nat32) simp
  then have s: "unat (start + of_nat len) = unat start + len" using False by (subst unat_add_lem [THEN iffD1]) simp_all
  then have "unat ?l = unat start + len - 1" using False by (subst unat_minus_one) auto
  moreover have "start AND PAGE_MASK = of_nat (unat start div 4096 * 4096)"
    using unat_lt_2p32 [of start] by (simp only: word_unat_eq_iff unat_and_FFFFF000) (subst unat_of_nat32, simp_all)
  moreover have "unat start + len - 1 < 3221225472" "0 < len" using False by auto
  ultimately have "validate_pages access ?l (start AND PAGE_MASK) m =
      Some (\<forall>x. unat start \<le> x \<longrightarrow> x < unat start + len \<longrightarrow> user_page_ok access m (x div 4096))"
    using validate_pages_spec [OF inv, of ?l "unat start div 4096" access] pages_of_range [of len "unat start" "user_page_ok access m"]
    by (simp add: div_le_mono)
  then show ?thesis using False k by (simp add: validate_user_range_def user_range_def)
qed

subsection \<open>Single bytes\<close>

lemma user_rangeD:
  assumes "user_range access m a len" and "i < len"
  obtains e where "a + i < 3221225472" "page_entry m ((a + i) div 4096) = Some e" "bit e 2" "access = USER_ACCESS_WRITE \<Longrightarrow> bit e 1"
proof -
  have l: "a + len \<le> 3221225472" and p: "\<And>x. a \<le> x \<Longrightarrow> x < a + len \<Longrightarrow> user_page_ok access m (x div 4096)"
    using assms by (auto simp: user_range_def)
  from p [of "a + i"] obtain e where "page_entry m ((a + i) div 4096) = Some e" "bit e 2" "access = USER_ACCESS_WRITE \<longrightarrow> bit e 1"
    using assms(2) by (auto simp: user_page_ok_def)
  then show ?thesis using that l assms(2) by simp
qed

lemma unat_user_address:
  assumes "unat p + i < 3221225472"
  shows "unat (p + of_nat i :: u32) = unat p + i"
proof -
  have "unat (of_nat i :: u32) = i" using assms by (intro unat_of_nat32) simp
  then show ?thesis using assms by (subst unat_add_lem [THEN iffD1]) simp_all
qed

lemma unat_and_3: "unat (v AND 3 :: u32) = unat v mod 4"
proof -
  have "(3 :: u32) = mask 2" by (simp add: mask_eq_exp_minus_1)
  then show ?thesis by (simp only: unat_and_mask) simp
qed

lemma vread8_user:
  assumes inv: "vmm_inv m" and v: "unat v < 3221225472" and e: "page_entry m (unat v div 4096) = Some e"
  shows "vread8 v m = user_byte m (unat v)" and "user_byte m (unat v) \<noteq> None"
proof -
  have "page_entry m (frame_of v) = Some e" using e by (simp add: frame_of_def)
  then show "vread8 v m = user_byte m (unat v)"
    using mapped_access(1) [OF inv, of v e] v e by (simp add: vread8_def user_byte_def unat_and_3)
  show "user_byte m (unat v) \<noteq> None" using e by (simp add: user_byte_def)
qed

lemma vread8_range:
  assumes inv: "vmm_inv m" and r: "user_range access m (unat p) len" and i: "i < len"
  shows "vread8 (p + of_nat i) m = Some (the (user_byte m (unat p + i)))" and "user_byte m (unat p + i) \<noteq> None"
proof -
  obtain e where "unat p + i < 3221225472" "page_entry m ((unat p + i) div 4096) = Some e" by (rule user_rangeD [OF r i])
  then show "vread8 (p + of_nat i) m = Some (the (user_byte m (unat p + i)))" "user_byte m (unat p + i) \<noteq> None"
    using vread8_user [OF inv, of "p + of_nat i" e] unat_user_address [of p i] by auto
qed

lemma user_byte_ram_write:
  assumes priv: "user_private m" and inv: "vmm_inv m" and b: "b < 3221225472" and a: "a < 3221225472"
    and e: "page_entry m (a div 4096) = Some e"
  shows "user_byte (ram_write (frame_of e) (a mod 4096 div 4) (set_word_byte (a mod 4) x (ram m (frame_of e) (a mod 4096 div 4))) m) b =
    (if b = a then Some x else user_byte m b)"
proof -
  have n: "b div 4096 < 786432" "a div 4096 < 786432" using a b by simp_all
  have "frame_of e \<notin> table_frames m" using priv n e unfolding user_private_def by blast
  then have p: "page_entry (ram_write (frame_of e) i y m) (b div 4096) = page_entry m (b div 4096)" for i y
    using n by (intro data_write(2) [OF inv]) simp_all
  have same: "b div 4096 = a div 4096" if "page_entry m (b div 4096) = Some e'" "frame_of e' = frame_of e" for e'
    using priv n e that unfolding user_private_def by blast
  have split: "b = a \<longleftrightarrow> b div 4096 = a div 4096 \<and> b mod 4096 div 4 = a mod 4096 div 4 \<and> b mod 4 = a mod 4"
    (is "_ \<longleftrightarrow> ?page \<and> ?word \<and> ?byte")
  proof
    assume h: "?page \<and> ?word \<and> ?byte"
    have "x mod 4096 mod 4 = x mod 4" for x :: nat by (rule mod_mod_cancel) simp
    then have "b mod 4096 div 4 * 4 + b mod 4096 mod 4 = a mod 4096 div 4 * 4 + a mod 4096 mod 4" using h by (simp only:)
    then have "b mod 4096 = a mod 4096" by (simp only: div_mult_mod_eq)
    then have "b div 4096 * 4096 + b mod 4096 = a div 4096 * 4096 + a mod 4096" using h by (simp only:)
    then show "b = a" by (simp only: div_mult_mod_eq)
  qed simp
  show ?thesis
  proof (cases "page_entry m (b div 4096)")
    case None
    then show ?thesis using e by (auto simp: user_byte_def p)
  next
    case (Some e')
    have "word_byte (b mod 4) (set_word_byte (a mod 4) x w) = (if b mod 4 = a mod 4 then x else word_byte (b mod 4) w)" for w
      by (rule word_byte_set) simp_all
    moreover have "b div 4096 = a div 4096 \<Longrightarrow> e' = e" "b div 4096 \<noteq> a div 4096 \<Longrightarrow> frame_of e' \<noteq> frame_of e"
      using same [OF Some] e Some by auto
    ultimately show ?thesis unfolding user_byte_def p Some split by (cases "b div 4096 = a div 4096") (simp_all add: ram_write_def)
  qed
qed

lemma vwrite8_user:
  assumes inv: "vmm_inv m" and v: "unat v < 3221225472" and e: "page_entry m (unat v div 4096) = Some e" and w: "bit e 1"
  shows "vwrite8 v x m = Some (ram_write (frame_of e) (unat v mod 4096 div 4)
    (set_word_byte (unat v mod 4) x (ram m (frame_of e) (unat v mod 4096 div 4))) m)"
proof -
  have "page_entry m (frame_of v) = Some e" using e by (simp add: frame_of_def)
  then show ?thesis using mapped_access [OF inv, of v e] v w by (simp add: vwrite8_def unat_and_3)
qed

subsection \<open>The copies\<close>

definition user_bytes :: "machine \<Rightarrow> nat \<Rightarrow> nat \<Rightarrow> u8 list" where
  "user_bytes m a len = map (\<lambda>i. the (user_byte m (a + i))) [0..<len]"

lemma user_bytes_simps [simp]:
  "length (user_bytes m a len) = len" "user_bytes m a 0 = []"
  "user_bytes m a (Suc len) = user_bytes m a len @ [the (user_byte m (a + len))]"
  by (simp_all add: user_bytes_def)

lemma user_bytes_add: "user_bytes m a (k + l) = user_bytes m a k @ user_bytes m (a + k) l"
  by (induction l) (simp_all add: add.assoc)

text \<open>
  Copying in is exact: on a well-formed address space the copy never faults, it is refused with \<open>EFAULT\<close> exactly when
  some byte of the range is not user memory, and otherwise it yields the bytes of the range.
\<close>

theorem copy_from_user_correct:
  assumes inv: "vmm_inv m"
  shows "copy_from_user p len m =
    Some (if user_range USER_ACCESS_READ m (unat p) len then (0, user_bytes m (unat p) len) else (- MINIOS_EFAULT, []))"
proof (cases "len \<noteq> 0 \<and> user_range USER_ACCESS_READ m (unat p) len")
  case True
  have "\<exists>bytes. for_opt 0 len (\<lambda>index bytes. do { x \<leftarrow> vread8 (p + of_nat index) m; Some (bytes @ [x]) }) [] = Some bytes \<and>
      bytes = user_bytes m (unat p) len"
    using True by (intro for_opt_rule) (simp_all add: vread8_range(1) [OF inv])
  then show ?thesis using True by (simp add: copy_from_user_def validate_user_range_spec [OF inv])
next
  case False
  then show ?thesis by (auto simp: copy_from_user_def validate_user_range_spec [OF inv] user_range_def)
qed

text \<open>What writing into user memory may change.\<close>

definition user_written :: "nat \<Rightarrow> u8 list \<Rightarrow> machine \<Rightarrow> machine \<Rightarrow> bool" where
  "user_written a bytes m m' \<longleftrightarrow>
     m' = m\<lparr>ram := ram m'\<rparr> \<and> (\<forall>n<1047552. page_entry m' n = page_entry m n) \<and>
     (\<forall>x<3221225472. user_byte m' x = (if a \<le> x \<and> x < a + length bytes then Some (bytes ! (x - a)) else user_byte m x)) \<and>
     (\<forall>f. (\<forall>x e. a \<le> x \<longrightarrow> x < a + length bytes \<longrightarrow> page_entry m (x div 4096) = Some e \<longrightarrow> frame_of e \<noteq> f) \<longrightarrow> ram m' f = ram m f)"

lemma user_written_step:
  assumes inv: "vmm_inv m" and priv: "user_private m" and w: "user_written (unat p) (take i bytes) m0 m"
    and r: "user_range USER_ACCESS_WRITE m0 (unat p) (length bytes)" and i: "i < length bytes"
  shows "\<exists>m'. vwrite8 (p + of_nat i) (bytes ! i) m = Some m' \<and> vmm_inv m' \<and> user_private m' \<and> user_written (unat p) (take (Suc i) bytes) m0 m'"
proof -
  obtain e where lt: "unat p + i < 3221225472" and e0: "page_entry m0 ((unat p + i) div 4096) = Some e" and b: "bit e 1"
    by (rule user_rangeD [OF r i]) simp
  have n: "(unat p + i) div 4096 < 786432" using lt by simp
  then have e: "page_entry m ((unat p + i) div 4096) = Some e" using w e0 by (simp add: user_written_def)
  let ?k = "(unat p + i) mod 4096 div 4"
  define m' where "m' = ram_write (frame_of e) ?k (set_word_byte ((unat p + i) mod 4) (bytes ! i) (ram m (frame_of e) ?k)) m"
  have wr: "vwrite8 (p + of_nat i) (bytes ! i) m = Some m'"
    using vwrite8_user [OF inv, of "p + of_nat i" e] lt e b unfolding unat_user_address [OF lt] m'_def by simp
  have t: "frame_of e \<notin> table_frames m" using priv n e unfolding user_private_def by blast
  have d': "vmm_inv m'" "table_frames m' = table_frames m" "\<And>n. n < 1047552 \<Longrightarrow> page_entry m' n = page_entry m n"
    unfolding m'_def by (rule data_write [OF inv t]; assumption?)+
  have "user_private m'" using priv unfolding user_private_def d'(2) by (simp add: d'(3))
  have bytes: "user_byte m' x = (if x = unat p + i then Some (bytes ! i) else user_byte m x)" if "x < 3221225472" for x
    using user_byte_ram_write [OF priv inv that lt e] unfolding m'_def by simp
  have "user_written (unat p) (take (Suc i) bytes) m0 m'"
    unfolding user_written_def
  proof (intro conjI allI impI)
    have "m = m0\<lparr>ram := ram m\<rparr>" using w by (simp add: user_written_def)
    from arg_cong [OF this, of "\<lambda>m. m\<lparr>ram := ram m'\<rparr>"] show "m' = m0\<lparr>ram := ram m'\<rparr>" by (simp add: m'_def ram_write_def)
    show "page_entry m' n = page_entry m0 n" if "n < 1047552" for n using w that by (simp add: user_written_def d'(3))
    show "user_byte m' x = (if unat p \<le> x \<and> x < unat p + length (take (Suc i) bytes) then Some (take (Suc i) bytes ! (x - unat p)) else user_byte m0 x)"
      if x: "x < 3221225472" for x
      using w x i unfolding bytes [OF x] by (auto simp: user_written_def less_Suc_eq nth_append take_Suc_conv_app_nth)
    fix f assume f: "\<forall>x e. unat p \<le> x \<longrightarrow> x < unat p + length (take (Suc i) bytes) \<longrightarrow> page_entry m0 (x div 4096) = Some e \<longrightarrow> frame_of e \<noteq> f"
    then have "frame_of e \<noteq> f" using spec [OF f, of "unat p + i"] e0 i by simp
    moreover have "ram m f = ram m0 f" using w f by (auto simp: user_written_def)
    ultimately show "ram m' f = ram m0 f" by (simp add: m'_def ram_write_def)
  qed
  then show ?thesis using wr d'(1) \<open>user_private m'\<close> by blast
qed

text \<open>
  C3. Copying out is exact and contained: where some byte of the range is not writable user memory the copy is refused with
  \<open>EFAULT\<close> and changes nothing; otherwise it succeeds, the range holds the bytes, every other byte of user memory, every page
  table entry and every frame outside the range keep their contents.
\<close>

theorem copy_to_user_correct:
  assumes inv: "vmm_inv m" and priv: "user_private m"
  shows "if user_range USER_ACCESS_WRITE m (unat p) (length bytes)
    then \<exists>m'. copy_to_user p bytes m = Some (0, m') \<and> vmm_inv m' \<and> user_private m' \<and> user_written (unat p) bytes m m'
    else copy_to_user p bytes m = Some (- MINIOS_EFAULT, m)"
proof (cases "bytes \<noteq> [] \<and> user_range USER_ACCESS_WRITE m (unat p) (length bytes)")
  case True
  have start: "user_written (unat p) (take 0 bytes) m m" by (auto simp: user_written_def)
  have "\<exists>m'. for_opt 0 (length bytes) (\<lambda>index. vwrite8 (p + of_nat index) (bytes ! index)) m = Some m' \<and>
      (vmm_inv m' \<and> user_private m' \<and> user_written (unat p) (take (length bytes) bytes) m m')"
    using inv priv start user_written_step [OF _ _ _ conjunct2 [OF True]] by (intro for_opt_rule) blast+
  then show ?thesis using True by (auto simp: copy_to_user_def validate_user_range_spec [OF inv])
next
  case False
  then show ?thesis using inv priv by (auto simp: copy_to_user_def validate_user_range_spec [OF inv] user_range_def user_written_def)
qed

subsection \<open>Strings\<close>

text \<open>A string with its terminator at distance \<open>k\<close>.\<close>

definition user_string :: "machine \<Rightarrow> nat \<Rightarrow> nat \<Rightarrow> bool" where
  "user_string m a k \<longleftrightarrow> user_range USER_ACCESS_READ m a (Suc k) \<and> user_byte m (a + k) = Some 0 \<and> (\<forall>j<k. user_byte m (a + j) \<noteq> Some 0)"

lemma copy_chunk_spec:
  assumes inv: "vmm_inv m" and r: "user_range USER_ACCESS_READ m (unat p) len"
  shows "\<exists>k\<le>len. (\<forall>j<k. user_byte m (unat p + j) \<noteq> Some 0) \<and> (k < len \<longrightarrow> user_byte m (unat p + k) = Some 0) \<and>
    copy_chunk p len bytes m = Some (k < len, bytes @ user_bytes m (unat p) (min len (Suc k)))"
  using r
proof (induction len arbitrary: p bytes)
  case (Suc len)
  note v = vread8_range [OF inv Suc.prems, of 0, simplified]
  show ?case
  proof (cases "user_byte m (unat p) = Some 0")
    case True
    then show ?thesis using v by (intro exI [of _ 0]) simp
  next
    case False
    obtain e where lt: "unat p < 3221225472" by (rule user_rangeD [OF Suc.prems, of 0]) simp_all
    then have u: "unat (p + 1) = unat p + 1" by (subst unat_add_lem [THEN iffD1]) simp_all
    have "user_range USER_ACCESS_READ m (unat (p + 1)) len" using Suc.prems unfolding u user_range_def by auto
    from Suc.IH [OF this, of "bytes @ [the (user_byte m (unat p))]"] obtain k where k: "k \<le> len"
      "\<forall>j<k. user_byte m (unat p + 1 + j) \<noteq> Some 0" "k < len \<longrightarrow> user_byte m (unat p + 1 + k) = Some 0"
      "copy_chunk (p + 1) len (bytes @ [the (user_byte m (unat p))]) m =
        Some (k < len, bytes @ [the (user_byte m (unat p))] @ user_bytes m (unat p + 1) (min len (Suc k)))"
      unfolding u by auto
    have "user_bytes m (unat p) (Suc n) = the (user_byte m (unat p)) # user_bytes m (unat p + 1) n" for n
      using user_bytes_add [of m "unat p" 1 n] by simp
    then show ?thesis
      using k False v by (intro exI [of _ "Suc k"]) (auto simp: less_Suc_eq_0_disj min_def simp del: user_bytes_simps(3))
  qed
qed (simp)

lemma user_range_prefix: "user_range access m a len \<Longrightarrow> k \<le> len \<Longrightarrow> user_range access m a k"
  by (auto simp: user_range_def)

lemma user_range_append:
  "user_range access m a k \<Longrightarrow> user_range access m (a + k) l \<Longrightarrow> user_range access m a (k + l)"
  by (auto simp: user_range_def)

text \<open>The end of a string cannot lie beyond a chunk that is not readable, since a chunk stays within a page.\<close>

lemma chunk_within_page:
  assumes "0 < l" and "l \<le> 4096 - b mod 4096" and "user_page_ok access m (b div 4096)" and "b + l \<le> 3221225472"
  shows "user_range access m b l"
proof -
  have same: "x div 4096 = b div 4096" if "b \<le> x" "x < b + l" for x
  proof -
    have b: "b div 4096 * 4096 + b mod 4096 = b" "b mod 4096 + (4096 - b mod 4096) = 4096" by simp_all
    then have "b div 4096 * 4096 \<le> x" using that by linarith
    moreover have "x < b div 4096 * 4096 + (b mod 4096 + (4096 - b mod 4096))" using b(1) that assms(2) by linarith
    then have "x < (b div 4096 + 1) * 4096" unfolding b(2) by simp
    ultimately show ?thesis by (intro div_nat_eqI) simp_all
  qed
  have "user_page_ok access m (x div 4096)" if "b \<le> x" "x < b + l" for x using assms(3) unfolding same [OF that] .
  then show ?thesis using assms(4) by (simp add: user_range_def)
qed

lemma string_chunk_bounds:
  assumes "index < maximum" and lt: "unat p + index < 3221225472"
  defines "chunk \<equiv> string_chunk p maximum (3221225472 - unat p) index"
  shows "0 < chunk" "chunk \<le> maximum - index"
    and "user_range access m (unat p + index) chunk \<longleftrightarrow> user_page_ok access m ((unat p + index) div 4096)"
proof -
  show pos: "0 < chunk" using assms string_chunk_pos [of index maximum "3221225472 - unat p" p] by simp
  have le: "chunk \<le> 4096 - (unat p + index) mod 4096" "chunk \<le> maximum - index" "unat p + index + chunk \<le> 3221225472"
    using lt by (simp_all add: chunk_def string_chunk_def Let_def unat_and_FFF unat_user_address)
  then show "chunk \<le> maximum - index" by simp
  show "user_range access m (unat p + index) chunk \<longleftrightarrow> user_page_ok access m ((unat p + index) div 4096)"
    using chunk_within_page [OF pos le(1) _ le(3)] pos by (auto simp: user_range_def)
qed

lemma copy_string_loop_step:
  assumes inv: "vmm_inv m" and "index < maximum" and lt: "unat p + index < 3221225472"
  defines "chunk \<equiv> string_chunk p maximum (3221225472 - unat p) index"
  shows "copy_string_loop p maximum (3221225472 - unat p) index bytes m =
    (if \<not> user_range USER_ACCESS_READ m (unat p + index) chunk then Some (- MINIOS_EFAULT, bytes)
     else do {
       (ended, bytes) \<leftarrow> copy_chunk (p + of_nat index) chunk bytes m;
       if ended then Some (0, bytes) else copy_string_loop p maximum (3221225472 - unat p) (index + chunk) bytes m
     })"
proof -
  have "\<not> index \<ge> 3221225472 - unat p" using lt by linarith
  then show ?thesis
    unfolding chunk_def using assms(2) by (subst copy_string_loop.simps) (simp add: validate_user_range_spec [OF inv] unat_user_address [OF lt] Let_def)
qed

lemma copy_string_loop_spec:
  assumes inv: "vmm_inv m" and r: "user_range USER_ACCESS_READ m (unat p) index"
    and "\<forall>j<index. user_byte m (unat p + j) \<noteq> Some 0" and p: "unat p < 3221225472"
  shows "\<exists>r bytes. copy_string_loop p maximum (3221225472 - unat p) index (user_bytes m (unat p) index) m = Some (r, bytes) \<and>
    (if \<exists>k<maximum. user_string m (unat p) k then r = 0 \<and> (\<exists>k<maximum. user_string m (unat p) k \<and> bytes = user_bytes m (unat p) (Suc k))
     else r = - MINIOS_EFAULT)"
  using assms(2,3)
proof (induction "maximum - index" arbitrary: index rule: less_induct)
  case less
  let ?s = "copy_string_loop p maximum (3221225472 - unat p) index (user_bytes m (unat p) index) m"
  have far: "index \<le> k" if "user_string m (unat p) k" for k using that less.prems(2) by (meson linorder_not_less user_string_def)
  show ?case
  proof (cases "index \<ge> maximum \<or> index \<ge> 3221225472 - unat p")
    case True
    then have "?s = Some (- MINIOS_EFAULT, user_bytes m (unat p) index)" by (subst copy_string_loop.simps) simp
    moreover have "\<not> (\<exists>k<maximum. user_string m (unat p) k)"
      using True far by (fastforce simp: user_string_def user_range_def)
    ultimately show ?thesis by simp
  next
    case False
    then have lt: "unat p + index < 3221225472" using p by linarith
    define chunk where "chunk = string_chunk p maximum (3221225472 - unat p) index"
    have im: "index < maximum" using False by simp
    note c = string_chunk_bounds [OF im lt, folded chunk_def]
    note loop = copy_string_loop_step [OF inv im lt, folded chunk_def]
    show ?thesis
    proof (cases "user_range USER_ACCESS_READ m (unat p + index) chunk")
      case bad: False
      have "\<not> user_string m (unat p) k" for k
      proof
        assume s: "user_string m (unat p) k"
        then have "user_page_ok USER_ACCESS_READ m ((unat p + index) div 4096)"
          using far [OF s] by (auto simp: user_string_def user_range_def)
        then show False using c(3) bad by simp
      qed
      then show ?thesis using bad by (simp add: loop)
    next
      case good: True
      note all = user_range_append [OF less.prems(1) good]
      from copy_chunk_spec [OF inv, of "p + of_nat index" chunk "user_bytes m (unat p) index"] good obtain k where k: "k \<le> chunk"
        "\<forall>j<k. user_byte m (unat p + index + j) \<noteq> Some 0" "k < chunk \<longrightarrow> user_byte m (unat p + index + k) = Some 0"
        "copy_chunk (p + of_nat index) chunk (user_bytes m (unat p) index) m =
          Some (k < chunk, user_bytes m (unat p) index @ user_bytes m (unat p + index) (min chunk (Suc k)))"
        unfolding unat_user_address [OF lt] by blast
      have none: "\<forall>j<index + k. user_byte m (unat p + j) \<noteq> Some 0"
        using less.prems(2) k(2) by (metis add.assoc le_Suc_ex linorder_not_less nat_add_left_cancel_less)
      show ?thesis
      proof (cases "k < chunk")
        case True
        then have s: "user_string m (unat p) (index + k)"
          using k(3) none user_range_prefix [OF all, of "Suc (index + k)"] by (simp add: user_string_def add.assoc)
        have "?s = Some (0, user_bytes m (unat p) (Suc (index + k)))"
          using True good k(4) user_bytes_add [of m "unat p" index "Suc k"] by (simp add: loop)
        moreover have "index + k < maximum" using True c(2) by simp
        ultimately show ?thesis using s by auto
      next
        case False
        then have "?s = copy_string_loop p maximum (3221225472 - unat p) (index + chunk) (user_bytes m (unat p) (index + chunk)) m"
          using good k(1,4) by (simp add: loop user_bytes_add)
        then show ?thesis using less.hyps [of "index + chunk"] all none False k(1) c(1,2) by auto
      qed
    qed
  qed
qed

text \<open>
  C5. A string is copied in exactly when user code could read it: on a well-formed address space the copy always returns; it
  yields the string with its terminator when a terminator lies within the limit, below the kernel, on readable user pages, and
  refuses with \<open>EFAULT\<close> otherwise.
\<close>

theorem copy_user_string_correct:
  assumes inv: "vmm_inv m"
  shows "\<exists>r bytes. copy_user_string p maximum m = Some (r, bytes) \<and>
    (if \<exists>k<maximum. user_string m (unat p) k then r = 0 \<and> (\<exists>k<maximum. user_string m (unat p) k \<and> bytes = user_bytes m (unat p) (Suc k))
     else r = - MINIOS_EFAULT)"
proof (cases "maximum = 0 \<or> p \<ge> KERNEL_BASE")
  case True
  then have "\<not> (\<exists>k<maximum. user_string m (unat p) k)" by (auto simp: user_string_def user_range_def word_le_nat_alt)
  then show ?thesis using True by (simp add: copy_user_string_def)
next
  case False
  then have p: "unat p < 3221225472" by (simp add: word_le_nat_alt)
  then have "unat (KERNEL_BASE - p) = 3221225472 - unat p" by (subst unat_sub) (simp_all add: word_le_nat_alt)
  then show ?thesis
    using False copy_string_loop_spec [OF inv, of p 0 maximum] p by (simp add: copy_user_string_def user_range_def)
qed

subsection \<open>A machine with a user page\<close>

definition mapped_machine :: machine where
  "mapped_machine = snd (the (vmm_map 0x00400000 0x00300000 (VMM_USER OR VMM_WRITABLE) sample_machine))"

definition user_machine :: machine where
  "user_machine = ram_write 768 0 0x6968 mapped_machine"

lemma mapped_machine:
  "vmm_inv mapped_machine" "768 \<notin> table_frames mapped_machine"
  "n < 1047552 \<Longrightarrow> page_entry mapped_machine n = (if n = 1024 then Some 0x00300007 else None)"
proof -
  have f: "frame_of 0x00400000 = 1024" by (simp add: frame_of_def)
  have ok: "\<not> vmm_map_rejects 0x00400000 0x00300000 (VMM_USER OR VMM_WRITABLE) sample_machine" by (simp add: vmm_map_rejects_def)
  have d: "unat (drop_bit 22 (0x00400000 :: u32)) = 1" by simp
  have pmm: "pmm_inv sample_pmm" using sample_machine_inv by (simp add: vmm_inv_def vmm_wf_def)
  from sample_machine_inv ok obtain m' e where m': "vmm_map 0x00400000 0x00300000 (VMM_USER OR VMM_WRITABLE) sample_machine = Some (True, m')"
    "vmm_inv m'" "cr3 m' = cr3 sample_machine"
    "\<And>n. n < 1047552 \<Longrightarrow> page_entry m' n = ((page_entry sample_machine)(1024 := Some (0x00300000 OR PAGE_PRESENT OR ((VMM_USER OR VMM_WRITABLE) AND (VMM_WRITABLE OR VMM_USER))))) n"
    and e: "pde m' = (pde sample_machine)(1 := e)" "frame_of e = frame_of (fst (pmm_alloc sample_pmm))" "fst (pmm_alloc sample_pmm) \<noteq> 0"
    unfolding f [symmetric] by (cases rule: vmm_map_spec) (auto simp: d sample_pde f)
  have m: "mapped_machine = m'" by (simp only: mapped_machine_def m'(1) option.sel snd_conv)
  show "vmm_inv mapped_machine" "n < 1047552 \<Longrightarrow> page_entry mapped_machine n = (if n = 1024 then Some 0x00300007 else None)"
    using m'(2,4) by (simp_all add: m)
  have "frame_of (fst (pmm_alloc sample_pmm)) \<in> free_frames sample_pmm"
    using pmm_frames.alloc_taken [OF pmm, of "fst (pmm_alloc sample_pmm)"] e(3)
    by (simp add: prod_eq_iff frame_of_def del: sample_pmm_frames)
  then have "frame_of e \<noteq> 768" by (auto simp: e(2))
  moreover have "frame_of 0x2003 = 2" by (simp add: frame_of_def)
  moreover have "frame_of (cr3 sample_machine) = 1" by (simp add: frame_of_def sample_machine_def)
  ultimately show "768 \<notin> table_frames mapped_machine"
    by (auto simp: table_frames_def m m'(3) e(1) sample_pde split: if_splits)
qed

lemma user_machine:
  "vmm_inv user_machine" "user_private user_machine" "n < 1047552 \<Longrightarrow> page_entry user_machine n = (if n = 1024 then Some 0x00300007 else None)"
  "ram user_machine 768 0 = 0x6968"
proof -
  note d = data_write [OF mapped_machine(1,2), where i = 0 and x = "0x6968", folded user_machine_def]
  have f: "frame_of 0x00300007 = 768" by (simp add: frame_of_def)
  show "vmm_inv user_machine" by (rule d)
  show e: "n < 1047552 \<Longrightarrow> page_entry user_machine n = (if n = 1024 then Some 0x00300007 else None)" for n
    using d(2) mapped_machine(3) by simp
  show "ram user_machine 768 0 = 0x6968" by (simp add: user_machine_def ram_write_def)
  show "user_private user_machine" using mapped_machine(2) by (auto simp: user_private_def d(4) e f split: if_splits)
qed

lemma user_machine_bytes:
  "user_byte user_machine 0x00400000 = Some 0x68" "user_byte user_machine 0x00400001 = Some 0x69"
  "user_byte user_machine 0x00400002 = Some 0"
  by (simp_all add: user_byte_def user_machine(3,4) frame_of_def word_byte_def)

lemma user_machine_range [simp]: "len \<le> 4096 \<Longrightarrow> user_range access user_machine 0x00400000 len"
proof -
  assume "len \<le> 4096"
  moreover have "bit (0x00300007 :: u32) 2" "bit (0x00300007 :: u32) 1" by simp_all
  moreover have "x div 4096 = 1024" if "0x00400000 \<le> x" "x < 0x00400000 + len" for x
    using that \<open>len \<le> 4096\<close> by (intro div_nat_eqI) simp_all
  ultimately show ?thesis by (simp add: user_range_def user_page_ok_def user_machine(3))
qed

lemma user_machine_text:
  "user_bytes user_machine 0x00400000 2 = [0x68, 0x69]" "user_bytes user_machine 0x00400000 3 = [0x68, 0x69, 0]"
proof -
  have "[0..<2] = [0, 1]" by (simp add: upt_rec)
  then show "user_bytes user_machine 0x00400000 2 = [0x68, 0x69]" by (simp add: user_bytes_def user_machine_bytes)
  then show "user_bytes user_machine 0x00400000 3 = [0x68, 0x69, 0]"
    using user_bytes_simps(3) [of user_machine "0x00400000" 2] by (simp add: user_machine_bytes)
qed

theorem copy_from_user_correct_witness: "copy_from_user 0x00400000 2 user_machine = Some (0, [0x68, 0x69])"
  using copy_from_user_correct [OF user_machine(1), of "0x00400000" 2] by (simp add: user_machine_text)

theorem copy_to_user_correct_witness:
  "\<exists>m'. copy_to_user 0x00400000 [1, 2, 3] user_machine = Some (0, m') \<and> user_byte m' 0x00400001 = Some 2"
  using copy_to_user_correct [OF user_machine(1,2), of "0x00400000" "[1, 2, 3]"]
  by (auto simp: user_written_def)

theorem copy_user_string_correct_witness: "copy_user_string 0x00400000 64 user_machine = Some (0, [0x68, 0x69, 0])"
proof -
  have two: "user_string user_machine 0x00400000 2"
    using user_machine_bytes by (auto simp: user_string_def dest!: less_2_cases)
  then have only: "k = 2" if "user_string user_machine 0x00400000 k" for k
    using that by (metis linorder_neqE_nat user_string_def)
  have u: "unat (0x00400000 :: u32) = 0x00400000" by simp
  from copy_user_string_correct [OF user_machine(1), of "0x00400000" 64] two obtain k where
    "user_string user_machine 0x00400000 k" "copy_user_string 0x00400000 64 user_machine = Some (0, user_bytes user_machine 0x00400000 (Suc k))"
    unfolding u by (auto split: if_splits)
  then show ?thesis using only [of k] user_machine_text(2) by (simp del: user_bytes_simps(3))
qed

end
