(* ===== verification/Console.thy ===== *)
theory Console
  imports Prelude
begin

text \<open>
  The console (\<open>kernel/core/console.c\<close>) and its two devices, the VGA text screen (\<open>kernel/drivers/vga.c\<close>) and the serial
  port (\<open>kernel/drivers/serial.c\<close>). What the line status register returns is an arbitrary function of the number of reads
  before; the values written to ports are recorded. A read or write outside the screen buffer is \<^const>\<open>None\<close>.
\<close>

datatype vga_escape_state = VGA_ESCAPE_NONE | VGA_ESCAPE_STARTED | VGA_ESCAPE_CSI | VGA_ESCAPE_CSI_2

record console =
  com1_status :: "nat \<Rightarrow> u8"
  com1_reads :: nat
  port_writes :: "(u16 \<times> u8) list"
  vga_buffer :: "u16 list"
  vga_row :: nat
  vga_column :: nat
  vga_color :: u8
  vga_escape :: vga_escape_state

definition port_out :: "u16 \<Rightarrow> u8 \<Rightarrow> console \<Rightarrow> console" where
  "port_out port x c = c\<lparr>port_writes := port_writes c @ [(port, x)]\<rparr>"

subsection \<open>Serial port\<close>

definition serial_init :: "console \<Rightarrow> console" where
  "serial_init c = fold (\<lambda>(port, x). port_out port x)
     [(0x3F9, 0), (0x3FB, 0x80), (0x3F8, 3), (0x3F9, 0), (0x3FB, 3), (0x3FA, 0xC7), (0x3FC, 0x0B)] c"

fun serial_poll :: "nat \<Rightarrow> u8 \<Rightarrow> console \<Rightarrow> console" where
  "serial_poll 0 character c = c"
| "serial_poll (Suc remaining) character c =
     (let status = com1_status c (com1_reads c); c = c\<lparr>com1_reads := Suc (com1_reads c)\<rparr>
      in if status AND 0x20 \<noteq> 0 then port_out 0x3F8 character c else serial_poll remaining character c)"

definition serial_write_char :: "u8 \<Rightarrow> console \<Rightarrow> console" where
  "serial_write_char character c = serial_poll 0xFFFF character c"

subsection \<open>Text screen\<close>

abbreviation (input) VGA_WIDTH :: nat where "VGA_WIDTH \<equiv> 80"
abbreviation (input) VGA_HEIGHT :: nat where "VGA_HEIGHT \<equiv> 25"

definition vga_cell :: "u8 \<Rightarrow> console \<Rightarrow> u16" where
  "vga_cell character c = push_bit 8 (ucast (vga_color c)) OR ucast character"

definition vga_update_cursor :: "console \<Rightarrow> console" where
  "vga_update_cursor c =
     (let position = of_nat (vga_row c * VGA_WIDTH + vga_column c) :: u16
      in port_out 0x3D5 (ucast position) (port_out 0x3D4 0x0F (port_out 0x3D5 (ucast (drop_bit 8 position)) (port_out 0x3D4 0x0E c))))"

definition vga_set :: "nat \<Rightarrow> u16 \<Rightarrow> console \<Rightarrow> console option" where
  "vga_set index cell c =
     (if index < VGA_WIDTH * VGA_HEIGHT then Some (c\<lparr>vga_buffer := (vga_buffer c)[index := cell]\<rparr>) else None)"

definition vga_get :: "nat \<Rightarrow> console \<Rightarrow> u16 option" where
  "vga_get index c = (if index < VGA_WIDTH * VGA_HEIGHT then Some (vga_buffer c ! index) else None)"

definition vga_clear :: "console \<Rightarrow> console option" where
  "vga_clear c = do {
     c \<leftarrow> for_opt 0 (VGA_WIDTH * VGA_HEIGHT) (\<lambda>index c. vga_set index (vga_cell 0x20 c) c) c;
     Some (c\<lparr>vga_row := 0, vga_column := 0\<rparr>)
   }"

definition vga_scroll :: "console \<Rightarrow> console option" where
  "vga_scroll c = do {
     c \<leftarrow> for_opt 1 VGA_HEIGHT (\<lambda>row. for_opt 0 VGA_WIDTH (\<lambda>column c. do {
            cell \<leftarrow> vga_get (row * VGA_WIDTH + column) c;
            vga_set ((row - 1) * VGA_WIDTH + column) cell c })) c;
     c \<leftarrow> for_opt 0 VGA_WIDTH (\<lambda>column c. vga_set ((VGA_HEIGHT - 1) * VGA_WIDTH + column) (vga_cell 0x20 c) c) c;
     Some (c\<lparr>vga_row := VGA_HEIGHT - 1\<rparr>)
   }"

definition vga_init :: "console \<Rightarrow> console option" where
  "vga_init c = do {
     c \<leftarrow> vga_clear (c\<lparr>vga_color := 7, vga_escape := VGA_ESCAPE_NONE\<rparr>);
     Some (vga_update_cursor c)
   }"

text \<open>The end of \<open>vga_write_char\<close>, for a character that is shown and for a line feed.\<close>

definition vga_put :: "u8 \<Rightarrow> console \<Rightarrow> console option" where
  "vga_put character c = do {
     c \<leftarrow> (if character = 0x0A then Some (c\<lparr>vga_column := 0, vga_row := vga_row c + 1\<rparr>)
            else do {
              c \<leftarrow> vga_set (vga_row c * VGA_WIDTH + vga_column c) (vga_cell character c) c;
              let c = c\<lparr>vga_column := vga_column c + 1\<rparr>;
              Some (if vga_column c = VGA_WIDTH then c\<lparr>vga_column := 0, vga_row := vga_row c + 1\<rparr> else c)
            });
     c \<leftarrow> (if vga_row c = VGA_HEIGHT then vga_scroll c else Some c);
     Some (vga_update_cursor c)
   }"

definition vga_write_char :: "u8 \<Rightarrow> console \<Rightarrow> console option" where
  "vga_write_char character c =
     (case vga_escape c of
        VGA_ESCAPE_STARTED \<Rightarrow> Some (c\<lparr>vga_escape := (if character = 0x5B then VGA_ESCAPE_CSI else VGA_ESCAPE_NONE)\<rparr>)
      | VGA_ESCAPE_CSI \<Rightarrow>
          if character = 0x32 then Some (c\<lparr>vga_escape := VGA_ESCAPE_CSI_2\<rparr>)
          else Some ((if character = 0x48 then vga_update_cursor (c\<lparr>vga_row := 0, vga_column := 0\<rparr>) else c)\<lparr>vga_escape := VGA_ESCAPE_NONE\<rparr>)
      | VGA_ESCAPE_CSI_2 \<Rightarrow> do {
          c \<leftarrow> (if character = 0x4A then map_option vga_update_cursor (vga_clear c) else Some c);
          Some (c\<lparr>vga_escape := VGA_ESCAPE_NONE\<rparr>)
        }
      | VGA_ESCAPE_NONE \<Rightarrow>
          if character = 0x1B then Some (c\<lparr>vga_escape := VGA_ESCAPE_STARTED\<rparr>)
          else if character = 0x0D then Some (vga_update_cursor (c\<lparr>vga_column := 0\<rparr>))
          else if character = 0x08
          then Some (vga_update_cursor
                 (if vga_column c > 0 then c\<lparr>vga_column := vga_column c - 1\<rparr>
                  else if vga_row c > 0 then c\<lparr>vga_row := vga_row c - 1, vga_column := VGA_WIDTH - 1\<rparr> else c))
          else vga_put character c)"

subsection \<open>Console\<close>

definition console_init :: "console \<Rightarrow> console option" where
  "console_init c = vga_init (serial_init c)"

definition console_putc :: "u8 \<Rightarrow> console \<Rightarrow> console option" where
  "console_putc character c =
     (let c = (if character = 0x0A then serial_write_char 0x0D c else c)
      in vga_write_char character (serial_write_char character c))"

primrec console_write :: "u8 list \<Rightarrow> console \<Rightarrow> console option" where
  "console_write [] c = Some c"
| "console_write (x # text) c = do { c \<leftarrow> console_putc x c; console_write text c }"

text \<open>
  The digits of a number, last first, as the \<open>do\<close> loop of \<open>console_write_unsigned\<close> stores them; the callers pass 10 and 16.
\<close>

function reversed_digits :: "nat \<Rightarrow> nat \<Rightarrow> u8 list" where
  "reversed_digits base value =
     (let digit = value mod base; character = of_nat (if digit < 10 then 0x30 + digit else 0x57 + digit)
      in if base < 2 \<or> value div base = 0 then [character] else character # reversed_digits base (value div base))"
  by pat_completeness auto
termination
  by (relation "measure snd") (auto intro!: div_less_dividend elim: contrapos_np)

declare reversed_digits.simps [simp del]

definition console_write_unsigned :: "u32 \<Rightarrow> nat \<Rightarrow> nat \<Rightarrow> console \<Rightarrow> console option" where
  "console_write_unsigned value base minimum_width c =
     (let reversed = reversed_digits base (unat value)
      in console_write (rev (reversed @ replicate (minimum_width - length reversed) 0x30)) c)"

definition console_write_signed :: "u32 \<Rightarrow> console \<Rightarrow> console option" where
  "console_write_signed value c =
     (if sint value < 0
      then do { c \<leftarrow> console_putc 0x2D c; console_write_unsigned (of_int (- (sint value + 1)) + 1) 10 1 c }
      else console_write_unsigned value 10 1 c)"

text \<open>The argument list of \<open>console_vprintf\<close>; an argument that is missing or of the wrong kind is undefined, \<^const>\<open>None\<close>.\<close>

datatype va_argument = Va_String "u8 list option" | Va_Word u32

fun console_vprintf :: "u8 list \<Rightarrow> va_argument list \<Rightarrow> console \<Rightarrow> console option" where
  "console_vprintf [] arguments c = Some c"
| "console_vprintf (x # format) arguments c =
     (if x \<noteq> 0x25 then do { c \<leftarrow> console_putc x c; console_vprintf format arguments c }
      else case format of
        [] \<Rightarrow> console_putc 0x25 c
      | specifier # format \<Rightarrow>
          if specifier = 0x73
          then (case arguments of
                  Va_String text # arguments \<Rightarrow> do {
                    c \<leftarrow> console_write (case text of None \<Rightarrow> [0x28, 0x6E, 0x75, 0x6C, 0x6C, 0x29] | Some text \<Rightarrow> text) c;
                    console_vprintf format arguments c
                  }
                | _ \<Rightarrow> None)
          else if specifier \<in> {0x63, 0x75, 0x64, 0x78, 0x70}
          then (case arguments of
                  Va_Word w # arguments \<Rightarrow> do {
                    c \<leftarrow> (if specifier = 0x63 then console_putc (ucast w) c
                           else if specifier = 0x75 then console_write_unsigned w 10 1 c
                           else if specifier = 0x64 then console_write_signed w c
                           else if specifier = 0x78 then console_write_unsigned w 16 1 c
                           else do { c \<leftarrow> console_write [0x30, 0x78] c; console_write_unsigned w 16 8 c });
                    console_vprintf format arguments c
                  }
                | _ \<Rightarrow> None)
          else do {
            c \<leftarrow> (if specifier = 0x25 then console_putc 0x25 c
                   else do { c \<leftarrow> console_putc 0x25 c; console_putc specifier c });
            console_vprintf format arguments c
          })"

definition power_shutdown :: "console \<Rightarrow> console option" where
  "power_shutdown c = do {
     c \<leftarrow> console_write [0x5B, 0x4B, 0x45, 0x52, 0x4E, 0x5D, 0x20, 0x73, 0x68, 0x75, 0x74, 0x64, 0x6F, 0x77, 0x6E, 0x20,
            0x72, 0x65, 0x71, 0x75, 0x65, 0x73, 0x74, 0x65, 0x64, 0x0A] c;
     Some (port_out 0xF4 0x2A c)
   }"

subsection \<open>The screen stays in bounds\<close>

definition vga_inv :: "console \<Rightarrow> bool" where
  "vga_inv c \<longleftrightarrow> length (vga_buffer c) = 2000 \<and> vga_row c < 25 \<and> vga_column c < 80"

text \<open>A device step that leaves the screen and its cursor alone.\<close>

definition same_screen :: "console \<Rightarrow> console \<Rightarrow> bool" where
  "same_screen c c' \<longleftrightarrow> vga_buffer c' = vga_buffer c \<and> vga_row c' = vga_row c \<and> vga_column c' = vga_column c"

lemma same_screen_inv: "same_screen c c' \<Longrightarrow> vga_inv c' = vga_inv c"
  by (simp add: same_screen_def vga_inv_def)

lemma same_screen_port [simp]: "same_screen c (port_out port x c)"
  by (simp add: same_screen_def port_out_def)

lemma vga_inv_cursor [simp]: "vga_inv (vga_update_cursor c) = vga_inv c"
  by (simp add: vga_inv_def vga_update_cursor_def port_out_def Let_def)

lemma vga_inv_escape [simp]: "vga_inv (c\<lparr>vga_escape := e\<rparr>) = vga_inv c" "vga_inv (c\<lparr>vga_color := x\<rparr>) = vga_inv c"
  by (simp_all add: vga_inv_def)

lemma serial_poll_screen: "same_screen c (serial_poll n x c)"
proof (induction n arbitrary: c)
  case (Suc n)
  show ?case using Suc [of "c\<lparr>com1_reads := Suc (com1_reads c)\<rparr>"] by (simp add: Let_def same_screen_def port_out_def)
qed (simp add: same_screen_def)

lemma serial_write_inv [simp]: "vga_inv (serial_write_char x c) = vga_inv c"
  by (rule same_screen_inv) (simp add: serial_write_char_def serial_poll_screen)

text \<open>The loops over the screen never leave the buffer, and a step of them keeps everything but the buffer.\<close>

definition buffer_step :: "console \<Rightarrow> console \<Rightarrow> bool" where
  "buffer_step c c' \<longleftrightarrow> length (vga_buffer c') = length (vga_buffer c) \<and> vga_row c' = vga_row c \<and> vga_column c' = vga_column c"

lemma buffer_step_refl: "buffer_step c c"
  by (simp add: buffer_step_def)

lemma buffer_step_trans: "buffer_step a b \<Longrightarrow> buffer_step b c \<Longrightarrow> buffer_step a c"
  by (simp add: buffer_step_def)

lemma vga_set_step: "index < 2000 \<Longrightarrow> \<exists>c'. vga_set index cell c = Some c' \<and> buffer_step c c'"
  by (simp add: vga_set_def buffer_step_def)

lemma buffer_loop:
  assumes "\<And>i c. a \<le> i \<Longrightarrow> i < b \<Longrightarrow> \<exists>c'. body i c = Some c' \<and> buffer_step c c'" and "a \<le> b"
  shows "\<exists>c'. for_opt a b body c = Some c' \<and> buffer_step c c'"
proof (rule for_opt_rule [where I = "\<lambda>_ c'. buffer_step c c'"])
  show "\<exists>c''. body i c' = Some c'' \<and> buffer_step c c''" if "a \<le> i" "i < b" "buffer_step c c'" for i c'
    using assms(1) [OF that(1,2), of c'] buffer_step_trans [OF that(3)] by blast
qed (use assms(2) buffer_step_refl in simp_all)

lemma vga_clear_inv:
  assumes "length (vga_buffer c) = 2000"
  shows "\<exists>c'. vga_clear c = Some c' \<and> vga_inv c'"
proof -
  obtain c' where "for_opt 0 (VGA_WIDTH * VGA_HEIGHT) (\<lambda>index c. vga_set index (vga_cell 0x20 c) c) c = Some c'" "buffer_step c c'"
    using buffer_loop [of 0 "VGA_WIDTH * VGA_HEIGHT" "\<lambda>index c. vga_set index (vga_cell 0x20 c) c" c, OF vga_set_step] by auto
  then show ?thesis using assms by (simp add: vga_clear_def vga_inv_def buffer_step_def)
qed

text \<open>Scrolling: the cells before \<open>p\<close> have moved up by a row, the others not yet.\<close>

definition moved_up :: "console \<Rightarrow> nat \<Rightarrow> console \<Rightarrow> bool" where
  "moved_up c p c' \<longleftrightarrow> c' = c\<lparr>vga_buffer := vga_buffer c'\<rparr> \<and> length (vga_buffer c') = 2000 \<and>
     (\<forall>i < 2000. vga_buffer c' ! i = (if i < p then vga_buffer c ! (i + 80) else vga_buffer c ! i))"

lemma move_up_cell:
  assumes "moved_up c p c'" and "p < 1920"
  shows "\<exists>c''. (do { cell \<leftarrow> vga_get (p + 80) c'; vga_set p cell c' }) = Some c'' \<and> moved_up c (Suc p) c''"
proof -
  let ?d = "c'\<lparr>vga_buffer := (vga_buffer c')[p := vga_buffer c' ! (p + 80)]\<rparr>"
  have "(do { cell \<leftarrow> vga_get (p + 80) c'; vga_set p cell c' }) = Some ?d" using assms(2) by (simp add: vga_get_def vga_set_def)
  moreover have "moved_up c (Suc p) ?d" using assms by (cases c; cases c') (auto simp: moved_up_def nth_list_update)
  ultimately show ?thesis by blast
qed

lemma move_up_row:
  assumes "moved_up c ((row - 1) * 80) c'" and "1 \<le> row" and "row < 25"
  shows "\<exists>c''. for_opt 0 VGA_WIDTH (\<lambda>column c. do { cell \<leftarrow> vga_get (row * VGA_WIDTH + column) c; vga_set ((row - 1) * VGA_WIDTH + column) cell c }) c' = Some c'' \<and>
    moved_up c (row * 80) c''"
proof -
  have "\<exists>c''. for_opt 0 VGA_WIDTH (\<lambda>column c. do { cell \<leftarrow> vga_get (row * VGA_WIDTH + column) c; vga_set ((row - 1) * VGA_WIDTH + column) cell c }) c' = Some c'' \<and>
    moved_up c ((row - 1) * 80 + 80) c''"
  proof (rule for_opt_rule [where I = "\<lambda>column. moved_up c ((row - 1) * 80 + column)"])
    fix column d
    assume "column < 80" "moved_up c ((row - 1) * 80 + column) d"
    moreover have eq: "row * 80 + column = (row - 1) * 80 + column + 80" "(row - 1) * 80 + column < 1920"
      using assms(2,3) \<open>column < 80\<close> by (auto simp: diff_mult_distrib)
    ultimately show "\<exists>d'. (do { cell \<leftarrow> vga_get (row * VGA_WIDTH + column) d; vga_set ((row - 1) * VGA_WIDTH + column) cell d }) = Some d' \<and>
        moved_up c ((row - 1) * 80 + Suc column) d'"
      unfolding eq(1) using move_up_cell [of c "(row - 1) * 80 + column" d] by (simp only: add_Suc_right)
  qed (use assms in simp_all)
  moreover have "(row - 1) * 80 + 80 = row * 80" using assms(2) by (simp add: diff_mult_distrib)
  ultimately show ?thesis by simp
qed

lemma blank_cells:
  assumes "length (vga_buffer c) = 2000" and "k \<le> 80"
  shows "for_opt 0 k (\<lambda>column c. vga_set ((VGA_HEIGHT - 1) * VGA_WIDTH + column) (vga_cell 0x20 c) c) c =
    Some (c\<lparr>vga_buffer := take 1920 (vga_buffer c) @ replicate k (vga_cell 0x20 c) @ drop (1920 + k) (vga_buffer c)\<rparr>)"
  using assms(2)
proof (induction k)
  case 0
  show ?case by simp
next
  case (Suc k)
  let ?x = "vga_cell 0x20 c"
  let ?b = "take 1920 (vga_buffer c) @ replicate k ?x @ drop (1920 + k) (vga_buffer c)"
  have "drop (1920 + k) (vga_buffer c) = vga_buffer c ! (1920 + k) # drop (1920 + Suc k) (vga_buffer c)"
    using Cons_nth_drop_Suc [of "1920 + k" "vga_buffer c"] Suc.prems assms(1) by simp
  then have "?b[1920 + k := ?x] = take 1920 (vga_buffer c) @ replicate (Suc k) ?x @ drop (1920 + Suc k) (vga_buffer c)"
    using assms(1) by (simp add: list_update_append replicate_append_same [symmetric] del: replicate_Suc) (simp add: replicate_append_same)
  moreover have "vga_set ((VGA_HEIGHT - 1) * VGA_WIDTH + k) (vga_cell 0x20 (c\<lparr>vga_buffer := ?b\<rparr>)) (c\<lparr>vga_buffer := ?b\<rparr>) =
      Some (c\<lparr>vga_buffer := ?b[1920 + k := ?x]\<rparr>)"
    using Suc.prems by (simp add: vga_set_def vga_cell_def)
  ultimately show ?case using Suc by (simp only: for_opt_last le0 bind.simps)
qed

lemma vga_scroll_eq:
  assumes "length (vga_buffer c) = 2000"
  shows "vga_scroll c = Some (c\<lparr>vga_buffer := drop 80 (vga_buffer c) @ replicate 80 (vga_cell 0x20 c), vga_row := 24\<rparr>)"
proof -
  have "\<exists>c'. for_opt 1 VGA_HEIGHT (\<lambda>row. for_opt 0 VGA_WIDTH (\<lambda>column c. do {
      cell \<leftarrow> vga_get (row * VGA_WIDTH + column) c; vga_set ((row - 1) * VGA_WIDTH + column) cell c })) c = Some c' \<and> moved_up c ((25 - 1) * 80) c'"
  proof (rule for_opt_rule [where I = "\<lambda>row. moved_up c ((row - 1) * 80)"])
    show "moved_up c ((1 - 1) * 80) c" using assms by (simp add: moved_up_def)
  qed (use move_up_row in simp_all)
  then obtain c' where c': "for_opt 1 VGA_HEIGHT (\<lambda>row. for_opt 0 VGA_WIDTH (\<lambda>column c. do {
      cell \<leftarrow> vga_get (row * VGA_WIDTH + column) c; vga_set ((row - 1) * VGA_WIDTH + column) cell c })) c = Some c'" "moved_up c 1920 c'"
    by auto
  have len: "length (vga_buffer c') = 2000" and buf: "take 1920 (vga_buffer c') = drop 80 (vga_buffer c)"
    and rest: "c' = c\<lparr>vga_buffer := vga_buffer c'\<rparr>"
    using c'(2) assms by (auto simp: moved_up_def intro!: nth_equalityI) (metis add.commute)
  have "vga_cell 0x20 c' = vga_cell 0x20 c" by (subst rest) (simp add: vga_cell_def)
  then show ?thesis
    unfolding vga_scroll_def c'(1) bind.simps blank_cells [OF len order.refl] buf by (subst rest) (simp add: len)
qed

lemma vga_scroll_inv:
  assumes "length (vga_buffer c) = 2000" and "vga_column c < 80"
  shows "\<exists>c'. vga_scroll c = Some c' \<and> vga_inv c'"
  using assms by (simp add: vga_scroll_eq vga_inv_def)

lemma vga_put_inv:
  assumes inv: "vga_inv c"
  shows "\<exists>c'. vga_put x c = Some c' \<and> vga_inv c'"
proof -
  let ?step = "if x = 0x0A then Some (c\<lparr>vga_column := 0, vga_row := vga_row c + 1\<rparr>)
    else do {
      c \<leftarrow> vga_set (vga_row c * VGA_WIDTH + vga_column c) (vga_cell x c) c;
      let c = c\<lparr>vga_column := vga_column c + 1\<rparr>;
      Some (if vga_column c = VGA_WIDTH then c\<lparr>vga_column := 0, vga_row := vga_row c + 1\<rparr> else c)
    }"
  have i: "length (vga_buffer c) = 2000" "vga_row c < 25" "vga_column c < 80" using inv by (simp_all add: vga_inv_def)
  obtain c1 where c1: "?step = Some c1" "length (vga_buffer c1) = 2000" "vga_row c1 \<le> 25" "vga_column c1 < 80"
  proof (cases "x = 0x0A")
    case True
    then show thesis using that [of "c\<lparr>vga_column := 0, vga_row := vga_row c + 1\<rparr>"] i by simp
  next
    case False
    let ?d = "c\<lparr>vga_buffer := (vga_buffer c)[vga_row c * VGA_WIDTH + vga_column c := vga_cell x c], vga_column := vga_column c + 1\<rparr>"
    have "vga_set (vga_row c * VGA_WIDTH + vga_column c) (vga_cell x c) c =
      Some (c\<lparr>vga_buffer := (vga_buffer c)[vga_row c * VGA_WIDTH + vga_column c := vga_cell x c]\<rparr>)"
      using i by (simp add: vga_set_def)
    then show thesis
      using that [of "if vga_column ?d = VGA_WIDTH then ?d\<lparr>vga_column := 0, vga_row := vga_row ?d + 1\<rparr> else ?d"] i False by auto
  qed
  have "\<exists>c'. (if vga_row c1 = VGA_HEIGHT then vga_scroll c1 else Some c1) = Some c' \<and> vga_inv c'"
    using vga_scroll_inv [OF c1(2,4)] c1 by (auto simp: vga_inv_def)
  then show ?thesis by (auto simp: vga_put_def c1(1))
qed

lemma vga_write_char_inv:
  assumes inv: "vga_inv c"
  shows "\<exists>c'. vga_write_char x c = Some c' \<and> vga_inv c'"
proof -
  have len: "length (vga_buffer c) = 2000" using inv by (simp add: vga_inv_def)
  show ?thesis
    using inv vga_clear_inv [OF len] vga_put_inv [OF inv, of x]
    by (cases "vga_escape c") (auto simp: vga_write_char_def, auto simp: vga_inv_def)
qed

lemma console_putc_inv: "vga_inv c \<Longrightarrow> \<exists>c'. console_putc x c = Some c' \<and> vga_inv c'"
  unfolding console_putc_def Let_def by (rule vga_write_char_inv) simp

lemma console_write_inv: "vga_inv c \<Longrightarrow> \<exists>c'. console_write out c = Some c' \<and> vga_inv c'"
proof (induction out arbitrary: c)
  case (Cons x out)
  obtain c1 where "console_putc x c = Some c1" "vga_inv c1" using console_putc_inv [OF Cons.prems] by blast
  then show ?case using Cons.IH [of c1] by simp
qed simp

lemma console_init_inv:
  assumes "length (vga_buffer c) = 2000"
  shows "\<exists>c'. console_init c = Some c' \<and> vga_inv c'"
proof -
  have "vga_buffer (serial_init c) = vga_buffer c" by (simp add: serial_init_def port_out_def)
  then show ?thesis using vga_clear_inv [of "serial_init c\<lparr>vga_color := 7, vga_escape := VGA_ESCAPE_NONE\<rparr>"] assms
    by (auto simp: console_init_def vga_init_def)
qed

text \<open>
  C30. Console output stays on the screen. After \<open>console_init\<close> any sequence of bytes, escape sequences, line feeds and
  backspaces included, is written without a read or write outside the 80 by 25 cells of the screen buffer, whatever the serial port
  answers, and leaves the cursor on the screen.
\<close>
theorem console_output_in_bounds:
  assumes "length (vga_buffer c) = 2000"
  shows "\<exists>c0 c'. console_init c = Some c0 \<and> console_write out c0 = Some c' \<and>
    length (vga_buffer c') = 2000 \<and> vga_row c' < 25 \<and> vga_column c' < 80"
  using console_init_inv [OF assms] console_write_inv [of _ out] unfolding vga_inv_def by metis

definition sample_console :: console where
  "sample_console = \<lparr>com1_status = (\<lambda>_. 0x20), com1_reads = 0, port_writes = [], vga_buffer = replicate 2000 0, vga_row = 0,
     vga_column = 0, vga_color = 0, vga_escape = VGA_ESCAPE_NONE\<rparr>"

theorem console_output_in_bounds_witness:
  "\<exists>c0 c'. console_init sample_console = Some c0 \<and> console_write (replicate 3000 0x41 @ [0x08, 0x1B, 0x5B, 0x32, 0x4A, 0x0A]) c0 = Some c' \<and>
     vga_row c' < 25"
  using console_output_in_bounds [of sample_console "replicate 3000 0x41 @ [0x08, 0x1B, 0x5B, 0x32, 0x4A, 0x0A]"]
  unfolding sample_console_def console.simps length_replicate by (metis (lifting))

end
