(* ===== verification/Syscall.thy ===== *)
theory Syscall
  imports Usercopy Scheduler Console Keyboard
begin

text \<open>
  System calls (\<open>kernel/core/syscall.c\<close>) and the interrupt entry (\<open>kernel/arch/x86/irq.c\<close>, \<open>exception.c\<close>). The system is the
  kernel state with the two devices a system call reaches directly, the keyboard and the console.

  A path in the kernel is the list of its bytes before the terminator. A call that switches to another process, or that waits
  at \<open>hlt\<close> for a key, does not end at that point; what follows once the process goes on is \<open>syscall_resumed\<close> and \<open>read_key\<close>.
\<close>

record trap_frame =
  tf_edi :: u32
  tf_esi :: u32
  tf_ebp :: u32
  tf_esp_before_pushad :: u32
  tf_ebx :: u32
  tf_edx :: u32
  tf_ecx :: u32
  tf_eax :: u32
  tf_vector :: u32
  tf_error_code :: u32
  tf_eip :: u32
  tf_cs :: u32
  tf_eflags :: u32
  tf_user_esp :: u32
  tf_user_ss :: u32

record system =
  sys_kernel :: kernel
  sys_keyboard :: keyboard
  sys_console :: console

abbreviation with_kernel :: "kernel \<Rightarrow> system \<Rightarrow> system" where
  "with_kernel k s \<equiv> s\<lparr>sys_kernel := k\<rparr>"

definition on_kernel :: "(kernel \<Rightarrow> 'r \<times> kernel) \<Rightarrow> system \<Rightarrow> ('r \<times> system) option" where
  "on_kernel f s = (case f (sys_kernel s) of (r, k) \<Rightarrow> Some (r, with_kernel k s))"

definition lift_kernel :: "(kernel \<Rightarrow> ('r \<times> kernel) option) \<Rightarrow> system \<Rightarrow> ('r \<times> system) option" where
  "lift_kernel f s = do { (r, k) \<leftarrow> f (sys_kernel s); Some (r, with_kernel k s) }"

subsection \<open>Structures as bytes\<close>

definition bytes16 :: "u16 \<Rightarrow> u8 list" where
  "bytes16 x = [ucast x, ucast (drop_bit 8 x)]"

definition bytes32 :: "u32 \<Rightarrow> u8 list" where
  "bytes32 x = [ucast x, ucast (drop_bit 8 x), ucast (drop_bit 16 x), ucast (drop_bit 24 x)]"

definition stat_bytes :: "minios_stat \<Rightarrow> u8 list" where
  "stat_bytes st = bytes32 (ms_inode st) @ bytes16 (ms_mode st) @ bytes16 (ms_link_count st) @ bytes32 (ms_size st)"

definition dirent_bytes :: "minios_dirent \<Rightarrow> u8 list" where
  "dirent_bytes e = bytes32 (md_inode e) @ bytes16 (md_mode e) @ bytes16 (md_name_length e) @ md_name e @ [md_reserved e]"

definition process_info_bytes :: "minios_process_info \<Rightarrow> u8 list" where
  "process_info_bytes p = bytes32 (info_pid p) @ bytes32 (info_parent_pid p) @ bytes32 (info_state p) @ info_name p"

subsection \<open>Reading and writing\<close>

function syscall_write_loop :: "u32 \<Rightarrow> u32 \<Rightarrow> nat \<Rightarrow> nat \<Rightarrow> system \<Rightarrow> (int \<times> system) option" where
  "syscall_write_loop descriptor user_buffer len offset s =
     (if offset \<ge> len then Some (int offset, s)
      else let chunk = min (len - offset) 128
           in do {
             (r, buffer) \<leftarrow> copy_from_user (user_buffer + of_nat offset) chunk (machine_of (sys_kernel s));
             if r \<noteq> 0 then Some (- MINIOS_EFAULT, s)
             else do {
               (written, s) \<leftarrow> (if descriptor = 1 \<or> descriptor = 2
                                then do { c \<leftarrow> console_write buffer (sys_console s); Some (int chunk, s\<lparr>sys_console := c\<rparr>) }
                                else on_kernel (vfs_write (uint descriptor) buffer) s);
               if written < 0 then Some (if offset = 0 then written else int offset, s)
               else if nat written < chunk then Some (int (offset + nat written), s)
               else syscall_write_loop descriptor user_buffer len (offset + nat written) s
             }
           })"
  by pat_completeness auto
termination
  by (relation "measure (\<lambda>(_, _, len, offset, _). len - offset)") (auto simp: not_le not_less intro!: diff_less_mono2)

declare syscall_write_loop.simps [simp del]

definition syscall_write :: "u32 \<Rightarrow> u32 \<Rightarrow> nat \<Rightarrow> system \<Rightarrow> (int \<times> system) option" where
  "syscall_write descriptor user_buffer len s =
     (if descriptor = 0 \<or> descriptor \<ge> 16 then Some (- MINIOS_EBADF, s)
      else if len > 4096 then Some (- MINIOS_EINVAL, s)
      else do {
        ok \<leftarrow> validate_user_range user_buffer len USER_ACCESS_READ (machine_of (sys_kernel s));
        if \<not> ok then Some (- MINIOS_EFAULT, s) else syscall_write_loop descriptor user_buffer len 0 s
      })"

text \<open>
  One pass of the loop that waits for a key. Without one the processor halts with interrupts on, the result \<^const>\<open>None\<close>;
  after the next interrupt the loop turns interrupts off and makes the next pass.
\<close>

definition irq_enable :: "system \<Rightarrow> system" where
  "irq_enable s = (let k = sys_kernel s; m = machine_of k in with_kernel (with_machine (m\<lparr>eflags := eflags m OR EFLAGS_IF\<rparr>) k) s)"

definition read_key :: "u32 \<Rightarrow> system \<Rightarrow> (int option \<times> system) option" where
  "read_key user_buffer s =
     (case keyboard_try_read (sys_keyboard s) of
        None \<Rightarrow> Some (None, irq_enable s)
      | Some (character, kb) \<Rightarrow> do {
          (r, s) \<leftarrow> lift_kernel (on_machine (copy_to_user user_buffer [character])) (s\<lparr>sys_keyboard := kb\<rparr>);
          Some (Some (if r \<noteq> 0 then - MINIOS_EFAULT else 1), s)
        })"

definition read_key_after_halt :: "u32 \<Rightarrow> system \<Rightarrow> (int option \<times> system) option" where
  "read_key_after_halt user_buffer s = read_key user_buffer (with_kernel (snd (kernel_irq_save (sys_kernel s))) s)"

function syscall_read_loop :: "u32 \<Rightarrow> u32 \<Rightarrow> nat \<Rightarrow> nat \<Rightarrow> kernel \<Rightarrow> (int \<times> kernel) option" where
  "syscall_read_loop descriptor user_buffer len offset k =
     (if offset \<ge> len then Some (int offset, k)
      else let chunk = min (len - offset) 128
           in case vfs_read (uint descriptor) chunk k of ((count, buffer), k) \<Rightarrow>
              if count < 0 then Some (if offset = 0 then count else int offset, k)
              else if count = 0 then Some (int offset, k)
              else do {
                (r, k) \<leftarrow> on_machine (copy_to_user (user_buffer + of_nat offset) buffer) k;
                if r \<noteq> 0 then Some (if offset = 0 then - MINIOS_EFAULT else int offset, k)
                else if nat count < chunk then Some (int (offset + nat count), k)
                else syscall_read_loop descriptor user_buffer len (offset + nat count) k
              })"
  by pat_completeness auto
termination
  by (relation "measure (\<lambda>(_, _, len, offset, _). len - offset)") (auto simp: not_le not_less intro!: diff_less_mono2)

declare syscall_read_loop.simps [simp del]

definition syscall_read :: "u32 \<Rightarrow> u32 \<Rightarrow> nat \<Rightarrow> system \<Rightarrow> (int option \<times> system) option" where
  "syscall_read descriptor user_buffer len s =
     (if descriptor = 1 \<or> descriptor = 2 \<or> descriptor \<ge> 16 then Some (Some (- MINIOS_EBADF), s)
      else if len > 4096 then Some (Some (- MINIOS_EINVAL), s)
      else do {
        ok \<leftarrow> validate_user_range user_buffer len USER_ACCESS_WRITE (machine_of (sys_kernel s));
        if \<not> ok then Some (Some (- MINIOS_EFAULT), s)
        else if len = 0 then Some (Some 0, s)
        else if descriptor = 0 then read_key user_buffer s
        else do { (r, s) \<leftarrow> lift_kernel (syscall_read_loop descriptor user_buffer len 0) s; Some (Some r, s) }
      })"

subsection \<open>Paths\<close>

text \<open>The prefix of the path buffer up to its length is the list; the loop of \<open>remove_last_path_component\<close> shortens it.\<close>

function strip_component :: "u8 list \<Rightarrow> u8 list" where
  "strip_component path = (if length path > 1 \<and> last path \<noteq> 0x2F then strip_component (butlast path) else path)"
  by pat_completeness auto
termination
  by (relation "measure length") auto

declare strip_component.simps [simp del]

definition remove_last_path_component :: "u8 list \<Rightarrow> u8 list" where
  "remove_last_path_component path = (let path = strip_component path in if length path > 1 then butlast path else path)"

text \<open>The argument \<open>source\<close> is the string from the cursor on.\<close>

function append_path_components :: "u8 list \<Rightarrow> u8 list \<Rightarrow> u8 list result" where
  "append_path_components path source =
     (if source = [] then Inr path
      else let source = dropWhile (\<lambda>c. c = 0x2F) source
           in if source = [] then Inr path
              else let component = takeWhile (\<lambda>c. c \<noteq> 0x2F) source; source = dropWhile (\<lambda>c. c \<noteq> 0x2F) source
                   in if component = [0x2E] then append_path_components path source
                      else if component = [0x2E, 0x2E] then append_path_components (remove_last_path_component path) source
                      else let separator = (if length path > 1 then 1 else 0)
                           in if length component \<ge> 256 \<or> separator + length component \<ge> 256 - length path
                              then Inl (- MINIOS_EINVAL)
                              else append_path_components (path @ (if separator \<noteq> 0 then [0x2F] else []) @ component) source)"
  by pat_completeness auto

lemma component_shorter:
  assumes "s \<noteq> []" and "dropWhile P s \<noteq> []"
  shows "length (dropWhile (\<lambda>c. \<not> P c) (dropWhile P s)) < length s"
proof -
  obtain x xs where x: "dropWhile P s = x # xs" using assms(2) by (cases "dropWhile P s") auto
  then have "\<not> P x" using hd_dropWhile [OF assms(2)] by simp
  then have "length (dropWhile (\<lambda>c. \<not> P c) (dropWhile P s)) \<le> length xs" by (simp add: x length_dropWhile_le)
  moreover have "length xs < length s" using length_dropWhile_le [of P s] by (simp add: x)
  ultimately show ?thesis by simp
qed

termination append_path_components
  by (relation "measure (\<lambda>(_, source). length source)") (auto intro: component_shorter [of _ "\<lambda>c. c = 0x2F", simplified])

declare append_path_components.simps [simp del]

definition add_trailing_slash :: "u8 list \<Rightarrow> u8 list \<Rightarrow> u8 list result" where
  "add_trailing_slash input path =
     (if length input > 1 \<and> last input = 0x2F \<and> length path > 1
      then if length path + 1 \<ge> 256 then Inl (- MINIOS_EINVAL) else Inr (path @ [0x2F])
      else Inr path)"

definition normalize_path :: "u8 list \<Rightarrow> kernel \<Rightarrow> u8 list result \<times> kernel" where
  "normalize_path input k =
     (case (if take 1 input \<noteq> [0x2F]
            then case scheduler_get_current_working_directory 256 k of ((ok, cwd), k) \<Rightarrow>
                   (if ok then append_path_components [0x2F] (takeWhile (\<lambda>c. c \<noteq> 0) cwd) else Inl (- MINIOS_EIO), k)
            else (Inr [0x2F], k)) of
        (Inl e, k) \<Rightarrow> (Inl e, k)
      | (Inr path, k) \<Rightarrow>
          case append_path_components path input of
            Inl e \<Rightarrow> (Inl e, k)
          | Inr path \<Rightarrow> (add_trailing_slash input path, k))"

definition copy_syscall_path :: "u32 \<Rightarrow> kernel \<Rightarrow> (u8 list result \<times> kernel) option" where
  "copy_syscall_path user_path k = do {
     (r, bytes) \<leftarrow> copy_user_string user_path 256 (machine_of k);
     let input = takeWhile (\<lambda>c. c \<noteq> 0) bytes;
     Some (if r \<noteq> 0 then (Inl (- MINIOS_EFAULT), k)
           else if input = [] then (Inl (- MINIOS_EINVAL), k)
           else normalize_path input k)
   }"

text \<open>What the calls with one path do: an error of the path is the result.\<close>

definition with_path :: "u32 \<Rightarrow> (u8 list \<Rightarrow> kernel \<Rightarrow> (int \<times> kernel) option) \<Rightarrow> kernel \<Rightarrow> (int \<times> kernel) option" where
  "with_path user_path f k = do {
     (path, k) \<leftarrow> copy_syscall_path user_path k;
     case path of Inl e \<Rightarrow> Some (e, k) | Inr path \<Rightarrow> f path k
   }"

definition syscall_open :: "u32 \<Rightarrow> u32 \<Rightarrow> kernel \<Rightarrow> (int \<times> kernel) option" where
  "syscall_open user_path flags = with_path user_path (\<lambda>path k. Some (vfs_open path flags k))"

definition syscall_create :: "u32 \<Rightarrow> kernel \<Rightarrow> (int \<times> kernel) option" where
  "syscall_create user_path k = do {
     (descriptor, k) \<leftarrow> syscall_open user_path (MINIOS_O_WRONLY OR MINIOS_O_CREAT) k;
     Some (if descriptor < 0 then (descriptor, k) else vfs_close descriptor k)
   }"

definition syscall_unlink :: "u32 \<Rightarrow> kernel \<Rightarrow> (int \<times> kernel) option" where
  "syscall_unlink user_path = with_path user_path (\<lambda>path k. Some (vfs_unlink path k))"

definition syscall_mkdir :: "u32 \<Rightarrow> kernel \<Rightarrow> (int \<times> kernel) option" where
  "syscall_mkdir user_path = with_path user_path (\<lambda>path k. Some (vfs_mkdir path k))"

text \<open>Bytes returned to the user: the result is \<open>success\<close> unless the copy fails. The check of the buffer comes before the work.\<close>

definition return_bytes :: "u32 \<Rightarrow> u8 list \<Rightarrow> int \<Rightarrow> kernel \<Rightarrow> (int \<times> kernel) option" where
  "return_bytes user_buffer bytes success k = do {
     (r, k) \<leftarrow> on_machine (copy_to_user user_buffer bytes) k;
     Some (if r = 0 then success else - MINIOS_EFAULT, k)
   }"

definition user_writable :: "u32 \<Rightarrow> nat \<Rightarrow> (kernel \<Rightarrow> (int \<times> kernel) option) \<Rightarrow> kernel \<Rightarrow> (int \<times> kernel) option" where
  "user_writable user_buffer len f k = do {
     ok \<leftarrow> validate_user_range user_buffer len USER_ACCESS_WRITE (machine_of k);
     if \<not> ok then Some (- MINIOS_EFAULT, k) else f k
   }"

definition syscall_readdir :: "u32 \<Rightarrow> u32 \<Rightarrow> nat \<Rightarrow> kernel \<Rightarrow> (int \<times> kernel) option" where
  "syscall_readdir descriptor user_entry len k =
     (if len < 68 then Some (- MINIOS_EINVAL, k)
      else user_writable user_entry 68 (\<lambda>k.
        case vfs_readdir (sint descriptor) k of ((result, entry), k) \<Rightarrow>
          case entry of
            Some e \<Rightarrow> if result = 1 then return_bytes user_entry (dirent_bytes e) 1 k else Some (result, k)
          | None \<Rightarrow> Some (result, k)) k)"

definition syscall_stat :: "u32 \<Rightarrow> u32 \<Rightarrow> kernel \<Rightarrow> (int \<times> kernel) option" where
  "syscall_stat user_path user_status = user_writable user_status 12 (with_path user_path (\<lambda>path k.
     case vfs_stat path k of
       (Inl e, k) \<Rightarrow> Some (e, k)
     | (Inr status, k) \<Rightarrow> return_bytes user_status (stat_bytes status) 0 k))"

definition syscall_chdir :: "u32 \<Rightarrow> kernel \<Rightarrow> (int \<times> kernel) option" where
  "syscall_chdir user_path = with_path user_path (\<lambda>path k.
     case vfs_stat path k of
       (Inl e, k) \<Rightarrow> Some (e, k)
     | (Inr status, k) \<Rightarrow>
         if ms_mode status \<noteq> MINIFS_MODE_DIRECTORY then Some (- MINIOS_ENOTDIR, k)
         else let path = (if length path > 1 \<and> last path = 0x2F then butlast path else path)
              in case scheduler_set_current_working_directory path k of (ok, k) \<Rightarrow> Some (if ok then 0 else - MINIOS_EIO, k))"

definition syscall_getcwd :: "u32 \<Rightarrow> nat \<Rightarrow> kernel \<Rightarrow> (int \<times> kernel) option" where
  "syscall_getcwd user_buffer capacity k =
     (if capacity = 0 \<or> capacity > 256 then Some (- MINIOS_EINVAL, k)
      else user_writable user_buffer capacity (\<lambda>k.
        case scheduler_get_current_working_directory 256 k of ((ok, cwd), k) \<Rightarrow>
          if \<not> ok then Some (- MINIOS_EIO, k)
          else let path = takeWhile (\<lambda>c. c \<noteq> 0) cwd
               in if length path + 1 > capacity then Some (- MINIOS_EINVAL, k)
                  else return_bytes user_buffer (path @ [0]) 0 k) k)"

subsection \<open>Processes\<close>

definition bounded_length :: "u8 list \<Rightarrow> nat \<Rightarrow> nat" where
  "bounded_length value limit = (case for_find 0 limit (\<lambda>len. value ! len = 0) of None \<Rightarrow> limit | Some len \<Rightarrow> len)"

text \<open>The loop over the argument pointers, and the check after it.\<close>

fun read_arguments :: "nat list \<Rightarrow> u32 \<Rightarrow> u8 list list \<Rightarrow> nat \<Rightarrow> machine \<Rightarrow> u8 list list result option" where
  "read_arguments [] user_argv arguments argument_bytes m = Some (Inl (- MINIOS_E2BIG))"
| "read_arguments (slot # rest) user_argv arguments argument_bytes m = do {
     (r, bytes) \<leftarrow> copy_from_user (user_argv + of_nat (slot * 4)) 4 m;
     if r \<noteq> 0 then Some (Inl (- MINIOS_EFAULT))
     else if field32 bytes 0 = 0 then Some (if arguments = [] then Inl (- MINIOS_E2BIG) else Inr arguments)
     else do {
       (r, argument) \<leftarrow> copy_user_string (field32 bytes 0) 256 m;
       if r \<noteq> 0 then Some (Inl (- MINIOS_EFAULT))
       else let len = bounded_length argument 256
            in if len = 256 \<or> len + 1 > 1024 - argument_bytes then Some (Inl (- MINIOS_E2BIG))
               else read_arguments rest user_argv (arguments @ [take len argument]) (argument_bytes + len + 1) m
     }
   }"

text \<open>Opening, reading and closing the program file: the bytes of the image, or the error that \<open>syscall_spawn\<close> returns.\<close>

definition load_image_file :: "u8 list \<Rightarrow> u32 \<Rightarrow> kernel \<Rightarrow> u8 list result \<times> kernel" where
  "load_image_file path sz k =
     (case vfs_open path MINIOS_O_RDONLY k of (descriptor, k) \<Rightarrow>
        if descriptor < 0 then (Inl descriptor, k)
        else case vfs_read descriptor (unat sz) k of ((count, img), k) \<Rightarrow>
          if count \<noteq> sint sz then (Inl (- MINIOS_EIO), snd (vfs_close descriptor k))
          else case vfs_close descriptor k of (r, k) \<Rightarrow>
            if r \<noteq> 0 then (Inl (- MINIOS_EIO), snd (vfs_close descriptor k)) else (Inr img, k))"

definition spawn_path :: "u8 list \<Rightarrow> u8 list list \<Rightarrow> kernel \<Rightarrow> (int \<times> kernel) option" where
  "spawn_path path arguments k =
     (case vfs_stat path k of
        (Inl e, k) \<Rightarrow> Some (e, k)
      | (Inr status, k) \<Rightarrow>
          if ms_mode status = MINIFS_MODE_DIRECTORY then Some (- MINIOS_EISDIR, k)
          else if ms_size status = 0 then Some (- MINIOS_ENOEXEC, k)
          else do {
            (buffer, k) \<leftarrow> on_heap (kmalloc (ms_size status)) k;
            if buffer = 0 then Some (- MINIOS_ENOMEM, k)
            else case load_image_file path (ms_size status) k of
              (Inl e, k) \<Rightarrow> do {
                (ok, k) \<leftarrow> on_heap (kfree buffer) k;
                if \<not> ok then None else Some (e, k)
              }
            | (Inr img, k) \<Rightarrow> do {
                (result, k) \<leftarrow> scheduler_spawn_image path img arguments k;
                (ok, k) \<leftarrow> on_heap (kfree buffer) k;
                if \<not> ok then None else Some (result, k)
              }
          })"

definition syscall_spawn :: "u32 \<Rightarrow> u32 \<Rightarrow> kernel \<Rightarrow> (int \<times> kernel) option" where
  "syscall_spawn user_path user_argv k = do {
     ok \<leftarrow> (if user_argv = 0 then Some False else validate_user_range user_argv 64 USER_ACCESS_READ (machine_of k));
     if \<not> ok then Some (- MINIOS_EFAULT, k)
     else with_path user_path (\<lambda>path k. do {
       arguments \<leftarrow> read_arguments [0..<16] user_argv [] 0 (machine_of k);
       case arguments of Inl e \<Rightarrow> Some (e, k) | Inr arguments \<Rightarrow> spawn_path path arguments k
     }) k
   }"

definition syscall_ps :: "u32 \<Rightarrow> nat \<Rightarrow> kernel \<Rightarrow> (int \<times> kernel) option" where
  "syscall_ps user_processes capacity k =
     (if capacity > 16 then Some (- MINIOS_EINVAL, k)
      else user_writable user_processes (capacity * 44) (\<lambda>k.
        case scheduler_process_snapshot capacity k of (processes, k) \<Rightarrow>
          return_bytes user_processes (concat (map process_info_bytes processes)) (int (length processes)) k) k)"

text \<open>The end of \<open>SYS_waitpid\<close>, once \<open>scheduler_waitpid\<close> has returned.\<close>

definition finish_waitpid :: "u32 \<Rightarrow> int \<times> int option \<Rightarrow> kernel \<Rightarrow> (int \<times> kernel) option" where
  "finish_waitpid user_status r k =
     (case r of (result, status) \<Rightarrow>
        if result \<ge> 0 \<and> user_status \<noteq> 0
        then return_bytes user_status (bytes32 (of_int (case status of None \<Rightarrow> 0 | Some code \<Rightarrow> code))) result k
        else Some (result, k))"

subsection \<open>Dispatch\<close>

text \<open>
  How a system call leaves: with the frame to return with, or switched away inside the scheduler, or halted until the next
  interrupt, or with the machine shut down.
\<close>

datatype dispatched = Returns trap_frame | Switched_Away | Halted | Shut_Down

definition returns :: "trap_frame \<Rightarrow> int \<Rightarrow> dispatched" where
  "returns frame result = Returns (frame\<lparr>tf_eax := of_int result\<rparr>)"

definition leaves :: "trap_frame \<Rightarrow> (int outcome \<times> kernel) option \<Rightarrow> system \<Rightarrow> (dispatched \<times> system) option" where
  "leaves frame r s = do {
     (r, k) \<leftarrow> r;
     Some (case r of Returned result \<Rightarrow> returns frame result | Switched \<Rightarrow> Switched_Away, with_kernel k s)
   }"

definition completes :: "trap_frame \<Rightarrow> (int \<times> kernel) option \<Rightarrow> system \<Rightarrow> (dispatched \<times> system) option" where
  "completes frame r s = leaves frame (map_option (\<lambda>(result, k). (Returned result, k)) r) s"

definition dispatch_waitpid :: "u32 \<Rightarrow> u32 \<Rightarrow> kernel \<Rightarrow> (int outcome \<times> kernel) option" where
  "dispatch_waitpid pid user_status k = do {
     ok \<leftarrow> (if user_status = 0 then Some True else validate_user_range user_status 4 USER_ACCESS_WRITE (machine_of k));
     if \<not> ok then Some (Returned (- MINIOS_EFAULT), k)
     else do {
       (r, k) \<leftarrow> scheduler_waitpid (sint pid) k;
       case r of
         Switched \<Rightarrow> Some (Switched, k)
       | Returned r \<Rightarrow> map_option (\<lambda>(result, k). (Returned result, k)) (finish_waitpid user_status r k)
     }
   }"

definition syscall_dispatch :: "trap_frame \<Rightarrow> system \<Rightarrow> (dispatched \<times> system) option" where
  "syscall_dispatch frame s =
     (let k = sys_kernel s; ebx = tf_ebx frame; ecx = tf_ecx frame; edx = tf_edx frame; number = tf_eax frame
      in if tf_cs frame AND 3 \<noteq> 3 then Some (returns frame (- MINIOS_ENOSYS), s)
         else if number = 0 then do { k \<leftarrow> scheduler_exit_current (sint ebx) k; Some (Switched_Away, with_kernel k s) }
         else if number = 1 then do { (r, s) \<leftarrow> syscall_write ebx ecx (unat edx) s; Some (returns frame r, s) }
         else if number = 2
         then do { (r, s) \<leftarrow> syscall_read ebx ecx (unat edx) s; Some (case r of None \<Rightarrow> Halted | Some r \<Rightarrow> returns frame r, s) }
         else if number = 3 then completes frame (syscall_open ebx ecx k) s
         else if number = 4 then completes frame (Some (vfs_close (sint ebx) k)) s
         else if number = 5 then completes frame (Some (vfs_lseek (sint ebx) (sint ecx) (sint edx) k)) s
         else if number = 6 then completes frame (syscall_create ebx k) s
         else if number = 7 then completes frame (syscall_unlink ebx k) s
         else if number = 8 then completes frame (syscall_mkdir ebx k) s
         else if number = 9 then completes frame (syscall_readdir ebx ecx (unat edx) k) s
         else if number = 10 then completes frame (syscall_spawn ebx ecx k) s
         else if number = 11 then leaves frame (dispatch_waitpid ebx ecx k) s
         else if number = 12 then completes frame (Some (sint (scheduler_current_pid k), k)) s
         else if number = 13
         then leaves frame (map_option (\<lambda>(r, k). (case r of Returned _ \<Rightarrow> Returned 0 | Switched \<Rightarrow> Switched, k)) (scheduler_yield k)) s
         else if number = 14
         then leaves frame (map_option (\<lambda>(r, k). (case r of Returned ok \<Rightarrow> Returned (if ok then 0 else - MINIOS_EINVAL)
                | Switched \<Rightarrow> Switched, k)) (scheduler_sleep_current ebx k)) s
         else if number = 15 then completes frame (syscall_chdir ebx k) s
         else if number = 16 then completes frame (syscall_stat ebx ecx k) s
         else if number = 17 then completes frame (Some (sint (tick_count k), k)) s
         else if number = 18 then completes frame (syscall_ps ebx (unat ecx) k) s
         else if number = 19 then completes frame (syscall_getcwd ebx (unat ecx) k) s
         else if number = 20
         then do { c \<leftarrow> power_shutdown (sys_console s);
                   Some (Shut_Down, with_kernel (snd (kernel_irq_save k)) (s\<lparr>sys_console := c\<rparr>)) }
         else Some (returns frame (- MINIOS_ENOSYS), s))"

text \<open>The rest of a call that was switched away, when \<^const>\<open>resume\<close> has run the rest of the scheduler's part.\<close>

definition syscall_resumed :: "trap_frame \<Rightarrow> resumed \<Rightarrow> system \<Rightarrow> (dispatched \<times> system) option" where
  "syscall_resumed frame r s =
     (case r of
        Returns_From_Yield \<Rightarrow> Some (returns frame 0, s)
      | Returns_From_Sleep ok \<Rightarrow> Some (returns frame (if ok then 0 else - MINIOS_EINVAL), s)
      | Returns_From_Waitpid result status \<Rightarrow> completes frame (finish_waitpid (tf_ecx frame) (result, status) (sys_kernel s)) s
      | _ \<Rightarrow> None)"

subsection \<open>Interrupts and exceptions\<close>

definition pic_send_eoi :: "nat \<Rightarrow> console \<Rightarrow> console" where
  "pic_send_eoi irq c = port_out 0x20 0x20 (if irq \<ge> 8 then port_out 0xA0 0x20 c else c)"

text \<open>The timer interrupt counts the tick and reports the fifth one.\<close>

definition pit_irq :: "system \<Rightarrow> system option" where
  "pit_irq s =
     (let k = pit_handle_irq (sys_kernel s); s = with_kernel k s
      in if tick_count k = 5
         then do { c \<leftarrow> console_vprintf (bytes_of ''[KERN] pit tick=%u'' @ [0x0A]) [Va_Word (tick_count k)] (sys_console s);
                   Some (s\<lparr>sys_console := c\<rparr>) }
         else Some s)"

definition irq_dispatch :: "trap_frame \<Rightarrow> system \<Rightarrow> (unit outcome \<times> system) option" where
  "irq_dispatch frame s =
     (if tf_vector frame < 32 \<or> tf_vector frame \<ge> 48 then None
      else let irq = unat (tf_vector frame) - 32
           in do {
             s \<leftarrow> (if irq = 0 then pit_irq s
                    else if irq = 1 then Some (s\<lparr>sys_keyboard := keyboard_handle_irq (sys_keyboard s)\<rparr>) else Some s);
             let s = s\<lparr>sys_console := pic_send_eoi irq (sys_console s)\<rparr>;
             if irq = 0 then lift_kernel scheduler_on_tick s else Some (Returned (), s)
           })"

text \<open>The handler the scheduler installs is \<^const>\<open>scheduler_user_page_fault\<close>; \<open>cr2\<close> is the address that faulted.\<close>

definition exception_dispatch :: "u32 \<Rightarrow> trap_frame \<Rightarrow> kernel \<Rightarrow> (unit outcome \<times> kernel) option" where
  "exception_dispatch cr2 frame k =
     (if tf_vector frame = 14 \<and> tf_error_code frame AND 4 \<noteq> 0
      then do {
        (r, k) \<leftarrow> scheduler_user_page_fault cr2 (tf_error_code frame) (tf_cs frame) (tf_eip frame) k;
        case r of
          Switched \<Rightarrow> Some (Switched, k)
        | Returned handled \<Rightarrow> if handled then Some (Returned (), k) else None
      }
      else None)"

end
