(* ===== verification/Path_Correct.thy ===== *)
theory Path_Correct
  imports Syscall Sched_Correct
begin

text \<open>
  Path normalization against a reference on lists of components: \<open>normalize_path\<close> walks the string with a cursor and edits the
  path buffer in place; the reference splits the string at the slashes and keeps a stack of names.
\<close>

subsection \<open>The reference\<close>

fun split_path :: "u8 list \<Rightarrow> u8 list list" where
  "split_path [] = [[]]"
| "split_path (c # cs) = (if c = 0x2F then [] # split_path cs else (c # hd (split_path cs)) # tl (split_path cs))"

definition path_of :: "u8 list list \<Rightarrow> u8 list" where
  "path_of names = (if names = [] then [0x2F] else concat (map ((#) 0x2F) names))"

fun resolve :: "u8 list list \<Rightarrow> u8 list list \<Rightarrow> u8 list list option" where
  "resolve names [] = Some names"
| "resolve names (c # cs) =
     (if c = [] \<or> c = [0x2E] then resolve names cs
      else if c = [0x2E, 0x2E] then resolve (butlast names) cs
      else if length (path_of (names @ [c])) \<ge> 256 then None
      else resolve (names @ [c]) cs)"

definition proper :: "u8 list \<Rightarrow> bool" where
  "proper c \<longleftrightarrow> c \<noteq> [] \<and> 0x2F \<notin> set c \<and> c \<noteq> [0x2E] \<and> c \<noteq> [0x2E, 0x2E]"

subsection \<open>The buffer is the rendered stack\<close>

lemma path_of_snoc: "path_of (names @ [c]) = (if names = [] then [0x2F] @ c else path_of names @ [0x2F] @ c)"
  by (simp add: path_of_def)

lemma path_of_first: "\<exists>r. path_of names = 0x2F # r"
  by (cases names) (simp_all add: path_of_def)

lemma path_of_single: "list_all proper names \<Longrightarrow> length (path_of names) > 1 \<longleftrightarrow> names \<noteq> []"
  by (cases names) (auto simp: path_of_def proper_def)

lemma strip_component_name:
  assumes "0x2F \<notin> set c" and "p \<noteq> []" and "last p = 0x2F"
  shows "strip_component (p @ c) = p"
  using assms(1)
proof (induction c rule: rev_induct)
  case Nil
  then show ?case using assms(3) by (subst strip_component.simps) simp
next
  case (snoc x c)
  have "length (p @ c @ [x]) > 1" using assms(2) by (cases p) auto
  then show ?case using snoc by (subst strip_component.simps) (auto simp: butlast_append)
qed

lemma remove_last_path_of:
  assumes "list_all proper names"
  shows "remove_last_path_component (path_of names) = path_of (butlast names)"
proof (cases names rule: rev_cases)
  case Nil
  then show ?thesis by (simp add: path_of_def remove_last_path_component_def strip_component.simps)
next
  case (snoc ns c)
  have c: "0x2F \<notin> set c" using assms snoc by (simp add: proper_def)
  show ?thesis
  proof (cases "ns = []")
    case True
    then show ?thesis using snoc strip_component_name [OF c, of "[0x2F]"]
      by (simp add: path_of_snoc remove_last_path_component_def) (simp add: path_of_def)
  next
    case False
    have "strip_component (path_of names) = path_of ns @ [0x2F]"
      using strip_component_name [OF c, of "path_of ns @ [0x2F]"] False by (simp add: snoc path_of_snoc)
    moreover have "path_of ns \<noteq> []" using path_of_first [of ns] by auto
    ultimately show ?thesis by (simp add: remove_last_path_component_def snoc)
  qed
qed

subsection \<open>The cursor walks the components\<close>

lemma split_path_nonempty: "split_path s \<noteq> []"
  by (cases s) simp_all

lemma split_path_eq:
  "split_path s = takeWhile (\<lambda>c. c \<noteq> 0x2F) s # (case dropWhile (\<lambda>c. c \<noteq> 0x2F) s of [] \<Rightarrow> [] | _ # r \<Rightarrow> split_path r)"
  by (induction s) auto

lemma resolve_skip: "resolve names (split_path (dropWhile (\<lambda>c. c = 0x2F) s)) = resolve names (split_path s)"
  by (induction s) auto

lemma resolve_tail:
  assumes "s = dropWhile (\<lambda>c. c \<noteq> 0x2F) t"
  shows "resolve names (case s of [] \<Rightarrow> [] | _ # r \<Rightarrow> split_path r) = resolve names (split_path s)"
proof (cases s)
  case (Cons x r)
  then have "x = 0x2F" using hd_dropWhile [of "\<lambda>c. c \<noteq> 0x2F" t] assms by auto
  then show ?thesis using Cons by simp
qed simp

lemma append_step:
  assumes "source \<noteq> []" and "s = dropWhile (\<lambda>c. c = 0x2F) source" and "s \<noteq> []"
    and "c = takeWhile (\<lambda>c. c \<noteq> 0x2F) s" and "t = dropWhile (\<lambda>c. c \<noteq> 0x2F) s" and "sep = (if length path > 1 then 1 else 0)"
  shows "append_path_components path source =
    (if c = [0x2E] then append_path_components path t
     else if c = [0x2E, 0x2E] then append_path_components (remove_last_path_component path) t
     else if length c \<ge> 256 \<or> sep + length c \<ge> 256 - length path then Inl (- MINIOS_EINVAL)
     else append_path_components (path @ (if sep \<noteq> 0 then [0x2F] else []) @ c) t)"
  by (subst append_path_components.simps)
    (simp only: assms(1) assms(3) Let_def if_False assms(2) [symmetric] assms(4) [symmetric] assms(5) [symmetric] assms(6) [symmetric])

lemma append_path_components_resolve:
  assumes "list_all proper names" and "length (path_of names) < 256"
  shows "append_path_components (path_of names) source =
    (case resolve names (split_path source) of None \<Rightarrow> Inl (- MINIOS_EINVAL) | Some names' \<Rightarrow> Inr (path_of names'))"
  using assms
proof (induction "length source" arbitrary: source names rule: less_induct)
  case less
  let ?s = "dropWhile (\<lambda>c. c = 0x2F) source"
  show ?case
  proof (cases "source = [] \<or> ?s = []")
    case True
    then have s: "?s = []" by auto
    then have "resolve names (split_path source) = Some names" using resolve_skip [of names source, unfolded s] by simp
    then show ?thesis using s by (subst append_path_components.simps) simp
  next
    case False
    let ?c = "takeWhile (\<lambda>c. c \<noteq> 0x2F) ?s" and ?t = "dropWhile (\<lambda>c. c \<noteq> 0x2F) ?s"
    have short: "length ?t < length source" using component_shorter [of source "\<lambda>c. c = 0x2F"] False by simp
    obtain x xs where x: "?s = x # xs" "x \<noteq> 0x2F" using False hd_dropWhile [of "\<lambda>c. c = 0x2F" source] by (cases ?s) auto
    then have c: "?c \<noteq> []" "0x2F \<notin> set ?c" by (auto dest: set_takeWhileD)
    have r: "resolve n (split_path source) = resolve n (?c # split_path ?t)" for n
    proof -
      have "resolve n (split_path source) = resolve n (?c # (case ?t of [] \<Rightarrow> [] | _ # r \<Rightarrow> split_path r))"
        unfolding resolve_skip [symmetric, of n source] by (subst split_path_eq) simp
      then show ?thesis using resolve_tail [OF refl, of _ ?s] by simp
    qed
    note IH = less.hyps [OF short]
    let ?sep = "if length (path_of names) > 1 then 1 else 0 :: nat"
    have s: "source \<noteq> []" "?s \<noteq> []" using False by simp_all
    note a = append_step [OF s(1) refl s(2) refl refl refl, of "path_of names"]
    show ?thesis
    proof (cases "?c = [0x2E] \<or> ?c = [0x2E, 0x2E]")
      case True
      have "list_all proper (butlast names)" using less.prems(1) by (auto simp: list_all_iff dest: in_set_butlastD)
      moreover have "length (path_of (butlast names)) \<le> length (path_of names)"
        by (cases names rule: rev_cases) (auto simp: path_of_snoc, simp add: path_of_def)
      ultimately show ?thesis
        using True IH [of names] IH [of "butlast names"] less.prems r [of names] by (auto simp: a remove_last_path_of)
    next
      case name: False
      have p: "list_all proper (names @ [?c])" using less.prems(1) c name by (simp add: proper_def)
      have path: "path_of names @ (if ?sep \<noteq> 0 then [0x2F] else []) @ ?c = path_of (names @ [?c])"
        using path_of_single [OF less.prems(1)] by (auto simp: path_of_snoc) (simp add: path_of_def)
      have len: "length (path_of (names @ [?c])) = length (path_of names) + ?sep + length ?c"
        unfolding path [symmetric] by simp
      have fits: "length ?c \<ge> 256 \<or> ?sep + length ?c \<ge> 256 - length (path_of names) \<longleftrightarrow> length (path_of (names @ [?c])) \<ge> 256"
        using less.prems(2) unfolding len by linarith
      show ?thesis unfolding a path fits using name c(1) IH [OF p] r [of names] by simp
    qed
  qed
qed

lemma resolve_proper:
  assumes "resolve names (split_path s) = Some names'" and "list_all proper names" and "length (path_of names) < 256"
  shows "list_all proper names' \<and> length (path_of names') < 256"
proof -
  have "list_all proper names' \<and> length (path_of names') < 256"
    if "resolve names cs = Some names'" "list_all proper names" "length (path_of names) < 256" "\<forall>c\<in>set cs. 0x2F \<notin> set c" for cs
    using that
  proof (induction names cs rule: resolve.induct)
    case (2 names c cs)
    have "list_all proper (butlast names)" using "2.prems"(2) by (auto simp: list_all_iff dest: in_set_butlastD)
    moreover have "length (path_of (butlast names)) \<le> length (path_of names)"
      by (cases names rule: rev_cases) (auto simp: path_of_snoc, simp add: path_of_def)
    moreover have "proper c" if "c \<noteq> []" "c \<noteq> [0x2E]" "c \<noteq> [0x2E, 0x2E]" using that "2.prems"(4) by (simp add: proper_def)
    ultimately show ?case using 2 by (auto split: if_splits)
  qed simp
  moreover have "\<forall>c\<in>set (split_path s). 0x2F \<notin> set c"
  proof (induction s)
    case (Cons x s)
    then show ?case using split_path_nonempty [of s] by (cases "split_path s") auto
  qed simp
  ultimately show ?thesis using assms by blast
qed

subsection \<open>The working directory\<close>

lemma copy_cwd_terminated:
  assumes "z < n" "z < capacity" "cwd ! z = 0" "\<forall>j<z. cwd ! j \<noteq> 0" "i \<le> z"
  shows "copy_cwd [i..<n] capacity cwd path = (True, path @ map ((!) cwd) [i..<Suc z])"
  using assms(5)
proof (induction "z - i" arbitrary: i path)
  case 0
  then show ?case using assms(1-3) by (simp add: upt_conv_Cons)
next
  case (Suc d)
  then have "i < z" by simp
  then have "[i..<n] = i # [Suc i..<n]" "[i..<Suc z] = i # [Suc i..<Suc z]" using assms(1) by (simp_all add: upt_conv_Cons)
  then show ?case using Suc.hyps(1) [of "Suc i" "path @ [cwd ! i]"] Suc.hyps(2) \<open>i < z\<close> assms(2,4) by simp
qed

lemma take_map_nth: "n \<le> length xs \<Longrightarrow> map ((!) xs) [0..<n] = take n xs"
  by (simp add: take_map [symmetric] map_nth list_eq_iff_nth_eq)

definition cwd_text :: "kernel \<Rightarrow> u8 list" where
  "cwd_text k = takeWhile (\<lambda>c. c \<noteq> 0) (current_working_directory (proc k (current_process k)))"

lemma get_cwd:
  assumes "length (cwd_text k) < 256" and "length (current_working_directory (proc k (current_process k))) = 256"
  shows "\<exists>k'. scheduler_get_current_working_directory 256 k = ((True, cwd_text k @ [0]), k')"
proof -
  let ?cwd = "current_working_directory (proc k (current_process k))" and ?z = "length (cwd_text k)"
  obtain flags k0 where k0: "kernel_irq_save k = (flags, k0)" by fastforce
  have same: "proc k0 (current_process k0) = proc k (current_process k)"
    using k0 by (auto simp: kernel_irq_save_def with_machine_def proc_def split: prod.splits)
  have z: "?cwd ! ?z = 0" "take ?z ?cwd = cwd_text k"
    using nth_length_takeWhile [of "\<lambda>c. c \<noteq> 0" ?cwd] assms by (auto simp: cwd_text_def takeWhile_eq_take [symmetric])
  have nz: "\<forall>j<?z. ?cwd ! j \<noteq> 0"
  proof (intro allI impI)
    fix j assume j: "j < ?z"
    then have "cwd_text k ! j \<in> set (cwd_text k)" by simp
    then have "cwd_text k ! j \<noteq> 0" unfolding cwd_text_def by (auto dest: set_takeWhileD)
    then show "?cwd ! j \<noteq> 0" using j by (simp add: cwd_text_def takeWhile_nth)
  qed
  have "map ((!) ?cwd) [0..<Suc ?z] = cwd_text k @ [0]"
    using z take_map_nth [of ?z ?cwd] assms by simp
  then show ?thesis using copy_cwd_terminated [OF assms(1) assms(1) z(1) nz, of 0 "[]"] k0 same
    by (simp add: scheduler_get_current_working_directory_def)
qed

subsection \<open>Normalization\<close>

definition reference_path :: "u8 list \<Rightarrow> u8 list \<Rightarrow> u8 list result" where
  "reference_path cwd input =
     (case Option.bind (if take 1 input = [0x2F] then Some [] else resolve [] (split_path cwd)) (\<lambda>base. resolve base (split_path input)) of
        None \<Rightarrow> Inl (- MINIOS_EINVAL)
      | Some names \<Rightarrow>
          if length input > 1 \<and> last input = 0x2F \<and> names \<noteq> []
          then if length (path_of names) \<ge> 255 then Inl (- MINIOS_EINVAL) else Inr (path_of names @ [0x2F])
          else Inr (path_of names))"

text \<open>
  C4. Path normalization is equivalent to resolving components on a stack. For every path and every working directory
  \<open>normalize_path\<close> returns what the reference returns: the path split at its slashes, empty components and \<open>.\<close> dropped,
  \<open>..\<close> removing the name before it, a trailing slash kept, and an error exactly when a prefix has more than 255
  bytes. A result is absolute, shorter than the buffer, and its names are neither empty nor \<open>.\<close> nor \<open>..\<close> and have no slash.
\<close>
theorem normalize_path_equivalent:
  assumes "length (current_working_directory (proc k (current_process k))) = 256" and "length (cwd_text k) < 256"
  shows "fst (normalize_path input k) = reference_path (cwd_text k) input \<and>
    (case reference_path (cwd_text k) input of
       Inl e \<Rightarrow> e = - MINIOS_EINVAL
     | Inr path \<Rightarrow> length path < 256 \<and> (\<exists>names. list_all proper names \<and> (path = path_of names \<or> path = path_of names @ [0x2F])))"
proof -
  have root: "list_all proper []" "length (path_of []) < 256" "path_of [] = [0x2F]" by (simp_all add: path_of_def)
  let ?base = "if take 1 input = [0x2F] then Some [] else resolve [] (split_path (cwd_text k))"
  have base: "list_all proper b \<and> length (path_of b) < 256" if "?base = Some b" for b
    using that root resolve_proper [OF _ root(1,2)] by (auto split: if_splits)
  obtain k' where k': "scheduler_get_current_working_directory 256 k = ((True, cwd_text k @ [0]), k')" using get_cwd [OF assms(2,1)] by blast
  have cwd: "takeWhile (\<lambda>c. c \<noteq> 0) (cwd_text k @ [0]) = cwd_text k"
    by (simp add: cwd_text_def takeWhile_append takeWhile_idem)
  have norm: "fst (normalize_path input k) = (case ?base of None \<Rightarrow> Inl (- MINIOS_EINVAL)
     | Some b \<Rightarrow> case append_path_components (path_of b) input of Inl e \<Rightarrow> Inl e | Inr path \<Rightarrow> add_trailing_slash input path)"
    using append_path_components_resolve [OF root(1,2), of "cwd_text k"] k' cwd root(3)
    by (auto simp: normalize_path_def split: option.splits sum.splits)
  show ?thesis
  proof (cases "Option.bind ?base (\<lambda>base. resolve base (split_path input))")
    case None
    then have "fst (normalize_path input k) = Inl (- MINIOS_EINVAL)"
      using append_path_components_resolve base by (cases ?base) (simp_all add: norm)
    then show ?thesis using None by (simp add: reference_path_def)
  next
    case (Some names)
    then obtain b where b: "?base = Some b" "resolve b (split_path input) = Some names" by (cases ?base) simp_all
    note p = resolve_proper [OF b(2)] base [OF b(1)]
    have "fst (normalize_path input k) = add_trailing_slash input (path_of names)"
      using append_path_components_resolve [of b input] p b by (simp add: norm)
    then show ?thesis using p path_of_single [of names] Some unfolding reference_path_def by (auto simp: add_trailing_slash_def)
  qed
qed

lemma sample_kernel_cwd:
  "length (current_working_directory (proc sample_kernel (current_process sample_kernel))) = 256" "cwd_text sample_kernel = [0x2F]"
proof -
  have "current_working_directory (proc sample_kernel (current_process sample_kernel)) = 0x2F # replicate 255 0"
    by (simp add: sample_kernel_proc sample_boot_process_def cleared_process_def)
  then show "length (current_working_directory (proc sample_kernel (current_process sample_kernel))) = 256" "cwd_text sample_kernel = [0x2F]"
    by (simp_all add: cwd_text_def takeWhile_replicate)
qed

theorem normalize_path_equivalent_witness:
  "fst (normalize_path [0x61, 0x2F, 0x2E, 0x2F, 0x2F, 0x62, 0x2F, 0x2E, 0x2E, 0x2F, 0x63, 0x2F] sample_kernel) =
     Inr [0x2F, 0x61, 0x2F, 0x63, 0x2F]"
  using normalize_path_equivalent [OF sample_kernel_cwd(1), of "[0x61, 0x2F, 0x2E, 0x2F, 0x2F, 0x62, 0x2F, 0x2E, 0x2E, 0x2F, 0x63, 0x2F]"]
  by (simp add: sample_kernel_cwd(2) reference_path_def path_of_def)

end
