(* ===== verification/Userland.thy ===== *)
theory Userland
  imports Vfs
begin

text \<open>
  What the user programs share: the system calls as they see them, and the library of \<open>user/libc\<close>.

  A program runs in a world of which it only sees what its system calls return; the calls are a parameter of every program, and
  what is proved holds for all behaviours of them. A string is the list of its bytes before the terminator. \<^const>\<open>None\<close> means that
  a call, and so the program, does not return, or that the program accesses memory outside its buffers.
\<close>

record 'w calls =
  sys_write :: "int \<Rightarrow> u8 list \<Rightarrow> 'w \<Rightarrow> (int \<times> 'w) option"
  sys_read :: "int \<Rightarrow> nat \<Rightarrow> 'w \<Rightarrow> ((int \<times> u8 list) \<times> 'w) option"
  sys_open :: "u8 list \<Rightarrow> u32 \<Rightarrow> 'w \<Rightarrow> (int \<times> 'w) option"
  sys_close :: "int \<Rightarrow> 'w \<Rightarrow> (int \<times> 'w) option"
  sys_lseek :: "int \<Rightarrow> int \<Rightarrow> int \<Rightarrow> 'w \<Rightarrow> (int \<times> 'w) option"
  sys_create :: "u8 list \<Rightarrow> 'w \<Rightarrow> (int \<times> 'w) option"
  sys_unlink :: "u8 list \<Rightarrow> 'w \<Rightarrow> (int \<times> 'w) option"
  sys_mkdir :: "u8 list \<Rightarrow> 'w \<Rightarrow> (int \<times> 'w) option"
  sys_readdir :: "int \<Rightarrow> nat \<Rightarrow> 'w \<Rightarrow> ((int \<times> minios_dirent) \<times> 'w) option"
  sys_stat :: "u8 list \<Rightarrow> 'w \<Rightarrow> ((int \<times> minios_stat) \<times> 'w) option"
  sys_spawn :: "u8 list \<Rightarrow> u8 list list \<Rightarrow> 'w \<Rightarrow> (int \<times> 'w) option"
  sys_waitpid :: "int \<Rightarrow> 'w \<Rightarrow> ((int \<times> int) \<times> 'w) option"
  sys_getpid :: "'w \<Rightarrow> (int \<times> 'w) option"
  sys_sleep :: "u32 \<Rightarrow> 'w \<Rightarrow> (int \<times> 'w) option"
  sys_chdir :: "u8 list \<Rightarrow> 'w \<Rightarrow> (int \<times> 'w) option"
  sys_getcwd :: "nat \<Rightarrow> 'w \<Rightarrow> ((int \<times> u8 list) \<times> 'w) option"
  sys_getticks :: "'w \<Rightarrow> (u32 \<times> 'w) option"
  sys_ps :: "nat \<Rightarrow> 'w \<Rightarrow> ((int \<times> minios_process_info list) \<times> 'w) option"

type_synonym ('w, 'r) program = "'w \<Rightarrow> ('r \<times> 'w) option"

text \<open>A chain \<open>a && b && ...\<close> of calls that say whether they succeeded.\<close>

primrec all_of :: "('w, bool) program list \<Rightarrow> ('w, bool) program" where
  "all_of [] w = Some (True, w)"
| "all_of (p # ps) w = do { (ok, w) \<leftarrow> p w; if ok then all_of ps w else Some (False, w) }"

lemma all_of_append: "all_of (ps @ qs) w = do { (ok, w) \<leftarrow> all_of ps w; if ok then all_of qs w else Some (False, w) }"
  by (induction ps arbitrary: w) (auto split: bind_splits prod.splits)

text \<open>A call whose result is dropped, and the value the program goes on with.\<close>

definition and_then :: "('w, 'a) program \<Rightarrow> 'r \<Rightarrow> ('w, 'r) program" where
  "and_then p r w = map_option (\<lambda>(_, w). (r, w)) (p w)"

definition text_line :: "string \<Rightarrow> u8 list" where
  "text_line s = bytes_of s @ [0x0A]"

subsection \<open>Strings\<close>

definition c_string :: "u8 list \<Rightarrow> u8 list" where
  "c_string buffer = takeWhile (\<lambda>c. c \<noteq> 0) buffer"

text \<open>The comparison loop, on the strings from the index on.\<close>

fun minios_streq :: "u8 list \<Rightarrow> u8 list \<Rightarrow> bool" where
  "minios_streq (x # left) (y # right) = (if x \<noteq> y then False else minios_streq left right)"
| "minios_streq [] [] = True"
| "minios_streq _ _ = False"

lemma minios_streq_iff [simp]: "minios_streq left right \<longleftrightarrow> left = right"
  by (induction left right rule: minios_streq.induct) auto

text \<open>The loops that append to a path buffer of a given capacity.\<close>

fun append_bounded :: "nat \<Rightarrow> u8 list \<Rightarrow> u8 list \<Rightarrow> u8 list option" where
  "append_bounded capacity destination [] = Some destination"
| "append_bounded capacity destination (x # text) =
     (if length destination + 1 \<ge> capacity then None else append_bounded capacity (destination @ [x]) text)"

subsection \<open>Output\<close>

function write_all_loop :: "'w calls \<Rightarrow> int \<Rightarrow> u8 list \<Rightarrow> nat \<Rightarrow> ('w, bool) program" where
  "write_all_loop c descriptor bytes offset w =
     (if offset < length bytes
      then let chunk = min (length bytes - offset) 4096
           in do {
             (written, w) \<leftarrow> sys_write c descriptor (take chunk (drop offset bytes)) w;
             if written \<le> 0 then Some (False, w) else write_all_loop c descriptor bytes (offset + nat written) w
           }
      else Some (True, w))"
  by pat_completeness auto
termination
  by (relation "measure (\<lambda>(_, _, bytes, offset, _). length bytes - offset)") auto

declare write_all_loop.simps [simp del]

definition minios_write_all :: "'w calls \<Rightarrow> int \<Rightarrow> u8 list \<Rightarrow> ('w, bool) program" where
  "minios_write_all c descriptor bytes = write_all_loop c descriptor bytes 0"

definition minios_print :: "'w calls \<Rightarrow> int \<Rightarrow> u8 list \<Rightarrow> ('w, bool) program" where
  "minios_print c descriptor text = minios_write_all c descriptor text"

text \<open>The \<open>do\<close> loop that stores the digits, last first, and the loop that swaps them.\<close>

function digits_of :: "nat \<Rightarrow> u8 list" where
  "digits_of value = of_nat (0x30 + value mod 10) # (if value div 10 = 0 then [] else digits_of (value div 10))"
  by pat_completeness auto
termination
  by (relation "measure id") auto

declare digits_of.simps [simp del]

definition reverse_digits :: "u8 list \<Rightarrow> u8 list" where
  "reverse_digits digits =
     (let count = length digits
      in for_range 0 (count div 2) (\<lambda>index digits.
           let temporary = digits ! index
           in digits[index := digits ! (count - index - 1), count - index - 1 := temporary]) digits)"

definition minios_print_uint32 :: "'w calls \<Rightarrow> int \<Rightarrow> u32 \<Rightarrow> ('w, bool) program" where
  "minios_print_uint32 c descriptor value = minios_write_all c descriptor (reverse_digits (digits_of (unat value)))"

definition minios_print_int32 :: "'w calls \<Rightarrow> int \<Rightarrow> int \<Rightarrow> ('w, bool) program" where
  "minios_print_int32 c descriptor value =
     (if value \<ge> 0 then minios_print_uint32 c descriptor (of_int value)
      else all_of [minios_print c descriptor (bytes_of ''-''), minios_print_uint32 c descriptor (of_int (- value))])"

definition minios_error_text :: "int \<Rightarrow> u8 list" where
  "minios_error_text error =
     (let code = (if error < 0 then - error else error)
      in bytes_of
        (if code = MINIOS_ENOENT then ''not found'' else if code = MINIOS_EIO then ''I/O error''
         else if code = MINIOS_E2BIG then ''argument list too long'' else if code = MINIOS_ENOEXEC then ''not executable''
         else if code = MINIOS_EBADF then ''bad file descriptor'' else if code = MINIOS_ECHILD then ''no child process''
         else if code = MINIOS_EAGAIN then ''resource temporarily unavailable'' else if code = MINIOS_ENOMEM then ''out of memory''
         else if code = MINIOS_EFAULT then ''bad address'' else if code = MINIOS_EBUSY then ''resource busy''
         else if code = MINIOS_EEXIST then ''already exists'' else if code = MINIOS_ENOTDIR then ''not a directory''
         else if code = MINIOS_EISDIR then ''is a directory'' else if code = MINIOS_EINVAL then ''invalid argument''
         else if code = MINIOS_ENFILE then ''system file table full'' else if code = MINIOS_EMFILE then ''too many open files''
         else if code = MINIOS_ENOSPC then ''no space left'' else if code = MINIOS_ENOSYS then ''not implemented''
         else if code = MINIOS_ENOTEMPTY then ''directory not empty'' else ''unknown error''))"

definition minios_report_error :: "'w calls \<Rightarrow> string \<Rightarrow> u8 list option \<Rightarrow> int \<Rightarrow> ('w, bool) program" where
  "minios_report_error c command operand error =
     all_of ([minios_print c 2 (bytes_of command), minios_print c 2 (bytes_of '': '')] @
       (case operand of None \<Rightarrow> [] | Some operand \<Rightarrow> [minios_print c 2 operand, minios_print c 2 (bytes_of '': '')]) @
       [minios_print c 2 (minios_error_text error), minios_print c 2 [0x0A]])"

subsection \<open>A quiet world\<close>

text \<open>System calls that always succeed and deliver nothing.\<close>

definition quiet_calls :: "'w calls" where
  "quiet_calls = \<lparr>sys_write = (\<lambda>_ bytes w. Some (int (length bytes), w)), sys_read = (\<lambda>_ _ w. Some ((0, []), w)),
     sys_open = (\<lambda>_ _ w. Some (3, w)), sys_close = (\<lambda>_ w. Some (0, w)), sys_lseek = (\<lambda>_ _ _ w. Some (0, w)),
     sys_create = (\<lambda>_ w. Some (0, w)), sys_unlink = (\<lambda>_ w. Some (0, w)), sys_mkdir = (\<lambda>_ w. Some (0, w)),
     sys_readdir = (\<lambda>_ _ w. Some ((0, \<lparr>md_inode = 0, md_mode = 0, md_name_length = 0, md_name = [], md_reserved = 0\<rparr>), w)),
     sys_stat = (\<lambda>_ w. Some ((- MINIOS_ENOENT, \<lparr>ms_inode = 0, ms_mode = 0, ms_link_count = 0, ms_size = 0\<rparr>), w)),
     sys_spawn = (\<lambda>_ _ w. Some (1, w)), sys_waitpid = (\<lambda>pid w. Some ((pid, 0), w)), sys_getpid = (\<lambda>w. Some (1, w)),
     sys_sleep = (\<lambda>_ w. Some (0, w)), sys_chdir = (\<lambda>_ w. Some (0, w)), sys_getcwd = (\<lambda>_ w. Some ((0, [0x2F, 0]), w)),
     sys_getticks = (\<lambda>w. Some (0, w)), sys_ps = (\<lambda>_ w. Some ((0, []), w))\<rparr>"

lemma write_all_succeeds:
  assumes "\<And>d bytes w. sys_write c d bytes w = Some (int (length bytes), w)" and "offset \<le> length bytes"
  shows "write_all_loop c d bytes offset w = Some (True, w)"
  using assms(2)
proof (induction "length bytes - offset" arbitrary: offset rule: less_induct)
  case less
  let ?n = "min (length bytes - offset) 4096"
  have step: "sys_write c d (take ?n (drop offset bytes)) w = Some (int ?n, w)" by (simp add: assms(1))
  show ?case
  proof (cases "offset < length bytes")
    case True
    then have "write_all_loop c d bytes (offset + ?n) w = Some (True, w)" by (intro less.hyps) auto
    then show ?thesis using True step by (subst write_all_loop.simps) (simp add: Let_def)
  qed (subst write_all_loop.simps, simp)
qed

lemma prints_succeed:
  assumes "\<And>d bytes w. sys_write c d bytes w = Some (int (length bytes), w)"
  shows "minios_write_all c d bytes w = Some (True, w)" "minios_print c d bytes w = Some (True, w)" "minios_print_uint32 c d n w = Some (True, w)"
  using write_all_succeeds [OF assms] by (simp_all add: minios_print_def minios_print_uint32_def minios_write_all_def)

lemma quiet_calls_simps [simp]:
  "minios_write_all quiet_calls d bytes w = Some (True, w)" "minios_print quiet_calls d bytes w = Some (True, w)"
  "minios_print_uint32 quiet_calls d n w = Some (True, w)"
  "sys_open quiet_calls path flags w = Some (3, w)" "sys_close quiet_calls d w = Some (0, w)"
  by (simp_all add: prints_succeed quiet_calls_def)

end
