(* ===== verification/Byte_Array.thy ===== *)
theory Byte_Array
  imports Prelude
begin

text \<open>
  Fixed buffers of bytes, and the loops that move their contents. An access outside the buffer is \<^const>\<open>None\<close>.
\<close>

definition array_get :: "nat \<Rightarrow> u8 list \<Rightarrow> u8 option" where
  "array_get index b = (if index < length b then Some (b ! index) else None)"

definition array_put :: "nat \<Rightarrow> u8 \<Rightarrow> u8 list \<Rightarrow> u8 list option" where
  "array_put index x b = (if index < length b then Some (b[index := x]) else None)"

text \<open>The \<open>n\<close> bytes from \<open>start\<close> on, as a call reads them that is given their place.\<close>

definition array_slice :: "nat \<Rightarrow> nat \<Rightarrow> u8 list \<Rightarrow> u8 list option" where
  "array_slice start n b = (if start + n \<le> length b then Some (take n (drop start b)) else None)"

text \<open>Storing bytes one after the other, and moving \<open>n\<close> bytes from \<open>source\<close> to \<open>target\<close>, first byte first or last byte first.\<close>

definition array_copy :: "nat \<Rightarrow> u8 list \<Rightarrow> u8 list \<Rightarrow> u8 list option" where
  "array_copy start bytes = for_opt 0 (length bytes) (\<lambda>index. array_put (start + index) (bytes ! index))"

definition copy_ascending :: "nat \<Rightarrow> nat \<Rightarrow> nat \<Rightarrow> u8 list \<Rightarrow> u8 list option" where
  "copy_ascending n target source =
     for_opt 0 n (\<lambda>index b. do { x \<leftarrow> array_get (source + index) b; array_put (target + index) x b })"

definition copy_descending :: "nat \<Rightarrow> nat \<Rightarrow> nat \<Rightarrow> u8 list \<Rightarrow> u8 list option" where
  "copy_descending n target source =
     for_opt 0 n (\<lambda>step b. let index = n - step in do { x \<leftarrow> array_get (source + index - 1) b; array_put (target + index - 1) x b })"

lemma array_copy_spec:
  assumes "start + length bytes \<le> length b"
  shows "array_copy start bytes b = Some (take start b @ bytes @ drop (start + length bytes) b)"
proof -
  have "\<exists>b'. for_opt 0 (length bytes) (\<lambda>index. array_put (start + index) (bytes ! index)) b = Some b' \<and>
      b' = take start b @ take (length bytes) bytes @ drop (start + length bytes) b"
  proof (rule for_opt_rule [where I = "\<lambda>i b'. b' = take start b @ take i bytes @ drop (start + i) b"])
    show "b = take start b @ take 0 bytes @ drop (start + 0) b" by simp
    fix i b' assume i: "i < length bytes" and b': "b' = take start b @ take i bytes @ drop (start + i) b"
    have "drop (start + i) b = b ! (start + i) # drop (start + Suc i) b" using i assms by (simp add: Cons_nth_drop_Suc)
    then show "\<exists>b''. array_put (start + i) (bytes ! i) b' = Some b'' \<and> b'' = take start b @ take (Suc i) bytes @ drop (start + Suc i) b"
      using i assms by (simp add: array_put_def b' take_Suc_conv_app_nth list_update_append)
  qed simp
  then show ?thesis by (simp add: array_copy_def)
qed

text \<open>A buffer in which the bytes at the distances \<open>S\<close> have been moved.\<close>

definition moved :: "nat \<Rightarrow> nat \<Rightarrow> nat set \<Rightarrow> u8 list \<Rightarrow> u8 list \<Rightarrow> bool" where
  "moved target source S b b' \<longleftrightarrow> length b' = length b \<and>
     (\<forall>p<length b. b' ! p = (if target \<le> p \<and> p - target \<in> S then b ! (source + (p - target)) else b ! p))"

lemma moved_step:
  assumes m: "moved target source S b b'" and t: "target + i < length b" and s: "source + i < length b"
    and unread: "target \<le> source + i \<Longrightarrow> source + i - target \<notin> S"
  shows "\<exists>b''. Option.bind (array_get (source + i) b') (\<lambda>x. array_put (target + i) x b') = Some b'' \<and> moved target source (insert i S) b b''"
proof -
  have "b' ! (source + i) = b ! (source + i)" using m s unread by (auto simp: moved_def)
  then show ?thesis using m t s by (auto simp: moved_def array_get_def array_put_def nth_list_update)
qed

lemma moved_all:
  assumes "moved target source {..<n} b b'" and "target + n \<le> length b" and "source + n \<le> length b"
  shows "b' = take target b @ take n (drop source b) @ drop (target + n) b"
  using assms by (auto simp: moved_def nth_append not_less intro!: nth_equalityI)

lemma copy_ascending_spec:
  assumes "target \<le> source" and "source + n \<le> length b"
  shows "copy_ascending n target source b = Some (take target b @ take n (drop source b) @ drop (target + n) b)"
proof -
  have "\<exists>b'. copy_ascending n target source b = Some b' \<and> moved target source {..<n} b b'"
    unfolding copy_ascending_def
  proof (rule for_opt_rule [where I = "\<lambda>i. moved target source {..<i} b"])
    show "moved target source {..<0} b b" by (simp add: moved_def)
    fix i b' assume "i < n" and m: "moved target source {..<i} b b'"
    then show "\<exists>b''. Option.bind (array_get (source + i) b') (\<lambda>x. array_put (target + i) x b') = Some b'' \<and> moved target source {..<Suc i} b b''"
      using assms unfolding lessThan_Suc by (intro moved_step) auto
  qed simp
  then show ?thesis using moved_all [of target source n b] assms by auto
qed

lemma copy_descending_spec:
  assumes "source \<le> target" and "target + n \<le> length b"
  shows "copy_descending n target source b = Some (take target b @ take n (drop source b) @ drop (target + n) b)"
proof -
  have "\<exists>b'. copy_descending n target source b = Some b' \<and> moved target source {n - n..<n} b b'"
    unfolding copy_descending_def
  proof (rule for_opt_rule [where I = "\<lambda>i. moved target source {n - i..<n} b"])
    show "moved target source {n - 0..<n} b b" by (simp add: moved_def)
    fix i b' assume i: "i < n" and m: "moved target source {n - i..<n} b b'"
    have set: "{n - Suc i..<n} = insert (n - Suc i) {n - i..<n}" using i by auto
    have idx: "source + (n - i) - 1 = source + (n - Suc i)" "target + (n - i) - 1 = target + (n - Suc i)" using i by auto
    show "\<exists>b''. (let index = n - i in do { x \<leftarrow> array_get (source + index - 1) b'; array_put (target + index - 1) x b' }) = Some b'' \<and>
        moved target source {n - Suc i..<n} b b''"
      unfolding Let_def idx set using assms i m by (intro moved_step) auto
  qed simp
  then show ?thesis using moved_all [of target source n b] assms by (auto simp: lessThan_atLeast0)
qed

end
