(* ===== verification/Edit.thy ===== *)
theory Edit
  imports Userland Byte_Array
begin

text \<open>
  The line editor (\<open>user/programs/edit.c\<close>). The text is the first \<open>edit_length\<close> bytes of a buffer of 32768 bytes.
  Every access to the buffer is checked; one outside is \<^const>\<open>None\<close>.
\<close>

datatype editor_action = EDITOR_CONTINUE | EDITOR_EXIT | EDITOR_FATAL

record editor =
  edit_buffer :: "u8 list"
  edit_length :: nat

definition initial_editor :: editor where
  "initial_editor = \<lparr>edit_buffer = replicate 32768 0, edit_length = 0\<rparr>"

subsection \<open>Text and lines\<close>

definition text_byte_supported :: "u8 \<Rightarrow> bool" where
  "text_byte_supported value \<longleftrightarrow> value = 0x0A \<or> value = 0x09 \<or> value \<ge> 0x20 \<and> value \<le> 0x7E"

definition buffer_set_text :: "u8 list \<Rightarrow> editor \<Rightarrow> (bool \<times> editor) option" where
  "buffer_set_text text e =
     (if length text > 32768 then Some (False, e)
      else do { b \<leftarrow> array_copy 0 text (edit_buffer e); Some (True, e\<lparr>edit_buffer := b, edit_length := length text\<rparr>) })"

text \<open>A loop over the bytes of the text that ends with false at the first one that fails a test.\<close>

definition every_byte :: "(nat \<Rightarrow> u8 \<Rightarrow> bool) \<Rightarrow> editor \<Rightarrow> bool option" where
  "every_byte P e =
     for_opt 0 (edit_length e) (\<lambda>index ok. if \<not> ok then Some False else do { x \<leftarrow> array_get index (edit_buffer e); Some (P index x) }) True"

definition buffer_matches :: "u8 list \<Rightarrow> editor \<Rightarrow> bool option" where
  "buffer_matches text e =
     (if edit_length e \<noteq> length text then Some False else every_byte (\<lambda>index x. x = text ! index) e)"

definition line_count :: "editor \<Rightarrow> nat option" where
  "line_count e =
     (if edit_length e = 0 then Some 0
      else do {
        count \<leftarrow> for_opt 0 (edit_length e) (\<lambda>index count. do {
          x \<leftarrow> array_get index (edit_buffer e); Some (if x = 0x0A then count + 1 else count) }) 0;
        x \<leftarrow> array_get (edit_length e - 1) (edit_buffer e);
        Some (if x \<noteq> 0x0A then count + 1 else count)
      })"

text \<open>The inner loop of \<open>line_bounds\<close>, from a position to the end of its line, and the outer loop over the lines to skip.\<close>

function line_end :: "editor \<Rightarrow> nat \<Rightarrow> nat option" where
  "line_end e position =
     (if position < edit_length e
      then do { x \<leftarrow> array_get position (edit_buffer e); if x \<noteq> 0x0A then line_end e (position + 1) else Some position }
      else Some position)"
  by pat_completeness auto
termination
  by (relation "measure (\<lambda>(e, position). edit_length e - position)") auto

declare line_end.simps [simp del]

text \<open>No such line is the inner \<^const>\<open>None\<close>.\<close>

primrec skip_lines :: "editor \<Rightarrow> nat \<Rightarrow> nat \<Rightarrow> nat option option" where
  "skip_lines e 0 position = Some (Some position)"
| "skip_lines e (Suc rest) position = do {
     position \<leftarrow> line_end e position;
     if position = edit_length e then Some None else skip_lines e rest (position + 1)
   }"

definition line_bounds :: "nat \<Rightarrow> editor \<Rightarrow> (nat \<times> nat \<times> nat) option option" where
  "line_bounds number e =
     (if number = 0 \<or> edit_length e = 0 then Some None
      else do {
        position \<leftarrow> skip_lines e (number - 1) 0;
        case position of
          None \<Rightarrow> Some None
        | Some start \<Rightarrow>
            if start \<ge> edit_length e then Some None
            else do {
              content_end \<leftarrow> line_end e start;
              Some (Some (start, content_end, if content_end < edit_length e then content_end + 1 else content_end))
            }
      })"

subsection \<open>Changing the text\<close>

definition replace_range :: "nat \<Rightarrow> nat \<Rightarrow> u8 list \<Rightarrow> editor \<Rightarrow> (bool \<times> editor) option" where
  "replace_range start stop replacement e =
     (if start > stop \<or> stop > edit_length e then Some (False, e)
      else let removed = stop - start
           in if length replacement > 32768 - (edit_length e - removed) then Some (False, e)
              else let tail = edit_length e - stop; new_length = edit_length e - removed + length replacement
                   in do {
                     b \<leftarrow> (if length replacement > removed
                            then copy_descending tail (start + length replacement) stop (edit_buffer e)
                            else copy_ascending tail (start + length replacement) stop (edit_buffer e));
                     b \<leftarrow> array_copy start replacement b;
                     Some (True, e\<lparr>edit_buffer := b, edit_length := new_length\<rparr>)
                   })"

definition build_line_payload :: "bool \<Rightarrow> u8 list \<Rightarrow> u8 list option" where
  "build_line_payload leading_newline text =
     (if length text + (if leading_newline then 2 else 1) > 258 then None
      else Some ((if leading_newline then [0x0A] else []) @ text @ [0x0A]))"

definition append_line :: "u8 list \<Rightarrow> editor \<Rightarrow> (bool \<times> editor) option" where
  "append_line text e = do {
     needs_separator \<leftarrow> (if edit_length e > 0 then do { x \<leftarrow> array_get (edit_length e - 1) (edit_buffer e); Some (x \<noteq> 0x0A) } else Some False);
     case build_line_payload needs_separator text of
       None \<Rightarrow> Some (False, e)
     | Some payload \<Rightarrow> replace_range (edit_length e) (edit_length e) payload e
   }"

definition insert_line :: "nat \<Rightarrow> u8 list \<Rightarrow> editor \<Rightarrow> (bool \<times> editor) option" where
  "insert_line number text e = do {
     count \<leftarrow> line_count e;
     if number = count + 1 then append_line text e
     else if number = 0 \<or> number > count then Some (False, e)
     else do {
       bounds \<leftarrow> line_bounds number e;
       case bounds of
         None \<Rightarrow> Some (False, e)
       | Some (start, _, _) \<Rightarrow>
           (case build_line_payload False text of
              None \<Rightarrow> Some (False, e)
            | Some payload \<Rightarrow> replace_range start start payload e)
     }
   }"

definition replace_line :: "nat \<Rightarrow> u8 list \<Rightarrow> editor \<Rightarrow> (bool \<times> editor) option" where
  "replace_line number text e = do {
     bounds \<leftarrow> line_bounds number e;
     case bounds of
       None \<Rightarrow> Some (False, e)
     | Some (start, content_end, _) \<Rightarrow> replace_range start content_end text e
   }"

definition delete_line :: "nat \<Rightarrow> editor \<Rightarrow> (bool \<times> editor) option" where
  "delete_line number e = do {
     bounds \<leftarrow> line_bounds number e;
     case bounds of
       None \<Rightarrow> Some (False, e)
     | Some (start, _, full_end) \<Rightarrow> replace_range start full_end [] e
   }"

subsection \<open>Files\<close>

definition print_line :: "'w calls \<Rightarrow> editor \<Rightarrow> nat \<Rightarrow> ('w, bool) program" where
  "print_line c e number w = do {
     bounds \<leftarrow> line_bounds number e;
     case bounds of
       None \<Rightarrow> Some (False, w)
     | Some (start, content_end, _) \<Rightarrow> do {
         bytes \<leftarrow> array_slice start (content_end - start) (edit_buffer e);
         all_of [minios_print_uint32 c 1 (of_nat number), minios_print c 1 [0x09], minios_write_all c 1 bytes, minios_print c 1 [0x0A]] w
       }
   }"

definition print_range :: "'w calls \<Rightarrow> nat \<Rightarrow> nat \<Rightarrow> editor \<Rightarrow> ('w, bool) program" where
  "print_range c first stop e w =
     Option.bind (line_count e) (\<lambda>count.
       if count = 0 then minios_print c 1 (text_line ''(empty)'') w
       else if first = 0 \<or> stop < first \<or> stop > count then Some (False, w)
       else all_of (map (print_line c e) [first..<stop + 1]) w)"

text \<open>
  The loop that reads the file. The bytes a call delivers are stored after those read so far.
\<close>

function load_loop :: "'w calls \<Rightarrow> u8 list \<Rightarrow> int \<Rightarrow> nat \<Rightarrow> editor \<Rightarrow> ('w, bool \<times> editor) program" where
  "load_loop c path descriptor sz e w =
     (if edit_length e < sz
      then let chunk = min (sz - edit_length e) 4096
           in do {
             ((result, bytes), w) \<leftarrow> sys_read c descriptor chunk w;
             if result \<le> 0 then do {
               (_, w) \<leftarrow> minios_report_error c ''edit'' (Some path) (if result < 0 then result else - MINIOS_EIO) w;
               (_, w) \<leftarrow> sys_close c descriptor w;
               Some ((False, e), w)
             }
             else do {
               b \<leftarrow> array_copy (edit_length e) bytes (edit_buffer e);
               load_loop c path descriptor sz (e\<lparr>edit_buffer := b, edit_length := edit_length e + nat result\<rparr>) w
             }
           }
      else Some ((True, e), w))"
  by pat_completeness auto
termination
  by (relation "measure (\<lambda>(_, _, _, sz, e, _). sz - edit_length e)") auto

declare load_loop.simps [simp del]

definition load_file :: "'w calls \<Rightarrow> u8 list \<Rightarrow> bool \<Rightarrow> editor \<Rightarrow> ('w, (bool \<times> bool) \<times> editor) program" where
  "load_file c path new_file e w = do {
     let e = e\<lparr>edit_length := 0\<rparr>;
     ((result, status), w) \<leftarrow> sys_stat c path w;
     if result = - MINIOS_ENOENT then Some (((True, True), e), w)
     else if result < 0 then and_then (minios_report_error c ''edit'' (Some path) result) ((False, new_file), e) w
     else if ms_mode status \<noteq> MINIFS_MODE_REGULAR
     then and_then (minios_report_error c ''edit'' (Some path) (- MINIOS_EISDIR)) ((False, new_file), e) w
     else if unat (ms_size status) > 32768
     then and_then (minios_report_error c ''edit'' (Some path) (- MINIOS_E2BIG)) ((False, new_file), e) w
     else do {
       (descriptor, w) \<leftarrow> sys_open c path MINIOS_O_RDONLY w;
       if descriptor < 3 then and_then (minios_report_error c ''edit'' (Some path) descriptor) ((False, new_file), e) w
       else do {
         ((ok, e), w) \<leftarrow> load_loop c path descriptor (unat (ms_size status)) e w;
         if \<not> ok then Some (((False, new_file), e), w)
         else do {
           (closed, w) \<leftarrow> sys_close c descriptor w;
           if closed < 0 then and_then (minios_report_error c ''edit'' (Some path) (- MINIOS_EIO)) ((False, new_file), e) w
           else do {
             supported \<leftarrow> every_byte (\<lambda>_. text_byte_supported) e;
             if \<not> supported then do {
               (_, w) \<leftarrow> minios_print c 2 (bytes_of ''edit: '') w;
               (_, w) \<leftarrow> minios_print c 2 path w;
               and_then (minios_print c 2 (text_line '': unsupported non-text byte'')) ((False, new_file), e) w
             }
             else Some (((True, False), e), w)
           }
         }
       }
     }
   }"

definition save_file :: "'w calls \<Rightarrow> u8 list \<Rightarrow> bool \<Rightarrow> editor \<Rightarrow> ('w, bool \<times> bool) program" where
  "save_file c path dirty e w = do {
     (descriptor, w) \<leftarrow> sys_open c path (MINIOS_O_WRONLY OR MINIOS_O_CREAT OR MINIOS_O_TRUNC) w;
     if descriptor < 3 then and_then (minios_report_error c ''edit'' (Some path) descriptor) (False, dirty) w
     else do {
       bytes \<leftarrow> array_slice 0 (edit_length e) (edit_buffer e);
       (written, w) \<leftarrow> minios_write_all c descriptor bytes w;
       (success, w) \<leftarrow> (if written then Some (True, w) else and_then (minios_report_error c ''edit'' (Some path) (- MINIOS_EIO)) False w);
       (closed, w) \<leftarrow> sys_close c descriptor w;
       (success, w) \<leftarrow> (if closed < 0 then and_then (minios_report_error c ''edit'' (Some path) (- MINIOS_EIO)) False w else Some (success, w));
       if success then do {
         (_, w) \<leftarrow> minios_print_uint32 c 1 (of_nat (edit_length e)) w;
         and_then (minios_print c 1 (text_line '' bytes written'')) (True, False) w
       }
       else Some ((False, dirty), w)
     }
   }"

subsection \<open>Commands\<close>

text \<open>The loop that reads a command line; the buffer holds the bytes typed so far. The number is what the function returns.\<close>

partial_function (option) read_command :: "'w calls \<Rightarrow> nat \<Rightarrow> u8 list \<Rightarrow> 'w \<Rightarrow> ((int \<times> u8 list) \<times> 'w) option" where
  "read_command c capacity command w =
     Option.bind (sys_read c 0 1 w) (\<lambda>r. case r of ((result, bytes), w) \<Rightarrow>
       let character = hd bytes
       in if result \<noteq> 1 then Some ((- 1, command), w)
          else if character = 4 \<and> command = [] then and_then (minios_print c 1 [0x0A]) (0, command) w
          else if character = 3 then and_then (minios_print c 1 (text_line ''^C'')) (1, []) w
          else if character = 0x0A then and_then (minios_print c 1 [0x0A]) (1, command) w
          else if character = 0x08 \<or> character = 0x7F
          then (if command \<noteq> []
                then Option.bind (minios_print c 1 [0x08, 0x20, 0x08] w) (\<lambda>r. case r of (ok, w) \<Rightarrow>
                       if \<not> ok then Some ((- 1, butlast command), w) else read_command c capacity (butlast command) w)
                else read_command c capacity command w)
          else let character = (if character = 0x09 then 0x20 else character)
               in if character < 0x20 \<or> character > 0x7E \<or> length command + 1 \<ge> capacity
                  then read_command c capacity command w
                  else Option.bind (minios_write_all c 1 [character] w) (\<lambda>r. case r of (ok, w) \<Rightarrow>
                         if \<not> ok then Some ((- 1, command @ [character]), w)
                         else read_command c capacity (command @ [character]) w))"

definition is_space :: "u8 \<Rightarrow> bool" where
  "is_space x \<longleftrightarrow> x = 0x20 \<or> x = 0x09"

definition skip_spaces :: "u8 list \<Rightarrow> u8 list" where
  "skip_spaces cursor = dropWhile is_space cursor"

definition command_arguments :: "u8 list \<Rightarrow> char \<Rightarrow> u8 list option" where
  "command_arguments command verb =
     (case command of
        [] \<Rightarrow> None
      | x # rest \<Rightarrow>
          if x \<noteq> of_char verb \<or> rest \<noteq> [] \<and> \<not> is_space (hd rest) then None else Some (skip_spaces rest))"

fun parse_digits :: "u8 list \<Rightarrow> u32 \<Rightarrow> bool \<Rightarrow> (u32 \<times> bool \<times> u8 list) option" where
  "parse_digits [] parsed found = Some (parsed, found, [])"
| "parse_digits (x # cursor) parsed found =
     (if x \<ge> 0x30 \<and> x \<le> 0x39
      then let digit = ucast (x - 0x30)
           in if parsed > (0xFFFFFFFF - digit) div 10 then None else parse_digits cursor (parsed * 10 + digit) True
      else Some (parsed, found, x # cursor))"

definition consume_number :: "u8 list \<Rightarrow> (nat \<times> u8 list) option" where
  "consume_number cursor =
     (case parse_digits (skip_spaces cursor) 0 False of
        None \<Rightarrow> None
      | Some (parsed, found, cursor) \<Rightarrow>
          if \<not> found \<or> cursor \<noteq> [] \<and> \<not> is_space (hd cursor) then None else Some (unat parsed, skip_spaces cursor))"

definition help_text :: "u8 list" where
  "help_text = concat (map text_line
     [''edit commands:'', ''  p [first [last]]  print numbered lines'', ''  a [text]          append a line'',
      ''  i line [text]     insert before a line'', ''  r line [text]     replace a line'', ''  d line            delete a line'',
      ''  w                 save'', ''  q / q!            quit / discard changes'', ''  h                 show this help''])"

definition print_help :: "'w calls \<Rightarrow> ('w, bool) program" where
  "print_help c = minios_print c 1 help_text"

text \<open>The state a command works on: the text and whether it has changes that are not saved.\<close>

definition complain :: "'w calls \<Rightarrow> string \<Rightarrow> bool \<Rightarrow> editor \<Rightarrow> ('w, editor_action \<times> bool \<times> editor) program" where
  "complain c message dirty e = and_then (minios_print c 2 (text_line message)) (EDITOR_CONTINUE, dirty, e)"

definition command_print :: "'w calls \<Rightarrow> u8 list \<Rightarrow> bool \<Rightarrow> editor \<Rightarrow> ('w, editor_action \<times> bool \<times> editor) program" where
  "command_print c arguments dirty e w =
     Option.bind (line_count e) (\<lambda>count.
      let print = (\<lambda>first stop. map_option (\<lambda>(ok, w). ((if ok then EDITOR_CONTINUE else EDITOR_FATAL, dirty, e), w)) (print_range c first stop e w))
      in if arguments = [] then print 1 count
         else case consume_number arguments of
           None \<Rightarrow> complain c ''usage: p [first [last]]'' dirty e w
         | Some (first, arguments) \<Rightarrow>
             case (if arguments \<noteq> [] then consume_number arguments else Some (first, arguments)) of
               None \<Rightarrow> complain c ''usage: p [first [last]]'' dirty e w
             | Some (stop, arguments) \<Rightarrow>
                 if arguments \<noteq> [] \<or> first = 0 \<or> first > stop \<or> stop > count
                 then complain c ''edit: invalid line range'' dirty e w
                 else print first stop)"

text \<open>A change of the text: the message if it is refused, and the flag if not.\<close>

definition changed_text :: "'w calls \<Rightarrow> string \<Rightarrow> bool \<Rightarrow> (bool \<times> editor) option \<Rightarrow> ('w, editor_action \<times> bool \<times> editor) program" where
  "changed_text c message dirty r w = do {
     (ok, e) \<leftarrow> r;
     if ok then Some ((EDITOR_CONTINUE, True, e), w) else complain c message dirty e w
   }"

definition command_insert :: "'w calls \<Rightarrow> u8 list \<Rightarrow> bool \<Rightarrow> editor \<Rightarrow> ('w, editor_action \<times> bool \<times> editor) program" where
  "command_insert c arguments dirty e w =
     (case consume_number arguments of
        None \<Rightarrow> complain c ''usage: i line [text]'' dirty e w
      | Some (number, arguments) \<Rightarrow>
          Option.bind (line_count e) (\<lambda>count.
            if number = 0 \<or> number > count + 1 then complain c ''edit: invalid line number'' dirty e w
            else changed_text c ''edit: text buffer full'' dirty (insert_line number arguments e) w))"

definition command_replace :: "'w calls \<Rightarrow> u8 list \<Rightarrow> bool \<Rightarrow> editor \<Rightarrow> ('w, editor_action \<times> bool \<times> editor) program" where
  "command_replace c arguments dirty e w =
     (case consume_number arguments of
        None \<Rightarrow> complain c ''usage: r line [text]'' dirty e w
      | Some (number, arguments) \<Rightarrow>
          Option.bind (line_count e) (\<lambda>count.
            if number = 0 \<or> number > count then complain c ''edit: invalid line number'' dirty e w
            else changed_text c ''edit: text buffer full'' dirty (replace_line number arguments e) w))"

definition command_delete :: "'w calls \<Rightarrow> u8 list \<Rightarrow> bool \<Rightarrow> editor \<Rightarrow> ('w, editor_action \<times> bool \<times> editor) program" where
  "command_delete c arguments dirty e =
     (case consume_number arguments of
        None \<Rightarrow> complain c ''usage: d line'' dirty e
      | Some (number, arguments) \<Rightarrow>
          if arguments \<noteq> [] then complain c ''usage: d line'' dirty e
          else changed_text c ''edit: invalid line number'' dirty (delete_line number e))"

definition process_command :: "'w calls \<Rightarrow> u8 list \<Rightarrow> u8 list \<Rightarrow> bool \<Rightarrow> editor \<Rightarrow> ('w, editor_action \<times> bool \<times> editor) program" where
  "process_command c command path dirty e w =
     (if command = [] then Some ((EDITOR_CONTINUE, dirty, e), w)
      else if minios_streq command (bytes_of ''h'')
      then map_option (\<lambda>(ok, w). ((if ok then EDITOR_CONTINUE else EDITOR_FATAL, dirty, e), w)) (print_help c w)
      else if minios_streq command (bytes_of ''w'')
      then map_option (\<lambda>((_, dirty), w). ((EDITOR_CONTINUE, dirty, e), w)) (save_file c path dirty e w)
      else if minios_streq command (bytes_of ''q!'') then Some ((EDITOR_EXIT, dirty, e), w)
      else if minios_streq command (bytes_of ''q'')
      then (if dirty then complain c ''edit: unsaved changes; use w or q!'' dirty e w else Some ((EDITOR_EXIT, dirty, e), w))
      else case command_arguments command CHR ''p'' of Some arguments \<Rightarrow> command_print c arguments dirty e w | None \<Rightarrow>
           case command_arguments command CHR ''a'' of
             Some arguments \<Rightarrow> changed_text c ''edit: text buffer full'' dirty (append_line arguments e) w | None \<Rightarrow>
           case command_arguments command CHR ''i'' of Some arguments \<Rightarrow> command_insert c arguments dirty e w | None \<Rightarrow>
           case command_arguments command CHR ''r'' of Some arguments \<Rightarrow> command_replace c arguments dirty e w | None \<Rightarrow>
           case command_arguments command CHR ''d'' of Some arguments \<Rightarrow> command_delete c arguments dirty e w | None \<Rightarrow>
           complain c ''edit: unknown command; use h for help'' dirty e w)"

subsection \<open>The program\<close>

text \<open>The changes of the self test, up to the comparison with the text it expects.\<close>

definition self_test_changes :: "editor \<Rightarrow> (bool \<times> editor) option" where
  "self_test_changes e =
     (let step = (\<lambda>f r. Option.bind r (\<lambda>(ok, e). if ok then f e else Some (False, e)))
      in step (append_line (bytes_of ''omega'')) (step (delete_line 1) (step (replace_line 3 (bytes_of ''delta''))
           (step (insert_line 2 (bytes_of ''beta'')) (buffer_set_text (bytes_of ''alpha'' @ [0x0A] @ bytes_of ''gamma'') e)))))"

definition run_self_test :: "'w calls \<Rightarrow> editor \<Rightarrow> ('w, int) program" where
  "run_self_test c e w =
     (let path = bytes_of ''/edit-self-test''; expected = concat (map text_line [''beta'', ''delta'', ''omega'']);
          fail = (\<lambda>w. do { (_, w) \<leftarrow> sys_unlink c path w; and_then (minios_print c 2 (text_line ''edit: self-test failed'')) 1 w })
      in do {
        (unlinked, w) \<leftarrow> sys_unlink c path w;
        if unlinked \<noteq> 0 \<and> unlinked \<noteq> - MINIOS_ENOENT then Some (1, w)
        else do {
          (ok, e) \<leftarrow> self_test_changes e;
          matches \<leftarrow> (if ok then buffer_matches expected e else Some False);
          if \<not> matches then fail w
          else do {
            ((saved, dirty), w) \<leftarrow> save_file c path True e w;
            if \<not> saved \<or> dirty then fail w
            else do {
              (((loaded, new_file), e), w) \<leftarrow> load_file c path False e w;
              matches \<leftarrow> (if loaded \<and> \<not> new_file then buffer_matches expected e else Some False);
              if \<not> matches then fail w
              else do {
                (unlinked, w) \<leftarrow> sys_unlink c path w;
                if unlinked \<noteq> 0 then fail w
                else do {
                  (ok, w) \<leftarrow> minios_print c 1 (text_line ''[USER] edit command PASS'') w;
                  Some (if ok then 0 else 1, w)
                }
              }
            }
          }
        }
      })"

partial_function (option) edit_loop :: "'w calls \<Rightarrow> u8 list \<Rightarrow> bool \<Rightarrow> editor \<Rightarrow> 'w \<Rightarrow> (int \<times> 'w) option" where
  "edit_loop c path dirty e w =
     Option.bind (minios_print c 1 (bytes_of ''edit> '') w) (\<lambda>r. case r of (ok, w) \<Rightarrow>
       if \<not> ok then Some (1, w)
       else Option.bind (read_command c 256 [] w) (\<lambda>r. case r of ((read_result, command), w) \<Rightarrow>
         if read_result < 0 then Some (1, w)
         else if read_result = 0
         then (if dirty
               then Option.bind (minios_print c 2 (text_line ''edit: unsaved changes; use q! to discard'') w) (\<lambda>r. case r of (_, w) \<Rightarrow>
                      edit_loop c path dirty e w)
               else Some (0, w))
         else Option.bind (process_command c command path dirty e w) (\<lambda>r. case r of ((action, dirty, e), w) \<Rightarrow>
                case action of EDITOR_EXIT \<Rightarrow> Some (0, w) | EDITOR_FATAL \<Rightarrow> Some (1, w) | EDITOR_CONTINUE \<Rightarrow> edit_loop c path dirty e w)))"

definition edit_main :: "'w calls \<Rightarrow> u8 list list \<Rightarrow> ('w, int) program" where
  "edit_main c argv w =
     (if length argv = 2 \<and> minios_streq (argv ! 1) (bytes_of ''--self-test'') then run_self_test c initial_editor w
      else if length argv \<noteq> 2 then and_then (minios_print c 2 (text_line ''usage: edit file'')) 2 w
      else do {
        (((loaded, new_file), e), w) \<leftarrow> load_file c (argv ! 1) False initial_editor w;
        if \<not> loaded then Some (1, w)
        else do {
          (ok, w) \<leftarrow> (if new_file then minios_print c 1 (text_line ''[new file]'') w else Some (True, w));
          if \<not> ok then Some (1, w)
          else do {
            count \<leftarrow> line_count e;
            (ok, w) \<leftarrow> all_of [print_range c 1 count e, print_help c] w;
            if \<not> ok then Some (1, w) else edit_loop c (argv ! 1) False e w
          }
        }
      })"

end
