(* ===== verification/Edit_Correct.thy ===== *)
theory Edit_Correct
  imports Edit
begin

text \<open>
  The editor's commands on its byte buffer implement the evident operations on a list of lines, and never leave the buffer.
\<close>

subsection \<open>The text\<close>

definition editor_inv :: "editor \<Rightarrow> bool" where
  "editor_inv e \<longleftrightarrow> length (edit_buffer e) = 32768 \<and> edit_length e \<le> 32768"

definition content :: "editor \<Rightarrow> u8 list" where
  "content e = take (edit_length e) (edit_buffer e)"

lemma length_content [simp]: "editor_inv e \<Longrightarrow> length (content e) = edit_length e"
  by (simp add: editor_inv_def content_def)

lemma get_content: "editor_inv e \<Longrightarrow> i < edit_length e \<Longrightarrow> array_get i (edit_buffer e) = Some (content e ! i)"
  by (simp add: array_get_def editor_inv_def content_def)

lemma slice_content: "editor_inv e \<Longrightarrow> array_slice 0 (edit_length e) (edit_buffer e) = Some (content e)"
  by (simp add: array_slice_def editor_inv_def content_def)

subsection \<open>Replacing a range\<close>

lemma no_room: "\<not> x + r \<le> n \<Longrightarrow> x \<le> n \<Longrightarrow> r > n - x" for x r n :: nat
  by linarith

lemma replace_range_spec:
  assumes inv: "editor_inv e" and "start \<le> stop" and "stop \<le> edit_length e"
  shows "if edit_length e - (stop - start) + length replacement \<le> 32768
    then \<exists>e'. replace_range start stop replacement e = Some (True, e') \<and> editor_inv e' \<and>
           content e' = take start (content e) @ replacement @ drop stop (content e)
    else replace_range start stop replacement e = Some (False, e)"
proof (cases "edit_length e - (stop - start) + length replacement \<le> 32768")
  case True
  obtain r tail where stop: "stop = start + r" and l: "edit_length e = start + r + tail"
    using assms by (metis le_Suc_ex)
  let ?target = "start + length replacement"
  have len: "length (edit_buffer e) = 32768" "start + r + tail \<le> 32768" using inv by (simp_all add: editor_inv_def l)
  have room: "?target + tail \<le> 32768" using True by (simp add: stop l)
  have tail: "edit_length e - stop = tail" by (simp add: stop l)
  have new: "edit_length e - (stop - start) + length replacement = start + (length replacement + tail)" by (simp add: stop l)
  let ?b = "edit_buffer e"
  let ?moved = "take ?target ?b @ take tail (drop stop ?b) @ drop (?target + tail) ?b"
  have "(if length replacement > stop - start then copy_descending tail ?target stop ?b else copy_ascending tail ?target stop ?b) = Some ?moved"
    using copy_descending_spec [of stop ?target tail ?b] copy_ascending_spec [of ?target stop tail ?b] room len by (simp add: stop)
  moreover have "array_copy start replacement ?moved = Some (take start ?moved @ replacement @ drop ?target ?moved)"
    using room len by (intro array_copy_spec) (simp add: stop)
  moreover have "\<not> start > stop" "\<not> stop > edit_length e" "\<not> length replacement > 32768 - (edit_length e - (stop - start))"
    using True assms by linarith+
  moreover define e' where "e' = e\<lparr>edit_buffer := take start ?moved @ replacement @ drop ?target ?moved, edit_length := start + (length replacement + tail)\<rparr>"
  ultimately have "replace_range start stop replacement e = Some (True, e')"
    unfolding replace_range_def Let_def tail new e'_def by (simp only: if_False simp_thms Option.bind.bind_lunit)
  moreover have "editor_inv e'" using room len by (simp add: editor_inv_def e'_def stop)
  moreover have "content e' = take start (content e) @ replacement @ drop stop (content e)"
    using room len by (simp add: content_def e'_def l stop drop_take)
  ultimately show ?thesis using True by auto
next
  case False
  have "edit_length e \<le> 32768" using inv by (simp add: editor_inv_def)
  then have "edit_length e - (stop - start) \<le> 32768" by (rule le_trans [OF diff_le_self])
  with False have full: "length replacement > 32768 - (edit_length e - (stop - start))" by (rule no_room)
  have ok: "\<not> (start > stop \<or> stop > edit_length e)" using assms by simp
  show ?thesis unfolding if_not_P [OF False] replace_range_def Let_def if_not_P [OF ok] if_P [OF full] by (rule refl)
qed

subsection \<open>Lines\<close>

text \<open>The lines of a text; a last line need not be terminated.\<close>

abbreviation newline :: u8 where "newline \<equiv> 0x0A"

function lines_of :: "u8 list \<Rightarrow> u8 list list" where
  "lines_of text =
     (if text = [] then []
      else takeWhile (\<lambda>x. x \<noteq> newline) text # lines_of (drop 1 (dropWhile (\<lambda>x. x \<noteq> newline) text)))"
  by pat_completeness auto
termination
proof (relation "measure length", simp, goal_cases)
  case (1 t)
  then have "0 < length t" by simp
  then show ?case using length_dropWhile_le [of "\<lambda>x. x \<noteq> newline" t] unfolding in_measure length_drop by linarith
qed

declare lines_of.simps [simp del]

lemma lines_of_Nil [simp]: "lines_of [] = []"
  by (subst lines_of.simps) simp

definition terminated :: "u8 list list \<Rightarrow> u8 list" where
  "terminated ls = concat (map (\<lambda>l. l @ [newline]) ls)"

lemma terminated_simps [simp]:
  "terminated [] = []" "terminated (l # ls) = l @ newline # terminated ls" "terminated (ls @ ls') = terminated ls @ terminated ls'"
  by (simp_all add: terminated_def)

lemma lines_of_terminated:
  assumes "\<forall>l\<in>set ls. newline \<notin> set l" and "newline \<notin> set rest"
  shows "lines_of (terminated ls @ rest) = ls @ (if rest = [] then [] else [rest])"
  using assms(1)
proof (induction ls)
  case Nil
  have "takeWhile (\<lambda>x. x \<noteq> newline) rest = rest" "dropWhile (\<lambda>x. x \<noteq> newline) rest = []"
    using assms(2) by (auto simp: takeWhile_eq_all_conv)
  then have "lines_of rest = (if rest = [] then [] else rest # lines_of [])" by (subst lines_of.simps) (simp only: drop_Nil)
  then show ?case by (simp add: lines_of.simps [of "[]"])
next
  case (Cons l ls)
  have "takeWhile (\<lambda>x. x \<noteq> newline) (l @ newline # xs) = l" "dropWhile (\<lambda>x. x \<noteq> newline) (l @ newline # xs) = newline # xs" for xs
    using Cons.prems by (subst takeWhile_append2 dropWhile_append2; auto)+
  then have "lines_of (l @ newline # xs) = l # lines_of xs" for xs by (subst lines_of.simps) simp
  then show ?case using Cons by simp
qed

text \<open>Every text is a sequence of terminated lines and a rest.\<close>

lemma split_text:
  obtains ls rest where "t = terminated ls @ rest" "\<forall>l\<in>set ls. newline \<notin> set l" "newline \<notin> set rest"
proof (induction "length t" arbitrary: t thesis rule: less_induct)
  case less
  show ?case
  proof (cases "newline \<in> set t")
    case True
    then obtain l xs where t: "t = l @ newline # xs" "newline \<notin> set l" by (meson split_list_first)
    from less.hyps [of xs] obtain ls rest where "xs = terminated ls @ rest" "\<forall>l\<in>set ls. newline \<notin> set l" "newline \<notin> set rest"
      by (auto simp: t)
    then show ?thesis using t by (intro less.prems [of "l # ls" rest]) auto
  next
    case False
    then show ?thesis by (intro less.prems [of "[]" t]) auto
  qed
qed

subsection \<open>Finding a line\<close>

lemma line_end_spec:
  assumes inv: "editor_inv e" and "p \<le> edit_length e"
  shows "line_end e p = Some (p + length (takeWhile (\<lambda>x. x \<noteq> newline) (drop p (content e))))"
  using assms(2)
proof (induction "edit_length e - p" arbitrary: p)
  case 0
  then show ?case using inv by (subst line_end.simps) simp
next
  case (Suc n)
  then have p: "p < edit_length e" by simp
  then have d: "drop p (content e) = content e ! p # drop (p + 1) (content e)"
    using inv Cons_nth_drop_Suc [of p "content e"] by simp
  show ?case
  proof (cases "content e ! p = newline")
    case True
    then show ?thesis using p by (subst line_end.simps) (simp add: d get_content [OF inv])
  next
    case False
    moreover have "line_end e (p + 1) = Some (p + 1 + length (takeWhile (\<lambda>x. x \<noteq> newline) (drop (p + 1) (content e))))"
      using Suc p by (intro Suc.hyps(1)) simp_all
    ultimately show ?thesis using p by (subst line_end.simps) (simp add: d get_content [OF inv])
  qed
qed

lemma takeWhile_line: "newline \<notin> set l \<Longrightarrow> takeWhile (\<lambda>x. x \<noteq> newline) (l @ newline # xs) = l"
  by (subst takeWhile_append2) auto

lemma takeWhile_rest: "newline \<notin> set l \<Longrightarrow> takeWhile (\<lambda>x. x \<noteq> newline) l = l"
  by (auto simp: takeWhile_eq_all_conv)

lemma skip_lines_spec:
  assumes inv: "editor_inv e" and "drop p (content e) = terminated ls @ rest" and "p \<le> edit_length e"
    and "\<forall>l\<in>set ls. newline \<notin> set l" and "newline \<notin> set rest"
  shows "skip_lines e k p = Some (if k \<le> length ls then Some (p + length (terminated (take k ls))) else None)"
  using assms(2-4)
proof (induction k arbitrary: p ls)
  case (Suc k)
  have len: "edit_length e = p + length (terminated ls @ rest)"
    using Suc.prems(1,2) inv length_drop [of p "content e"] by simp
  show ?case
  proof (cases ls)
    case Nil
    then have "line_end e p = Some (edit_length e)"
      using Suc.prems line_end_spec [OF inv, of p] takeWhile_rest [OF assms(5)] len by simp
    then show ?thesis using Nil by simp
  next
    case (Cons l ls')
    then have e: "line_end e p = Some (p + length l)"
      using Suc.prems line_end_spec [OF inv, of p] takeWhile_line [of l] by simp
    have "drop (p + length l + 1) (content e) = terminated ls' @ rest"
      using arg_cong [OF Suc.prems(1), of "drop (length l + 1)"] Cons by (simp add: add.commute add.left_commute)
    then have "skip_lines e k (p + length l + 1) = Some (if k \<le> length ls' then Some (p + length l + 1 + length (terminated (take k ls'))) else None)"
      using Suc.prems len Cons by (intro Suc.IH) auto
    then show ?thesis using e len Cons by simp
  qed
qed simp

lemma count_newlines: "length (filter (\<lambda>x. x = newline) (terminated ls @ rest)) = length ls"
  if "\<forall>l\<in>set ls. newline \<notin> set l" and "newline \<notin> set rest"
  using that by (induction ls) (auto simp: filter_empty_conv)

lemma count_loop:
  assumes inv: "editor_inv e"
  shows "for_opt 0 (edit_length e) (\<lambda>index count. do { x \<leftarrow> array_get index (edit_buffer e); Some (if x = newline then count + 1 else count) }) 0 =
    Some (length (filter (\<lambda>x. x = newline) (content e)))"
proof -
  have "\<exists>n. for_opt 0 (edit_length e) (\<lambda>index count. do { x \<leftarrow> array_get index (edit_buffer e); Some (if x = newline then count + 1 else count) }) 0 = Some n \<and>
      n = length (filter (\<lambda>x. x = newline) (take (edit_length e) (content e)))"
    by (rule for_opt_rule [where I = "\<lambda>i n. n = length (filter (\<lambda>x. x = newline) (take i (content e)))"])
      (simp_all add: get_content [OF inv] take_Suc_conv_app_nth length_content [OF inv])
  then show ?thesis using length_content [OF inv] by simp
qed

lemma unterminated_iff:
  assumes inv: "editor_inv e" and c: "content e = terminated ls @ rest" "newline \<notin> set rest"
  shows "(if edit_length e > 0 then do { x \<leftarrow> array_get (edit_length e - 1) (edit_buffer e); Some (x \<noteq> newline) } else Some False) = Some (rest \<noteq> [])"
proof (cases "edit_length e = 0")
  case True
  then show ?thesis using length_content [OF inv] by (simp add: c(1))
next
  case False
  then have ne: "content e \<noteq> []" using length_content [OF inv] by auto
  have "last (content e) = content e ! (edit_length e - 1)" using last_conv_nth [OF ne] length_content [OF inv] by simp
  then have get: "array_get (edit_length e - 1) (edit_buffer e) = Some (last (terminated ls @ rest))"
    using get_content [OF inv, of "edit_length e - 1"] False c(1) by simp
  show ?thesis
  proof (cases "rest = []")
    case True
    then show ?thesis using ne get by (cases ls rule: rev_cases) (auto simp: c(1))
  next
    case rest: False
    then have "last rest \<noteq> newline" using c(2) last_in_set [OF rest] by metis
    then show ?thesis using rest get False by simp
  qed
qed

lemma line_count_spec:
  assumes inv: "editor_inv e"
  shows "line_count e = Some (length (lines_of (content e)))"
proof -
  obtain ls rest where c: "content e = terminated ls @ rest" "\<forall>l\<in>set ls. newline \<notin> set l" "newline \<notin> set rest" by (rule split_text)
  show ?thesis
  proof (cases "edit_length e = 0")
    case True
    then show ?thesis using length_content [OF inv] by (simp add: line_count_def)
  next
    case False
    have n: "length (filter (\<lambda>x. x = newline) (content e)) = length ls" using count_newlines [OF c(2,3)] by (simp add: c(1))
    have "array_get (edit_length e - 1) (edit_buffer e) = Some (content e ! (edit_length e - 1))" using False by (simp add: get_content [OF inv])
    then show ?thesis
      using False unterminated_iff [OF inv c(1,3)] lines_of_terminated [OF c(2,3)]
      unfolding line_count_def count_loop [OF inv] n by (simp add: c(1))
  qed
qed

text \<open>A line the editor finds, with what is before and behind it.\<close>

lemma line_bounds_spec:
  assumes inv: "editor_inv e" and c: "content e = terminated ls @ rest" "\<forall>l\<in>set ls. newline \<notin> set l" "newline \<notin> set rest"
  shows "line_bounds number e =
    Some (if number = 0 \<or> number > length (lines_of (content e)) then None
     else let start = length (terminated (take (number - 1) ls)); stop = start + length (lines_of (content e) ! (number - 1))
          in Some (start, stop, if number \<le> length ls then stop + 1 else stop))"
proof (cases "number = 0 \<or> edit_length e = 0")
  case True
  then show ?thesis using lines_of.simps [of "[]"] by (auto simp: line_bounds_def content_def)
next
  case False
  then obtain k where number: "number = Suc k" by (cases number) auto
  have lines: "lines_of (content e) = ls @ (if rest = [] then [] else [rest])" using lines_of_terminated [OF c(2,3)] by (simp add: c(1))
  have len: "edit_length e = length (terminated ls @ rest)" using length_content [OF inv] by (simp add: c(1))
  have skip: "skip_lines e k 0 = Some (if k \<le> length ls then Some (length (terminated (take k ls))) else None)"
    using skip_lines_spec [OF inv, of 0 ls rest k] c by simp
  consider (whole) "k < length ls" | (rest) "k = length ls" | (beyond) "k > length ls" by linarith
  then show ?thesis
  proof cases
    case whole
    let ?start = "length (terminated (take k ls))" and ?l = "ls ! k"
    have split: "terminated ls = terminated (take k ls) @ ?l @ newline # terminated (drop (Suc k) ls)"
      using arg_cong [OF id_take_nth_drop [OF whole], of terminated] by simp
    have l: "newline \<notin> set ?l" using c(2) whole by simp
    have start: "?start + length ?l < edit_length e" unfolding len split by simp
    have "line_end e ?start = Some (?start + length ?l)"
      using line_end_spec [OF inv, of ?start] start takeWhile_line [OF l] by (simp add: c(1) split)
    moreover have "lines_of (content e) ! k = ?l" using whole by (simp add: lines nth_append)
    moreover have "\<not> number > length (lines_of (content e))" "number \<le> length ls" using whole by (auto simp: lines number)
    ultimately show ?thesis using False whole start by (simp add: line_bounds_def skip Let_def number)
  next
    case rest
    have "line_end e (length (terminated ls)) = Some (edit_length e)"
      using line_end_spec [OF inv, of "length (terminated ls)"] takeWhile_rest [OF c(3)] by (simp add: c(1) len)
    then show ?thesis using False rest len by (cases "rest = []") (auto simp: line_bounds_def skip [unfolded rest] Let_def lines nth_append number)
  next
    case beyond
    then show ?thesis using False by (auto simp: line_bounds_def skip lines number)
  qed
qed

subsection \<open>The commands\<close>

text \<open>
  The text as a document: its terminated lines, and the line at its end that has no terminator, empty if there is none.
\<close>

type_synonym document = "u8 list list \<times> u8 list"

definition document_text :: "document \<Rightarrow> u8 list" where
  "document_text d = terminated (fst d) @ snd d"

definition document :: "u8 list \<Rightarrow> document" where
  "document t = (if t = [] \<or> last t = newline then (lines_of t, []) else (butlast (lines_of t), last (lines_of t)))"

definition proper :: "document \<Rightarrow> bool" where
  "proper d \<longleftrightarrow> (\<forall>l\<in>set (fst d). newline \<notin> set l) \<and> newline \<notin> set (snd d)"

lemma document_of_text: "proper d \<Longrightarrow> document (document_text d) = d"
proof -
  assume p: "proper d"
  obtain ls rest where d: "d = (ls, rest)" by (cases d)
  have c: "\<forall>l\<in>set ls. newline \<notin> set l" "newline \<notin> set rest" using p by (simp_all add: proper_def d)
  show ?thesis
  proof (cases "rest = []")
    case True
    then have "document_text d = [] \<or> last (document_text d) = newline" by (cases ls rule: rev_cases) (auto simp: document_text_def d)
    then show ?thesis using lines_of_terminated [OF c] True by (auto simp: document_def document_text_def d)
  next
    case False
    then have "last rest \<noteq> newline" using c(2) last_in_set [OF False] by metis
    then show ?thesis using lines_of_terminated [OF c] False by (auto simp: document_def document_text_def d)
  qed
qed

text \<open>The lines of a document: a line at the end without terminator is one of them.\<close>

definition document_lines :: "document \<Rightarrow> u8 list list" where
  "document_lines d = fst d @ (if snd d = [] then [] else [snd d])"

lemma document_lines_text: "proper d \<Longrightarrow> lines_of (document_text d) = document_lines d"
  using lines_of_terminated [of "fst d" "snd d"] by (simp add: proper_def document_text_def document_lines_def)

text \<open>The commands on the buffer, and on a document; \<^const>\<open>None\<close> where there is no such line.\<close>

datatype edit = Append "u8 list" | Insert nat "u8 list" | Replace nat "u8 list" | Delete nat

fun edit_buffer_by :: "edit \<Rightarrow> editor \<Rightarrow> (bool \<times> editor) option" where
  "edit_buffer_by (Append t) e = append_line t e"
| "edit_buffer_by (Insert n t) e = insert_line n t e"
| "edit_buffer_by (Replace n t) e = replace_line n t e"
| "edit_buffer_by (Delete n) e = delete_line n e"

fun edit_document :: "edit \<Rightarrow> document \<Rightarrow> document option" where
  "edit_document (Append t) d = Some (document_lines d @ [t], [])"
| "edit_document (Insert n t) (ls, rest) =
     (if n = 0 \<or> n > length (document_lines (ls, rest)) + 1 then None
      else if n = length (document_lines (ls, rest)) + 1 then Some (document_lines (ls, rest) @ [t], [])
      else Some (take (n - 1) ls @ [t] @ drop (n - 1) ls, rest))"
| "edit_document (Replace n t) (ls, rest) =
     (if n = 0 \<or> n > length (document_lines (ls, rest)) then None
      else if n \<le> length ls then Some (ls[n - 1 := t], rest) else Some (ls, t))"
| "edit_document (Delete n) (ls, rest) =
     (if n = 0 \<or> n > length (document_lines (ls, rest)) then None
      else if n \<le> length ls then Some (take (n - 1) ls @ drop n ls, rest) else Some (ls, []))"

fun edit_text :: "edit \<Rightarrow> u8 list" where
  "edit_text (Append t) = t"
| "edit_text (Insert n t) = t"
| "edit_text (Replace n t) = t"
| "edit_text (Delete n) = []"

text \<open>What every command promises.\<close>

definition refines :: "edit \<Rightarrow> editor \<Rightarrow> bool" where
  "refines ed e \<longleftrightarrow> (\<exists>ok e'. edit_buffer_by ed e = Some (ok, e') \<and> editor_inv e' \<and>
     (case edit_document ed (document (content e)) of
        None \<Rightarrow> \<not> ok \<and> e' = e
      | Some d \<Rightarrow> ok = (length (document_text d) \<le> 32768) \<and> (if ok then content e' = document_text d \<and> document (content e') = d else e' = e)))"

lemma refines_replace_range:
  assumes inv: "editor_inv e" and "edit_buffer_by ed e = replace_range start stop replacement e"
    and le: "start \<le> stop" "stop \<le> edit_length e" and d: "edit_document ed (document (content e)) = Some d" "proper d"
    and t: "document_text d = take start (content e) @ replacement @ drop stop (content e)"
  shows "refines ed e"
proof -
  have "length (document_text d) = start + (length replacement + (edit_length e - stop))"
    using le unfolding t length_append length_take length_drop length_content [OF inv] by simp
  then have len: "length (document_text d) = edit_length e - (stop - start) + length replacement" using le by linarith
  show ?thesis
    using replace_range_spec [OF inv le, of replacement] document_of_text [OF d(2)] inv
    unfolding refines_def assms(2) d(1) option.case len [symmetric] t [symmetric] by (metis (full_types))
qed

lemma refines_refused: "editor_inv e \<Longrightarrow> edit_buffer_by ed e = Some (False, e) \<Longrightarrow> edit_document ed (document (content e)) = None \<Longrightarrow> refines ed e"
  by (auto simp: refines_def)

lemma refines_cong:
  "edit_buffer_by ed e = edit_buffer_by ed' e \<Longrightarrow> edit_document ed (document (content e)) = edit_document ed' (document (content e)) \<Longrightarrow>
   refines ed' e \<Longrightarrow> refines ed e"
  by (simp only: refines_def)

text \<open>The buffer holds a document.\<close>

lemma split_document:
  obtains ls rest where "content e = terminated ls @ rest" "\<forall>l\<in>set ls. newline \<notin> set l" "newline \<notin> set rest" "document (content e) = (ls, rest)"
    "lines_of (content e) = document_lines (ls, rest)"
proof (rule split_text [of "content e"])
  fix ls rest assume c: "content e = terminated ls @ rest" "\<forall>l\<in>set ls. newline \<notin> set l" "newline \<notin> set rest"
  then have "proper (ls, rest)" "content e = document_text (ls, rest)" by (simp_all add: proper_def document_text_def)
  then show thesis using that [OF c] document_of_text document_lines_text by simp
qed

lemma proper_simp: "proper (ls, rest) \<longleftrightarrow> (\<forall>l\<in>set ls. newline \<notin> set l) \<and> newline \<notin> set rest"
  by (simp add: proper_def)

lemma append_line_refines:
  assumes inv: "editor_inv e" and t: "newline \<notin> set t" "length t \<le> 256"
  shows "refines (Append t) e"
proof -
  obtain ls rest where c: "content e = terminated ls @ rest" "\<forall>l\<in>set ls. newline \<notin> set l" "newline \<notin> set rest"
    "document (content e) = (ls, rest)" by (rule split_document)
  let ?payload = "(if rest \<noteq> [] then [newline] else []) @ t @ [newline]"
  have "build_line_payload (rest \<noteq> []) t = Some ?payload" using t(2) by (simp add: build_line_payload_def)
  then have op: "edit_buffer_by (Append t) e = replace_range (edit_length e) (edit_length e) ?payload e"
    using unterminated_iff [OF inv c(1,3)] by (simp add: append_line_def)
  show ?thesis
  proof (rule refines_replace_range [OF inv op order.refl order.refl])
    show "edit_document (Append t) (document (content e)) = Some (document_lines (ls, rest) @ [t], [])" by (simp add: c(4))
    show "proper (document_lines (ls, rest) @ [t], [])" using c t by (auto simp: proper_def document_lines_def)
    show "document_text (document_lines (ls, rest) @ [t], []) = take (edit_length e) (content e) @ ?payload @ drop (edit_length e) (content e)"
      using length_content [OF inv] by (simp add: document_text_def document_lines_def) (simp add: c(1))
  qed
qed

text \<open>The text around a line.\<close>

lemma around_line:
  assumes "k < length ls"
  shows "terminated ls = terminated (take k ls) @ (ls ! k) @ newline # terminated (drop (Suc k) ls)"
  using arg_cong [OF id_take_nth_drop [OF assms], of terminated] by simp

lemma line_number_cases:
  obtains (bad) "n = 0 \<or> n > length (document_lines (ls, rest))" | (whole) k where "n = Suc k" "k < length ls"
  | (last) "n = Suc (length ls)" "rest \<noteq> []"
proof (cases n)
  case (Suc k)
  then show thesis using that by (cases "k < length ls"; cases "k = length ls"; cases "rest = []") (auto simp: document_lines_def)
qed (use bad in simp)

lemma insert_line_refines:
  assumes inv: "editor_inv e" and t: "newline \<notin> set t" "length t \<le> 256"
  shows "refines (Insert n t) e"
proof -
  obtain ls rest where c: "content e = terminated ls @ rest" "\<forall>l\<in>set ls. newline \<notin> set l" "newline \<notin> set rest"
    "document (content e) = (ls, rest)" "lines_of (content e) = document_lines (ls, rest)" by (rule split_document)
  let ?n = "length (document_lines (ls, rest))"
  have count: "line_count e = Some ?n" using line_count_spec [OF inv] c(5) by simp
  consider (append) "n = ?n + 1" | (bad) "n = 0 \<or> n > ?n + 1" | (ok) "1 \<le> n" "n \<le> ?n" by linarith
  then show ?thesis
  proof cases
    case append
    then show ?thesis
      using append_line_refines [OF inv t] count c(4) by (rule_tac refines_cong [where ed' = "Append t"]) (simp_all add: insert_line_def)
  next
    case bad
    then show ?thesis using count c(4) by (intro refines_refused [OF inv]) (auto simp: insert_line_def)
  next
    case ok
    then obtain k where n: "n = Suc k" by (cases n) auto
    have k: "k \<le> length ls" using ok(2) by (auto simp: n document_lines_def split: if_splits)
    let ?start = "length (terminated (take k ls))"
    have op: "edit_buffer_by (Insert n t) e = replace_range ?start ?start (t @ [newline]) e"
      using ok k t(2) line_bounds_spec [OF inv c(1-3), of n] count c(5) by (simp add: insert_line_def n Let_def build_line_payload_def)
    have split: "content e = terminated (take k ls) @ terminated (drop k ls) @ rest"
      unfolding c(1) using terminated_simps(3) [of "take k ls" "drop k ls"] by simp
    show ?thesis
    proof (rule refines_replace_range [OF inv op order.refl])
      show "?start \<le> edit_length e" unfolding length_content [OF inv, symmetric] split by simp
      show "edit_document (Insert n t) (document (content e)) = Some (take k ls @ [t] @ drop k ls, rest)" using ok by (simp add: c(4) n)
      show "proper (take k ls @ [t] @ drop k ls, rest)" using c t by (auto simp: proper_simp dest: in_set_takeD in_set_dropD)
      show "document_text (take k ls @ [t] @ drop k ls, rest) = take ?start (content e) @ (t @ [newline]) @ drop ?start (content e)"
        by (simp add: document_text_def split)
    qed
  qed
qed

lemma replace_line_refines:
  assumes inv: "editor_inv e" and t: "newline \<notin> set t"
  shows "refines (Replace n t) e"
proof -
  obtain ls rest where c: "content e = terminated ls @ rest" "\<forall>l\<in>set ls. newline \<notin> set l" "newline \<notin> set rest"
    "document (content e) = (ls, rest)" "lines_of (content e) = document_lines (ls, rest)" by (rule split_document)
  note bounds = line_bounds_spec [OF inv c(1-3), of n, unfolded c(5)]
  show ?thesis
  proof (cases rule: line_number_cases [of n ls rest])
    case bad
    then show ?thesis using bounds by (intro refines_refused [OF inv]) (auto simp: replace_line_def c(4))
  next
    case (whole k)
    let ?start = "length (terminated (take k ls))" and ?l = "ls ! k"
    have op: "edit_buffer_by (Replace n t) e = replace_range ?start (?start + length ?l) t e"
      using whole bounds by (simp add: replace_line_def Let_def document_lines_def nth_append)
    have split: "content e = terminated (take k ls) @ ?l @ newline # terminated (drop (Suc k) ls) @ rest"
      unfolding c(1) using around_line [OF whole(2)] by simp
    show ?thesis
    proof (rule refines_replace_range [OF inv op])
      show "?start + length ?l \<le> edit_length e" unfolding length_content [OF inv, symmetric] split by simp
      show "edit_document (Replace n t) (document (content e)) = Some (ls[k := t], rest)" using whole by (simp add: c(4) document_lines_def)
      show "proper (ls[k := t], rest)" using c t by (auto simp: proper_simp dest!: set_update_subset_insert [THEN subsetD])
      show "document_text (ls[k := t], rest) = take ?start (content e) @ t @ drop (?start + length ?l) (content e)"
        unfolding split using whole(2) by (simp add: document_text_def upd_conv_take_nth_drop)
    qed simp
  next
    case last
    have op: "edit_buffer_by (Replace n t) e = replace_range (length (terminated ls)) (length (terminated ls) + length rest) t e"
      using last bounds by (simp add: replace_line_def Let_def document_lines_def nth_append)
    show ?thesis
      by (rule refines_replace_range [OF inv op, where d = "(ls, t)"])
        (use last t c length_content [OF inv] in \<open>auto simp: c(1) c(4) [unfolded c(1)] proper_simp document_text_def document_lines_def\<close>)
  qed
qed

lemma delete_line_refines:
  assumes inv: "editor_inv e"
  shows "refines (Delete n) e"
proof -
  obtain ls rest where c: "content e = terminated ls @ rest" "\<forall>l\<in>set ls. newline \<notin> set l" "newline \<notin> set rest"
    "document (content e) = (ls, rest)" "lines_of (content e) = document_lines (ls, rest)" by (rule split_document)
  note bounds = line_bounds_spec [OF inv c(1-3), of n, unfolded c(5)]
  show ?thesis
  proof (cases rule: line_number_cases [of n ls rest])
    case bad
    then show ?thesis using bounds by (intro refines_refused [OF inv]) (auto simp: delete_line_def c(4))
  next
    case (whole k)
    let ?start = "length (terminated (take k ls))" and ?l = "ls ! k"
    have op: "edit_buffer_by (Delete n) e = replace_range ?start (?start + length ?l + 1) [] e"
      using whole bounds by (simp add: delete_line_def Let_def document_lines_def nth_append)
    have split: "content e = terminated (take k ls) @ ?l @ newline # terminated (drop (Suc k) ls) @ rest"
      unfolding c(1) using around_line [OF whole(2)] by simp
    show ?thesis
    proof (rule refines_replace_range [OF inv op])
      show "?start + length ?l + 1 \<le> edit_length e" unfolding length_content [OF inv, symmetric] split by simp
      show "edit_document (Delete n) (document (content e)) = Some (take k ls @ drop (Suc k) ls, rest)"
        using whole by (simp add: c(4) document_lines_def)
      show "proper (take k ls @ drop (Suc k) ls, rest)" using c by (auto simp: proper_simp dest: in_set_takeD in_set_dropD)
      show "document_text (take k ls @ drop (Suc k) ls, rest) = take ?start (content e) @ [] @ drop (?start + length ?l + 1) (content e)"
        unfolding split by (simp add: document_text_def)
    qed simp
  next
    case last
    have op: "edit_buffer_by (Delete n) e = replace_range (length (terminated ls)) (length (terminated ls) + length rest) [] e"
      using last bounds by (simp add: delete_line_def Let_def document_lines_def nth_append)
    show ?thesis
      by (rule refines_replace_range [OF inv op, where d = "(ls, [])"])
        (use last c length_content [OF inv] in \<open>auto simp: c(1) c(4) [unfolded c(1)] proper_simp document_text_def document_lines_def\<close>)
  qed
qed

text \<open>
  C28. The editor's commands implement line editing. The text in the buffer is a document of terminated lines, with possibly one
  more line at its end that has no terminator. For every command with a text that fits a command line, no read or write leaves the buffer. The
  command succeeds exactly when the line exists and the new text has at most 32768 bytes, and then the text is that of the document
  with the line appended, inserted, replaced or deleted; otherwise the text is unchanged. A line without terminator stays one when it is replaced, so
  replaced by nothing it is gone.
\<close>

theorem editor_refines_lines:
  assumes "editor_inv e" and "newline \<notin> set (edit_text ed)" and "length (edit_text ed) \<le> 255"
  shows "\<exists>ok e'. edit_buffer_by ed e = Some (ok, e') \<and> editor_inv e' \<and>
     (case edit_document ed (document (content e)) of
        None \<Rightarrow> \<not> ok \<and> e' = e
      | Some d \<Rightarrow> ok = (length (document_text d) \<le> 32768) \<and> (if ok then content e' = document_text d \<and> document (content e') = d else e' = e))"
proof -
  have "refines ed e"
    using assms append_line_refines insert_line_refines replace_line_refines delete_line_refines by (cases ed) auto
  then show ?thesis by (simp only: refines_def)
qed

definition sample_editor :: editor where
  "sample_editor = \<lparr>edit_buffer = [0x61, newline, 0x62] @ replicate 32765 0, edit_length = 3\<rparr>"

lemma sample_editor_ok: "editor_inv sample_editor" "content sample_editor = [0x61, newline, 0x62]"
  "document [0x61, newline, 0x62] = ([[0x61]], [0x62])"
  using document_of_text [of "([[0x61]], [0x62])"]
  by (simp_all add: editor_inv_def sample_editor_def content_def proper_def document_text_def)

theorem editor_refines_lines_witness:
  "(\<exists>e'. insert_line 2 [0x68, 0x69] sample_editor = Some (True, e') \<and> document (content e') = ([[0x61], [0x68, 0x69]], [0x62])) \<and>
   (\<exists>e'. replace_line 2 [] sample_editor = Some (True, e') \<and> content e' = [0x61, newline])"
  using editor_refines_lines [of sample_editor "Insert 2 [0x68, 0x69]"] editor_refines_lines [of sample_editor "Replace 2 []"]
  by (auto simp: sample_editor_ok document_lines_def document_text_def)

subsection \<open>Unsaved changes\<close>

lemma replace_range_refused: "replace_range start stop t e = Some (False, e') \<Longrightarrow> e' = e"
  by (auto simp: replace_range_def Let_def split: if_splits bind_splits)

lemma edit_refused:
  "append_line t e = Some (False, e') \<Longrightarrow> e' = e" "insert_line n t e = Some (False, e') \<Longrightarrow> e' = e"
  "replace_line n t e = Some (False, e') \<Longrightarrow> e' = e" "delete_line n e = Some (False, e') \<Longrightarrow> e' = e"
  by (auto simp: append_line_def insert_line_def replace_line_def delete_line_def dest: replace_range_refused
      split: option.splits if_splits bind_splits)

text \<open>The whole text was written to the file, and the file was closed.\<close>

definition saved :: "'w calls \<Rightarrow> u8 list \<Rightarrow> editor \<Rightarrow> 'w \<Rightarrow> bool" where
  "saved c path e w \<longleftrightarrow> (\<exists>descriptor w1 w2 r w3.
     sys_open c path (MINIOS_O_WRONLY OR MINIOS_O_CREAT OR MINIOS_O_TRUNC) w = Some (descriptor, w1) \<and> descriptor \<ge> 3 \<and>
     minios_write_all c descriptor (content e) w1 = Some (True, w2) \<and> sys_close c descriptor w2 = Some (r, w3) \<and> r \<ge> 0)"

lemma save_file_clean: "save_file c path True e w = Some ((ok, False), w') \<Longrightarrow> saved c path e w"
  by (fastforce simp: save_file_def saved_def and_then_def content_def array_slice_def split: bind_splits if_splits option.splits prod.splits)

definition keeps_changes :: "bool \<Rightarrow> editor \<Rightarrow> editor_action \<times> bool \<times> editor \<Rightarrow> bool" where
  "keeps_changes dirty e r \<longleftrightarrow> (case r of (action, dirty', e') \<Rightarrow> action \<noteq> EDITOR_EXIT \<and> (e' \<noteq> e \<longrightarrow> dirty') \<and> (dirty \<longrightarrow> dirty'))"

lemma complain_keeps: "complain c message dirty e w = Some (r, w') \<Longrightarrow> keeps_changes dirty e r"
  by (auto simp: complain_def and_then_def keeps_changes_def)

lemma changed_text_keeps:
  assumes "changed_text c message dirty edited w = Some (r, w')" and "\<And>e'. edited = Some (False, e') \<Longrightarrow> e' = e"
  shows "keeps_changes dirty e r"
  using assms complain_keeps by (fastforce simp: changed_text_def keeps_changes_def split: bind_splits if_splits)

lemma commands_keep:
  "command_print c arguments dirty e w = Some (r, w') \<Longrightarrow> keeps_changes dirty e r"
  "command_insert c arguments dirty e w = Some (r, w') \<Longrightarrow> keeps_changes dirty e r"
  "command_replace c arguments dirty e w = Some (r, w') \<Longrightarrow> keeps_changes dirty e r"
  "command_delete c arguments dirty e w = Some (r, w') \<Longrightarrow> keeps_changes dirty e r"
proof -
  assume "command_print c arguments dirty e w = Some (r, w')"
  then show "keeps_changes dirty e r"
    by (auto simp: command_print_def Let_def keeps_changes_def dest!: complain_keeps split: if_splits option.splits prod.splits bind_splits)
next
  assume "command_insert c arguments dirty e w = Some (r, w')"
  then show "keeps_changes dirty e r"
    by (auto simp: command_insert_def intro: complain_keeps changed_text_keeps [OF _ edit_refused(2)] split: if_splits option.splits bind_splits)
next
  assume "command_replace c arguments dirty e w = Some (r, w')"
  then show "keeps_changes dirty e r"
    by (auto simp: command_replace_def intro: complain_keeps changed_text_keeps [OF _ edit_refused(3)] split: if_splits option.splits bind_splits)
next
  assume "command_delete c arguments dirty e w = Some (r, w')"
  then show "keeps_changes dirty e r"
    by (auto simp: command_delete_def intro: complain_keeps changed_text_keeps [OF _ edit_refused(4)] split: if_splits option.splits)
qed

text \<open>What one command does to the text and to the mark that it has unsaved changes.\<close>

definition output_failed :: "'w calls \<Rightarrow> u8 list \<Rightarrow> editor \<Rightarrow> 'w \<Rightarrow> bool" where
  "output_failed c command e w \<longleftrightarrow>
     (\<exists>w'. command = bytes_of ''h'' \<and> print_help c w = Some (False, w')) \<or>
     (\<exists>arguments first stop w'. command_arguments command CHR ''p'' = Some arguments \<and> print_range c first stop e w = Some (False, w'))"

lemma complain_not_fatal: "complain c message dirty e w = Some ((EDITOR_FATAL, r), w') \<Longrightarrow> False"
  by (auto simp: complain_def and_then_def)

lemma changed_text_not_fatal: "changed_text c message dirty edited w = Some ((EDITOR_FATAL, r), w') \<Longrightarrow> False"
  by (auto simp: changed_text_def dest: complain_not_fatal split: bind_splits if_splits)

lemma process_command_fatal:
  assumes "process_command c command path dirty e w = Some ((EDITOR_FATAL, dirty', e'), w')"
  shows "output_failed c command e w"
proof -
  have "command = bytes_of ''h'' \<and> (\<exists>w'. print_help c w = Some (False, w')) \<or>
      (\<exists>arguments. command_arguments command CHR ''p'' = Some arguments \<and> command_print c arguments dirty e w = Some ((EDITOR_FATAL, dirty', e'), w'))"
    using assms unfolding process_command_def command_insert_def command_replace_def command_delete_def
    by (auto dest: complain_not_fatal changed_text_not_fatal split: if_splits option.splits prod.splits bind_splits)
  moreover have "\<exists>first stop w'. print_range c first stop e w = Some (False, w')"
    if "command_print c arguments dirty e w = Some ((EDITOR_FATAL, dirty', e'), w')" for arguments
    using that unfolding command_print_def Let_def
    by (auto dest: complain_not_fatal split: if_splits option.splits prod.splits bind_splits) blast+
  ultimately show ?thesis unfolding output_failed_def by blast
qed

lemma process_command_keeps:
  assumes "process_command c command path dirty e w = Some ((action, dirty', e'), w')"
  shows "action = EDITOR_EXIT \<Longrightarrow> command = bytes_of ''q!'' \<or> \<not> dirty" and "e' \<noteq> e \<Longrightarrow> dirty'"
    and "dirty \<Longrightarrow> \<not> dirty' \<Longrightarrow> command = bytes_of ''w'' \<and> saved c path e w"
proof -
  have "(action = EDITOR_EXIT \<longrightarrow> command = bytes_of ''q!'' \<or> \<not> dirty) \<and> (e' \<noteq> e \<longrightarrow> dirty') \<and>
    (dirty \<and> \<not> dirty' \<longrightarrow> command = bytes_of ''w'' \<and> saved c path e w)" (is ?goal)
  proof -
    have other: ?goal if "keeps_changes dirty e (action, dirty', e')" using that by (auto simp: keeps_changes_def)
    consider (nothing) "command = []" | (usage) "command = bytes_of ''h''" | (save) "command = bytes_of ''w''"
      | (force) "command = bytes_of ''q!''" | (leave) "command = bytes_of ''q''"
      | (edit) "command \<noteq> []" "command \<noteq> bytes_of ''h''" "command \<noteq> bytes_of ''w''" "command \<noteq> bytes_of ''q!''" "command \<noteq> bytes_of ''q''" by blast
    then show ?goal
    proof cases
      case edit
      then have "keeps_changes dirty e (action, dirty', e')"
        using assms unfolding process_command_def
        by (auto intro: complain_keeps commands_keep changed_text_keeps [OF _ edit_refused(1)] split: option.splits)
      then show ?goal by (rule other)
    next
      case save
      then show ?goal using assms save_file_clean [of c path e w] by (cases dirty) (auto simp: process_command_def bytes_of_def)
    next
      case leave
      then show ?goal using assms other complain_keeps by (cases dirty) (fastforce simp: process_command_def bytes_of_def)+
    qed (use assms in \<open>auto simp: process_command_def bytes_of_def split: if_splits\<close>)
  qed
  then show "action = EDITOR_EXIT \<Longrightarrow> command = bytes_of ''q!'' \<or> \<not> dirty" "e' \<noteq> e \<Longrightarrow> dirty'"
    "dirty \<Longrightarrow> \<not> dirty' \<Longrightarrow> command = bytes_of ''w'' \<and> saved c path e w" by blast+
qed

text \<open>
  A session. The first component of the state is the text that is in the file as far as the session knows: the text it began with, and
  after a save the text that was written. A step reads and carries out a command, or warns at an end of input.
\<close>

type_synonym 'w session = "u8 list \<times> bool \<times> editor \<times> 'w"

definition reads :: "'w calls \<Rightarrow> 'w \<Rightarrow> int \<Rightarrow> u8 list \<Rightarrow> 'w \<Rightarrow> bool" where
  "reads c w result command w' \<longleftrightarrow>
     (\<exists>w1. minios_print c 1 (bytes_of ''edit> '') w = Some (True, w1) \<and> read_command c 256 [] w1 = Some ((result, command), w'))"

inductive edit_step :: "'w calls \<Rightarrow> u8 list \<Rightarrow> 'w session \<Rightarrow> 'w session \<Rightarrow> bool" for c path where
  carried_out: "reads c w result command w1 \<Longrightarrow> result > 0 \<Longrightarrow>
    process_command c command path dirty e w1 = Some ((EDITOR_CONTINUE, dirty', e'), w') \<Longrightarrow>
    edit_step c path (disk, dirty, e, w) (if command = bytes_of ''w'' \<and> saved c path e w1 then content e else disk, dirty', e', w')"
| warned: "reads c w 0 command w1 \<Longrightarrow> minios_print c 2 (text_line ''edit: unsaved changes; use q! to discard'') w1 = Some (ok, w') \<Longrightarrow>
    edit_step c path (disk, True, e, w) (disk, True, e, w')"

definition marked :: "'w session \<Rightarrow> bool" where
  "marked s \<longleftrightarrow> (case s of (disk, dirty, e, w) \<Rightarrow> dirty \<or> content e = disk)"

lemma edit_step_marked: "edit_step c path s s' \<Longrightarrow> marked s \<Longrightarrow> marked s'"
  by (induction rule: edit_step.induct) (auto simp: marked_def dest: process_command_keeps(2,3))

text \<open>Console input or output that fails: the prompt, a line of input, the output of \<open>h\<close> or of \<open>p\<close>.\<close>

definition console_failed :: "'w calls \<Rightarrow> editor \<Rightarrow> 'w \<Rightarrow> bool" where
  "console_failed c e w \<longleftrightarrow> (\<exists>w'. minios_print c 1 (bytes_of ''edit> '') w = Some (False, w')) \<or>
     (\<exists>result command w'. reads c w result command w' \<and> (result < 0 \<or> result > 0 \<and> output_failed c command e w'))"

definition session_ends :: "'w calls \<Rightarrow> u8 list \<Rightarrow> bool \<Rightarrow> editor \<Rightarrow> 'w \<Rightarrow> int \<Rightarrow> bool" where
  "session_ends c path dirty e w status \<longleftrightarrow> (\<forall>disk. marked (disk, dirty, e, w) \<longrightarrow> (\<exists>disk' dirty' e' w1.
     (edit_step c path)\<^sup>*\<^sup>* (disk, dirty, e, w) (disk', dirty', e', w1) \<and>
     (status = 0 \<and> (content e' = disk' \<or> (\<exists>result w2. reads c w1 result (bytes_of ''q!'') w2)) \<or> status = 1 \<and> console_failed c e' w1)))"

lemma session_ends_now:
  assumes "\<And>disk. marked (disk, dirty, e, w) \<Longrightarrow>
    status = 0 \<and> (content e = disk \<or> (\<exists>result w2. reads c w result (bytes_of ''q!'') w2)) \<or> status = 1 \<and> console_failed c e w"
  shows "session_ends c path dirty e w status"
  using assms unfolding session_ends_def by blast

lemma session_ends_later:
  assumes "\<And>disk. \<exists>disk'. edit_step c path (disk, dirty, e, w) (disk', dirty', e', w')" and "session_ends c path dirty' e' w' status"
  shows "session_ends c path dirty e w status"
  unfolding session_ends_def
proof (intro allI impI)
  fix disk assume m: "marked (disk, dirty, e, w)"
  obtain disk' where step: "edit_step c path (disk, dirty, e, w) (disk', dirty', e', w')" using assms(1) by blast
  from assms(2) edit_step_marked [OF step m] show "\<exists>disk' dirty' e' w1. (edit_step c path)\<^sup>*\<^sup>* (disk, dirty, e, w) (disk', dirty', e', w1) \<and>
     (status = 0 \<and> (content e' = disk' \<or> (\<exists>result w2. reads c w1 result (bytes_of ''q!'') w2)) \<or> status = 1 \<and> console_failed c e' w1)"
    unfolding session_ends_def using converse_rtranclp_into_rtranclp [of "edit_step c path", OF step] by blast
qed

lemma session_command:
  assumes r: "reads c w result command w1" "result > 0"
    and p: "process_command c command path dirty e w1 = Some ((action, dirty', e'), w2)"
    and goes_on: "action = EDITOR_CONTINUE \<Longrightarrow> session_ends c path dirty' e' w2 status"
    and ends: "action = EDITOR_EXIT \<Longrightarrow> status = 0" "action = EDITOR_FATAL \<Longrightarrow> status = 1"
  shows "session_ends c path dirty e w status"
proof (cases action)
  case EDITOR_CONTINUE
  then have "edit_step c path (disk, dirty, e, w) (if command = bytes_of ''w'' \<and> saved c path e w1 then content e else disk, dirty', e', w2)" for disk
    using edit_step.carried_out [OF r, of path dirty e dirty' e' w2 disk] p by simp
  then show ?thesis by (rule session_ends_later [OF exI goes_on [OF EDITOR_CONTINUE]])
next
  case EDITOR_EXIT
  then show ?thesis using process_command_keeps(1) [OF p] r(1) ends by (intro session_ends_now) (auto simp: marked_def)
next
  case EDITOR_FATAL
  then have "output_failed c command e w1" using p process_command_fatal [of c command path dirty e w1 dirty' e' w2] by simp
  then have "console_failed c e w" using r unfolding console_failed_def by blast
  then show ?thesis using EDITOR_FATAL ends by (intro session_ends_now) simp
qed

text \<open>One round of the loop, with \<open>f\<close> for the rounds after it.\<close>

definition edit_round :: "('w calls \<Rightarrow> u8 list \<Rightarrow> bool \<Rightarrow> editor \<Rightarrow> 'w \<Rightarrow> (int \<times> 'w) option) \<Rightarrow> 'w calls \<Rightarrow> u8 list \<Rightarrow> bool \<Rightarrow> editor \<Rightarrow> 'w \<Rightarrow> (int \<times> 'w) option" where
  "edit_round f c path dirty e w =
     Option.bind (minios_print c 1 (bytes_of ''edit> '') w) (\<lambda>r. case r of (ok, w) \<Rightarrow>
       if \<not> ok then Some (1, w)
       else Option.bind (read_command c 256 [] w) (\<lambda>r. case r of ((read_result, command), w) \<Rightarrow>
         if read_result < 0 then Some (1, w)
         else if read_result = 0
         then (if dirty
               then Option.bind (minios_print c 2 (text_line ''edit: unsaved changes; use q! to discard'') w) (\<lambda>r. case r of (_, w) \<Rightarrow>
                      f c path dirty e w)
               else Some (0, w))
         else Option.bind (process_command c command path dirty e w) (\<lambda>r. case r of ((action, dirty, e), w) \<Rightarrow>
                case action of EDITOR_EXIT \<Rightarrow> Some (0, w) | EDITOR_FATAL \<Rightarrow> Some (1, w) | EDITOR_CONTINUE \<Rightarrow> f c path dirty e w)))"

lemma edit_round_ends:
  assumes run: "edit_round f c path dirty e w = Some r"
    and rest: "\<And>dirty e w. f c path dirty e w = Some r \<Longrightarrow> session_ends c path dirty e w (fst r)"
  shows "session_ends c path dirty e w (fst r)"
proof -
  obtain ok w1 where p: "minios_print c 1 (bytes_of ''edit> '') w = Some (ok, w1)"
    using run unfolding edit_round_def by (cases "minios_print c 1 (bytes_of ''edit> '') w") auto
  show ?thesis
  proof (cases ok)
    case False
    then show ?thesis using run p unfolding edit_round_def by (intro session_ends_now) (auto simp: console_failed_def)
  next
    case True
    obtain result command w2 where rd: "read_command c 256 [] w1 = Some ((result, command), w2)"
      using run p True unfolding edit_round_def by (cases "read_command c 256 [] w1") auto
    have r: "reads c w result command w2" using p rd True by (auto simp: reads_def)
    have round: "(if result < 0 then Some (1, w2)
        else if result = 0
        then (if dirty
              then Option.bind (minios_print c 2 (text_line ''edit: unsaved changes; use q! to discard'') w2) (\<lambda>r. case r of (_, w) \<Rightarrow>
                     f c path dirty e w)
              else Some (0, w2))
        else Option.bind (process_command c command path dirty e w2) (\<lambda>r. case r of ((action, dirty, e), w) \<Rightarrow>
               case action of EDITOR_EXIT \<Rightarrow> Some (0, w) | EDITOR_FATAL \<Rightarrow> Some (1, w) | EDITOR_CONTINUE \<Rightarrow> f c path dirty e w)) = Some r"
      using run True unfolding edit_round_def p by (simp only: bind.simps prod.case simp_thms if_False rd)
    consider (failed) "result < 0" | (finished) "result = 0" "\<not> dirty" | (warn) "result = 0" "dirty" | (command) "result > 0" by linarith
    then show ?thesis
    proof cases
      case failed
      then show ?thesis using round r by (intro session_ends_now) (auto simp: console_failed_def)
    next
      case finished
      then show ?thesis using round by (intro session_ends_now) (auto simp: marked_def)
    next
      case warn
      then obtain told w3 where w3: "minios_print c 2 (text_line ''edit: unsaved changes; use q! to discard'') w2 = Some (told, w3)"
        "f c path dirty e w3 = Some r"
        using round by (cases "minios_print c 2 (text_line ''edit: unsaved changes; use q! to discard'') w2") auto
      have "edit_step c path (disk, dirty, e, w) (disk, dirty, e, w3)" for disk
        using edit_step.warned [of c w command w2 told w3 path disk e] r w3(1) warn by simp
      then show ?thesis by (rule session_ends_later [OF exI rest [OF w3(2)]])
    next
      case command
      then obtain action dirty' e' w3 where pc: "process_command c command path dirty e w2 = Some ((action, dirty', e'), w3)"
        "(case action of EDITOR_EXIT \<Rightarrow> Some (0, w3) | EDITOR_FATAL \<Rightarrow> Some (1, w3) | EDITOR_CONTINUE \<Rightarrow> f c path dirty' e' w3) = Some r"
        using round by (cases "process_command c command path dirty e w2") auto
      show ?thesis
        by (rule session_command [OF r command pc(1)]) (use pc(2) rest in auto)
    qed
  qed
qed

lemma edit_loop_ends:
  assumes "edit_loop c path dirty e w = Some r"
  shows "session_ends c path dirty e w (fst r)"
  using assms
proof (rule edit_loop.raw_induct [where P = "\<lambda>c path dirty e w r. session_ends c path dirty e w (fst r)", rotated], goal_cases)
  case (1 f c path dirty e w r)
  show ?case by (rule edit_round_ends [OF 1(2) [folded edit_round_def]]) (rule 1(1))
qed


text \<open>A world of bytes to be typed: the lines \<open>a\<close>, \<open>w\<close> and \<open>q\<close>.\<close>

definition typing_calls :: "u8 list calls" where
  "typing_calls = quiet_calls\<lparr>sys_read := (\<lambda>_ _ w. case w of [] \<Rightarrow> Some ((0, []), []) | x # w \<Rightarrow> Some ((1, [x]), w))\<rparr>"

lemma typing_calls_simps [simp]:
  "minios_write_all typing_calls d bytes w = Some (True, w)" "minios_print typing_calls d bytes w = Some (True, w)"
  "minios_print_uint32 typing_calls d m w = Some (True, w)" "sys_read typing_calls d n (x # w) = Some ((1, [x]), w)"
  "sys_open typing_calls path flags w = Some (3, w)" "sys_close typing_calls d w = Some (0, w)"
proof -
  have w: "sys_write typing_calls d bytes w = Some (int (length bytes), w)" for d bytes w by (simp add: typing_calls_def quiet_calls_def)
  show "minios_write_all typing_calls d bytes w = Some (True, w)" "minios_print typing_calls d bytes w = Some (True, w)"
    "minios_print_uint32 typing_calls d m w = Some (True, w)"
    using prints_succeed [where c = typing_calls, OF w] by simp_all
qed (simp_all add: typing_calls_def quiet_calls_def)

lemma typing_letter:
  assumes "0x61 \<le> x" "x \<le> 0x7A"
  shows "read_command typing_calls 256 [] (x # newline # w) = Some ((1, [x]), w)"
proof -
  have x: "x \<notin> {3, 4, 8, 9, 10, 0x7F}" "\<not> x < 0x20" "\<not> x > 0x7E" using assms by (auto simp: word_le_nat_alt word_less_nat_alt)
  have "read_command typing_calls 256 [x] (newline # w) = Some ((1, [x]), w)"
    by (subst read_command.simps) (simp add: and_then_def)
  then show ?thesis using x by (subst read_command.simps) (simp add: Let_def)
qed

lemma list_update_replicate_first: "0 < n \<Longrightarrow> (replicate n x)[0 := y] = y # replicate (n - 1) x"
  by (cases n) auto

lemma session_of_three:
  "edit_loop typing_calls path False initial_editor [0x61, newline, 0x77, newline, 0x71, newline] = Some (0, [])"
proof -
  let ?e = "\<lparr>edit_buffer = newline # replicate 32767 0, edit_length = Suc 0\<rparr>"
  have "array_put 0 newline (replicate 32768 0) = Some (newline # replicate 32767 0)"
    using list_update_replicate_first [of 32768 "0 :: u8" newline] by (simp add: array_put_def)
  then have "append_line [] initial_editor = Some (True, ?e)"
    by (simp add: append_line_def initial_editor_def build_line_payload_def replace_range_def Let_def array_copy_def copy_descending_def for_opt_def)
  then have a: "process_command typing_calls [0x61] path False initial_editor w = Some ((EDITOR_CONTINUE, True, ?e), w)" for w
    by (simp add: process_command_def changed_text_def command_arguments_def skip_spaces_def bytes_of_def)
  have w: "process_command typing_calls [0x77] path True ?e w = Some ((EDITOR_CONTINUE, False, ?e), w)" for w
    by (simp add: process_command_def save_file_def and_then_def bytes_of_def array_slice_def)
  have q: "process_command typing_calls [0x71] path False ?e w = Some ((EDITOR_EXIT, False, ?e), w)" for w
    by (simp add: process_command_def bytes_of_def)
  have "edit_loop typing_calls path False ?e [0x71, newline] = Some (0, [])"
    by (subst edit_loop.simps) (simp add: typing_letter q)
  then have "edit_loop typing_calls path True ?e [0x77, newline, 0x71, newline] = Some (0, [])"
    by (subst edit_loop.simps) (simp add: typing_letter w)
  then show ?thesis
    by (subst edit_loop.simps) (simp add: typing_letter a)
qed


end
