(* ===== verification/Shell.thy ===== *)
theory Shell
  imports Userland Byte_Array
begin

text \<open>
  The shell (\<open>user/programs/sh.c\<close>): splitting a line into arguments in place, the built-in commands, completion, history and the
  line editor. Strings inside a buffer are given by their offset, as the code has pointers into the line.
\<close>

abbreviation (input) SHELL_LINE_SIZE :: nat where "SHELL_LINE_SIZE \<equiv> 256"
abbreviation (input) SHELL_ARGUMENT_LIMIT :: nat where "SHELL_ARGUMENT_LIMIT \<equiv> 16"
abbreviation (input) SHELL_HISTORY_LIMIT :: nat where "SHELL_HISTORY_LIMIT \<equiv> 8"
abbreviation (input) SHELL_RUN_EXIT :: int where "SHELL_RUN_EXIT \<equiv> 1"

definition write_text :: "'w calls \<Rightarrow> u8 list \<Rightarrow> ('w, bool) program" where
  "write_text c text = minios_print c 1 text"

definition is_separator :: "u8 \<Rightarrow> bool" where
  "is_separator character \<longleftrightarrow> character = 0x20 \<or> character = 0x09"

subsection \<open>Splitting a line\<close>

lemma array_simps:
  "array_get i b = Some x \<Longrightarrow> i < length b" "array_put i x b = Some b' \<Longrightarrow> length b' = length b"
  by (auto simp: array_get_def array_put_def split: if_splits)

function skip_separators :: "u8 list \<Rightarrow> nat \<Rightarrow> nat option" where
  "skip_separators line cursor = do {
     x \<leftarrow> array_get cursor line;
     if is_separator x then skip_separators line (cursor + 1) else Some cursor
   }"
  by pat_completeness auto
termination
  by (relation "measure (\<lambda>(line, cursor). length line - cursor)") (auto dest: array_simps)

declare skip_separators.simps [simp del]

text \<open>
  The loop over one argument, from the cursors, the buffer and the open quote; it stops behind the argument, or with a message.
\<close>

function word_loop :: "u8 list \<Rightarrow> nat \<Rightarrow> nat \<Rightarrow> u8 \<Rightarrow> (string + u8 \<times> nat \<times> nat \<times> u8 list) option" where
  "word_loop line read_cursor write_cursor quote = do {
     character \<leftarrow> array_get read_cursor line;
     if character = 0 then Some (Inr (quote, read_cursor, write_cursor, line))
     else if quote \<noteq> 0 \<and> character = quote then word_loop line (read_cursor + 1) write_cursor 0
     else if quote = 0 \<and> is_separator character then Some (Inr (quote, read_cursor, write_cursor, line))
     else if quote = 0 \<and> (character = 0x27 \<or> character = 0x22) then word_loop line (read_cursor + 1) write_cursor character
     else if (quote = 0x22 \<or> quote = 0) \<and> character = 0x5C
     then do {
       character \<leftarrow> array_get (read_cursor + 1) line;
       if character = 0 then Some (Inl ''sh: trailing escape character'')
       else do {
         line' \<leftarrow> array_put write_cursor character line;
         word_loop line' (read_cursor + 2) (write_cursor + 1) quote
       }
     }
     else do {
       line' \<leftarrow> array_put write_cursor character line;
       word_loop line' (read_cursor + 1) (write_cursor + 1) quote
     }
   }"
  by pat_completeness auto
termination
  by (relation "measure (\<lambda>(line, read_cursor, _, _). length line - read_cursor)") (auto dest!: array_simps)

declare word_loop.simps [simp del]

text \<open>What the loop does at a byte.\<close>

lemma word_loop_at:
  assumes "array_get r line = Some x"
  shows
    "x = 0 \<Longrightarrow> word_loop line r w q = Some (Inr (q, r, w, line))"
    "x \<noteq> 0 \<Longrightarrow> q \<noteq> 0 \<Longrightarrow> x = q \<Longrightarrow> word_loop line r w q = word_loop line (r + 1) w 0"
    "x \<noteq> 0 \<Longrightarrow> q = 0 \<Longrightarrow> is_separator x \<Longrightarrow> word_loop line r w q = Some (Inr (q, r, w, line))"
    "q = 0 \<Longrightarrow> x = 0x27 \<or> x = 0x22 \<Longrightarrow> word_loop line r w q = word_loop line (r + 1) w x"
    "q = 0x22 \<or> q = 0 \<Longrightarrow> x = 0x5C \<Longrightarrow> word_loop line r w q =
       Option.bind (array_get (r + 1) line) (\<lambda>y. if y = 0 then Some (Inl ''sh: trailing escape character'')
         else Option.bind (array_put w y line) (\<lambda>line'. word_loop line' (r + 2) (w + 1) q))"
    "x \<noteq> 0 \<Longrightarrow> x \<noteq> q \<Longrightarrow> q = 0 \<longrightarrow> \<not> is_separator x \<and> x \<noteq> 0x27 \<and> x \<noteq> 0x22 \<Longrightarrow> (q = 0x22 \<or> q = 0 \<longrightarrow> x \<noteq> 0x5C) \<Longrightarrow>
       word_loop line r w q = Option.bind (array_put w x line) (\<lambda>line'. word_loop line' (r + 1) (w + 1) q)"
  using assms by (subst word_loop.simps, auto simp: is_separator_def)+

lemma word_loop_forward:
  assumes "word_loop line r w q = Some (Inr (q', r', w', line'))"
  shows "r \<le> r'" and "length line' = length line"
proof -
  have "r \<le> r' \<and> length line' = length line"
    using assms
  proof (induction "length line - r" arbitrary: line r w q rule: less_induct)
    case less
    obtain x where x: "array_get r line = Some x" using less.prems by (subst (asm) word_loop.simps) (cases "array_get r line"; simp)
    note r = array_simps(1) [OF x]
    have hyp: "r \<le> r' \<and> length line' = length line"
      if "word_loop line2 r2 w2 q2 = Some (Inr (q', r', w', line'))" "r < r2" "length line2 = length line" for line2 r2 w2 q2
      using less.hyps [OF _ that(1)] that(2,3) r by fastforce
    note at = word_loop_at [OF x, where w = w and q = q]
    consider "x = 0" | "x \<noteq> 0" "q \<noteq> 0" "x = q" | "x \<noteq> 0" "q = 0" "is_separator x" | "q = 0" "x = 0x27 \<or> x = 0x22"
      | "q = 0x22 \<or> q = 0" "x = 0x5C"
      | "x \<noteq> 0" "x \<noteq> q" "q = 0 \<longrightarrow> \<not> is_separator x \<and> x \<noteq> 0x27 \<and> x \<noteq> 0x22" "q = 0x22 \<or> q = 0 \<longrightarrow> x \<noteq> 0x5C" by blast
    then show ?case
    proof cases
      case 5
      then show ?thesis using less.prems at(5) hyp by (auto dest!: array_simps split: bind_splits if_splits)
    next
      case 6
      then show ?thesis using less.prems at(6) hyp by (auto dest!: array_simps split: bind_splits if_splits)
    qed (use less.prems at(1-4) hyp in auto)
  qed
  then show "r \<le> r'" "length line' = length line" by simp_all
qed

lemma word_loop_progress:
  assumes "word_loop line r w 0 = Some (Inr (0, r', w', line'))" and "array_get r line = Some x" "x \<noteq> 0" "\<not> is_separator x"
  shows "r < r'"
proof -
  note at = word_loop_at [OF assms(2), where w = w and q = 0]
  consider "x = 0x27 \<or> x = 0x22" | "x = 0x5C" | "x \<noteq> 0x27 \<and> x \<noteq> 0x22" "x \<noteq> 0x5C" by blast
  then show ?thesis
  proof cases
    case 1
    then show ?thesis using assms(1) at(4) word_loop_forward(1) by fastforce
  next
    case 2
    then show ?thesis using assms(1) at(5) by (auto dest!: word_loop_forward(1) split: bind_splits if_splits)
  next
    case 3
    then show ?thesis using assms at(6) by (auto dest!: word_loop_forward(1) split: bind_splits)
  qed
qed

lemma skip_separators_forward: "skip_separators line r = Some r' \<Longrightarrow> r \<le> r'"
  by (induction line r rule: skip_separators.induct) (subst (asm) (2) skip_separators.simps, fastforce split: bind_splits if_splits)

lemma skip_separators_stop: "skip_separators line r = Some r' \<Longrightarrow> \<exists>x. array_get r' line = Some x \<and> \<not> is_separator x"
  by (induction line r rule: skip_separators.induct) (subst (asm) (2) skip_separators.simps, fastforce split: bind_splits if_splits)

text \<open>The outer loop; the arguments are the offsets of their first bytes.\<close>

function parse_loop :: "u8 list \<Rightarrow> nat \<Rightarrow> nat \<Rightarrow> nat list \<Rightarrow> (string + nat list \<times> u8 list) option" where
  "parse_loop line read_cursor write_cursor arguments = do {
     x \<leftarrow> array_get read_cursor line;
     if x = 0 then Some (Inr (arguments, line))
     else do {
       cursor \<leftarrow> skip_separators line read_cursor;
       x \<leftarrow> array_get cursor line;
       if x = 0 then Some (Inr (arguments, line))
       else if length arguments \<ge> SHELL_ARGUMENT_LIMIT then Some (Inl ''sh: too many arguments'')
       else do {
         r \<leftarrow> word_loop line cursor write_cursor 0;
         case r of
           Inl message \<Rightarrow> Some (Inl message)
         | Inr (quote, cursor', write_cursor', line') \<Rightarrow>
             if quote \<noteq> 0 then Some (Inl ''sh: unterminated quote'')
             else do {
               cursor'' \<leftarrow> skip_separators line' cursor';
               line'' \<leftarrow> array_put write_cursor' 0 line';
               parse_loop line'' cursor'' (write_cursor' + 1) (arguments @ [write_cursor])
             }
       }
     }
   }"
  by pat_completeness auto
termination
proof (relation "measure (\<lambda>(line, read_cursor, _, _). length line - read_cursor)", simp, goal_cases)
  case (1 line r w arguments x cursor y _ _ q _ cursor' _ w' line' cursor'' line'')
  then have word: "word_loop line cursor w 0 = Some (Inr (0, cursor', w', line'))" by auto
  have "\<not> is_separator y" using skip_separators_stop [OF 1(3)] 1(4) by auto
  then have "cursor < cursor'" using word_loop_progress [OF word 1(4,5)] by simp
  moreover have "r \<le> cursor" "cursor' \<le> cursor''" using skip_separators_forward 1(3,13) by auto
  moreover have "length line' = length line" by (rule word_loop_forward(2) [OF word])
  ultimately show ?case using array_simps(1) [OF 1(1)] array_simps(2) [OF 1(14)] by simp
qed

declare parse_loop.simps [simp del]

definition parse_line :: "'w calls \<Rightarrow> u8 list \<Rightarrow> ('w, (nat list \<times> u8 list) option) program" where
  "parse_line c line w = do {
     r \<leftarrow> parse_loop line 0 0 [];
     case r of
       Inl message \<Rightarrow> and_then (minios_print c 2 (text_line message)) None w
     | Inr parsed \<Rightarrow> Some (Some parsed, w)
   }"

subsection \<open>Completion\<close>

record shell_completion =
  match_count :: nat
  common :: "u8 list"

definition shell_builtin_commands :: "u8 list list" where
  "shell_builtin_commands = map bytes_of [''help'', ''clear'', ''cd'', ''pwd'', ''exit'', ''shutdown'']"

fun string_has_prefix :: "u8 list \<Rightarrow> u8 list \<Rightarrow> bool" where
  "string_has_prefix value [] = True"
| "string_has_prefix [] (y # prefix) = False"
| "string_has_prefix (x # value) (y # prefix) = (if x \<noteq> y then False else string_has_prefix value prefix)"

definition command_is_builtin :: "u8 list \<Rightarrow> bool" where
  "command_is_builtin command = list_ex (minios_streq command) shell_builtin_commands"

definition completion_add :: "shell_completion \<Rightarrow> u8 list \<Rightarrow> u8 list \<Rightarrow> shell_completion" where
  "completion_add completion command prefix =
     (if \<not> string_has_prefix command prefix \<or> length command > MINIFS_NAME_MAX then completion
      else if match_count completion = 0 then completion\<lparr>common := command, match_count := 1\<rparr>
      else let common_limit = min (length (common completion)) (length command);
               index = (case for_find 0 common_limit (\<lambda>index. common completion ! index \<noteq> command ! index) of
                          None \<Rightarrow> common_limit | Some index \<Rightarrow> index)
           in completion\<lparr>common := take index (common completion), match_count := match_count completion + 1\<rparr>)"

text \<open>The loop over the entries of \<open>/bin\<close>; the number is the last result of the call.\<close>

partial_function (option) collect_loop :: "'w calls \<Rightarrow> int \<Rightarrow> u8 list \<Rightarrow> shell_completion \<Rightarrow> 'w \<Rightarrow> ((int \<times> shell_completion) \<times> 'w) option" where
  "collect_loop c descriptor prefix completion w =
     Option.bind (sys_readdir c descriptor 68 w) (\<lambda>r. case r of ((result, entry), w) \<Rightarrow>
       if result \<noteq> 1 then Some ((result, completion), w)
       else collect_loop c descriptor prefix
         (if md_mode entry = MINIFS_MODE_REGULAR \<and> \<not> command_is_builtin (c_string (md_name entry))
          then completion_add completion (c_string (md_name entry)) prefix else completion) w)"

definition collect_command_matches :: "'w calls \<Rightarrow> u8 list \<Rightarrow> ('w, bool \<times> shell_completion) program" where
  "collect_command_matches c prefix w =
     (let completion = fold (\<lambda>command completion. completion_add completion command prefix) shell_builtin_commands \<lparr>match_count = 0, common = []\<rparr>
      in do {
        (descriptor, w) \<leftarrow> sys_open c (bytes_of ''/bin'') MINIOS_O_RDONLY w;
        if descriptor < 3 then Some ((False, completion), w)
        else do {
          ((result, completion), w) \<leftarrow> collect_loop c descriptor prefix completion w;
          (close_result, w) \<leftarrow> sys_close c descriptor w;
          Some ((result = 0 \<and> close_result = 0, completion), w)
        }
      })"

subsection \<open>Running a command\<close>

definition command_has_slash :: "u8 list \<Rightarrow> bool" where
  "command_has_slash command = list_ex (\<lambda>x. x = 0x2F) command"

definition build_path :: "nat \<Rightarrow> u8 list \<Rightarrow> u8 list option" where
  "build_path capacity command = do {
     destination \<leftarrow> (if \<not> command_has_slash command then append_bounded capacity [] (bytes_of ''/bin/'') else Some []);
     append_bounded capacity destination command
   }"

fun exit_status_loop :: "u8 list \<Rightarrow> u32 \<Rightarrow> int option" where
  "exit_status_loop [] value = Some (uint value)"
| "exit_status_loop (x # text) value =
     (if x < 0x30 \<or> x > 0x39 then None
      else let value = value * 10 + ucast (x - 0x30) in if value > 255 then None else exit_status_loop text value)"

definition parse_exit_status :: "u8 list \<Rightarrow> int option" where
  "parse_exit_status text = (if text = [] then None else exit_status_loop text 0)"

text \<open>
  A built-in command, with the exit status the shell has recorded: the result and the new exit status, the result \<open>- 2\<close> if it is
  none. Shutting down does not return.
\<close>

definition usage :: "'w calls \<Rightarrow> string \<Rightarrow> int \<Rightarrow> ('w, int \<times> int) program" where
  "usage c message status = and_then (minios_print c 2 (text_line message)) (- 1, status)"

definition help_lines :: "u8 list" where
  "help_lines = concat (map text_line
     [''builtins: help clear cd pwd exit shutdown'',
      ''commands: ls cat touch write edit mkdir rm cp stat echo ps sleep uptime'',
      ''diagnostics: memtest fault'',
      ''completion: Tab completes builtins and /bin commands''] @
     [bytes_of ''quoting:  '', [0x27], bytes_of ''single quoted'', [0x27], bytes_of '' '', [0x22], bytes_of ''double quoted'', [0x22],
      bytes_of '' backslash'', [0x5C], bytes_of ''escape'', [0x0A]])"

definition run_builtin :: "'w calls \<Rightarrow> u8 list list \<Rightarrow> int \<Rightarrow> ('w, int \<times> int) program" where
  "run_builtin c arguments status w =
     (let command = hd arguments; count = length arguments
      in if minios_streq command (bytes_of ''exit'')
         then (if count > 2 then usage c ''usage: exit [status]'' status w
               else if count = 2
               then (case parse_exit_status (arguments ! 1) of
                       None \<Rightarrow> usage c ''usage: exit [status]'' status w
                     | Some status \<Rightarrow> Some ((SHELL_RUN_EXIT, status), w))
               else Some ((SHELL_RUN_EXIT, status), w))
         else if minios_streq command (bytes_of ''help'')
         then (if count \<noteq> 1 then usage c ''usage: help'' status w
               else do { (ok, w) \<leftarrow> write_text c help_lines w; Some ((if ok then 0 else - 1, status), w) })
         else if minios_streq command (bytes_of ''shutdown'')
         then (if count \<noteq> 1 then usage c ''usage: shutdown'' status w
               else do { (ok, w) \<leftarrow> write_text c (text_line ''Shutting down MiniOrangeOS...'') w;
                         if \<not> ok then Some ((- 1, status), w) else None })
         else if minios_streq command (bytes_of ''clear'')
         then (if count \<noteq> 1 then usage c ''usage: clear'' status w
               else do { (ok, w) \<leftarrow> write_text c ([0x1B] @ bytes_of ''[2J'' @ [0x1B] @ bytes_of ''[H'') w; Some ((if ok then 0 else - 1, status), w) })
         else if minios_streq command (bytes_of ''pwd'')
         then (if count \<noteq> 1 then usage c ''usage: pwd'' status w
               else do {
                 ((result, path), w) \<leftarrow> sys_getcwd c 256 w;
                 if result \<noteq> 0 then and_then (minios_report_error c ''pwd'' None (- MINIOS_EIO)) (- 1, status) w
                 else do {
                   (ok, w) \<leftarrow> all_of [minios_print c 1 (c_string path), minios_print c 1 [0x0A]] w;
                   Some ((if ok then 0 else - 1, status), w)
                 }
               })
         else if minios_streq command (bytes_of ''cd'')
         then (if count > 2 then usage c ''usage: cd [directory]'' status w
               else let path = (if count = 1 then bytes_of ''/'' else arguments ! 1)
                    in do {
                      (result, w) \<leftarrow> sys_chdir c path w;
                      if result < 0 then and_then (minios_report_error c ''cd'' (Some path) result) (- 1, status) w
                      else Some ((0, status), w)
                    })
         else Some ((- 2, status), w))"

definition run_program :: "'w calls \<Rightarrow> u8 list list \<Rightarrow> ('w, int) program" where
  "run_program c arguments w =
     (case build_path 256 (hd arguments) of
        None \<Rightarrow> and_then (minios_print c 2 (text_line ''sh: command path too long'')) (- 1) w
      | Some path \<Rightarrow> do {
          (child_pid, w) \<leftarrow> sys_spawn c path (path # tl arguments) w;
          if child_pid < 1 then and_then (minios_report_error c ''sh'' (Some path) child_pid) (- 1) w
          else do {
            ((waited, child_status), w) \<leftarrow> sys_waitpid c child_pid w;
            if waited \<noteq> child_pid then and_then (minios_print c 2 (text_line ''sh: wait failed'')) (- 1) w
            else if child_status \<noteq> 0
            then do {
              (_, w) \<leftarrow> minios_print c 2 (bytes_of ''sh: '') w;
              (_, w) \<leftarrow> minios_print c 2 path w;
              (_, w) \<leftarrow> minios_print c 2 (bytes_of '': exited with status '') w;
              (_, w) \<leftarrow> minios_print_int32 c 2 child_status w;
              and_then (minios_print c 2 [0x0A]) (- 1) w
            }
            else Some (0, w)
          }
        })"

definition run_line :: "'w calls \<Rightarrow> u8 list \<Rightarrow> int \<Rightarrow> ('w, int \<times> int) program" where
  "run_line c line status w = do {
     (parsed, w) \<leftarrow> parse_line c line w;
     case parsed of
       None \<Rightarrow> Some ((- 1, status), w)
     | Some (offsets, line) \<Rightarrow>
         if offsets = [] then Some ((0, status), w)
         else let arguments = map (\<lambda>offset. c_string (drop offset line)) offsets
              in do {
                ((builtin_result, status), w) \<leftarrow> run_builtin c arguments status w;
                if builtin_result \<noteq> - 2 then Some ((builtin_result, status), w)
                else do { (result, w) \<leftarrow> run_program c arguments w; Some ((result, status), w) }
              }
   }"

definition print_prompt :: "'w calls \<Rightarrow> ('w, bool) program" where
  "print_prompt c w = do {
     ((result, path), w) \<leftarrow> sys_getcwd c 256 w;
     if result \<noteq> 0 then Some (False, w) else all_of [minios_print c 1 (c_string path), minios_print c 1 (bytes_of ''$ '')] w
   }"

subsection \<open>The line on the screen\<close>

definition write_buffer :: "'w calls \<Rightarrow> u8 list \<Rightarrow> ('w, bool) program" where
  "write_buffer c bytes w =
     (if bytes = [] then Some (True, w) else do { (written, w) \<leftarrow> sys_write c 1 bytes w; Some (written = int (length bytes), w) })"

definition write_backspaces :: "'w calls \<Rightarrow> nat \<Rightarrow> ('w, bool) program" where
  "write_backspaces c count = all_of (replicate count (write_text c [0x08]))"

definition redraw_line :: "'w calls \<Rightarrow> u8 list \<Rightarrow> nat \<Rightarrow> nat \<Rightarrow> nat \<Rightarrow> ('w, bool) program" where
  "redraw_line c line cursor old_length old_cursor =
     (let rendered_length = max (length line) old_length
      in all_of ([write_backspaces c old_cursor, write_buffer c line] @ replicate (old_length - length line) (write_text c [0x20]) @
           [write_backspaces c (rendered_length - cursor)]))"

record shell =
  sh_line :: "u8 list"
  sh_length :: nat
  sh_cursor :: nat
  sh_draft :: "u8 list"
  sh_history_position :: nat
  shell_history :: "u8 list list"
  shell_exit_status :: int

abbreviation typed :: "shell \<Rightarrow> u8 list" where
  "typed s \<equiv> take (sh_length s) (sh_line s)"

text \<open>The result of a key: the exit code if the shell ends, and the new state.\<close>

type_synonym 'w key_handler = "shell \<Rightarrow> ('w, int option \<times> shell) program"

definition unless_failed :: "('w, bool) program \<Rightarrow> shell \<Rightarrow> ('w, int option \<times> shell) program" where
  "unless_failed p s w = map_option (\<lambda>(ok, w). ((if ok then None else Some 1, s), w)) (p w)"

definition redraw :: "'w calls \<Rightarrow> shell \<Rightarrow> shell \<Rightarrow> ('w, int option \<times> shell) program" where
  "redraw c before s = unless_failed (redraw_line c (typed s) (sh_cursor s) (sh_length before) (sh_cursor before)) s"

subsection \<open>Completing the command\<close>

partial_function (option) print_loop :: "'w calls \<Rightarrow> int \<Rightarrow> u8 list \<Rightarrow> bool \<Rightarrow> int \<Rightarrow> 'w \<Rightarrow> ((bool \<times> int) \<times> 'w) option" where
  "print_loop c descriptor prefix success result w =
     (if \<not> success then Some ((success, result), w)
      else Option.bind (sys_readdir c descriptor 68 w) (\<lambda>r. case r of ((result, entry), w) \<Rightarrow>
        if result \<noteq> 1 then Some ((success, result), w)
        else if md_mode entry = MINIFS_MODE_REGULAR \<and> \<not> command_is_builtin (c_string (md_name entry)) \<and>
                string_has_prefix (c_string (md_name entry)) prefix
        then Option.bind (all_of [write_text c (c_string (md_name entry)), write_text c [0x0A]] w) (\<lambda>r. case r of (success, w) \<Rightarrow>
               print_loop c descriptor prefix success result w)
        else print_loop c descriptor prefix success result w))"

definition print_command_matches :: "'w calls \<Rightarrow> u8 list \<Rightarrow> u8 list \<Rightarrow> nat \<Rightarrow> ('w, bool) program" where
  "print_command_matches c prefix line cursor w = do {
     (success, w) \<leftarrow> all_of (write_text c [0x0A] #
       concat (map (\<lambda>command. [write_text c command, write_text c [0x0A]])
         (filter (\<lambda>command. string_has_prefix command prefix) shell_builtin_commands))) w;
     (descriptor, w) \<leftarrow> sys_open c (bytes_of ''/bin'') MINIOS_O_RDONLY w;
     if descriptor < 3 then Some (False, w)
     else do {
       ((success, result), w) \<leftarrow> print_loop c descriptor prefix success 0 w;
       (close_result, w) \<leftarrow> sys_close c descriptor w;
       if \<not> success \<or> result \<noteq> 0 \<or> close_result \<noteq> 0 then Some (False, w)
       else all_of [print_prompt c, write_buffer c line, write_backspaces c (length line - cursor)] w
     }
   }"

definition insert_completion :: "'w calls \<Rightarrow> u8 list \<Rightarrow> nat \<Rightarrow> bool \<Rightarrow> 'w key_handler" where
  "insert_completion c completion prefix_length append_separator s w =
     (let line = sh_line s; cursor = sh_cursor s; len = sh_length s; continue = Some ((None, s), w)
      in if length completion < prefix_length then continue
         else do {
           at_cursor \<leftarrow> (if append_separator \<and> cursor \<noteq> len then array_get cursor line else Some 0);
           let suffix = drop prefix_length completion;
           let separator = (if append_separator \<and> (cursor = len \<or> \<not> is_separator at_cursor) then [0x20] else []);
           let added_length = length suffix + length separator;
           if added_length = 0 \<or> len + added_length + 1 > SHELL_LINE_SIZE then continue
           else do {
             line \<leftarrow> copy_descending (len - cursor) (cursor + added_length) cursor line;
             line \<leftarrow> array_copy cursor (suffix @ separator) line;
             line \<leftarrow> array_put (len + added_length) 0 line;
             let s' = s\<lparr>sh_line := line, sh_cursor := cursor + added_length, sh_length := len + added_length\<rparr>;
             if cursor = len then unless_failed (write_buffer c (take added_length (drop cursor line))) s' w
             else redraw c s s' w
           }
         })"

definition complete_command :: "'w calls \<Rightarrow> 'w key_handler" where
  "complete_command c s w =
     (let line = typed s; cursor = sh_cursor s; continue = Some ((None, s), w);
          prefix = dropWhile is_separator (take cursor line)
      in if prefix = [] \<or> list_ex is_separator prefix then continue
         else if cursor < length line \<and> \<not> is_separator (line ! cursor) then continue
         else if length prefix > MINIFS_NAME_MAX then continue
         else do {
           ((ok, completion), w) \<leftarrow> collect_command_matches c prefix w;
           if \<not> ok \<or> match_count completion = 0 then Some ((None, s), w)
           else if match_count completion = 1 then insert_completion c (common completion) (length prefix) True s w
           else if length (common completion) > length prefix then insert_completion c (common completion) (length prefix) False s w
           else unless_failed (print_command_matches c prefix line cursor) s w
         })"

subsection \<open>History\<close>

definition line_has_content :: "u8 list \<Rightarrow> bool" where
  "line_has_content line = list_ex (\<lambda>x. \<not> is_separator x) line"

definition history_add :: "u8 list \<Rightarrow> u8 list list \<Rightarrow> u8 list list" where
  "history_add line history =
     (if \<not> line_has_content line \<or> history \<noteq> [] \<and> minios_streq (last history) line then history
      else let history = (if length history = SHELL_HISTORY_LIMIT
                          then take (SHELL_HISTORY_LIMIT - 1)
                                 (for_range 1 SHELL_HISTORY_LIMIT (\<lambda>index history. history[index - 1 := history ! index]) history)
                          else history)
           in history @ [line])"

definition recall_line :: "'w calls \<Rightarrow> u8 list \<Rightarrow> 'w key_handler" where
  "recall_line c replacement s w = do {
     line \<leftarrow> array_copy 0 replacement (sh_line s);
     line \<leftarrow> array_put (length replacement) 0 line;
     redraw c s (s\<lparr>sh_line := line, sh_length := length replacement, sh_cursor := length replacement\<rparr>) w
   }"

subsection \<open>The keys\<close>

definition key_left :: "'w calls \<Rightarrow> 'w key_handler" where
  "key_left c s =
     (if sh_cursor s > 0 then unless_failed (write_text c [0x08]) (s\<lparr>sh_cursor := sh_cursor s - 1\<rparr>) else (\<lambda>w. Some ((None, s), w)))"

definition key_right :: "'w calls \<Rightarrow> 'w key_handler" where
  "key_right c s =
     (if sh_cursor s < sh_length s
      then unless_failed (write_buffer c (take 1 (drop (sh_cursor s) (sh_line s)))) (s\<lparr>sh_cursor := sh_cursor s + 1\<rparr>)
      else (\<lambda>w. Some ((None, s), w)))"

definition key_home :: "'w calls \<Rightarrow> 'w key_handler" where
  "key_home c s = unless_failed (write_backspaces c (sh_cursor s)) (s\<lparr>sh_cursor := 0\<rparr>)"

definition key_end :: "'w calls \<Rightarrow> 'w key_handler" where
  "key_end c s =
     unless_failed (write_buffer c (take (sh_length s - sh_cursor s) (drop (sh_cursor s) (sh_line s)))) (s\<lparr>sh_cursor := sh_length s\<rparr>)"

definition key_up :: "'w calls \<Rightarrow> 'w key_handler" where
  "key_up c s w =
     (if sh_history_position s = 0 then Some ((None, s), w)
      else let s = (if sh_history_position s = length (shell_history s) then s\<lparr>sh_draft := typed s\<rparr> else s);
               s = s\<lparr>sh_history_position := sh_history_position s - 1\<rparr>
           in recall_line c (shell_history s ! sh_history_position s) s w)"

definition key_down :: "'w calls \<Rightarrow> 'w key_handler" where
  "key_down c s w =
     (if sh_history_position s \<ge> length (shell_history s) then Some ((None, s), w)
      else let s = s\<lparr>sh_history_position := sh_history_position s + 1\<rparr>
           in recall_line c (if sh_history_position s = length (shell_history s) then sh_draft s
                else shell_history s ! sh_history_position s) s w)"

definition key_backspace :: "'w calls \<Rightarrow> 'w key_handler" where
  "key_backspace c s w =
     (if sh_cursor s = 0 then Some ((None, s), w)
      else do {
        line \<leftarrow> copy_ascending (sh_length s - sh_cursor s) (sh_cursor s - 1) (sh_cursor s) (sh_line s);
        redraw c s (s\<lparr>sh_line := line, sh_cursor := sh_cursor s - 1, sh_length := sh_length s - 1\<rparr>) w
      })"

definition key_delete :: "'w calls \<Rightarrow> u8 \<Rightarrow> 'w key_handler" where
  "key_delete c character s w =
     (if sh_cursor s = sh_length s
      then (if character = 4 \<and> sh_length s = 0 then and_then (write_text c [0x0A]) (Some (shell_exit_status s), s) w
            else Some ((None, s), w))
      else do {
        line \<leftarrow> copy_ascending (sh_length s - (sh_cursor s + 1)) (sh_cursor s) (sh_cursor s + 1) (sh_line s);
        redraw c s (s\<lparr>sh_line := line, sh_length := sh_length s - 1\<rparr>) w
      })"

definition fresh_line :: "shell \<Rightarrow> shell" where
  "fresh_line s = s\<lparr>sh_length := 0, sh_cursor := 0, sh_draft := [], sh_history_position := length (shell_history s)\<rparr>"

definition key_interrupt :: "'w calls \<Rightarrow> 'w key_handler" where
  "key_interrupt c s = unless_failed (all_of [write_text c (text_line ''^C''), print_prompt c]) (fresh_line s)"

definition key_kill :: "'w calls \<Rightarrow> u8 \<Rightarrow> 'w key_handler" where
  "key_kill c character s w =
     (if character = 11 then redraw c s (s\<lparr>sh_length := sh_cursor s\<rparr>) w
      else do {
        line \<leftarrow> copy_ascending (sh_length s - sh_cursor s) 0 (sh_cursor s) (sh_line s);
        redraw c s (s\<lparr>sh_line := line, sh_length := sh_length s - sh_cursor s, sh_cursor := 0\<rparr>) w
      })"

definition key_clear :: "'w calls \<Rightarrow> 'w key_handler" where
  "key_clear c s = unless_failed (all_of [write_text c ([0x1B] @ bytes_of ''[2J'' @ [0x1B] @ bytes_of ''[H''), print_prompt c,
     write_buffer c (typed s), write_backspaces c (sh_length s - sh_cursor s)]) s"

definition key_enter :: "'w calls \<Rightarrow> 'w key_handler" where
  "key_enter c s w = do {
     (_, w) \<leftarrow> write_text c [0x0A] w;
     line \<leftarrow> array_put (sh_length s) 0 (sh_line s);
     let history = history_add (typed s) (shell_history s);
     ((result, status), w) \<leftarrow> run_line c line (shell_exit_status s) w;
     let s = fresh_line (s\<lparr>sh_line := line, shell_history := history, shell_exit_status := status\<rparr>);
     if result = SHELL_RUN_EXIT then Some ((Some status, s), w) else unless_failed (print_prompt c) s w
   }"

definition key_insert :: "'w calls \<Rightarrow> u8 \<Rightarrow> 'w key_handler" where
  "key_insert c character s w =
     (if sh_length s + 1 \<ge> SHELL_LINE_SIZE then Some ((None, s), w)
      else do {
        line \<leftarrow> copy_descending (sh_length s - sh_cursor s) (sh_cursor s + 1) (sh_cursor s) (sh_line s);
        line \<leftarrow> array_put (sh_cursor s) character line;
        let s' = s\<lparr>sh_line := line, sh_cursor := sh_cursor s + 1, sh_length := sh_length s + 1\<rparr>;
        if sh_cursor s = sh_length s then unless_failed (write_buffer c [character]) s' w else redraw c s s' w
      })"

definition handle_key :: "'w calls \<Rightarrow> u8 \<Rightarrow> 'w key_handler" where
  "handle_key c character =
     (if character = 0x80 then key_left c
      else if character = 0x81 then key_right c
      else if character = 0x84 \<or> character = 1 then key_home c
      else if character = 0x85 \<or> character = 5 then key_end c
      else if character = 0x82 then key_up c
      else if character = 0x83 then key_down c
      else if character = 0x08 then key_backspace c
      else if character = 0x7F \<or> character = 4 then key_delete c character
      else if character = 3 then key_interrupt c
      else if character = 11 \<or> character = 21 then key_kill c character
      else if character = 12 then key_clear c
      else if character = 0x0A then key_enter c
      else if character = 0x09 then complete_command c
      else if character < 0x20 \<or> character > 0x7E then (\<lambda>s w. Some ((None, s), w))
      else key_insert c character)"

partial_function (option) shell_loop :: "'w calls \<Rightarrow> shell \<Rightarrow> 'w \<Rightarrow> (int \<times> 'w) option" where
  "shell_loop c s w =
     Option.bind (sys_read c 0 1 w) (\<lambda>r. case r of ((result, bytes), w) \<Rightarrow>
       if result \<noteq> 1 then Some (1, w)
       else Option.bind (handle_key c (hd bytes) s w) (\<lambda>r. case r of ((ended, s), w) \<Rightarrow>
         case ended of Some status \<Rightarrow> Some (status, w) | None \<Rightarrow> shell_loop c s w))"

subsection \<open>The self test and the program\<close>

definition line_succeeds :: "'w calls \<Rightarrow> string \<Rightarrow> ('w, bool) program" where
  "line_succeeds c line w = map_option (\<lambda>((result, _), w). (result = 0, w)) (run_line c (bytes_of line @ [0]) 0 w)"

definition run_file_command_self_test :: "'w calls \<Rightarrow> ('w, bool) program" where
  "run_file_command_self_test c w = do {
     ((result, status), w) \<leftarrow> sys_stat c (bytes_of ''/p6-command-persist'') w;
     let regular = (result = 0 \<and> ms_mode status = MINIFS_MODE_REGULAR);
     (ok, w) \<leftarrow>
       (if result = - MINIOS_ENOENT \<or> regular \<and> ms_size status \<noteq> 35
        then all_of [line_succeeds c ''write /p6-command-persist [USER] command persistence payload'',
               write_text c (text_line ''[USER] command persistence created PASS'')] w
        else if regular \<and> ms_size status = 35
        then all_of [line_succeeds c ''cat /p6-command-persist'', write_text c (text_line ''[USER] command persistence verified PASS'')] w
        else Some (False, w));
     if \<not> ok then Some (False, w)
     else all_of (map (line_succeeds c)
       [''mkdir /p6-command-dir'', ''touch /p6-command-dir/file'', ''write /p6-command-dir/file file command data'',
        ''write -a /p6-command-dir/file appended data'', ''cat -n /p6-command-dir/file'', ''edit --self-test'',
        ''cp /p6-command-dir/file /p6-command-dir/copy'', ''stat /p6-command-dir/copy'', ''ls /p6-command-dir'',
        ''rm /p6-command-dir/file'', ''rm /p6-command-dir/copy'', ''rm /p6-command-dir''] @
       [write_text c (text_line ''[USER] file commands PASS'')]) w
   }"

definition completes_to :: "'w calls \<Rightarrow> string \<Rightarrow> (shell_completion \<Rightarrow> bool) \<Rightarrow> ('w, bool) program" where
  "completes_to c prefix P w = map_option (\<lambda>((ok, completion), w). (ok \<and> P completion, w)) (collect_command_matches c (bytes_of prefix) w)"

definition run_completion_self_test :: "'w calls \<Rightarrow> ('w, bool) program" where
  "run_completion_self_test c = all_of
     [completes_to c ''ec'' (\<lambda>completion. match_count completion = 1 \<and> minios_streq (common completion) (bytes_of ''echo'')),
      completes_to c ''hel'' (\<lambda>completion. match_count completion = 1 \<and> minios_streq (common completion) (bytes_of ''help'')),
      completes_to c ''c'' (\<lambda>completion. match_count completion \<ge> 2 \<and> length (common completion) = 1 \<and> common completion ! 0 = 0x63),
      write_text c (text_line ''[USER] shell completion PASS'')]"

definition shell_self_test :: "'w calls \<Rightarrow> ('w, int) program" where
  "shell_self_test c w = do {
     (ok, w) \<leftarrow> all_of
       [line_succeeds c ''help'', line_succeeds c ''echo [USER] shell command PASS'',
        (\<lambda>w. map_option (\<lambda>((result, _), w). (result = 0, w))
          (run_line c (bytes_of ''echo '' @ [0x22] @ bytes_of ''[USER] quoted shell command PASS'' @ [0x22, 0]) 0 w)),
        line_succeeds c ''cd /bin'', line_succeeds c ''./echo [USER] relative command PASS'', line_succeeds c ''cd /'',
        line_succeeds c ''ps'', write_text c (text_line ''[USER] ps PASS''), line_succeeds c ''sleep 0'', line_succeeds c ''uptime'',
        write_text c (text_line ''[USER] time commands PASS''), line_succeeds c ''memtest'', run_completion_self_test c,
        run_file_command_self_test c, write_text c (text_line ''[USER] shell self-test PASS'')] w;
     Some (if ok then 0 else 1, w)
   }"

definition shell_main :: "'w calls \<Rightarrow> u8 list list \<Rightarrow> ('w, int) program" where
  "shell_main c argv w =
     (if length argv = 2 \<and> minios_streq (argv ! 1) (bytes_of ''--self-test'') then shell_self_test c w
      else if length argv \<noteq> 1 then Some (2, w)
      else do {
        (ok, w) \<leftarrow> all_of [write_text c (text_line ''MiniOrangeOS shell''), print_prompt c] w;
        if \<not> ok then Some (1, w)
        else shell_loop c \<lparr>sh_line = replicate SHELL_LINE_SIZE 0, sh_length = 0, sh_cursor = 0, sh_draft = [], sh_history_position = 0,
               shell_history = [], shell_exit_status = 0\<rparr> w
      })"

end
