(* ===== verification/Shell_Correct.thy ===== *)
theory Shell_Correct
  imports Shell
begin

text \<open>
  The shell splits a line as a plain scanner would, although it does so in the buffer of the line itself.
\<close>

subsection \<open>A plain scanner\<close>

fun scan_word :: "u8 \<Rightarrow> u8 list \<Rightarrow> string + u8 \<times> u8 list \<times> u8 list" where
  "scan_word q [] = Inr (q, [], [])"
| "scan_word q (x # s) =
     (if q \<noteq> 0 \<and> x = q then scan_word 0 s
      else if q = 0 \<and> is_separator x then Inr (q, [], x # s)
      else if q = 0 \<and> (x = 0x27 \<or> x = 0x22) then scan_word x s
      else if (q = 0x22 \<or> q = 0) \<and> x = 0x5C
      then (case s of
              [] \<Rightarrow> Inl ''sh: trailing escape character''
            | y # s \<Rightarrow> map_sum id (\<lambda>(q, word, rest). (q, y # word, rest)) (scan_word q s))
      else map_sum id (\<lambda>(q, word, rest). (q, x # word, rest)) (scan_word q s))"

text \<open>The cases of a byte inside a word.\<close>

lemma byte_cases:
  obtains (close) "q \<noteq> 0" "x = q"
  | (separator) "q = 0" "is_separator x"
  | (quote) "q = 0" "x = 0x27 \<or> x = 0x22"
  | (escape) "q = 0x22 \<or> q = 0" "x = 0x5C"
  | (plain) "x \<noteq> q" "q = 0 \<longrightarrow> \<not> is_separator x \<and> x \<noteq> 0x27 \<and> x \<noteq> 0x22" "q = 0x22 \<or> q = 0 \<longrightarrow> x \<noteq> 0x5C"
  | (zero) "x = 0" "q = 0"
  by blast

lemma scan_word_at:
  "q \<noteq> 0 \<Longrightarrow> x = q \<Longrightarrow> scan_word q (x # s) = scan_word 0 s"
  "q = 0 \<Longrightarrow> is_separator x \<Longrightarrow> scan_word q (x # s) = Inr (q, [], x # s)"
  "q = 0 \<Longrightarrow> x = 0x27 \<or> x = 0x22 \<Longrightarrow> scan_word q (x # s) = scan_word x s"
  "q = 0x22 \<or> q = 0 \<Longrightarrow> x = 0x5C \<Longrightarrow> scan_word q (x # s) =
     (case s of [] \<Rightarrow> Inl ''sh: trailing escape character''
      | y # s \<Rightarrow> map_sum id (\<lambda>(q, word, rest). (q, y # word, rest)) (scan_word q s))"
  "x \<noteq> q \<Longrightarrow> q = 0 \<longrightarrow> \<not> is_separator x \<and> x \<noteq> 0x27 \<and> x \<noteq> 0x22 \<Longrightarrow> (q = 0x22 \<or> q = 0 \<longrightarrow> x \<noteq> 0x5C) \<Longrightarrow>
     scan_word q (x # s) = map_sum id (\<lambda>(q, word, rest). (q, x # word, rest)) (scan_word q s)"
  by (auto simp: is_separator_def)

text \<open>
  What the loop of the shell yields on a buffer whose unread part is \<open>rest\<close>: the outcome of the scanner, with the word behind
  what was already written and the unread part untouched.
\<close>

definition word_result :: "u8 list \<Rightarrow> nat \<Rightarrow> u8 list \<Rightarrow> nat \<Rightarrow> (string + u8 \<times> u8 list \<times> u8 list) \<Rightarrow> (string + u8 \<times> nat \<times> nat \<times> u8 list) option \<Rightarrow> bool" where
  "word_result junk w written n scanned result \<longleftrightarrow>
     (case scanned of
        Inl message \<Rightarrow> result = Some (Inl message)
      | Inr (q, word, rest) \<Rightarrow> \<exists>pre. result = Some (Inr (q, length pre, w + length word, pre @ rest @ 0 # junk)) \<and>
          take (w + length word) pre = written @ word \<and> length pre + length rest = n \<and> w + length word \<le> length pre)"

lemma word_result_put:
  assumes "word_result junk (w + 1) (written @ [y]) n scanned result"
  shows "word_result junk w written n (map_sum id (\<lambda>(q, word, rest). (q, y # word, rest)) scanned) result"
  using assms by (auto simp: word_result_def split: sum.splits)

lemma array_put_written:
  assumes "w < length pre"
  shows "array_put w y (pre @ rest) = Some (pre[w := y] @ rest)" and "take (w + 1) (pre[w := y]) = take w pre @ [y]"
  using assms by (simp_all add: array_put_def list_update_append take_Suc_conv_app_nth)

lemma word_loop_scan:
  assumes "0 \<notin> set rest" and "w \<le> length pre"
  shows "word_result junk w (take w pre) (length pre + length rest) (scan_word q rest) (word_loop (pre @ rest @ 0 # junk) (length pre) w q)"
  using assms
proof (induction "length rest" arbitrary: rest pre w q rule: less_induct)
  case less
  show ?case
  proof (cases rest)
    case Nil
    then have "array_get (length pre) (pre @ rest @ 0 # junk) = Some 0" by (simp add: array_get_def)
    from word_loop_at(1) [OF this] show ?thesis using Nil less.prems by (simp add: word_result_def)
  next
    case (Cons x s)
    have x: "x \<noteq> 0" "0 \<notin> set s" using less.prems(1) Cons by auto
    have get: "array_get (length pre) (pre @ rest @ 0 # junk) = Some x" by (simp add: array_get_def Cons nth_append)
    note at = word_loop_at [OF get, where w = w and q = q]
    have step: "word_result junk w (take w pre') (length pre + length rest) (scan_word q2 s2) (word_loop (pre' @ s2 @ 0 # junk) (length pre') w q2)"
      if "length s2 < length rest" "0 \<notin> set s2" "w \<le> length pre'" "length pre' + length s2 = length pre + length rest" for pre' s2 w q2
      using less.hyps [OF that(1) that(2,3), of q2] that(4) by simp
    show ?thesis
    proof (cases rule: byte_cases [where q = q and x = x])
      case close
      show ?thesis
        unfolding at(2) [OF x(1) close] unfolding Cons scan_word_at(1) [OF close] using step [of s w "pre @ [x]" 0] x less.prems(2) by (simp add: Cons)
    next
      case separator
      show ?thesis
        unfolding at(3) [OF x(1) separator] unfolding Cons scan_word_at(2) [OF separator] using less.prems(2) by (simp add: word_result_def)
    next
      case quote
      show ?thesis
        unfolding at(4) [OF quote] unfolding Cons scan_word_at(3) [OF quote] using step [of s w "pre @ [x]" x] x less.prems(2) by (simp add: Cons)
    next
      case escape
      show ?thesis
      proof (cases s)
        case Nil
        then have "array_get (length pre + 1) (pre @ rest @ 0 # junk) = Some 0" by (simp add: array_get_def Cons nth_append)
        then show ?thesis unfolding at(5) [OF escape] unfolding Cons scan_word_at(4) [OF escape] Nil by (simp add: word_result_def)
      next
        case s: (Cons y s')
        let ?pre = "(pre @ [x, y])[w := y]"
        have get2: "array_get (length pre + 1) (pre @ rest @ 0 # junk) = Some y" by (simp add: array_get_def Cons s nth_append)
        have put: "array_put w y (pre @ rest @ 0 # junk) = Some (?pre @ s' @ 0 # junk)"
          using array_put_written(1) [of w "pre @ [x, y]" y "s' @ 0 # junk"] less.prems(2) by (simp add: Cons s)
        have "take (w + 1) ?pre = take w pre @ [y]" using array_put_written(2) [of w "pre @ [x, y]" y] less.prems(2) by simp
        then have "word_result junk (w + 1) (take w pre @ [y]) (length pre + length rest) (scan_word q s') (word_loop (?pre @ s' @ 0 # junk) (length pre + 2) (w + 1) q)"
          using step [of s' "w + 1" ?pre q] x less.prems(2) by (simp add: Cons s)
        from word_result_put [OF this] show ?thesis
          unfolding at(5) [OF escape] get2 put unfolding Cons scan_word_at(4) [OF escape] s using x s put by (simp add: Cons)
      qed
    next
      case plain
      let ?pre = "(pre @ [x])[w := x]"
      have put: "array_put w x (pre @ rest @ 0 # junk) = Some (?pre @ s @ 0 # junk)"
        using array_put_written(1) [of w "pre @ [x]" x "s @ 0 # junk"] less.prems(2) by (simp add: Cons)
      have "take (w + 1) ?pre = take w pre @ [x]" using array_put_written(2) [of w "pre @ [x]" x] less.prems(2) by simp
      then have "word_result junk (w + 1) (take w pre @ [x]) (length pre + length rest) (scan_word q s) (word_loop (?pre @ s @ 0 # junk) (length pre + 1) (w + 1) q)"
        using step [of s "w + 1" ?pre q] x less.prems(2) by (simp add: Cons)
      from word_result_put [OF this] show ?thesis
        unfolding at(6) [OF x(1) plain] put unfolding Cons scan_word_at(5) [OF plain] by simp
    qed (use x in simp)
  qed
qed

lemma map_sum_Inr: "map_sum f g r = Inr y \<longleftrightarrow> (\<exists>x. r = Inr x \<and> y = g x)"
  by (cases r) auto

lemma scan_word_parts:
  assumes "scan_word q s = Inr (q', word, rest)"
  shows "set word \<subseteq> set s \<and> set rest \<subseteq> set s \<and> (rest = [] \<or> is_separator (hd rest))"
  using assms
proof (induction "length s" arbitrary: q s word rule: less_induct)
  case less
  show ?case
  proof (cases s)
    case Nil
    then show ?thesis using less.prems by simp
  next
    case (Cons x t)
    have hyp: "set word' \<subseteq> set t' \<and> set rest \<subseteq> set t' \<and> (rest = [] \<or> is_separator (hd rest))"
      if "scan_word q2 t' = Inr (q', word', rest)" "length t' < length s" for q2 t' word'
      using less.hyps [OF that(2,1)] .
    show ?thesis
    proof (cases rule: byte_cases [where q = q and x = x])
      case close
      show ?thesis using less.prems hyp unfolding Cons scan_word_at(1) [OF close] by fastforce
    next
      case separator
      show ?thesis using less.prems separator unfolding Cons scan_word_at(2) [OF separator] by auto
    next
      case quote
      show ?thesis using less.prems hyp unfolding Cons scan_word_at(3) [OF quote] by fastforce
    next
      case escape
      show ?thesis using less.prems hyp unfolding Cons scan_word_at(4) [OF escape] by (fastforce simp: map_sum_Inr split: list.splits)
    next
      case plain
      show ?thesis using less.prems hyp unfolding Cons scan_word_at(5) [OF plain] by (fastforce simp: map_sum_Inr)
    next
      case zero
      then have "scan_word q (x # t) = map_sum id (\<lambda>(q, word, rest). (q, x # word, rest)) (scan_word q t)" by (simp add: is_separator_def)
      then show ?thesis using less.prems hyp unfolding Cons by (fastforce simp: map_sum_Inr)
    qed
  qed
qed

text \<open>The scanner of a whole line that may have \<open>k\<close> arguments.\<close>

fun scan_line :: "nat \<Rightarrow> u8 list \<Rightarrow> string + u8 list list" where
  "scan_line 0 s = (if dropWhile is_separator s = [] then Inr [] else Inl ''sh: too many arguments'')"
| "scan_line (Suc k) s =
     (if dropWhile is_separator s = [] then Inr []
      else case scan_word 0 (dropWhile is_separator s) of
             Inl message \<Rightarrow> Inl message
           | Inr (q, word, rest) \<Rightarrow>
               if q \<noteq> 0 then Inl ''sh: unterminated quote'' else map_sum id (\<lambda>words. word # words) (scan_line k rest))"

lemma scan_line_skip: "scan_line k (dropWhile is_separator s) = scan_line k s"
  by (cases k) simp_all

lemma skip_separators_scan:
  "skip_separators (pre @ rest @ 0 # junk) (length pre) = Some (length pre + length (takeWhile is_separator rest))"
proof (induction rest arbitrary: pre)
  case Nil
  show ?case by (subst skip_separators.simps) (simp add: array_get_def is_separator_def)
next
  case (Cons x rest)
  show ?case
    using Cons [of "pre @ [x]"] by (subst skip_separators.simps) (simp add: array_get_def nth_append)
qed

definition line_result ::
  "nat \<Rightarrow> u8 list \<Rightarrow> nat list \<Rightarrow> string + u8 list list \<Rightarrow> (string + nat list \<times> u8 list) option \<Rightarrow> bool" where
  "line_result w written arguments scanned result \<longleftrightarrow>
     (case scanned of
        Inl message \<Rightarrow> result = Some (Inl message)
      | Inr words \<Rightarrow> \<exists>offsets line. result = Some (Inr (arguments @ offsets, line)) \<and> take w line = written \<and>
          map (\<lambda>offset. c_string (drop offset line)) offsets = words)"

text \<open>An argument that was written and terminated stays where it is.\<close>

lemma line_result_word:
  assumes "line_result (w + length word + 1) (written @ word @ [0]) (arguments @ [w]) scanned result"
    and "length written = w" and "0 \<notin> set word"
  shows "line_result w written arguments (map_sum id (\<lambda>words. word # words) scanned) result"
proof (cases scanned)
  case (Inr words)
  with assms(1) obtain offsets line where line: "result = Some (Inr (arguments @ w # offsets, line))"
    "take (w + length word + 1) line = written @ word @ [0]" "map (\<lambda>offset. c_string (drop offset line)) offsets = words"
    by (auto simp: line_result_def)
  obtain more where more: "line = written @ word @ [0] @ more"
    using line(2) append_take_drop_id [of "w + length word + 1" line] by (metis append.assoc)
  then have "take w line = written" "c_string (drop w line) = word"
    using assms(2,3) by (auto simp: c_string_def takeWhile_tail)
  then show ?thesis using line Inr by (auto simp: line_result_def)
qed (use assms(1) in \<open>simp add: line_result_def\<close>)

text \<open>The outer loop at a point of the line.\<close>

lemma parse_loop_at:
  fixes pre rest junk :: "u8 list"
  defines "blanks \<equiv> takeWhile is_separator rest" and "tail \<equiv> dropWhile is_separator rest"
  assumes "0 \<notin> set rest"
  shows "parse_loop (pre @ rest @ 0 # junk) (length pre) w arguments =
     (if tail = [] then Some (Inr (arguments, pre @ rest @ 0 # junk))
      else if length arguments \<ge> SHELL_ARGUMENT_LIMIT then Some (Inl ''sh: too many arguments'')
      else Option.bind (word_loop ((pre @ blanks) @ tail @ 0 # junk) (length (pre @ blanks)) w 0) (\<lambda>r.
        case r of
          Inl message \<Rightarrow> Some (Inl message)
        | Inr (quote, cursor', write_cursor', line') \<Rightarrow>
            if quote \<noteq> 0 then Some (Inl ''sh: unterminated quote'')
            else Option.bind (skip_separators line' cursor') (\<lambda>cursor''.
              Option.bind (array_put write_cursor' 0 line') (\<lambda>line''.
                parse_loop line'' cursor'' (write_cursor' + 1) (arguments @ [w])))))"
proof -
  have rest: "rest = blanks @ tail" unfolding blanks_def tail_def by simp
  have first: "array_get (length pre) (pre @ rest @ 0 # junk) = Some (if rest = [] then 0 else hd rest)"
    by (cases rest) (simp_all add: array_get_def nth_append)
  have next1: "array_get (length pre + length blanks) (pre @ rest @ 0 # junk) = Some (if tail = [] then 0 else hd tail)"
    unfolding rest by (cases tail) (simp_all add: array_get_def nth_append)
  have skip: "skip_separators (pre @ rest @ 0 # junk) (length pre) = Some (length pre + length blanks)"
    unfolding blanks_def by (rule skip_separators_scan)
  have nonzero: "hd rest \<noteq> 0" if "rest \<noteq> []" using that assms(3) hd_in_set by fastforce
  have tail: "hd tail \<noteq> 0" if "tail \<noteq> []" using that assms(3) hd_in_set [OF that] rest by (metis Un_iff set_append)
  have same: "(pre @ blanks) @ tail @ 0 # junk = pre @ rest @ 0 # junk" unfolding rest by simp
  have empty: "tail = []" if "rest = []" using that rest by simp
  show ?thesis
    unfolding same by (subst parse_loop.simps) (simp add: first skip next1 nonzero tail empty cong: option.case_cong)
qed

lemma terminate_word:
  fixes pre rest junk :: "u8 list"
  defines "blanks \<equiv> takeWhile is_separator rest" and "tail \<equiv> dropWhile is_separator rest"
  assumes "rest = [] \<or> is_separator (hd rest)" and "m \<le> length pre"
  obtains pre' where "array_put m 0 (pre @ rest @ 0 # junk) = Some (pre' @ tail @ 0 # junk)" and "length pre' = length pre + length blanks"
    and "take (m + 1) (pre' @ tail @ 0 # junk) = take m pre @ [0]" and "m + 1 \<le> length pre' \<or> tail = []"
proof -
  have rest: "rest = blanks @ tail" unfolding blanks_def tail_def by simp
  have room: "m < length (pre @ blanks) \<or> rest = []"
    using assms(3,4) unfolding blanks_def by (cases rest) auto
  show thesis
  proof (rule that [of "(pre @ blanks)[m := 0]"])
    show "array_put m 0 (pre @ rest @ 0 # junk) = Some ((pre @ blanks)[m := 0] @ tail @ 0 # junk)"
      using room assms(4) unfolding rest array_put_def
      by (auto simp: list_update_append)
    show "take (m + 1) ((pre @ blanks)[m := 0] @ tail @ 0 # junk) = take m pre @ [0]"
      using room assms(4) unfolding rest by (auto simp: take_Suc_conv_app_nth list_update_append Suc_le_eq)
    show "m + 1 \<le> length ((pre @ blanks)[m := 0]) \<or> tail = []" using room unfolding rest by auto
  qed simp
qed

lemma parse_loop_word:
  fixes pre rest junk :: "u8 list"
  assumes "0 \<notin> set rest" and "dropWhile is_separator rest \<noteq> []" and w: "w \<le> length pre"
    and "length arguments < SHELL_ARGUMENT_LIMIT"
  shows "case scan_word 0 (dropWhile is_separator rest) of
      Inl message \<Rightarrow> parse_loop (pre @ rest @ 0 # junk) (length pre) w arguments = Some (Inl message)
    | Inr (q, word, left) \<Rightarrow>
        if q \<noteq> 0 then parse_loop (pre @ rest @ 0 # junk) (length pre) w arguments = Some (Inl ''sh: unterminated quote'')
        else \<exists>pre'. parse_loop (pre @ rest @ 0 # junk) (length pre) w arguments =
               parse_loop (pre' @ dropWhile is_separator left @ 0 # junk) (length pre') (w + length word + 1) (arguments @ [w]) \<and>
             take (w + length word + 1) (pre' @ dropWhile is_separator left @ 0 # junk) = take w pre @ word @ [0] \<and>
             (w + length word + 1 \<le> length pre' \<or> dropWhile is_separator left = [])"
proof -
  define blanks tail where tail: "blanks = takeWhile is_separator rest" "tail = dropWhile is_separator rest"
  have limit: "\<not> length arguments \<ge> SHELL_ARGUMENT_LIMIT" using assms(4) by simp
  note at = parse_loop_at [OF assms(1), folded tail, where arguments = arguments, unfolded if_not_P [OF assms(2) [folded tail]] if_not_P [OF limit]]
  have "0 \<notin> set tail" unfolding tail using assms(1) by (auto dest: set_dropWhileD)
  then have word: "word_result junk w (take w pre) (length (pre @ blanks) + length tail) (scan_word 0 tail)
      (word_loop ((pre @ blanks) @ tail @ 0 # junk) (length (pre @ blanks)) w 0)"
    using word_loop_scan [of tail w "pre @ blanks" junk 0] w by simp
  show ?thesis
  proof (cases "scan_word 0 tail")
    case (Inl message)
    then show ?thesis using word by (simp add: at tail(2) [symmetric] word_result_def)
  next
    case (Inr r)
    then obtain q arg left where r: "scan_word 0 tail = Inr (q, arg, left)" by (cases r) auto
    with word obtain pre2 where
      pre2: "word_loop ((pre @ blanks) @ tail @ 0 # junk) (length (pre @ blanks)) w 0 =
        Some (Inr (q, length pre2, w + length arg, pre2 @ left @ 0 # junk))"
      "take (w + length arg) pre2 = take w pre @ arg" "w + length arg \<le> length pre2"
      by (auto simp: word_result_def)
    obtain pre3 where pre3: "array_put (w + length arg) 0 (pre2 @ left @ 0 # junk) = Some (pre3 @ dropWhile is_separator left @ 0 # junk)"
      "length pre3 = length pre2 + length (takeWhile is_separator left)"
      "take (w + length arg + 1) (pre3 @ dropWhile is_separator left @ 0 # junk) = take w pre @ arg @ [0]"
      "w + length arg + 1 \<le> length pre3 \<or> dropWhile is_separator left = []"
      using terminate_word [of left "w + length arg" pre2 junk] scan_word_parts [OF r] pre2(2,3) by auto
    have "parse_loop (pre @ rest @ 0 # junk) (length pre) w arguments =
        parse_loop (pre3 @ dropWhile is_separator left @ 0 # junk) (length pre3) (w + length arg + 1) (arguments @ [w])" if "q = 0"
      unfolding at pre2(1) using that pre3(1,2) by (simp add: skip_separators_scan)
    moreover have "parse_loop (pre @ rest @ 0 # junk) (length pre) w arguments = Some (Inl ''sh: unterminated quote'')" if "q \<noteq> 0"
      unfolding at pre2(1) using that by simp
    ultimately show ?thesis
      unfolding tail(2) [symmetric] r sum.case prod.case using pre3(3,4) by (metis (no_types))
  qed
qed

lemma parse_loop_scan:
  assumes "0 \<notin> set rest" and "w \<le> length pre \<or> dropWhile is_separator rest = []" and "length arguments + k = SHELL_ARGUMENT_LIMIT"
  shows "line_result w (take w (pre @ rest @ 0 # junk)) arguments (scan_line k rest)
    (parse_loop (pre @ rest @ 0 # junk) (length pre) w arguments)"
  using assms
proof (induction k arbitrary: rest pre w arguments)
  case 0
  then show ?case by (simp add: parse_loop_at line_result_def)
next
  case (Suc k)
  show ?case
  proof (cases "dropWhile is_separator rest = []")
    case True
    then show ?thesis using Suc.prems(1) by (simp add: parse_loop_at line_result_def)
  next
    case False
    then have w: "w \<le> length pre" and "length arguments < SHELL_ARGUMENT_LIMIT" using Suc.prems(2,3) by auto
    note word = parse_loop_word [OF Suc.prems(1) False this, of junk]
    show ?thesis
    proof (cases "\<exists>arg left. scan_word 0 (dropWhile is_separator rest) = Inr (0, arg, left)")
      case False
      then show ?thesis
        using word \<open>dropWhile is_separator rest \<noteq> []\<close> by (auto simp: line_result_def split: sum.splits prod.splits if_splits)
    next
      case True
      then obtain arg left where r: "scan_word 0 (dropWhile is_separator rest) = Inr (0, arg, left)" by blast
      then have parts: "0 \<notin> set arg" "0 \<notin> set (dropWhile is_separator left)"
        using scan_word_parts [OF r] Suc.prems(1) by (auto dest: set_dropWhileD)
      obtain pre' where pre': "parse_loop (pre @ rest @ 0 # junk) (length pre) w arguments =
            parse_loop (pre' @ dropWhile is_separator left @ 0 # junk) (length pre') (w + length arg + 1) (arguments @ [w])"
          "take (w + length arg + 1) (pre' @ dropWhile is_separator left @ 0 # junk) = take w pre @ arg @ [0]"
          "w + length arg + 1 \<le> length pre' \<or> dropWhile is_separator left = []"
        using word r by auto
      have "line_result (w + length arg + 1) (take w pre @ arg @ [0]) (arguments @ [w]) (scan_line k left)
          (parse_loop (pre @ rest @ 0 # junk) (length pre) w arguments)"
        using Suc.IH [of "dropWhile is_separator left" "w + length arg + 1" pre' "arguments @ [w]"] parts(2) pre' Suc.prems(3)
        by (simp add: scan_line_skip)
      from line_result_word [OF this _ parts(1)] show ?thesis
        using w r \<open>dropWhile is_separator rest \<noteq> []\<close> by auto
    qed
  qed
qed

text \<open>A quoted argument.\<close>

definition quoted :: "u8 list \<Rightarrow> u8 list" where
  "quoted word = [0x27] @ word @ [0x27, 0x20]"

lemma scan_word_quoted:
  assumes "0x27 \<notin> set word"
  shows "scan_word 0x27 (word @ 0x27 # s) = map_sum id (\<lambda>(q, w, rest). (q, word @ w, rest)) (scan_word 0 s)"
  using assms
proof (induction word)
  case Nil
  then show ?case by (simp add: sum.map_ident case_prod_beta map_sum.id)
next
  case (Cons x word)
  then show ?case by (cases "scan_word 0 s") auto
qed

lemma scan_line_quoted:
  assumes "\<forall>word\<in>set words. 0x27 \<notin> set word" and "length words \<le> k"
  shows "scan_line k (concat (map quoted words)) = Inr words"
  using assms
proof (induction words arbitrary: k)
  case Nil
  show ?case by (cases k) simp_all
next
  case (Cons word words)
  then obtain j where k: "k = Suc j" by (cases k) auto
  have "scan_line j (0x20 # concat (map quoted words)) = Inr words"
    using Cons k scan_line_skip [of j "0x20 # concat (map quoted words)"] scan_line_skip [of j "concat (map quoted words)"]
    by (simp add: is_separator_def)
  moreover have "concat (map quoted (word # words)) = 0x27 # word @ 0x27 # 0x20 # concat (map quoted words)" by (simp add: quoted_def)
  ultimately show ?case using Cons.prems k by (simp only:) (simp add: is_separator_def scan_word_quoted)
qed

text \<open>
  C24. Splitting a line in its own buffer gives what a plain scanner gives on an immutable copy of it: the same error, or the
  offsets of strings that are the words of the scanner. No byte is overwritten before it is read, and no byte outside the buffer
  is accessed; what the buffer holds behind the line does not matter.
\<close>

theorem parse_line_equivalent:
  assumes "0 \<notin> set line"
  shows "case scan_line SHELL_ARGUMENT_LIMIT line of
      Inl message \<Rightarrow> parse_line c (line @ 0 # junk) w = and_then (minios_print c 2 (text_line message)) None w
    | Inr words \<Rightarrow> \<exists>offsets line'. parse_line c (line @ 0 # junk) w = Some (Some (offsets, line'), w) \<and>
        map (\<lambda>offset. c_string (drop offset line')) offsets = words"
  using parse_loop_scan [OF assms, of 0 "[]" "[]" SHELL_ARGUMENT_LIMIT junk]
  by (auto simp: line_result_def parse_line_def split: sum.splits)

theorem parse_line_equivalent_witness:
  "let line = bytes_of ''cp 'a b' c''
   in 0 \<notin> set line \<and> scan_line 16 line = Inr [bytes_of ''cp'', bytes_of ''a b'', bytes_of ''c''] \<and>
     (\<exists>offsets line'. parse_line quiet_calls (line @ 0 # [7]) () = Some (Some (offsets, line'), ()) \<and>
        map (\<lambda>offset. c_string (drop offset line')) offsets = [bytes_of ''cp'', bytes_of ''a b'', bytes_of ''c''])"
proof -
  let ?line = "bytes_of ''cp 'a b' c''"
  have zero: "0 \<notin> set ?line" by (simp add: bytes_of_def)
  have scan: "scan_line 16 ?line = Inr [bytes_of ''cp'', bytes_of ''a b'', bytes_of ''c'']" by code_simp
  show ?thesis using parse_line_equivalent [OF zero, of quiet_calls "[7]" "()"] zero scan by (simp add: Let_def)
qed

text \<open>
  C25. Quoting is undone by splitting: up to sixteen words without quote characters, each written between single quotes, are given
  back by the shell, whatever separators, escapes or double quotes they hold.
\<close>

theorem quoted_words_roundtrip:
  assumes "\<forall>word\<in>set words. 0x27 \<notin> set word \<and> 0 \<notin> set word" and "length words \<le> 16"
  shows "\<exists>offsets line'. parse_line c (concat (map quoted words) @ 0 # junk) w = Some (Some (offsets, line'), w) \<and>
    map (\<lambda>offset. c_string (drop offset line')) offsets = words"
proof -
  have "scan_line SHELL_ARGUMENT_LIMIT (concat (map quoted words)) = Inr words"
    using scan_line_quoted assms by simp
  moreover have "0 \<notin> set (concat (map quoted words))" using assms(1) by (auto simp: quoted_def)
  ultimately show ?thesis using parse_loop_scan [of "concat (map quoted words)" 0 "[]" "[]" SHELL_ARGUMENT_LIMIT junk]
    by (auto simp: line_result_def parse_line_def)
qed

theorem quoted_words_roundtrip_witness:
  "\<exists>offsets line'. parse_line quiet_calls (concat (map quoted [bytes_of ''a b'', []]) @ 0 # []) () = Some (Some (offsets, line'), ()) \<and>
    map (\<lambda>offset. c_string (drop offset line')) offsets = [bytes_of ''a b'', []]"
  by (rule quoted_words_roundtrip) (simp_all add: bytes_of_def)

end
