(* ===== verification/Shell_Display.thy ===== *)
theory Shell_Display
  imports Shell Console
begin

text \<open>
  The line the shell edits is the line on the screen. The contract of a terminal is a locale; the console of the kernel provides
  it, and the keys of the shell are proved over it to edit, and to show, the text as a list of bytes with a cursor.
\<close>

abbreviation printable :: "u8 list \<Rightarrow> bool" where
  "printable bytes \<equiv> list_all (\<lambda>x. 0x20 \<le> x \<and> x \<le> 0x7E) bytes"

text \<open>Removing bytes from the text in a buffer, and inserting one.\<close>

lemma close_gap:
  assumes "a \<le> b" "b \<le> n" "n \<le> length line" "m + b = n + a"
  shows "\<exists>line'. copy_ascending (n - b) a b line = Some line' \<and> length line' = length line \<and>
    take m line' = take a (take n line) @ drop b (take n line)"
proof -
  obtain k where n: "n = b + k" using assms(2) le_Suc_ex by blast
  then have m: "m = a + k" using assms(4) by simp
  let ?line = "take a line @ take k (drop b line) @ drop (a + k) line"
  have "take m ?line = take a line @ take k (drop b line)" using assms n m by simp
  then show ?thesis using copy_ascending_spec [of a b k line] assms n by (simp add: drop_take)
qed

lemma open_gap:
  assumes "a \<le> n" "n < length line"
  shows "\<exists>line' line''. copy_descending (n - a) (a + 1) a line = Some line' \<and> array_put a x line' = Some line'' \<and>
    length line'' = length line \<and> take (n + 1) line'' = take a (take n line) @ [x] @ drop a (take n line)"
proof -
  obtain k where n: "n = a + k" using assms(1) le_Suc_ex by blast
  have a: "take (Suc a) line = take a line @ [line ! a]" using assms n by (simp add: take_Suc_conv_app_nth)
  show ?thesis
    using copy_descending_spec [of a "a + 1" k line] assms n
    by (auto simp: array_put_def drop_take a list_update_append)
qed

lemma printable_parts: "printable t \<Longrightarrow> printable (take n t)" "printable t \<Longrightarrow> printable (drop n t)"
  by (metis append_take_drop_id list_all_append)+

lemma printable_insert: "printable t \<Longrightarrow> 0x20 \<le> x \<Longrightarrow> x \<le> 0x7E \<Longrightarrow> printable (take n t @ [x] @ drop n t)"
  using printable_parts by simp

lemma printable_byte:
  assumes "0x20 \<le> x" "x \<le> 0x7E"
  shows "(x :: u8) \<notin> {0x80, 0x81, 0x82, 0x83, 0x84, 0x85, 0x7F, 0x08, 1, 3, 4, 5, 9, 10, 11, 12, 21}"
  using assms by (auto simp: word_le_nat_alt)

subsection \<open>The contract of a terminal\<close>

text \<open>
  The screen as its 25 rows of 80 cells one after the other, with the place of the cursor. A byte that is shown takes the cell at the cursor,
  which goes on; behind the last cell the rows move up by one and the last one is blank.
\<close>

type_synonym page = "u8 list \<times> nat"

definition put_byte :: "u8 \<Rightarrow> page \<Rightarrow> page" where
  "put_byte x = (\<lambda>(cells, p). if p + 1 = 2000 then (drop 80 (cells[p := x]) @ replicate 80 0x20, 1920) else (cells[p := x], p + 1))"

text \<open>How many rows have moved out of the screen once so many bytes have been written.\<close>

definition rows_out :: "nat \<Rightarrow> nat" where
  "rows_out n = n div 80 - 24"

lemma rows_out_fits: "n < 2000 \<Longrightarrow> rows_out n = 0" "80 * rows_out n \<le> n" "n - 80 * rows_out n < 2000"
proof -
  have n: "n = 80 * (n div 80) + n mod 80" "n mod 80 < 80" by simp_all
  show "n < 2000 \<Longrightarrow> rows_out n = 0" "80 * rows_out n \<le> n" "n - 80 * rows_out n < 2000"
    using n unfolding rows_out_def by linarith+
qed

lemma rows_out_Suc: "rows_out (Suc n) = (if n - 80 * rows_out n = 1999 then Suc (rows_out n) else rows_out n)"
proof -
  have n: "n = 80 * (n div 80) + n mod 80" "n mod 80 < 80" by simp_all
  have s: "Suc n div 80 = (if n mod 80 = 79 then Suc (n div 80) else n div 80)" by (simp add: div_Suc mod_Suc)
  show ?thesis
  proof (cases "n div 80 \<ge> 24")
    case True
    then have "n - 80 * rows_out n = 1920 + n mod 80" using n unfolding rows_out_def by linarith
    then show ?thesis using True unfolding s rows_out_def by auto
  next
    case False
    then have "rows_out n = 0" "n < 1920" using n unfolding rows_out_def by linarith+
    then show ?thesis using False unfolding s rows_out_def by auto
  qed
qed

text \<open>The screen after the bytes \<open>out\<close>, with \<open>below\<close> in the cells behind them as long as no row has moved.\<close>

definition typed_page :: "u8 list \<Rightarrow> u8 list \<Rightarrow> page" where
  "typed_page out below = (let k = 80 * rows_out (length out) in
     (drop k out @ (if k = 0 then below else replicate (2000 - (length out - k)) 0x20), length out - k))"

lemma put_byte_page:
  assumes "length out + length below = 2000 \<or> 2000 \<le> length out"
  shows "put_byte x (typed_page out below) = typed_page (out @ [x]) (tl below)"
proof -
  define k where "k = 80 * rows_out (length out)"
  define rest where "rest = (if k = 0 then below else replicate (2000 - (length out - k)) 0x20)"
  note fits = rows_out_fits [of "length out", folded k_def]
  have k: "k = 0 \<longleftrightarrow> length out < 2000"
    using fits(1,3) by (cases "k = 0") (auto simp: k_def)
  have page: "typed_page out below = (drop k out @ rest, length out - k)" by (simp add: typed_page_def k_def rest_def Let_def)
  have len: "length rest = 2000 - (length out - k)" using assms k by (auto simp: rest_def)
  then obtain y ys where rest: "rest = y # ys" using fits(3) by (cases rest) auto
  have upd: "(drop k out @ rest)[length out - k := x] = drop k (out @ [x]) @ ys"
    using fits(2) by (simp add: rest list_update_append)
  show ?thesis
  proof (cases "length out - k = 1999")
    case True
    then have r: "80 * rows_out (length (out @ [x])) = 80 + k" using rows_out_Suc [of "length out"] by (simp add: k_def)
    have "ys = []" using len True rest by simp
    moreover have "length (out @ [x]) - (80 + k) = 1920" using True by simp
    ultimately show ?thesis unfolding page unfolding put_byte_def typed_page_def Let_def r prod.case upd using True by simp
  next
    case False
    then have r: "80 * rows_out (length (out @ [x])) = k" using rows_out_Suc [of "length out"] by (simp add: k_def)
    have "ys = (if k = 0 then tl below else replicate (2000 - (length (out @ [x]) - k)) 0x20)"
    proof (cases "k = 0")
      case True
      then show ?thesis using rest by (simp add: rest_def)
    next
      case False
      then have "replicate (2000 - (length out - k)) 0x20 = y # ys" using rest by (simp add: rest_def)
      then have "ys = replicate (2000 - (length out - k) - 1) 0x20" by (metis length_tl length_replicate list.sel(3) tl_replicate)
      then show ?thesis using False fits(2) by (simp add: Suc_diff_le)
    qed
    then show ?thesis unfolding page unfolding put_byte_def typed_page_def Let_def r prod.case upd using False fits(2) by (simp add: Suc_diff_le)
  qed
qed

lemma put_bytes_page:
  assumes "length out + length below = 2000 \<or> 2000 \<le> length out"
  shows "fold put_byte bytes (typed_page out below) = typed_page (out @ bytes) (drop (length bytes) below)"
  using assms
proof (induction bytes arbitrary: out below)
  case (Cons x bytes)
  have "length (out @ [x]) + length (tl below) = 2000 \<or> 2000 \<le> length (out @ [x])" using Cons.prems by (cases below) auto
  from Cons.IH [OF this] show ?case using put_byte_page [OF Cons.prems] by (simp add: drop_Suc)
qed simp
text \<open>Printable bytes are put one after the other; a backspace only moves the cursor.\<close>

locale terminal =
  fixes c :: "'w calls" and ready :: "'w \<Rightarrow> bool" and page :: "'w \<Rightarrow> page"
  assumes write_printable: "ready w \<Longrightarrow> printable bytes \<Longrightarrow>
      \<exists>w'. sys_write c 1 bytes w = Some (int (length bytes), w') \<and> ready w' \<and> page w' = fold put_byte bytes (page w)"
    and write_backspace: "ready w \<Longrightarrow> page w = (cells, Suc p) \<Longrightarrow>
      \<exists>w'. sys_write c 1 [0x08] w = Some (1, w') \<and> ready w' \<and> page w' = (cells, p)"
begin

text \<open>A step that succeeds and leaves the terminal ready with this page.\<close>

definition leaves :: "('w, bool) program \<Rightarrow> 'w \<Rightarrow> page \<Rightarrow> bool" where
  "leaves p w pg \<longleftrightarrow> (\<exists>w'. p w = Some (True, w') \<and> ready w' \<and> page w' = pg)"

lemma print_one: "sys_write c 1 [x] w = Some (1, w') \<Longrightarrow> write_text c [x] w = Some (True, w')"
  unfolding write_text_def minios_print_def minios_write_all_def
  by (subst write_all_loop.simps) (simp add: Let_def, subst write_all_loop.simps, simp)

lemma buffer_leaves: "ready w \<Longrightarrow> printable bytes \<Longrightarrow> leaves (write_buffer c bytes) w (fold put_byte bytes (page w))"
  using write_printable [of w bytes] by (auto simp: leaves_def write_buffer_def)

lemma spaces_leave: "ready w \<Longrightarrow> leaves (all_of (replicate n (write_text c [0x20]))) w (fold put_byte (replicate n 0x20) (page w))"
proof (induction n arbitrary: w)
  case 0
  then show ?case by (simp add: leaves_def)
next
  case (Suc n)
  obtain w' where w': "sys_write c 1 [0x20] w = Some (1, w')" "ready w'" "page w' = put_byte 0x20 (page w)"
    using write_printable [of w "[0x20]"] Suc.prems by auto
  from Suc.IH [OF w'(2)] show ?case using print_one [OF w'(1)] w'(3) by (simp add: leaves_def)
qed

lemma backspaces_leave:
  assumes "ready w" "page w = (cells, p + n)"
  shows "leaves (write_backspaces c n) w (cells, p)"
  unfolding write_backspaces_def using assms
proof (induction n arbitrary: w)
  case 0
  then show ?case by (simp add: leaves_def)
next
  case (Suc n)
  then obtain w' where w': "sys_write c 1 [0x08] w = Some (1, w')" "ready w'" "page w' = (cells, p + n)"
    using write_backspace [of w cells "p + n"] by auto
  then show ?case using Suc.IH [of w'] print_one [OF w'(1)] by (simp add: leaves_def)
qed

end

text \<open>The line is on the screen behind \<open>before\<close>: the text, blanks up to the end, and the cursor at its place in the text.\<close>

definition line_page :: "u8 list \<Rightarrow> u8 list \<Rightarrow> nat \<Rightarrow> page" where
  "line_page before t cursor = (before @ t @ replicate (2000 - (length before + length t)) 0x20, length before + cursor)"

text \<open>What is left before the line when its text has become \<open>t\<close>: all of it, unless the screen had to scroll.\<close>

definition scrolled :: "u8 list \<Rightarrow> u8 list \<Rightarrow> u8 list" where
  "scrolled before t = drop (80 * rows_out (length before + length t)) before"

lemma scrolled_same: "length before + length t < 2000 \<Longrightarrow> scrolled before t = before"
  by (simp add: scrolled_def rows_out_fits)

lemma rows_out_line: "n \<le> 255 \<Longrightarrow> 80 * rows_out (b + n) \<le> b"
proof (cases "b + n < 2000")
  case False
  assume "n \<le> 255"
  have "80 * ((b + n) div 80) \<le> b + n" by simp
  moreover have "80 * rows_out (b + n) = 80 * ((b + n) div 80) - 1920" by (simp add: rows_out_def diff_mult_distrib2)
  ultimately show ?thesis using False \<open>n \<le> 255\<close> by linarith
qed (simp add: rows_out_fits)

lemma scrolled_fits: "length t \<le> 255 \<Longrightarrow> length (scrolled before t) + length t < 2000"
  using rows_out_fits(3) [of "length before + length t"] rows_out_line [of "length t" "length before"] by (simp add: scrolled_def)

text \<open>Writing a line over another one.\<close>

lemma type_line:
  assumes "length before + length t < 2000" "length t' \<le> 255"
  shows "fold put_byte (replicate (length t - length t') 0x20) (fold put_byte t' (fst (line_page before t cursor), length before)) =
    (fst (line_page (scrolled before t') t' cursor'), length (scrolled before t') + max (length t') (length t))"
proof -
  let ?n = "2000 - (length before + length t)" and ?m = "length t - length t'"
  let ?below = "t @ replicate ?n 0x20"
  have start: "(fst (line_page before t cursor), length before) = typed_page before ?below"
    using assms(1) by (simp add: line_page_def typed_page_def rows_out_fits Let_def)
  have fold_page: "fold put_byte (replicate ?m 0x20) (fold put_byte t' (typed_page before ?below)) =
      typed_page (before @ t' @ replicate ?m 0x20) (drop (length t' + ?m) ?below)"
    using put_bytes_page [of before ?below "t' @ replicate ?m 0x20"] assms(1) by simp
  have below: "drop (length t' + ?m) ?below = replicate (2000 - (length before + max (length t') (length t))) 0x20"
    by (cases "length t' \<le> length t") (simp_all add: max_def)
  show ?thesis
  proof (cases "length before + length t' < 2000")
    case True
    then have "rows_out (length (before @ t' @ replicate ?m 0x20)) = 0" using assms(1) by (intro rows_out_fits(1)) simp
    then show ?thesis
      unfolding start fold_page below scrolled_same [OF True]
      using assms(1) True by (simp add: typed_page_def line_page_def Let_def replicate_add [symmetric] max_def) (simp add: add.commute)
  next
    case False
    then have m: "?m = 0" "max (length t') (length t) = length t'" using assms(1) by simp_all
    let ?k = "80 * rows_out (length before + length t')"
    have k: "?k \<le> length before" using rows_out_line [OF assms(2)] .
    have "?k \<noteq> 0" using False rows_out_fits(3) [of "length before + length t'"] by auto
    then show ?thesis
      unfolding start fold_page unfolding below m scrolled_def using k by (simp add: typed_page_def line_page_def Let_def)
  qed
qed

context terminal
begin

definition displayed :: "u8 list \<Rightarrow> u8 list \<Rightarrow> nat \<Rightarrow> 'w \<Rightarrow> bool" where
  "displayed before t cursor w \<longleftrightarrow> ready w \<and> length before + length t < 2000 \<and> page w = line_page before t cursor"

lemma displayed_scrolled: "displayed before t cursor w \<Longrightarrow> scrolled before t = before"
  by (simp add: displayed_def scrolled_same)

lemma redraw_line_displays:
  assumes "displayed before t cursor w" and "cursor \<le> length t" and "printable t'" "length t' \<le> 255" "cursor' \<le> length t'"
  shows "\<exists>w'. redraw_line c t' cursor' (length t) cursor w = Some (True, w') \<and> displayed (scrolled before t') t' cursor' w'"
proof -
  let ?n = "max (length t') (length t)"
  have w: "ready w" "length before + length t < 2000" "page w = (fst (line_page before t cursor), length before + cursor)"
    using assms(1) by (simp_all add: displayed_def line_page_def)
  obtain w1 where w1: "write_backspaces c cursor w = Some (True, w1)" "ready w1" "page w1 = (fst (line_page before t cursor), length before)"
    using backspaces_leave [OF w(1,3)] by (auto simp: leaves_def)
  obtain w2 where w2: "write_buffer c t' w1 = Some (True, w2)" "ready w2" "page w2 = fold put_byte t' (page w1)"
    using buffer_leaves [OF w1(2) assms(3)] by (auto simp: leaves_def)
  obtain w3 where w3: "all_of (replicate (length t - length t') (write_text c [0x20])) w2 = Some (True, w3)" "ready w3"
      "page w3 = (fst (line_page (scrolled before t') t' cursor'), length (scrolled before t') + cursor' + (?n - cursor'))"
    using spaces_leave [OF w2(2), of "length t - length t'"] type_line [OF w(2) assms(4), of cursor cursor'] w2(3) w1(3) assms(5)
    by (auto simp: leaves_def)
  obtain w4 where w4: "write_backspaces c (?n - cursor') w3 = Some (True, w4)" "ready w4" "page w4 = line_page (scrolled before t') t' cursor'"
    using backspaces_leave [OF w3(2,3)] by (auto simp: leaves_def line_page_def)
  show ?thesis
    using w1(1) w2(1) w3(1) w4 scrolled_fits [OF assms(4)] by (auto simp: redraw_line_def all_of_append displayed_def)
qed

end

subsection \<open>Editing as operations on a list\<close>

text \<open>The text, the place in it, the text kept while lines of the history are shown, and the place in the history.\<close>

type_synonym line_view = "u8 list \<times> nat \<times> u8 list \<times> nat"

definition view :: "shell \<Rightarrow> line_view" where
  "view s = (typed s, sh_cursor s, sh_draft s, sh_history_position s)"

definition edit_key :: "u8 list list \<Rightarrow> u8 \<Rightarrow> line_view \<Rightarrow> line_view" where
  "edit_key history x = (\<lambda>(t, n, d, p).
     if x = 0x80 then (t, n - 1, d, p)
     else if x = 0x81 then (t, min (n + 1) (length t), d, p)
     else if x = 0x84 \<or> x = 1 then (t, 0, d, p)
     else if x = 0x85 \<or> x = 5 then (t, length t, d, p)
     else if x = 0x82
     then (if p = 0 then (t, n, d, p)
           else (history ! (p - 1), length (history ! (p - 1)), if p = length history then t else d, p - 1))
     else if x = 0x83
     then (if p \<ge> length history then (t, n, d, p)
           else let shown = (if p + 1 = length history then d else history ! (p + 1)) in (shown, length shown, d, p + 1))
     else if x = 0x08 then (if n = 0 then (t, n, d, p) else (take (n - 1) t @ drop n t, n - 1, d, p))
     else if x = 0x7F \<or> x = 4 then (take n t @ drop (n + 1) t, n, d, p)
     else if x = 11 then (take n t, n, d, p)
     else if x = 21 then (drop n t, 0, d, p)
     else if x < 0x20 \<or> x > 0x7E \<or> length t \<ge> 255 then (t, n, d, p)
     else (take n t @ [x] @ drop n t, n + 1, d, p))"

lemma edit_key_insert:
  assumes "0x20 \<le> x" "x \<le> 0x7E"
  shows "edit_key history x (t, n, d, p) = (if length t \<ge> 255 then (t, n, d, p) else (take n t @ [x] @ drop n t, n + 1, d, p))"
proof -
  have "\<not> x < 0x20" "\<not> x > 0x7E" using assms by simp_all
  then show ?thesis using printable_byte [OF assms] unfolding edit_key_def insert_iff empty_iff de_Morgan_disj by (simp only: prod.case if_False simp_thms)
qed

lemma edit_key_delete: "x = 0x7F \<or> x = 4 \<Longrightarrow> edit_key history x (t, n, d, p) = (take n t @ drop (n + 1) t, n, d, p)"
  by (elim disjE) (simp_all add: edit_key_def)

text \<open>The other keys run a line, complete a command, clear the screen or end the shell.\<close>

definition editing_key :: "u8 \<Rightarrow> shell \<Rightarrow> bool" where
  "editing_key x s \<longleftrightarrow> x \<notin> {3, 9, 10, 12} \<and> (x = 4 \<longrightarrow> sh_length s \<noteq> 0)"

definition shell_inv :: "shell \<Rightarrow> bool" where
  "shell_inv s \<longleftrightarrow> length (sh_line s) = 256 \<and> sh_cursor s \<le> sh_length s \<and> sh_length s \<le> 255 \<and> sh_history_position s \<le> length (shell_history s) \<and>
     list_all (\<lambda>t. printable t \<and> length t \<le> 255) (typed s # sh_draft s # shell_history s)"

lemma history_line:
  assumes "shell_inv s" "i < length (shell_history s)"
  shows "printable (shell_history s ! i)" "length (shell_history s ! i) \<le> 255"
  using assms nth_mem [OF assms(2)] by (auto simp: shell_inv_def list_all_iff)

lemma shell_inv_simps:
  assumes "shell_inv s"
  shows "length (sh_line s) = 256" "sh_cursor s \<le> sh_length s" "sh_length s \<le> 255" "sh_history_position s \<le> length (shell_history s)"
    "printable (typed s)" "printable (sh_draft s)" "length (sh_draft s) \<le> 255"
  using assms by (simp_all add: shell_inv_def)

context terminal
begin

text \<open>A key that has done what it should; if the line no longer fits, the screen has scrolled.\<close>

definition key_done :: "u8 list \<Rightarrow> u8 \<Rightarrow> shell \<Rightarrow> ((int option \<times> shell) \<times> 'w) option \<Rightarrow> bool" where
  "key_done before x s r \<longleftrightarrow> (\<exists>s' w'. r = Some ((None, s'), w') \<and> shell_inv s' \<and> shell_history s' = shell_history s \<and>
     view s' = edit_key (shell_history s) x (view s) \<and> displayed (scrolled before (typed s')) (typed s') (sh_cursor s') w')"

lemma key_doneI:
  assumes "p w = Some (True, w')" "displayed (scrolled before (typed s')) (typed s') (sh_cursor s') w'" "shell_inv s'" "shell_history s' = shell_history s"
    "view s' = edit_key (shell_history s) x (view s)"
  shows "key_done before x s (unless_failed p s' w)"
  using assms by (simp add: key_done_def unless_failed_def)

lemma redraw_done:
  assumes "displayed before (typed s0) (sh_cursor s0) w" "shell_inv s0" "shell_inv s'" "shell_history s' = shell_history s"
    "view s' = edit_key (shell_history s) x (view s)"
  shows "key_done before x s (redraw c s0 s' w)"
proof -
  have i: "sh_cursor s0 \<le> length (typed s0)" "length (typed s0) = sh_length s0" "printable (typed s')"
    "length (typed s') \<le> 255" "sh_cursor s' \<le> length (typed s')"
    using assms(2,3) by (auto simp: shell_inv_def)
  show ?thesis
    using redraw_line_displays [OF assms(1) i(1,3,4,5)] assms(3-5) unfolding redraw_def i(2) by (auto intro: key_doneI)
qed

lemma key_left_done:
  assumes "displayed before (typed s) (sh_cursor s) w" "shell_inv s"
  shows "key_done before 0x80 s (key_left c s w)"
proof (cases "sh_cursor s > 0")
  case True
  obtain w' where "write_text c [0x08] w = Some (True, w')" "displayed before (typed s) (sh_cursor s - 1) w'"
    using write_backspace [of w _ "length before + (sh_cursor s - 1)"] print_one assms(1) True by (auto simp: displayed_def line_page_def)
  then show ?thesis
    using assms(2) True displayed_scrolled [OF assms(1)] unfolding key_left_def by (auto intro!: key_doneI simp: shell_inv_def view_def edit_key_def)
next
  case False
  then show ?thesis using assms displayed_scrolled [OF assms(1)] by (simp add: key_left_def key_done_def view_def edit_key_def)
qed

text \<open>Writing bytes of the text that are already there moves the cursor over them.\<close>

lemma forward_displays:
  assumes "displayed before t n w" "n + k \<le> length t" "printable t"
  shows "\<exists>w'. write_buffer c (take k (drop n t)) w = Some (True, w') \<and> displayed before t (n + k) w'"
proof -
  let ?out = "before @ take n t" and ?part = "take k (drop n t)" and ?after = "drop (n + k) t @ replicate (2000 - (length before + length t)) 0x20"
  have parts: "take n t @ ?part @ drop (n + k) t = t" by (metis append_take_drop_id drop_drop add.commute)
  have len: "length before + length t < 2000" "page w = line_page before t n" "ready w" using assms(1) by (simp_all add: displayed_def)
  have "line_page before t n = typed_page ?out (?part @ ?after)"
    using len(1) assms(2) parts by (simp add: line_page_def typed_page_def rows_out_fits Let_def)
  moreover have "fold put_byte ?part (typed_page ?out (?part @ ?after)) = typed_page (?out @ ?part) ?after"
    using put_bytes_page [of ?out "?part @ ?after" ?part] len(1) assms(2) by simp
  moreover have "typed_page (?out @ ?part) ?after = line_page before t (n + k)"
    using len(1) assms(2) parts by (simp add: line_page_def typed_page_def rows_out_fits Let_def)
  ultimately have "fold put_byte ?part (page w) = line_page before t (n + k)" using len(2) by simp
  moreover have "printable ?part" using printable_parts assms(3) by blast
  ultimately show ?thesis using buffer_leaves [OF len(3), of ?part] len(1) by (auto simp: leaves_def displayed_def)
qed

lemma key_right_done:
  assumes "displayed before (typed s) (sh_cursor s) w" "shell_inv s"
  shows "key_done before 0x81 s (key_right c s w)"
proof (cases "sh_cursor s < sh_length s")
  case True
  have bytes: "take 1 (drop (sh_cursor s) (sh_line s)) = take 1 (drop (sh_cursor s) (typed s))"
    using True by (simp add: drop_take)
  obtain w' where "write_buffer c (take 1 (drop (sh_cursor s) (sh_line s))) w = Some (True, w')"
    "displayed before (typed s) (sh_cursor s + 1) w'"
    unfolding bytes using forward_displays [OF assms(1), of 1] assms(2) True by (auto simp: shell_inv_def)
  then show ?thesis
    using assms(2) True displayed_scrolled [OF assms(1)] unfolding key_right_def by (auto intro!: key_doneI simp: shell_inv_def view_def edit_key_def)
next
  case False
  then show ?thesis using assms displayed_scrolled [OF assms(1)] by (auto simp: key_right_def key_done_def view_def edit_key_def shell_inv_def)
qed

lemma key_home_done:
  assumes "displayed before (typed s) (sh_cursor s) w" "shell_inv s" "x = 0x84 \<or> x = 1"
  shows "key_done before x s (key_home c s w)"
proof -
  obtain w' where "write_backspaces c (sh_cursor s) w = Some (True, w')" "displayed before (typed s) 0 w'"
    using backspaces_leave [of w _ "length before" "sh_cursor s"] assms(1) by (auto simp: displayed_def line_page_def leaves_def)
  then show ?thesis
    using assms(2,3) displayed_scrolled [OF assms(1)] unfolding key_home_def by (auto intro!: key_doneI simp: shell_inv_def view_def edit_key_def)
qed

lemma key_end_done:
  assumes "displayed before (typed s) (sh_cursor s) w" "shell_inv s" "x = 0x85 \<or> x = 5"
  shows "key_done before x s (key_end c s w)"
proof -
  let ?k = "sh_length s - sh_cursor s"
  have bytes: "take ?k (drop (sh_cursor s) (sh_line s)) = take ?k (drop (sh_cursor s) (typed s))" by (simp add: drop_take)
  obtain w' where "write_buffer c (take ?k (drop (sh_cursor s) (sh_line s))) w = Some (True, w')" "displayed before (typed s) (sh_length s) w'"
    unfolding bytes using forward_displays [OF assms(1), of ?k] assms(2) by (auto simp: shell_inv_def)
  then show ?thesis
    using assms(2,3) displayed_scrolled [OF assms(1)] unfolding key_end_def by (auto intro!: key_doneI simp: shell_inv_def view_def edit_key_def)
qed

lemma recall_line_done:
  assumes "displayed before (typed s) (sh_cursor s) w" "shell_inv s" "printable t" "length t \<le> 255" "shell_history s = shell_history s0"
    "edit_key (shell_history s0) x (view s0) = (t, length t, sh_draft s, sh_history_position s)"
  shows "key_done before x s0 (recall_line c t s w)"
proof -
  let ?line = "(t @ drop (length t) (sh_line s))[length t := 0]"
  have len: "length (sh_line s) = 256" using assms(2) by (simp add: shell_inv_def)
  have copy: "array_copy 0 t (sh_line s) = Some (t @ drop (length t) (sh_line s))" using array_copy_spec [of 0 t "sh_line s"] assms(4) len by simp
  have put: "array_put (length t) 0 (t @ drop (length t) (sh_line s)) = Some ?line" using assms(4) len by (simp add: array_put_def)
  have line: "take (length t) ?line = t" "length ?line = 256" using assms(4) len by simp_all
  show ?thesis
    unfolding recall_line_def copy put bind.simps
    by (rule redraw_done [OF assms(1,2)]) (use assms line in \<open>simp_all add: shell_inv_def view_def\<close>)
qed

lemma key_up_done:
  assumes "displayed before (typed s) (sh_cursor s) w" "shell_inv s"
  shows "key_done before 0x82 s (key_up c s w)"
proof (cases "sh_history_position s = 0")
  case True
  then show ?thesis using assms displayed_scrolled [OF assms(1)] by (simp add: key_up_def key_done_def view_def edit_key_def)
next
  case False
  then have "printable (shell_history s ! (sh_history_position s - 1))" "length (shell_history s ! (sh_history_position s - 1)) \<le> 255"
    using history_line [OF assms(2)] shell_inv_simps(4) [OF assms(2)] by simp_all
  then show ?thesis
    using False assms unfolding key_up_def Let_def by (auto intro!: recall_line_done simp: shell_inv_def view_def edit_key_def)
qed

lemma key_down_done:
  assumes "displayed before (typed s) (sh_cursor s) w" "shell_inv s"
  shows "key_done before 0x83 s (key_down c s w)"
proof (cases "sh_history_position s \<ge> length (shell_history s)")
  case True
  then show ?thesis using assms displayed_scrolled [OF assms(1)] by (simp add: key_down_def key_done_def view_def edit_key_def)
next
  case False
  let ?t = "if sh_history_position s + 1 = length (shell_history s) then sh_draft s else shell_history s ! (sh_history_position s + 1)"
  have "printable ?t" "length ?t \<le> 255" using history_line [OF assms(2)] shell_inv_simps(6,7) [OF assms(2)] False by simp_all
  then show ?thesis
    using False assms unfolding key_down_def Let_def by (auto intro!: recall_line_done simp: shell_inv_def view_def edit_key_def Let_def)
qed

text \<open>A key that changes the buffer, and then draws the line again.\<close>

lemma change_done:
  assumes "displayed before (typed s) (sh_cursor s) w" "shell_inv s" "length line = 256" "take n line = t" "length t = n"
    "n \<le> 255" "printable t" "cursor \<le> n" "edit_key (shell_history s) x (view s) = (t, cursor, sh_draft s, sh_history_position s)"
  shows "key_done before x s (redraw c s (s\<lparr>sh_line := line, sh_cursor := cursor, sh_length := n\<rparr>) w)"
  by (rule redraw_done [OF assms(1,2)]) (use assms in \<open>simp_all add: shell_inv_def view_def\<close>)

lemma key_backspace_done:
  assumes "displayed before (typed s) (sh_cursor s) w" "shell_inv s"
  shows "key_done before 0x08 s (key_backspace c s w)"
proof (cases "sh_cursor s = 0")
  case True
  then show ?thesis using assms displayed_scrolled [OF assms(1)] by (simp add: key_backspace_def key_done_def view_def edit_key_def)
next
  case False
  let ?t = "take (sh_cursor s - 1) (typed s) @ drop (sh_cursor s) (typed s)"
  note i = shell_inv_simps [OF assms(2)]
  obtain line where line: "copy_ascending (sh_length s - sh_cursor s) (sh_cursor s - 1) (sh_cursor s) (sh_line s) = Some line"
    "length line = 256" "take (sh_length s - 1) line = ?t"
    using close_gap [of "sh_cursor s - 1" "sh_cursor s" "sh_length s" "sh_line s" "sh_length s - 1"] i False by auto
  have t: "length ?t = sh_length s - 1" "printable ?t" using i False printable_parts [OF i(5)] by (simp, simp only: list_all_append)
  have edit: "edit_key (shell_history s) 0x08 (view s) = (?t, sh_cursor s - 1, sh_draft s, sh_history_position s)"
    using False by (simp add: edit_key_def view_def)
  show ?thesis
    unfolding key_backspace_def if_not_P [OF False] line(1) bind.simps
    by (rule change_done [OF assms line(2,3) t(1) _ t(2) _ edit]) (use i in auto)
qed

lemma key_delete_done:
  assumes "displayed before (typed s) (sh_cursor s) w" "shell_inv s" "x = 0x7F \<or> x = 4 \<and> sh_length s \<noteq> 0"
  shows "key_done before x s (key_delete c x s w)"
proof (cases "sh_cursor s = sh_length s")
  case True
  then have "view s = edit_key (shell_history s) x (view s)"
    unfolding view_def using assms(3) by (subst edit_key_delete) auto
  moreover have "key_delete c x s w = Some ((None, s), w)" using True assms(3) by (auto simp: key_delete_def)
  ultimately show ?thesis using assms(1,2) displayed_scrolled [OF assms(1)] by (simp add: key_done_def)
next
  case False
  let ?t = "take (sh_cursor s) (typed s) @ drop (sh_cursor s + 1) (typed s)"
  note i = shell_inv_simps [OF assms(2)]
  obtain line where line: "copy_ascending (sh_length s - (sh_cursor s + 1)) (sh_cursor s) (sh_cursor s + 1) (sh_line s) = Some line"
    "length line = 256" "take (sh_length s - 1) line = ?t"
    using close_gap [of "sh_cursor s" "sh_cursor s + 1" "sh_length s" "sh_line s" "sh_length s - 1"] i False by auto
  have t: "length ?t = sh_length s - 1" "printable ?t" using i False printable_parts [OF i(5)] by (simp, simp only: list_all_append)
  have edit: "edit_key (shell_history s) x (view s) = (?t, sh_cursor s, sh_draft s, sh_history_position s)"
    unfolding view_def using assms(3) by (subst edit_key_delete) auto
  have "key_done before x s (redraw c s (s\<lparr>sh_line := line, sh_cursor := sh_cursor s, sh_length := sh_length s - 1\<rparr>) w)"
    by (rule change_done [OF assms(1,2) line(2,3) t(1) _ t(2) _ edit]) (use i False in auto)
  then show ?thesis unfolding key_delete_def if_not_P [OF False] line(1) bind.simps by simp
qed

lemma key_kill_done:
  assumes "displayed before (typed s) (sh_cursor s) w" "shell_inv s" "x = 11 \<or> x = 21"
  shows "key_done before x s (key_kill c x s w)"
proof (cases "x = 11")
  case True
  note i = shell_inv_simps [OF assms(2)]
  have t: "take (sh_cursor s) (sh_line s) = take (sh_cursor s) (typed s)" "length (take (sh_cursor s) (typed s)) = sh_cursor s"
    using i by (simp_all add: min_def)
  have edit: "edit_key (shell_history s) x (view s) = (take (sh_cursor s) (typed s), sh_cursor s, sh_draft s, sh_history_position s)"
    using True by (simp add: edit_key_def view_def)
  have "key_done before x s (redraw c s (s\<lparr>sh_line := sh_line s, sh_cursor := sh_cursor s, sh_length := sh_cursor s\<rparr>) w)"
    by (rule change_done [OF assms(1,2) i(1) t _ printable_parts(1) [OF i(5)] _ edit]) (use i in auto)
  then show ?thesis unfolding key_kill_def if_P [OF True] by simp
next
  case False
  note i = shell_inv_simps [OF assms(2)]
  obtain line where line: "copy_ascending (sh_length s - sh_cursor s) 0 (sh_cursor s) (sh_line s) = Some line" "length line = 256"
    "take (sh_length s - sh_cursor s) line = drop (sh_cursor s) (typed s)"
    using close_gap [of 0 "sh_cursor s" "sh_length s" "sh_line s" "sh_length s - sh_cursor s"] i by auto
  have edit: "edit_key (shell_history s) x (view s) = (drop (sh_cursor s) (typed s), 0, sh_draft s, sh_history_position s)"
    using False assms(3) by (simp add: edit_key_def view_def)
  have "key_done before x s (redraw c s (s\<lparr>sh_line := line, sh_cursor := 0, sh_length := sh_length s - sh_cursor s\<rparr>) w)" (is "key_done _ _ _ (redraw _ _ ?s _)")
    by (rule change_done [OF assms(1,2) line(2,3) _ _ printable_parts(2) [OF i(5)] _ edit]) (use i in auto)
  moreover have same: "s\<lparr>sh_line := line, sh_length := sh_length s - sh_cursor s, sh_cursor := 0\<rparr> = ?s" by simp
  ultimately show ?thesis unfolding key_kill_def if_not_P [OF False] line(1) bind.simps by (simp only: same)
qed

lemma append_displays:
  assumes "displayed before t (length t) w" "length t < 255" "0x20 \<le> x" "x \<le> 0x7E"
  shows "\<exists>w'. write_buffer c [x] w = Some (True, w') \<and> displayed (scrolled before (t @ [x])) (t @ [x]) (length t + 1) w'"
proof -
  let ?b = "scrolled before (t @ [x])"
  have len: "length before + length t < 2000" "page w = line_page before t (length t)" "ready w" using assms(1) by (simp_all add: displayed_def)
  have pos: "length (t @ [x]) \<le> 255" using assms(2) by simp
  have "fold put_byte (t @ [x]) (fst (line_page before t 0), length before) =
      (fst (line_page ?b (t @ [x]) 0), length ?b + length (t @ [x]))"
    using type_line [OF len(1) pos, of 0 0] by simp
  moreover have "fold put_byte t (fst (line_page before t 0), length before) = line_page before t (length t)"
    using type_line [OF len(1), of t 0 0] assms(2) scrolled_same [OF len(1)] by (simp add: line_page_def)
  ultimately have "fold put_byte [x] (page w) = line_page ?b (t @ [x]) (length t + 1)" using len(2) by (simp add: line_page_def)
  then show ?thesis
    using buffer_leaves [OF len(3), of "[x]"] assms(3,4) scrolled_fits [OF pos] by (auto simp: leaves_def displayed_def)
qed

lemma key_insert_done:
  assumes "displayed before (typed s) (sh_cursor s) w" "shell_inv s" "0x20 \<le> x" "x \<le> 0x7E"
  shows "key_done before x s (key_insert c x s w)"
proof -
  note i = shell_inv_simps [OF assms(2)]
  have edit: "edit_key (shell_history s) x (view s) =
      (if sh_length s \<ge> 255 then view s
       else (take (sh_cursor s) (typed s) @ [x] @ drop (sh_cursor s) (typed s), sh_cursor s + 1, sh_draft s, sh_history_position s))"
    unfolding view_def using i by (simp add: edit_key_insert [OF assms(3,4)])
  show ?thesis
  proof (cases "sh_length s \<ge> 255")
    case True
    then show ?thesis using assms(1,2) edit displayed_scrolled [OF assms(1)] by (simp add: key_insert_def key_done_def)
  next
    case False
    let ?t = "take (sh_cursor s) (typed s) @ [x] @ drop (sh_cursor s) (typed s)"
    obtain line' line where line: "copy_descending (sh_length s - sh_cursor s) (sh_cursor s + 1) (sh_cursor s) (sh_line s) = Some line'"
      "array_put (sh_cursor s) x line' = Some line" "length line = 256" "take (sh_length s + 1) line = ?t"
      using open_gap [of "sh_cursor s" "sh_length s" "sh_line s" x] i False by auto
    have t: "length ?t = sh_length s + 1" "printable ?t"
      using i by simp (rule printable_insert [OF i(5) assms(3,4)])
    have edit': "edit_key (shell_history s) x (view s) = (?t, sh_cursor s + 1, sh_draft s, sh_history_position s)" using edit False by simp
    let ?s = "s\<lparr>sh_line := line, sh_cursor := sh_cursor s + 1, sh_length := sh_length s + 1\<rparr>"
    have "key_done before x s (unless_failed (write_buffer c [x]) ?s w)" if "sh_cursor s = sh_length s"
    proof -
      have at: "sh_cursor s = length (typed s)" "length (typed s) < 255" and now: "?t = typed s @ [x]" using that i False by simp_all
      obtain w' where "write_buffer c [x] w = Some (True, w')" "displayed (scrolled before (typed s @ [x])) (typed s @ [x]) (length (typed s) + 1) w'"
        using append_displays [OF assms(1) [unfolded at(1)] at(2) assms(3,4)] by blast
      moreover have "typed ?s = ?t" using line(4) by simp
      then have "shell_inv ?s"
        using assms(2) t line(3) i(2) False unfolding shell_inv_def by (simp del: take_append)
      ultimately show ?thesis
        by (rule_tac key_doneI) (use line(4) edit' now at(1) in \<open>simp_all add: view_def\<close>)
    qed
    moreover have "key_done before x s (redraw c s ?s w)"
      by (rule change_done [OF assms(1,2) line(3,4) t(1) _ t(2) _ edit']) (use i False in auto)
    ultimately show ?thesis
      using False line(1,2) by (cases "sh_cursor s = sh_length s") (simp_all add: key_insert_def Let_def)
  qed
qed

lemma handle_key_done:
  assumes "displayed before (typed s) (sh_cursor s) w" "shell_inv s" "editing_key x s"
  shows "key_done before x s (handle_key c x s w)"
proof -
  have ignored: "key_done before x s (Some ((None, s), w))" if "view s = edit_key (shell_history s) x (view s)"
    using assms(1,2) that displayed_scrolled [OF assms(1)] by (simp add: key_done_def)
  consider "x = 0x80" | "x = 0x81" | "x = 0x84 \<or> x = 1" | "x = 0x85 \<or> x = 5" | "x = 0x82" | "x = 0x83" | "x = 0x08"
    | "x = 0x7F \<or> x = 4" | "x = 11 \<or> x = 21" | "0x20 \<le> x" "x \<le> 0x7E"
    | "x < 0x20 \<or> x > 0x7E" "x \<notin> {0x80, 0x81, 0x82, 0x83, 0x84, 0x85, 0x7F, 0x08, 1, 3, 4, 5, 9, 10, 11, 12, 21}"
    using assms(3) unfolding editing_key_def insert_iff by (metis not_less empty_iff)
  then show ?thesis
  proof cases
    case 10
    then show ?thesis
      using key_insert_done [OF assms(1,2) 10] printable_byte [OF 10] leD [OF 10(1)] leD [OF 10(2)] unfolding insert_iff by (simp add: handle_key_def)
  next
    case 11
    then show ?thesis unfolding insert_iff
      by (simp add: handle_key_def) (rule ignored, auto simp: edit_key_def view_def)
  qed (use assms key_left_done key_right_done key_home_done key_end_done key_up_done key_down_done key_backspace_done key_delete_done
      key_kill_done in \<open>auto simp: handle_key_def editing_key_def\<close>)
qed

end

subsection \<open>The console as a terminal\<close>

text \<open>
  A world that is the console of the kernel: writing to the standard output prints there. The other calls are not used by the keys
  concerned.
\<close>

definition console_calls :: "console calls" where
  "console_calls = quiet_calls\<lparr>sys_write := (\<lambda>descriptor bytes c. map_option (\<lambda>c. (int (length bytes), c)) (console_write bytes c))\<rparr>"

definition console_ready :: "console \<Rightarrow> bool" where
  "console_ready c \<longleftrightarrow> vga_inv c \<and> vga_escape c = VGA_ESCAPE_NONE"

definition console_page :: "console \<Rightarrow> page" where
  "console_page c = (map ucast (vga_buffer c), vga_row c * VGA_WIDTH + vga_column c)"

lemma byte_of_cell: "ucast (ucast (x :: u8) :: u16) = x"
  by (rule bit_word_eqI) (auto simp: bit_simps)

lemma cell_byte: "ucast (vga_cell x c) = x"
  unfolding vga_cell_def by (rule bit_word_eqI) (auto simp: bit_simps)

text \<open>The serial port and the cursor registers leave the screen alone.\<close>

definition same_view :: "console \<Rightarrow> console \<Rightarrow> bool" where
  "same_view c c' \<longleftrightarrow> same_screen c c' \<and> vga_escape c' = vga_escape c"

lemma serial_poll_view: "same_view c (serial_poll n x c)"
proof (induction n arbitrary: c)
  case (Suc n)
  show ?case using Suc [of "c\<lparr>com1_reads := Suc (com1_reads c)\<rparr>"] by (simp add: Let_def same_view_def same_screen_def port_out_def)
qed (simp add: same_view_def same_screen_def)

lemma same_view_simps:
  assumes "same_view c c'"
  shows "console_ready c' = console_ready c" "console_page c' = console_page c"
  using assms by (auto simp: same_view_def same_screen_def console_ready_def console_page_def vga_inv_def)

lemma cursor_view: "same_view c (vga_update_cursor c)"
  by (simp add: same_view_def same_screen_def vga_update_cursor_def port_out_def Let_def)

lemma vga_put_printable:
  assumes "console_ready c" "x \<noteq> 0x0A"
  shows "\<exists>c'. vga_put x c = Some c' \<and> console_ready c' \<and> console_page c' = put_byte x (console_page c)"
proof -
  let ?p = "vga_row c * VGA_WIDTH + vga_column c"
  let ?d = "c\<lparr>vga_buffer := (vga_buffer c)[?p := vga_cell x c], vga_column := vga_column c + 1\<rparr>"
  let ?e = "if vga_column ?d = VGA_WIDTH then ?d\<lparr>vga_column := 0, vga_row := vga_row ?d + 1\<rparr> else ?d"
  have i: "vga_row c < 25" "vga_column c < 80" "length (vga_buffer c) = 2000" using assms(1) by (simp_all add: console_ready_def vga_inv_def)
  then have p: "?p < 2000" by linarith
  have put: "vga_put x c = do { c \<leftarrow> (if vga_row ?e = VGA_HEIGHT then vga_scroll ?e else Some ?e); Some (vga_update_cursor c) }"
    using assms(2) p by (simp add: vga_put_def vga_set_def Let_def)
  show ?thesis
  proof (cases "vga_row ?e = VGA_HEIGHT")
    case True
    then have last: "vga_row c = 24" "vga_column c = 79" using i by (auto split: if_splits)
    let ?f = "?e\<lparr>vga_buffer := drop 80 (vga_buffer ?e) @ replicate 80 (vga_cell 0x20 ?e), vga_row := 24\<rparr>"
    have "vga_put x c = Some (vga_update_cursor ?f)" using put True i(3) by (simp add: vga_scroll_eq)
    moreover have "console_ready ?f" using assms(1) i last by (simp add: console_ready_def vga_inv_def)
    moreover have "console_page ?f = put_byte x (console_page c)"
      using last by (simp add: console_page_def put_byte_def map_update cell_byte drop_map [symmetric])
    ultimately show ?thesis using same_view_simps [OF cursor_view] by metis
  next
    case False
    then have "vga_put x c = Some (vga_update_cursor ?e)" using put by simp
    moreover have "console_ready ?e" using assms(1) i False by (auto simp: console_ready_def vga_inv_def)
    moreover have "console_page ?e = put_byte x (console_page c)"
      using i False by (auto simp: console_page_def put_byte_def map_update cell_byte)
    ultimately show ?thesis using same_view_simps [OF cursor_view] by metis
  qed
qed

lemma console_putc_printable:
  assumes "console_ready c" "0x20 \<le> x" "x \<le> 0x7E"
  shows "\<exists>c'. console_putc x c = Some c' \<and> console_ready c' \<and> console_page c' = put_byte x (console_page c)"
proof -
  let ?c = "serial_write_char x c"
  note same = same_view_simps [OF serial_poll_view [of c "0xFFFF" x, folded serial_write_char_def]]
  have x: "x \<noteq> 0x0A" "x \<noteq> 0x0D" "x \<noteq> 0x1B" "x \<noteq> 0x08" using assms(2) by (auto simp: word_le_nat_alt)
  then have "console_putc x c = vga_put x ?c"
    using assms(1) same(1) by (simp add: console_putc_def vga_write_char_def console_ready_def Let_def)
  then show ?thesis using vga_put_printable [of ?c x] assms(1) x(1) same by simp
qed

lemma console_putc_backspace:
  assumes "console_ready c" "console_page c = (cells, Suc p)"
  shows "\<exists>c'. console_putc 0x08 c = Some c' \<and> console_ready c' \<and> console_page c' = (cells, p)"
proof -
  let ?c = "serial_write_char 0x08 c"
  let ?d = "if vga_column ?c > 0 then ?c\<lparr>vga_column := vga_column ?c - 1\<rparr>
    else if vga_row ?c > 0 then ?c\<lparr>vga_row := vga_row ?c - 1, vga_column := VGA_WIDTH - 1\<rparr> else ?c"
  note same = same_view_simps [OF serial_poll_view [of c "0xFFFF" "0x08", folded serial_write_char_def]]
  have ready: "console_ready ?c" "console_page ?c = (cells, Suc p)" using assms same by simp_all
  have "console_putc 0x08 c = Some (vga_update_cursor ?d)"
    using ready(1) by (simp add: console_putc_def vga_write_char_def console_ready_def Let_def)
  moreover have "console_ready ?d" using ready by (auto simp: console_ready_def vga_inv_def)
  moreover have "console_page ?d = (cells, p)" using ready(2) by (auto simp: console_page_def diff_mult_distrib)
  ultimately show ?thesis using same_view_simps [OF cursor_view] by metis
qed

lemma console_write_printable:
  assumes "console_ready c" "printable bytes"
  shows "\<exists>c'. console_write bytes c = Some c' \<and> console_ready c' \<and> console_page c' = fold put_byte bytes (console_page c)"
  using assms
proof (induction bytes arbitrary: c)
  case (Cons x bytes)
  obtain c' where c': "console_putc x c = Some c'" "console_ready c'" "console_page c' = put_byte x (console_page c)"
    using console_putc_printable [OF Cons.prems(1), of x] Cons.prems(2) by auto
  from Cons.IH [OF c'(2)] Cons.prems(2) show ?case using c' by auto
qed simp

interpretation screen: terminal console_calls console_ready console_page
  by unfold_locales (auto simp: console_calls_def dest: console_write_printable console_putc_backspace)

text \<open>The line on the screen of the console, behind what stands before it and with blanks up to the end of the screen.\<close>

definition shown :: "u8 list \<Rightarrow> shell \<Rightarrow> console \<Rightarrow> bool" where
  "shown before s c \<longleftrightarrow> console_ready c \<and> length before + sh_length s < 2000 \<and>
     map ucast (vga_buffer c) = before @ typed s @ replicate (2000 - (length before + sh_length s)) 0x20 \<and>
     vga_row c * 80 + vga_column c = length before + sh_cursor s"

lemma shown_iff: "shell_inv s \<Longrightarrow> shown before s c = screen.displayed before (typed s) (sh_cursor s) c"
  by (auto simp: shown_def screen.displayed_def line_page_def console_page_def shell_inv_def)

text \<open>
  C23. The shell on the console of the kernel: if the screen shows the line with its cursor, anywhere on the screen and with nothing
  below it, then after any editing key (cursor keys, history, deletions, insertions) the shell goes on, the text and its cursor have
  changed as the operation on lists says, and the screen shows exactly the new line with the cursor in place, without remains of the
  old one. What stands before the line is unchanged as well, but for the rows at the top that have moved out: none as long as
  the new line ends on the screen, and else as many as it takes.
\<close>

theorem shell_line_on_screen:
  assumes "shell_inv s" and "shown before s c" and "editing_key x s"
  shows "\<exists>s' c'. handle_key console_calls x s c = Some ((None, s'), c') \<and> shell_inv s' \<and> shell_history s' = shell_history s \<and>
    view s' = edit_key (shell_history s) x (view s) \<and>
    shown (drop (80 * ((length before + sh_length s') div 80 - 24)) before) s' c'"
proof -
  obtain s' c' where *: "handle_key console_calls x s c = Some ((None, s'), c')" "shell_inv s'" "shell_history s' = shell_history s"
    "view s' = edit_key (shell_history s) x (view s)" "screen.displayed (scrolled before (typed s')) (typed s') (sh_cursor s') c'"
    using screen.handle_key_done [of before s c x] assms shown_iff by (auto simp: screen.key_done_def)
  moreover have "length (typed s') = sh_length s'" using *(2) by (simp add: shell_inv_def)
  ultimately show ?thesis using shown_iff [OF *(2)] unfolding scrolled_def rows_out_def by auto
qed

definition sample_shell :: shell where
  "sample_shell = \<lparr>sh_line = bytes_of ''ls'' @ replicate 254 0, sh_length = 2, sh_cursor = 1, sh_draft = [], sh_history_position = 0,
     shell_history = [], shell_exit_status = 0\<rparr>"

text \<open>A screen full of text with the prompt in its last row, and the cursor in the last cell but one.\<close>

definition sample_before :: "u8 list" where
  "sample_before = replicate 1996 0x2E @ bytes_of ''$''"

definition sample_screen :: console where
  "sample_screen = sample_console\<lparr>vga_buffer := map ucast (sample_before @ bytes_of ''ls'' @ [0x20]), vga_row := 24, vga_column := 78\<rparr>"

theorem shell_line_on_screen_witness:
  "\<exists>s' c'. handle_key console_calls 0x61 sample_shell sample_screen = Some ((None, s'), c') \<and>
     view s' = (bytes_of ''las'', 2, [], 0) \<and> shown (drop 80 sample_before) s' c'"
proof -
  have typed: "typed sample_shell = bytes_of ''ls''" by (simp add: sample_shell_def bytes_of_def)
  have inv: "shell_inv sample_shell" unfolding shell_inv_def typed by (simp add: sample_shell_def bytes_of_def)
  have len: "length sample_before = 1997" by (simp add: sample_before_def bytes_of_def)
  have cells: "map ucast (vga_buffer sample_screen) = sample_before @ bytes_of ''ls'' @ [0x20]"
    by (simp add: sample_screen_def comp_def byte_of_cell)
  have "shown sample_before sample_shell sample_screen"
    unfolding shown_def typed cells len
    by (simp add: console_ready_def vga_inv_def sample_shell_def sample_screen_def sample_console_def len bytes_of_def)
  then obtain s' c' where *: "handle_key console_calls 0x61 sample_shell sample_screen = Some ((None, s'), c')" "shell_inv s'"
    "view s' = edit_key (shell_history sample_shell) 0x61 (view sample_shell)"
    "shown (drop (80 * ((length sample_before + sh_length s') div 80 - 24)) sample_before) s' c'"
    using shell_line_on_screen [OF inv, of sample_before sample_screen "0x61"] by (auto simp: editing_key_def)
  moreover have v: "view s' = (bytes_of ''las'', 2, [], 0)"
    using *(3) by (simp add: view_def typed edit_key_def) (simp add: sample_shell_def bytes_of_def)
  moreover have "sh_length s' = 3"
    using v *(2) by (auto simp: view_def shell_inv_def bytes_of_def dest: arg_cong [of _ _ length])
  ultimately show ?thesis by (auto simp: len)
qed

end
