(* ===== verification/User_Calls.thy ===== *)
theory User_Calls
  imports Usercopy_Correct Syscall Sched_Correct
begin

text \<open>
  The way of a system call from the library of the user programs (\<open>user/libc/syscall.c\<close>) to the kernel: the registers at
  \<open>int 0x80\<close>, and what a write to the terminal comes to in the end.
\<close>

subsection \<open>The registers at the trap\<close>

definition syscall0 :: "u32 \<Rightarrow> trap_frame \<Rightarrow> trap_frame" where
  "syscall0 number frame = frame\<lparr>tf_eax := number\<rparr>"

definition syscall1 :: "u32 \<Rightarrow> u32 \<Rightarrow> trap_frame \<Rightarrow> trap_frame" where
  "syscall1 number argument0 frame = frame\<lparr>tf_eax := number, tf_ebx := argument0\<rparr>"

definition syscall2 :: "u32 \<Rightarrow> u32 \<Rightarrow> u32 \<Rightarrow> trap_frame \<Rightarrow> trap_frame" where
  "syscall2 number argument0 argument1 frame = frame\<lparr>tf_eax := number, tf_ebx := argument0, tf_ecx := argument1\<rparr>"

definition syscall3 :: "u32 \<Rightarrow> u32 \<Rightarrow> u32 \<Rightarrow> u32 \<Rightarrow> trap_frame \<Rightarrow> trap_frame" where
  "syscall3 number argument0 argument1 argument2 frame =
     frame\<lparr>tf_eax := number, tf_ebx := argument0, tf_ecx := argument1, tf_edx := argument2\<rparr>"

text \<open>The functions of the library with their arguments; pointers are addresses.\<close>

datatype user_call =
    Minios_exit int | Minios_shutdown | Minios_write int u32 u32 | Minios_read int u32 u32 | Minios_open u32 u32 | Minios_close int
  | Minios_lseek int int int | Minios_create u32 | Minios_unlink u32 | Minios_mkdir u32 | Minios_readdir int u32 u32
  | Minios_stat u32 u32 | Minios_spawn u32 u32 | Minios_waitpid int u32 | Minios_getpid | Minios_yield | Minios_sleep u32
  | Minios_chdir u32 | Minios_getcwd u32 u32 | Minios_getticks | Minios_ps u32 u32

fun trap :: "user_call \<Rightarrow> trap_frame \<Rightarrow> trap_frame" where
  "trap (Minios_exit status) = syscall1 0 (of_int status)"
| "trap Minios_shutdown = syscall0 20"
| "trap (Minios_write descriptor buffer count) = syscall3 1 (of_int descriptor) buffer count"
| "trap (Minios_read descriptor buffer count) = syscall3 2 (of_int descriptor) buffer count"
| "trap (Minios_open path flags) = syscall2 3 path flags"
| "trap (Minios_close descriptor) = syscall1 4 (of_int descriptor)"
| "trap (Minios_lseek descriptor offset whence) = syscall3 5 (of_int descriptor) (of_int offset) (of_int whence)"
| "trap (Minios_create path) = syscall1 6 path"
| "trap (Minios_unlink path) = syscall1 7 path"
| "trap (Minios_mkdir path) = syscall1 8 path"
| "trap (Minios_readdir descriptor entry len) = syscall3 9 (of_int descriptor) entry len"
| "trap (Minios_stat path status) = syscall2 16 path status"
| "trap (Minios_spawn path argv) = syscall2 10 path argv"
| "trap (Minios_waitpid pid status) = syscall2 11 (of_int pid) status"
| "trap Minios_getpid = syscall0 12"
| "trap Minios_yield = syscall0 13"
| "trap (Minios_sleep ticks) = syscall1 14 ticks"
| "trap (Minios_chdir path) = syscall1 15 path"
| "trap (Minios_getcwd buffer capacity) = syscall2 19 buffer capacity"
| "trap Minios_getticks = syscall0 17"
| "trap (Minios_ps processes capacity) = syscall2 18 processes capacity"

text \<open>A call that returns at once yields the register \<open>eax\<close>; otherwise \<^const>\<open>None\<close>.\<close>

definition call_kernel :: "user_call \<Rightarrow> trap_frame \<Rightarrow> system \<Rightarrow> (int option \<times> system) option" where
  "call_kernel call frame s =
     map_option (\<lambda>(r, s). (case r of Returns frame \<Rightarrow> Some (sint (tf_eax frame)) | _ \<Rightarrow> None, s)) (syscall_dispatch (trap call frame) s)"

subsection \<open>Writing to the terminal\<close>

lemma console_write_append: "console_write (xs @ ys) c = Option.bind (console_write xs c) (console_write ys)"
  by (induction xs arbitrary: c) (auto split: bind_splits)

lemma user_range_suffix: "user_range access m a len \<Longrightarrow> k \<le> len \<Longrightarrow> user_range access m (a + k) (len - k)"
  by (auto simp: user_range_def)

lemma syscall_write_loop_console:
  assumes inv: "vmm_inv (machine_of (sys_kernel s))" and "vga_inv (sys_console s)" and d: "descriptor = 1 \<or> descriptor = 2"
    and "user_range USER_ACCESS_READ (machine_of (sys_kernel s)) (unat buffer) len" and "offset \<le> len"
  shows "\<exists>c. console_write (user_bytes (machine_of (sys_kernel s)) (unat buffer + offset) (len - offset)) (sys_console s) = Some c \<and>
    syscall_write_loop descriptor buffer len offset s = Some (int len, s\<lparr>sys_console := c\<rparr>)"
  using assms
proof (induction "len - offset" arbitrary: offset s rule: less_induct)
  case less
  let ?m = "machine_of (sys_kernel s)" and ?n = "min (len - offset) 128"
  show ?case
  proof (cases "offset < len")
    case False
    then show ?thesis using less.prems by (subst syscall_write_loop.simps) simp
  next
    case True
    have range: "user_range USER_ACCESS_READ ?m (unat buffer + offset) ?n"
      using user_range_prefix [OF user_range_suffix [OF less.prems(4,5)], of ?n] by simp
    have at: "unat (buffer + of_nat offset) = unat buffer + offset"
      using less.prems(4) True by (intro unat_user_address) (auto simp: user_range_def)
    have copy: "copy_from_user (buffer + of_nat offset) ?n ?m = Some (0, user_bytes ?m (unat buffer + offset) ?n)"
      using copy_from_user_correct [OF less.prems(1), of "buffer + of_nat offset" ?n] range at by simp
    obtain c1 where c1: "console_write (user_bytes ?m (unat buffer + offset) ?n) (sys_console s) = Some c1" "vga_inv c1"
      using console_write_inv [OF less.prems(2)] by blast
    let ?s = "s\<lparr>sys_console := c1\<rparr>"
    have "offset + ?n \<le> len" using True by (auto simp: min_def)
    moreover have "len - (offset + ?n) < len - offset" using True by simp
    moreover note less.hyps [of "offset + ?n" ?s]
    ultimately obtain c2 where
      c2: "console_write (user_bytes ?m (unat buffer + (offset + ?n)) (len - (offset + ?n))) c1 = Some c2"
      "syscall_write_loop descriptor buffer len (offset + ?n) ?s = Some (int len, ?s\<lparr>sys_console := c2\<rparr>)"
      using less.prems c1(2) by auto
    have "user_bytes ?m (unat buffer + offset) (len - offset) =
        user_bytes ?m (unat buffer + offset) ?n @ user_bytes ?m (unat buffer + offset + ?n) (len - offset - ?n)"
      using user_bytes_add [of ?m "unat buffer + offset" ?n "len - offset - ?n"] by (simp only: le_add_diff_inverse [OF min.cobounded1])
    then have "console_write (user_bytes ?m (unat buffer + offset) (len - offset)) (sys_console s) = Some c2"
      using c1(1) c2(1) by (simp add: console_write_append add.assoc)
    moreover have "syscall_write_loop descriptor buffer len offset s = Some (int len, s\<lparr>sys_console := c2\<rparr>)"
      using True copy c1(1) c2(2) d by (subst syscall_write_loop.simps) (auto simp: Let_def)
    ultimately show ?thesis by blast
  qed
qed

text \<open>
  C6. A write of a user program to its terminal, from the library call to the console: through the trap and the dispatch, the
  kernel refuses more than 4096 bytes and memory that is not the program's own, and otherwise puts exactly the bytes of the
  buffer on the console, in order and in spite of the chunks it copies them in, returns their number and changes nothing else.
\<close>

theorem minios_write_reaches_console:
  assumes "vmm_inv (machine_of (sys_kernel s))" and "vga_inv (sys_console s)" and "tf_cs frame AND 3 = 3"
    and "descriptor = 1 \<or> descriptor = 2"
  shows "\<exists>c. console_write (user_bytes (machine_of (sys_kernel s)) (unat buffer) (unat count)) (sys_console s) = Some c \<and>
    call_kernel (Minios_write descriptor buffer count) frame s =
      Some (if unat count > 4096 then (Some (- MINIOS_EINVAL), s)
            else if \<not> user_range USER_ACCESS_READ (machine_of (sys_kernel s)) (unat buffer) (unat count) then (Some (- MINIOS_EFAULT), s)
            else (Some (int (unat count)), s\<lparr>sys_console := c\<rparr>))"
proof -
  let ?m = "machine_of (sys_kernel s)"
  have d: "(of_int descriptor :: u32) = 1 \<or> (of_int descriptor :: u32) = 2" "\<not> (of_int descriptor :: u32) \<ge> 16"
    using assms(4) by (auto simp: word_le_nat_alt)
  obtain c where c: "console_write (user_bytes ?m (unat buffer) (unat count)) (sys_console s) = Some c"
    using console_write_inv [OF assms(2)] by blast
  have done_by_kernel: "syscall_write (of_int descriptor) buffer (unat count) s =
      Some (if unat count > 4096 then (- MINIOS_EINVAL, s)
            else if \<not> user_range USER_ACCESS_READ ?m (unat buffer) (unat count) then (- MINIOS_EFAULT, s)
            else (int (unat count), s\<lparr>sys_console := c\<rparr>))"
    using syscall_write_loop_console [OF assms(1,2) d(1), of buffer "unat count" 0] c d validate_user_range_spec [OF assms(1)]
    by (auto simp: syscall_write_def)
  have number: "sint (of_int r :: u32) = r" if "- 4096 \<le> r" "r \<le> 4096" for r
    using that by (simp add: signed_of_int signed_take_bit_int_eq_self)
  have "call_kernel (Minios_write descriptor buffer count) frame s =
      map_option (\<lambda>(r, s). (Some (sint (of_int r :: u32)), s)) (syscall_write (of_int descriptor) buffer (unat count) s)"
    using assms(3) by (cases "syscall_write (of_int descriptor) buffer (unat count) s")
      (simp_all add: call_kernel_def syscall_dispatch_def syscall3_def returns_def case_prod_unfold)
  then show ?thesis using c unfolding done_by_kernel by (simp add: number not_less sint_u32)
qed

definition sample_system :: system where
  "sample_system = \<lparr>sys_kernel = with_machine user_machine sample_kernel, sys_keyboard = sample_keyboard, sys_console = sample_console\<rparr>"

definition sample_frame :: trap_frame where
  "sample_frame = \<lparr>tf_edi = 0, tf_esi = 0, tf_ebp = 0, tf_esp_before_pushad = 0, tf_ebx = 0, tf_edx = 0, tf_ecx = 0, tf_eax = 0,
     tf_vector = 0x80, tf_error_code = 0, tf_eip = 0x00400000, tf_cs = 0x1B, tf_eflags = 0x202, tf_user_esp = 0, tf_user_ss = 0x23\<rparr>"

theorem minios_write_reaches_console_witness:
  "\<exists>c. console_write [0x68, 0x69] sample_console = Some c \<and>
    call_kernel (Minios_write 1 0x00400000 2) sample_frame sample_system = Some (Some 2, sample_system\<lparr>sys_console := c\<rparr>)"
proof -
  have m: "machine_of (sys_kernel sample_system) = user_machine" and c: "sys_console sample_system = sample_console"
    by (simp_all add: sample_system_def machine_of_def with_machine_def)
  have "vga_inv sample_console" by (simp add: vga_inv_def sample_console_def)
  moreover have "tf_cs sample_frame AND 3 = 3" by (simp add: sample_frame_def)
  ultimately show ?thesis
    using minios_write_reaches_console [of sample_system sample_frame 1 "0x00400000" 2] user_machine(1) user_machine_text(1)
    unfolding m c by simp
qed

end
