(* ===== verification/Programs.thy ===== *)
theory Programs
  imports Userland
begin

text \<open>
  The small programs of \<open>user/programs\<close>: echo, write, cat, cp, ls, mkdir, touch, rm, stat, ps, sleep, uptime, memtest, fault and
  init. The arguments are the list of strings \<open>argv\<close>, its first one the name of the program; an empty list is a missing name.
  The buffer of a read call is the list of bytes the call delivers.
\<close>

subsection \<open>Arguments\<close>

text \<open>Running a step for every argument; one that fails does not stop the loop.\<close>

primrec for_each :: "(u8 list \<Rightarrow> ('w, bool) program) \<Rightarrow> u8 list list \<Rightarrow> ('w, bool) program" where
  "for_each step [] w = Some (True, w)"
| "for_each step (path # paths) w = do {
     (ok, w) \<leftarrow> step path w;
     (success, w) \<leftarrow> for_each step paths w;
     Some (ok \<and> success, w)
   }"

definition ends_with :: "('w, bool) program \<Rightarrow> ('w, int) program" where
  "ends_with p w = map_option (\<lambda>(ok, w). (if ok then 0 else 1, w)) (p w)"

text \<open>Reporting an error that makes the step fail.\<close>

definition failing :: "'w calls \<Rightarrow> string \<Rightarrow> u8 list \<Rightarrow> int \<Rightarrow> ('w, bool) program" where
  "failing c command path error = and_then (minios_report_error c command (Some path) error) False"

definition print_usage :: "'w calls \<Rightarrow> string \<Rightarrow> ('w, int) program" where
  "print_usage c message = and_then (minios_print c 2 (text_line message)) 2"

text \<open>The arguments with a blank between two.\<close>

fun print_arguments :: "'w calls \<Rightarrow> int \<Rightarrow> u8 list list \<Rightarrow> ('w, bool) program" where
  "print_arguments c descriptor [] = all_of []"
| "print_arguments c descriptor (argument # arguments) =
     all_of (minios_print c descriptor argument #
       concat (map (\<lambda>argument. [minios_print c descriptor [0x20], minios_print c descriptor argument]) arguments))"

definition option_word :: "u8 list \<Rightarrow> bool" where
  "option_word argument \<longleftrightarrow> argument \<noteq> [] \<and> hd argument = 0x2D"

subsection \<open>echo and write\<close>

definition echo_main :: "'w calls \<Rightarrow> u8 list list \<Rightarrow> ('w, int) program" where
  "echo_main c argv w =
     (if argv = [] then Some (2, w)
      else let quiet = (tl argv \<noteq> [] \<and> minios_streq (argv ! 1) (bytes_of ''-n''));
               arguments = (if quiet then tl (tl argv) else tl argv)
           in ends_with (all_of ([print_arguments c 1 arguments] @ (if quiet then [] else [minios_print c 1 [0x0A]]))) w)"

text \<open>The letters of an option word, and the option words; \<^const>\<open>None\<close> is the message on the usage.\<close>

fun write_letters :: "u8 list \<Rightarrow> bool \<times> bool \<Rightarrow> (bool \<times> bool) option" where
  "write_letters [] flags = Some flags"
| "write_letters (x # letters) (at_end, newline) =
     (if x = 0x61 then write_letters letters (True, newline)
      else if x = 0x6E then write_letters letters (at_end, False) else None)"

fun write_options :: "u8 list list \<Rightarrow> bool \<times> bool \<Rightarrow> ((bool \<times> bool) \<times> u8 list list) option" where
  "write_options [] flags = Some (flags, [])"
| "write_options (argument # arguments) flags =
     (if option_word argument \<and> length argument > 1
      then (if minios_streq argument (bytes_of ''--'') then Some (flags, arguments)
            else do { flags \<leftarrow> write_letters (tl argument) flags; write_options arguments flags })
      else Some (flags, argument # arguments))"

definition write_main :: "'w calls \<Rightarrow> u8 list list \<Rightarrow> ('w, int) program" where
  "write_main c argv w =
     (if argv = [] then Some (2, w)
      else case write_options (tl argv) (False, True) of
        None \<Rightarrow> print_usage c ''usage: write [-a] [-n] [--] file [text...]'' w
      | Some (_, []) \<Rightarrow> print_usage c ''usage: write [-a] [-n] [--] file [text...]'' w
      | Some ((at_end, newline), path # arguments) \<Rightarrow> do {
          (descriptor, w) \<leftarrow> sys_open c path (MINIOS_O_WRONLY OR MINIOS_O_CREAT OR (if at_end then 0 else MINIOS_O_TRUNC)) w;
          let fail = (\<lambda>w. do { (_, w) \<leftarrow> failing c ''write'' path (- MINIOS_EIO) w; (_, w) \<leftarrow> sys_close c descriptor w; Some (1, w) });
          if descriptor < 3 then map_option (\<lambda>(_, w). (1, w)) (failing c ''write'' path descriptor w)
          else do {
            (position, w) \<leftarrow> (if at_end then sys_lseek c descriptor 0 2 w else Some (0, w));
            if position < 0 then fail w
            else do {
              (ok, w) \<leftarrow> all_of ([print_arguments c descriptor arguments] @ (if newline then [minios_print c descriptor [0x0A]] else [])) w;
              if \<not> ok then fail w
              else do {
                (closed, w) \<leftarrow> sys_close c descriptor w;
                if closed < 0 then map_option (\<lambda>(_, w). (1, w)) (failing c ''write'' path (- MINIOS_EIO) w) else Some (0, w)
              }
            }
          }
        })"

subsection \<open>cat\<close>

definition print_line_number :: "'w calls \<Rightarrow> u32 \<Rightarrow> ('w, bool) program" where
  "print_line_number c line_number = all_of [minios_print_uint32 c 1 line_number, minios_print c 1 [0x09]]"

text \<open>The loop over the bytes of one read, a line or a part of one at a time; the state is the line number and whether a line starts.\<close>

function cat_chunk :: "'w calls \<Rightarrow> bool \<Rightarrow> u8 list \<Rightarrow> u32 \<times> bool \<Rightarrow> ('w, bool \<times> u32 \<times> bool) program" where
  "cat_chunk c number_lines bytes (line_number, line_start) w =
     (if bytes = [] then Some ((True, line_number, line_start), w)
      else do {
        (ok, w) \<leftarrow> (if number_lines \<and> line_start then print_line_number c line_number w else Some (True, w));
        if \<not> ok then Some ((False, line_number, line_start), w)
        else let line_start = (line_start \<and> \<not> number_lines);
                 part = take (length (takeWhile (\<lambda>x. x \<noteq> 0x0A) bytes) + 1) bytes
             in do {
               (ok, w) \<leftarrow> minios_write_all c 1 part w;
               if \<not> ok then Some ((False, line_number, line_start), w)
               else cat_chunk c number_lines (drop (length part) bytes)
                 (if last part = 0x0A then (if line_number < 0xFFFFFFFF then line_number + 1 else line_number, True)
                  else (line_number, line_start)) w
             }
      })"
  by pat_completeness auto
termination
  by (relation "measure (\<lambda>(_, _, bytes, _, _). length bytes)") auto

declare cat_chunk.simps [simp del]

text \<open>The loop over the file; the result is that of the last read, or \<^const>\<open>None\<close> if the output failed.\<close>

partial_function (option) cat_loop :: "'w calls \<Rightarrow> bool \<Rightarrow> int \<Rightarrow> u32 \<times> bool \<Rightarrow> 'w \<Rightarrow> ((int option \<times> u32 \<times> bool) \<times> 'w) option" where
  "cat_loop c number_lines descriptor state w =
     Option.bind (sys_read c descriptor 256 w) (\<lambda>r. case r of ((result, bytes), w) \<Rightarrow>
       if result \<le> 0 then Some ((Some result, state), w)
       else Option.bind (cat_chunk c number_lines bytes state w) (\<lambda>r. case r of ((ok, state), w) \<Rightarrow>
         if \<not> ok then Some ((None, state), w) else cat_loop c number_lines descriptor state w))"

definition copy_file :: "'w calls \<Rightarrow> bool \<Rightarrow> u8 list \<Rightarrow> u32 \<times> bool \<Rightarrow> ('w, bool \<times> u32 \<times> bool) program" where
  "copy_file c number_lines path state w = do {
     (descriptor, w) \<leftarrow> sys_open c path MINIOS_O_RDONLY w;
     if descriptor < 3 then do { (_, w) \<leftarrow> failing c ''cat'' path descriptor w; Some ((False, state), w) }
     else do {
       ((result, state), w) \<leftarrow> cat_loop c number_lines descriptor state w;
       case result of
         None \<Rightarrow> do {
           (_, w) \<leftarrow> failing c ''cat'' path (- MINIOS_EIO) w;
           (_, w) \<leftarrow> sys_close c descriptor w;
           Some ((False, state), w)
         }
       | Some result \<Rightarrow> do {
           (_, w) \<leftarrow> (if result < 0 then failing c ''cat'' path result w else Some (True, w));
           (closed, w) \<leftarrow> sys_close c descriptor w;
           if closed < 0 then do { (_, w) \<leftarrow> failing c ''cat'' path (- MINIOS_EIO) w; Some ((False, state), w) }
           else Some ((result = 0, state), w)
         }
     }
   }"

fun cat_options :: "u8 list list \<Rightarrow> bool \<Rightarrow> (bool \<times> u8 list list) option" where
  "cat_options [] number_lines = Some (number_lines, [])"
| "cat_options (argument # arguments) number_lines =
     (if option_word argument
      then (if minios_streq argument (bytes_of ''--'') then Some (number_lines, arguments)
            else if \<not> minios_streq argument (bytes_of ''-n'') then None else cat_options arguments True)
      else Some (number_lines, argument # arguments))"

primrec cat_files :: "'w calls \<Rightarrow> bool \<Rightarrow> u8 list list \<Rightarrow> u32 \<times> bool \<Rightarrow> ('w, bool) program" where
  "cat_files c number_lines [] state w = Some (True, w)"
| "cat_files c number_lines (path # paths) state w = do {
     ((ok, state), w) \<leftarrow> copy_file c number_lines path state w;
     (success, w) \<leftarrow> cat_files c number_lines paths state w;
     Some (ok \<and> success, w)
   }"

definition cat_main :: "'w calls \<Rightarrow> u8 list list \<Rightarrow> ('w, int) program" where
  "cat_main c argv w =
     (if argv = [] then Some (2, w)
      else case cat_options (tl argv) False of
        None \<Rightarrow> print_usage c ''usage: cat [-n] [--] file...'' w
      | Some (_, []) \<Rightarrow> print_usage c ''usage: cat [-n] [--] file...'' w
      | Some (number_lines, paths) \<Rightarrow> ends_with (cat_files c number_lines paths (1, True)) w)"

subsection \<open>cp\<close>

partial_function (option) cp_loop :: "'w calls \<Rightarrow> int \<Rightarrow> int \<Rightarrow> 'w \<Rightarrow> (int option \<times> 'w) option" where
  "cp_loop c source destination w =
     Option.bind (sys_read c source 256 w) (\<lambda>r. case r of ((result, bytes), w) \<Rightarrow>
       if result \<le> 0 then Some (Some result, w)
       else Option.bind (minios_write_all c destination bytes w) (\<lambda>r. case r of (ok, w) \<Rightarrow>
         if \<not> ok then Some (None, w) else cp_loop c source destination w))"

text \<open>The end of the program: closing what is open.\<close>

definition cp_finish :: "'w calls \<Rightarrow> u8 list list \<Rightarrow> int \<Rightarrow> int \<Rightarrow> bool \<Rightarrow> ('w, int) program" where
  "cp_finish c argv source destination success w = do {
     (success, w) \<leftarrow>
       (if destination \<ge> 3
        then do { (closed, w) \<leftarrow> sys_close c destination w;
                  if closed < 0 then failing c ''cp'' (argv ! 2) (- MINIOS_EIO) w else Some (success, w) }
        else Some (success, w));
     (success, w) \<leftarrow>
       (if source \<ge> 3
        then do { (closed, w) \<leftarrow> sys_close c source w;
                  if closed < 0 then failing c ''cp'' (argv ! 1) (- MINIOS_EIO) w else Some (success, w) }
        else Some (success, w));
     Some (if success then 0 else 1, w)
   }"

text \<open>The copy itself, once the two paths have been checked.\<close>

definition cp_copy :: "'w calls \<Rightarrow> u8 list list \<Rightarrow> ('w, int) program" where
  "cp_copy c argv w = do {
     (source, w) \<leftarrow> sys_open c (argv ! 1) MINIOS_O_RDONLY w;
     if source < 3 then map_option (\<lambda>(_, w). (1, w)) (failing c ''cp'' (argv ! 1) source w)
     else do {
       (destination, w) \<leftarrow> sys_open c (argv ! 2) (MINIOS_O_WRONLY OR MINIOS_O_CREAT OR MINIOS_O_TRUNC) w;
       if destination < 3 then do {
         (_, w) \<leftarrow> failing c ''cp'' (argv ! 2) destination w;
         cp_finish c argv source destination False w
       }
       else do {
         (result, w) \<leftarrow> cp_loop c source destination w;
         (success, w) \<leftarrow>
           (case result of
              None \<Rightarrow> failing c ''cp'' (argv ! 2) (- MINIOS_EIO) w
            | Some result \<Rightarrow> if result < 0 then failing c ''cp'' (argv ! 1) result w else Some (True, w));
         cp_finish c argv source destination success w
       }
     }
   }"

definition cp_main :: "'w calls \<Rightarrow> u8 list list \<Rightarrow> ('w, int) program" where
  "cp_main c argv w =
     (if length argv \<noteq> 3 then print_usage c ''usage: cp source destination'' w
      else let fail = (\<lambda>path error w. map_option (\<lambda>(_, w). (1, w)) (failing c ''cp'' path error w))
           in do {
             ((result, source_status), w) \<leftarrow> sys_stat c (argv ! 1) w;
             if result < 0 then fail (argv ! 1) result w
             else if ms_mode source_status \<noteq> MINIFS_MODE_REGULAR then fail (argv ! 1) (- MINIOS_EISDIR) w
             else do {
               ((result, destination_status), w) \<leftarrow> sys_stat c (argv ! 2) w;
               if result = 0 \<and> ms_inode destination_status = ms_inode source_status then fail (argv ! 2) (- MINIOS_EINVAL) w
               else if result = 0 \<and> ms_mode destination_status = MINIFS_MODE_DIRECTORY then fail (argv ! 2) (- MINIOS_EISDIR) w
               else if result < 0 \<and> result \<noteq> - MINIOS_ENOENT then fail (argv ! 2) result w
               else cp_copy c argv w
             }
           })"

subsection \<open>ls\<close>

record ls_options =
  show_all :: bool
  long_format :: bool

definition join_path :: "nat \<Rightarrow> u8 list \<Rightarrow> u8 list \<Rightarrow> u8 list option" where
  "join_path capacity directory name = do {
     destination \<leftarrow> append_bounded capacity [] directory;
     destination \<leftarrow> (if destination = [] \<or> last destination \<noteq> 0x2F then append_bounded capacity destination [0x2F] else Some destination);
     append_bounded capacity destination name
   }"

definition print_name :: "'w calls \<Rightarrow> u8 list \<Rightarrow> u16 \<Rightarrow> ('w, bool) program" where
  "print_name c name mode =
     all_of ([minios_print c 1 name] @ (if mode = MINIFS_MODE_DIRECTORY then [minios_print c 1 [0x2F]] else []) @ [minios_print c 1 [0x0A]])"

definition print_long_entry :: "'w calls \<Rightarrow> u8 list \<Rightarrow> minios_stat \<Rightarrow> ('w, bool) program" where
  "print_long_entry c display_name status =
     all_of [minios_write_all c 1 [if ms_mode status = MINIFS_MODE_DIRECTORY then 0x64 else 0x2D], minios_print c 1 [0x20],
       minios_print_uint32 c 1 (ms_size status), minios_print c 1 [0x20], print_name c display_name (ms_mode status)]"

text \<open>
  What the loop does with an entry in the long format: a path that is too long or cannot be examined is reported and skipped,
  \<open>(False, True)\<close>; if the output fails the loop ends, \<open>(False, False)\<close>.
\<close>

definition list_long :: "'w calls \<Rightarrow> u8 list \<Rightarrow> u8 list \<Rightarrow> ('w, bool \<times> bool) program" where
  "list_long c path name w =
     (case join_path 256 path name of
        None \<Rightarrow> and_then (minios_report_error c ''ls'' (Some name) (- MINIOS_EINVAL)) (False, True) w
      | Some child_path \<Rightarrow> do {
          ((result, status), w) \<leftarrow> sys_stat c child_path w;
          if result < 0 then and_then (minios_report_error c ''ls'' (Some child_path) result) (False, True) w
          else do { (ok, w) \<leftarrow> print_long_entry c name status w; Some ((ok, ok), w) }
        })"

text \<open>The loop over the entries, with the last result of the call that reads one.\<close>

partial_function (option) list_loop :: "'w calls \<Rightarrow> ls_options \<Rightarrow> u8 list \<Rightarrow> int \<Rightarrow> bool \<Rightarrow> 'w \<Rightarrow> ((int \<times> bool) \<times> 'w) option" where
  "list_loop c options path descriptor success w =
     Option.bind (sys_readdir c descriptor 68 w) (\<lambda>r. case r of ((result, entry), w) \<Rightarrow>
       let name = c_string (md_name entry)
       in if result \<noteq> 1 then Some ((result, success), w)
          else if \<not> show_all options \<and> (minios_streq name (bytes_of ''.'') \<or> minios_streq name (bytes_of ''..''))
          then list_loop c options path descriptor success w
          else Option.bind (if long_format options then list_long c path name w
                            else map_option (\<lambda>(ok, w). ((ok, ok), w)) (print_name c name (md_mode entry) w))
                 (\<lambda>r. case r of ((ok, goes_on), w) \<Rightarrow>
                   if goes_on then list_loop c options path descriptor (success \<and> ok) w else Some ((result, False), w)))"

definition list_directory :: "'w calls \<Rightarrow> ls_options \<Rightarrow> u8 list \<Rightarrow> ('w, bool) program" where
  "list_directory c options path w = do {
     (descriptor, w) \<leftarrow> sys_open c path MINIOS_O_RDONLY w;
     if descriptor < 3 then failing c ''ls'' path descriptor w
     else do {
       ((result, success), w) \<leftarrow> list_loop c options path descriptor True w;
       (success, w) \<leftarrow> (if result < 0 then failing c ''ls'' path result w else Some (success, w));
       (closed, w) \<leftarrow> sys_close c descriptor w;
       if closed < 0 then failing c ''ls'' path (- MINIOS_EIO) w else Some (success, w)
     }
   }"

definition list_path :: "'w calls \<Rightarrow> ls_options \<Rightarrow> bool \<Rightarrow> u8 list \<Rightarrow> ('w, bool) program" where
  "list_path c options heading path w = do {
     ((result, status), w) \<leftarrow> sys_stat c path w;
     if result < 0 then failing c ''ls'' path result w
     else do {
       (ok, w) \<leftarrow> (if heading then all_of [minios_print c 1 path, minios_print c 1 (text_line '':'')] w else Some (True, w));
       if \<not> ok then Some (False, w)
       else if ms_mode status = MINIFS_MODE_DIRECTORY then list_directory c options path w
       else if long_format options then print_long_entry c path status w else print_name c path (ms_mode status) w
     }
   }"

fun ls_letters :: "u8 list \<Rightarrow> ls_options \<Rightarrow> ls_options option" where
  "ls_letters [] options = Some options"
| "ls_letters (x # letters) options =
     (if x = 0x61 then ls_letters letters (options\<lparr>show_all := True\<rparr>)
      else if x = 0x6C then ls_letters letters (options\<lparr>long_format := True\<rparr>) else None)"

fun parse_options :: "u8 list list \<Rightarrow> ls_options \<Rightarrow> (ls_options \<times> u8 list list) option" where
  "parse_options [] options = Some (options, [])"
| "parse_options (argument # arguments) options =
     (if option_word argument \<and> length argument > 1
      then (if minios_streq argument (bytes_of ''--'') then Some (options, arguments)
            else do { options \<leftarrow> ls_letters (tl argument) options; parse_options arguments options })
      else Some (options, argument # arguments))"

text \<open>The paths after the first one, each behind an empty line.\<close>

definition list_next :: "'w calls \<Rightarrow> ls_options \<Rightarrow> u8 list \<Rightarrow> ('w, bool) program" where
  "list_next c options path w = do {
     (ok, w) \<leftarrow> minios_print c 1 [0x0A] w;
     (listed, w) \<leftarrow> list_path c options True path w;
     Some (ok \<and> listed, w)
   }"

definition ls_main :: "'w calls \<Rightarrow> u8 list list \<Rightarrow> ('w, int) program" where
  "ls_main c argv w =
     (case (if argv = [] then None else parse_options (tl argv) \<lparr>show_all = False, long_format = False\<rparr>) of
        None \<Rightarrow> print_usage c ''usage: ls [-a] [-l] [path...]'' w
      | Some (options, []) \<Rightarrow> ends_with (list_path c options False (bytes_of ''.'')) w
      | Some (options, path # paths) \<Rightarrow> ends_with (\<lambda>w. do {
          (ok, w) \<leftarrow> list_path c options (paths \<noteq> []) path w;
          (success, w) \<leftarrow> for_each (list_next c options) paths w;
          Some (ok \<and> success, w)
        }) w)"

subsection \<open>mkdir, touch, rm and stat\<close>

definition mkdir_main :: "'w calls \<Rightarrow> u8 list list \<Rightarrow> ('w, int) program" where
  "mkdir_main c argv w =
     (if length argv < 2 then print_usage c ''usage: mkdir directory...'' w
      else ends_with (for_each (\<lambda>path w. do {
        (result, w) \<leftarrow> sys_mkdir c path w;
        if result < 0 then failing c ''mkdir'' path result w else Some (True, w)
      }) (tl argv)) w)"

definition touch_main :: "'w calls \<Rightarrow> u8 list list \<Rightarrow> ('w, int) program" where
  "touch_main c argv w =
     (if length argv < 2 then print_usage c ''usage: touch file...'' w
      else ends_with (for_each (\<lambda>path w. do {
        (descriptor, w) \<leftarrow> sys_open c path (MINIOS_O_WRONLY OR MINIOS_O_CREAT) w;
        if descriptor < 3 then failing c ''touch'' path descriptor w
        else do {
          (closed, w) \<leftarrow> sys_close c descriptor w;
          if closed < 0 then failing c ''touch'' path (- MINIOS_EIO) w else Some (True, w)
        }
      }) (tl argv)) w)"

definition rm_main :: "'w calls \<Rightarrow> u8 list list \<Rightarrow> ('w, int) program" where
  "rm_main c argv w =
     (let force = (length argv > 1 \<and> minios_streq (argv ! 1) (bytes_of ''-f'')); paths = drop (if force then 2 else 1) argv
      in if paths = [] then print_usage c ''usage: rm [-f] path...'' w
         else ends_with (for_each (\<lambda>path w. do {
           (result, w) \<leftarrow> sys_unlink c path w;
           if result < 0 \<and> \<not> (force \<and> result = - MINIOS_ENOENT) then failing c ''rm'' path result w else Some (True, w)
         }) paths) w)"

definition print_status :: "'w calls \<Rightarrow> u8 list \<Rightarrow> minios_stat \<Rightarrow> ('w, bool) program" where
  "print_status c path status =
     all_of [minios_print c 1 path, minios_print c 1 (bytes_of '': type=''),
       minios_print c 1 (bytes_of (if ms_mode status = MINIFS_MODE_DIRECTORY then ''directory'' else ''file'')),
       minios_print c 1 (bytes_of '' inode=''), minios_print_uint32 c 1 (ms_inode status),
       minios_print c 1 (bytes_of '' links=''), minios_print_uint32 c 1 (ucast (ms_link_count status)),
       minios_print c 1 (bytes_of '' size=''), minios_print_uint32 c 1 (ms_size status), minios_print c 1 [0x0A]]"

definition stat_main :: "'w calls \<Rightarrow> u8 list list \<Rightarrow> ('w, int) program" where
  "stat_main c argv w =
     (if length argv < 2 then print_usage c ''usage: stat path...'' w
      else ends_with (for_each (\<lambda>path w. do {
        ((result, status), w) \<leftarrow> sys_stat c path w;
        if result < 0 then failing c ''stat'' path result w else print_status c path status w
      }) (tl argv)) w)"

subsection \<open>ps, sleep and uptime\<close>

definition state_name :: "u32 \<Rightarrow> u8 list" where
  "state_name state = bytes_of
     (if state = 1 then ''NEW'' else if state = 2 then ''READY'' else if state = 3 then ''RUNNING''
      else if state = 4 then ''BLOCKED'' else if state = 5 then ''ZOMBIE'' else ''UNKNOWN'')"

definition ps_main :: "'w calls \<Rightarrow> u8 list list \<Rightarrow> ('w, int) program" where
  "ps_main c argv w =
     (if length argv \<noteq> 1 then print_usage c ''usage: ps'' w
      else do {
        ((count, processes), w) \<leftarrow> sys_ps c 16 w;
        if count < 0 then and_then (minios_report_error c ''ps'' None count) 1 w
        else ends_with (all_of (minios_print c 1 (text_line ''PID PPID STATE   NAME'') # concat (map (\<lambda>process.
          [minios_print_uint32 c 1 (info_pid process), minios_print c 1 [0x20],
           minios_print_uint32 c 1 (info_parent_pid process), minios_print c 1 [0x20],
           minios_print c 1 (state_name (info_state process)), minios_print c 1 [0x20],
           minios_print c 1 (c_string (info_name process)), minios_print c 1 [0x0A]]) (take (nat count) processes)))) w
      })"

fun seconds_loop :: "u8 list \<Rightarrow> u32 \<Rightarrow> u32 option" where
  "seconds_loop [] value = Some value"
| "seconds_loop (x # text) value =
     (if x < 0x30 \<or> x > 0x39 then None
      else let digit = ucast (x - 0x30)
           in if value > (0x7FFFFFFF div 100 - digit) div 10 then None else seconds_loop text (value * 10 + digit))"

definition parse_seconds :: "u8 list \<Rightarrow> u32 option" where
  "parse_seconds text = (if text = [] then None else seconds_loop text 0)"

definition sleep_main :: "'w calls \<Rightarrow> u8 list list \<Rightarrow> ('w, int) program" where
  "sleep_main c argv w =
     (case (if length argv \<noteq> 2 then None else parse_seconds (argv ! 1)) of
        None \<Rightarrow> print_usage c ''usage: sleep seconds'' w
      | Some seconds \<Rightarrow> do {
          (result, w) \<leftarrow> sys_sleep c (seconds * 100) w;
          if result < 0 then and_then (minios_report_error c ''sleep'' None result) 1 w else Some (0, w)
        })"

definition uptime_main :: "'w calls \<Rightarrow> u8 list list \<Rightarrow> ('w, int) program" where
  "uptime_main c argv w =
     (if length argv \<noteq> 1 then print_usage c ''usage: uptime'' w
      else do {
        (ticks, w) \<leftarrow> sys_getticks c w;
        ends_with (all_of [minios_print c 1 (bytes_of ''uptime: ''), minios_print_uint32 c 1 (ticks div 100),
          minios_print c 1 (bytes_of '' seconds (''), minios_print_uint32 c 1 ticks, minios_print c 1 (text_line '' ticks)'')]) w
      })"

subsection \<open>memtest, fault and init\<close>

text \<open>A call whose result is compared, and a write that must be complete.\<close>

definition check :: "('w, 'a) program \<Rightarrow> ('a \<Rightarrow> bool) \<Rightarrow> ('w, bool) program" where
  "check p expected w = map_option (\<lambda>(r, w). (expected r, w)) (p w)"

definition writes_line :: "'w calls \<Rightarrow> string \<Rightarrow> ('w, bool) program" where
  "writes_line c message = check (sys_write c 1 (text_line message)) (\<lambda>written. written = int (length (text_line message)))"

text \<open>The private variable is zero when the program starts; reading it back gives what was stored.\<close>

definition memtest_main :: "'w calls \<Rightarrow> u8 list list \<Rightarrow> ('w, int) program" where
  "memtest_main c argv w =
     (if length argv \<noteq> 1 then Some (2, w)
      else ends_with (all_of [check (sys_getpid c) (\<lambda>pid. (of_int pid :: u32) \<noteq> 0), writes_line c ''[USER] memtest PASS'']) w)"

text \<open>The store to an address without a page ends the program, \<^const>\<open>None\<close>.\<close>

definition fault_main :: "'w calls \<Rightarrow> u8 list list \<Rightarrow> ('w, int) program" where
  "fault_main c argv w =
     (if length argv \<noteq> 1 then Some (2, w)
      else do { (ok, w) \<leftarrow> writes_line c ''[USER] fault trigger'' w; if \<not> ok then Some (2, w) else None })"

definition test_file_syscalls :: "'w calls \<Rightarrow> ('w, bool) program" where
  "test_file_syscalls c w = do {
     (ok, w) \<leftarrow> all_of
       [check (sys_stat c (bytes_of ''/bin/init'')) (\<lambda>(r, status). r = 0 \<and> ms_size status \<ge> 4),
        check (sys_open c (bytes_of ''/bin/missing'') MINIOS_O_RDONLY) (\<lambda>r. r = - MINIOS_ENOENT),
        check (sys_open c (bytes_of ''/bin/init'') 0x80000000) (\<lambda>r. r = - MINIOS_EINVAL)] w;
     if \<not> ok then Some (False, w)
     else do {
       (descriptor, w) \<leftarrow> sys_open c (bytes_of ''/bin/init'') MINIOS_O_RDONLY w;
       if descriptor < 3 then Some (False, w)
       else do {
         (ok, w) \<leftarrow> all_of
           [check (sys_read c descriptor 4) (\<lambda>(r, magic). r = 4 \<and> magic = [0x7F, 0x45, 0x4C, 0x46]),
            check (sys_lseek c descriptor 0 0) (\<lambda>r. r = 0),
            check (sys_read c descriptor 1) (\<lambda>(r, magic). r = 1 \<and> magic = [0x7F]),
            check (sys_close c descriptor) (\<lambda>r. r = 0),
            check (sys_close c descriptor) (\<lambda>r. r = - MINIOS_EBADF)] w;
         if \<not> ok then and_then (sys_close c descriptor) False w
         else all_of [check (sys_open c (bytes_of ''/bin/sh'') MINIOS_O_RDONLY) (\<lambda>r. r \<ge> 3), writes_line c ''[USER] file syscall PASS''] w
       }
     }
   }"

text \<open>The loop over the entries of the directory: how many there are, and which of the three expected ones were seen.\<close>

partial_function (option) entries_loop :: "'w calls \<Rightarrow> int \<Rightarrow> u32 \<times> bool \<times> bool \<times> bool \<Rightarrow> 'w \<Rightarrow> ((int \<times> u32 \<times> bool \<times> bool \<times> bool) \<times> 'w) option" where
  "entries_loop c directory seen w =
     Option.bind (sys_readdir c directory 68 w) (\<lambda>r. case r of ((result, entry), w) \<Rightarrow>
       case seen of (entries, saw_current, saw_parent, saw_file) \<Rightarrow>
         let name = c_string (md_name entry); is_directory = (md_mode entry = MINIFS_MODE_DIRECTORY)
         in if result \<noteq> 1 then Some ((result, seen), w)
            else entries_loop c directory
              (if minios_streq name (bytes_of ''.'') then (entries + 1, is_directory, saw_parent, saw_file)
               else if minios_streq name (bytes_of ''..'') then (entries + 1, saw_current, is_directory, saw_file)
               else if minios_streq name (bytes_of ''file'') then (entries + 1, saw_current, saw_parent, md_mode entry = MINIFS_MODE_REGULAR)
               else (entries + 1, saw_current, saw_parent, saw_file)) w)"

definition test_directory_syscalls :: "'w calls \<Rightarrow> ('w, bool) program" where
  "test_directory_syscalls c w =
     (let directory_path = bytes_of ''/p6-user-dir''; file_path = bytes_of ''/p6-user-dir/file''
      in do {
        (ok, w) \<leftarrow> all_of
          [check (sys_mkdir c directory_path) (\<lambda>r. r = 0), check (sys_mkdir c directory_path) (\<lambda>r. r = - MINIOS_EEXIST),
           check (sys_create c file_path) (\<lambda>r. r = 0), check (sys_unlink c directory_path) (\<lambda>r. r = - MINIOS_ENOTEMPTY)] w;
        if \<not> ok then Some (False, w)
        else do {
          (descriptor, w) \<leftarrow> sys_open c file_path MINIOS_O_RDONLY w;
          if descriptor < 3 then Some (False, w)
          else do {
            (ok, w) \<leftarrow> all_of
              [check (sys_unlink c file_path) (\<lambda>r. r = - MINIOS_EBUSY),
               check (sys_readdir c descriptor 68) (\<lambda>(r, _). r = - MINIOS_ENOTDIR), check (sys_close c descriptor) (\<lambda>r. r = 0)] w;
            if \<not> ok then and_then (sys_close c descriptor) False w
            else do {
              (directory, w) \<leftarrow> sys_open c directory_path MINIOS_O_RDONLY w;
              if directory < 3 then Some (False, w)
              else do {
                ((result, _), w) \<leftarrow> sys_readdir c directory 67 w;
                if result \<noteq> - MINIOS_EINVAL then and_then (sys_close c directory) False w
                else do {
                  ((result, entries, saw_current, saw_parent, saw_file), w) \<leftarrow> entries_loop c directory (0, False, False, False) w;
                  (ok, w) \<leftarrow>
                    (if result \<noteq> 0 \<or> entries \<noteq> 3 \<or> \<not> saw_current \<or> \<not> saw_parent \<or> \<not> saw_file then Some (False, w)
                     else check (sys_close c directory) (\<lambda>r. r = 0) w);
                  if \<not> ok then and_then (sys_close c directory) False w
                  else all_of
                    [check (sys_unlink c file_path) (\<lambda>r. r = 0), check (sys_stat c file_path) (\<lambda>(r, _). r = - MINIOS_ENOENT),
                     check (sys_unlink c directory_path) (\<lambda>r. r = 0), check (sys_stat c directory_path) (\<lambda>(r, _). r = - MINIOS_ENOENT),
                     writes_line c ''[USER] directory syscall PASS''] w
                }
              }
            }
          }
        }
      })"

definition test_cwd_syscalls :: "'w calls \<Rightarrow> ('w, bool) program" where
  "test_cwd_syscalls c w =
     (let fail = and_then (sys_chdir c (bytes_of ''/'')) False;
          at = (\<lambda>path. check (sys_getcwd c 256) (\<lambda>(r, cwd). r = 0 \<and> minios_streq (c_string cwd) (bytes_of path)))
      in do {
        (ok, w) \<leftarrow> all_of
          [at ''/'', check (sys_chdir c (bytes_of ''/bin/'')) (\<lambda>r. r = 0), at ''/bin'',
           check (sys_stat c (bytes_of ''./sh'')) (\<lambda>(r, status). r = 0 \<and> ms_mode status = MINIFS_MODE_REGULAR)] w;
        if \<not> ok then fail w
        else do {
          (descriptor, w) \<leftarrow> sys_open c (bytes_of ''../bin/echo'') MINIOS_O_RDONLY w;
          if descriptor < 3 then fail w
          else do {
            (closed, w) \<leftarrow> sys_close c descriptor w;
            if closed \<noteq> 0 then do { (_, w) \<leftarrow> sys_close c descriptor w; fail w }
            else do {
              (ok, w) \<leftarrow> all_of
                [check (sys_chdir c (bytes_of ''init'')) (\<lambda>r. r = - MINIOS_ENOTDIR),
                 check (sys_chdir c (bytes_of ''missing'')) (\<lambda>r. r = - MINIOS_ENOENT),
                 check (sys_chdir c (bytes_of ''..'')) (\<lambda>r. r = 0), at ''/'', writes_line c ''[USER] cwd syscall PASS''] w;
              if \<not> ok then fail w else Some (True, w)
            }
          }
        }
      })"

text \<open>A child that is started and waited for must end with the given status.\<close>

definition child_ends :: "'w calls \<Rightarrow> u8 list list \<Rightarrow> int \<Rightarrow> ('w, bool) program" where
  "child_ends c arguments expected w = do {
     (child_pid, w) \<leftarrow> sys_spawn c (hd arguments) arguments w;
     if child_pid < 1 then Some (False, w)
     else check (sys_waitpid c child_pid) (\<lambda>(r, status). r = child_pid \<and> status = expected) w
   }"

definition init_main :: "'w calls \<Rightarrow> u8 list list \<Rightarrow> ('w, int) program" where
  "init_main c argv w =
     (if argv \<noteq> [bytes_of ''/bin/init'', bytes_of ''--self-test''] then Some (2, w)
      else do {
        (ok, w) \<leftarrow> all_of [test_file_syscalls c, test_directory_syscalls c, test_cwd_syscalls c] w;
        if \<not> ok then Some (2, w)
        else do {
          (ok, w) \<leftarrow> child_ends c (map bytes_of [''/bin/echo'', ''[USER]'', ''echo'', ''child'', ''PASS'']) 0 w;
          if \<not> ok then Some (4, w)
          else do {
            (ok, w) \<leftarrow> child_ends c (map bytes_of [''/bin/sh'', ''--self-test'']) 0 w;
            if \<not> ok then Some (5, w)
            else do {
              (ok, w) \<leftarrow> all_of [child_ends c [bytes_of ''/bin/fault''] (- MINIOS_EFAULT), writes_line c ''[USER] fault isolation PASS''] w;
              if \<not> ok then Some (6, w) else ends_with (writes_line c ''[USER] elf init PASS'') w
            }
          }
        }
      })"

end
