(* ===== verification/Programs_Correct.thy ===== *)
theory Programs_Correct
  imports Programs Scheduler
begin

text \<open>
  What the small programs guarantee: they close every file they open, however the system calls behave, and the numbers they print
  and read agree.
\<close>

subsection \<open>Open descriptors\<close>

text \<open>A world that also records the descriptors handed out and not yet closed.\<close>

definition beside :: "('w \<Rightarrow> ('r \<times> 'w) option) \<Rightarrow> ('r \<Rightarrow> int list \<Rightarrow> int list) \<Rightarrow> 'w \<times> int list \<Rightarrow> ('r \<times> 'w \<times> int list) option" where
  "beside p f = (\<lambda>(w, open). map_option (\<lambda>(r, w). (r, w, f r open)) (p w))"

definition tracked :: "'w calls \<Rightarrow> ('w \<times> int list) calls" where
  "tracked c = \<lparr>sys_write = (\<lambda>d bytes. beside (sys_write c d bytes) (\<lambda>_. id)), sys_read = (\<lambda>d n. beside (sys_read c d n) (\<lambda>_. id)),
     sys_open = (\<lambda>path flags. beside (sys_open c path flags) (\<lambda>d open. if d \<ge> 3 then d # open else open)),
     sys_close = (\<lambda>d. beside (sys_close c d) (\<lambda>_. remove1 d)), sys_lseek = (\<lambda>d offset whence. beside (sys_lseek c d offset whence) (\<lambda>_. id)),
     sys_create = (\<lambda>path. beside (sys_create c path) (\<lambda>_. id)), sys_unlink = (\<lambda>path. beside (sys_unlink c path) (\<lambda>_. id)),
     sys_mkdir = (\<lambda>path. beside (sys_mkdir c path) (\<lambda>_. id)), sys_readdir = (\<lambda>d n. beside (sys_readdir c d n) (\<lambda>_. id)),
     sys_stat = (\<lambda>path. beside (sys_stat c path) (\<lambda>_. id)), sys_spawn = (\<lambda>path arguments. beside (sys_spawn c path arguments) (\<lambda>_. id)),
     sys_waitpid = (\<lambda>pid. beside (sys_waitpid c pid) (\<lambda>_. id)), sys_getpid = beside (sys_getpid c) (\<lambda>_. id),
     sys_sleep = (\<lambda>ticks. beside (sys_sleep c ticks) (\<lambda>_. id)), sys_chdir = (\<lambda>path. beside (sys_chdir c path) (\<lambda>_. id)),
     sys_getcwd = (\<lambda>n. beside (sys_getcwd c n) (\<lambda>_. id)), sys_getticks = beside (sys_getticks c) (\<lambda>_. id),
     sys_ps = (\<lambda>n. beside (sys_ps c n) (\<lambda>_. id))\<rparr>"

text \<open>A step after which exactly these descriptors are open, and a program that leaves the open descriptors as they are.\<close>

definition ends :: "int list \<Rightarrow> ('r \<times> 'w \<times> int list) option \<Rightarrow> bool" where
  "ends ds x \<longleftrightarrow> (\<forall>r w ds'. x = Some (r, w, ds') \<longrightarrow> ds' = ds)"

definition keeps :: "('w \<times> int list, 'r) program \<Rightarrow> bool" where
  "keeps p \<longleftrightarrow> (\<forall>w ds. ends ds (p (w, ds)))"

lemma keepsI: "(\<And>w ds. ends ds (p (w, ds))) \<Longrightarrow> keeps p"
  by (simp add: keeps_def)

lemma ends_seq:
  assumes "ends ds x" "\<And>r w. ends ds' (f r (w, ds))"
  shows "ends ds' (Option.bind x (\<lambda>(r, w). f r w))"
proof (cases x)
  case (Some y)
  then obtain r w' where "y = (r, w', ds)" using assms(1) by (cases y) (auto simp: ends_def)
  then show ?thesis using assms(2) Some by simp
qed (simp add: ends_def)

lemma ends_open:
  assumes "\<And>d w. d < 3 \<Longrightarrow> ends ds' (f d (w, ds))" "\<And>d w. \<not> d < 3 \<Longrightarrow> ends ds' (f d (w, d # ds))"
  shows "ends ds' (Option.bind (sys_open (tracked c) path flags (w, ds)) (\<lambda>(d, w). f d w))"
proof (cases "sys_open c path flags w")
  case (Some x)
  then show ?thesis using assms [of "fst x" "snd x"] by (cases "fst x < 3") (simp_all add: tracked_def beside_def split_beta)
qed (simp add: ends_def tracked_def beside_def)

lemma ends_close:
  assumes "\<And>r w. ends ds' (f r (w, ds))"
  shows "ends ds' (Option.bind (sys_close (tracked c) d (w, d # ds)) (\<lambda>(r, w). f r w))"
  using assms by (cases "sys_close c d w") (simp_all add: tracked_def beside_def split_beta, simp add: ends_def)

lemma ends_some: "ends ds (Some (r, w, ds))" "ends ds None"
  by (simp_all add: ends_def)

lemma ends_map: "ends ds x \<Longrightarrow> ends ds (map_option (\<lambda>(r, w). (g r, w)) x)"
  by (auto simp: ends_def)

lemma ends_case: "(\<And>a b. ends ds' (f a b (w, ds))) \<Longrightarrow> ends ds' (case_prod f r (w, ds))"
  by (cases r) simp

lemma ends_pair: "(\<And>a b. ends ds (f a b)) \<Longrightarrow> ends ds (case_prod f r)"
  by (cases r) simp

lemma ends_keeps: "keeps p \<Longrightarrow> ends ds (p (w, ds))"
  by (simp add: keeps_def)

lemma ends_cond: "(P \<Longrightarrow> ends ds x) \<Longrightarrow> (\<not> P \<Longrightarrow> ends ds y) \<Longrightarrow> ends ds (if P then x else y)"
  by simp

lemma ends_option: "(r = None \<Longrightarrow> ends ds x) \<Longrightarrow> (\<And>a. r = Some a \<Longrightarrow> ends ds (f a)) \<Longrightarrow> ends ds (case r of None \<Rightarrow> x | Some a \<Rightarrow> f a)"
  by (cases r) simp_all

lemma keeps_calls:
  "keeps (sys_write (tracked c) d bytes)" "keeps (sys_read (tracked c) d n)" "keeps (sys_lseek (tracked c) d offset whence)"
  "keeps (sys_unlink (tracked c) path)" "keeps (sys_mkdir (tracked c) path)" "keeps (sys_readdir (tracked c) d n)"
  "keeps (sys_stat (tracked c) path)" "keeps (sys_sleep (tracked c) ticks)" "keeps (sys_getticks (tracked c))"
  "keeps (sys_ps (tracked c) n)"
  by (auto simp: keeps_def ends_def tracked_def beside_def)

lemma keeps_skip: "keeps (\<lambda>w. Some (r, w))"
  by (simp add: keeps_def ends_def)

lemma keeps_all_of: "(\<And>p. p \<in> set ps \<Longrightarrow> keeps p) \<Longrightarrow> keeps (all_of ps)"
proof (induction ps)
  case (Cons p ps)
  have "ends ds (Option.bind (p (w, ds)) (\<lambda>(ok, w). if ok then all_of ps w else Some (False, w)))" for w ds
    by (rule ends_seq, rule ends_keeps, rule Cons.prems, simp, rule ends_cond, rule ends_keeps, rule Cons.IH, rule Cons.prems, simp, rule ends_some)
  then show ?case by (simp add: keeps_def)
qed (simp add: keeps_def ends_def)

lemma keeps_and_then: "keeps p \<Longrightarrow> keeps (and_then p r)"
  by (auto simp: keeps_def ends_def and_then_def)

lemma keeps_ends_with: "keeps p \<Longrightarrow> keeps (ends_with p)"
  by (auto simp: keeps_def ends_def ends_with_def)

lemma keeps_write_all: "keeps (minios_write_all (tracked c) d bytes)"
proof -
  have "ends ds (write_all_loop (tracked c) d bytes offset (w, ds))" for offset w ds
  proof (induction "length bytes - offset" arbitrary: offset w rule: less_induct)
    case less
    show ?case
      unfolding write_all_loop.simps [of _ d bytes offset] Let_def
      by (rule ends_cond, rule ends_seq, rule ends_keeps, rule keeps_calls, rule ends_cond, rule ends_some, rule less, simp, rule ends_some)
  qed
  then show ?thesis by (simp add: keeps_def minios_write_all_def)
qed

lemma keeps_print: "keeps (minios_print (tracked c) d bytes)" "keeps (minios_print_uint32 (tracked c) d n)"
  unfolding minios_print_def minios_print_uint32_def by (rule keeps_write_all)+

lemma keeps_messages:
  "keeps (minios_report_error (tracked c) command operand error)" "keeps (print_usage (tracked c) message)"
  "keeps (failing (tracked c) command path error)" "keeps (print_arguments (tracked c) d arguments)"
proof -
  show report: "keeps (minios_report_error (tracked c) command operand error)" for command operand error
    unfolding minios_report_error_def by (rule keeps_all_of) (auto intro: keeps_print split: option.splits)
  show "keeps (print_usage (tracked c) message)" "keeps (failing (tracked c) command path error)"
    unfolding print_usage_def failing_def by (rule keeps_and_then keeps_print report)+
  show "keeps (print_arguments (tracked c) d arguments)"
    by (cases arguments) (auto intro!: keeps_all_of intro: keeps_print split: if_splits)
qed

lemma keeps_lists:
  "keeps (all_of [])" "keeps p \<Longrightarrow> keeps (all_of ps) \<Longrightarrow> keeps (all_of (p # ps))"
  "keeps (all_of ps) \<Longrightarrow> keeps (all_of qs) \<Longrightarrow> keeps (all_of (ps @ qs))"
  "(P \<Longrightarrow> keeps (all_of ps)) \<Longrightarrow> (\<not> P \<Longrightarrow> keeps (all_of qs)) \<Longrightarrow> keeps (all_of (if P then ps else qs))"
proof -
  show single: "keeps (all_of [])" by (simp add: keeps_def ends_def)
  show cons: "keeps (all_of (p # ps))" if "keeps p" "keeps (all_of ps)" for p ps
    unfolding keeps_def all_of.simps by (intro allI, rule ends_seq, rule ends_keeps, rule that, rule ends_cond, rule ends_keeps, rule that, rule ends_some)
  show "keeps (all_of (ps @ qs))" if "keeps (all_of ps)" "keeps (all_of qs)"
    unfolding keeps_def all_of_append
    by (intro allI, rule ends_seq, rule ends_keeps, rule that, rule ends_cond, rule ends_keeps, rule that, rule ends_some)
qed simp

lemma keeps_concat: "(\<And>x. keeps (all_of (f x))) \<Longrightarrow> keeps (all_of (concat (map f xs)))"
  by (induction xs) (auto intro: keeps_lists simp del: all_of.simps)

lemmas keeping = keeps_concat keeps_calls keeps_write_all keeps_print keeps_messages keeps_and_then keeps_ends_with keeps_skip keeps_lists

lemma keeps_for_each: "(\<And>path. keeps (step path)) \<Longrightarrow> keeps (for_each step paths)"
proof (induction paths)
  case (Cons path paths)
  show ?case
    by (rule keepsI, simp only: for_each.simps, rule ends_seq, rule ends_keeps, rule Cons.prems, rule ends_seq, rule ends_keeps, rule Cons.IH, rule Cons.prems, rule ends_some)
qed (simp add: keeps_def ends_def)

lemmas steps = ends_cond ends_option ends_case ends_pair ends_open ends_close ends_some ends_map ends_seq keeping [THEN ends_keeps] keeping

lemma write_keeps: "keeps (write_main (tracked c) argv)"
  unfolding write_main_def Let_def
  by (rule keepsI, simp only: split: option.split prod.split list.split, intro conjI impI allI) (linarith | rule steps)+

lemma cp_finish_ends:
  assumes "\<not> source < 3"
  shows "\<not> destination < 3 \<Longrightarrow> ends ds (cp_finish (tracked c) argv source destination success (w, destination # source # ds))"
    and "destination < 3 \<Longrightarrow> ends ds (cp_finish (tracked c) argv source destination success (w, source # ds))"
  unfolding cp_finish_def by (insert assms) (linarith | rule steps)+

text \<open>Loops that may not end: it suffices that one pass keeps the descriptors if the passes after it do.\<close>

lemma keeps_iff: "keeps p \<longleftrightarrow> (\<forall>w r. p w = Some r \<longrightarrow> snd (snd r) = snd w)"
  by (auto simp: keeps_def ends_def)

lemma ends_result: "x = Some r \<Longrightarrow> ends ds x \<Longrightarrow> snd (snd r) = ds"
  by (cases r) (auto simp: ends_def)

lemma cp_loop_keeps: "keeps (cp_loop (tracked c) source destination)"
proof -
  have "c' = tracked c \<longrightarrow> snd (snd r) = snd w" if "cp_loop c' s d w = Some r" for c' s d w r
    using that
  proof (rule cp_loop.raw_induct [where P = "\<lambda>c' s d w r. c' = tracked c \<longrightarrow> snd (snd r) = snd w", rotated], goal_cases)
    case (1 f c' s d w r)
    from 1(1) have "keeps (f (tracked c) s d)" unfolding keeps_iff by blast
    note step = ends_keeps [OF this]
    show ?case
      by (intro impI, rule ends_result [OF 1(2)], hypsubst, cases w, hypsubst, unfold snd_conv) (rule steps step)+
  qed
  then show ?thesis by (simp add: keeps_iff)
qed

lemma cp_keeps: "keeps (cp_main (tracked c) argv)"
proof -
  have copy: "keeps (cp_copy (tracked c) argv)"
    unfolding cp_copy_def
    by (rule keepsI) (linarith | rule steps cp_loop_keeps [THEN ends_keeps] cp_finish_ends | assumption)+
  show ?thesis
    unfolding cp_main_def Let_def by (rule keepsI) (rule steps copy [THEN ends_keeps])+
qed

lemma cat_chunk_keeps: "keeps (cat_chunk (tracked c) number_lines bytes state)"
proof (rule keepsI)
  fix w ds
  show "ends ds (cat_chunk (tracked c) number_lines bytes state (w, ds))"
  proof (induction "length bytes" arbitrary: bytes state w rule: less_induct)
    case less
    obtain n s where state: "state = (n, s)" by (cases state)
    show ?case
      unfolding state cat_chunk.simps [of _ _ bytes] Let_def print_line_number_def
      by (linarith | rule steps less | simp)+
  qed
qed

lemma cat_loop_keeps: "keeps (cat_loop (tracked c) number_lines descriptor state)"
proof -
  have "c' = tracked c \<longrightarrow> snd (snd r) = snd w" if "cat_loop c' number_lines d state w = Some r" for c' number_lines d state w r
    using that
  proof (rule cat_loop.raw_induct [where P = "\<lambda>c' n d s w r. c' = tracked c \<longrightarrow> snd (snd r) = snd w", rotated], goal_cases)
    case (1 f c' n d s w r)
    from 1(1) have "keeps (f (tracked c) n d s)" for s unfolding keeps_iff by blast
    note step = ends_keeps [OF this]
    show ?case
      by (intro impI, rule ends_result [OF 1(2)], hypsubst, cases w, hypsubst, unfold snd_conv)
        (rule steps step cat_chunk_keeps [THEN ends_keeps])+
  qed
  then show ?thesis by (simp add: keeps_iff)
qed

lemma cat_keeps: "keeps (cat_main (tracked c) argv)"
proof -
  have copy: "keeps (copy_file (tracked c) number_lines path state)" for number_lines path state
    unfolding copy_file_def by (rule keepsI) (linarith | rule steps cat_loop_keeps [THEN ends_keeps])+
  have files: "keeps (cat_files (tracked c) number_lines paths state)" for number_lines paths state
  proof (induction paths arbitrary: state)
    case (Cons path paths)
    show ?case unfolding cat_files.simps by (rule keepsI) (rule steps copy [THEN ends_keeps] Cons [THEN ends_keeps])+
  qed (simp add: keeps_def ends_def)
  show ?thesis
    unfolding cat_main_def
    by (rule keepsI, simp only: split: option.split prod.split list.split, intro conjI impI allI) (rule steps files)+
qed

lemma list_entries_keep:
  "keeps (print_name (tracked c) name mode)" "keeps (print_long_entry (tracked c) name status)" "keeps (list_long (tracked c) path name)"
proof -
  show name: "keeps (print_name (tracked c) name mode)" for name mode unfolding print_name_def by (rule keeping)+
  show long: "keeps (print_long_entry (tracked c) name status)" for name status
    unfolding print_long_entry_def by (rule keeping name)+
  show "keeps (list_long (tracked c) path name)"
    unfolding list_long_def by (rule keepsI) (rule steps long [THEN ends_keeps])+
qed

lemma list_loop_keeps: "keeps (list_loop (tracked c) options path descriptor success)"
proof -
  have "c' = tracked c \<longrightarrow> snd (snd r) = snd w" if "list_loop c' options path d success w = Some r" for c' options path d success w r
    using that
  proof (rule list_loop.raw_induct [where P = "\<lambda>c' options path d success w r. c' = tracked c \<longrightarrow> snd (snd r) = snd w", rotated], goal_cases)
    case (1 f c' options path d success w r)
    from 1(1) have "keeps (f (tracked c) options path d success)" for success unfolding keeps_iff by blast
    note step = ends_keeps [OF this]
    show ?case
      by (intro impI, rule ends_result [OF 1(2)], hypsubst, cases w, hypsubst, unfold snd_conv Let_def)
        (rule steps step list_entries_keep [THEN ends_keeps])+
  qed
  then show ?thesis by (simp add: keeps_iff)
qed

lemma ls_keeps: "keeps (ls_main (tracked c) argv)"
proof -
  have directory: "keeps (list_directory (tracked c) options path)" for options path
    unfolding list_directory_def by (rule keepsI) (linarith | rule steps list_loop_keeps [THEN ends_keeps])+
  have path: "keeps (list_path (tracked c) options heading path)" for options heading path
    unfolding list_path_def by (rule keepsI) (rule steps directory [THEN ends_keeps] list_entries_keep [THEN ends_keeps])+
  have more: "keeps (list_next (tracked c) options path)" for options path
    unfolding list_next_def by (rule keepsI) (rule steps path [THEN ends_keeps])+
  show ?thesis
    unfolding ls_main_def
    by (rule keepsI, simp only: split: option.split prod.split list.split, intro conjI impI allI)
      (rule steps path more keeps_for_each | rule keepsI keeps_for_each [THEN ends_keeps] path [THEN ends_keeps])+
qed

lemma small_keep:
  "keeps (echo_main (tracked c) argv)" "keeps (mkdir_main (tracked c) argv)" "keeps (touch_main (tracked c) argv)"
  "keeps (rm_main (tracked c) argv)" "keeps (stat_main (tracked c) argv)" "keeps (ps_main (tracked c) argv)"
  "keeps (sleep_main (tracked c) argv)" "keeps (uptime_main (tracked c) argv)"
  unfolding echo_main_def mkdir_main_def touch_main_def rm_main_def stat_main_def ps_main_def sleep_main_def uptime_main_def
    print_status_def Let_def
  by (rule keepsI; (linarith | rule steps keeps_for_each | rule keepsI)+)+

definition file_programs :: "('w calls \<Rightarrow> u8 list list \<Rightarrow> ('w, int) program) list" where
  "file_programs = [echo_main, write_main, cat_main, cp_main, ls_main, mkdir_main, touch_main, rm_main, stat_main, ps_main, sleep_main,
     uptime_main]"

text \<open>
  C26. The programs close what they open. Whatever the system calls answer, and on every way a program ends, errors of reading,
  writing and closing included, the descriptors open at the end are those that were open at the start.
\<close>

theorem programs_close_files:
  assumes "main \<in> set file_programs" and "main (tracked c) argv (w, ds) = Some (status, w', ds')"
  shows "ds' = ds"
proof -
  have "keeps (main (tracked c) argv)"
    using assms(1) small_keep write_keeps cat_keeps cp_keeps ls_keeps unfolding file_programs_def by auto
  then show ?thesis using assms(2) by (auto simp: keeps_def ends_def)
qed

theorem programs_close_files_witness:
  "\<exists>ds. touch_main (tracked quiet_calls) [bytes_of ''touch'', bytes_of ''a''] ((), [7]) = Some (0, (), ds) \<and> ds = [7]"
proof -
  have member: "touch_main \<in> set file_programs" by (simp add: file_programs_def)
  have run: "touch_main (tracked quiet_calls) [bytes_of ''touch'', bytes_of ''a''] ((), [7]) = Some (0, (), remove1 3 [3, 7])"
    by (simp add: touch_main_def ends_with_def tracked_def beside_def)
  have "remove1 3 [3, 7] = [7 :: int]" by (rule programs_close_files [OF member run])
  then show ?thesis using run by simp
qed

subsection \<open>Numbers\<close>

text \<open>The number a text of digits denotes.\<close>

definition decimal :: "u8 list \<Rightarrow> nat" where
  "decimal = foldl (\<lambda>value x. 10 * value + (unat x - 48)) 0"

definition digits_only :: "u8 list \<Rightarrow> bool" where
  "digits_only = list_all (\<lambda>x. 0x30 \<le> x \<and> x \<le> 0x39)"

lemma digit_word:
  assumes "0x30 \<le> x" "x \<le> 0x39"
  shows "unat (ucast (x - 0x30 :: u8) :: u32) = unat x - 48" "unat x - 48 \<le> 9"
proof -
  have "unat (x - 0x30) = unat x - 48" using assms by (simp add: unat_sub word_le_nat_alt)
  moreover have "unat x - 48 < 2 ^ 32" using assms(2) by (simp add: word_le_nat_alt)
  ultimately show "unat (ucast (x - 0x30 :: u8) :: u32) = unat x - 48" by (simp add: unsigned_ucast_eq take_bit_nat_eq_self)
  show "unat x - 48 \<le> 9" using assms(2) by (simp add: word_le_nat_alt)
qed

lemma decimal_grows: "v \<le> foldl (\<lambda>value x. 10 * value + (unat (x :: u8) - 48)) v bs"
proof (induction bs arbitrary: v)
  case (Cons x bs)
  show ?case using Cons [of "10 * v + (unat x - 48)"] by simp
qed simp

lemma seconds_step:
  assumes "unat v \<le> 21474836" "unat digit \<le> 9"
  shows "v > (0x7FFFFFFF div 100 - digit) div 10 \<longleftrightarrow> 10 * unat v + unat digit > 21474836"
    and "10 * unat v + unat digit \<le> 21474836 \<Longrightarrow> unat (v * 10 + digit :: u32) = 10 * unat v + unat digit"
proof -
  have limit: "(0x7FFFFFFF div 100 :: u32) = 21474836" by (simp add: word_div_def)
  have "unat (21474836 - digit :: u32) = 21474836 - unat digit" using assms(2) by (subst unat_sub) (simp_all add: word_le_nat_alt)
  then have "unat ((0x7FFFFFFF div 100 - digit) div 10) = (21474836 - unat digit) div 10" by (simp add: limit unat_div)
  then show "v > (0x7FFFFFFF div 100 - digit) div 10 \<longleftrightarrow> 10 * unat v + unat digit > 21474836"
    using assms(2) unfolding word_less_nat_alt by linarith
  show "unat (v * 10 + digit :: u32) = 10 * unat v + unat digit" if "10 * unat v + unat digit \<le> 21474836"
    using that by (simp add: unat_word_ariths)
qed

lemma seconds_loop_exact:
  assumes "unat v \<le> 21474836"
  shows "seconds_loop bs v =
    (let n = foldl (\<lambda>value x. 10 * value + (unat x - 48)) (unat v) bs
     in if digits_only bs \<and> n \<le> 21474836 then Some (of_nat n) else None)"
  using assms
proof (induction bs arbitrary: v)
  case (Cons x bs)
  show ?case
  proof (cases "0x30 \<le> x \<and> x \<le> 0x39")
    case True
    let ?d = "ucast (x - 0x30) :: u32"
    have d: "unat ?d = unat x - 48" "unat ?d \<le> 9" using digit_word [of x] True by auto
    note step = seconds_step [OF Cons.prems d(2)]
    show ?thesis
      using True step Cons.IH [of "v * 10 + ?d"] decimal_grows [of "10 * unat v + (unat x - 48)" bs]
      by (auto simp: Let_def digits_only_def d(1) not_less)
  qed (auto simp: digits_only_def Let_def)
qed (simp add: digits_only_def)

text \<open>The digits in the order they are printed.\<close>

lemma reverse_digits_rev: "reverse_digits ds = rev ds"
proof -
  let ?n = "length ds" and ?swap = "\<lambda>index digits. let temporary = digits ! index
    in digits[index := digits ! (length ds - index - 1), length ds - index - 1 := temporary]"
  let ?I = "\<lambda>i (d :: u8 list). length d = ?n \<and> (\<forall>j<?n. d ! j = ds ! (if j < i \<or> ?n - i \<le> j then ?n - 1 - j else j))"
  have "?I (?n div 2) (for_range 0 (?n div 2) ?swap ds)"
    by (rule for_range_rule [where I = ?I]) (auto simp: Let_def list_update_nth)
  moreover have "?n - 1 - j = j" if "j < ?n" "\<not> j < ?n div 2" "\<not> ?n - ?n div 2 \<le> j" for j using that by linarith
  ultimately show ?thesis
    unfolding reverse_digits_def Let_def by (intro nth_equalityI) (auto simp: rev_nth)
qed

lemma digits_of_decimal:
  "decimal (rev (digits_of n)) = n" "digits_only (rev (digits_of n))" "digits_of n \<noteq> []"
proof -
  have "decimal (rev (digits_of n)) = n \<and> digits_only (rev (digits_of n)) \<and> digits_of n \<noteq> []"
  proof (induction n rule: digits_of.induct)
    case (1 n)
    have d: "unat (of_nat (0x30 + n mod 10) :: u8) = 48 + n mod 10" by (subst unat_of_nat) simp
    then have "0x30 \<le> (of_nat (0x30 + n mod 10) :: u8)" "(of_nat (0x30 + n mod 10) :: u8) \<le> 0x39"
      unfolding word_le_nat_alt d by simp_all
    then show ?case
      using 1 d unfolding digits_of.simps [of n] by (auto simp: decimal_def digits_only_def)
  qed
  then show "decimal (rev (digits_of n)) = n" "digits_only (rev (digits_of n))" "digits_of n \<noteq> []" by simp_all
qed

text \<open>
  C27. Numbers survive the way from the screen back into the program: the digits \<open>minios_print_uint32\<close> writes for a number are read
  by \<open>parse_seconds\<close> as that number, exactly up to 21474836, the greatest number of seconds whose ticks the kernel accepts in a
  call to sleep, and there is no overflow when the seconds are turned into ticks.
\<close>

theorem seconds_roundtrip:
  "parse_seconds (reverse_digits (digits_of (unat n))) = (if 100 * unat n \<le> 0x7FFFFFFF then Some n else None) \<and>
   (100 * unat n \<le> 0x7FFFFFFF \<longrightarrow> unat (n * 100) = 100 * unat n \<and> n * 100 \<le> SLEEP_MAXIMUM_TICKS)"
proof -
  have "decimal (rev (digits_of (unat n))) = unat n" "digits_only (rev (digits_of (unat n)))" "rev (digits_of (unat n)) \<noteq> []"
    by (simp_all add: digits_of_decimal)
  then have "parse_seconds (rev (digits_of (unat n))) = (if unat n \<le> 21474836 then Some n else None)"
    using seconds_loop_exact [of 0 "rev (digits_of (unat n))"] by (simp add: parse_seconds_def decimal_def Let_def)
  moreover have "unat (n * 100) = 100 * unat n" if "100 * unat n \<le> 0x7FFFFFFF" using that by (simp add: unat_word_ariths)
  ultimately show ?thesis unfolding reverse_digits_rev by (auto simp: word_le_nat_alt)
qed

theorem seconds_roundtrip_witness:
  "parse_seconds [0x34, 0x32] = Some 42 \<and> unat (42 * 100 :: u32) = 4200"
proof -
  have digits: "reverse_digits (digits_of 42) = [0x34, 0x32]" unfolding reverse_digits_rev by (simp add: digits_of.simps)
  have n: "unat (42 :: u32) = 42" by simp
  show ?thesis using seconds_roundtrip [of 42] unfolding n digits by simp
qed

end
