(* ===== verification/Spec2Isabelle.thy ===== *)
theory Spec2Isabelle
  imports Heap_Correct Space_Correct Elf_Correct Minifs_Volume Keyboard Sched_Correct Usercopy_Correct Path_Correct Edit_Correct Shell_Correct Shell_Display User_Calls Programs_Correct
begin

text \<open>
  \<^bold>\<open>MiniOrangeOS\<close>, a 32-bit x86 teaching kernel: this development models its C code and proves what
  makes it correct.
\<close>

end
